(* ===== verification/Prelude.thy ===== *)
theory Prelude
  imports Main "HOL-Library.Word" "HOL-Library.Signed_Division" "HOL-Library.Sublist"
begin

text \<open>
  Shared vocabulary of the development: the Go values every component uses
  (64-bit integers with wrap-around, byte strings, error values, panics), the parts of the
  Go standard library the service calls (\<open>strconv.FormatInt\<close>, \<open>strings.Split\<close>,
  \<open>strings.SplitN\<close>), the collections of rewrite rules, and the lemmas on digits,
  separators and splitting that several components rest on.
\<close>

named_theorems go_defs \<open>definitions of Go primitives, unfolded by evaluation proofs\<close>

section \<open>Integers\<close>

text \<open>
  A Go \<open>int64\<close> (and \<open>int\<close> on the 64-bit targets the service is built for) is kept as an
  \<open>int\<close> and every operation that may overflow is followed by \<open>wrap64\<close>.
\<close>

definition wrap64 :: "int \<Rightarrow> int" where
  "wrap64 x = (x + 2 ^ 63) mod 2 ^ 64 - 2 ^ 63"

definition in_int64 :: "int \<Rightarrow> bool" where
  "in_int64 x \<longleftrightarrow> - (2 ^ 63) \<le> x \<and> x < 2 ^ 63"

definition wrap32 :: "int \<Rightarrow> int" where
  "wrap32 x = (x + 2 ^ 31) mod 2 ^ 32 - 2 ^ 31"

definition in_int32 :: "int \<Rightarrow> bool" where
  "in_int32 x \<longleftrightarrow> - (2 ^ 31) \<le> x \<and> x < 2 ^ 31"

lemma wrap64_id [simp]: "in_int64 x \<Longrightarrow> wrap64 x = x"
  by (simp add: wrap64_def in_int64_def)

lemma wrap64_range [simp, intro]: "in_int64 (wrap64 x)"
  by (simp add: wrap64_def in_int64_def)

lemma wrap32_id [simp]: "in_int32 x \<Longrightarrow> wrap32 x = x"
  by (simp add: wrap32_def in_int32_def)

lemma wrap32_range [simp, intro]: "in_int32 (wrap32 x)"
  by (simp add: wrap32_def in_int32_def)

lemma in_int64_zero [simp]: "in_int64 0"
  by (simp add: in_int64_def)

text \<open>\<open>wrap64\<close> is arithmetic modulo $2^{64}$: inner wraps can be dropped.\<close>

lemma wrap64_cong: "a mod 2 ^ 64 = b mod 2 ^ 64 \<Longrightarrow> wrap64 a = wrap64 b"
  unfolding wrap64_def by (metis mod_add_left_eq)

lemma wrap64_mod: "wrap64 x mod 2 ^ 64 = x mod 2 ^ 64"
  unfolding wrap64_def by (simp add: mod_diff_left_eq)

lemma wrap64_wrap64 [simp]: "wrap64 (wrap64 x) = wrap64 x"
  by simp

lemma wrap64_add_left [simp]: "wrap64 (wrap64 x + y) = wrap64 (x + y)"
  by (rule wrap64_cong) (metis wrap64_mod mod_add_left_eq)

lemma wrap64_mult_left [simp]: "wrap64 (wrap64 x * y) = wrap64 (x * y)"
  by (rule wrap64_cong) (metis wrap64_mod mod_mult_left_eq)

lemma wrap64_minus [simp]: "wrap64 (- wrap64 x) = wrap64 (- x)"
  by (rule wrap64_cong) (metis wrap64_mod mod_minus_eq)

section \<open>Errors, panics and process exit\<close>

text \<open>
  Go errors are compared by identity against a few package variables
  (\<open>redis.ErrNil\<close>, \<open>redis.ErrPoolExhausted\<close>, \<open>bufio.ErrBufferFull\<close>, \<open>io.EOF\<close>),
  so these are constructors of their own; \<open>errors.New\<close> and \<open>fmt.Errorf\<close> values are
  determined by their text, and the typed errors \<open>redis.Error\<close> and
  \<open>protocolError\<close> by theirs.
\<close>

datatype error =
    ErrorString string
  | RedisError string
  | ProtocolError string
  | NetError string
  | ErrNil
  | ErrPoolExhausted
  | ErrConnClosed
  | ErrBufferFull
  | ErrRange
  | ErrSyntax
  | EOF
  | ErrUnexpectedEOF

fun error_text :: "error \<Rightarrow> string" where
  "error_text (ErrorString s) = s"
| "error_text (RedisError s) = s"
| "error_text (ProtocolError s) =
     ''redigo: '' @ s @ '' (possible server error or unsupported concurrent read by application)''"
| "error_text (NetError s) = s"
| "error_text ErrNil = ''redigo: nil returned''"
| "error_text ErrPoolExhausted = ''redigo: connection pool exhausted''"
| "error_text ErrConnClosed = ''redigo: connection closed''"
| "error_text ErrBufferFull = ''bufio: buffer full''"
| "error_text ErrRange = ''value out of range''"
| "error_text ErrSyntax = ''invalid syntax''"
| "error_text EOF = ''EOF''"
| "error_text ErrUnexpectedEOF = ''unexpected EOF''"

text \<open>
  A call that can panic (index out of range, nil dereference, bad \<open>make\<close> size) or end
  the process (\<open>glog.Fatalf\<close>) has an \<open>outcome\<close>.
\<close>

datatype 'a outcome = Returns 'a | Panics string | Exits string

fun bind_outcome :: "'a outcome \<Rightarrow> ('a \<Rightarrow> 'b outcome) \<Rightarrow> 'b outcome" where
  "bind_outcome (Returns a) f = f a"
| "bind_outcome (Panics m) f = Panics m"
| "bind_outcome (Exits m) f = Exits m"

lemma bind_outcome_Returns_iff:
  "bind_outcome r f = Returns b \<longleftrightarrow> (\<exists>a. r = Returns a \<and> f a = Returns b)"
  by (cases r) auto

section \<open>Decimal notation: \<open>strconv.FormatInt(i, 10)\<close>\<close>

definition digit_char :: "nat \<Rightarrow> char" where
  "digit_char n = char_of (48 + n)"

fun digits :: "nat \<Rightarrow> string" where
  "digits n = (if n < 10 then [digit_char n] else digits (n div 10) @ [digit_char (n mod 10)])"

declare digits.simps [simp del]

definition FormatInt :: "int \<Rightarrow> string" where
  "FormatInt i = (if i < 0 then CHR ''-'' # digits (nat (- i)) else digits (nat i))"

definition is_digit :: "char \<Rightarrow> bool" where
  "is_digit c \<longleftrightarrow> 48 \<le> (of_char c :: nat) \<and> (of_char c :: nat) \<le> 57"

definition digit_val :: "char \<Rightarrow> nat" where
  "digit_val c = of_char c - 48"

text \<open>The value of a digit string, read left to right.\<close>

definition dec_val :: "string \<Rightarrow> nat" where
  "dec_val s = foldl (\<lambda>n c. 10 * n + digit_val c) 0 s"

lemma of_digit_char: "n < 10 \<Longrightarrow> (of_char (digit_char n) :: nat) = 48 + n"
  by (simp add: digit_char_def)

lemma is_digit_digit_char [simp]: "n < 10 \<Longrightarrow> is_digit (digit_char n)"
  by (simp add: is_digit_def of_digit_char)

lemma digit_val_digit_char [simp]: "n < 10 \<Longrightarrow> digit_val (digit_char n) = n"
  by (simp add: digit_val_def of_digit_char)

lemma digits_all_digit: "\<forall>c \<in> set (digits n). is_digit c"
proof (induction n rule: digits.induct)
  case (1 n)
  then show ?case
    by (cases "n < 10") (auto simp: digits.simps [of n])
qed

lemma digits_nonempty [simp]: "digits n \<noteq> []"
  by (simp add: digits.simps [of n])

lemma dec_val_snoc [simp]: "dec_val (s @ [c]) = 10 * dec_val s + digit_val c"
  by (simp add: dec_val_def)

lemma dec_val_Nil [simp]: "dec_val [] = 0"
  by (simp add: dec_val_def)

lemma dec_val_digits [simp]: "dec_val (digits n) = n"
proof (induction n rule: digits.induct)
  case (1 n)
  show ?case
  proof (cases "n < 10")
    case True
    then show ?thesis
      using dec_val_snoc [of "[]" "digit_char n"] by (simp add: digits.simps [of n])
  next
    case False
    with 1 show ?thesis by (simp add: digits.simps [of n])
  qed
qed

lemma digits_inject [simp]: "digits m = digits n \<longleftrightarrow> m = n"
  by (metis dec_val_digits)

lemma not_is_digit_simps [simp]:
  "\<not> is_digit (CHR ''-'')" "\<not> is_digit (CHR '':'')" "\<not> is_digit (CHR 0x0D)" "\<not> is_digit (CHR 0x0A)"
  by (simp_all add: is_digit_def)

lemma digits_not_minus: "digits n \<noteq> CHR ''-'' # s"
  using digits_all_digit [of n] by auto

lemma FormatInt_inject [simp]: "FormatInt i = FormatInt j \<longleftrightarrow> i = j"
proof
  assume "FormatInt i = FormatInt j"
  then show "i = j"
    by (auto simp: FormatInt_def digits_not_minus digits_not_minus [THEN not_sym]
        split: if_splits)
qed simp

lemma FormatInt_no_colon: "CHR '':'' \<notin> set (FormatInt i)"
  using digits_all_digit [of "nat i"] digits_all_digit [of "nat (- i)"]
  by (auto simp: FormatInt_def)

lemma FormatInt_nonempty [simp]: "FormatInt i \<noteq> []"
  by (simp add: FormatInt_def)

lemma digits_length_bound: "n < 10 ^ k \<Longrightarrow> 0 < k \<Longrightarrow> length (digits n) \<le> k"
proof (induction n arbitrary: k rule: digits.induct)
  case (1 n)
  show ?case
  proof (cases "n < 10")
    case True
    with 1 show ?thesis by (simp add: digits.simps [of n])
  next
    case False
    have "k \<noteq> 1" using 1(2) False by auto
    with 1(3) obtain k' where k: "k = Suc k'" "0 < k'"
      by (cases k) auto
    with 1(2) have "n div 10 < 10 ^ k'" by (simp add: div_less_iff_less_mult mult.commute)
    from 1(1) [OF False this k(2)] False k show ?thesis
      by (simp add: digits.simps [of n])
  qed
qed

section \<open>Separators: \<open>strings.SplitN\<close> and \<open>strings.Split\<close>\<close>

text \<open>
  \<open>cut_at sep s\<close> is the text before and after the first occurrence of a non-empty
  separator. \<open>SplitN\<close> cuts at most \<open>n - 1\<close> times, \<open>Split\<close> as often as the separator
  occurs; a text of length \<open>k\<close> has at most \<open>k\<close> separators, so \<open>k + 1\<close> pieces suffice.
\<close>

fun cut_at :: "string \<Rightarrow> string \<Rightarrow> (string \<times> string) option" where
  "cut_at sep [] = None"
| "cut_at sep (c # s) =
     (if prefix sep (c # s) then Some ([], drop (length sep) (c # s))
      else map_option (\<lambda>(a, b). (c # a, b)) (cut_at sep s))"

fun SplitN :: "string \<Rightarrow> string \<Rightarrow> nat \<Rightarrow> string list" where
  "SplitN s sep 0 = []"
| "SplitN s sep (Suc 0) = [s]"
| "SplitN s sep (Suc (Suc n)) =
     (case cut_at sep s of None \<Rightarrow> [s] | Some (a, b) \<Rightarrow> a # SplitN b sep (Suc n))"

definition Split :: "string \<Rightarrow> string \<Rightarrow> string list" where
  "Split s sep = SplitN s sep (length s + 1)"

lemma cut_char_none: "c \<notin> set s \<Longrightarrow> cut_at [c] s = None"
  by (induction s) auto

lemma cut_char_first: "c \<notin> set a \<Longrightarrow> cut_at [c] (a @ c # b) = Some (a, b)"
  by (induction a) auto

lemma cut_Some: "cut_at sep s = Some (a, b) \<Longrightarrow> s = a @ sep @ b"
  by (induction s arbitrary: a) (auto simp: prefix_def split: if_splits)

lemma cut_None_iff: "sep \<noteq> [] \<Longrightarrow> cut_at sep s = None \<longleftrightarrow> \<not> sublist sep s"
  by (induction s) (auto simp: sublist_Cons_right)

lemma Split_length_one:
  assumes "sep \<noteq> []" and "\<not> sublist sep s"
  shows "Split s sep = [s]"
proof -
  from assms have "cut_at sep s = None" by (simp add: cut_None_iff)
  then show ?thesis by (cases "length s") (auto simp: Split_def)
qed

lemma Split_second:
  assumes "cut_at sep s = Some (a, b)"
  shows "\<exists>ps. Split s sep = a # ps \<and> ps \<noteq> []"
proof (cases s)
  case Nil
  with assms show ?thesis by simp
next
  case (Cons c s')
  with assms show ?thesis
    by (cases "length s'") (auto simp: Split_def simp del: cut_at.simps split: option.split)
qed

text \<open>
  The last occurrence of a separator character splits a string uniquely: the fact behind
  every key of the form \<open>prefix:number\<close>.
\<close>

lemma last_sep_unique:
  fixes c :: char
  assumes "p @ c # s = q @ c # t" and "c \<notin> set s" and "c \<notin> set t"
  shows "p = q \<and> s = t"
proof -
  have "rev s @ c # rev p = rev t @ c # rev q"
    using arg_cong [OF assms(1), of rev] by simp
  then have "cut_at [c] (rev s @ c # rev p) = cut_at [c] (rev t @ c # rev q)"
    by simp
  with assms(2,3) show ?thesis by (simp add: cut_char_first)
qed

lemma first_sep_unique:
  fixes c :: char
  assumes "p @ c # s = q @ c # t" and "c \<notin> set p" and "c \<notin> set q"
  shows "p = q \<and> s = t"
proof -
  have "Some (p, s) = cut_at [c] (p @ c # s)"
    using assms(2) by (simp add: cut_char_first)
  also have "\<dots> = Some (q, t)"
    unfolding assms(1) using assms(3) by (simp add: cut_char_first)
  finally show ?thesis by simp
qed

end
