(* ===== verification/Go_Time.thy ===== *)
theory Go_Time
  imports Prelude
begin

text \<open>
  The part of Go's package \<open>time\<close> the service uses. A \<open>time.Duration\<close> is an \<open>int64\<close>
  count of nanoseconds; a \<open>time.Time\<close> is kept as its distance from the Unix epoch in
  nanoseconds. The operating system's clock is the environment: \<open>time.Now()\<close> returns the
  next of its readings. \<open>Duration.Seconds\<close> is a \<open>float64\<close>, so the conversion
  \<open>int64(d.Seconds())\<close> is modelled with the rounding of IEEE double arithmetic.
\<close>

type_synonym duration = int
type_synonym time = int

definition Nanosecond :: duration where "Nanosecond = 1"
definition Second :: duration where "Second = 1000000000"
definition Minute :: duration where "Minute = 60000000000"
definition Hour :: duration where "Hour = 3600000000000"

lemmas duration_defs [go_defs] = Nanosecond_def Second_def Minute_def Hour_def

definition time_Add :: "time \<Rightarrow> duration \<Rightarrow> time" where
  "time_Add t d = t + d"

text \<open>\<open>Sub\<close> saturates at the smallest and largest duration.\<close>

definition time_Sub :: "time \<Rightarrow> time \<Rightarrow> duration" where
  "time_Sub t u = max (- (2 ^ 63)) (min (2 ^ 63 - 1) (t - u))"

lemma time_Sub_exact: "in_int64 (t - u) \<Longrightarrow> time_Sub t u = t - u"
  by (simp add: time_Sub_def in_int64_def)

lemma time_Sub_self [simp]: "time_Sub t t = 0"
  by (simp add: time_Sub_def)

text \<open>\<open>Unix()\<close> is the count of whole seconds, rounded down.\<close>

definition Unix :: "time \<Rightarrow> int" where
  "Unix t = t div 1000000000"

definition UnixNano :: "time \<Rightarrow> int" where
  "UnixNano t = wrap64 t"

section \<open>\<open>int64(d.Seconds())\<close>\<close>

text \<open>
  \<open>Seconds\<close> is \<open>float64(d / Second) + float64(d % Second) * 1e-9\<close>. The double nearest to
  \<open>1e-9\<close> is \<open>0x112E0BE826D695 * 2^-82\<close>; every intermediate value is a multiple of
  \<open>2^-82\<close>, so a double is kept as a natural number in that unit and \<open>round53\<close> rounds
  it to 53 significant bits, ties to even.
\<close>

fun bit_len :: "nat \<Rightarrow> nat" where
  "bit_len n = (if n = 0 then 0 else Suc (bit_len (n div 2)))"

declare bit_len.simps [simp del]

definition round53 :: "nat \<Rightarrow> nat" where
  "round53 n =
     (let k = bit_len n - 53; q = n div 2 ^ k; r = n mod 2 ^ k
      in if k = 0 then n
         else if 2 * r < 2 ^ k \<or> 2 * r = 2 ^ k \<and> even q then q * 2 ^ k
         else (q + 1) * 2 ^ k)"

definition Seconds_fix :: "nat \<Rightarrow> nat" where
  "Seconds_fix d =
     round53 (d div 1000000000 * 2 ^ 82 + round53 (d mod 1000000000 * 0x112E0BE826D695))"

definition int64_Seconds :: "duration \<Rightarrow> int" where
  "int64_Seconds d = sgn d * int (Seconds_fix (nat \<bar>d\<bar>) div 2 ^ 82)"

lemma bit_len_bounds: "0 < n \<Longrightarrow> 2 ^ (bit_len n - 1) \<le> n \<and> n < 2 ^ bit_len n"
proof (induction n rule: bit_len.induct)
  case (1 n)
  show ?case
  proof (cases "n = 1")
    case True
    then show ?thesis by (simp add: bit_len.simps [of "Suc 0"] bit_len.simps [of 0])
  next
    case False
    with 1(2) have pos: "0 < n div 2" by simp
    then obtain m where m: "bit_len (n div 2) = Suc m"
      by (simp add: bit_len.simps [of "n div 2"])
    have "2 ^ m \<le> n div 2 \<and> n div 2 < 2 ^ Suc m"
      using 1 pos m by simp
    then have "2 * 2 ^ m \<le> n \<and> n < 2 * 2 ^ Suc m"
      by linarith
    with 1(2) m show ?thesis by (simp add: bit_len.simps [of n])
  qed
qed

lemma bit_len_le: "n < 2 ^ m \<Longrightarrow> bit_len n \<le> m"
proof (rule ccontr)
  assume n: "n < 2 ^ m" and "\<not> bit_len n \<le> m"
  then have m: "m \<le> bit_len n - 1" and "0 < n" by (auto simp: bit_len.simps [of n] split: if_splits)
  then have "2 ^ m \<le> n"
    using bit_len_bounds [of n] power_increasing [OF m, of "2 :: nat"] by linarith
  with n show False by simp
qed

lemma round53_exact: "2 ^ (bit_len n - 53) dvd n \<Longrightarrow> round53 n = n"
  by (auto simp: round53_def Let_def dvd_eq_mod_eq_0)

lemma round53_zero [simp]: "round53 0 = 0"
  by (simp add: round53_def bit_len.simps [of 0])

lemma round53_ge:
  assumes "2 ^ m \<le> n"
  shows "2 ^ m \<le> round53 n"
proof (cases "bit_len n \<le> 53")
  case True
  with assms show ?thesis by (simp add: round53_def)
next
  case False
  let ?k = "bit_len n - 53"
  have n: "0 < n" using assms by (cases n) auto
  have m: "m \<le> bit_len n - 1"
  proof (rule ccontr)
    assume "\<not> m \<le> bit_len n - 1"
    then have "bit_len n \<le> m" by simp
    then have "(2 :: nat) ^ bit_len n \<le> 2 ^ m" by (simp add: power_increasing)
    with assms bit_len_bounds [OF n] show False by linarith
  qed
  have split: "(2 :: nat) ^ (bit_len n - 1) = 2 ^ 52 * 2 ^ ?k"
  proof -
    have "bit_len n - 1 = 52 + ?k" using False by simp
    then show ?thesis by (simp only: power_add)
  qed
  have "2 ^ 52 \<le> n div 2 ^ ?k"
    using bit_len_bounds [OF n] unfolding split by (simp add: less_eq_div_iff_mult_less_eq)
  then have "2 ^ 52 * 2 ^ ?k \<le> n div 2 ^ ?k * 2 ^ ?k" by simp
  also have "\<dots> \<le> round53 n"
    using False by (simp add: round53_def Let_def)
  finally show ?thesis
    using split power_increasing [OF m, of "2 :: nat"] by linarith
qed

lemma Seconds_whole:
  assumes "s < 2 ^ 53"
  shows "Seconds_fix (s * 1000000000) = s * 2 ^ 82"
proof -
  have "s * 2 ^ 82 < 2 ^ (53 + 82)"
    using assms by (subst power_add) simp
  then have "bit_len (s * 2 ^ 82) - 53 \<le> 82"
    using bit_len_le by fastforce
  then have "(2 :: nat) ^ (bit_len (s * 2 ^ 82) - 53) dvd s * 2 ^ 82"
    by (meson dvd_mult le_imp_power_dvd)
  then show ?thesis by (simp add: Seconds_fix_def round53_exact)
qed

text \<open>For a whole number of seconds the conversion is exact.\<close>

lemma int64_Seconds_whole:
  assumes "0 \<le> s" and "s < 2 ^ 53"
  shows "int64_Seconds (s * Second) = s"
proof -
  have n: "nat \<bar>s * Second\<bar> = nat s * 1000000000"
    using assms(1) by (simp add: Second_def nat_mult_distrib)
  have "nat s < 2 ^ 53" using assms by (simp add: nat_less_iff)
  from Seconds_whole [OF this] have "Seconds_fix (nat \<bar>s * Second\<bar>) div 2 ^ 82 = nat s"
    unfolding n by simp
  with assms show ?thesis
    by (cases "s = 0") (simp_all add: int64_Seconds_def Second_def sgn_mult sgn_if)
qed

text \<open>A duration of at least a second never converts to zero, whatever the rounding.\<close>

lemma int64_Seconds_pos:
  assumes "Second \<le> d"
  shows "1 \<le> int64_Seconds d"
proof -
  have "1 \<le> nat \<bar>d\<bar> div 1000000000"
    using assms by (simp add: Second_def div_greater_zero_iff Suc_le_eq)
  then have "2 ^ 82 \<le> Seconds_fix (nat \<bar>d\<bar>)"
    unfolding Seconds_fix_def by (intro round53_ge) (auto intro: trans_le_add1)
  then have "1 \<le> Seconds_fix (nat \<bar>d\<bar>) div 2 ^ 82"
    by (simp add: div_greater_zero_iff Suc_le_eq)
  with assms show ?thesis by (simp add: int64_Seconds_def Second_def sgn_if)
qed

section \<open>The operating system's clock\<close>

record os_clock =
  readings :: "nat \<Rightarrow> time"
  reads :: nat

definition time_Now :: "os_clock \<Rightarrow> time \<times> os_clock" where
  "time_Now w = (readings w (reads w), w\<lparr>reads := Suc (reads w)\<rparr>)"

end
