(* ===== verification/Clock_Pkg.thy ===== *)
theory Clock_Pkg
  imports Go_Time
begin

text \<open>
  The vendored package \<open>clock\<close> (\<open>101loops/clock\<close>): the \<open>Clock\<close> interface, its
  implementation over the operating system's clock (\<open>real.go\<close>) and the manipulable mock
  (\<open>mock.go\<close>) the service's tests run on. A clock is used through one operation, \<open>Now\<close>,
  which reads and advances the environment; the locale \<open>clock_iface\<close> is what the bucket
  computation relies on. Mutexes are left out: every method body runs under its lock, so
  each method is one step. \<open>Tick\<close>, \<open>Ticker\<close> and \<open>After\<close> only forward to the runtime's
  timers, which the service does not use.
\<close>

section \<open>real.go\<close>

definition realClock_Now :: "os_clock \<Rightarrow> time \<times> os_clock" where
  "realClock_Now w = time_Now w"

text \<open>\<open>Sleep\<close> is its effect on the runtime: the duration handed to \<open>time.Sleep\<close>.\<close>

definition realClock_Sleep :: "duration \<Rightarrow> duration" where
  "realClock_Sleep d = d"

section \<open>mock.go\<close>

record mock =
  base :: time
  setAt :: time
  frozen :: bool
  sleep :: duration

definition NewMock :: "os_clock \<Rightarrow> mock \<times> os_clock" where
  "NewMock w =
     (let (b, w1) = time_Now w; (s, w2) = time_Now w1
      in (\<lparr>base = b, setAt = s, frozen = False, sleep = -1\<rparr>, w2))"

definition mock_elapsed :: "mock \<times> os_clock \<Rightarrow> duration \<times> os_clock" where
  "mock_elapsed cw = (let (n, w') = time_Now (snd cw) in (time_Sub n (setAt (fst cw)), w'))"

definition mock_Now :: "mock \<times> os_clock \<Rightarrow> time \<times> mock \<times> os_clock" where
  "mock_Now cw =
     (if frozen (fst cw) then (setAt (fst cw), cw)
      else let (d, w') = mock_elapsed cw in (time_Add (base (fst cw)) d, fst cw, w'))"

definition mock_Set :: "mock \<times> os_clock \<Rightarrow> time \<Rightarrow> mock \<times> os_clock" where
  "mock_Set cw t = (let (n, w') = time_Now (snd cw) in ((fst cw)\<lparr>base := t, setAt := n\<rparr>, w'))"

definition mock_Add :: "mock \<times> os_clock \<Rightarrow> duration \<Rightarrow> mock \<times> os_clock" where
  "mock_Add cw d =
     (let (n, w') = time_Now (snd cw)
      in ((fst cw)\<lparr>base := time_Add (base (fst cw)) d, setAt := n\<rparr>, w'))"

definition mock_FreezeAt :: "mock \<times> os_clock \<Rightarrow> time \<Rightarrow> mock \<times> os_clock" where
  "mock_FreezeAt cw t = ((fst cw)\<lparr>frozen := True, setAt := t\<rparr>, snd cw)"

definition mock_Freeze :: "mock \<times> os_clock \<Rightarrow> mock \<times> os_clock" where
  "mock_Freeze cw = (let (t, cw') = mock_Now cw in mock_FreezeAt cw' t)"

definition mock_IsFrozen :: "mock \<times> os_clock \<Rightarrow> bool" where
  "mock_IsFrozen cw = frozen (fst cw)"

definition mock_Unfreeze :: "mock \<times> os_clock \<Rightarrow> mock \<times> os_clock" where
  "mock_Unfreeze cw =
     (let (d, w') = mock_elapsed cw
      in ((fst cw)\<lparr>setAt := time_Add (setAt (fst cw)) d, frozen := False\<rparr>, w'))"

definition mock_SetSleep :: "mock \<times> os_clock \<Rightarrow> duration \<Rightarrow> mock \<times> os_clock" where
  "mock_SetSleep cw d = ((fst cw)\<lparr>sleep := d\<rparr>, snd cw)"

definition mock_NoSleep :: "mock \<times> os_clock \<Rightarrow> mock \<times> os_clock" where
  "mock_NoSleep cw = mock_SetSleep cw 0"

definition mock_ResetSleep :: "mock \<times> os_clock \<Rightarrow> mock \<times> os_clock" where
  "mock_ResetSleep cw = mock_SetSleep cw (-1)"

definition mock_Sleep :: "mock \<times> os_clock \<Rightarrow> duration \<Rightarrow> duration" where
  "mock_Sleep cw d = (if sleep (fst cw) = -1 then d else sleep (fst cw))"

lemmas mock_defs [go_defs] = NewMock_def mock_elapsed_def mock_Now_def mock_Set_def mock_Add_def
  mock_FreezeAt_def mock_Freeze_def mock_IsFrozen_def mock_Unfreeze_def mock_SetSleep_def
  mock_NoSleep_def mock_ResetSleep_def mock_Sleep_def time_Now_def time_Add_def

section \<open>The interface\<close>

text \<open>
  What a client of \<open>Clock\<close> relies on: \<open>window lo hi n w\<close> says that the next \<open>n\<close>
  readings in environment \<open>w\<close> fall into \<open>[lo, hi)\<close>, and reading the clock once uses up
  one of them.
\<close>

locale clock_iface =
  fixes now :: "'w \<Rightarrow> time \<times> 'w"
    and window :: "time \<Rightarrow> time \<Rightarrow> nat \<Rightarrow> 'w \<Rightarrow> bool"
  assumes window_reading: "window lo hi (Suc n) w \<Longrightarrow> lo \<le> fst (now w) \<and> fst (now w) < hi"
    and window_rest: "window lo hi (Suc n) w \<Longrightarrow> window lo hi n (snd (now w))"

definition os_window :: "time \<Rightarrow> time \<Rightarrow> nat \<Rightarrow> os_clock \<Rightarrow> bool" where
  "os_window lo hi n w \<longleftrightarrow>
     (\<forall>k < n. lo \<le> readings w (reads w + k) \<and> readings w (reads w + k) < hi)"

text \<open>What the mock shows when the operating system's clock reads \<open>r\<close>.\<close>

definition mock_shows :: "mock \<Rightarrow> time \<Rightarrow> time" where
  "mock_shows c r = (if frozen c then setAt c else base c + time_Sub r (setAt c))"

definition mock_window :: "time \<Rightarrow> time \<Rightarrow> nat \<Rightarrow> mock \<times> os_clock \<Rightarrow> bool" where
  "mock_window lo hi n cw \<longleftrightarrow>
     (\<forall>k < n. lo \<le> mock_shows (fst cw) (readings (snd cw) (reads (snd cw) + k)) \<and>
              mock_shows (fst cw) (readings (snd cw) (reads (snd cw) + k)) < hi)"

interpretation real_clock: clock_iface realClock_Now os_window
  by unfold_locales (auto simp: os_window_def realClock_Now_def time_Now_def)

interpretation mock_clock: clock_iface mock_Now mock_window
proof unfold_locales
  fix lo hi n cw
  assume w: "mock_window lo hi (Suc n) cw"
  then show "lo \<le> fst (mock_Now cw) \<and> fst (mock_Now cw) < hi"
    by (auto simp: mock_window_def mock_shows_def mock_defs Let_def dest: spec [of _ 0])
  show "mock_window lo hi n (snd (mock_Now cw))"
    unfolding mock_window_def
  proof (intro allI impI)
    fix k assume "k < n"
    with w [unfolded mock_window_def, rule_format, of k] w [unfolded mock_window_def, rule_format, of "Suc k"]
    show "lo \<le> mock_shows (fst (snd (mock_Now cw)))
            (readings (snd (snd (mock_Now cw))) (reads (snd (snd (mock_Now cw))) + k)) \<and>
          mock_shows (fst (snd (mock_Now cw)))
            (readings (snd (snd (mock_Now cw))) (reads (snd (snd (mock_Now cw))) + k)) < hi"
      by (auto simp: mock_shows_def mock_defs Let_def)
  qed
qed

section \<open>Behaviour of the mock\<close>

text \<open>A frozen clock stands still, at the moment it was frozen at.\<close>

lemma mock_FreezeAt_Now: "mock_Now (mock_FreezeAt cw t) = (t, mock_FreezeAt cw t)"
  by (simp add: mock_defs)

lemma mock_Freeze_Now: "fst (mock_Now (mock_Freeze cw)) = fst (mock_Now cw)"
  by (simp add: mock_defs Let_def split: prod.splits)

text \<open>
  A running clock that has been set to \<open>t\<close> shows \<open>t\<close> plus the time that has passed on the
  operating system's clock since.
\<close>

lemma mock_Set_Now:
  assumes "\<not> frozen c"
    and "in_int64 (readings w (Suc (reads w)) - readings w (reads w))"
  shows "fst (mock_Now (mock_Set (c, w) t)) =
           t + (readings w (Suc (reads w)) - readings w (reads w))"
  using assms by (simp add: mock_defs time_Sub_exact)

text \<open>
  On a frozen clock \<open>Set\<close> does not apply the passed-in time: \<open>Now\<close> then shows the operating
  system's reading taken inside \<open>Set\<close>.
\<close>

lemma mock_Set_frozen_Now:
  "frozen c \<Longrightarrow> fst (mock_Now (mock_Set (c, w) t)) = readings w (reads w)"
  by (simp add: mock_defs)

text \<open>\<open>Unfreeze\<close> restarts the clock at \<open>base\<close>, not at the moment it was frozen at.\<close>

lemma mock_Unfreeze_Now:
  assumes "frozen c" and "in_int64 (readings w (reads w) - setAt c)"
    and "in_int64 (readings w (Suc (reads w)) - readings w (reads w))"
  shows "fst (mock_Now (mock_Unfreeze (c, w))) =
           base c + (readings w (Suc (reads w)) - readings w (reads w))"
  using assms by (simp add: mock_defs time_Sub_exact)

end
