(* ===== verification/Util_Bucket.thy ===== *)
theory Util_Bucket
  imports Clock_Pkg
begin

text \<open>
  \<open>util/bucket.go\<close>: time buckets as Redis keys. A bucket is named
  \<open>prefix:n\<close> where \<open>n\<close> is the Unix time divided by the bucket size in seconds; the
  presence manager writes a device into the current bucket of its user and reads the last
  buckets back. The operations take the clock's \<open>Now\<close> as an argument, as the code takes a
  \<open>clock.Clock\<close>; what they need of it is the locale \<open>clock_iface\<close>.
\<close>

record Bucket =
  bucket_prefix :: string
  bucketSize :: duration
  timestamp :: time

text \<open>
  The integer division panics on a zero divisor, which only a bucket not built by
  \<open>BucketWithOffset\<close> can have. Go's division truncates towards zero.
\<close>

definition Bucket_String :: "Bucket \<Rightarrow> string outcome" where
  "Bucket_String b =
     (let d = int64_Seconds (bucketSize b)
      in if d = 0 then Panics ''runtime error: integer divide by zero''
         else Returns (bucket_prefix b @ '':'' @ FormatInt (Unix (timestamp b) sdiv d)))"

definition BucketWithOffset ::
  "('w \<Rightarrow> time \<times> 'w) \<Rightarrow> string \<Rightarrow> duration \<Rightarrow> int \<Rightarrow> 'w \<Rightarrow> Bucket \<times> 'w" where
  "BucketWithOffset now p bs offset w =
     (let bs = (if bs \<le> Second then Second else bs); (t, w') = now w
      in (\<lparr>bucket_prefix = p, bucketSize = bs, timestamp = time_Add t (wrap64 (offset * bs))\<rparr>, w'))"

definition CurrentBucket ::
  "('w \<Rightarrow> time \<times> 'w) \<Rightarrow> string \<Rightarrow> duration \<Rightarrow> 'w \<Rightarrow> Bucket \<times> 'w" where
  "CurrentBucket now p bs w = BucketWithOffset now p bs 0 w"

text \<open>
  \<open>BucketRange\<close>: \<open>make([]Bucket, 0, offsetEnd-offsetStart)\<close> panics on a negative
  capacity; then the loop appends one bucket per offset, reading the clock each time.
\<close>

fun BucketRange_loop ::
  "('w \<Rightarrow> time \<times> 'w) \<Rightarrow> string \<Rightarrow> duration \<Rightarrow> int list \<Rightarrow> 'w \<Rightarrow> Bucket list \<times> 'w" where
  "BucketRange_loop now p bs [] w = ([], w)"
| "BucketRange_loop now p bs (i # is) w =
     (let (b, w1) = BucketWithOffset now p bs i w;
          (rest, w2) = BucketRange_loop now p bs is w1
      in (b # rest, w2))"

definition BucketRange ::
  "('w \<Rightarrow> time \<times> 'w) \<Rightarrow> string \<Rightarrow> duration \<Rightarrow> int \<Rightarrow> int \<Rightarrow> 'w \<Rightarrow> (Bucket list \<times> 'w) outcome" where
  "BucketRange now p bs offsetStart offsetEnd w =
     (if wrap64 (offsetEnd - offsetStart) < 0
      then Panics ''runtime error: makeslice: cap out of range''
      else Returns (BucketRange_loop now p bs [offsetStart..offsetEnd] w))"

lemmas bucket_defs [go_defs] = Bucket_String_def BucketWithOffset_def CurrentBucket_def BucketRange_def

section \<open>Bucket keys\<close>

text \<open>Buckets built by the package always print.\<close>

lemma BucketWithOffset_size: "Second \<le> bucketSize (fst (BucketWithOffset now p bs i w))"
  by (simp add: BucketWithOffset_def Let_def split: prod.split)

lemma BucketWithOffset_prints: "\<exists>s. Bucket_String (fst (BucketWithOffset now p bs i w)) = Returns s"
  using int64_Seconds_pos [OF BucketWithOffset_size, of now p bs i w]
  by (simp add: Bucket_String_def Let_def)

text \<open>
  A key determines its user and its bucket number, even where user ids contain colons: the
  number after the last colon has none.
\<close>

definition bucket_key :: "string \<Rightarrow> int \<Rightarrow> string" where
  "bucket_key p n = p @ '':'' @ FormatInt n"

lemma bucket_key_inject [simp]: "bucket_key p m = bucket_key q n \<longleftrightarrow> p = q \<and> m = n"
proof
  assume "bucket_key p m = bucket_key q n"
  then have "p @ CHR '':'' # FormatInt m = q @ CHR '':'' # FormatInt n"
    by (simp add: bucket_key_def)
  from last_sep_unique [OF this FormatInt_no_colon FormatInt_no_colon]
  show "p = q \<and> m = n" by simp
qed simp

lemma sdiv_int_nonneg: "0 \<le> (a :: int) \<Longrightarrow> 0 < d \<Longrightarrow> a sdiv d = a div d"
  by (auto simp: signed_divide_int_def sgn_if)

text \<open>
  The bucket number of a bucket of whole seconds: the time's own number shifted by the
  offset, as long as the shifted time is not before the epoch and the shift fits the
  duration type.
\<close>

lemma bucket_number_shift:
  assumes s: "0 < s" and t: "0 \<le> t + i * (s * Second)"
  shows "Unix (t + i * (s * Second)) sdiv s = Unix t div s + i"
proof -
  have "Unix (t + i * (s * Second)) = Unix t + i * s"
    by (simp add: Unix_def Second_def algebra_simps)
  moreover have "0 \<le> Unix (t + i * (s * Second))"
    using t by (simp add: Unix_def pos_imp_zdiv_nonneg_iff)
  ultimately show ?thesis using s by (simp add: sdiv_int_nonneg)
qed

lemma BucketWithOffset_String:
  assumes s: "1 \<le> s" "s < 2 ^ 53" and i: "in_int64 (i * (s * Second))"
    and t: "0 \<le> fst (now w) + i * (s * Second)"
  shows "Bucket_String (fst (BucketWithOffset now p (s * Second) i w)) =
           Returns (bucket_key p (Unix (fst (now w)) div s + i))"
proof -
  have size: "(if s * Second \<le> Second then Second else s * Second) = s * Second"
    using s by (auto simp: Second_def)
  have "Unix (fst (now w) + i * (s * Second)) sdiv s = Unix (fst (now w)) div s + i"
    using s t by (intro bucket_number_shift) auto
  with s i show ?thesis
    by (cases "now w") (simp add: Bucket_String_def BucketWithOffset_def size int64_Seconds_whole
        bucket_key_def Let_def time_Add_def)
qed

text \<open>The same from the bucket \<open>b\<close> the clock's reading falls into.\<close>

lemma BucketWithOffset_reading:
  assumes s: "1 \<le> s" "s < 2 ^ 53" and i: "in_int64 (i * (s * Second))" "0 \<le> b + i"
    and t: "b * (s * Second) \<le> fst (now w)" "fst (now w) < (b + 1) * (s * Second)"
  shows "Bucket_String (fst (BucketWithOffset now p (s * Second) i w)) = Returns (bucket_key p (b + i))"
proof -
  let ?S = "s * Second" and ?t = "fst (now w)"
  have S: "0 < ?S" using s by (simp add: Second_def)
  have "?t div ?S = b"
    using t S by (intro int_div_pos_eq [where r = "?t - b * ?S"]) (auto simp: algebra_simps)
  then have num: "Unix ?t div s = b"
    using s zdiv_zmult2_eq [of s ?t Second] by (simp add: Unix_def Second_def mult.commute)
  have "0 \<le> (b + i) * ?S" using i S by simp
  then have "0 \<le> ?t + i * ?S" using t by (simp add: algebra_simps)
  then show ?thesis using BucketWithOffset_String [OF s, of i now w] i num by simp
qed

section \<open>Ranges over any clock\<close>

text \<open>
  With all readings inside one bucket, a range of offsets gives exactly the consecutive
  bucket keys around it. Proved once for every clock.
\<close>

context clock_iface
begin

lemma range_loop_keys:
  assumes "1 \<le> s" "s < 2 ^ 53"
    and "window (b * (s * Second)) ((b + 1) * (s * Second)) (length is) w"
    and "\<forall>i \<in> set is. in_int64 (i * (s * Second)) \<and> 0 \<le> b + i"
  shows "map Bucket_String (fst (BucketRange_loop now p (s * Second) is w)) =
           map (\<lambda>i. Returns (bucket_key p (b + i))) is"
  using assms(3,4)
proof (induction "is" arbitrary: w)
  case Nil
  then show ?case by simp
next
  case (Cons i "is")
  let ?S = "s * Second"
  have "Bucket_String (fst (BucketWithOffset now p ?S i w)) = Returns (bucket_key p (b + i))"
    using window_reading Cons.prems by (intro BucketWithOffset_reading [OF assms(1,2)]) auto
  moreover have "snd (BucketWithOffset now p ?S i w) = snd (now w)"
    by (simp add: BucketWithOffset_def Let_def split: prod.split)
  moreover have "window (b * ?S) ((b + 1) * ?S) (length is) (snd (now w))"
    using window_rest Cons.prems(1) by simp
  ultimately show ?case
    using Cons.IH Cons.prems(2) by (simp add: case_prod_beta Let_def)
qed

lemma range_keys:
  assumes "1 \<le> s" "s < 2 ^ 53" and "in_int64 (hi - lo)" "lo \<le> hi"
    and "window (b * (s * Second)) ((b + 1) * (s * Second)) (nat (hi - lo + 1)) w"
    and "in_int64 (lo * (s * Second))" "in_int64 (hi * (s * Second))" and "0 \<le> b + lo"
  shows "\<exists>bs w'. BucketRange now p (s * Second) lo hi w = Returns (bs, w') \<and>
           map Bucket_String bs = map (\<lambda>i. Returns (bucket_key p (b + i))) [lo..hi]"
proof -
  have S: "0 < s * Second" using assms(1) by (simp add: Second_def)
  have "in_int64 (i * (s * Second))" if "lo \<le> i" "i \<le> hi" for i
  proof -
    have "lo * (s * Second) \<le> i * (s * Second)" "i * (s * Second) \<le> hi * (s * Second)"
      using that S by (auto intro!: mult_right_mono)
    with assms(6,7) show ?thesis unfolding in_int64_def by linarith
  qed
  then have "map Bucket_String (fst (BucketRange_loop now p (s * Second) [lo..hi] w)) =
      map (\<lambda>i. Returns (bucket_key p (b + i))) [lo..hi]"
    using assms(1,2,5,8) by (intro range_loop_keys) (auto simp: algebra_simps)
  with assms(3,4) show ?thesis
    by (cases "BucketRange_loop now p (s * Second) [lo..hi] w") (simp add: BucketRange_def)
qed

end

section \<open>Properties\<close>

text \<open>
  C38: on the real clock, if the readings \<open>BucketRange\<close> takes all fall into bucket \<open>b\<close> of a
  whole-second size, it returns exactly the keys of the consecutive buckets
  \<open>b + offsetStart, \<dots>, b + offsetEnd\<close> of the prefix, in order.
\<close>

theorem BucketRange_consecutive:
  assumes "1 \<le> s" "s < 2 ^ 53" and "in_int64 (hi - lo)" "lo \<le> hi"
    and "os_window (b * (s * Second)) ((b + 1) * (s * Second)) (nat (hi - lo + 1)) w"
    and "in_int64 (lo * (s * Second))" "in_int64 (hi * (s * Second))" and "0 \<le> b + lo"
  shows "\<exists>bs w'. BucketRange realClock_Now p (s * Second) lo hi w = Returns (bs, w') \<and>
           map Bucket_String bs = map (\<lambda>i. Returns (bucket_key p (b + i))) [lo..hi]"
  by (rule real_clock.range_keys [OF assms])

text \<open>Witness: five one-minute buckets back from a clock that stands in bucket 100.\<close>

lemma BucketRange_consecutive_witness:
  "\<exists>bs w'. BucketRange realClock_Now ''u'' (60 * Second) (-5) 0
       \<lparr>readings = (\<lambda>k. 6000 * Second + int k), reads = 0\<rparr> = Returns (bs, w') \<and>
     map Bucket_String bs = map (\<lambda>i. Returns (bucket_key ''u'' (100 + i))) [-5..0]"
  by (rule BucketRange_consecutive)
    (auto simp: in_int64_def os_window_def Second_def)

text \<open>
  Bucket keys never collide. Two buckets of the same bucket size that print to the same
  key have the same prefix (user) and the same bucket number, also when prefixes contain
  colons or digits.
\<close>

theorem Bucket_String_inject:
  assumes "Bucket_String b = Returns k" and "Bucket_String c = Returns k"
    and "bucketSize b = bucketSize c"
  shows "bucket_prefix b = bucket_prefix c \<and>
         Unix (timestamp b) sdiv int64_Seconds (bucketSize b) =
         Unix (timestamp c) sdiv int64_Seconds (bucketSize c)"
proof -
  let ?n = "\<lambda>b. Unix (timestamp b) sdiv int64_Seconds (bucketSize b)"
  have "bucket_key (bucket_prefix b) (?n b) = k" "bucket_key (bucket_prefix c) (?n c) = k"
    using assms(1,2) by (auto simp: Bucket_String_def bucket_key_def Let_def split: if_splits)
  then have "bucket_key (bucket_prefix b) (?n b) = bucket_key (bucket_prefix c) (?n c)" by simp
  then show ?thesis by (simp only: bucket_key_inject)
qed

lemma Bucket_String_inject_witness:
  "let b = \<lparr>bucket_prefix = ''a:1'', bucketSize = Second, timestamp = 5 * Second\<rparr>;
       c = \<lparr>bucket_prefix = ''a:1'', bucketSize = Second, timestamp = 5 * Second + 7\<rparr>
   in Bucket_String b = Bucket_String c \<and> bucket_prefix b = bucket_prefix c"
proof -
  let ?b = "\<lparr>bucket_prefix = ''a:1'', bucketSize = Second, timestamp = 5 * Second\<rparr>"
  let ?c = "\<lparr>bucket_prefix = ''a:1'', bucketSize = Second, timestamp = 5 * Second + 7\<rparr>"
  have one: "int64_Seconds Second = 1" using int64_Seconds_whole [of 1] by simp
  have b: "Bucket_String ?b = Returns (''a:1'' @ '':'' @ FormatInt 5)"
    and c: "Bucket_String ?c = Returns (''a:1'' @ '':'' @ FormatInt 5)"
    by (simp_all add: Bucket_String_def Unix_def one, simp_all add: Second_def)
  show ?thesis using Bucket_String_inject [OF b c] b c by simp
qed

text \<open>
  No bucket operation of the package divides by zero. Whatever the clock, the size
  (zero and negative sizes included) and the offsets, \<open>BucketRange\<close> either panics in
  \<open>make\<close>, exactly when the range's length as an \<open>int64\<close> is negative, or returns buckets
  that all print.
\<close>

theorem BucketRange_total:
  "if wrap64 (hi - lo) < 0 then (\<exists>m. BucketRange now p bs lo hi w = Panics m)
   else \<exists>xs w'. BucketRange now p bs lo hi w = Returns (xs, w') \<and> length xs = nat (hi - lo + 1) \<and>
          list_all (\<lambda>b. \<exists>k. Bucket_String b = Returns k) xs"
proof -
  have "length (fst (BucketRange_loop now p bs js w)) = length js \<and>
        list_all (\<lambda>b. \<exists>k. Bucket_String b = Returns k) (fst (BucketRange_loop now p bs js w))" for js
  proof (induction js arbitrary: w)
    case Nil
    then show ?case by simp
  next
    case (Cons j js)
    then show ?case
      using BucketWithOffset_prints [of now p bs j w] by (simp add: case_prod_beta Let_def)
  qed
  from this [of "[lo..hi]"] show ?thesis
    by (cases "BucketRange_loop now p bs [lo..hi] w") (simp add: BucketRange_def)
qed

text \<open>
  The range is read with one clock reading per bucket, so a range taken across a bucket
  boundary can miss a bucket. There is a clock that never goes backwards on which the last
  five minutes' buckets and the current one are read as 95, 96, 98, 99, 100, 101: bucket 97
  is not read although it is neither older than the first nor newer than the last.
\<close>

theorem BucketRange_can_skip:
  "\<exists>w bs w'. mono (readings w) \<and>
     BucketRange realClock_Now ''u'' Minute (-5) 0 w = Returns (bs, w') \<and>
     map Bucket_String bs = map (\<lambda>n. Returns (bucket_key ''u'' n)) [95, 96, 98, 99, 100, 101]"
proof -
  let ?w = "\<lparr>readings = (\<lambda>k. if k < 2 then 6059 * Second else 6060 * Second), reads = 0\<rparr>"
  have key: "Bucket_String (fst (BucketWithOffset realClock_Now ''u'' Minute i w)) =
      Returns (bucket_key ''u'' (Unix (fst (time_Now w)) div 60 + i))"
    if "-5 \<le> i" "i \<le> 0" "300000000000 \<le> fst (time_Now w)" for i w
    using BucketWithOffset_String [of 60 i realClock_Now w "''u''"] that
    by (simp add: Minute_def Second_def in_int64_def realClock_Now_def)
  have step: "snd (BucketWithOffset realClock_Now ''u'' Minute i w) = snd (time_Now w)" for i w
    by (simp add: BucketWithOffset_def realClock_Now_def Let_def split: prod.split)
  have upto: "[-5..0] = [-5, -4, -3, -2, -1, 0 :: int]"
    by (simp add: upto.simps)
  have "map Bucket_String (fst (BucketRange_loop realClock_Now ''u'' Minute [-5..0] ?w)) =
      map (\<lambda>n. Returns (bucket_key ''u'' n)) [95, 96, 98, 99, 100, 101]"
    by (simp add: upto case_prod_beta Let_def key step time_Now_def Unix_def Second_def)
  moreover have "mono (readings ?w)" by (auto simp: mono_def Second_def)
  moreover obtain bs w' where "BucketRange_loop realClock_Now ''u'' Minute [-5..0] ?w = (bs, w')"
    by fastforce
  ultimately show ?thesis
    by (intro exI [of _ ?w] exI [of _ bs] exI [of _ w']) (simp add: BucketRange_def wrap64_def)
qed

end
