(* ===== verification/Presence_PB.thy ===== *)
theory Presence_PB
  imports Prelude
begin

text \<open>
  \<open>devicepresence/devicepresence.pb.go\<close>: the messages and enums of
  \<open>protos/devicepresence.proto\<close>, and the client and server stubs of the service. Pointers
  to messages are options. Enums are open: a \<open>Device_Type\<close> or \<open>Device_Status\<close> is any
  \<open>int32\<close>. The RPC runtime (\<open>grpc\<close>) and the wire codec are arguments of the stubs that
  call them; a stub threads the runtime's state.
\<close>

section \<open>Enums\<close>

type_synonym Device_Type = int
type_synonym Device_Status = int

definition Device_WS :: Device_Type where "Device_WS = 0"
definition Device_ONLINE :: Device_Status where "Device_ONLINE = 0"
definition Device_OFFLINE :: Device_Status where "Device_OFFLINE = 1"

definition Device_Type_name :: "int \<rightharpoonup> string" where
  "Device_Type_name = [0 \<mapsto> ''WS'']"

definition Device_Type_value :: "string \<rightharpoonup> int" where
  "Device_Type_value = [''WS'' \<mapsto> 0]"

definition Device_Status_name :: "int \<rightharpoonup> string" where
  "Device_Status_name = [0 \<mapsto> ''ONLINE'', 1 \<mapsto> ''OFFLINE'']"

definition Device_Status_value :: "string \<rightharpoonup> int" where
  "Device_Status_value = [''ONLINE'' \<mapsto> 0, ''OFFLINE'' \<mapsto> 1]"

text \<open>\<open>proto.EnumName\<close>: an unknown number is printed in decimal.\<close>

definition EnumName :: "(int \<rightharpoonup> string) \<Rightarrow> int \<Rightarrow> string" where
  "EnumName m v = (case m v of Some s \<Rightarrow> s | None \<Rightarrow> FormatInt v)"

definition Device_Type_String :: "Device_Type \<Rightarrow> string" where
  "Device_Type_String x = EnumName Device_Type_name x"

definition Device_Status_String :: "Device_Status \<Rightarrow> string" where
  "Device_Status_String x = EnumName Device_Status_name x"

section \<open>Messages\<close>

record Device =
  dev_Id :: string
  dev_Type :: Device_Type
  dev_UserId :: string
  dev_Status :: Device_Status

record StatusRequest =
  sr_Device :: "Device option"

datatype StatusReply = StatusReply

record DevicesRequest =
  dr_UserId :: string

record Event =
  ev_Timestamp :: int
  ev_Device :: "Device option"

text \<open>\<open>Reset\<close> and the getters, which accept a nil receiver.\<close>

definition StatusRequest_Reset :: StatusRequest where
  "StatusRequest_Reset = \<lparr>sr_Device = None\<rparr>"

definition StatusReply_Reset :: StatusReply where
  "StatusReply_Reset = StatusReply"

definition DevicesRequest_Reset :: DevicesRequest where
  "DevicesRequest_Reset = \<lparr>dr_UserId = []\<rparr>"

definition Device_Reset :: Device where
  "Device_Reset = \<lparr>dev_Id = [], dev_Type = 0, dev_UserId = [], dev_Status = 0\<rparr>"

definition Event_Reset :: Event where
  "Event_Reset = \<lparr>ev_Timestamp = 0, ev_Device = None\<rparr>"

definition StatusRequest_GetDevice :: "StatusRequest option \<Rightarrow> Device option" where
  "StatusRequest_GetDevice m = (case m of Some r \<Rightarrow> sr_Device r | None \<Rightarrow> None)"

definition Event_GetDevice :: "Event option \<Rightarrow> Device option" where
  "Event_GetDevice m = (case m of Some e \<Rightarrow> ev_Device e | None \<Rightarrow> None)"

section \<open>Service description\<close>

record service_desc =
  ServiceName :: string
  MethodNames :: "string list"
  StreamNames :: "(string \<times> bool) list"

definition PresenceManager_serviceDesc :: service_desc where
  "PresenceManager_serviceDesc =
     \<lparr>ServiceName = ''devicepresence.PresenceManager'',
      MethodNames = [''SetStatus''],
      StreamNames = [(''GetDevices'', True)]\<rparr>"

text \<open>The full method names the client stubs call.\<close>

definition full_method :: "string \<Rightarrow> string" where
  "full_method m = ''/devicepresence.PresenceManager/'' @ m"

section \<open>Client stubs\<close>

text \<open>\<open>Invoke\<close> fills the reply message or fails.\<close>

definition client_SetStatus ::
  "(string \<Rightarrow> StatusRequest \<Rightarrow> 'w \<Rightarrow> (error + StatusReply) \<times> 'w) \<Rightarrow> StatusRequest \<Rightarrow> 'w \<Rightarrow>
     (error + StatusReply) \<times> 'w" where
  "client_SetStatus Invoke req w =
     (case Invoke (full_method ''SetStatus'') req w of
        (Inl e, w') \<Rightarrow> (Inl e, w')
      | (Inr out, w') \<Rightarrow> (Inr out, w'))"

record ('st, 'w) client_stream_ops =
  NewClientStream :: "string \<Rightarrow> 'w \<Rightarrow> (error + 'st) \<times> 'w"
  SendProto :: "DevicesRequest \<Rightarrow> 'st \<Rightarrow> 'w \<Rightarrow> error option \<times> 'w"
  CloseSend :: "'st \<Rightarrow> 'w \<Rightarrow> error option \<times> 'w"
  RecvProto :: "'st \<Rightarrow> 'w \<Rightarrow> (error + Device) \<times> 'w"

definition client_GetDevices ::
  "('st, 'w) client_stream_ops \<Rightarrow> DevicesRequest \<Rightarrow> 'w \<Rightarrow> (error + 'st) \<times> 'w" where
  "client_GetDevices ops req w =
     (case NewClientStream ops (full_method ''GetDevices'') w of
        (Inl e, w1) \<Rightarrow> (Inl e, w1)
      | (Inr st, w1) \<Rightarrow>
          (case SendProto ops req st w1 of
             (Some e, w2) \<Rightarrow> (Inl e, w2)
           | (None, w2) \<Rightarrow>
               (case CloseSend ops st w2 of
                  (Some e, w3) \<Rightarrow> (Inl e, w3)
                | (None, w3) \<Rightarrow> (Inr st, w3))))"

definition client_Recv :: "('st, 'w) client_stream_ops \<Rightarrow> 'st \<Rightarrow> 'w \<Rightarrow> (error + Device) \<times> 'w" where
  "client_Recv ops st w =
     (case RecvProto ops st w of (Inl e, w1) \<Rightarrow> (Inl e, w1) | (Inr m, w1) \<Rightarrow> (Inr m, w1))"

section \<open>Server stubs\<close>

text \<open>
  The handlers decode the request and call the service implementation; what the
  implementation does besides returning an error or a reply is its outcome.
\<close>

definition SetStatus_Handler ::
  "(string \<Rightarrow> error + StatusRequest) \<Rightarrow> (StatusRequest option \<Rightarrow> 'w \<Rightarrow> ((error + StatusReply) \<times> 'w) outcome) \<Rightarrow>
     string \<Rightarrow> 'w \<Rightarrow> ((error + StatusReply) \<times> 'w) outcome" where
  "SetStatus_Handler Unmarshal srv b w =
     (case Unmarshal b of
        Inl e \<Rightarrow> Returns (Inl e, w)
      | Inr req \<Rightarrow> srv (Some req) w)"

definition GetDevices_Handler ::
  "('w \<Rightarrow> (error + DevicesRequest) \<times> 'w) \<Rightarrow> (DevicesRequest option \<Rightarrow> 'w \<Rightarrow> (error option \<times> 'w) outcome) \<Rightarrow>
     'w \<Rightarrow> (error option \<times> 'w) outcome" where
  "GetDevices_Handler RecvRequest srv w =
     (case RecvRequest w of
        (Inl e, w1) \<Rightarrow> Returns (Some e, w1)
      | (Inr req, w1) \<Rightarrow> srv (Some req) w1)"

section \<open>Lemmas\<close>

text \<open>The names of the enum values and back.\<close>

lemma Device_Type_name_value: "Device_Type_name n = Some s \<longleftrightarrow> Device_Type_value s = Some n"
  by (auto simp: Device_Type_name_def Device_Type_value_def)

lemma FormatInt_not_WS [simp]: "FormatInt x \<noteq> ''WS''" "''WS'' \<noteq> FormatInt x"
proof -
  have "CHR ''S'' \<notin> set (FormatInt x)"
    using digits_all_digit [of "nat x"] digits_all_digit [of "nat (- x)"]
    by (auto simp: FormatInt_def is_digit_def)
  then show "FormatInt x \<noteq> ''WS''" "''WS'' \<noteq> FormatInt x" by (auto dest: sym)
qed

lemma Device_Type_String_known: "Device_Type_value (Device_Type_String x) = Some n \<longleftrightarrow> x = 0 \<and> n = 0"
  by (auto simp: Device_Type_String_def EnumName_def Device_Type_name_def Device_Type_value_def)

lemma Device_Type_String_no_colon: "CHR '':'' \<notin> set (Device_Type_String x)"
  using FormatInt_no_colon by (simp add: Device_Type_String_def EnumName_def Device_Type_name_def)

lemma Device_Type_String_nonempty [simp]: "Device_Type_String x \<noteq> []"
  by (simp add: Device_Type_String_def EnumName_def Device_Type_name_def)

end
