(* ===== verification/Redigo_Conn.thy ===== *)
theory Redigo_Conn
  imports Go_Time
begin

text \<open>
  \<open>redigo/redis/conn.go\<close>: the low-level Redis connection. The command writer and the
  reply reader of the Redis protocol (RESP), the buffered writer and reader they run on,
  and the connection's operations \<open>Send\<close>, \<open>Flush\<close>, \<open>Receive\<close>, \<open>Do\<close>, \<open>Close\<close> with the
  count of pending replies and the sticky error.

  The far end of the network connection is the parameter \<open>net\<close>: given its state and the
  bytes written to it, it says whether the write failed, which bytes it sends back and its
  next state. Bytes that have been sent back and not yet read are the reader's \<open>buf\<close>; when
  they are used up the read fails with \<open>rerr\<close>. \<open>ahead\<close> is how many of them the buffered
  reader already holds: closing the network connection loses the others. Deadlines are not
  modelled: they only decide when \<open>net\<close> or a read fails.
\<close>

section \<open>Data\<close>

text \<open>The dynamic types of a reply (\<open>interface{}\<close>).\<close>

datatype reply =
    RNil
  | RStr string
  | RErr string
  | RInt int
  | RBulk string
  | RArr "reply list"

text \<open>
  The dynamic types of a command argument. A \<open>float64\<close> is carried by its
  \<open>strconv.AppendFloat(_, 'g', -1, 64)\<close> text and a value of any other type by the text
  \<open>fmt.Fprint\<close> gives for it.
\<close>

datatype arg =
    AString string
  | ABytes string
  | AInt int
  | AInt64 int
  | AFloat64 string
  | ABool bool
  | ANil
  | AOther string

record reader =
  buf :: string
  ahead :: nat
  rerr :: error

record 's conn =
  pending :: nat
  conn_err :: "error option"
  closed :: bool
  br :: reader
  wbuf :: string
  werr :: "error option"
  peer :: 's

type_synonym 's net = "'s \<Rightarrow> string \<Rightarrow> error option \<times> string \<times> 's"

definition crlf :: string where
  "crlf = [CHR 0x0D, CHR 0x0A]"

definition errNetClosed :: error where
  "errNetClosed = NetError ''use of closed network connection''"

definition NewConn :: "'s \<Rightarrow> 's conn" where
  "NewConn s =
     \<lparr>pending = 0, conn_err = None, closed = False,
      br = \<lparr>buf = [], ahead = 0, rerr = EOF\<rparr>, wbuf = [], werr = None, peer = s\<rparr>"

text \<open>
  \<open>xDialer.Dial\<close>: the dial function (\<open>net.Dial\<close> when \<open>NetDial\<close> is nil) gives the network
  connection or an error.
\<close>

definition Dial :: "(string \<Rightarrow> string \<Rightarrow> error + 's) \<Rightarrow> string \<Rightarrow> string \<Rightarrow> error + 's conn" where
  "Dial dial network address = (case dial network address of Inl e \<Rightarrow> Inl e | Inr s \<Rightarrow> Inr (NewConn s))"

section \<open>The buffered writer\<close>

definition bw_size :: nat where
  "bw_size = 4096"

text \<open>One write to the network connection.\<close>

definition net_Write :: "'s net \<Rightarrow> string \<Rightarrow> 's conn \<Rightarrow> 's conn" where
  "net_Write net p c =
     (if closed c then c\<lparr>werr := Some errNetClosed\<rparr>
      else case net (peer c) p of
        (e, out, s) \<Rightarrow> c\<lparr>werr := e, peer := s, br := (br c)\<lparr>buf := buf (br c) @ out\<rparr>\<rparr>)"

definition bw_Flush :: "'s net \<Rightarrow> 's conn \<Rightarrow> error option \<times> 's conn" where
  "bw_Flush net c =
     (case werr c of
        Some e \<Rightarrow> (Some e, c)
      | None \<Rightarrow>
          if wbuf c = [] then (None, c)
          else let c' = net_Write net (wbuf c) c
               in (werr c', if werr c' = None then c'\<lparr>wbuf := []\<rparr> else c'))"

text \<open>
  \<open>WriteString\<close> fills the buffer and flushes while the text does not fit;
  \<open>Write\<close> does the same but sends a large text straight through an empty buffer.
\<close>

function bw_WriteString :: "'s net \<Rightarrow> string \<Rightarrow> 's conn \<Rightarrow> error option \<times> 's conn" where
  "bw_WriteString net s c =
     (if werr c \<noteq> None then (werr c, c)
      else if length s \<le> bw_size - length (wbuf c) then (None, c\<lparr>wbuf := wbuf c @ s\<rparr>)
      else let n = bw_size - length (wbuf c)
           in bw_WriteString net (drop n s) (snd (bw_Flush net (c\<lparr>wbuf := wbuf c @ take n s\<rparr>))))"
  by pat_completeness auto

lemma werr_net_Write_wbuf [simp]: "wbuf (net_Write net p c) = wbuf c"
  by (simp add: net_Write_def split: prod.split)

lemma bw_Flush_wbuf: "wbuf (snd (bw_Flush net c)) = [] \<or> werr (snd (bw_Flush net c)) \<noteq> None"
  by (auto simp: bw_Flush_def Let_def split: option.split)

termination bw_WriteString
proof (relation "measures [\<lambda>(net, s, c). if werr c = None then 1 else 0,
                           \<lambda>(net, s, c). length s + length (wbuf c)]", goal_cases)
  case 1
  then show ?case by simp
next
  case (2 net s c n)
  have "wbuf (snd (bw_Flush net (c\<lparr>wbuf := wbuf c @ take n s\<rparr>))) = [] \<or>
        werr (snd (bw_Flush net (c\<lparr>wbuf := wbuf c @ take n s\<rparr>))) \<noteq> None"
    by (rule bw_Flush_wbuf)
  with 2 show ?case by (auto simp: bw_size_def)
qed

declare bw_WriteString.simps [simp del]

definition bw_Write :: "'s net \<Rightarrow> string \<Rightarrow> 's conn \<Rightarrow> error option \<times> 's conn" where
  "bw_Write net p c =
     (if werr c \<noteq> None then (werr c, c)
      else if length p \<le> bw_size - length (wbuf c) then (None, c\<lparr>wbuf := wbuf c @ p\<rparr>)
      else if wbuf c = [] then (let c' = net_Write net p c in (werr c', c'))
      else let n = bw_size - length (wbuf c);
               c' = snd (bw_Flush net (c\<lparr>wbuf := wbuf c @ take n p\<rparr>));
               q = drop n p
           in if werr c' \<noteq> None then (werr c', c')
              else if length q \<le> bw_size then (None, c'\<lparr>wbuf := q\<rparr>)
              else let c'' = net_Write net q c' in (werr c'', c''))"

section \<open>Writing commands\<close>

text \<open>
  \<open>writeLen\<close> fills its scratch array backwards: line end, the digits of \<open>n\<close> from the last
  to the first, the prefix.
\<close>

fun writeLen_digits :: "nat \<Rightarrow> string \<Rightarrow> string" where
  "writeLen_digits n acc =
     (let acc' = char_of (48 + n mod 10) # acc
      in if n div 10 = 0 then acc' else writeLen_digits (n div 10) acc')"

declare writeLen_digits.simps [simp del]

definition writeLen :: "'s net \<Rightarrow> char \<Rightarrow> nat \<Rightarrow> 's conn \<Rightarrow> error option \<times> 's conn" where
  "writeLen net k n c = bw_Write net (k # writeLen_digits n crlf) c"

definition writeString :: "'s net \<Rightarrow> string \<Rightarrow> 's conn \<Rightarrow> error option \<times> 's conn" where
  "writeString net s c =
     (let (_, c1) = writeLen net (CHR ''$'') (length s) c;
          (_, c2) = bw_WriteString net s c1
      in bw_WriteString net crlf c2)"

definition writeBytes :: "'s net \<Rightarrow> string \<Rightarrow> 's conn \<Rightarrow> error option \<times> 's conn" where
  "writeBytes net p c =
     (let (_, c1) = writeLen net (CHR ''$'') (length p) c;
          (_, c2) = bw_Write net p c1
      in bw_WriteString net crlf c2)"

definition writeInt64 :: "'s net \<Rightarrow> int \<Rightarrow> 's conn \<Rightarrow> error option \<times> 's conn" where
  "writeInt64 net n c = writeBytes net (FormatInt n) c"

definition writeFloat64 :: "'s net \<Rightarrow> string \<Rightarrow> 's conn \<Rightarrow> error option \<times> 's conn" where
  "writeFloat64 net s c = writeBytes net s c"

fun writeArg :: "'s net \<Rightarrow> arg \<Rightarrow> 's conn \<Rightarrow> error option \<times> 's conn" where
  "writeArg net (AString s) c = writeString net s c"
| "writeArg net (ABytes p) c = writeBytes net p c"
| "writeArg net (AInt n) c = writeInt64 net n c"
| "writeArg net (AInt64 n) c = writeInt64 net n c"
| "writeArg net (AFloat64 s) c = writeFloat64 net s c"
| "writeArg net (ABool b) c = (if b then writeString net ''1'' c else writeString net ''0'' c)"
| "writeArg net ANil c = writeString net [] c"
| "writeArg net (AOther s) c = writeBytes net s c"

fun writeArgs :: "'s net \<Rightarrow> arg list \<Rightarrow> error option \<times> 's conn \<Rightarrow> error option \<times> 's conn" where
  "writeArgs net [] (e, c) = (e, c)"
| "writeArgs net (a # as) (e, c) = (if e \<noteq> None then (e, c) else writeArgs net as (writeArg net a c))"

definition writeCommand :: "'s net \<Rightarrow> string \<Rightarrow> arg list \<Rightarrow> 's conn \<Rightarrow> error option \<times> 's conn" where
  "writeCommand net cmd args c =
     (let (_, c1) = writeLen net (CHR ''*'') (1 + length args) c
      in writeArgs net args (writeString net cmd c1))"

section \<open>Reading replies\<close>

definition rd_skip :: "nat \<Rightarrow> reader \<Rightarrow> reader" where
  "rd_skip n r = r\<lparr>buf := drop n (buf r), ahead := ahead r - n\<rparr>"

text \<open>
  \<open>bufio.Reader.ReadSlice('\n')\<close> on a 4096-byte buffer: the bytes up to the line end; a full
  buffer without one is \<open>ErrBufferFull\<close>; running out of input is the input's error.
\<close>

definition ReadSlice :: "reader \<Rightarrow> (error + string) \<times> reader" where
  "ReadSlice r =
     (let n = length (takeWhile (\<lambda>b. b \<noteq> CHR 0x0A) (buf r))
      in if n < 4096 \<and> n < length (buf r) then (Inr (take (Suc n) (buf r)), rd_skip (Suc n) r)
         else if 4096 \<le> length (buf r) then (Inl ErrBufferFull, rd_skip 4096 r)
         else (Inl (rerr r), rd_skip (length (buf r)) r))"

definition ReadFull :: "nat \<Rightarrow> reader \<Rightarrow> (error + string) \<times> reader" where
  "ReadFull n r =
     (if n \<le> length (buf r) then (Inr (take n (buf r)), rd_skip n r)
      else (Inl (if buf r \<noteq> [] \<and> rerr r = EOF then ErrUnexpectedEOF else rerr r),
            rd_skip (length (buf r)) r))"

definition readLine :: "reader \<Rightarrow> (error + string) \<times> reader" where
  "readLine r =
     (case ReadSlice r of
        (Inl e, r') \<Rightarrow>
          if e = ErrBufferFull then (Inl (ProtocolError ''long response line''), r')
          else (Inl e, r')
      | (Inr p, r') \<Rightarrow>
          if length p < 2 \<or> p ! (length p - 2) \<noteq> CHR 0x0D
          then (Inl (ProtocolError ''bad response line terminator''), r')
          else (Inr (take (length p - 2) p), r'))"

text \<open>The digit loop of \<open>parseLen\<close> and \<open>parseInt\<close>, on 64-bit integers.\<close>

fun parse_digits :: "int \<Rightarrow> string \<Rightarrow> int option" where
  "parse_digits n [] = Some n"
| "parse_digits n (b # p) =
     (if \<not> is_digit b then None
      else parse_digits (wrap64 (wrap64 (n * 10) + int (digit_val b))) p)"

definition parseLen :: "string \<Rightarrow> int \<times> error option" where
  "parseLen p =
     (if p = [] then (-1, Some (ProtocolError ''malformed length''))
      else if p = ''-1'' then (-1, None)
      else case parse_digits 0 p of
             None \<Rightarrow> (-1, Some (ProtocolError ''illegal bytes in length''))
           | Some n \<Rightarrow> (n, None))"

definition parseInt :: "string \<Rightarrow> error + reply" where
  "parseInt p =
     (if p = [] then Inl (ProtocolError ''malformed integer'')
      else let neg = (hd p = CHR ''-''); q = (if neg then tl p else p)
           in if q = [] then Inl (ProtocolError ''malformed integer'')
              else case parse_digits 0 q of
                     None \<Rightarrow> Inl (ProtocolError ''illegal bytes in length'')
                   | Some n \<Rightarrow> Inr (RInt (if neg then wrap64 (- n) else n)))"

text \<open>The bulk string case of \<open>readReply\<close>.\<close>

definition read_bulk :: "string \<Rightarrow> reader \<Rightarrow> (error + reply) \<times> reader" where
  "read_bulk line r1 =
     (case parseLen line of
        (n, Some e) \<Rightarrow> (Inl e, r1)
      | (n, None) \<Rightarrow>
          if n < 0 then (Inr RNil, r1)
          else (case ReadFull (nat n) r1 of
                  (Inl e, r2) \<Rightarrow> (Inl e, r2)
                | (Inr p, r2) \<Rightarrow>
                    (case readLine r2 of
                       (Inl e, r3) \<Rightarrow> (Inl e, r3)
                     | (Inr l, r3) \<Rightarrow>
                         if l \<noteq> [] then (Inl (ProtocolError ''bad bulk string format''), r3)
                         else (Inr (RBulk p), r3))))"

text \<open>
  \<open>readReply\<close> calls itself on the elements of an array. The first argument bounds the
  calls; \<open>readReply\<close> gives it a bound that is always enough (\<open>read_reply_enough\<close> below).
  The two branches that answer \<open>OK\<close> and \<open>PONG\<close> without allocating give the same value as
  the default branch.
\<close>

fun read_reply :: "nat \<Rightarrow> reader \<Rightarrow> ((error + reply) \<times> reader) option"
  and read_elems :: "nat \<Rightarrow> nat \<Rightarrow> reader \<Rightarrow> ((error + reply list) \<times> reader) option" where
  "read_reply 0 r = None"
| "read_reply (Suc f) r =
     (case readLine r of
        (Inl e, r1) \<Rightarrow> Some (Inl e, r1)
      | (Inr [], r1) \<Rightarrow> Some (Inl (ProtocolError ''short response line''), r1)
      | (Inr (k # line), r1) \<Rightarrow>
          if k = CHR ''+'' then
            (if line = ''OK'' then Some (Inr (RStr ''OK''), r1)
             else if line = ''PONG'' then Some (Inr (RStr ''PONG''), r1)
             else Some (Inr (RStr line), r1))
          else if k = CHR ''-'' then Some (Inr (RErr line), r1)
          else if k = CHR '':'' then Some (parseInt line, r1)
          else if k = CHR ''$'' then Some (read_bulk line r1)
          else if k = CHR ''*'' then
            (case parseLen line of
               (n, Some e) \<Rightarrow> Some (Inl e, r1)
             | (n, None) \<Rightarrow>
                 if n < 0 then Some (Inr RNil, r1)
                 else map_option (\<lambda>(x, r2). (map_sum id RArr x, r2)) (read_elems f (nat n) r1))
          else Some (Inl (ProtocolError ''unexpected response line''), r1))"
| "read_elems f 0 r = Some (Inr [], r)"
| "read_elems 0 (Suc n) r = None"
| "read_elems (Suc f) (Suc n) r =
     (case read_reply f r of
        None \<Rightarrow> None
      | Some (Inl e, r1) \<Rightarrow> Some (Inl e, r1)
      | Some (Inr x, r1) \<Rightarrow>
          map_option (\<lambda>(xs, r2). (map_sum id ((#) x) xs, r2)) (read_elems f n r1))"

definition readReply :: "'s conn \<Rightarrow> (error + reply) \<times> 's conn" where
  "readReply c =
     (case read_reply (2 * length (buf (br c)) + 1) (br c) of
        Some (x, r) \<Rightarrow> (x, c\<lparr>br := r\<rparr>)
      | None \<Rightarrow> (Inl ErrUnexpectedEOF, c))"

section \<open>The connection's operations\<close>

text \<open>Closing the network connection loses the input the buffered reader does not hold yet.\<close>

definition net_Close :: "'s conn \<Rightarrow> 's conn" where
  "net_Close c =
     c\<lparr>closed := True,
       br := (br c)\<lparr>buf := take (ahead (br c)) (buf (br c)), rerr := errNetClosed\<rparr>\<rparr>"

definition conn_Close :: "'s conn \<Rightarrow> error option \<times> 's conn" where
  "conn_Close c =
     (case conn_err c of
        Some e \<Rightarrow> (Some e, c)
      | None \<Rightarrow> (None, net_Close (c\<lparr>conn_err := Some (ErrorString ''redigo: closed'')\<rparr>)))"

definition fatal :: "error \<Rightarrow> 's conn \<Rightarrow> 's conn" where
  "fatal e c = (if conn_err c = None then net_Close (c\<lparr>conn_err := Some e\<rparr>) else c)"

definition conn_Err :: "'s conn \<Rightarrow> error option" where
  "conn_Err c = conn_err c"

definition conn_Send :: "'s net \<Rightarrow> string \<Rightarrow> arg list \<Rightarrow> 's conn \<Rightarrow> error option \<times> 's conn" where
  "conn_Send net cmd args c =
     (let c0 = c\<lparr>pending := pending c + 1\<rparr>
      in case writeCommand net cmd args c0 of
           (Some e, c1) \<Rightarrow> (Some e, fatal e c1)
         | (None, c1) \<Rightarrow> (None, c1))"

definition conn_Flush :: "'s net \<Rightarrow> 's conn \<Rightarrow> error option \<times> 's conn" where
  "conn_Flush net c =
     (case bw_Flush net c of
        (Some e, c1) \<Rightarrow> (Some e, fatal e c1)
      | (None, c1) \<Rightarrow> (None, c1))"

definition conn_Receive :: "'s conn \<Rightarrow> (reply \<times> error option) \<times> 's conn" where
  "conn_Receive c =
     (case readReply c of
        (Inl e, c1) \<Rightarrow> ((RNil, Some e), fatal e c1)
      | (Inr x, c1) \<Rightarrow>
          let c2 = (if 0 < pending c1 then c1\<lparr>pending := pending c1 - 1\<rparr> else c1)
          in case x of RErr s \<Rightarrow> ((RNil, Some (RedisError s)), c2)
             | _ \<Rightarrow> ((x, None), c2))"

text \<open>The two reading loops of \<open>Do\<close>.\<close>

fun read_n :: "nat \<Rightarrow> 's conn \<Rightarrow> (error + reply list) \<times> 's conn" where
  "read_n 0 c = (Inr [], c)"
| "read_n (Suc n) c =
     (case readReply c of
        (Inl e, c1) \<Rightarrow> (Inl e, fatal e c1)
      | (Inr x, c1) \<Rightarrow> (case read_n n c1 of (Inl e, c2) \<Rightarrow> (Inl e, c2) | (Inr xs, c2) \<Rightarrow> (Inr (x # xs), c2)))"

fun read_last :: "nat \<Rightarrow> reply \<Rightarrow> error option \<Rightarrow> 's conn \<Rightarrow> (reply \<times> error option) \<times> 's conn" where
  "read_last 0 x err c = ((x, err), c)"
| "read_last (Suc n) x err c =
     (case readReply c of
        (Inl e, c1) \<Rightarrow> ((RNil, Some e), fatal e c1)
      | (Inr y, c1) \<Rightarrow>
          read_last n y (case y of RErr s \<Rightarrow> if err = None then Some (RedisError s) else err | _ \<Rightarrow> err) c1)"

definition conn_Do :: "'s net \<Rightarrow> string \<Rightarrow> arg list \<Rightarrow> 's conn \<Rightarrow> (reply \<times> error option) \<times> 's conn" where
  "conn_Do net cmd args c =
     (let p = pending c; c0 = c\<lparr>pending := 0\<rparr>
      in if cmd = [] \<and> p = 0 then ((RNil, None), c0)
         else let c1 = (if cmd \<noteq> [] then snd (writeCommand net cmd args c0) else c0)
              in case bw_Flush net c1 of
                   (Some e, c2) \<Rightarrow> ((RNil, Some e), fatal e c2)
                 | (None, c2) \<Rightarrow>
                     if cmd = [] then
                       (case read_n p c2 of
                          (Inl e, c3) \<Rightarrow> ((RNil, Some e), c3)
                        | (Inr xs, c3) \<Rightarrow> ((RArr xs, None), c3))
                     else read_last (Suc p) RNil None c2)"

section \<open>The reader always has enough calls\<close>

lemma rd_skip_length: "length (buf (rd_skip n r)) = length (buf r) - n"
  by (simp add: rd_skip_def)

lemma rd_skip_skip [simp]: "rd_skip m (rd_skip n r) = rd_skip (n + m) r"
  by (simp add: rd_skip_def add.commute)

lemma readLine_shrinks:
  "readLine r = (x, r') \<Longrightarrow> length (buf r') \<le> length (buf r)"
  by (auto simp: readLine_def ReadSlice_def rd_skip_length Let_def
      split: sum.splits if_splits prod.splits)

lemma readLine_consumes:
  "readLine r = (Inr l, r') \<Longrightarrow> length (buf r') + 2 + length l \<le> length (buf r)"
  by (auto simp: readLine_def ReadSlice_def rd_skip_length Let_def
      simp flip: length_greater_0_conv split: sum.splits if_splits prod.splits)

lemma ReadFull_shrinks: "ReadFull n r = (x, r') \<Longrightarrow> length (buf r') \<le> length (buf r)"
  by (auto simp: ReadFull_def rd_skip_length split: if_splits)

lemma read_bulk_shrinks: "read_bulk line r = (x, r') \<Longrightarrow> length (buf r') \<le> length (buf r)"
  by (fastforce simp: read_bulk_def split: prod.splits sum.splits if_splits option.splits
      dest: readLine_shrinks ReadFull_shrinks)

text \<open>The branches of one reading step, for case analysis.\<close>

lemma read_reply_cases:
  obtains (fail) e r1 where "read_reply (Suc f) r = Some (Inl e, r1)" "length (buf r1) \<le> length (buf r)"
  | (leaf) x r1 where "read_reply (Suc f) r = Some (x, r1)" "length (buf r1) < length (buf r)"
  | (array) n r1 where "read_reply (Suc f) r = map_option (\<lambda>(x, r2). (map_sum id RArr x, r2)) (read_elems f n r1)"
      "length (buf r1) + 3 \<le> length (buf r)"
proof -
  obtain x r1 where x: "readLine r = (x, r1)" by fastforce
  consider e where "x = Inl e" | "x = Inr []" | k line where "x = Inr (k # line)"
    by (metis list.exhaust sum.exhaust)
  then show thesis
  proof cases
    case 1
    with x show thesis using readLine_shrinks [OF x] by (intro fail) simp_all
  next
    case 2
    with x show thesis using readLine_shrinks [OF x] by (intro fail) simp_all
  next
    case 3
    then have short: "length (buf r1) + 3 \<le> length (buf r)" using readLine_consumes x by fastforce
    show thesis
    proof (cases "k = CHR ''*'' \<and> snd (parseLen line) = None \<and> 0 \<le> fst (parseLen line)")
      case True
      with x 3 short show thesis by (intro array [of "nat (fst (parseLen line))" r1]) (auto split: prod.split)
    next
      case False
      have "\<exists>y r2. read_reply (Suc f) r = Some (y, r2) \<and> length (buf r2) < length (buf r)"
      proof (cases "k = CHR ''$''")
        case True
        obtain y r2 where y: "read_bulk line r1 = (y, r2)" by fastforce
        with x 3 True have "read_reply (Suc f) r = Some (y, r2)" by simp
        with read_bulk_shrinks [OF y] short show ?thesis by auto
      next
        case False': False
        have "\<exists>y. read_reply (Suc f) r = Some (y, r1)"
          using x 3 False False' by (cases "parseLen line") (auto split: option.split)
        with short show ?thesis by auto
      qed
      then show thesis using leaf by blast
    qed
  qed
qed

lemma read_reply_consumes:
  "read_reply f r = Some (x, r') \<Longrightarrow> length (buf r') \<le> length (buf r) \<and>
     (\<forall>y. x = Inr y \<longrightarrow> length (buf r') < length (buf r))"
proof -
  have "(\<forall>r x r'. read_reply f r = Some (x, r') \<longrightarrow> length (buf r') \<le> length (buf r) \<and>
          (\<forall>y. x = Inr y \<longrightarrow> length (buf r') < length (buf r))) \<and>
        (\<forall>n r xs r'. read_elems f n r = Some (xs, r') \<longrightarrow> length (buf r') \<le> length (buf r))"
  proof (induction f)
    case 0
    have "read_elems 0 n r = Some (xs, r') \<Longrightarrow> length (buf r') \<le> length (buf r)" for n r xs r'
      by (cases n) auto
    then show ?case by auto
  next
    case (Suc f)
    then have one: "\<And>r x r'. read_reply f r = Some (x, r') \<Longrightarrow> length (buf r') \<le> length (buf r)"
      and elems: "\<And>n r xs r'. read_elems f n r = Some (xs, r') \<Longrightarrow> length (buf r') \<le> length (buf r)"
      by blast+
    have "length (buf r') \<le> length (buf r) \<and> (\<forall>y. x = Inr y \<longrightarrow> length (buf r') < length (buf r))"
      if "read_reply (Suc f) r = Some (x, r')" for r x r'
      by (cases f r rule: read_reply_cases) (use that elems in fastforce)+
    moreover have "length (buf r') \<le> length (buf r)"
      if "read_elems (Suc f) n r = Some (xs, r')" for n r xs r'
    proof (cases n)
      case 0
      with that show ?thesis by simp
    next
      case (Suc m)
      with that show ?thesis
        by (auto split: option.splits prod.splits sum.splits dest!: one elems)
    qed
    ultimately show ?case by blast
  qed
  then show "read_reply f r = Some (x, r') \<Longrightarrow> length (buf r') \<le> length (buf r) \<and>
     (\<forall>y. x = Inr y \<longrightarrow> length (buf r') < length (buf r))" by blast
qed

lemma read_reply_enough:
  "2 * length (buf r) + 1 \<le> f \<Longrightarrow> read_reply f r \<noteq> None"
proof -
  have "(\<forall>r. 2 * length (buf r) + 1 \<le> f \<longrightarrow> read_reply f r \<noteq> None) \<and>
        (\<forall>n r. 2 * length (buf r) + 2 \<le> f \<longrightarrow> read_elems f n r \<noteq> None)"
  proof (induction f)
    case 0
    then show ?case by simp
  next
    case (Suc f)
    have "read_reply (Suc f) r \<noteq> None" if "2 * length (buf r) + 1 \<le> Suc f" for r
      by (cases f r rule: read_reply_cases) (use that Suc in auto)
    moreover have "read_elems (Suc f) n r \<noteq> None" if "2 * length (buf r) + 2 \<le> Suc f" for n r
    proof (cases n)
      case (Suc m)
      have "read_elems f m r1 \<noteq> None" if "read_reply f r = Some (Inr x, r1)" for x r1
        using Suc.IH read_reply_consumes [OF that] \<open>2 * length (buf r) + 2 \<le> Suc f\<close> by simp
      moreover have "read_reply f r \<noteq> None" using Suc.IH that by simp
      ultimately show ?thesis using Suc by (auto split: sum.split)
    qed simp
    ultimately show ?case by blast
  qed
  then show "2 * length (buf r) + 1 \<le> f \<Longrightarrow> read_reply f r \<noteq> None" by blast
qed

end
