(* ===== verification/Redigo_Resp.thy ===== *)
theory Redigo_Resp
  imports Redigo_Conn
begin

text \<open>
  What the connection of \<open>Redigo_Conn\<close> puts on the wire and reads back. The wire format is
  the Redis protocol: a command is an array of bulk strings, a reply one of the five reply
  kinds. First the round trip of replies through \<open>readReply\<close>, then the bytes of
  \<open>writeCommand\<close>, then the two together: over a peer that answers each command with one
  reply (the locale \<open>resp_peer\<close>), a pipeline of \<open>Send\<close> calls closed by a \<open>Do\<close> gives the
  reply of the last command and the first error reply of any of them.
\<close>

section \<open>The wire format\<close>

fun resp :: "reply \<Rightarrow> string" where
  "resp RNil = ''$-1'' @ crlf"
| "resp (RStr s) = ''+'' @ s @ crlf"
| "resp (RErr s) = ''-'' @ s @ crlf"
| "resp (RInt i) = '':'' @ FormatInt i @ crlf"
| "resp (RBulk s) = ''$'' @ digits (length s) @ crlf @ s @ crlf"
| "resp (RArr xs) = ''*'' @ digits (length xs) @ crlf @ concat (map resp xs)"

text \<open>
  Replies a server can send and the client can represent: status and error lines hold no
  line end and fit the reader's buffer, integers and lengths fit 64 bits.
\<close>

fun wf_reply :: "reply \<Rightarrow> bool" where
  "wf_reply RNil = True"
| "wf_reply (RStr s) = (CHR 0x0A \<notin> set s \<and> length s < 4094)"
| "wf_reply (RErr s) = (CHR 0x0A \<notin> set s \<and> length s < 4094)"
| "wf_reply (RInt i) = in_int64 i"
| "wf_reply (RBulk s) = (length s < 2 ^ 63)"
| "wf_reply (RArr xs) = (length xs < 2 ^ 63 \<and> (\<forall>x \<in> set xs. wf_reply x))"

definition bulk :: "string \<Rightarrow> string" where
  "bulk s = ''$'' @ digits (length s) @ crlf @ s @ crlf"

definition resp_command :: "string list \<Rightarrow> string" where
  "resp_command ws = ''*'' @ digits (length ws) @ crlf @ concat (map bulk ws)"

text \<open>The text an argument is sent as.\<close>

fun arg_text :: "arg \<Rightarrow> string" where
  "arg_text (AString s) = s"
| "arg_text (ABytes p) = p"
| "arg_text (AInt n) = FormatInt n"
| "arg_text (AInt64 n) = FormatInt n"
| "arg_text (AFloat64 s) = s"
| "arg_text (ABool b) = (if b then ''1'' else ''0'')"
| "arg_text ANil = []"
| "arg_text (AOther s) = s"

section \<open>Reading lines and numbers\<close>

lemma crlf_simps [simp]: "length crlf = 2" "crlf \<noteq> []"
  by (simp_all add: crlf_def)

lemma takeWhile_line: "CHR 0x0A \<notin> set l \<Longrightarrow>
    takeWhile (\<lambda>b. b \<noteq> CHR 0x0A) (l @ CHR 0x0D # CHR 0x0A # rest) = l @ [CHR 0x0D]"
  by (subst takeWhile_append2) auto

lemma readLine_line:
  assumes "buf r = l @ crlf @ rest" and "CHR 0x0A \<notin> set l" and "length l < 4095"
  shows "readLine r = (Inr l, rd_skip (length l + 2) r)"
proof -
  have tw: "takeWhile (\<lambda>b. b \<noteq> CHR 0x0A) (buf r) = l @ [CHR 0x0D]"
    using assms(1,2) by (simp add: crlf_def takeWhile_line)
  have "ReadSlice r = (Inr (l @ crlf), rd_skip (length l + 2) r)"
    using assms(1,3) unfolding ReadSlice_def Let_def tw by (simp add: crlf_def)
  then show ?thesis by (simp add: readLine_def crlf_def nth_append)
qed

lemma rd_skip_buf: "buf r = a @ rest \<Longrightarrow> buf (rd_skip (length a) r) = rest"
  by (simp add: rd_skip_def)

lemma rd_skip_rerr [simp]: "rerr (rd_skip n r) = rerr r"
  by (simp add: rd_skip_def)

lemma digits_no_newline: "CHR 0x0A \<notin> set (digits n)" "CHR 0x0D \<notin> set (digits n)"
  using digits_all_digit [of n] by auto

lemma FormatInt_no_newline: "CHR 0x0A \<notin> set (FormatInt i)"
  using digits_no_newline by (auto simp: FormatInt_def)

lemma parse_digits_fold:
  "list_all is_digit p \<Longrightarrow>
     parse_digits (wrap64 a) p = Some (wrap64 (foldl (\<lambda>n c. n * 10 + int (digit_val c)) a p))"
  by (induction p arbitrary: a) simp_all

lemma int_dec_val: "int (dec_val p) = foldl (\<lambda>n c. n * 10 + int (digit_val c)) 0 p"
proof -
  have "int (foldl (\<lambda>n c. 10 * n + digit_val c) m p) = foldl (\<lambda>n c. n * 10 + int (digit_val c)) (int m) p" for m
    by (induction p arbitrary: m) (simp_all add: mult.commute)
  from this [of 0] show ?thesis by (simp add: dec_val_def)
qed

lemma parse_digits_digits: "parse_digits 0 (digits n) = Some (wrap64 (int n))"
  using parse_digits_fold [of "digits n" 0] int_dec_val [of "digits n"] digits_all_digit [of n]
  by (simp add: list_all_iff)

lemma digits_not_minus_one: "digits n \<noteq> ''-1''"
  using digits_all_digit [of n] by auto

lemma parseLen_digits: "n < 2 ^ 63 \<Longrightarrow> parseLen (digits n) = (int n, None)"
  by (simp add: parseLen_def parse_digits_digits digits_not_minus_one in_int64_def)

lemma hd_digits: "is_digit (hd (digits n))"
  using digits_all_digit [of n] digits_nonempty [of n] by (meson hd_in_set)

lemma parseInt_FormatInt:
  assumes "in_int64 i"
  shows "parseInt (FormatInt i) = Inr (RInt i)"
proof (cases "i < 0")
  case True
  with assms show ?thesis
    by (simp add: parseInt_def FormatInt_def parse_digits_digits)
next
  case False
  moreover have "hd (digits (nat i)) \<noteq> CHR ''-''" using hd_digits [of "nat i"] by auto
  ultimately show ?thesis
    using assms by (simp add: parseInt_def FormatInt_def parse_digits_digits)
qed

lemma digits_length_64: "n < 2 ^ 64 \<Longrightarrow> length (digits n) \<le> 20"
  by (rule digits_length_bound) simp_all

lemma FormatInt_length: "in_int64 i \<Longrightarrow> length (FormatInt i) \<le> 21"
  using digits_length_64 [of "nat i"] digits_length_64 [of "nat (- i)"]
  by (auto simp: FormatInt_def in_int64_def nat_less_iff)

section \<open>Round trip of replies\<close>

lemma resp_length: "3 \<le> length (resp x)"
  by (cases x) (simp_all add: Suc_le_eq)

lemma read_bulk_resp:
  assumes "buf r = s @ crlf @ rest" and "length s < 2 ^ 63"
  shows "read_bulk (digits (length s)) r = (Inr (RBulk s), rd_skip (length s + 2) r)"
proof -
  have "readLine (rd_skip (length s) r) = (Inr [], rd_skip 2 (rd_skip (length s) r))"
    using readLine_line [of "rd_skip (length s) r" "[]" rest] rd_skip_buf [OF assms(1)] by simp
  moreover have "ReadFull (length s) r = (Inr s, rd_skip (length s) r)"
    using assms(1) by (simp add: ReadFull_def)
  ultimately show ?thesis
    using assms(2) by (simp add: read_bulk_def parseLen_digits)
qed

lemma read_reply_resp:
  "wf_reply x \<Longrightarrow> buf r = resp x @ rest \<Longrightarrow> 2 * length (resp x) \<le> f + 1 \<Longrightarrow>
     read_reply f r = Some (Inr x, rd_skip (length (resp x)) r)"
proof (induction x arbitrary: r rest f)
  case RNil
  then have "readLine r = (Inr ''$-1'', rd_skip (length (resp RNil)) r)"
    using readLine_line [of r "''$-1''" rest] by (simp add: eval_nat_numeral)
  with RNil show ?case by (cases f) (simp_all add: read_bulk_def parseLen_def)
next
  case (RStr s)
  then have "readLine r = (Inr (CHR ''+'' # s), rd_skip (length (resp (RStr s))) r)"
    using readLine_line [of r "CHR ''+'' # s" rest] by simp
  with RStr show ?case by (cases f) simp_all
next
  case (RErr s)
  then have "readLine r = (Inr (CHR ''-'' # s), rd_skip (length (resp (RErr s))) r)"
    using readLine_line [of r "CHR ''-'' # s" rest] by simp
  with RErr show ?case by (cases f) simp_all
next
  case (RInt i)
  then have "readLine r = (Inr (CHR '':'' # FormatInt i), rd_skip (length (resp (RInt i))) r)"
    using readLine_line [of r "CHR '':'' # FormatInt i" rest] FormatInt_length [of i]
      FormatInt_no_newline [of i] by simp
  with RInt show ?case by (cases f) (simp_all add: parseInt_FormatInt)
next
  case (RBulk s)
  let ?h = "CHR ''$'' # digits (length s)"
  have line: "readLine r = (Inr ?h, rd_skip (length ?h + 2) r)"
    using readLine_line [of r ?h "s @ crlf @ rest"] RBulk digits_length_64 [of "length s"]
      digits_no_newline [of "length s"] by simp
  have "buf (rd_skip (length ?h + 2) r) = s @ crlf @ rest"
    using rd_skip_buf [of r "?h @ crlf"] RBulk by simp
  from read_bulk_resp [OF this] line RBulk show ?case
    by (cases f) (simp_all add: algebra_simps)
next
  case (RArr xs)
  let ?h = "CHR ''*'' # digits (length xs)"
  have line: "readLine r = (Inr ?h, rd_skip (length ?h + 2) r)"
    using readLine_line [of r ?h "concat (map resp xs) @ rest"] RArr digits_length_64 [of "length xs"]
      digits_no_newline [of "length xs"] by simp
  have elems: "read_elems g (length ys) q = Some (Inr ys, rd_skip (length (concat (map resp ys))) q)"
    if "set ys \<subseteq> set xs" "buf q = concat (map resp ys) @ rest" "2 * length (concat (map resp ys)) \<le> g" for g ys q
    using that
  proof (induction ys arbitrary: g q)
    case Nil
    then show ?case by (simp add: rd_skip_def)
  next
    case (Cons y ys)
    then obtain g' where g: "g = Suc g'" using resp_length [of y] by (cases g) auto
    have y: "read_reply g' q = Some (Inr y, rd_skip (length (resp y)) q)"
      using RArr.IH [of y q "concat (map resp ys) @ rest" g'] RArr.prems(1) Cons.prems g by auto
    have "buf (rd_skip (length (resp y)) q) = concat (map resp ys) @ rest"
      using rd_skip_buf [of q "resp y"] Cons.prems by simp
    then have "read_elems g' (length ys) (rd_skip (length (resp y)) q) =
        Some (Inr ys, rd_skip (length (concat (map resp ys))) (rd_skip (length (resp y)) q))"
      using Cons g resp_length [of y] by (intro Cons.IH) auto
    with y g show ?case by simp
  qed
  have "buf (rd_skip (length ?h + 2) r) = concat (map resp xs) @ rest"
    using rd_skip_buf [of r "?h @ crlf"] RArr by simp
  from elems [OF subset_refl this] line RArr show ?case
    by (cases f) (simp_all add: parseLen_digits algebra_simps)
qed

lemma readReply_resp:
  assumes "wf_reply x" and "buf (br c) = resp x @ rest"
  shows "readReply c = (Inr x, c\<lparr>br := rd_skip (length (resp x)) (br c)\<rparr>)"
  using read_reply_resp [OF assms, of "2 * length (buf (br c)) + 1"] assms(2)
  by (simp add: readReply_def)

section \<open>Writing commands\<close>

lemma writeLen_digits: "writeLen_digits n acc = digits n @ acc"
proof (induction n acc rule: writeLen_digits.induct)
  case (1 n acc)
  show ?case
  proof (cases "n < 10")
    case True
    then show ?thesis by (simp add: writeLen_digits.simps [of n] digits.simps [of n] digit_char_def)
  next
    case False
    with 1 show ?thesis
      by (simp add: writeLen_digits.simps [of n] digits.simps [of n] digit_char_def Let_def)
  qed
qed

text \<open>
  The far end as a byte stream: writes to an open connection succeed, and what it answers
  depends on the bytes only, not on how the buffered writer cuts them up.
\<close>

locale byte_stream =
  fixes net :: "'s net"
    and feed :: "'s \<Rightarrow> string \<Rightarrow> string \<times> 's"
  assumes net_feed: "net s p = (None, fst (feed s p), snd (feed s p))"
    and feed_Nil: "feed s [] = ([], s)"
    and feed_append: "feed s (a @ b) =
      (fst (feed s a) @ fst (feed (snd (feed s a)) b), snd (feed (snd (feed s a)) b))"
begin

text \<open>
  \<open>ok\<close> connections are open and have not failed; \<open>view\<close> is the state as it will be
  once the buffered bytes have been delivered. Every write operation advances the view by
  its bytes, wherever the buffer happens to be flushed.
\<close>

definition ok :: "'s conn \<Rightarrow> bool" where
  "ok c \<longleftrightarrow> \<not> closed c \<and> werr c = None \<and> conn_err c = None"

definition view :: "'s conn \<Rightarrow> nat \<times> string \<times> 's" where
  "view c = (pending c, buf (br c) @ fst (feed (peer c) (wbuf c)), snd (feed (peer c) (wbuf c)))"

definition push :: "string \<Rightarrow> nat \<times> string \<times> 's \<Rightarrow> nat \<times> string \<times> 's" where
  "push s v = (fst v, fst (snd v) @ fst (feed (snd (snd v)) s), snd (feed (snd (snd v)) s))"

definition wrote :: "string \<Rightarrow> 's conn \<Rightarrow> error option \<times> 's conn \<Rightarrow> bool" where
  "wrote s c rc \<longleftrightarrow> fst rc = None \<and> ok (snd rc) \<and> view (snd rc) = push s (view c)"

lemma push_append [simp]: "push b (push a v) = push (a @ b) v"
  by (simp add: push_def feed_append)

lemma push_Nil [simp]: "push [] v = v"
  by (simp add: push_def feed_Nil)

lemma wrote_append: "wrote a c rc \<Longrightarrow> wrote b (snd rc) rd \<Longrightarrow> wrote (a @ b) c rd"
  by (simp add: wrote_def)

lemma net_Write_ok:
  "ok c \<Longrightarrow> net_Write net p c =
     c\<lparr>werr := None, peer := snd (feed (peer c) p), br := (br c)\<lparr>buf := buf (br c) @ fst (feed (peer c) p)\<rparr>\<rparr>"
  by (simp add: net_Write_def ok_def net_feed case_prod_beta)

lemma buffered: "ok c \<Longrightarrow> wrote s c (None, c\<lparr>wbuf := wbuf c @ s\<rparr>)"
  by (simp add: wrote_def ok_def view_def push_def feed_append)

lemma flushed:
  assumes "ok c"
  shows "fst (bw_Flush net c) = None" "ok (snd (bw_Flush net c))"
    "view (snd (bw_Flush net c)) = view c" "wbuf (snd (bw_Flush net c)) = []"
proof -
  have w: "werr c = None" using assms by (simp add: ok_def)
  show "fst (bw_Flush net c) = None" "ok (snd (bw_Flush net c))"
    "view (snd (bw_Flush net c)) = view c" "wbuf (snd (bw_Flush net c)) = []"
    using assms net_Write_ok [OF assms, of "wbuf c"]
    by (auto simp: bw_Flush_def w Let_def ok_def view_def feed_Nil)
qed

lemma WriteString_wrote: "ok c \<Longrightarrow> wrote s c (bw_WriteString net s c)"
proof (induction "length s + length (wbuf c)" arbitrary: s c rule: less_induct)
  case less
  have w: "werr c = None" using less.prems by (simp add: ok_def)
  show ?case
  proof (cases "length s \<le> bw_size - length (wbuf c)")
    case True
    with less.prems w show ?thesis by (simp add: bw_WriteString.simps [of net s c] buffered)
  next
    case False
    define n where "n = bw_size - length (wbuf c)"
    define c1 where "c1 = c\<lparr>wbuf := wbuf c @ take n s\<rparr>"
    define c2 where "c2 = snd (bw_Flush net c1)"
    have 1: "wrote (take n s) c (None, c1)"
      unfolding c1_def by (rule buffered [OF less.prems])
    then have 2: "ok c2" "view c2 = view c1" "wbuf c2 = []"
      using flushed [of c1] by (simp_all add: c2_def wrote_def)
    have "length (drop n s) + length (wbuf c2) < length s + length (wbuf c)"
      using False 2(3) by (auto simp: n_def bw_size_def)
    from less.hyps [OF this 2(1)] 1 2(2)
    have "wrote s c (bw_WriteString net (drop n s) c2)"
      by (simp add: wrote_def)
    with False w show ?thesis
      by (simp add: bw_WriteString.simps [of net s c] Let_def n_def c1_def c2_def)
  qed
qed

lemma Write_wrote:
  assumes "ok c"
  shows "wrote p c (bw_Write net p c)"
proof -
  have w: "werr c = None" using assms by (simp add: ok_def)
  have direct: "wrote q d (werr (net_Write net q d), net_Write net q d)" if "ok d" "wbuf d = []" for q d
    using net_Write_ok [OF that(1), of q] that
    by (simp add: wrote_def ok_def view_def push_def feed_Nil)
  show ?thesis
  proof (cases "length p \<le> bw_size - length (wbuf c) \<or> wbuf c = []")
    case True
    with assms w buffered direct show ?thesis by (auto simp: bw_Write_def Let_def)
  next
    case False
    define n where "n = bw_size - length (wbuf c)"
    define c1 where "c1 = c\<lparr>wbuf := wbuf c @ take n p\<rparr>"
    define c2 where "c2 = snd (bw_Flush net c1)"
    have 1: "wrote (take n p) c (None, c1)"
      unfolding c1_def by (rule buffered [OF assms])
    then have 2: "ok c2" "view c2 = view c1" "wbuf c2 = []" "werr c2 = None"
      using flushed [of c1] by (simp_all add: c2_def wrote_def ok_def)
    have "wrote (take n p @ drop n p) c (bw_Write net p c)"
    proof (rule wrote_append)
      show "wrote (take n p) c (None, c2)" using 1 2 by (simp add: wrote_def)
      show "wrote (drop n p) (snd (None, c2)) (bw_Write net p c)"
        using False w 2 buffered [OF 2(1), of "drop n p"] direct [OF 2(1,3), of "drop n p"]
        by (auto simp: bw_Write_def Let_def n_def c1_def c2_def)
    qed
    then show ?thesis by simp
  qed
qed

lemma writeLen_wrote: "ok c \<Longrightarrow> wrote (k # digits n @ crlf) c (writeLen net k n c)"
  using Write_wrote by (simp add: writeLen_def writeLen_digits)

lemma writeBytes_wrote:
  assumes "ok c"
  shows "wrote (bulk p) c (writeBytes net p c)"
proof -
  define a where "a = writeLen net (CHR ''$'') (length p) c"
  define b where "b = bw_Write net p (snd a)"
  have 1: "wrote (CHR ''$'' # digits (length p) @ crlf) c a"
    unfolding a_def by (rule writeLen_wrote [OF assms])
  have 2: "wrote p (snd a) b"
    unfolding b_def using 1 by (intro Write_wrote) (simp add: wrote_def)
  have 3: "wrote crlf (snd b) (bw_WriteString net crlf (snd b))"
    using 2 by (intro WriteString_wrote) (simp add: wrote_def)
  have "writeBytes net p c = bw_WriteString net crlf (snd b)"
    by (simp add: writeBytes_def a_def b_def case_prod_beta)
  with wrote_append [OF wrote_append [OF 1 2] 3] show ?thesis by (simp add: bulk_def)
qed

lemma writeString_wrote:
  assumes "ok c"
  shows "wrote (bulk s) c (writeString net s c)"
proof -
  define a where "a = writeLen net (CHR ''$'') (length s) c"
  define b where "b = bw_WriteString net s (snd a)"
  have 1: "wrote (CHR ''$'' # digits (length s) @ crlf) c a"
    unfolding a_def by (rule writeLen_wrote [OF assms])
  have 2: "wrote s (snd a) b"
    unfolding b_def using 1 by (intro WriteString_wrote) (simp add: wrote_def)
  have 3: "wrote crlf (snd b) (bw_WriteString net crlf (snd b))"
    using 2 by (intro WriteString_wrote) (simp add: wrote_def)
  have "writeString net s c = bw_WriteString net crlf (snd b)"
    by (simp add: writeString_def a_def b_def case_prod_beta)
  with wrote_append [OF wrote_append [OF 1 2] 3] show ?thesis by (simp add: bulk_def)
qed

lemma writeArg_wrote: "ok c \<Longrightarrow> wrote (bulk (arg_text a)) c (writeArg net a c)"
  by (cases a) (simp_all add: writeString_wrote writeBytes_wrote writeInt64_def writeFloat64_def)

lemma writeArgs_wrote:
  "wrote p c rc \<Longrightarrow> wrote (p @ concat (map (bulk \<circ> arg_text) as)) c (writeArgs net as rc)"
proof (induction as arbitrary: p rc)
  case Nil
  then show ?case by (cases rc) simp
next
  case (Cons a as)
  then have "wrote (p @ bulk (arg_text a)) c (writeArg net a (snd rc))"
    by (intro wrote_append [OF Cons.prems] writeArg_wrote) (simp add: wrote_def)
  from Cons.IH [OF this] Cons.prems show ?case
    by (cases rc) (simp add: wrote_def)
qed

lemma writeCommand_wrote:
  assumes "ok c"
  shows "wrote (resp_command (cmd # map arg_text args)) c (writeCommand net cmd args c)"
proof -
  define a where "a = writeLen net (CHR ''*'') (1 + length args) c"
  have 1: "wrote (CHR ''*'' # digits (1 + length args) @ crlf) c a"
    unfolding a_def by (rule writeLen_wrote [OF assms])
  then have "wrote (CHR ''*'' # digits (1 + length args) @ crlf @ bulk cmd) c (writeString net cmd (snd a))"
    using wrote_append [OF 1 writeString_wrote] by (simp add: wrote_def)
  from writeArgs_wrote [OF this, of args] show ?thesis
    by (simp add: writeCommand_def resp_command_def a_def case_prod_beta)
qed

end

section \<open>Pipelines over a peer that answers commands\<close>

text \<open>The replies to a sequence of commands, and the first error among them.\<close>

fun exec_all :: "('s \<Rightarrow> string list \<Rightarrow> reply \<times> 's) \<Rightarrow> 's \<Rightarrow> string list list \<Rightarrow> reply list \<times> 's" where
  "exec_all exec s [] = ([], s)"
| "exec_all exec s (w # ws) =
     (let (x, s1) = exec s w; (xs, s2) = exec_all exec s1 ws in (x # xs, s2))"

fun reply_error :: "reply \<Rightarrow> error option" where
  "reply_error (RErr s) = Some (RedisError s)"
| "reply_error _ = None"

fun first_error :: "reply list \<Rightarrow> error option" where
  "first_error [] = None"
| "first_error (x # xs) = (case reply_error x of Some e \<Rightarrow> Some e | None \<Rightarrow> first_error xs)"

lemma exec_all_append:
  "exec_all exec s (as @ bs) =
     (fst (exec_all exec s as) @ fst (exec_all exec (snd (exec_all exec s as)) bs),
      snd (exec_all exec (snd (exec_all exec s as)) bs))"
  by (induction as arbitrary: s) (simp_all add: case_prod_beta Let_def)

lemma length_exec_all [simp]: "length (fst (exec_all exec s ws)) = length ws"
  by (induction ws arbitrary: s) (simp_all add: case_prod_beta Let_def)

lemma read_last_err:
  "(case y of RErr s \<Rightarrow> if err = None then Some (RedisError s) else err | _ \<Rightarrow> err) =
     (if err = None then reply_error y else err)"
  by (cases y) auto

lemma read_last_resp:
  assumes "\<forall>x \<in> set xs. wf_reply x" and "buf (br c) = concat (map resp xs) @ rest"
  shows "read_last (length xs) x0 e0 c =
     ((last (x0 # xs), if e0 = None then first_error xs else e0),
      c\<lparr>br := rd_skip (length (concat (map resp xs))) (br c)\<rparr>)"
  using assms
proof (induction xs arbitrary: c x0 e0)
  case Nil
  then show ?case by (simp add: rd_skip_def)
next
  case (Cons x xs)
  let ?c = "c\<lparr>br := rd_skip (length (resp x)) (br c)\<rparr>"
  have "readReply c = (Inr x, ?c)"
    using Cons.prems by (intro readReply_resp [of _ _ "concat (map resp xs) @ rest"]) simp_all
  moreover have "buf (br ?c) = concat (map resp xs) @ rest"
    using rd_skip_buf [of "br c" "resp x"] Cons.prems by simp
  ultimately show ?case
    using Cons.IH [of ?c] Cons.prems(1) by (auto simp: read_last_err add.assoc split: option.split)
qed

lemma read_n_resp:
  assumes "\<forall>x \<in> set xs. wf_reply x" and "buf (br c) = concat (map resp xs) @ rest"
  shows "read_n (length xs) c =
     (Inr xs, c\<lparr>br := rd_skip (length (concat (map resp xs))) (br c)\<rparr>)"
  using assms
proof (induction xs arbitrary: c)
  case Nil
  then show ?case by (simp add: rd_skip_def)
next
  case (Cons x xs)
  let ?c = "c\<lparr>br := rd_skip (length (resp x)) (br c)\<rparr>"
  have "readReply c = (Inr x, ?c)"
    using Cons.prems by (intro readReply_resp [of _ _ "concat (map resp xs) @ rest"]) simp_all
  moreover have "buf (br ?c) = concat (map resp xs) @ rest"
    using rd_skip_buf [of "br c" "resp x"] Cons.prems by simp
  ultimately show ?case
    using Cons.IH [of ?c] Cons.prems(1) by simp
qed

locale resp_peer = byte_stream net feed
  for net :: "'s net" and feed :: "'s \<Rightarrow> string \<Rightarrow> string \<times> 's" +
  fixes exec :: "'s \<Rightarrow> string list \<Rightarrow> reply \<times> 's"
    and ready :: "'s \<Rightarrow> bool"
  assumes feed_command: "ready s \<Longrightarrow> ws \<noteq> [] \<Longrightarrow>
      feed s (resp_command ws) = (resp (fst (exec s ws)), snd (exec s ws))"
    and exec_wf: "ready s \<Longrightarrow> ws \<noteq> [] \<Longrightarrow> wf_reply (fst (exec s ws))"
    and exec_ready: "ready s \<Longrightarrow> ws \<noteq> [] \<Longrightarrow> ready (snd (exec s ws))"
begin

text \<open>
  \<open>queued s ws c\<close>: the peer was in state \<open>s\<close>, the commands \<open>ws\<close> have been sent on the
  healthy connection \<open>c\<close> since, and none of their replies has been read.
\<close>

definition queued :: "'s \<Rightarrow> string list list \<Rightarrow> 's conn \<Rightarrow> bool" where
  "queued s ws c \<longleftrightarrow> ok c \<and> ready s \<and> [] \<notin> set ws \<and> (ws = [] \<longrightarrow> wbuf c = []) \<and>
     view c = (length ws, concat (map resp (fst (exec_all exec s ws))), snd (exec_all exec s ws))"

lemma exec_all_ready: "ready s \<Longrightarrow> [] \<notin> set ws \<Longrightarrow>
    ready (snd (exec_all exec s ws)) \<and> (\<forall>x \<in> set (fst (exec_all exec s ws)). wf_reply x)"
proof (induction ws arbitrary: s)
  case (Cons w ws)
  then have "w \<noteq> []" by auto
  with Cons.IH [of "snd (exec s w)"] Cons.prems exec_wf [of s w] exec_ready [of s w] show ?case
    by (auto simp: case_prod_beta Let_def)
qed simp

lemma NewConn_queued: "ready s \<Longrightarrow> queued s [] (NewConn s)"
  by (simp add: queued_def ok_def view_def NewConn_def feed_Nil)

lemma push_command:
  assumes "queued s ws c" and "w \<noteq> []"
  shows "snd (push (resp_command w) (view c)) =
     (concat (map resp (fst (exec_all exec s (ws @ [w])))), snd (exec_all exec s (ws @ [w])))"
  using assms exec_all_ready [of s ws] feed_command [of "snd (exec_all exec s ws)" w]
  by (simp add: queued_def push_def exec_all_append case_prod_beta Let_def)

lemma command_queued:
  assumes "queued s ws c"
  shows "fst (writeCommand net cmd args (c\<lparr>pending := p\<rparr>)) = None"
    "ok (snd (writeCommand net cmd args (c\<lparr>pending := p\<rparr>)))"
    "view (snd (writeCommand net cmd args (c\<lparr>pending := p\<rparr>))) =
       (p, concat (map resp (fst (exec_all exec s (ws @ [cmd # map arg_text args])))),
        snd (exec_all exec s (ws @ [cmd # map arg_text args])))"
proof -
  have "ok (c\<lparr>pending := p\<rparr>)" using assms by (simp add: queued_def ok_def)
  from writeCommand_wrote [OF this, of cmd args] push_command [OF assms, of "cmd # map arg_text args"]
  show "fst (writeCommand net cmd args (c\<lparr>pending := p\<rparr>)) = None"
    "ok (snd (writeCommand net cmd args (c\<lparr>pending := p\<rparr>)))"
    "view (snd (writeCommand net cmd args (c\<lparr>pending := p\<rparr>))) =
       (p, concat (map resp (fst (exec_all exec s (ws @ [cmd # map arg_text args])))),
        snd (exec_all exec s (ws @ [cmd # map arg_text args])))"
    by (simp_all add: wrote_def view_def push_def)
qed

lemma Send_queued:
  assumes "queued s ws c"
  shows "fst (conn_Send net cmd args c) = None"
    "queued s (ws @ [cmd # map arg_text args]) (snd (conn_Send net cmd args c))"
  using command_queued [OF assms, of cmd args "pending c + 1"] assms
  by (cases "writeCommand net cmd args (c\<lparr>pending := Suc (pending c)\<rparr>)";
      simp add: conn_Send_def Let_def queued_def view_def)+

lemma Flush_queued:
  assumes "ok c"
  shows "bw_Flush net c = (None, snd (bw_Flush net c))"
    "buf (br (snd (bw_Flush net c))) = fst (snd (view c))"
    "peer (snd (bw_Flush net c)) = snd (snd (view c))"
    "pending (snd (bw_Flush net c)) = fst (view c)"
  using flushed [OF assms] by (simp_all add: prod_eq_iff view_def feed_Nil)

lemma Do_queued:
  fixes args :: "arg list"
  assumes "queued s ws c" and "cmd \<noteq> []"
  defines "w \<equiv> cmd # map arg_text args"
  shows "fst (conn_Do net cmd args c) =
      (last (fst (exec_all exec s (ws @ [w]))), first_error (fst (exec_all exec s (ws @ [w]))))"
    "queued (snd (exec_all exec s (ws @ [w]))) [] (snd (conn_Do net cmd args c))"
proof -
  define c1 where "c1 = snd (writeCommand net cmd args (c\<lparr>pending := 0\<rparr>))"
  define c2 where "c2 = snd (bw_Flush net c1)"
  define xs where "xs = fst (exec_all exec s (ws @ [w]))"
  note c1 = command_queued [OF assms(1), of cmd args 0, folded c1_def w_def xs_def]
  note c2 = Flush_queued [OF c1(2), folded c2_def, unfolded c1(3)]
  have ok2: "ok c2" "wbuf c2 = []" using flushed [OF c1(2)] by (simp_all add: c2_def)
  have p: "pending c = length ws" using assms(1) by (simp add: queued_def view_def)
  have ready: "ready (snd (exec_all exec s (ws @ [w]))) \<and> (\<forall>x \<in> set xs. wf_reply x)"
    unfolding xs_def using assms(1) by (intro exec_all_ready) (auto simp: queued_def w_def)
  have len: "length xs = Suc (length ws)" by (simp add: xs_def)
  have "conn_Do net cmd args c = read_last (Suc (length ws)) RNil None c2"
    using assms(2) c2(1)
    by (simp add: conn_Do_def p Let_def del: read_last.simps flip: c1_def)
  also have "\<dots> = ((last xs, first_error xs), c2\<lparr>br := rd_skip (length (concat (map resp xs))) (br c2)\<rparr>)"
    using read_last_resp [of xs c2 "[]" RNil None] ready c2(2) [folded xs_def] len
    by (auto simp del: read_last.simps)
  finally have D: "conn_Do net cmd args c = \<dots>" .
  show "fst (conn_Do net cmd args c) = (last xs, first_error xs)" by (simp add: D)
  show "queued (snd (exec_all exec s (ws @ [w]))) [] (snd (conn_Do net cmd args c))"
    using ok2 c2 [folded xs_def] ready by (simp add: D queued_def ok_def view_def feed_Nil rd_skip_def)
qed

text \<open>\<open>Do("")\<close> flushes and collects the pending replies.\<close>

lemma Do_empty_queued:
  assumes "queued s ws c"
  shows "fst (conn_Do net [] args c) =
      (if ws = [] then RNil else RArr (fst (exec_all exec s ws)), None)"
    "queued (snd (exec_all exec s ws)) [] (snd (conn_Do net [] args c))"
proof -
  define c0 where "c0 = c\<lparr>pending := 0\<rparr>"
  define c2 where "c2 = snd (bw_Flush net c0)"
  define xs where "xs = fst (exec_all exec s ws)"
  have v: "view c0 = (0, concat (map resp xs), snd (exec_all exec s ws))" "ok c0"
    using assms by (simp_all add: c0_def queued_def view_def ok_def xs_def)
  note c2 = Flush_queued [OF v(2), folded c2_def, unfolded v(1)]
  have ok2: "ok c2" "wbuf c2 = []" using flushed [OF v(2)] by (simp_all add: c2_def)
  have p: "pending c = length ws" using assms by (simp add: queued_def view_def)
  have ready: "ready (snd (exec_all exec s ws)) \<and> (\<forall>x \<in> set xs. wf_reply x)"
    unfolding xs_def using assms by (intro exec_all_ready) (auto simp: queued_def)
  have D: "conn_Do net [] args c =
      ((RArr xs, None), c2\<lparr>br := rd_skip (length (concat (map resp xs))) (br c2)\<rparr>)" if "ws \<noteq> []"
    using that c2(1) read_n_resp [of xs c2 "[]"] ready c2(2)
    by (simp add: conn_Do_def p Let_def xs_def flip: c0_def)
  have E: "conn_Do net [] args c = ((RNil, None), c0)" if "ws = []"
    using that p by (simp add: conn_Do_def c0_def)
  show "fst (conn_Do net [] args c) = (if ws = [] then RNil else RArr (fst (exec_all exec s ws)), None)"
    using D E by (simp add: xs_def)
  show "queued (snd (exec_all exec s ws)) [] (snd (conn_Do net [] args c))"
  proof (cases "ws = []")
    case True
    with assms v show ?thesis by (simp add: E queued_def xs_def c0_def)
  next
    case False
    with ok2 c2 ready show ?thesis by (simp add: D queued_def ok_def view_def feed_Nil rd_skip_def)
  qed
qed

end

section \<open>Properties\<close>

text \<open>
  C27: reading replies inverts the wire format. Whatever reply a server sends that the
  protocol can carry, nested arrays included, \<open>readReply\<close> returns exactly it and leaves the
  rest of the input untouched.
\<close>

theorem readReply_round_trip:
  assumes "wf_reply x" and "buf (br c) = resp x @ rest"
  shows "\<exists>c'. readReply c = (Inr x, c') \<and> buf (br c') = rest \<and> c' = c\<lparr>br := br c'\<rparr>"
  using readReply_resp [OF assms] rd_skip_buf [OF assms(2)] by auto

lemma readReply_round_trip_witness:
  defines "x \<equiv> RArr [RInt (-5), RBulk ''ab'', RArr [RNil, RStr ''OK''], RErr ''ERR no'']"
  defines "c \<equiv> (NewConn ())\<lparr>br := \<lparr>buf = resp x @ ''+PONG'', ahead = 0, rerr = EOF\<rparr>\<rparr>"
  shows "\<exists>c'. readReply c = (Inr x, c') \<and> buf (br c') = ''+PONG'' \<and> c' = c\<lparr>br := br c'\<rparr>"
  by (rule readReply_round_trip) (simp_all add: x_def c_def in_int64_def)

text \<open>
  Reading a reply always ends, on any input at all: the bound on the nested calls that
  \<open>readReply\<close> passes is never reached, so its result is the one of the unbounded recursion.
\<close>

theorem readReply_terminates:
  "\<exists>x r. read_reply (2 * length (buf (br c)) + 1) (br c) = Some (x, r) \<and> readReply c = (x, c\<lparr>br := r\<rparr>) \<and>
     length (buf r) \<le> length (buf (br c))"
proof -
  obtain x r where "read_reply (2 * length (buf (br c)) + 1) (br c) = Some (x, r)"
    using read_reply_enough [of "br c" "2 * length (buf (br c)) + 1"] by auto
  with read_reply_consumes [OF this] show ?thesis by (simp add: readReply_def)
qed

text \<open>
  Lengths are not checked for overflow: the length a bulk string or array announces is
  taken modulo \<open>2^64\<close> as a signed number, so that an announced length of \<open>2^63\<close> reads as a
  negative one, and the reply as nil.
\<close>

theorem parseLen_wraps: "parseLen (digits n) = (wrap64 (int n), None)"
  by (simp add: parseLen_def parse_digits_digits digits_not_minus_one)

text \<open>
  A far end that records what it receives, to see the bytes a command is written as.
\<close>

definition rec_net :: "string net" where
  "rec_net s p = (None, [], s @ p)"

definition rec_feed :: "string \<Rightarrow> string \<Rightarrow> string \<times> string" where
  "rec_feed s p = ([], s @ p)"

interpretation recorder: byte_stream rec_net rec_feed
  by unfold_locales (simp_all add: rec_net_def rec_feed_def)

text \<open>
  \<open>Send\<close> and \<open>Flush\<close> put exactly the array of bulk strings of the command and its
  arguments on the wire, whatever their sizes and wherever the 4096-byte buffer is flushed
  in between.
\<close>

theorem command_bytes:
  "peer (snd (conn_Flush rec_net (snd (conn_Send rec_net cmd args (NewConn []))))) =
     resp_command (cmd # map arg_text args)"
proof -
  let ?c0 = "(NewConn ([] :: string))\<lparr>pending := 1\<rparr>"
  define c1 where "c1 = snd (writeCommand rec_net cmd args ?c0)"
  have "recorder.ok ?c0" by (simp add: recorder.ok_def NewConn_def)
  from recorder.writeCommand_wrote [OF this, of cmd args]
  have w: "fst (writeCommand rec_net cmd args ?c0) = None" "recorder.ok c1"
    "snd (snd (recorder.view c1)) = resp_command (cmd # map arg_text args)"
    by (simp_all add: recorder.wrote_def c1_def recorder.push_def recorder.view_def rec_feed_def NewConn_def)
  have send: "conn_Send rec_net cmd args (NewConn []) = (None, c1)"
    using w(1) by (cases "writeCommand rec_net cmd args ?c0") (simp add: conn_Send_def c1_def NewConn_def)
  note f = recorder.flushed [OF w(2)]
  have "peer (snd (bw_Flush rec_net c1)) = snd (snd (recorder.view (snd (bw_Flush rec_net c1))))"
    using f(4) by (simp add: recorder.view_def rec_feed_def)
  also have "\<dots> = resp_command (cmd # map arg_text args)" using f(3) w(3) by simp
  finally show ?thesis
    using f(1) by (cases "bw_Flush rec_net c1") (simp add: send conn_Flush_def)
qed

end
