(* ===== verification/Redigo_Reply.thy ===== *)
theory Redigo_Reply
  imports Redigo_Resp
begin

text \<open>
  \<open>redigo/redis/reply.go\<close>: the helpers that turn the result of \<open>Do\<close> (a reply and an
  error) into Go values. Each takes the pair and returns a value and an error, as the Go
  functions do. The parsers of \<open>strconv\<close> they call come first; \<open>strconv.ParseFloat\<close> is a
  parameter. \<open>Ints\<close> goes through the reflective \<open>ScanSlice\<close> and is not modelled.
\<close>

section \<open>\<open>strconv\<close>\<close>

fun ParseUint_loop :: "nat \<Rightarrow> string \<Rightarrow> nat \<times> error option" where
  "ParseUint_loop n [] = (n, None)"
| "ParseUint_loop n (c # s) =
     (if \<not> is_digit c then (0, Some ErrSyntax)
      else if (2 ^ 64 - 1) div 10 + 1 \<le> n then (2 ^ 64 - 1, Some ErrRange)
      else if 2 ^ 64 - 1 < n * 10 + digit_val c then (2 ^ 64 - 1, Some ErrRange)
      else ParseUint_loop (n * 10 + digit_val c) s)"

definition ParseUint :: "string \<Rightarrow> nat \<times> error option" where
  "ParseUint s = (if s = [] then (0, Some ErrSyntax) else ParseUint_loop 0 s)"

definition ParseInt :: "string \<Rightarrow> int \<times> error option" where
  "ParseInt s =
     (if s = [] then (0, Some ErrSyntax)
      else let neg = (hd s = CHR ''-'');
               s1 = (if hd s = CHR ''+'' \<or> hd s = CHR ''-'' then tl s else s);
               (un, err) = ParseUint s1
           in if err \<noteq> None \<and> err \<noteq> Some ErrRange then (0, err)
              else if \<not> neg \<and> 2 ^ 63 \<le> un then (2 ^ 63 - 1, Some ErrRange)
              else if neg \<and> 2 ^ 63 < un then (- (2 ^ 63), Some ErrRange)
              else (if neg then - int un else int un, None))"

definition ParseBool :: "string \<Rightarrow> bool \<times> error option" where
  "ParseBool s =
     (if s \<in> {''1'', ''t'', ''T'', ''true'', ''TRUE'', ''True''} then (True, None)
      else if s \<in> {''0'', ''f'', ''F'', ''false'', ''FALSE'', ''False''} then (False, None)
      else (False, Some ErrSyntax))"

text \<open>The name \<open>%T\<close> prints for the type of a reply.\<close>

fun type_name :: "reply \<Rightarrow> string" where
  "type_name RNil = ''<nil>''"
| "type_name (RStr _) = ''string''"
| "type_name (RErr _) = ''redis.Error''"
| "type_name (RInt _) = ''int64''"
| "type_name (RBulk _) = ''[]uint8''"
| "type_name (RArr _) = ''[]interface {}''"

definition unexpected :: "string \<Rightarrow> reply \<Rightarrow> error" where
  "unexpected f r = ErrorString (''redigo: unexpected type for '' @ f @ '', got type '' @ type_name r)"

section \<open>reply.go\<close>

definition errNegativeInt :: error where
  "errNegativeInt = ErrorString ''redigo: unexpected value for Uint64''"

definition redis_Int :: "reply \<Rightarrow> error option \<Rightarrow> int \<times> error option" where
  "redis_Int r err =
     (case err of Some e \<Rightarrow> (0, Some e)
      | None \<Rightarrow>
        (case r of
           RInt i \<Rightarrow> let x = wrap64 i in if wrap64 x \<noteq> i then (0, Some ErrRange) else (x, None)
         | RBulk s \<Rightarrow> ParseInt s
         | RNil \<Rightarrow> (0, Some ErrNil)
         | RErr s \<Rightarrow> (0, Some (RedisError s))
         | _ \<Rightarrow> (0, Some (unexpected ''Int'' r))))"

definition redis_Int64 :: "reply \<Rightarrow> error option \<Rightarrow> int \<times> error option" where
  "redis_Int64 r err =
     (case err of Some e \<Rightarrow> (0, Some e)
      | None \<Rightarrow>
        (case r of
           RInt i \<Rightarrow> (i, None)
         | RBulk s \<Rightarrow> ParseInt s
         | RNil \<Rightarrow> (0, Some ErrNil)
         | RErr s \<Rightarrow> (0, Some (RedisError s))
         | _ \<Rightarrow> (0, Some (unexpected ''Int64'' r))))"

definition redis_Uint64 :: "reply \<Rightarrow> error option \<Rightarrow> nat \<times> error option" where
  "redis_Uint64 r err =
     (case err of Some e \<Rightarrow> (0, Some e)
      | None \<Rightarrow>
        (case r of
           RInt i \<Rightarrow> if i < 0 then (0, Some errNegativeInt) else (nat i, None)
         | RBulk s \<Rightarrow> ParseUint s
         | RNil \<Rightarrow> (0, Some ErrNil)
         | RErr s \<Rightarrow> (0, Some (RedisError s))
         | _ \<Rightarrow> (0, Some (unexpected ''Uint64'' r))))"

definition redis_Float64 ::
  "(string \<Rightarrow> 'f :: zero \<times> error option) \<Rightarrow> reply \<Rightarrow> error option \<Rightarrow> 'f \<times> error option" where
  "redis_Float64 ParseFloat r err =
     (case err of Some e \<Rightarrow> (0, Some e)
      | None \<Rightarrow>
        (case r of
           RBulk s \<Rightarrow> ParseFloat s
         | RNil \<Rightarrow> (0, Some ErrNil)
         | RErr s \<Rightarrow> (0, Some (RedisError s))
         | _ \<Rightarrow> (0, Some (unexpected ''Float64'' r))))"

definition redis_String :: "reply \<Rightarrow> error option \<Rightarrow> string \<times> error option" where
  "redis_String r err =
     (case err of Some e \<Rightarrow> ([], Some e)
      | None \<Rightarrow>
        (case r of
           RBulk s \<Rightarrow> (s, None)
         | RStr s \<Rightarrow> (s, None)
         | RNil \<Rightarrow> ([], Some ErrNil)
         | RErr s \<Rightarrow> ([], Some (RedisError s))
         | _ \<Rightarrow> ([], Some (unexpected ''String'' r))))"

text \<open>A nil slice and an empty slice are both the empty list.\<close>

definition redis_Bytes :: "reply \<Rightarrow> error option \<Rightarrow> string \<times> error option" where
  "redis_Bytes r err =
     (case err of Some e \<Rightarrow> ([], Some e)
      | None \<Rightarrow>
        (case r of
           RBulk s \<Rightarrow> (s, None)
         | RStr s \<Rightarrow> (s, None)
         | RNil \<Rightarrow> ([], Some ErrNil)
         | RErr s \<Rightarrow> ([], Some (RedisError s))
         | _ \<Rightarrow> ([], Some (unexpected ''Bytes'' r))))"

definition redis_Bool :: "reply \<Rightarrow> error option \<Rightarrow> bool \<times> error option" where
  "redis_Bool r err =
     (case err of Some e \<Rightarrow> (False, Some e)
      | None \<Rightarrow>
        (case r of
           RInt i \<Rightarrow> (i \<noteq> 0, None)
         | RBulk s \<Rightarrow> ParseBool s
         | RNil \<Rightarrow> (False, Some ErrNil)
         | RErr s \<Rightarrow> (False, Some (RedisError s))
         | _ \<Rightarrow> (False, Some (unexpected ''Bool'' r))))"

definition redis_Values :: "reply \<Rightarrow> error option \<Rightarrow> reply list \<times> error option" where
  "redis_Values r err =
     (case err of Some e \<Rightarrow> ([], Some e)
      | None \<Rightarrow>
        (case r of
           RArr xs \<Rightarrow> (xs, None)
         | RNil \<Rightarrow> ([], Some ErrNil)
         | RErr s \<Rightarrow> ([], Some (RedisError s))
         | _ \<Rightarrow> ([], Some (unexpected ''Values'' r))))"

definition redis_MultiBulk :: "reply \<Rightarrow> error option \<Rightarrow> reply list \<times> error option" where
  "redis_MultiBulk r err = redis_Values r err"

fun Strings_loop :: "reply list \<Rightarrow> error + string list" where
  "Strings_loop [] = Inr []"
| "Strings_loop (RNil # xs) = map_sum id ((#) []) (Strings_loop xs)"
| "Strings_loop (RBulk p # xs) = map_sum id ((#) p) (Strings_loop xs)"
| "Strings_loop (x # xs) =
     Inl (ErrorString (''redigo: unexpected element type for Strings, got type '' @ type_name x))"

definition redis_Strings :: "reply \<Rightarrow> error option \<Rightarrow> string list \<times> error option" where
  "redis_Strings r err =
     (case err of Some e \<Rightarrow> ([], Some e)
      | None \<Rightarrow>
        (case r of
           RArr xs \<Rightarrow> (case Strings_loop xs of Inl e \<Rightarrow> ([], Some e) | Inr ss \<Rightarrow> (ss, None))
         | RNil \<Rightarrow> ([], Some ErrNil)
         | RErr s \<Rightarrow> ([], Some (RedisError s))
         | _ \<Rightarrow> ([], Some (unexpected ''Strings'' r))))"

fun StringMap_loop :: "(string \<rightharpoonup> string) \<Rightarrow> reply list \<Rightarrow> error + (string \<rightharpoonup> string)" where
  "StringMap_loop m (RBulk k # RBulk v # xs) = StringMap_loop (m(k \<mapsto> v)) xs"
| "StringMap_loop m [] = Inr m"
| "StringMap_loop m _ = Inl (ErrorString ''redigo: ScanMap key not a bulk string value'')"

definition redis_StringMap :: "reply \<Rightarrow> error option \<Rightarrow> error + (string \<rightharpoonup> string)" where
  "redis_StringMap r err =
     (case redis_Values r err of
        (_, Some e) \<Rightarrow> Inl e
      | (values, None) \<Rightarrow>
          if odd (length values)
          then Inl (ErrorString ''redigo: StringMap expects even number of values result'')
          else StringMap_loop Map.empty values)"

section \<open>Lemmas\<close>

lemma ParseUint_loop_digits:
  "list_all is_digit s \<Longrightarrow> foldl (\<lambda>n c. n * 10 + digit_val c) n s < 2 ^ 64 \<Longrightarrow>
     ParseUint_loop n s = (foldl (\<lambda>n c. n * 10 + digit_val c) n s, None)"
proof (induction s arbitrary: n)
  case (Cons c s)
  have "m \<le> foldl (\<lambda>n c. n * 10 + digit_val c) m s" for m
  proof (induction s arbitrary: m)
    case (Cons d s)
    from this [of "m * 10 + digit_val d"] show ?case by simp
  qed simp
  from this [of "n * 10 + digit_val c"] Cons.prems(2) have "n * 10 + digit_val c < 2 ^ 64" by simp
  with Cons show ?case by simp
qed simp

lemma ParseUint_digits: "n < 2 ^ 64 \<Longrightarrow> ParseUint (digits n) = (n, None)"
  using ParseUint_loop_digits [of "digits n" 0] digits_all_digit [of n] dec_val_digits [of n]
  by (simp add: ParseUint_def dec_val_def list_all_iff mult.commute)

lemma ParseInt_FormatInt:
  assumes "in_int64 i"
  shows "ParseInt (FormatInt i) = (i, None)"
proof (cases "i < 0")
  case True
  with assms show ?thesis
    by (simp add: ParseInt_def FormatInt_def ParseUint_digits in_int64_def nat_less_iff)
next
  case False
  moreover have "hd (digits (nat i)) \<noteq> CHR ''-''" "hd (digits (nat i)) \<noteq> CHR ''+''"
    using hd_digits [of "nat i"] by (auto simp: is_digit_def)
  ultimately show ?thesis
    using assms
    by (simp add: ParseInt_def FormatInt_def ParseUint_digits in_int64_def nat_less_iff Let_def)
qed

lemma Strings_loop_bulks [simp]: "Strings_loop (map RBulk ss) = Inr ss"
  by (induction ss) simp_all

lemma Strings_loop_length: "Strings_loop xs = Inr ss \<Longrightarrow> length ss = length xs"
  by (induction xs arbitrary: ss rule: Strings_loop.induct) (auto simp: map_sum_def split: sum.splits)

section \<open>Properties\<close>

text \<open>
  An integer sent as a command argument and read back as a bulk string or as an integer
  reply is converted to the same integer by \<open>Int64\<close> (and by \<open>Int\<close>, which is 64 bits wide),
  over the whole range of the type.
\<close>

theorem Int64_round_trip:
  assumes "in_int64 i"
  shows "redis_Int64 (RBulk (arg_text (AInt64 i))) None = (i, None) \<and> redis_Int64 (RInt i) None = (i, None) \<and>
    redis_Int (RBulk (arg_text (AInt i))) None = (i, None) \<and> redis_Int (RInt i) None = (i, None)"
  using assms ParseInt_FormatInt [OF assms] by (simp add: redis_Int64_def redis_Int_def)

lemma Int64_round_trip_witness:
  "redis_Int64 (RBulk (arg_text (AInt64 (- 9223372036854775808)))) None = (- 9223372036854775808, None)"
  using Int64_round_trip [of "- 9223372036854775808"] by (simp add: in_int64_def)

text \<open>
  \<open>Strings\<close> accepts an array exactly when every element is a bulk string or nil, and
  then keeps length and order, nil as the empty string; otherwise it reports the type of
  the first other element and no strings.
\<close>

theorem Strings_spec:
  "redis_Strings (RArr xs) None =
     (case dropWhile (\<lambda>x. x = RNil \<or> (\<exists>s. x = RBulk s)) xs of
        [] \<Rightarrow> (map (\<lambda>x. case x of RBulk s \<Rightarrow> s | _ \<Rightarrow> []) xs, None)
      | x # _ \<Rightarrow> ([], Some (ErrorString (''redigo: unexpected element type for Strings, got type '' @ type_name x))))"
proof -
  have loop: "Strings_loop xs =
     (case dropWhile (\<lambda>x. x = RNil \<or> (\<exists>s. x = RBulk s)) xs of
        [] \<Rightarrow> Inr (map (\<lambda>x. case x of RBulk s \<Rightarrow> s | _ \<Rightarrow> []) xs)
      | x # _ \<Rightarrow> Inl (ErrorString (''redigo: unexpected element type for Strings, got type '' @ type_name x)))"
    by (induction xs rule: Strings_loop.induct) (auto split: list.splits simp del: dropWhile_eq_Nil_conv)
  have "redis_Strings (RArr xs) None = (case Strings_loop xs of Inl e \<Rightarrow> ([], Some e) | Inr ss \<Rightarrow> (ss, None))"
    by (simp add: redis_Strings_def)
  then show ?thesis
    unfolding loop
    by (cases "dropWhile (\<lambda>x. x = RNil \<or> (\<exists>s. x = RBulk s)) xs") (simp_all del: dropWhile_eq_Nil_conv)
qed

end
