(* ===== verification/Presence_Manager.thy ===== *)
theory Presence_Manager
  imports Util_Bucket Presence_PB Redigo_Reply Redigo_Resp
begin

text \<open>
  \<open>devicepresence/manager.go\<close>: the presence manager. \<open>SetStatus\<close> records a device as
  online (in the user's current time bucket and under the device's own key) or deletes its
  key, and publishes an event; \<open>GetDevices\<close> reads the user's last buckets and streams the
  devices whose key still exists.

  The handlers act on a world \<open>'w\<close> through the interfaces they use: the connection got
  from the Redis pool (\<open>Get\<close>, \<open>Send\<close>, \<open>Do\<close>, \<open>Close\<close>), the Kafka producer, the reply
  stream and the clock.
\<close>

section \<open>Interfaces\<close>

text \<open>The fields of \<open>sarama.ProducerMessage\<close> the manager fills.\<close>

record ProducerMessage =
  pm_Topic :: string
  pm_Key :: string
  pm_Value :: string

record 'w services =
  Redis_Get :: "'w \<Rightarrow> 'w"
  conn_send :: "string \<Rightarrow> arg list \<Rightarrow> 'w \<Rightarrow> error option \<times> 'w"
  conn_do :: "string \<Rightarrow> arg list \<Rightarrow> 'w \<Rightarrow> (reply \<times> error option) \<times> 'w"
  conn_close :: "'w \<Rightarrow> 'w"
  SendMessage :: "ProducerMessage \<Rightarrow> 'w \<Rightarrow> (int \<times> int \<times> error option) \<times> 'w"
  stream_Send :: "Device \<Rightarrow> 'w \<Rightarrow> error option \<times> 'w"
  Now :: "'w \<Rightarrow> time \<times> 'w"

section \<open>Constants and helpers\<close>

definition BucketSize :: duration where
  "BucketSize = Minute"

definition NumBuckets :: int where
  "NumBuckets = 5"

definition streamTopic :: string where
  "streamTopic = ''devicepresence-events''"

definition validateRequest :: "StatusRequest \<Rightarrow> error option" where
  "validateRequest req =
     (case sr_Device req of
        None \<Rightarrow> Some (ErrorString ''missing device'')
      | Some d \<Rightarrow>
          if dev_Id d = [] then Some (ErrorString ''missing device id'')
          else if dev_UserId d = [] then Some (ErrorString ''missing user id'')
          else None)"

definition makeKey :: "Device \<Rightarrow> string" where
  "makeKey d = Device_Type_String (dev_Type d) @ '':'' @ dev_Id d"

definition deviceTTL :: "duration \<Rightarrow> int \<Rightarrow> duration" where
  "deviceTTL bs n = wrap64 (n * bs)"

definition parseDeviceType :: "string \<Rightarrow> error + Device_Type" where
  "parseDeviceType t =
     (case Device_Type_value t of
        Some dt \<Rightarrow> Inr dt
      | None \<Rightarrow> Inl (ErrorString ''invalid device type''))"

definition parseDevice :: "string \<Rightarrow> string \<Rightarrow> error + Device" where
  "parseDevice userID deviceKey =
     (case SplitN deviceKey '':'' 2 of
        [t, i] \<Rightarrow>
          (case parseDeviceType t of
             Inl e \<Rightarrow> Inl e
           | Inr dt \<Rightarrow> Inr \<lparr>dev_Id = i, dev_Type = dt, dev_UserId = userID, dev_Status = Device_ONLINE\<rparr>)
      | _ \<Rightarrow> Inl (ErrorString ''invalid device string''))"

fun toInterfaceSlice :: "Bucket list \<Rightarrow> arg list outcome" where
  "toInterfaceSlice [] = Returns []"
| "toInterfaceSlice (b # bs) =
     bind_outcome (Bucket_String b) (\<lambda>s.
       bind_outcome (toInterfaceSlice bs) (\<lambda>as. Returns (AString s # as)))"

text \<open>
  A \<open>Bucket\<close> passed as a command argument is printed by \<open>fmt.Fprint\<close>, that is by its
  \<open>String\<close> method; \<open>fmt\<close> turns a panic of that method into text.
\<close>

definition Fprint_Bucket :: "Bucket \<Rightarrow> string" where
  "Fprint_Bucket b =
     (case Bucket_String b of
        Returns s \<Rightarrow> s
      | Panics m \<Rightarrow> ''%!v(PANIC='' @ m @ '')''
      | Exits m \<Rightarrow> m)"

text \<open>\<open>sendMessage\<close>: a message that cannot be encoded ends the process.\<close>

definition sendMessage ::
  "(Event \<Rightarrow> error + string) \<Rightarrow> 'w services \<Rightarrow> string \<Rightarrow> string \<Rightarrow> Event \<Rightarrow> 'w \<Rightarrow> (error option \<times> 'w) outcome" where
  "sendMessage Marshal S topic key m w =
     (case Marshal m of
        Inl e \<Rightarrow> Exits (''Encoding message: '' @ error_text e)
      | Inr b \<Rightarrow>
          (case SendMessage S \<lparr>pm_Topic = topic, pm_Key = key, pm_Value = b\<rparr> w of
             ((_, _, err), w') \<Rightarrow> Returns (err, w')))"

section \<open>SetStatus\<close>

text \<open>The Redis commands of \<open>SetStatus\<close> for a device that is online or not.\<close>

definition store_online :: "'w services \<Rightarrow> Bucket \<Rightarrow> Device \<Rightarrow> 'w \<Rightarrow> error option \<times> 'w" where
  "store_online S bucketKey d w =
     (let deviceKey = makeKey d;
          w1 = snd (conn_send S ''MULTI'' [] w);
          w2 = snd (conn_send S ''SADD'' [AOther (Fprint_Bucket bucketKey), AString deviceKey] w1);
          w3 = snd (conn_send S ''EXPIRE'' [AOther (Fprint_Bucket bucketKey), AInt BucketSize] w2);
          w4 = snd (conn_send S ''SET'' [AString deviceKey, AString (dev_UserId d)] w3);
          w5 = snd (conn_send S ''EXPIRE'' [AString deviceKey, AInt (deviceTTL BucketSize NumBuckets)] w4);
          ((_, err), w6) = conn_do S ''EXEC'' [] w5
      in (err, w6))"

definition store_offline :: "'w services \<Rightarrow> Device \<Rightarrow> 'w \<Rightarrow> error option \<times> 'w" where
  "store_offline S d w =
     (let ((_, err), w1) = conn_do S ''DEL'' [AString (makeKey d)] w in (err, w1))"

definition SetStatus ::
  "(Event \<Rightarrow> error + string) \<Rightarrow> 'w services \<Rightarrow> StatusRequest option \<Rightarrow> 'w \<Rightarrow>
     ((error + StatusReply) \<times> 'w) outcome" where
  "SetStatus Marshal S req w =
     (case req of
        None \<Rightarrow> Panics ''runtime error: invalid memory address or nil pointer dereference''
      | Some r \<Rightarrow>
          (case (validateRequest r, sr_Device r) of
             (Some e, _) \<Rightarrow> Returns (Inl e, w)
           | (None, None) \<Rightarrow> Panics ''runtime error: invalid memory address or nil pointer dereference''
           | (None, Some d) \<Rightarrow>
               let w1 = Redis_Get S w;
                   (bucketKey, w2) = CurrentBucket (Now S) (dev_UserId d) BucketSize w1;
                   (t, w3) = Now S w2;
                   event = \<lparr>ev_Timestamp = UnixNano t, ev_Device = Some d\<rparr>;
                   (err, w4) = (if dev_Status d = Device_ONLINE then store_online S bucketKey d w3
                                else store_offline S d w3)
               in case err of
                    Some e \<Rightarrow> Returns (Inl e, conn_close S w4)
                  | None \<Rightarrow>
                      bind_outcome (sendMessage Marshal S streamTopic (dev_UserId d) event w4)
                        (\<lambda>(err, w5). case err of
                             Some e \<Rightarrow> Returns (Inl e, conn_close S w5)
                           | None \<Rightarrow> Returns (Inr StatusReply, conn_close S w5))))"

section \<open>GetDevices\<close>

fun device_loop :: "'w services \<Rightarrow> string list \<Rightarrow> 'w \<Rightarrow> error option \<times> 'w" where
  "device_loop S [] w = (None, w)"
| "device_loop S (deviceKey # ks) w =
     (let ((rep, derr), w1) = conn_do S ''GET'' [AString deviceKey] w;
          (userID, err) = redis_String rep derr
      in if err \<noteq> None \<and> err \<noteq> Some ErrNil
         then (Some (ErrorString (''getting device status: '' @ error_text (the err))), w1)
         else if userID \<noteq> []
         then (case parseDevice userID deviceKey of
                 Inl e \<Rightarrow> (Some (ErrorString (''parsing device: '' @ error_text e)), w1)
               | Inr device \<Rightarrow>
                   (case stream_Send S device w1 of
                      (Some e, w2) \<Rightarrow> (Some e, w2)
                    | (None, w2) \<Rightarrow> device_loop S ks w2))
         else device_loop S ks w1)"

definition GetDevices :: "'w services \<Rightarrow> DevicesRequest option \<Rightarrow> 'w \<Rightarrow> (error option \<times> 'w) outcome" where
  "GetDevices S req w =
     (case req of
        None \<Rightarrow> Panics ''runtime error: invalid memory address or nil pointer dereference''
      | Some r \<Rightarrow>
          if dr_UserId r = [] then Returns (Some (ErrorString ''missing user id''), w)
          else let w1 = Redis_Get S w
               in bind_outcome (BucketRange (Now S) (dr_UserId r) BucketSize (- NumBuckets) 0 w1)
                    (\<lambda>(bucketKeys, w2).
                       bind_outcome (toInterfaceSlice bucketKeys)
                         (\<lambda>args.
                            let ((rep, derr), w3) = conn_do S ''SUNION'' args w2;
                                (deviceList, err) = redis_Strings rep derr
                            in case err of
                                 Some e \<Rightarrow> Returns (Some e, conn_close S w3)
                               | None \<Rightarrow> (let (err, w4) = device_loop S deviceList w3
                                          in Returns (err, conn_close S w4)))))"

section \<open>Device keys\<close>

lemma makeKey_eq: "makeKey d = Device_Type_String (dev_Type d) @ CHR '':'' # dev_Id d"
  by (simp add: makeKey_def)

lemma SplitN_makeKey: "SplitN (makeKey d) '':'' 2 = [Device_Type_String (dev_Type d), dev_Id d]"
  by (simp add: makeKey_eq eval_nat_numeral cut_char_first Device_Type_String_no_colon)

lemma parseDeviceType_String:
  "parseDeviceType (Device_Type_String x) =
     (if x = Device_WS then Inr x else Inl (ErrorString ''invalid device type''))"
  using Device_Type_String_known [of x]
  by (auto simp: parseDeviceType_def Device_WS_def split: option.split)

lemma parseDevice_key:
  "parseDevice u (makeKey d) =
     (if dev_Type d = Device_WS then Inr (d\<lparr>dev_UserId := u, dev_Status := Device_ONLINE\<rparr>)
      else Inl (ErrorString ''invalid device type''))"
  by (simp add: parseDevice_def SplitN_makeKey parseDeviceType_String)

text \<open>
  C39: parsing a device's key gives the device back, with the given user id and the status
  online, when its type is the one the protocol defines, and the error \<open>invalid device
  type\<close> for any other type number, which \<open>SetStatus\<close> accepts and stores.
\<close>

theorem parseDevice_makeKey:
  "parseDevice u (makeKey d) =
     (if dev_Type d = Device_WS then Inr (d\<lparr>dev_UserId := u, dev_Status := Device_ONLINE\<rparr>)
      else Inl (ErrorString ''invalid device type''))"
  by (rule parseDevice_key)

lemma Device_Type_String_inject [simp]: "Device_Type_String x = Device_Type_String y \<longleftrightarrow> x = y"
  by (simp add: Device_Type_String_def EnumName_def Device_Type_name_def)

lemma makeKey_eq_iff: "makeKey d = makeKey e \<longleftrightarrow> dev_Type d = dev_Type e \<and> dev_Id d = dev_Id e"
proof
  assume "makeKey d = makeKey e"
  then have "SplitN (makeKey d) '':'' 2 = SplitN (makeKey e) '':'' 2" by simp
  then show "dev_Type d = dev_Type e \<and> dev_Id d = dev_Id e" by (simp add: SplitN_makeKey)
qed (simp add: makeKey_def)

text \<open>
  Two devices share a key exactly when they agree in type and id; ids may contain colons.
\<close>

theorem makeKey_inject: "makeKey d = makeKey e \<longleftrightarrow> dev_Type d = dev_Type e \<and> dev_Id d = dev_Id e"
  by (rule makeKey_eq_iff)

lemma key_clash:
  "(\<exists>d. dev_Type d = t \<and> makeKey d = bucket_key u n) \<longleftrightarrow>
     u = Device_Type_String t \<or> prefix (Device_Type_String t @ '':'') u"
proof
  assume "\<exists>d. dev_Type d = t \<and> makeKey d = bucket_key u n"
  then obtain d where "dev_Type d = t" "makeKey d = bucket_key u n" by blast
  then have eq: "Device_Type_String t @ CHR '':'' # dev_Id d = u @ CHR '':'' # FormatInt n"
    by (simp add: makeKey_eq bucket_key_def)
  show "u = Device_Type_String t \<or> prefix (Device_Type_String t @ '':'') u"
  proof (cases "CHR '':'' \<in> set u")
    case True
    then obtain a b where u: "u = a @ CHR '':'' # b" "CHR '':'' \<notin> set a"
      by (meson split_list_first)
    with eq Device_Type_String_no_colon have "Device_Type_String t = a"
      by (metis append_Cons append_assoc first_sep_unique)
    with u show ?thesis by (simp add: prefix_def)
  next
    case False
    with eq Device_Type_String_no_colon show ?thesis by (metis first_sep_unique)
  qed
next
  assume "u = Device_Type_String t \<or> prefix (Device_Type_String t @ '':'') u"
  then obtain i where "u @ CHR '':'' # FormatInt n = Device_Type_String t @ CHR '':'' # i"
    by (auto simp: prefix_def)
  then have "makeKey \<lparr>dev_Id = i, dev_Type = t, dev_UserId = [], dev_Status = 0\<rparr> = bucket_key u n"
    by (simp add: makeKey_eq bucket_key_def)
  then show "\<exists>d. dev_Type d = t \<and> makeKey d = bucket_key u n"
    by (intro exI [of _ "\<lparr>dev_Id = i, dev_Type = t, dev_UserId = [], dev_Status = 0\<rparr>"]) simp
qed

text \<open>
  Bucket keys and device keys live in one key space. A bucket key of user \<open>u\<close> is also
  the key of some device of type \<open>t\<close> exactly when \<open>u\<close> is the type's name or begins with it
  and a colon; for every other user id the two kinds of keys are disjoint.
\<close>

theorem bucket_key_makeKey_clash:
  "(\<exists>d. dev_Type d = t \<and> makeKey d = bucket_key u n) \<longleftrightarrow>
     u = Device_Type_String t \<or> prefix (Device_Type_String t @ '':'') u"
  by (rule key_clash)

section \<open>Requests that are refused\<close>

lemma validateRequest_None:
  "validateRequest r = None \<longleftrightarrow> (\<exists>d. sr_Device r = Some d \<and> dev_Id d \<noteq> [] \<and> dev_UserId d \<noteq> [])"
  by (auto simp: validateRequest_def split: option.split)

text \<open>
  A status request without a device, a device id or a user id is answered with its
  error and touches nothing: no connection is taken, no command sent, no event published.
\<close>

theorem SetStatus_refuses:
  assumes "\<And>d. sr_Device r = Some d \<Longrightarrow> dev_Id d = [] \<or> dev_UserId d = []"
  shows "SetStatus Marshal S (Some r) w =
     Returns (Inl (ErrorString
       (case sr_Device r of None \<Rightarrow> ''missing device''
        | Some d \<Rightarrow> if dev_Id d = [] then ''missing device id'' else ''missing user id'')), w)"
  using assms by (auto simp: SetStatus_def validateRequest_def split: option.split)

lemma SetStatus_refuses_witness:
  "SetStatus (\<lambda>_. Inr [])
     \<lparr>Redis_Get = (\<lambda>n. n + 1), conn_send = (\<lambda>_ _ n. (None, n + 1)), conn_do = (\<lambda>_ _ n. ((RNil, None), n + 1)),
      conn_close = (\<lambda>n. n + 1), SendMessage = (\<lambda>_ n. ((0, 0, None), n + 1)), stream_Send = (\<lambda>_ n. (None, n + 1)),
      Now = (\<lambda>n. (0, n + 1))\<rparr> (Some \<lparr>sr_Device = None\<rparr>) (7 :: nat) =
     Returns (Inl (ErrorString ''missing device''), 7)"
  using SetStatus_refuses [of "\<lparr>sr_Device = None\<rparr>" "\<lambda>_. Inr []" _ "7 :: nat"] by simp

end
