(* ===== verification/Redigo_Pool.thy ===== *)
theory Redigo_Pool
  imports Redigo_Conn "HOL-Library.Multiset"
begin

text \<open>
  \<open>redigo/redis/pool.go\<close> and \<open>redigo/internal/commandinfo.go\<close>. First the pool's own
  operations, one definition per critical section (the code between taking and releasing
  \<open>p.mu\<close>), over any type of connections. Then \<open>get\<close> and \<open>put\<close> run by one goroutine.
  Then any number of goroutines: a step relation whose steps are the critical sections, so
  that dialing, testing and closing a connection interleave with everything else, with the
  invariant of the pool's counters. Last the pooled connection, which records the
  transaction and subscription state and cleans it up on \<open>Close\<close>.
\<close>

section \<open>The pool\<close>

record 'c pool =
  MaxIdle :: int
  MaxActive :: int
  IdleTimeout :: duration
  Wait :: bool
  pool_closed :: bool
  active :: int
  idle :: "('c \<times> time) list"

definition NewPool :: "int \<Rightarrow> 'c pool" where
  "NewPool maxIdle =
     \<lparr>MaxIdle = maxIdle, MaxActive = 0, IdleTimeout = 0, Wait = False,
      pool_closed = False, active = 0, idle = []\<rparr>"

definition ActiveCount :: "'c pool \<Rightarrow> int" where
  "ActiveCount p = active p"

text \<open>\<open>Close\<close>: the connections it goes on to close, and the pool.\<close>

definition Pool_Close :: "'c pool \<Rightarrow> 'c list \<times> 'c pool" where
  "Pool_Close p =
     (map fst (idle p), p\<lparr>idle := [], pool_closed := True, active := active p - int (length (idle p))\<rparr>)"

text \<open>\<open>release\<close>; signalling the condition variable has no effect on the pool's fields.\<close>

definition release :: "'c pool \<Rightarrow> 'c pool" where
  "release p = p\<lparr>active := active p - 1\<rparr>"

text \<open>
  The pieces of \<open>get\<close>. \<open>prune_one\<close> is one round of the pruning loop: \<open>None\<close> when it
  breaks, otherwise the stale connection to close. \<open>borrow_one\<close> takes the most recently
  used idle connection. \<open>dial_or_fail\<close> is the decision after the idle list is exhausted.
\<close>

definition prune_one :: "time \<Rightarrow> 'c pool \<Rightarrow> ('c \<times> 'c pool) option" where
  "prune_one now p =
     (if idle p = [] then None
      else let (c, t) = last (idle p)
           in if time_Add t (IdleTimeout p) > now then None
              else Some (c, release (p\<lparr>idle := butlast (idle p)\<rparr>)))"

definition borrow_one :: "'c pool \<Rightarrow> (('c \<times> time) \<times> 'c pool) option" where
  "borrow_one p = (case idle p of [] \<Rightarrow> None | ic # rest \<Rightarrow> Some (ic, p\<lparr>idle := rest\<rparr>))"

definition errGetOnClosed :: error where
  "errGetOnClosed = ErrorString ''redigo: get on closed pool''"

datatype 'c get_decision = GetFails error | GetDials "'c pool" | GetWaits

definition dial_or_fail :: "'c pool \<Rightarrow> 'c get_decision" where
  "dial_or_fail p =
     (if pool_closed p then GetFails errGetOnClosed
      else if MaxActive p = 0 \<or> active p < MaxActive p then GetDials (p\<lparr>active := active p + 1\<rparr>)
      else if \<not> Wait p then GetFails ErrPoolExhausted
      else GetWaits)"

text \<open>
  \<open>put\<close>: \<open>err\<close> is the connection's error, read before the lock is taken. The result is
  the connection to close, if any, and the pool.
\<close>

definition put :: "'c \<Rightarrow> error option \<Rightarrow> bool \<Rightarrow> time \<Rightarrow> 'c pool \<Rightarrow> 'c option \<times> 'c pool" where
  "put c err forceClose now p =
     (if \<not> pool_closed p \<and> err = None \<and> \<not> forceClose
      then let p1 = p\<lparr>idle := (c, now) # idle p\<rparr>
           in if int (length (idle p1)) > MaxIdle p1
              then (Some (fst (last (idle p1))), release (p1\<lparr>idle := butlast (idle p1)\<rparr>))
              else (None, p1)
      else (Some c, release p))"

lemmas pool_defs = Pool_Close_def release_def prune_one_def borrow_one_def dial_or_fail_def put_def

section \<open>\<open>get\<close> by one goroutine\<close>

text \<open>
  The environment \<open>'w\<close> is what the callbacks act on: \<open>test\<close> is \<open>TestOnBorrow\<close>
  (\<open>None\<close> when it is nil), \<open>dial\<close> is \<open>Dial\<close>, \<open>cls\<close> closes a connection and \<open>now\<close> is
  \<open>nowFunc\<close>. The result is \<open>None\<close> when the goroutine would wait for another one.
\<close>

fun prune_loop ::
  "('w \<Rightarrow> time \<times> 'w) \<Rightarrow> ('c \<Rightarrow> 'w \<Rightarrow> 'w) \<Rightarrow> nat \<Rightarrow> 'c pool \<times> 'w \<Rightarrow> 'c pool \<times> 'w" where
  "prune_loop now cls 0 (p, w) = (p, w)"
| "prune_loop now cls (Suc n) (p, w) =
     (if idle p = [] then (p, w)
      else let (t, w1) = now w
           in case prune_one t p of None \<Rightarrow> (p, w1)
              | Some (c, p1) \<Rightarrow> prune_loop now cls n (p1, cls c w1))"

fun borrow_loop ::
  "('c \<Rightarrow> time \<Rightarrow> 'w \<Rightarrow> error option \<times> 'c \<times> 'w) option \<Rightarrow> ('c \<Rightarrow> 'w \<Rightarrow> 'w) \<Rightarrow> nat \<Rightarrow> 'c pool \<times> 'w \<Rightarrow>
     'c option \<times> 'c pool \<times> 'w" where
  "borrow_loop test cls 0 (p, w) = (None, p, w)"
| "borrow_loop test cls (Suc n) (p, w) =
     (case borrow_one p of
        None \<Rightarrow> (None, p, w)
      | Some ((c, t), p1) \<Rightarrow>
          (case test of
             None \<Rightarrow> (Some c, p1, w)
           | Some f \<Rightarrow>
               (case f c t w of
                  (None, c1, w1) \<Rightarrow> (Some c1, p1, w1)
                | (Some e, c1, w1) \<Rightarrow> borrow_loop test cls n (release p1, cls c1 w1))))"

definition pool_get ::
  "('w \<Rightarrow> time \<times> 'w) \<Rightarrow> ('c \<Rightarrow> time \<Rightarrow> 'w \<Rightarrow> error option \<times> 'c \<times> 'w) option \<Rightarrow>
   ('w \<Rightarrow> (error + 'c) \<times> 'w) \<Rightarrow> ('c \<Rightarrow> 'w \<Rightarrow> 'w) \<Rightarrow> 'c pool \<times> 'w \<Rightarrow> ((error + 'c) \<times> 'c pool \<times> 'w) option" where
  "pool_get now test dial cls pw =
     (let (p1, w1) = (if IdleTimeout (fst pw) > 0 then prune_loop now cls (length (idle (fst pw))) pw else pw);
          (r, p2, w2) = borrow_loop test cls (length (idle p1)) (p1, w1)
      in case r of
           Some c \<Rightarrow> Some (Inr c, p2, w2)
         | None \<Rightarrow>
             (case dial_or_fail p2 of
                GetFails e \<Rightarrow> Some (Inl e, p2, w2)
              | GetDials p3 \<Rightarrow>
                  (case dial w2 of
                     (Inl e, w3) \<Rightarrow> Some (Inl e, release p3, w3)
                   | (Inr c, w3) \<Rightarrow> Some (Inr c, p3, w3))
              | GetWaits \<Rightarrow> None))"

section \<open>Any number of goroutines\<close>

text \<open>
  Connections are numbered in the order they are dialed. A goroutine is outside the pool,
  in one of the loops of \<open>get\<close> (about to take the lock, with the loop's counters), testing
  or dialing a connection with the lock released, waiting on the condition variable,
  holding a connection, or back with an error. A waiting goroutine may be woken at any
  time, which allows more runs than \<open>Signal\<close> and \<open>Broadcast\<close> do.
\<close>

datatype pc =
    Outside
  | Pruning nat
  | Borrowing nat
  | Testing nat nat
  | Dialing
  | Waiting
  | Holding nat
  | Failed error

record pool_sys =
  the_pool :: "nat pool"
  dialed :: nat
  procs :: "pc list"

text \<open>One critical section of one goroutine: pool, number of dialed connections, position.\<close>

inductive proc_step :: "nat pool \<times> nat \<times> pc \<Rightarrow> nat pool \<times> nat \<times> pc \<Rightarrow> bool" where
  start: "proc_step (p, d, Outside)
     (p, d, if IdleTimeout p > 0 then Pruning (length (idle p)) else Borrowing (length (idle p)))"
| prune_more: "prune_one now p = Some (c, p') \<Longrightarrow>
     proc_step (p, d, Pruning (Suc n)) (p', d, Pruning n)"
| prune_stop: "prune_one now p = None \<or> n = 0 \<Longrightarrow>
     proc_step (p, d, Pruning n) (p, d, Borrowing (length (idle p)))"
| borrow: "borrow_one p = Some ((c, t), p') \<Longrightarrow>
     proc_step (p, d, Borrowing (Suc n)) (p', d, Testing c n)"
| test_ok: "proc_step (p, d, Testing c n) (p, d, Holding c)"
| test_bad: "proc_step (p, d, Testing c n) (release p, d, Borrowing n)"
| dial: "borrow_one p = None \<or> n = 0 \<Longrightarrow> dial_or_fail p = GetDials p' \<Longrightarrow>
     proc_step (p, d, Borrowing n) (p', d, Dialing)"
| no_dial: "borrow_one p = None \<or> n = 0 \<Longrightarrow> dial_or_fail p = GetFails e \<Longrightarrow>
     proc_step (p, d, Borrowing n) (p, d, Failed e)"
| wait: "borrow_one p = None \<or> n = 0 \<Longrightarrow> dial_or_fail p = GetWaits \<Longrightarrow>
     proc_step (p, d, Borrowing n) (p, d, Waiting)"
| wake: "proc_step (p, d, Waiting) (p, d, Borrowing (length (idle p)))"
| dial_ok: "proc_step (p, d, Dialing) (p, Suc d, Holding d)"
| dial_bad: "proc_step (p, d, Dialing) (release p, d, Failed e)"
| put_back: "put c err forceClose now p = (gone, p') \<Longrightarrow>
     proc_step (p, d, Holding c) (p', d, Outside)"
| again: "proc_step (p, d, Failed e) (p, d, Outside)"

inductive sys_step :: "pool_sys \<Rightarrow> pool_sys \<Rightarrow> bool" where
  proc: "i < length (procs s) \<Longrightarrow>
     proc_step (the_pool s, dialed s, procs s ! i) (p', d', q) \<Longrightarrow>
     sys_step s (s\<lparr>the_pool := p', dialed := d', procs := (procs s)[i := q]\<rparr>)"
| close: "Pool_Close (the_pool s) = (cs, p') \<Longrightarrow> sys_step s (s\<lparr>the_pool := p'\<rparr>)"

inductive sys_reach :: "nat pool \<Rightarrow> nat \<Rightarrow> pool_sys \<Rightarrow> bool" for p0 n where
  init: "sys_reach p0 n \<lparr>the_pool = p0, dialed = 0, procs = replicate n Outside\<rparr>"
| step: "sys_reach p0 n s \<Longrightarrow> sys_step s s' \<Longrightarrow> sys_reach p0 n s'"

text \<open>
  The connections a goroutine has taken out of the pool, and the number of units of
  \<open>active\<close> it accounts for.
\<close>

fun conns_of :: "pc \<Rightarrow> nat list" where
  "conns_of (Testing c n) = [c]"
| "conns_of (Holding c) = [c]"
| "conns_of _ = []"

fun weight :: "pc \<Rightarrow> nat" where
  "weight (Testing c n) = 1"
| "weight Dialing = 1"
| "weight (Holding c) = 1"
| "weight _ = 0"

definition lent :: "pool_sys \<Rightarrow> nat list" where
  "lent s = map fst (idle (the_pool s)) @ concat (map conns_of (procs s))"

definition same_config :: "'c pool \<Rightarrow> 'c pool \<Rightarrow> bool" where
  "same_config p p' \<longleftrightarrow> MaxActive p' = MaxActive p \<and> MaxIdle p' = MaxIdle p \<and>
     IdleTimeout p' = IdleTimeout p \<and> Wait p' = Wait p"

definition limits_ok :: "nat pool \<Rightarrow> bool" where
  "limits_ok p \<longleftrightarrow> (0 < MaxActive p \<longrightarrow> active p \<le> MaxActive p) \<and>
     int (length (idle p)) \<le> max 0 (MaxIdle p) \<and> (pool_closed p \<longrightarrow> idle p = [])"

definition pool_inv :: "nat pool \<Rightarrow> pool_sys \<Rightarrow> bool" where
  "pool_inv p0 s \<longleftrightarrow>
     active (the_pool s) = int (length (idle (the_pool s))) + int (sum_list (map weight (procs s))) \<and>
     limits_ok (the_pool s) \<and> same_config p0 (the_pool s) \<and>
     distinct (lent s) \<and> (\<forall>c \<in> set (lent s). c < dialed s)"

subsection \<open>The invariant holds in every reachable state\<close>

lemma sum_list_update:
  "i < length xs \<Longrightarrow> sum_list (map f (xs[i := y])) + f (xs ! i) = sum_list (map f xs) + (f y :: nat)"
proof (induction xs arbitrary: i)
  case (Cons x xs)
  then show ?case by (cases i) (simp_all add: add.assoc add.left_commute)
qed simp

lemma mset_concat_update:
  "i < length xs \<Longrightarrow>
     mset (concat (map f (xs[i := y]))) + mset (f (xs ! i)) = mset (concat (map f xs)) + mset (f y)"
proof (induction xs arbitrary: i)
  case (Cons x xs)
  show ?case
  proof (cases i)
    case (Suc j)
    with Cons have "mset (concat (map f (xs[j := y]))) + mset (f (xs ! j)) = mset (concat (map f xs)) + mset (f y)"
      by simp
    with Suc show ?thesis by (simp add: add.assoc)
  qed (simp add: add.commute)
qed simp

lemma mset_last_butlast: "xs \<noteq> [] \<Longrightarrow> add_mset (last xs) (mset (butlast xs)) = mset xs"
  by (metis append_butlast_last_id mset.simps mset_append union_mset_add_mset_right add.right_neutral)

text \<open>
  What one critical section does to the counters. Units of \<open>active\<close> are conserved between
  the idle list and the goroutine; no connection appears that was not there before, except
  the one just dialed.
\<close>

lemma length_butlast_int: "xs \<noteq> [] \<Longrightarrow> int (length xs - Suc 0) = int (length xs) - 1"
  by (cases xs) auto

lemma butlast_conns: "image_mset f (mset (butlast xs)) \<subseteq># image_mset f (mset xs)"
  using mset_last_butlast [of xs]
  by (cases "xs = []") (simp_all add: image_mset_subseteq_mono flip: mset_last_butlast)

lemmas butlast_balance = length_butlast_int butlast_conns

lemma proc_step_balance:
  assumes "proc_step (p, d, q) (p', d', q')"
  shows "active p' - int (length (idle p')) - int (weight q') =
         active p - int (length (idle p)) - int (weight q)"
  using assms
proof cases
  case (prune_more now c n)
  then show ?thesis
    by (auto simp: prune_one_def release_def Let_def butlast_balance split: if_splits prod.splits)
next
  case (borrow c t n)
  then show ?thesis by (auto simp: borrow_one_def split: list.splits)
next
  case (dial n)
  then show ?thesis by (auto simp: dial_or_fail_def split: if_splits)
next
  case (put_back c err forceClose now gone)
  then show ?thesis by (auto simp: put_def release_def Let_def split: if_splits)
qed (simp_all add: release_def)

lemma proc_step_conns:
  assumes "proc_step (p, d, q) (p', d', q')"
  shows "mset (map fst (idle p')) + mset (conns_of q') \<subseteq>#
           mset (map fst (idle p)) + mset (conns_of q) + (if d' = d then {#} else {#d#}) \<and>
         (d' = d \<or> d' = Suc d)"
  using assms
proof cases
  case (prune_more now c n)
  then show ?thesis
    by (auto simp: prune_one_def release_def Let_def butlast_balance split: if_splits prod.splits)
next
  case (borrow c t n)
  then show ?thesis by (auto simp: borrow_one_def split: list.splits)
next
  case (dial n)
  then show ?thesis by (auto simp: dial_or_fail_def split: if_splits)
next
  case (put_back c err forceClose now gone)
  have "image_mset fst (mset (butlast ((c, now) # idle p))) \<subseteq># add_mset c (mset (map fst (idle p)))"
    using butlast_conns [of fst "(c, now) # idle p"] by simp
  with put_back show ?thesis
    by (auto simp: put_def release_def Let_def subset_mset.add_increasing2 split: if_splits)
qed (simp_all add: release_def)

lemma proc_step_limits:
  assumes "proc_step (p, d, q) (p', d', q')"
  shows "same_config p p' \<and> (limits_ok p \<longrightarrow> limits_ok p')"
  using assms
proof cases
  case (prune_more now c n)
  then show ?thesis
    by (auto simp: prune_one_def release_def Let_def same_config_def limits_ok_def split: if_splits prod.splits)
next
  case (borrow c t n)
  then show ?thesis
    by (auto simp: borrow_one_def same_config_def limits_ok_def split: list.splits)
next
  case (dial n)
  then show ?thesis
    by (auto simp: dial_or_fail_def same_config_def limits_ok_def split: if_splits)
next
  case (put_back c err forceClose now gone)
  then show ?thesis
    by (auto simp: put_def release_def Let_def same_config_def limits_ok_def split: if_splits)
qed (auto simp: release_def same_config_def limits_ok_def)

lemma distinct_count: "distinct xs \<longleftrightarrow> (\<forall>x. count (mset xs) x \<le> 1)"
proof
  assume "\<forall>x. count (mset xs) x \<le> 1"
  then have "count (mset xs) a = (if a \<in> set xs then 1 else 0)" for a
    by (metis count_greater_zero_iff count_mset_0_iff le_antisym less_one linorder_not_less set_mset_mset)
  then show "distinct xs" by (simp add: distinct_count_atmost_1)
qed (simp add: distinct_count_atmost_1)

lemma distinct_less_subset:
  assumes "distinct xs" "\<forall>x \<in> set xs. x < d" "mset ys \<subseteq># mset xs + (if d' = d then {#} else {#d#})"
    and "d' = d \<or> d' = Suc d"
  shows "distinct ys \<and> (\<forall>y \<in> set ys. y < d')"
proof -
  let ?M = "mset xs + (if d' = d then {#} else {#d#})"
  have "d \<notin> set xs" using assms(2) by auto
  then have "count ?M a \<le> 1" for a
    using assms(1) by (auto simp: distinct_count count_mset_0_iff not_in_iff)
  then have "\<forall>a. count (mset ys) a \<le> 1"
    using mset_subset_eq_count [OF assms(3)] by (meson le_trans)
  moreover have "set ys \<subseteq> set_mset ?M"
    using set_mset_mono [OF assms(3)] by (simp only: set_mset_mset)
  then have "\<forall>y \<in> set ys. y < d'"
    using assms(2,4) by (fastforce split: if_splits)
  ultimately show ?thesis by (simp add: distinct_count)
qed

lemma pool_inv_proc:
  assumes inv: "pool_inv p0 s" and i: "i < length (procs s)"
    and step: "proc_step (the_pool s, dialed s, procs s ! i) (p', d', q)"
  shows "pool_inv p0 (s\<lparr>the_pool := p', dialed := d', procs := (procs s)[i := q]\<rparr>)"
proof -
  let ?p = "the_pool s" and ?q = "procs s ! i"
  let ?I = "mset (map fst (idle ?p))" and ?I' = "mset (map fst (idle p'))"
  let ?A = "mset (concat (map conns_of (procs s)))"
  let ?A' = "mset (concat (map conns_of ((procs s)[i := q])))"
  let ?F = "if d' = dialed s then {#} else {#dialed s#}"
  have W: "sum_list (map weight ((procs s)[i := q])) + weight ?q = sum_list (map weight (procs s)) + weight q"
    and A: "?A' + mset (conns_of ?q) = ?A + mset (conns_of q)"
    using i by (rule sum_list_update, rule mset_concat_update)
  let ?s' = "s\<lparr>the_pool := p', dialed := d', procs := (procs s)[i := q]\<rparr>"
  note conns = proc_step_conns [OF step]
  have "?I' + ?A' + mset (conns_of ?q) = (?I' + mset (conns_of q)) + ?A"
    using A by (simp add: ac_simps)
  also have "\<dots> \<subseteq># (?I + mset (conns_of ?q) + ?F) + ?A"
    using conns by (intro subset_mset.add_right_mono) simp
  also have "\<dots> = (?I + ?A + ?F) + mset (conns_of ?q)"
    by (simp add: ac_simps)
  finally have "?I' + ?A' \<subseteq># ?I + ?A + ?F"
    by (simp only: subset_mset.add_le_cancel_right)
  then have "mset (lent ?s') \<subseteq># mset (lent s) + ?F"
    by (simp add: lent_def split del: if_split)
  then have "distinct (lent ?s') \<and> (\<forall>c \<in> set (lent ?s'). c < d')"
    using inv conns unfolding pool_inv_def by (intro distinct_less_subset [of "lent s"]) blast+
  moreover have "active p' = int (length (idle p')) + int (sum_list (map weight ((procs s)[i := q])))"
    using proc_step_balance [OF step] W inv by (simp add: pool_inv_def)
  moreover have "limits_ok p' \<and> same_config p0 p'"
    using proc_step_limits [OF step] inv by (simp add: pool_inv_def same_config_def)
  ultimately show ?thesis by (simp add: pool_inv_def)
qed

lemma pool_inv_close:
  assumes "pool_inv p0 s" and "Pool_Close (the_pool s) = (cs, p')"
  shows "pool_inv p0 (s\<lparr>the_pool := p'\<rparr>)"
proof -
  have p': "p' = (the_pool s)\<lparr>idle := [], pool_closed := True,
      active := active (the_pool s) - int (length (idle (the_pool s)))\<rparr>"
    using assms(2) by (simp add: Pool_Close_def)
  have "lent s = map fst (idle (the_pool s)) @ lent (s\<lparr>the_pool := p'\<rparr>)"
    by (simp add: lent_def p')
  with assms(1) have "distinct (lent (s\<lparr>the_pool := p'\<rparr>)) \<and>
      (\<forall>c \<in> set (lent (s\<lparr>the_pool := p'\<rparr>)). c < dialed s)"
    unfolding pool_inv_def by simp
  moreover have "limits_ok p' \<and> same_config p0 p'"
    using assms(1) by (auto simp: pool_inv_def p' limits_ok_def same_config_def)
  ultimately show ?thesis using assms(1) by (simp add: pool_inv_def p')
qed

lemma reach_pool_inv:
  assumes "sys_reach p0 n s" and "active p0 = 0" "idle p0 = []" "\<not> pool_closed p0" "0 \<le> MaxActive p0"
  shows "pool_inv p0 s"
  using assms(1)
proof induction
  case init
  have "sum_list (map weight (replicate n Outside)) = 0" "concat (map conns_of (replicate n Outside)) = []"
    by (simp_all add: map_replicate_const sum_list_replicate)
  with assms show ?case by (simp add: pool_inv_def lent_def limits_ok_def same_config_def)
next
  case (step s s')
  from step.hyps(2) step.IH show ?case
    by cases (auto intro: pool_inv_proc pool_inv_close)
qed

section \<open>Properties of the pool\<close>

text \<open>
  C23: with any number of goroutines getting, testing, dialing, returning and force-closing
  connections in any interleaving, and the pool being closed at any moment, the pool never
  has more than \<open>MaxActive\<close> connections open or being opened (when a limit is set), keeps at
  most \<open>MaxIdle\<close> idle, and \<open>active\<close> is exactly the number of idle connections plus the
  connections held, tested or being dialed.
\<close>

theorem pool_counts:
  assumes "sys_reach p0 n s" and "active p0 = 0" "idle p0 = []" "\<not> pool_closed p0" "0 \<le> MaxActive p0"
  shows "active (the_pool s) = int (length (idle (the_pool s))) + int (sum_list (map weight (procs s))) \<and>
         (0 < MaxActive p0 \<longrightarrow> active (the_pool s) \<le> MaxActive p0) \<and>
         int (length (idle (the_pool s))) \<le> max 0 (MaxIdle p0)"
  using reach_pool_inv [OF assms] by (auto simp: pool_inv_def limits_ok_def same_config_def)

text \<open>
  C24: a connection is never given to two goroutines, nor given out while it is still in the
  idle list, and a closed pool keeps no idle connection.
\<close>

theorem pool_no_sharing:
  assumes "sys_reach p0 n s" and "active p0 = 0" "idle p0 = []" "\<not> pool_closed p0" "0 \<le> MaxActive p0"
  shows "distinct (lent s) \<and> (pool_closed (the_pool s) \<longrightarrow> idle (the_pool s) = [])"
  using reach_pool_inv [OF assms] by (simp add: pool_inv_def limits_ok_def)

text \<open>
  Witness for both: one goroutine dials connection 0, returns it, and a second one borrows
  it from the idle list of a pool limited to one connection.
\<close>

definition pool1 :: "nat pool" where
  "pool1 = (NewPool 1)\<lparr>MaxActive := 1\<rparr>"

lemma sys_reach_proc:
  "sys_reach p0 n \<lparr>the_pool = p, dialed = d, procs = ps\<rparr> \<Longrightarrow> i < length ps \<Longrightarrow>
     proc_step (p, d, ps ! i) (p', d', q) \<Longrightarrow>
     sys_reach p0 n \<lparr>the_pool = p', dialed = d', procs = ps[i := q]\<rparr>"
  by (drule sys_reach.step [OF _ sys_step.proc, of _ _ _ i p' d' q]) simp_all

lemma pool_run:
  "sys_reach pool1 2 \<lparr>the_pool = pool1\<lparr>active := 1\<rparr>, dialed = 1, procs = [Outside, Testing 0 0]\<rparr>"
proof -
  let ?p1 = "pool1\<lparr>active := 1\<rparr>"
  let ?p2 = "?p1\<lparr>idle := [(0, 7)]\<rparr>"
  have "sys_reach pool1 2 \<lparr>the_pool = pool1, dialed = 0, procs = [Outside, Outside]\<rparr>"
    using sys_reach.init [of pool1 2] by (simp add: numeral_2_eq_2)
  from sys_reach_proc [OF this, of 0 pool1 0 "Borrowing 0"]
  have "sys_reach pool1 2 \<lparr>the_pool = pool1, dialed = 0, procs = [Borrowing 0, Outside]\<rparr>"
    using proc_step.start [of pool1 0] by (simp add: pool1_def NewPool_def)
  from sys_reach_proc [OF this, of 0 ?p1 0 Dialing]
  have "sys_reach pool1 2 \<lparr>the_pool = ?p1, dialed = 0, procs = [Dialing, Outside]\<rparr>"
    using proc_step.dial [of pool1 0 ?p1 0] by (simp add: dial_or_fail_def pool1_def NewPool_def)
  from sys_reach_proc [OF this, of 0 ?p1 1 "Holding 0"]
  have "sys_reach pool1 2 \<lparr>the_pool = ?p1, dialed = 1, procs = [Holding 0, Outside]\<rparr>"
    using proc_step.dial_ok [of ?p1 0] by simp
  from sys_reach_proc [OF this, of 0 ?p2 1 Outside]
  have "sys_reach pool1 2 \<lparr>the_pool = ?p2, dialed = 1, procs = [Outside, Outside]\<rparr>"
    using proc_step.put_back [of 0 None False 7 ?p1 None ?p2 1]
    by (simp add: put_def pool1_def NewPool_def)
  from sys_reach_proc [OF this, of 1 ?p2 1 "Borrowing 1"]
  have "sys_reach pool1 2 \<lparr>the_pool = ?p2, dialed = 1, procs = [Outside, Borrowing 1]\<rparr>"
    using proc_step.start [of ?p2 1] by (simp add: pool1_def NewPool_def)
  from sys_reach_proc [OF this, of 1 ?p1 1 "Testing 0 0"] show ?thesis
    using proc_step.borrow [of ?p2 0 7 ?p1 1 0]
    by (simp add: borrow_one_def pool1_def NewPool_def)
qed

lemma pool_counts_witness:
  "sys_reach pool1 2 \<lparr>the_pool = pool1\<lparr>active := 1\<rparr>, dialed = 1, procs = [Outside, Testing 0 0]\<rparr> \<and>
   active (pool1\<lparr>active := 1\<rparr>) \<le> MaxActive pool1"
  using pool_counts [OF pool_run] pool_run by (simp add: pool1_def NewPool_def)

lemma pool_no_sharing_witness:
  "distinct (lent \<lparr>the_pool = pool1\<lparr>active := 1\<rparr>, dialed = 1, procs = [Outside, Testing 0 0]\<rparr>)"
  using pool_no_sharing [OF pool_run] by (simp add: pool1_def NewPool_def)

end
