(* ===== verification/Redigo_Pooled.thy ===== *)
theory Redigo_Pooled
  imports Redigo_Pool Redigo_Resp
begin

unbundle bit_operations_syntax

text \<open>
  The connection a client of the pool gets: \<open>pooledConnection\<close> and \<open>errorConnection\<close> of
  \<open>redigo/redis/pool.go\<close>, with the command table of \<open>redigo/internal/commandinfo.go\<close>. A
  pooled connection remembers which of \<open>WATCH\<close>, \<open>MULTI\<close>, \<open>SUBSCRIBE\<close>, \<open>MONITOR\<close> are in
  force; \<open>Close\<close> undoes what can be undone, collects the outstanding replies and hands the
  connection back, to be closed if anything is left.
\<close>

section \<open>commandinfo.go\<close>

definition WatchState :: int where "WatchState = 1"
definition MultiState :: int where "MultiState = 2"
definition SubscribeState :: int where "SubscribeState = 4"
definition MonitorState :: int where "MonitorState = 8"

lemmas state_defs = WatchState_def MultiState_def SubscribeState_def MonitorState_def

record CommandInfo =
  ci_Set :: int
  ci_Clear :: int

definition commandInfos :: "(string \<times> CommandInfo) list" where
  "commandInfos =
     [(''WATCH'', \<lparr>ci_Set = WatchState, ci_Clear = 0\<rparr>),
      (''UNWATCH'', \<lparr>ci_Set = 0, ci_Clear = WatchState\<rparr>),
      (''MULTI'', \<lparr>ci_Set = MultiState, ci_Clear = 0\<rparr>),
      (''EXEC'', \<lparr>ci_Set = 0, ci_Clear = WatchState OR MultiState\<rparr>),
      (''DISCARD'', \<lparr>ci_Set = 0, ci_Clear = WatchState OR MultiState\<rparr>),
      (''PSUBSCRIBE'', \<lparr>ci_Set = SubscribeState, ci_Clear = 0\<rparr>),
      (''SUBSCRIBE'', \<lparr>ci_Set = SubscribeState, ci_Clear = 0\<rparr>),
      (''MONITOR'', \<lparr>ci_Set = MonitorState, ci_Clear = 0\<rparr>)]"

text \<open>\<open>strings.ToUpper\<close> on ASCII text, which command names are.\<close>

definition ToUpper_char :: "char \<Rightarrow> char" where
  "ToUpper_char c =
     (if 97 \<le> (of_char c :: nat) \<and> (of_char c :: nat) \<le> 122 then char_of ((of_char c :: nat) - 32) else c)"

definition ToUpper :: "string \<Rightarrow> string" where
  "ToUpper = map ToUpper_char"

text \<open>A missing key of the map gives the zero value.\<close>

definition LookupCommandInfo :: "string \<Rightarrow> CommandInfo" where
  "LookupCommandInfo commandName =
     (case map_of commandInfos (ToUpper commandName) of
        Some ci \<Rightarrow> ci | None \<Rightarrow> \<lparr>ci_Set = 0, ci_Clear = 0\<rparr>)"

section \<open>The dynamic types behind \<open>Conn\<close>\<close>

datatype 's Conn = LowConn "'s conn" | ErrorConnection error

fun Conn_Do :: "'s net \<Rightarrow> string \<Rightarrow> arg list \<Rightarrow> 's Conn \<Rightarrow> (reply \<times> error option) \<times> 's Conn" where
  "Conn_Do net cmd args (LowConn c) = (let (r, c') = conn_Do net cmd args c in (r, LowConn c'))"
| "Conn_Do net cmd args (ErrorConnection e) = ((RNil, Some e), ErrorConnection e)"

fun Conn_Send :: "'s net \<Rightarrow> string \<Rightarrow> arg list \<Rightarrow> 's Conn \<Rightarrow> error option \<times> 's Conn" where
  "Conn_Send net cmd args (LowConn c) = (let (r, c') = conn_Send net cmd args c in (r, LowConn c'))"
| "Conn_Send net cmd args (ErrorConnection e) = (Some e, ErrorConnection e)"

fun Conn_Err :: "'s Conn \<Rightarrow> error option" where
  "Conn_Err (LowConn c) = conn_Err c"
| "Conn_Err (ErrorConnection e) = Some e"

fun Conn_Close :: "'s Conn \<Rightarrow> error option \<times> 's Conn" where
  "Conn_Close (LowConn c) = (let (r, c') = conn_Close c in (r, LowConn c'))"
| "Conn_Close (ErrorConnection e) = (Some e, ErrorConnection e)"

fun Conn_Flush :: "'s net \<Rightarrow> 's Conn \<Rightarrow> error option \<times> 's Conn" where
  "Conn_Flush net (LowConn c) = (let (r, c') = conn_Flush net c in (r, LowConn c'))"
| "Conn_Flush net (ErrorConnection e) = (Some e, ErrorConnection e)"

fun Conn_Receive :: "'s Conn \<Rightarrow> (reply \<times> error option) \<times> 's Conn" where
  "Conn_Receive (LowConn c) = (let (r, c') = conn_Receive c in (r, LowConn c'))"
| "Conn_Receive (ErrorConnection e) = ((RNil, Some e), ErrorConnection e)"

section \<open>pooledConnection\<close>

record 's pooledConnection =
  pc_c :: "'s Conn"
  pc_state :: int

definition state_update :: "string \<Rightarrow> int \<Rightarrow> int" where
  "state_update commandName st =
     (let ci = LookupCommandInfo commandName in (st OR ci_Set ci) AND NOT (ci_Clear ci))"

definition pc_Do ::
  "'s net \<Rightarrow> string \<Rightarrow> arg list \<Rightarrow> 's pooledConnection \<Rightarrow> (reply \<times> error option) \<times> 's pooledConnection" where
  "pc_Do net commandName args pc =
     (let (r, c') = Conn_Do net commandName args (pc_c pc)
      in (r, pc\<lparr>pc_c := c', pc_state := state_update commandName (pc_state pc)\<rparr>))"

definition pc_Send ::
  "'s net \<Rightarrow> string \<Rightarrow> arg list \<Rightarrow> 's pooledConnection \<Rightarrow> error option \<times> 's pooledConnection" where
  "pc_Send net commandName args pc =
     (let (r, c') = Conn_Send net commandName args (pc_c pc)
      in (r, pc\<lparr>pc_c := c', pc_state := state_update commandName (pc_state pc)\<rparr>))"

definition pc_Err :: "'s pooledConnection \<Rightarrow> error option" where
  "pc_Err pc = Conn_Err (pc_c pc)"

definition pc_Flush :: "'s net \<Rightarrow> 's pooledConnection \<Rightarrow> error option \<times> 's pooledConnection" where
  "pc_Flush net pc = (let (r, c') = Conn_Flush net (pc_c pc) in (r, pc\<lparr>pc_c := c'\<rparr>))"

definition pc_Receive :: "'s pooledConnection \<Rightarrow> (reply \<times> error option) \<times> 's pooledConnection" where
  "pc_Receive pc = (let (r, c') = Conn_Receive (pc_c pc) in (r, pc\<lparr>pc_c := c'\<rparr>))"

text \<open>
  The loop that reads up to the echoed sentinel. Every reply read shortens the input, so
  one call more than there are bytes is enough (\<open>drain_enough\<close>).
\<close>

fun drain :: "nat \<Rightarrow> string \<Rightarrow> 's conn \<Rightarrow> (bool \<times> 's conn) option" where
  "drain 0 sentinel c = None"
| "drain (Suc f) sentinel c =
     (case conn_Receive c of
        ((_, Some e), c1) \<Rightarrow> Some (False, c1)
      | ((r, None), c1) \<Rightarrow> if r = RBulk sentinel then Some (True, c1) else drain f sentinel c1)"

definition cleanup_subscribe :: "'s net \<Rightarrow> string \<Rightarrow> 's conn \<times> int \<Rightarrow> 's conn \<times> int" where
  "cleanup_subscribe net sentinel cs =
     (let c1 = snd (conn_Send net ''UNSUBSCRIBE'' [] (fst cs));
          c2 = snd (conn_Send net ''PUNSUBSCRIBE'' [] c1);
          c3 = snd (conn_Send net ''ECHO'' [ABytes sentinel] c2);
          c4 = snd (conn_Flush net c3)
      in case drain (Suc (length (buf (br c4)))) sentinel c4 of
           None \<Rightarrow> (c4, snd cs)
         | Some (found, c5) \<Rightarrow> (c5, if found then snd cs AND NOT SubscribeState else snd cs))"

definition cleanup_multi :: "'s net \<Rightarrow> 's conn \<times> int \<Rightarrow> 's conn \<times> int" where
  "cleanup_multi net cs =
     (if snd cs AND MultiState \<noteq> 0
      then (snd (conn_Send net ''DISCARD'' [] (fst cs)), snd cs AND NOT (MultiState OR WatchState))
      else if snd cs AND WatchState \<noteq> 0
      then (snd (conn_Send net ''UNWATCH'' [] (fst cs)), snd cs AND NOT WatchState)
      else cs)"

text \<open>
  \<open>Close\<close>: the result is the closed handle and, unless the handle had been closed before,
  the connection for \<open>put\<close> with its force-close flag.
\<close>

definition pc_Close ::
  "'s net \<Rightarrow> string \<Rightarrow> 's pooledConnection \<Rightarrow> ('s conn \<times> bool) option \<times> 's pooledConnection" where
  "pc_Close net sentinel pc =
     (case pc_c pc of
        ErrorConnection e \<Rightarrow> (None, pc)
      | LowConn c \<Rightarrow>
          let cs1 = cleanup_multi net (c, pc_state pc);
              cs2 = (if snd cs1 AND SubscribeState \<noteq> 0 then cleanup_subscribe net sentinel cs1 else cs1);
              c3 = snd (conn_Do net [] [] (fst cs2))
          in (Some (c3, snd cs2 \<noteq> 0), pc\<lparr>pc_c := ErrorConnection ErrConnClosed, pc_state := snd cs2\<rparr>))"

section \<open>Lemmas\<close>

lemma conn_Receive_shrinks:
  assumes "conn_Receive c = ((r, None), c')"
  shows "length (buf (br c')) < length (buf (br c))"
proof -
  obtain x c1 where x: "readReply c = (x, c1)" by fastforce
  with assms obtain y where y: "x = Inr y" and br: "br c' = br c1"
    by (cases x) (auto simp: conn_Receive_def Let_def split: reply.splits if_splits)
  have "read_reply (2 * length (buf (br c)) + 1) (br c) \<noteq> None"
    by (rule read_reply_enough) simp
  with x y have "read_reply (2 * length (buf (br c)) + 1) (br c) = Some (Inr y, br c1)"
    by (auto simp: readReply_def split: option.splits)
  with read_reply_consumes [OF this] br show ?thesis by simp
qed

lemma drain_enough: "length (buf (br c)) < f \<Longrightarrow> drain f sentinel c \<noteq> None"
proof (induction f arbitrary: c)
  case (Suc f)
  obtain r e c1 where r: "conn_Receive c = ((r, e), c1)" by (metis prod.exhaust)
  show ?case
  proof (cases e)
    case None
    with r have "length (buf (br c1)) < f" using conn_Receive_shrinks Suc.prems by fastforce
    with Suc.IH r None show ?thesis by auto
  qed (simp add: r)
qed simp

text \<open>Commands that are not in the table leave the recorded state alone.\<close>

lemma ToUpper_names [simp]:
  "ToUpper ''MULTI'' = ''MULTI''" "ToUpper ''EXEC'' = ''EXEC''" "ToUpper ''DISCARD'' = ''DISCARD''"
  "ToUpper ''SADD'' = ''SADD''" "ToUpper ''SET'' = ''SET''" "ToUpper ''EXPIRE'' = ''EXPIRE''"
  "ToUpper ''DEL'' = ''DEL''" "ToUpper ''GET'' = ''GET''" "ToUpper ''SUNION'' = ''SUNION''"
  "ToUpper ''UNWATCH'' = ''UNWATCH''" "ToUpper ''PING'' = ''PING''"
  by code_simp+

lemma state_update_plain:
  "ToUpper cmd \<notin> fst ` set commandInfos \<Longrightarrow> state_update cmd st = st"
  by (simp add: state_update_def LookupCommandInfo_def map_of_eq_None_iff [symmetric])

lemma state_update_commands [simp]:
  "state_update ''SADD'' st = st" "state_update ''SET'' st = st" "state_update ''EXPIRE'' st = st"
  "state_update ''DEL'' st = st" "state_update ''GET'' st = st" "state_update ''SUNION'' st = st"
  by (simp_all add: state_update_plain commandInfos_def)

lemma state_update_MULTI [simp]: "state_update ''MULTI'' st = st OR MultiState"
  by (simp add: state_update_def LookupCommandInfo_def commandInfos_def)

lemma state_update_EXEC [simp]: "state_update ''EXEC'' st = st AND NOT (WatchState OR MultiState)"
  by (simp add: state_update_def LookupCommandInfo_def commandInfos_def)

section \<open>A pooled connection over a peer that answers commands\<close>

text \<open>
  The commands that undo what the recorded state says is in force; a subscription is
  undone by its own exchange.
\<close>

definition undo :: "int \<Rightarrow> string list list" where
  "undo st =
     (if st AND MultiState \<noteq> 0 then [[''DISCARD'']]
      else if st AND WatchState \<noteq> 0 then [[''UNWATCH'']]
      else [])"

context resp_peer
begin

definition pc_queued :: "'s \<Rightarrow> string list list \<Rightarrow> 's pooledConnection \<Rightarrow> bool" where
  "pc_queued s ws pc \<longleftrightarrow> (\<exists>c. pc_c pc = LowConn c \<and> queued s ws c)"

lemma pc_Send_queued:
  assumes "pc_queued s ws pc"
  shows "fst (pc_Send net cmd args pc) = None"
    "pc_queued s (ws @ [cmd # map arg_text args]) (snd (pc_Send net cmd args pc))"
    "pc_state (snd (pc_Send net cmd args pc)) = state_update cmd (pc_state pc)"
  using assms Send_queued
  by (auto simp: pc_queued_def pc_Send_def case_prod_beta Let_def)

lemma pc_Do_queued:
  fixes args :: "arg list"
  assumes "pc_queued s ws pc" and "cmd \<noteq> []"
  defines "w \<equiv> cmd # map arg_text args"
  shows "fst (pc_Do net cmd args pc) =
      (last (fst (exec_all exec s (ws @ [w]))), first_error (fst (exec_all exec s (ws @ [w]))))"
    "pc_queued (snd (exec_all exec s (ws @ [w]))) [] (snd (pc_Do net cmd args pc))"
    "pc_state (snd (pc_Do net cmd args pc)) = state_update cmd (pc_state pc)"
proof -
  obtain c where c: "pc_c pc = LowConn c" "queued s ws c"
    using assms(1) by (auto simp: pc_queued_def)
  note Do = Do_queued [OF c(2) assms(2), of args, folded w_def]
  with c(1) show "fst (pc_Do net cmd args pc) =
      (last (fst (exec_all exec s (ws @ [w]))), first_error (fst (exec_all exec s (ws @ [w]))))"
    "pc_queued (snd (exec_all exec s (ws @ [w]))) [] (snd (pc_Do net cmd args pc))"
    "pc_state (snd (pc_Do net cmd args pc)) = state_update cmd (pc_state pc)"
    by (simp_all add: pc_queued_def pc_Do_def case_prod_beta Let_def)
qed

lemma cleanup_multi_queued:
  assumes "queued s ws c"
  shows "queued s (ws @ undo st) (fst (cleanup_multi net (c, st)))"
  using assms Send_queued [OF assms, of "''DISCARD''" "[]"] Send_queued [OF assms, of "''UNWATCH''" "[]"]
  by (auto simp: cleanup_multi_def undo_def)

text \<open>
  \<open>Close\<close> of a connection with no subscription: the undoing commands are sent, every
  outstanding reply is read, and a healthy connection goes back to the pool.
\<close>

lemma pc_Close_queued:
  assumes "pc_queued s ws pc" and "pc_state pc AND SubscribeState = 0"
    and "snd (cleanup_multi net (c0, pc_state pc)) = 0"
  obtains c where "pc_Close net sentinel pc =
      (Some (c, False), pc\<lparr>pc_c := ErrorConnection ErrConnClosed, pc_state := 0\<rparr>)"
    "queued (snd (exec_all exec s (ws @ undo (pc_state pc)))) [] c"
proof -
  obtain c where c: "pc_c pc = LowConn c" "queued s ws c"
    using assms(1) by (auto simp: pc_queued_def)
  define c1 where "c1 = fst (cleanup_multi net (c, pc_state pc))"
  have "snd (cleanup_multi net (c, st)) = snd (cleanup_multi net (c0, st))" for st
    by (simp add: cleanup_multi_def)
  then have c1: "cleanup_multi net (c, pc_state pc) = (c1, 0)"
    using assms(3) by (simp add: c1_def prod_eq_iff)
  have "queued s (ws @ undo (pc_state pc)) c1"
    unfolding c1_def by (rule cleanup_multi_queued [OF c(2)])
  from Do_empty_queued(2) [OF this, of "[]"]
  show thesis
    by (intro that [of "snd (conn_Do net [] [] c1)"]) (simp_all add: pc_Close_def c c1)
qed

end

end
