(* ===== verification/Presence_Session.thy ===== *)
theory Presence_Session
  imports Presence_Manager Redigo_Pooled
begin

text \<open>
  The presence manager over its interfaces. The locale \<open>presence_services\<close> says what the
  handlers need of the connection, the producer, the stream and the clock: a connection got
  from the pool speaks to a server in some state \<open>d\<close>, commands sent on it are executed in
  order when a reply is asked for, the recorded transaction state follows the commands, and
  a clean connection goes back. From this the whole effect of \<open>SetStatus\<close> and \<open>GetDevices\<close>
  is derived, once, for every such environment; \<open>Presence_Stack\<close> gives the one built from
  the modelled pool and connection.
\<close>

section \<open>What the handlers ask of the server\<close>

definition online_cmds :: "string \<Rightarrow> Device \<Rightarrow> string list list" where
  "online_cmds bk d =
     [[''MULTI''], [''SADD'', bk, makeKey d], [''EXPIRE'', bk, FormatInt BucketSize],
      [''SET'', makeKey d, dev_UserId d],
      [''EXPIRE'', makeKey d, FormatInt (deviceTTL BucketSize NumBuckets)], [''EXEC'']]"

definition status_cmds :: "string \<Rightarrow> Device \<Rightarrow> string list list" where
  "status_cmds bk d =
     (if dev_Status d = Device_ONLINE then online_cmds bk d else [[''DEL'', makeKey d]])"

text \<open>The minute a reading falls into and the keys of the last buckets of a user.\<close>

definition minute_start :: "int \<Rightarrow> time" where
  "minute_start b = b * (60 * Second)"

definition last_buckets :: "string \<Rightarrow> int \<Rightarrow> string list" where
  "last_buckets u b = map (\<lambda>i. bucket_key u (b + i)) [- NumBuckets..0]"

text \<open>
  What \<open>GetDevices\<close> streams for a list of keys when \<open>val\<close> gives the stored user of each,
  and the error it stops with.
\<close>

fun listing :: "(string \<Rightarrow> string option) \<Rightarrow> string list \<Rightarrow> error option \<times> Device list" where
  "listing val [] = (None, [])"
| "listing val (k # ks) =
     (case val k of
        None \<Rightarrow> listing val ks
      | Some u \<Rightarrow>
          if u = [] then listing val ks
          else (case parseDevice u k of
                  Inl e \<Rightarrow> (Some (ErrorString (''parsing device: '' @ error_text e)), [])
                | Inr d \<Rightarrow> (fst (listing val ks), d # snd (listing val ks))))"

locale presence_services = clock_iface "Now S" window
  for S :: "'w services" and window :: "time \<Rightarrow> time \<Rightarrow> nat \<Rightarrow> 'w \<Rightarrow> bool" +
  fixes exec :: "'d \<Rightarrow> string list \<Rightarrow> reply \<times> 'd"
    and quiet :: "'d \<Rightarrow> bool"
    and free :: "'w \<Rightarrow> 'd \<Rightarrow> bool"
    and sess :: "'w \<Rightarrow> 'd \<Rightarrow> string list list \<Rightarrow> bool"
    and flag :: "'w \<Rightarrow> int"
    and published :: "'w \<Rightarrow> ProducerMessage list"
    and streamed :: "'w \<Rightarrow> Device list"
  assumes get: "free w d \<Longrightarrow> sess (Redis_Get S w) d [] \<and> flag (Redis_Get S w) = 0 \<and>
      published (Redis_Get S w) = published w \<and> streamed (Redis_Get S w) = streamed w"
    and send: "sess w d ws \<Longrightarrow> snd (conn_send S c args w) = w' \<Longrightarrow>
      sess w' d (ws @ [c # map arg_text args]) \<and> flag w' = state_update c (flag w) \<and>
      published w' = published w \<and> streamed w' = streamed w"
    and do: "sess w d ws \<Longrightarrow> c \<noteq> [] \<Longrightarrow>
      exec_all exec d (ws @ [c # map arg_text args]) = (rs, d') \<Longrightarrow>
      \<exists>w'. conn_do S c args w = ((last rs, first_error rs), w') \<and> sess w' d' [] \<and>
        flag w' = state_update c (flag w) \<and> published w' = published w \<and> streamed w' = streamed w"
    and now: "sess w d ws \<Longrightarrow> snd (Now S w) = w' \<Longrightarrow>
      sess w' d ws \<and> flag w' = flag w \<and> published w' = published w \<and> streamed w' = streamed w"
    and publish: "sess w d ws \<Longrightarrow> SendMessage S m w = ((pt, off, err), w') \<Longrightarrow>
      sess w' d ws \<and> flag w' = flag w \<and> streamed w' = streamed w \<and>
      (err = None \<longrightarrow> published w' = published w @ [m])"
    and stream: "sess w d ws \<Longrightarrow> stream_Send S dev w = (err, w') \<Longrightarrow>
      sess w' d ws \<and> flag w' = flag w \<and> published w' = published w \<and>
      (err = None \<longrightarrow> streamed w' = streamed w @ [dev])"
    and close: "sess w d [] \<Longrightarrow> flag w = 0 \<Longrightarrow> quiet d \<Longrightarrow>
      free (conn_close S w) d \<and> published (conn_close S w) = published w \<and>
      streamed (conn_close S w) = streamed w"
begin

section \<open>SetStatus\<close>

lemma store_run:
  assumes "sess w d []" and "flag w = 0" and rs: "exec_all exec d (status_cmds (Fprint_Bucket b) dev) = (rs, d')"
  obtains w' where
    "(if dev_Status dev = Device_ONLINE then store_online S b dev w else store_offline S dev w) =
       (first_error rs, w')"
    "sess w' d' []" "flag w' = 0" "published w' = published w" "streamed w' = streamed w"
proof (cases "dev_Status dev = Device_ONLINE")
  case True
  define w1 where "w1 = snd (conn_send S ''MULTI'' [] w)"
  define w2 where "w2 = snd (conn_send S ''SADD'' [AOther (Fprint_Bucket b), AString (makeKey dev)] w1)"
  define w3 where "w3 = snd (conn_send S ''EXPIRE'' [AOther (Fprint_Bucket b), AInt BucketSize] w2)"
  define w4 where "w4 = snd (conn_send S ''SET'' [AString (makeKey dev), AString (dev_UserId dev)] w3)"
  define w5 where "w5 = snd (conn_send S ''EXPIRE'' [AString (makeKey dev), AInt (deviceTTL BucketSize NumBuckets)] w4)"
  note 1 = send [OF assms(1) w1_def [symmetric], simplified]
  note 2 = send [OF 1 [THEN conjunct1] w2_def [symmetric], simplified]
  note 3 = send [OF 2 [THEN conjunct1] w3_def [symmetric], simplified]
  note 4 = send [OF 3 [THEN conjunct1] w4_def [symmetric], simplified]
  note 5 = send [OF 4 [THEN conjunct1] w5_def [symmetric], simplified]
  have "flag w5 = MultiState"
    using 1 2 3 4 5 assms(2) by simp
  moreover have "state_update ''EXEC'' MultiState = 0" by code_simp
  ultimately obtain w6 where "conn_do S ''EXEC'' [] w5 = ((last rs, first_error rs), w6)" "sess w6 d' []"
    "flag w6 = 0" "published w6 = published w5" "streamed w6 = streamed w5"
    using do [OF 5 [THEN conjunct1], of "''EXEC''" "[]" rs d'] rs True
    by (auto simp: status_cmds_def online_cmds_def)
  with 1 2 3 4 5 show ?thesis
    using True
    by (intro that [of w6])
       (simp_all add: store_online_def Let_def flip: w1_def w2_def w3_def w4_def w5_def)
next
  case False
  obtain w6 where "conn_do S ''DEL'' [AString (makeKey dev)] w = ((last rs, first_error rs), w6)" "sess w6 d' []"
    "flag w6 = 0" "published w6 = published w" "streamed w6 = streamed w"
    using do [OF assms(1), of "''DEL''" "[AString (makeKey dev)]" rs d'] rs False assms(2)
    by (auto simp: status_cmds_def)
  with False show ?thesis by (intro that [of w6]) (simp_all add: store_offline_def)
qed

lemma Fprint_CurrentBucket:
  assumes "window (minute_start b) (minute_start (b + 1)) (Suc n) w" and "0 \<le> b"
  shows "Fprint_Bucket (fst (CurrentBucket (Now S) u BucketSize w)) = bucket_key u b"
proof -
  have "Bucket_String (fst (BucketWithOffset (Now S) u (60 * Second) 0 w)) = Returns (bucket_key u (b + 0))"
    using assms window_reading by (intro BucketWithOffset_reading) (auto simp: minute_start_def in_int64_def)
  then show ?thesis
    by (simp add: Fprint_Bucket_def CurrentBucket_def BucketSize_def Minute_def Second_def)
qed

lemma SetStatus_run:
  assumes f: "free w d" and dev: "sr_Device r = Some dev" "dev_Id dev \<noteq> []" "dev_UserId dev \<noteq> []"
    and win: "window (minute_start b) (minute_start (b + 1)) 2 (Redis_Get S w)" "0 \<le> b"
    and rs: "exec_all exec d (status_cmds (bucket_key (dev_UserId dev) b) dev) = (rs, d')" "quiet d'"
    and M: "\<And>t. Marshal \<lparr>ev_Timestamp = t, ev_Device = Some dev\<rparr> = Inr (body t)"
  obtains w' t err m w0 where
    "SetStatus Marshal S (Some r) w =
       Returns (case first_error rs of
                  Some e \<Rightarrow> Inl e
                | None \<Rightarrow> (case err of Some e \<Rightarrow> Inl e | None \<Rightarrow> Inr StatusReply), w')"
    "free w' d'" "streamed w' = streamed w" "minute_start b \<le> t" "t < minute_start (b + 1)"
    "err = snd (snd (fst (SendMessage S m w0)))"
    "first_error rs \<noteq> None \<Longrightarrow> published w' = published w"
    "first_error rs = None \<Longrightarrow> err = None \<Longrightarrow> published w' = published w @
       [\<lparr>pm_Topic = streamTopic, pm_Key = dev_UserId dev, pm_Value = body (UnixNano t)\<rparr>]"
proof -
  define w1 where "w1 = Redis_Get S w"
  define w2 where "w2 = snd (Now S w1)"
  define w3 where "w3 = snd (Now S w2)"
  define t where "t = fst (Now S w2)"
  define bk where "bk = fst (CurrentBucket (Now S) (dev_UserId dev) BucketSize w1)"
  have bk: "CurrentBucket (Now S) (dev_UserId dev) BucketSize w1 = (bk, w2)"
    by (simp add: bk_def w2_def CurrentBucket_def BucketWithOffset_def case_prod_beta Let_def)
  have key: "Fprint_Bucket bk = bucket_key (dev_UserId dev) b"
    unfolding bk_def using win Fprint_CurrentBucket [of b 1 w1] by (simp add: w1_def eval_nat_numeral)
  have t: "minute_start b \<le> t" "t < minute_start (b + 1)"
    using window_rest [of _ _ 1 w1] window_reading [of _ _ 0 w2] win(1)
    by (auto simp: w1_def w2_def t_def eval_nat_numeral)
  have s3: "sess w3 d []" "flag w3 = 0" "published w3 = published w" "streamed w3 = streamed w"
    using get [OF f] now [of w1 d "[]" w2] now [of w2 d "[]" w3] by (simp_all add: w1_def w2_def w3_def)
  from rs(1) have "exec_all exec d (status_cmds (Fprint_Bucket bk) dev) = (rs, d')"
    by (simp add: key)
  from store_run [OF s3(1,2) this] obtain w4 where w4:
    "(if dev_Status dev = Device_ONLINE then store_online S bk dev w3 else store_offline S dev w3) =
       (first_error rs, w4)"
    "sess w4 d' []" "flag w4 = 0" "published w4 = published w3" "streamed w4 = streamed w3" .
  define m where "m = \<lparr>pm_Topic = streamTopic, pm_Key = dev_UserId dev, pm_Value = body (UnixNano t)\<rparr>"
  obtain pt off err w5 where w5: "SendMessage S m w4 = ((pt, off, err), w5)"
    by (metis prod.exhaust)
  note p5 = publish [OF w4(2) w5]
  have w3_t: "Now S w2 = (t, w3)" by (simp add: t_def w3_def)
  have valid: "validateRequest r = None" using dev by (simp add: validateRequest_None)
  have run: "SetStatus Marshal S (Some r) w =
     (case first_error rs of
        Some e \<Rightarrow> Returns (Inl e, conn_close S w4)
      | None \<Rightarrow> Returns (case err of Some e \<Rightarrow> Inl e | None \<Rightarrow> Inr StatusReply, conn_close S w5))"
    using dev(1) valid M w5
    by (simp add: SetStatus_def w1_def [symmetric] bk w4(1)
        sendMessage_def m_def Let_def w3_t split: option.split split del: if_split)
  define w' where "w' = (if first_error rs = None then conn_close S w5 else conn_close S w4)"
  show ?thesis
  proof (rule that [of err w' t m w4])
    show "SetStatus Marshal S (Some r) w =
       Returns (case first_error rs of
                  Some e \<Rightarrow> Inl e
                | None \<Rightarrow> (case err of Some e \<Rightarrow> Inl e | None \<Rightarrow> Inr StatusReply), w')"
      using run by (simp add: w'_def split: option.split)
    show "free w' d'" "streamed w' = streamed w"
      using close [OF w4(2,3) rs(2)] close [of w5 d'] p5 w4 s3 rs(2) by (simp_all add: w'_def)
    show "err = snd (snd (fst (SendMessage S m w4)))" by (simp add: w5)
    show "first_error rs \<noteq> None \<Longrightarrow> published w' = published w"
      using close [OF w4(2,3) rs(2)] w4 s3 by (auto simp: w'_def)
    show "first_error rs = None \<Longrightarrow> err = None \<Longrightarrow> published w' = published w @
       [\<lparr>pm_Topic = streamTopic, pm_Key = dev_UserId dev, pm_Value = body (UnixNano t)\<rparr>]"
      using close [of w5 d'] p5 w4 s3 rs(2) by (simp add: w'_def m_def)
  qed (fact t)+
qed

section \<open>GetDevices\<close>

lemma device_loop_run:
  assumes "sess w d []" and "flag w = 0"
    and "\<forall>k \<in> set ks. exec d [''GET'', k] = (case val k of Some v \<Rightarrow> RBulk v | None \<Rightarrow> RNil, d)"
    and up: "\<And>dev w. fst (stream_Send S dev w) = None"
  shows "\<exists>w'. device_loop S ks w = (fst (listing val ks), w') \<and> sess w' d [] \<and> flag w' = 0 \<and>
    published w' = published w \<and> streamed w' = streamed w @ snd (listing val ks)"
  using assms(1-3)
proof (induction ks arbitrary: w)
  case (Cons k ks)
  obtain w1 where w1: "conn_do S ''GET'' [AString k] w =
      ((case val k of Some v \<Rightarrow> RBulk v | None \<Rightarrow> RNil, None), w1)"
    "sess w1 d []" "flag w1 = 0" "published w1 = published w" "streamed w1 = streamed w"
    using do [OF Cons.prems(1), of "''GET''" "[AString k]" "[case val k of Some v \<Rightarrow> RBulk v | None \<Rightarrow> RNil]" d]
      Cons.prems(2,3) by (auto split: option.splits)
  show ?case
  proof (cases "\<exists>u dev. val k = Some u \<and> u \<noteq> [] \<and> parseDevice u k = Inr dev")
    case True
    then obtain u dev where u: "val k = Some u" "u \<noteq> []" "parseDevice u k = Inr dev" by blast
    obtain w2 where w2: "stream_Send S dev w1 = (None, w2)" using up [of dev w1] by (metis prod.collapse)
    note s2 = stream [OF w1(2) w2]
    with Cons.IH [of w2] Cons.prems(3) w1 w2 u show ?thesis
      by (auto simp: redis_String_def)
  next
    case False
    show ?thesis
    proof (cases "val k = None \<or> val k = Some []")
      case True
      with Cons.IH [of w1] Cons.prems(3) w1 show ?thesis by (auto simp: redis_String_def)
    next
      case F: False
      with False obtain u e where "val k = Some u" "u \<noteq> []" "parseDevice u k = Inl e"
        by (metis not_None_eq sum.exhaust)
      with w1 show ?thesis by (auto simp: redis_String_def)
    qed
  qed
qed simp

lemma toInterfaceSlice_keys:
  "map Bucket_String bs = map Returns ks \<Longrightarrow> toInterfaceSlice bs = Returns (map AString ks)"
  by (induction bs arbitrary: ks) auto

lemma BucketRange_sess:
  "sess w d ws \<Longrightarrow> snd (BucketRange_loop (Now S) u bs is w) = w' \<Longrightarrow>
     sess w' d ws \<and> flag w' = flag w \<and> published w' = published w \<and> streamed w' = streamed w"
proof (induction "is" arbitrary: w)
  case (Cons i "is")
  note n = now [OF Cons.prems(1) refl]
  from Cons.IH [OF n [THEN conjunct1]] Cons.prems(2) n show ?case
    by (simp add: BucketWithOffset_def case_prod_beta Let_def)
qed simp

text \<open>The request up to the answer of \<open>SUNION\<close>.\<close>

lemma GetDevices_union:
  assumes f: "free w d" and u: "dr_UserId r = u" "u \<noteq> []"
    and win: "window (minute_start b) (minute_start (b + 1)) 6 (Redis_Get S w)" "NumBuckets \<le> b"
    and ex: "exec d (''SUNION'' # last_buckets u b) = (rep, d)"
  obtains w3 where "GetDevices S (Some r) w =
      (let (deviceList, err) = redis_Strings rep (reply_error rep)
       in case err of
            Some e \<Rightarrow> Returns (Some e, conn_close S w3)
          | None \<Rightarrow> (let (err, w4) = device_loop S deviceList w3 in Returns (err, conn_close S w4)))"
    "sess w3 d []" "flag w3 = 0" "published w3 = published w" "streamed w3 = streamed w"
proof -
  define w1 where "w1 = Redis_Get S w"
  note g = get [OF f, folded w1_def]
  obtain bs w2 where bs: "BucketRange (Now S) u BucketSize (- NumBuckets) 0 w1 = Returns (bs, w2)"
    "map Bucket_String bs = map (\<lambda>i. Returns (bucket_key u (b + i))) [- NumBuckets..0]"
    using range_keys [of 60 0 "- NumBuckets" b w1 u] win
    by (auto simp: w1_def minute_start_def in_int64_def NumBuckets_def BucketSize_def Minute_def Second_def)
  have "snd (BucketRange_loop (Now S) u BucketSize [- NumBuckets..0] w1) = w2"
    using bs(1) by (simp add: BucketRange_def split: if_splits)
  from BucketRange_sess [OF g [THEN conjunct1] this] g
  have s2: "sess w2 d []" "flag w2 = 0" "published w2 = published w" "streamed w2 = streamed w" by simp_all
  have args: "toInterfaceSlice bs = Returns (map AString (last_buckets u b))"
    using bs(2) by (intro toInterfaceSlice_keys) (simp add: last_buckets_def)
  obtain w3 where w3: "conn_do S ''SUNION'' (map AString (last_buckets u b)) w2 = ((rep, reply_error rep), w3)"
    "sess w3 d []" "flag w3 = 0" "published w3 = published w2" "streamed w3 = streamed w2"
    using do [OF s2(1), of "''SUNION''" "map AString (last_buckets u b)" "[rep]" d] ex s2(2)
    by (auto simp: comp_def split: option.splits)
  obtain dl err where R: "redis_Strings rep (reply_error rep) = (dl, err)" by fastforce
  from s2 w3(2-) show ?thesis
    by (intro that [of w3])
       (simp_all add: GetDevices_def u w1_def [symmetric] bs(1) args w3(1) R split: option.split prod.split)
qed

lemma GetDevices_run:
  assumes f: "free w d" and u: "dr_UserId r = u" "u \<noteq> []"
    and win: "window (minute_start b) (minute_start (b + 1)) 6 (Redis_Get S w)" "NumBuckets \<le> b"
    and un: "exec d (''SUNION'' # last_buckets u b) = (RArr (map RBulk ks), d)"
    and val: "\<forall>k \<in> set ks. exec d [''GET'', k] = (case val k of Some v \<Rightarrow> RBulk v | None \<Rightarrow> RNil, d)"
    and q: "quiet d" and up: "\<And>dev w. fst (stream_Send S dev w) = None"
  shows "\<exists>w'. GetDevices S (Some r) w = Returns (fst (listing val ks), w') \<and> free w' d \<and>
    published w' = published w \<and> streamed w' = streamed w @ snd (listing val ks)"
proof -
  from GetDevices_union [OF f u win un] obtain w3 where w3:
    "GetDevices S (Some r) w =
      (let (err, w4) = device_loop S ks w3 in Returns (err, conn_close S w4))"
    "sess w3 d []" "flag w3 = 0" "published w3 = published w" "streamed w3 = streamed w"
    by (auto simp: redis_Strings_def Strings_loop_bulks)
  from device_loop_run [OF w3(2,3) val up] obtain w4 where
    "device_loop S ks w3 = (fst (listing val ks), w4)" "sess w4 d []" "flag w4 = 0"
    "published w4 = published w3" "streamed w4 = streamed w3 @ snd (listing val ks)" by blast
  with w3 close [of w4 d] q show ?thesis by simp
qed

lemma GetDevices_union_error:
  assumes f: "free w d" and u: "dr_UserId r = u" "u \<noteq> []"
    and win: "window (minute_start b) (minute_start (b + 1)) 6 (Redis_Get S w)" "NumBuckets \<le> b"
    and un: "exec d (''SUNION'' # last_buckets u b) = (RErr s, d)" and q: "quiet d"
  shows "\<exists>w'. GetDevices S (Some r) w = Returns (Some (RedisError s), w') \<and> free w' d \<and>
    published w' = published w \<and> streamed w' = streamed w"
proof -
  from GetDevices_union [OF f u win un] obtain w3 where
    "GetDevices S (Some r) w = Returns (Some (RedisError s), conn_close S w3)"
    "sess w3 d []" "flag w3 = 0" "published w3 = published w" "streamed w3 = streamed w"
    by (auto simp: redis_Strings_def)
  with close [of w3 d] q show ?thesis by simp
qed

end

end
