(* ===== verification/Main_Go.thy ===== *)
theory Main_Go
  imports Presence_Manager Redigo_Pooled
begin

text \<open>
  \<open>main.go\<close>: the configuration of the Redis pool, the lookup of the linked services in the
  environment, and the start-up and shutdown sequence. What \<open>main\<close> calls outside the
  repository (the producer's constructor, the listener, the server loop) is given by its
  results; the calls themselves are recorded in order, so that what runs on each path, the
  deferred functions included, is visible.
\<close>

section \<open>The pool's callbacks\<close>

definition DoPing :: "'s net \<Rightarrow> 's conn \<Rightarrow> error option \<times> 's conn" where
  "DoPing net c = (let ((_, err), c') = conn_Do net ''PING'' [] c in (err, c'))"

text \<open>
  \<open>os.Getenv\<close> gives the empty string for a missing variable. \<open>strings.Split(v, "//")[1]\<close>
  panics where the separator does not occur.
\<close>

definition ParseLinkEnv :: "(string \<Rightarrow> string) \<Rightarrow> string \<Rightarrow> string outcome" where
  "ParseLinkEnv Getenv name =
     (let v = Getenv (name @ ''_PORT'')
      in if v = [] then Exits (''Missing environment variable '' @ name @ ''_PORT'')
         else let parts = Split v ''//''
              in if length parts \<le> 1 then Panics ''runtime error: index out of range''
                 else Returns (parts ! 1))"

text \<open>The pool literal of \<open>main\<close> and its two callbacks.\<close>

definition main_pool :: "'c pool" where
  "main_pool = (NewPool 50)\<lparr>IdleTimeout := Minute\<rparr>"

definition main_Dial ::
  "(string \<Rightarrow> string) \<Rightarrow> (string \<Rightarrow> string \<Rightarrow> error + 's) \<Rightarrow> (error + 's conn) outcome" where
  "main_Dial Getenv dial =
     bind_outcome (ParseLinkEnv Getenv ''REDIS'') (\<lambda>addr. Returns (Dial dial ''tcp'' addr))"

definition main_TestOnBorrow :: "'s net \<Rightarrow> 's conn \<Rightarrow> time \<Rightarrow> error option \<times> 's conn" where
  "main_TestOnBorrow net c t = DoPing net c"

section \<open>main\<close>

datatype main_call =
    RandSeed int
  | NewSyncProducer "string list" string
  | Listen string string
  | RegisterPresenceManagerServer
  | Serve
  | ProducerClose
  | Errorf string
  | RedisPoolClose

record main_env =
  env_Getenv :: "string \<Rightarrow> string"
  env_port :: int
  env_now :: time
  env_producer :: "error option"
  env_listen :: "error option"
  env_close :: "error option"

text \<open>
  The deferred functions, last in first out: the producer's (with its error message), then
  the pool's. \<open>glog.Fatalf\<close> ends the process without running them; a panic runs the ones
  deferred so far and ends the process.
\<close>

definition main_deferred :: "main_env \<Rightarrow> main_call list" where
  "main_deferred E =
     [ProducerClose] @
     (case env_close E of Some e \<Rightarrow> [Errorf (''Error closing producer: '' @ error_text e)] | None \<Rightarrow> []) @
     [RedisPoolClose]"

definition main :: "main_env \<Rightarrow> main_call list \<times> unit outcome" where
  "main E =
     (let c1 = [RandSeed (UnixNano (env_now E))]
      in case ParseLinkEnv (env_Getenv E) ''KAFKA'' of
           Exits m \<Rightarrow> (c1, Exits m)
         | Panics m \<Rightarrow> (c1 @ [RedisPoolClose], Panics m)
         | Returns addr \<Rightarrow>
             let c2 = c1 @ [NewSyncProducer [addr] ''service-device-presence'']
             in case env_producer E of
                  Some e \<Rightarrow> (c2, Exits (''Unable to connect to kafka: '' @ error_text e))
                | None \<Rightarrow>
                    let c3 = c2 @ [Listen ''tcp'' ('':'' @ FormatInt (env_port E))]
                    in case env_listen E of
                         Some e \<Rightarrow> (c3, Exits (''failed to listen: '' @ error_text e))
                       | None \<Rightarrow>
                           (c3 @ [RegisterPresenceManagerServer, Serve] @ main_deferred E, Returns ()))"

lemmas main_defs = main_def main_deferred_def ParseLinkEnv_def Let_def

section \<open>Properties\<close>

lemma ParseLinkEnv_link:
  assumes "Getenv (name @ ''_PORT'') = a @ ''//'' @ b" and "CHR ''/'' \<notin> set a" and "CHR ''/'' \<notin> set b"
  shows "ParseLinkEnv Getenv name = Returns b"
proof -
  have cut: "cut_at ''//'' (a @ ''//'' @ b) = Some (a, b)"
    using assms(2) by (induction a) auto
  have "cut_at ''//'' b = None"
    using assms(3) by (induction b) auto
  with cut have "Split (a @ ''//'' @ b) ''//'' = [a, b]"
    by (cases "length a + length b") (simp_all add: Split_def del: cut_at.simps)
  with assms(1) show ?thesis by (simp add: ParseLinkEnv_def)
qed

text \<open>
  \<open>ParseLinkEnv\<close> on every value of the variable. A missing variable ends the process
  with a message, a value without \<open>//\<close> panics with an index error, and any other
  value gives the text between the first and the second \<open>//\<close> (or the end).
\<close>

theorem ParseLinkEnv_branches:
  "ParseLinkEnv Getenv name =
     (case cut_at ''//'' (Getenv (name @ ''_PORT'')) of
        Some (_, b) \<Rightarrow> Returns (case cut_at ''//'' b of Some (c, _) \<Rightarrow> c | None \<Rightarrow> b)
      | None \<Rightarrow> if Getenv (name @ ''_PORT'') = []
                then Exits (''Missing environment variable '' @ name @ ''_PORT'')
                else Panics ''runtime error: index out of range'')"
proof (cases "cut_at ''//'' (Getenv (name @ ''_PORT''))")
  case None
  then have "Split (Getenv (name @ ''_PORT'')) ''//'' = [Getenv (name @ ''_PORT'')]"
    by (intro Split_length_one) (simp_all add: cut_None_iff)
  with None show ?thesis by (simp add: ParseLinkEnv_def)
next
  case (Some ab)
  obtain a b where ab: "ab = (a, b)" by fastforce
  define v where "v = Getenv (name @ ''_PORT'')"
  have v: "v = a @ ''//'' @ b" using Some ab cut_Some v_def by blast
  then obtain n where n: "length v = Suc (Suc n)" by simp
  have "Split v ''//'' ! 1 = (case cut_at ''//'' b of Some (c, _) \<Rightarrow> c | None \<Rightarrow> b) \<and>
      1 < length (Split v ''//'')"
    using Some ab unfolding Split_def n
    by (auto simp: v_def [symmetric] split: option.split)
  moreover have "v \<noteq> []" using v by simp
  ultimately show ?thesis using Some ab by (simp add: ParseLinkEnv_def v_def)
qed


end
