(* ===== verification/Redis_Ref.thy ===== *)
theory Redis_Ref
  imports Redigo_Pooled Redigo_Reply
begin

text \<open>
  A reference Redis server for the parameter the client code leaves open. It is not part of
  the repository: it implements the documented behaviour of the commands the service sends
  (\<open>PING\<close>, \<open>ECHO\<close>, \<open>GET\<close>, \<open>SET\<close>, \<open>DEL\<close>, \<open>EXPIRE\<close>, \<open>SADD\<close>, \<open>SUNION\<close>, and the transaction
  commands \<open>MULTI\<close>, \<open>EXEC\<close>, \<open>DISCARD\<close>), and the framing of the protocol on a byte stream.
  The locale interpretations at the end show that it meets the contracts the client's
  theorems assume. A reply the protocol cannot carry (a string or array of \<open>2^63\<close> elements
  or more) is replaced by an error.
\<close>

section \<open>The keyspace\<close>

datatype rvalue = VStr string | VSet "string list"

text \<open>Values with their deadline in milliseconds, if any, and the server's clock.\<close>

record db =
  kv :: "string \<rightharpoonup> rvalue \<times> int option"
  clock_ms :: int

definition live :: "db \<Rightarrow> string \<Rightarrow> rvalue option" where
  "live d k =
     (case kv d k of
        None \<Rightarrow> None
      | Some (v, None) \<Rightarrow> Some v
      | Some (v, Some t) \<Rightarrow> if clock_ms d < t then Some v else None)"

definition wrongtype :: reply where
  "wrongtype = RErr ''WRONGTYPE Operation against a key holding the wrong kind of value''"

definition cmd_get :: "db \<Rightarrow> string \<Rightarrow> reply \<times> db" where
  "cmd_get d k =
     (case live d k of
        None \<Rightarrow> (RNil, d) | Some (VStr v) \<Rightarrow> (RBulk v, d) | Some (VSet _) \<Rightarrow> (wrongtype, d))"

definition cmd_set :: "db \<Rightarrow> string \<Rightarrow> string \<Rightarrow> reply \<times> db" where
  "cmd_set d k v = (RStr ''OK'', d\<lparr>kv := (kv d)(k \<mapsto> (VStr v, None))\<rparr>)"

definition cmd_del :: "db \<Rightarrow> string list \<Rightarrow> reply \<times> db" where
  "cmd_del d ks =
     (RInt (int (length (filter (\<lambda>k. live d k \<noteq> None) (remdups ks)))),
      d\<lparr>kv := (\<lambda>k. if k \<in> set ks then None else kv d k)\<rparr>)"

definition cmd_expire :: "db \<Rightarrow> string \<Rightarrow> string \<Rightarrow> reply \<times> db" where
  "cmd_expire d k n =
     (case ParseInt n of
        (_, Some e) \<Rightarrow> (RErr ''ERR value is not an integer or out of range'', d)
      | (secs, None) \<Rightarrow>
          (case live d k of
             None \<Rightarrow> (RInt 0, d)
           | Some v \<Rightarrow>
               (RInt 1,
                if secs \<le> 0 then d\<lparr>kv := (kv d)(k := None)\<rparr>
                else d\<lparr>kv := (kv d)(k \<mapsto> (v, Some (clock_ms d + secs * 1000)))\<rparr>)))"

definition deadline :: "db \<Rightarrow> string \<Rightarrow> int option" where
  "deadline d k = (case kv d k of Some (v, t) \<Rightarrow> t | None \<Rightarrow> None)"

definition cmd_sadd :: "db \<Rightarrow> string \<Rightarrow> string list \<Rightarrow> reply \<times> db" where
  "cmd_sadd d k ms =
     (case live d k of
        Some (VStr _) \<Rightarrow> (wrongtype, d)
      | None \<Rightarrow> (RInt (int (length (remdups ms))), d\<lparr>kv := (kv d)(k \<mapsto> (VSet (remdups ms), None))\<rparr>)
      | Some (VSet xs) \<Rightarrow>
          (RInt (int (length (filter (\<lambda>m. m \<notin> set xs) (remdups ms)))),
           d\<lparr>kv := (kv d)(k \<mapsto> (VSet (xs @ filter (\<lambda>m. m \<notin> set xs) (remdups ms)), deadline d k))\<rparr>))"

fun set_members :: "db \<Rightarrow> string \<Rightarrow> string list" where
  "set_members d k = (case live d k of Some (VSet xs) \<Rightarrow> xs | _ \<Rightarrow> [])"

definition is_string_key :: "db \<Rightarrow> string \<Rightarrow> bool" where
  "is_string_key d k = (case live d k of Some (VStr _) \<Rightarrow> True | _ \<Rightarrow> False)"

definition union_members :: "db \<Rightarrow> string list \<Rightarrow> string list" where
  "union_members d ks = remdups (concat (map (set_members d) ks))"

definition cmd_sunion :: "db \<Rightarrow> string list \<Rightarrow> reply \<times> db" where
  "cmd_sunion d ks =
     (if list_ex (is_string_key d) ks then (wrongtype, d)
      else (RArr (map RBulk (union_members d ks)), d))"

text \<open>One command outside a transaction; \<open>known\<close> is the command table with its arities.\<close>

fun plain :: "db \<Rightarrow> string list \<Rightarrow> (reply \<times> db) option" where
  "plain d (c # args) =
     (if c = ''PING'' \<and> args = [] then Some (RStr ''PONG'', d)
      else if c = ''ECHO'' \<and> length args = 1 then Some (RBulk (hd args), d)
      else if c = ''GET'' \<and> length args = 1 then Some (cmd_get d (hd args))
      else if c = ''SET'' \<and> length args = 2 then Some (cmd_set d (hd args) (args ! 1))
      else if c = ''DEL'' \<and> args \<noteq> [] then Some (cmd_del d args)
      else if c = ''EXPIRE'' \<and> length args = 2 then Some (cmd_expire d (hd args) (args ! 1))
      else if c = ''SADD'' \<and> 2 \<le> length args then Some (cmd_sadd d (hd args) (tl args))
      else if c = ''SUNION'' \<and> args \<noteq> [] then Some (cmd_sunion d args)
      else None)"
| "plain d [] = None"

definition known :: "string list \<Rightarrow> bool" where
  "known ws \<longleftrightarrow> plain \<lparr>kv = Map.empty, clock_ms = 0\<rparr> ws \<noteq> None"

definition run :: "db \<Rightarrow> string list \<Rightarrow> reply \<times> db" where
  "run d ws = (case plain d ws of Some r \<Rightarrow> r | None \<Rightarrow> (RErr ''ERR unknown command'', d))"

section \<open>Transactions\<close>

text \<open>
  The transaction state of a connection: none, or the queued commands with a flag that
  one of them was refused.
\<close>

type_synonym tx = "(bool \<times> string list list) option"

fun exec_cmd :: "db \<times> tx \<Rightarrow> string list \<Rightarrow> reply \<times> db \<times> tx" where
  "exec_cmd (d, None) ws =
     (if ws = [''MULTI''] then (RStr ''OK'', d, Some (False, []))
      else if ws = [''EXEC''] then (RErr ''ERR EXEC without MULTI'', d, None)
      else if ws = [''DISCARD''] then (RErr ''ERR DISCARD without MULTI'', d, None)
      else let (x, d') = run d ws in (x, d', None))"
| "exec_cmd (d, Some (bad, q)) ws =
     (if ws = [''MULTI''] then (RErr ''ERR MULTI calls can not be nested'', d, Some (bad, q))
      else if ws = [''EXEC''] then
        (if bad then (RErr ''EXECABORT Transaction discarded because of previous errors.'', d, None)
         else let (xs, d') = exec_all run d q in (RArr xs, d', None))
      else if ws = [''DISCARD''] then (RStr ''OK'', d, None)
      else if known ws then (RStr ''QUEUED'', d, Some (bad, q @ [ws]))
      else (RErr ''ERR unknown command'', d, Some (True, q)))"

definition answer :: "reply \<Rightarrow> reply" where
  "answer x = (if wf_reply x then x else RErr ''ERR reply too large'')"

text \<open>Command names are not case sensitive.\<close>

definition redis_exec :: "db \<times> tx \<Rightarrow> string list \<Rightarrow> reply \<times> db \<times> tx" where
  "redis_exec s ws = (let (x, s') = exec_cmd s (ToUpper (hd ws) # tl ws) in (answer x, s'))"

section \<open>The byte stream\<close>

text \<open>Commands are parsed as soon as they are complete; \<open>None\<close> waits for more bytes.\<close>

definition parse_bulk :: "string \<Rightarrow> (string \<times> string) option" where
  "parse_bulk s =
     (case cut_at crlf s of
        None \<Rightarrow> None
      | Some (h, r) \<Rightarrow>
          let n = dec_val (tl h)
          in if n + 2 \<le> length r then Some (take n r, drop (n + 2) r) else None)"

fun parse_bulks :: "nat \<Rightarrow> string \<Rightarrow> (string list \<times> string) option" where
  "parse_bulks 0 s = Some ([], s)"
| "parse_bulks (Suc n) s =
     (case parse_bulk s of
        None \<Rightarrow> None
      | Some (w, r) \<Rightarrow> (case parse_bulks n r of None \<Rightarrow> None | Some (ws, r') \<Rightarrow> Some (w # ws, r')))"

definition parse_command :: "string \<Rightarrow> (string list \<times> string) option" where
  "parse_command s =
     (case cut_at crlf s of None \<Rightarrow> None | Some (h, r) \<Rightarrow> parse_bulks (dec_val (tl h)) r)"

lemma cut_crlf_shorter: "cut_at crlf s = Some (h, r) \<Longrightarrow> length r + 2 \<le> length s"
  by (drule cut_Some) simp

lemma parse_bulk_shorter: "parse_bulk s = Some (w, r) \<Longrightarrow> length r < length s"
  by (auto simp: parse_bulk_def Let_def split: option.splits if_splits dest!: cut_crlf_shorter)

lemma parse_bulks_shorter: "parse_bulks n s = Some (ws, r) \<Longrightarrow> length r \<le> length s"
  by (induction n arbitrary: s ws) (fastforce split: option.splits dest: parse_bulk_shorter)+

lemma parse_command_shorter: "parse_command s = Some (ws, r) \<Longrightarrow> length r < length s"
  by (auto simp: parse_command_def split: option.splits dest!: cut_crlf_shorter parse_bulks_shorter)

function serve :: "db \<times> tx \<Rightarrow> string \<Rightarrow> string \<times> (db \<times> tx) \<times> string" where
  "serve s b =
     (case parse_command b of
        None \<Rightarrow> ([], s, b)
      | Some (ws, r) \<Rightarrow>
          if ws = [] then serve s r
          else let (x, s1) = redis_exec s ws; (out, s2, b2) = serve s1 r in (resp x @ out, s2, b2))"
  by pat_completeness auto
termination by (relation "measure (\<lambda>(s, b). length b)") (auto dest: parse_command_shorter)

declare serve.simps [simp del]

text \<open>A connection's server side: database, transaction state and unparsed input.\<close>

type_synonym redis_link = "(db \<times> tx) \<times> string"

definition redis_feed :: "redis_link \<Rightarrow> string \<Rightarrow> string \<times> redis_link" where
  "redis_feed l p = (if p = [] then ([], l) else serve (fst l) (snd l @ p))"

definition redis_net :: "redis_link net" where
  "redis_net l p = (None, fst (redis_feed l p), snd (redis_feed l p))"

section \<open>The server is a byte stream that answers commands\<close>

text \<open>What has been parsed does not change when more bytes arrive.\<close>

lemma cut_at_append: "cut_at sep s = Some (a, b) \<Longrightarrow> cut_at sep (s @ t) = Some (a, b @ t)"
proof (induction s arbitrary: a)
  case (Cons c s)
  show ?case
  proof (cases "prefix sep (c # s)")
    case True
    then have l: "length sep \<le> length (c # s)" by (rule prefix_length_le)
    have "prefix sep ((c # s) @ t)" using True by (rule prefix_prefix)
    moreover have "drop (length sep) ((c # s) @ t) = drop (length sep) (c # s) @ t"
      using l by (simp only: drop_append) simp
    ultimately show ?thesis using Cons.prems True by simp
  next
    case False
    with Cons.prems obtain a' where a': "cut_at sep s = Some (a', b)" "a = c # a'" by auto
    then have "length sep \<le> length (c # s)" by (auto dest!: cut_Some)
    with False have "\<not> prefix sep ((c # s) @ t)"
      by (metis prefix_length_prefix prefixI)
    with Cons.IH [OF a'(1)] a'(2) show ?thesis by simp
  qed
qed (simp split: if_splits)

lemma parse_bulk_append: "parse_bulk s = Some (w, r) \<Longrightarrow> parse_bulk (s @ t) = Some (w, r @ t)"
  by (auto simp: parse_bulk_def Let_def cut_at_append split: option.splits if_splits)

lemma parse_bulks_append: "parse_bulks n s = Some (ws, r) \<Longrightarrow> parse_bulks n (s @ t) = Some (ws, r @ t)"
proof (induction n arbitrary: s ws)
  case (Suc n)
  then obtain w r1 ws' where "parse_bulk s = Some (w, r1)" "parse_bulks n r1 = Some (ws', r)" "ws = w # ws'"
    by (auto split: option.splits)
  with Suc.IH parse_bulk_append show ?case by simp
qed simp

lemma parse_command_append:
  "parse_command s = Some (ws, r) \<Longrightarrow> parse_command (s @ t) = Some (ws, r @ t)"
  by (auto simp: parse_command_def cut_at_append parse_bulks_append split: option.splits)

lemma serve_append:
  "serve s (b @ t) =
     (let (out, s1, b1) = serve s b; (out', s2, b2) = serve s1 (b1 @ t) in (out @ out', s2, b2))"
proof (induction "length b" arbitrary: s b rule: less_induct)
  case less
  show ?case
  proof (cases "parse_command b")
    case None
    then show ?thesis by (simp add: serve.simps [of s b] case_prod_beta)
  next
    case (Some p)
    obtain ws r where p: "p = (ws, r)" by fastforce
    with Some have "length r < length b" by (simp add: parse_command_shorter)
    note IH = less.hyps [OF this]
    from Some p parse_command_append [of b ws r t] IH show ?thesis
      by (simp add: serve.simps [of s b] serve.simps [of s "b @ t"] case_prod_beta Let_def)
  qed
qed

text \<open>A command as the client writes it is parsed back.\<close>

lemma cut_header: "cut_at crlf (k # digits n @ crlf @ t) = Some (k # digits n, t)" if "k \<noteq> CHR 0x0D"
proof -
  have "cut_at crlf (a @ crlf @ t) = Some (a, t)" if "CHR 0x0D \<notin> set a" for a
    using that by (induction a) (auto simp: crlf_def)
  from this [of "k # digits n"] that digits_no_newline show ?thesis by auto
qed

lemma parse_bulk_bulk: "parse_bulk (bulk w @ r) = Some (w, r)"
  using cut_header [of "CHR ''$''" "length w" "w @ crlf @ r"]
  by (simp add: parse_bulk_def bulk_def dec_val_digits del: cut_at.simps)

lemma parse_bulks_bulks: "parse_bulks (length ws) (concat (map bulk ws) @ r) = Some (ws, r)"
  by (induction ws) (simp_all add: parse_bulk_bulk)

lemma parse_command_resp: "parse_command (resp_command ws) = Some (ws, [])"
  using cut_header [of "CHR ''*''" "length ws" "concat (map bulk ws)"] parse_bulks_bulks [of ws "[]"]
  by (simp add: parse_command_def resp_command_def dec_val_digits del: cut_at.simps)

lemma serve_command:
  "ws \<noteq> [] \<Longrightarrow> serve s (resp_command ws) = (resp (fst (redis_exec s ws)), snd (redis_exec s ws), [])"
  by (simp add: serve.simps [of s] serve.simps [of _ "[]"] parse_command_resp case_prod_beta Let_def)
     (simp add: parse_command_def)

definition link_exec :: "redis_link \<Rightarrow> string list \<Rightarrow> reply \<times> redis_link" where
  "link_exec l ws = (fst (redis_exec (fst l) ws), snd (redis_exec (fst l) ws), snd l)"

definition link_ready :: "redis_link \<Rightarrow> bool" where
  "link_ready l \<longleftrightarrow> snd l = []"

lemma resp_command_nonempty [simp]: "resp_command ws \<noteq> []"
  by (simp add: resp_command_def)

lemma wf_answer: "wf_reply (answer x)"
  by (simp add: answer_def)

lemma redis_feed_append:
  "redis_feed l (a @ b) =
     (fst (redis_feed l a) @ fst (redis_feed (snd (redis_feed l a)) b),
      snd (redis_feed (snd (redis_feed l a)) b))"
proof (cases "a = [] \<or> b = []")
  case True
  then show ?thesis by (auto simp: redis_feed_def)
next
  case False
  with serve_append [of "fst l" "snd l @ a" b] show ?thesis
    by (simp add: redis_feed_def case_prod_beta Let_def prod_eq_iff)
qed

interpretation redis: resp_peer redis_net redis_feed link_exec link_ready
proof unfold_locales
  show "redis_net l p = (None, fst (redis_feed l p), snd (redis_feed l p))" for l p
    by (simp add: redis_net_def)
  show "redis_feed l [] = ([], l)" for l
    by (simp add: redis_feed_def)
  show "redis_feed l (a @ b) = (fst (redis_feed l a) @ fst (redis_feed (snd (redis_feed l a)) b),
      snd (redis_feed (snd (redis_feed l a)) b))" for l a b
    by (rule redis_feed_append)
  show "redis_feed l (resp_command ws) = (resp (fst (link_exec l ws)), snd (link_exec l ws))"
    if "link_ready l" "ws \<noteq> []" for l ws
    using that serve_command [of ws "fst l"] by (simp add: redis_feed_def link_exec_def link_ready_def)
  show "wf_reply (fst (link_exec l ws))" for l ws
    by (simp add: link_exec_def redis_exec_def wf_answer case_prod_beta Let_def)
  show "link_ready (snd (link_exec l ws))" if "link_ready l" for l ws
    using that by (simp add: link_exec_def link_ready_def)
qed

section \<open>Pipelines and returned connections\<close>

text \<open>Several commands sent one after the other, on a bare and on a pooled connection.\<close>

fun conn_sends :: "'s net \<Rightarrow> (string \<times> arg list) list \<Rightarrow> 's conn \<Rightarrow> 's conn" where
  "conn_sends net [] c = c"
| "conn_sends net ((cmd, args) # cs) c = conn_sends net cs (snd (conn_Send net cmd args c))"

fun pc_sends :: "'s net \<Rightarrow> (string \<times> arg list) list \<Rightarrow> 's pooledConnection \<Rightarrow> 's pooledConnection" where
  "pc_sends net [] pc = pc"
| "pc_sends net ((cmd, args) # cs) pc = pc_sends net cs (snd (pc_Send net cmd args pc))"

definition words :: "string \<times> arg list \<Rightarrow> string list" where
  "words ca = fst ca # map arg_text (snd ca)"

lemma conn_sends_queued:
  "redis.queued s ws c \<Longrightarrow> redis.queued s (ws @ map words cs) (conn_sends redis_net cs c)"
proof (induction cs arbitrary: ws c)
  case (Cons ca cs)
  obtain cmd args where "ca = (cmd, args)" by fastforce
  with Cons.IH [OF redis.Send_queued(2) [OF Cons.prems, of cmd args]] show ?case
    by (simp add: words_def)
qed simp

lemma pc_sends_queued:
  "redis.pc_queued s ws pc \<Longrightarrow> redis.pc_queued s (ws @ map words cs) (pc_sends redis_net cs pc) \<and>
     pc_state (pc_sends redis_net cs pc) = foldl (\<lambda>st c. state_update (fst c) st) (pc_state pc) cs"
proof (induction cs arbitrary: ws pc)
  case (Cons ca cs)
  obtain cmd args where "ca = (cmd, args)" by fastforce
  with Cons.IH [OF redis.pc_Send_queued(2) [OF Cons.prems, of cmd args]]
    redis.pc_Send_queued(3) [OF Cons.prems, of cmd args] show ?case
    by (simp add: words_def)
qed simp

lemma exec_all_link:
  "exec_all link_exec (d, []) ws = (fst (exec_all redis_exec d ws), snd (exec_all redis_exec d ws), [])"
  by (induction ws arbitrary: d) (simp_all add: link_exec_def case_prod_beta Let_def)



text \<open>
  The recorded state follows the server's transaction state, for commands other than the
  subscription and monitor ones, where \<open>EXEC\<close> and \<open>DISCARD\<close> are given no arguments.
\<close>

definition tracked :: "string \<times> arg list \<Rightarrow> bool" where
  "tracked ca \<longleftrightarrow> ToUpper (fst ca) \<notin> {''SUBSCRIBE'', ''PSUBSCRIBE'', ''MONITOR''} \<and>
     (ToUpper (fst ca) \<in> {''EXEC'', ''DISCARD''} \<longrightarrow> snd ca = [])"

lemma state_update_tracked:
  assumes "st \<in> {0, 1, 2, 3}" and "tracked ca"
  shows "state_update (fst ca) st \<in> {0, 1, 2, 3}"
    "ToUpper (fst ca) = ''MULTI'' \<Longrightarrow> state_update (fst ca) st \<in> {2, 3}"
    "st \<in> {2, 3} \<Longrightarrow> ToUpper (fst ca) \<notin> {''EXEC'', ''DISCARD''} \<Longrightarrow> state_update (fst ca) st \<in> {2, 3}"
proof -
  have T: "ToUpper (fst ca) \<notin> {''SUBSCRIBE'', ''PSUBSCRIBE'', ''MONITOR''}" using assms(2) by (simp add: tracked_def)
  have u: "state_update (fst ca) st =
    (let U = ToUpper (fst ca) in
      if U = ''WATCH'' then st OR 1 else if U = ''UNWATCH'' then st AND NOT 1 else if U = ''MULTI'' then st OR 2
      else if U = ''EXEC'' \<or> U = ''DISCARD'' then st AND NOT 3 else st)"
    using T by (simp add: state_update_def LookupCommandInfo_def commandInfos_def state_defs Let_def)
  show "state_update (fst ca) st \<in> {0, 1, 2, 3}"
    using assms(1) unfolding u Let_def by auto
  show "ToUpper (fst ca) = ''MULTI'' \<Longrightarrow> state_update (fst ca) st \<in> {2, 3}"
    using assms(1) unfolding u Let_def by auto
  show "st \<in> {2, 3} \<Longrightarrow> ToUpper (fst ca) \<notin> {''EXEC'', ''DISCARD''} \<Longrightarrow> state_update (fst ca) st \<in> {2, 3}"
    unfolding u Let_def by auto
qed

lemma redis_exec_tx:
  assumes "tracked ca" and "snd (snd (redis_exec (d, tx) (words ca))) \<noteq> None"
  shows "ToUpper (fst ca) = ''MULTI'' \<or> tx \<noteq> None \<and> ToUpper (fst ca) \<notin> {''EXEC'', ''DISCARD''}"
  using assms by (cases tx) (auto simp: tracked_def words_def redis_exec_def case_prod_beta Let_def split: if_splits)

lemma tracked_run:
  assumes "\<forall>ca \<in> set cs. tracked ca" and "st \<in> {0, 1, 2, 3}" and "tx \<noteq> None \<longrightarrow> st \<in> {2, 3}"
  shows "foldl (\<lambda>st c. state_update (fst c) st) st cs \<in> {0, 1, 2, 3} \<and>
    (snd (snd (exec_all redis_exec (d, tx) (map words cs))) \<noteq> None \<longrightarrow>
       foldl (\<lambda>st c. state_update (fst c) st) st cs \<in> {2, 3})"
  using assms
proof (induction cs arbitrary: st d tx)
  case (Cons ca cs)
  obtain x d' tx' where x: "redis_exec (d, tx) (words ca) = (x, d', tx')" by (metis prod.exhaust)
  have tr: "tracked ca" using Cons.prems(1) by simp
  note st = state_update_tracked [OF Cons.prems(2) tr]
  have "tx' \<noteq> None \<longrightarrow> state_update (fst ca) st \<in> {2, 3}"
    using redis_exec_tx [OF tr, of d tx] x Cons.prems(3) st(2,3) by auto
  from Cons.IH [OF _ st(1) this, of d'] Cons.prems(1) x show ?case by (simp add: case_prod_beta)
qed simp

lemma undo_tx:
  assumes "st \<in> {0, 1, 2, 3}" and "tx \<noteq> None \<longrightarrow> st \<in> {2, 3}"
  shows "\<exists>d'. snd (exec_all redis_exec (d, tx) (undo st)) = (d', None)"
proof (cases tx)
  case None
  with assms(1) show ?thesis
    by (auto simp: undo_def state_defs redis_exec_def run_def case_prod_beta Let_def)
next
  case (Some q)
  with assms(2) have "undo st = [[''DISCARD'']]" by (auto simp: undo_def state_defs)
  with Some show ?thesis by (cases q) (simp add: redis_exec_def)
qed



end
