(* ===== verification/Presence_Stack.thy ===== *)
theory Presence_Stack
  imports Presence_Session Main_Go Redis_Ref
begin

text \<open>
  The presence manager on the modelled stack: the pool of \<open>main.go\<close> with its \<open>PING\<close> test,
  pooled connections, the RESP connection with its buffers, and the reference server at the
  far end. The operating system's clock is a sequence of readings. Whether the Kafka
  producer accepts a message and whether the reply stream accepts a device are parameters.
  This environment meets the contract \<open>presence_services\<close>, so the handlers' effect on the
  stored data follows.
\<close>

section \<open>The environment\<close>

record world =
  w_db :: db
  w_pool :: "redis_link conn pool"
  w_cur :: "redis_link pooledConnection"
  w_clock :: os_clock
  w_published :: "ProducerMessage list"
  w_streamed :: "Device list"

text \<open>
  All connections lead to one server: before a connection is used it sees the current
  database, afterwards the database is what it left.
\<close>

definition set_db :: "db \<Rightarrow> redis_link conn \<Rightarrow> redis_link conn" where
  "set_db d c = c\<lparr>peer := ((d, snd (fst (peer c))), snd (peer c))\<rparr>"

definition get_db :: "redis_link conn \<Rightarrow> db" where
  "get_db c = fst (fst (peer c))"

fun set_Conn :: "db \<Rightarrow> redis_link Conn \<Rightarrow> redis_link Conn" where
  "set_Conn d (LowConn c) = LowConn (set_db d c)"
| "set_Conn d (ErrorConnection e) = ErrorConnection e"

fun get_Conn :: "db \<Rightarrow> redis_link Conn \<Rightarrow> db" where
  "get_Conn d (LowConn c) = get_db c"
| "get_Conn d (ErrorConnection e) = d"

definition cur :: "world \<Rightarrow> redis_link pooledConnection" where
  "cur w = (w_cur w)\<lparr>pc_c := set_Conn (w_db w) (pc_c (w_cur w))\<rparr>"

definition put_cur :: "redis_link pooledConnection \<Rightarrow> world \<Rightarrow> world" where
  "put_cur pc w = w\<lparr>w_cur := pc, w_db := get_Conn (w_db w) (pc_c pc)\<rparr>"

definition w_now :: "world \<Rightarrow> time \<times> world" where
  "w_now w = (let (t, k) = time_Now (w_clock w) in (t, w\<lparr>w_clock := k\<rparr>))"

definition w_test :: "redis_link conn \<Rightarrow> time \<Rightarrow> world \<Rightarrow> error option \<times> redis_link conn \<times> world" where
  "w_test c t w =
     (let (e, c') = main_TestOnBorrow redis_net (set_db (w_db w) c) t
      in (e, c', w\<lparr>w_db := get_db c'\<rparr>))"

definition w_dial :: "string \<Rightarrow> world \<Rightarrow> (error + redis_link conn) \<times> world" where
  "w_dial addr w = (Dial (\<lambda>_ _. Inr ((w_db w, None), [])) ''tcp'' addr, w)"

definition w_get :: "string \<Rightarrow> world \<Rightarrow> world" where
  "w_get addr w =
     (case pool_get w_now (Some w_test) (w_dial addr) (\<lambda>c w. w) (w_pool w, w) of
        None \<Rightarrow> w
      | Some (Inl e, p, w') \<Rightarrow> w'\<lparr>w_pool := p, w_cur := \<lparr>pc_c = ErrorConnection e, pc_state = 0\<rparr>\<rparr>
      | Some (Inr c, p, w') \<Rightarrow> w'\<lparr>w_pool := p, w_cur := \<lparr>pc_c = LowConn c, pc_state = 0\<rparr>\<rparr>)"

definition w_send :: "string \<Rightarrow> arg list \<Rightarrow> world \<Rightarrow> error option \<times> world" where
  "w_send c args w = (let (e, pc) = pc_Send redis_net c args (cur w) in (e, put_cur pc w))"

definition w_do :: "string \<Rightarrow> arg list \<Rightarrow> world \<Rightarrow> (reply \<times> error option) \<times> world" where
  "w_do c args w = (let (r, pc) = pc_Do redis_net c args (cur w) in (r, put_cur pc w))"

definition w_close :: "string \<Rightarrow> world \<Rightarrow> world" where
  "w_close sentinel w =
     (case pc_Close redis_net sentinel (cur w) of
        (None, pc) \<Rightarrow> put_cur pc w
      | (Some (c, force), pc) \<Rightarrow>
          let (t, w1) = w_now w
          in w1\<lparr>w_cur := pc, w_db := get_db c, w_pool := snd (put c (conn_Err c) force t (w_pool w1))\<rparr>)"

type_synonym producer = "ProducerMessage \<Rightarrow> world \<Rightarrow> int \<times> int \<times> error option"
type_synonym stream_out = "Device \<Rightarrow> world \<Rightarrow> error option"

definition stack :: "string \<Rightarrow> string \<Rightarrow> producer \<Rightarrow> stream_out \<Rightarrow> world services" where
  "stack addr sentinel pub strm =
     \<lparr>Redis_Get = w_get addr, conn_send = w_send, conn_do = w_do, conn_close = w_close sentinel,
      SendMessage = (\<lambda>m w. (pub m w,
        if snd (snd (pub m w)) = None then w\<lparr>w_published := w_published w @ [m]\<rparr> else w)),
      stream_Send = (\<lambda>d w. (strm d w,
        if strm d w = None then w\<lparr>w_streamed := w_streamed w @ [d]\<rparr> else w)),
      Now = w_now\<rparr>"

text \<open>The process after start-up: an empty pool over a database.\<close>

definition started :: "db \<Rightarrow> os_clock \<Rightarrow> world" where
  "started d k =
     \<lparr>w_db = d, w_pool = main_pool, w_cur = \<lparr>pc_c = ErrorConnection ErrConnClosed, pc_state = 0\<rparr>,
      w_clock = k, w_published = [], w_streamed = []\<rparr>"

section \<open>The contract\<close>

definition parked :: "redis_link conn \<Rightarrow> bool" where
  "parked c \<longleftrightarrow> redis.ok c \<and> pending c = 0 \<and> buf (br c) = [] \<and> wbuf c = [] \<and>
     snd (fst (peer c)) = None \<and> snd (peer c) = []"

definition pool_ok :: "redis_link conn pool \<Rightarrow> bool" where
  "pool_ok p \<longleftrightarrow> \<not> pool_closed p \<and> MaxActive p = 0 \<and> (\<forall>c \<in> fst ` set (idle p). parked c)"

definition w_free :: "world \<Rightarrow> db \<times> tx \<Rightarrow> bool" where
  "w_free w d \<longleftrightarrow> d = (w_db w, None) \<and> pool_ok (w_pool w)"

definition w_sess :: "world \<Rightarrow> db \<times> tx \<Rightarrow> string list list \<Rightarrow> bool" where
  "w_sess w d ws \<longleftrightarrow> pool_ok (w_pool w) \<and>
     (\<exists>c. pc_c (w_cur w) = LowConn c \<and> get_db c = w_db w \<and> redis.queued (d, []) ws c)"

definition w_flag :: "world \<Rightarrow> int" where
  "w_flag w = pc_state (w_cur w)"

definition w_window :: "time \<Rightarrow> time \<Rightarrow> nat \<Rightarrow> world \<Rightarrow> bool" where
  "w_window lo hi n w = os_window lo hi n (w_clock w)"

definition no_tx :: "db \<times> tx \<Rightarrow> bool" where
  "no_tx d \<longleftrightarrow> snd d = None"

lemma set_db_same: "get_db c = d \<Longrightarrow> set_db d c = c"
  by (auto simp: set_db_def get_db_def)

lemma parked_queued: "parked c \<Longrightarrow> redis.queued ((d, None), []) [] (set_db d c)"
  by (simp add: parked_def redis.queued_def redis.ok_def redis.view_def set_db_def link_ready_def
      redis.feed_Nil)

lemma queued_parked: "redis.queued ((d, None), []) [] c \<Longrightarrow> parked c \<and> get_db c = d"
  by (cases "peer c") (auto simp: parked_def redis.queued_def redis.view_def get_db_def redis.feed_Nil)

lemma cur_sess: "w_sess w d ws \<Longrightarrow> cur w = w_cur w \<and> redis.pc_queued (d, []) ws (w_cur w)"
  by (cases "w_cur w") (auto simp: w_sess_def cur_def redis.pc_queued_def set_db_same)

lemma put_cur_sess:
  "pool_ok (w_pool w) \<Longrightarrow> redis.pc_queued (d, []) ws pc \<Longrightarrow> w_sess (put_cur pc w) d ws"
  by (auto simp: w_sess_def put_cur_def redis.pc_queued_def)

lemma put_cur_fields [simp]:
  "w_flag (put_cur pc w) = pc_state pc" "w_published (put_cur pc w) = w_published w"
  "w_streamed (put_cur pc w) = w_streamed w" "w_pool (put_cur pc w) = w_pool w"
  by (simp_all add: put_cur_def w_flag_def)

lemma w_send_sess:
  assumes "w_sess w d ws" and "snd (w_send c args w) = w'"
  shows "w_sess w' d (ws @ [c # map arg_text args]) \<and> w_flag w' = state_update c (w_flag w) \<and>
    w_published w' = w_published w \<and> w_streamed w' = w_streamed w"
proof -
  have c: "cur w = w_cur w" "redis.pc_queued (d, []) ws (w_cur w)" and p: "pool_ok (w_pool w)"
    using cur_sess [OF assms(1)] assms(1) by (simp_all add: w_sess_def)
  note q = redis.pc_Send_queued [OF c(2), of c args]
  from assms(2) have "w' = put_cur (snd (pc_Send redis_net c args (w_cur w))) w"
    by (simp add: w_send_def c case_prod_beta)
  with q p show ?thesis by (simp add: put_cur_sess) (simp add: w_flag_def)
qed

lemma w_do_sess:
  assumes "w_sess w d ws" and "c \<noteq> []" and rs: "exec_all redis_exec d (ws @ [c # map arg_text args]) = (rs, d')"
  shows "\<exists>w'. w_do c args w = ((last rs, first_error rs), w') \<and> w_sess w' d' [] \<and>
    w_flag w' = state_update c (w_flag w) \<and> w_published w' = w_published w \<and> w_streamed w' = w_streamed w"
proof -
  have c: "cur w = w_cur w" "redis.pc_queued (d, []) ws (w_cur w)" and p: "pool_ok (w_pool w)"
    using cur_sess [OF assms(1)] assms(1) by (simp_all add: w_sess_def)
  define pc where "pc = snd (pc_Do redis_net c args (w_cur w))"
  note q = redis.pc_Do_queued [OF c(2) assms(2), of args, unfolded exec_all_link rs, simplified,
      folded pc_def]
  then have "w_do c args w = ((last rs, first_error rs), put_cur pc w)"
    by (simp add: w_do_def c case_prod_beta pc_def)
  with q p show ?thesis by (auto simp: put_cur_sess w_flag_def [of w])
qed

lemma w_now_sess:
  "w_sess w d ws \<Longrightarrow> snd (w_now w) = w' \<Longrightarrow>
     w_sess w' d ws \<and> w_flag w' = w_flag w \<and> w_published w' = w_published w \<and> w_streamed w' = w_streamed w"
  by (auto simp: w_now_def w_sess_def w_flag_def case_prod_beta)

lemma w_now_fields [simp]:
  "w_db (snd (w_now w)) = w_db w" "w_pool (snd (w_now w)) = w_pool w" "w_cur (snd (w_now w)) = w_cur w"
  "w_published (snd (w_now w)) = w_published w" "w_streamed (snd (w_now w)) = w_streamed w"
  by (simp_all add: w_now_def case_prod_beta)

text \<open>Returning a clean connection keeps the pool's connections clean, whatever it evicts.\<close>

lemma put_ok: "pool_ok p \<Longrightarrow> parked c \<Longrightarrow> pool_ok (snd (put c None False t p))"
  by (auto simp: pool_ok_def put_def release_def Let_def dest: in_set_butlastD)

lemma w_close_free:
  assumes "w_sess w d []" and "w_flag w = 0" and "no_tx d"
  shows "w_free (w_close sentinel w) d \<and> w_published (w_close sentinel w) = w_published w \<and>
    w_streamed (w_close sentinel w) = w_streamed w"
proof -
  have c: "cur w = w_cur w" "redis.pc_queued (d, []) [] (w_cur w)" and p: "pool_ok (w_pool w)"
    and st: "pc_state (w_cur w) = 0"
    using cur_sess [OF assms(1)] assms(1,2) by (simp_all add: w_sess_def w_flag_def)
  obtain c1 where c1: "pc_Close redis_net sentinel (w_cur w) =
      (Some (c1, False), (w_cur w)\<lparr>pc_c := ErrorConnection ErrConnClosed, pc_state := 0\<rparr>)"
    "redis.queued (snd (exec_all link_exec (d, []) (undo (pc_state (w_cur w))))) [] c1"
    using redis.pc_Close_queued [OF c(2), of undefined sentinel] st
    by (auto simp: cleanup_multi_def)
  have d: "d = (fst d, None)" using assms(3) by (simp add: no_tx_def prod_eq_iff)
  have "redis.queued ((fst d, None), []) [] c1"
    using c1(2) st by (subst d [symmetric]) (simp add: undo_def)
  from queued_parked [OF this] have c2: "parked c1" "get_db c1 = fst d" "conn_Err c1 = None"
    by (auto simp: parked_def redis.ok_def conn_Err_def)
  have "pool_ok (snd (put c1 None False t (w_pool w)))" for t by (rule put_ok [OF p c2(1)])
  with c1(1) c2 d show ?thesis
    by (simp add: w_close_def c(1) w_free_def case_prod_beta prod_eq_iff)
qed

text \<open>Pruning stale connections keeps the others.\<close>

lemma prune_one_ok: "pool_ok p \<Longrightarrow> prune_one t p = Some (c, p') \<Longrightarrow> pool_ok p'"
  by (fastforce simp: pool_ok_def prune_one_def release_def Let_def split: if_splits prod.splits
      dest: in_set_butlastD)

lemma prune_loop_ok:
  assumes "pool_ok p"
  obtains p' k where "prune_loop w_now (\<lambda>c w. w) n (p, w) = (p', w\<lparr>w_clock := k\<rparr>)" "pool_ok p'"
    "readings k = readings (w_clock w)"
  using assms
proof (induction n arbitrary: p w thesis)
  case 0
  from "0.prems"(1) [of p "w_clock w"] "0.prems"(2) show ?case by simp
next
  case (Suc n)
  obtain t k where t: "time_Now (w_clock w) = (t, k)" by fastforce
  have now: "w_now w = (t, w\<lparr>w_clock := k\<rparr>)" and k: "readings k = readings (w_clock w)"
    using t by (auto simp: w_now_def time_Now_def)
  show ?case
  proof (cases "idle p = [] \<or> prune_one t p = None")
    case True
    with Suc.prems(1) [of p "if idle p = [] then w_clock w else k"] Suc.prems(2) now k show ?thesis by auto
  next
    case False
    then obtain c p1 where p1: "prune_one t p = Some (c, p1)" by auto
    obtain p' k' where "prune_loop w_now (\<lambda>c w. w) n (p1, w\<lparr>w_clock := k\<rparr>) = (p', w\<lparr>w_clock := k\<rparr>\<lparr>w_clock := k'\<rparr>)"
      "pool_ok p'" "readings k' = readings k"
      using Suc.IH [OF _ prune_one_ok [OF Suc.prems(2) p1], of "w\<lparr>w_clock := k\<rparr>"] by auto
    with False p1 now k Suc.prems(1) show ?thesis by simp
  qed
qed

text \<open>
  Borrowing: the first idle connection answers \<open>PING\<close> and is taken; without one a new
  connection is dialed.
\<close>

lemma redis_PING: "redis_exec (d, None) [''PING''] = (RStr ''PONG'', d, None)"
  by (simp add: redis_exec_def run_def answer_def)

lemma DoPing_parked:
  assumes "parked c"
  obtains c' where "main_TestOnBorrow redis_net (set_db d c) t = (None, c')"
    "redis.queued ((d, None), []) [] c'"
  using redis.Do_queued [OF parked_queued [OF assms, of d], of "''PING''" "[]"]
  by (simp add: main_TestOnBorrow_def DoPing_def link_exec_def redis_PING case_prod_beta Let_def)

lemma pool_get_ok:
  assumes "pool_ok p"
  obtains c p' k where
    "pool_get w_now (Some w_test) (w_dial addr) (\<lambda>c w. w) (p, w) = Some (Inr c, p', w\<lparr>w_clock := k\<rparr>)"
    "redis.queued ((w_db w, None), []) [] c" "pool_ok p'" "readings k = readings (w_clock w)"
proof -
  obtain p1 k where p1: "(if IdleTimeout p > 0 then prune_loop w_now (\<lambda>c w. w) (length (idle p)) (p, w) else (p, w)) =
      (p1, w\<lparr>w_clock := k\<rparr>)" "pool_ok p1" "readings k = readings (w_clock w)"
  proof (cases "IdleTimeout p > 0")
    case True
    with that prune_loop_ok [OF assms, of "length (idle p)" w] show ?thesis by auto
  next
    case False
    with that [of p "w_clock w"] assms show ?thesis by simp
  qed
  note G = pool_get_def [of w_now "Some w_test" "w_dial addr" "\<lambda>c w. w" "(p, w)", unfolded fst_conv p1(1)]
  show ?thesis
  proof (cases "idle p1")
    case Nil
    have "redis.queued ((w_db w, None), []) [] (NewConn ((w_db w, None), []))"
      by (rule redis.NewConn_queued) (simp add: link_ready_def)
    with Nil p1(2,3) show ?thesis
      by (intro that [of "NewConn ((w_db w, None), [])" "p1\<lparr>active := active p1 + 1\<rparr>" k])
         (simp_all add: G pool_ok_def dial_or_fail_def w_dial_def Dial_def)
  next
    case (Cons ct rest)
    obtain c t where ct: "ct = (c, t)" by fastforce
    then have "parked c" using Cons p1(2) by (simp add: pool_ok_def)
    from DoPing_parked [OF this] obtain c' where c':
      "main_TestOnBorrow redis_net (set_db (w_db w) c) t = (None, c')"
      "redis.queued ((w_db w, None), []) [] c'" .
    then have "w_test c t (w\<lparr>w_clock := k\<rparr>) = (None, c', w\<lparr>w_clock := k\<rparr>)"
      using queued_parked [OF c'(2)] by (simp add: w_test_def)
    with Cons ct p1(2,3) c'(2) show ?thesis
      by (intro that [of c' "p1\<lparr>idle := rest\<rparr>" k]) (simp_all add: G pool_ok_def borrow_one_def)
  qed
qed

lemma w_get_sess:
  assumes "w_free w d"
  shows "w_sess (w_get addr w) d [] \<and> w_flag (w_get addr w) = 0 \<and>
    w_published (w_get addr w) = w_published w \<and> w_streamed (w_get addr w) = w_streamed w"
    "readings (w_clock (w_get addr w)) = readings (w_clock w)"
proof -
  have d: "d = (w_db w, None)" and p: "pool_ok (w_pool w)" using assms by (simp_all add: w_free_def)
  obtain c p' k where
    "pool_get w_now (Some w_test) (w_dial addr) (\<lambda>c w. w) (w_pool w, w) = Some (Inr c, p', w\<lparr>w_clock := k\<rparr>)"
    "redis.queued ((w_db w, None), []) [] c" "pool_ok p'" "readings k = readings (w_clock w)"
    using pool_get_ok [OF p] .
  with d queued_parked show "w_sess (w_get addr w) d [] \<and> w_flag (w_get addr w) = 0 \<and>
    w_published (w_get addr w) = w_published w \<and> w_streamed (w_get addr w) = w_streamed w"
    "readings (w_clock (w_get addr w)) = readings (w_clock w)"
    by (auto simp: w_get_def w_sess_def w_flag_def)
qed

lemma w_get_started [simp]: "w_clock (w_get addr (started d k)) = k"
  by (simp add: w_get_def started_def pool_get_def main_pool_def NewPool_def Minute_def Second_def
      dial_or_fail_def w_dial_def Dial_def)

interpretation stack: presence_services "stack addr sentinel pub strm" w_window redis_exec no_tx
  w_free w_sess w_flag w_published w_streamed
proof unfold_locales
  let ?S = "stack addr sentinel pub strm"
  note [simp] = stack_def
  show "lo \<le> fst (Now ?S w) \<and> fst (Now ?S w) < hi" if "w_window lo hi (Suc n) w" for lo hi n w
    using that real_clock.window_reading [of lo hi n "w_clock w"]
    by (simp add: w_window_def w_now_def realClock_Now_def case_prod_beta)
  show "w_window lo hi n (snd (Now ?S w))" if "w_window lo hi (Suc n) w" for lo hi n w
    using that real_clock.window_rest [of lo hi n "w_clock w"]
    by (simp add: w_window_def w_now_def realClock_Now_def case_prod_beta)
  show "\<exists>w'. conn_do ?S c args w = ((last rs, first_error rs), w') \<and> w_sess w' d' [] \<and>
      w_flag w' = state_update c (w_flag w) \<and> w_published w' = w_published w \<and> w_streamed w' = w_streamed w"
    if "w_sess w d ws" "c \<noteq> []" "exec_all redis_exec d (ws @ [c # map arg_text args]) = (rs, d')"
    for w d ws c args rs d'
    using w_do_sess [OF that] by simp
  show "w_sess w' d (ws @ [c # map arg_text args]) \<and> w_flag w' = state_update c (w_flag w) \<and>
      w_published w' = w_published w \<and> w_streamed w' = w_streamed w"
    if "w_sess w d ws" "snd (conn_send ?S c args w) = w'" for w d ws c args w'
    using w_send_sess [of w d ws c args w'] that by simp
  show "w_sess w' d ws \<and> w_flag w' = w_flag w \<and> w_published w' = w_published w \<and> w_streamed w' = w_streamed w"
    if "w_sess w d ws" "snd (Now ?S w) = w'" for w d ws w'
    using w_now_sess [of w d ws w'] that by simp
  show "w_sess (Redis_Get ?S w) d [] \<and> w_flag (Redis_Get ?S w) = 0 \<and>
      w_published (Redis_Get ?S w) = w_published w \<and> w_streamed (Redis_Get ?S w) = w_streamed w"
    if "w_free w d" for w d
    using w_get_sess(1) [OF that] by simp
qed (auto simp: stack_def w_close_free split: if_splits simp: w_sess_def w_flag_def)

end
