(* ===== verification/Presence_Spec.thy ===== *)
theory Presence_Spec
  imports Presence_Stack
begin

text \<open>
  What the presence service promises, and that the handlers keep it. The abstract state
  says which user owns each online device and which devices each user reported in each
  minute; \<open>SetStatus\<close> and \<open>GetDevices\<close> on the modelled stack refine the abstract update
  and query. The abstraction holds for stores that only contain what the service writes for
  device type \<open>WS\<close> and user ids that do not clash with device keys; such stores stay so.
\<close>

section \<open>The abstract service\<close>

record presence =
  owner :: "string \<rightharpoonup> string"
  seen :: "string \<Rightarrow> int \<Rightarrow> string set"

definition go_online :: "string \<Rightarrow> int \<Rightarrow> string \<Rightarrow> presence \<Rightarrow> presence" where
  "go_online u b i a =
     a\<lparr>owner := (owner a)(i \<mapsto> u), seen := (seen a)(u := (seen a u)(b := insert i (seen a u b)))\<rparr>"

definition go_offline :: "string \<Rightarrow> presence \<Rightarrow> presence" where
  "go_offline i a = a\<lparr>owner := (owner a)(i := None)\<rparr>"

definition set_status :: "int \<Rightarrow> Device \<Rightarrow> presence \<Rightarrow> presence" where
  "set_status b dev a =
     (if dev_Status dev = Device_ONLINE then go_online (dev_UserId dev) b (dev_Id dev) a
      else go_offline (dev_Id dev) a)"

text \<open>The devices reported by \<open>u\<close> in the last minutes that are still owned by someone.\<close>

definition recent :: "presence \<Rightarrow> string \<Rightarrow> int \<Rightarrow> Device set" where
  "recent a u b =
     {\<lparr>dev_Id = i, dev_Type = Device_WS, dev_UserId = v, dev_Status = Device_ONLINE\<rparr> | i v n.
        b - NumBuckets \<le> n \<and> n \<le> b \<and> i \<in> seen a u n \<and> owner a i = Some v}"

section \<open>Stores\<close>

definition ws_key :: "string \<Rightarrow> string" where
  "ws_key i = ''WS:'' @ i"

definition ok_user :: "string \<Rightarrow> bool" where
  "ok_user u \<longleftrightarrow> u \<noteq> [] \<and> u \<noteq> ''WS'' \<and> \<not> prefix ''WS:'' u"

text \<open>
  \<open>hold\<close> is how long an entry is kept, in milliseconds: the code passes the nanoseconds of
  one minute to a command that takes seconds. Until the horizon \<open>T\<close> nothing expires.
\<close>

definition hold :: int where
  "hold = BucketSize * 1000"

definition dev_entry :: "rvalue \<Rightarrow> bool" where
  "dev_entry v = (case v of VStr u \<Rightarrow> u \<noteq> [] \<and> length u < 2 ^ 63 | VSet _ \<Rightarrow> False)"

definition bucket_entry :: "rvalue \<Rightarrow> bool" where
  "bucket_entry v = (case v of VSet ks \<Rightarrow> \<forall>k \<in> set ks. (\<exists>i. k = ws_key i) \<and> length k < 2 ^ 63 | VStr _ \<Rightarrow> False)"

definition store_ok :: "int \<Rightarrow> db \<Rightarrow> bool" where
  "store_ok T d \<longleftrightarrow> T - hold \<le> clock_ms d \<and> clock_ms d < T \<and>
     (\<forall>k v t. kv d k = Some (v, Some t) \<longrightarrow> T \<le> t) \<and>
     (\<forall>i v t. kv d (ws_key i) = Some (v, t) \<longrightarrow> dev_entry v) \<and>
     (\<forall>u n v t. ok_user u \<longrightarrow> kv d (bucket_key u n) = Some (v, t) \<longrightarrow> bucket_entry v)"

definition abs_store :: "db \<Rightarrow> presence" where
  "abs_store d =
     \<lparr>owner = (\<lambda>i. case live d (ws_key i) of Some (VStr u) \<Rightarrow> Some u | _ \<Rightarrow> None),
      seen = (\<lambda>u n. if ok_user u then {i. ws_key i \<in> set (set_members d (bucket_key u n))} else {})\<rparr>"

text \<open>A request of a well-behaved client.\<close>

definition ok_device :: "Device \<Rightarrow> bool" where
  "ok_device dev \<longleftrightarrow> dev_Type dev = Device_WS \<and> dev_Id dev \<noteq> [] \<and> ok_user (dev_UserId dev) \<and>
     length (dev_Id dev) + 3 < 2 ^ 63 \<and> length (dev_UserId dev) < 2 ^ 63"

lemma makeKey_ws: "dev_Type dev = Device_WS \<Longrightarrow> makeKey dev = ws_key (dev_Id dev)"
  by (simp add: makeKey_def ws_key_def Device_WS_def Device_Type_String_def EnumName_def Device_Type_name_def)

lemma ws_key_inject [simp]: "ws_key i = ws_key j \<longleftrightarrow> i = j"
  by (simp add: ws_key_def)

lemma ws_key_bucket [simp]: "ok_user u \<Longrightarrow> ws_key i \<noteq> bucket_key u n" "ok_user u \<Longrightarrow> bucket_key u n \<noteq> ws_key i"
proof -
  assume u: "ok_user u"
  let ?d = "\<lparr>dev_Id = i, dev_Type = Device_WS, dev_UserId = [], dev_Status = 0\<rparr>"
  have "Device_Type_String Device_WS = ''WS''"
    by (simp add: Device_WS_def Device_Type_String_def EnumName_def Device_Type_name_def)
  with key_clash [of Device_WS u n] u have "makeKey ?d \<noteq> bucket_key u n"
    by (auto simp: ok_user_def)
  then show "ws_key i \<noteq> bucket_key u n" "bucket_key u n \<noteq> ws_key i"
    using makeKey_ws [of ?d] by auto
qed

lemma store_live: "store_ok T d \<Longrightarrow> live d k = map_option fst (kv d k)"
  by (force simp: store_ok_def live_def split: option.split)

section \<open>What the commands do to a store\<close>

definition online_db :: "string \<Rightarrow> Device \<Rightarrow> db \<Rightarrow> db" where
  "online_db bk dev d =
     (let d1 = snd (cmd_sadd d bk [makeKey dev]);
          d2 = snd (cmd_expire d1 bk (FormatInt BucketSize));
          d3 = snd (cmd_set d2 (makeKey dev) (dev_UserId dev))
      in snd (cmd_expire d3 (makeKey dev) (FormatInt (deviceTTL BucketSize NumBuckets))))"

text \<open>
  The transaction of \<open>SetStatus\<close>: whatever the single commands answer, the reply to
  \<open>EXEC\<close> is an array, so the client sees no error.
\<close>

lemma cmd_wf:
  "wf_reply (fst (cmd_sadd d k [m]))" "wf_reply (fst (cmd_expire d k n))" "wf_reply (fst (cmd_set d k v))"
  "wf_reply (fst (cmd_del d [k]))"
  by (auto simp: cmd_sadd_def cmd_expire_def cmd_set_def cmd_del_def wrongtype_def in_int64_def
      split: option.split rvalue.split prod.split)

definition queues :: "string list \<Rightarrow> bool" where
  "queues ws \<longleftrightarrow> ws \<noteq> [] \<and> known (ToUpper (hd ws) # tl ws) \<and> ToUpper (hd ws) = hd ws \<and>
     hd ws \<notin> {''MULTI'', ''EXEC'', ''DISCARD''}"

lemma redis_exec_queues:
  "queues ws \<Longrightarrow> redis_exec (d, Some (False, p)) ws = (RStr ''QUEUED'', d, Some (False, p @ [ws]))"
  by (cases ws) (auto simp: queues_def redis_exec_def answer_def)

lemma transaction_run:
  "\<forall>ws \<in> set q. queues ws \<Longrightarrow>
     exec_all redis_exec (d, Some (False, p)) (q @ [[''EXEC'']]) =
       (replicate (length q) (RStr ''QUEUED'') @ [answer (RArr (fst (exec_all run d (p @ q))))],
        snd (exec_all run d (p @ q)), None)"
proof (induction q arbitrary: p)
  case Nil
  then show ?case by (simp add: redis_exec_def case_prod_beta Let_def)
next
  case (Cons ws q)
  then show ?case by (simp add: redis_exec_queues)
qed

lemma online_run:
  obtains rs where "exec_all redis_exec (d, None) (online_cmds bk dev) = (rs, online_db bk dev d, None)"
    "first_error rs = None"
proof -
  define q where "q = [[''SADD'', bk, makeKey dev], [''EXPIRE'', bk, FormatInt BucketSize],
      [''SET'', makeKey dev, dev_UserId dev],
      [''EXPIRE'', makeKey dev, FormatInt (deviceTTL BucketSize NumBuckets)]]"
  have q: "snd (exec_all run d q) = online_db bk dev d" "\<forall>x \<in> set (fst (exec_all run d q)). wf_reply x"
    using cmd_wf by (simp_all add: q_def run_def online_db_def case_prod_beta Let_def)
  have "length (fst (exec_all run d q)) < 2 ^ 63" by (simp only: length_exec_all) (simp add: q_def)
  with q have wf: "answer (RArr (fst (exec_all run d q))) = RArr (fst (exec_all run d q))"
    by (simp add: answer_def)
  have "\<forall>ws \<in> set q. queues ws"
    by (simp add: q_def queues_def known_def)
  then have tx: "exec_all redis_exec (d, Some (False, [])) (q @ [[''EXEC'']]) =
      (replicate (length q) (RStr ''QUEUED'') @ [RArr (fst (exec_all run d q))], online_db bk dev d, None)"
    using transaction_run [of q d "[]"] q(1) wf by simp
  have "redis_exec (d, None) [''MULTI''] = (RStr ''OK'', d, Some (False, []))"
    by (simp add: redis_exec_def answer_def)
  with tx have "exec_all redis_exec (d, None) ([''MULTI''] # q @ [[''EXEC'']]) =
      (RStr ''OK'' # replicate (length q) (RStr ''QUEUED'') @ [RArr (fst (exec_all run d q))],
       online_db bk dev d, None)"
    by simp
  moreover have "online_cmds bk dev = [''MULTI''] # q @ [[''EXEC'']]"
    by (simp add: online_cmds_def q_def)
  moreover have "first_error (RStr ''OK'' # replicate (length q) (RStr ''QUEUED'') @ [RArr xs]) = None" for xs
    by (simp add: q_def)
  ultimately show ?thesis by (intro that) auto
qed

lemma offline_run:
  obtains n where "exec_all redis_exec (d, None) [[''DEL'', k]] = ([RInt n], snd (cmd_del d [k]), None)"
proof -
  obtain n where n: "fst (cmd_del d [k]) = RInt n" by (simp add: cmd_del_def)
  then have "answer (fst (cmd_del d [k])) = RInt n" using cmd_wf(4) [of d k] by (simp add: answer_def)
  then show ?thesis
    by (intro that [of n]) (simp add: redis_exec_def run_def case_prod_beta)
qed

lemma expire_live:
  "live d k = Some v \<Longrightarrow> in_int64 n \<Longrightarrow> 0 < n \<Longrightarrow>
     snd (cmd_expire d k (FormatInt n)) = d\<lparr>kv := (kv d)(k \<mapsto> (v, Some (clock_ms d + n * 1000)))\<rparr>"
  by (simp add: cmd_expire_def ParseInt_FormatInt)

definition add_member :: "string \<Rightarrow> string list \<Rightarrow> string list" where
  "add_member k xs = xs @ filter (\<lambda>m. m \<notin> set xs) [k]"

lemma set_add_member [simp]: "set (add_member k xs) = insert k (set xs)"
  by (auto simp: add_member_def)

lemma TTL_values: "BucketSize = 60000000000" "deviceTTL BucketSize NumBuckets = 300000000000"
  "deviceTTL 60000000000 NumBuckets = 300000000000"
  by (simp_all add: BucketSize_def Minute_def NumBuckets_def deviceTTL_def wrap64_def)

text \<open>
  Both keys carry the nanosecond counts of one and of five minutes as seconds: sixty
  thousand million seconds for the bucket, three hundred thousand million for the device.
\<close>

lemma online_kv:
  assumes "bk \<noteq> makeKey dev" and "live d bk = None \<and> xs = [] \<or> live d bk = Some (VSet xs)"
  shows "online_db bk dev d =
     d\<lparr>kv := (kv d)(bk \<mapsto> (VSet (add_member (makeKey dev) xs), Some (clock_ms d + BucketSize * 1000)),
                  makeKey dev \<mapsto> (VStr (dev_UserId dev), Some (clock_ms d + deviceTTL BucketSize NumBuckets * 1000)))\<rparr>"
proof -
  obtain t' where t': "snd (cmd_sadd d bk [makeKey dev]) =
      d\<lparr>kv := (kv d)(bk \<mapsto> (VSet (add_member (makeKey dev) xs), t'))\<rparr>"
    "live (d\<lparr>kv := (kv d)(bk \<mapsto> (VSet (add_member (makeKey dev) xs), t'))\<rparr>) bk =
      Some (VSet (add_member (makeKey dev) xs))"
  proof -
    define t' where "t' = (if live d bk = None then None else deadline d bk)"
    have "snd (cmd_sadd d bk [makeKey dev]) = d\<lparr>kv := (kv d)(bk \<mapsto> (VSet (add_member (makeKey dev) xs), t'))\<rparr>"
      using assms(2) by (auto simp: cmd_sadd_def add_member_def t'_def)
    moreover have "live (d\<lparr>kv := (kv d)(bk \<mapsto> (VSet (add_member (makeKey dev) xs), t'))\<rparr>) bk =
        Some (VSet (add_member (makeKey dev) xs))"
      using assms(2) by (auto simp: live_def t'_def deadline_def split: option.splits if_splits)
    ultimately show thesis using that by blast
  qed
  have 2: "snd (cmd_expire (snd (cmd_sadd d bk [makeKey dev])) bk (FormatInt BucketSize)) =
      d\<lparr>kv := (kv d)(bk \<mapsto> (VSet (add_member (makeKey dev) xs), Some (clock_ms d + BucketSize * 1000)))\<rparr>"
    using expire_live [OF t'(2), of BucketSize] by (simp add: t'(1) TTL_values in_int64_def)
  show ?thesis
    using assms(1) unfolding online_db_def Let_def 2 TTL_values(2)
    by (simp add: cmd_set_def expire_live live_def in_int64_def)
qed

section \<open>Stores stay well formed and the abstract state follows\<close>

lemma store_bucket:
  assumes "store_ok T d" and "ok_user u"
  obtains xs where "live d (bucket_key u n) = None \<and> xs = [] \<or> live d (bucket_key u n) = Some (VSet xs)"
    "set_members d (bucket_key u n) = xs" "\<forall>k \<in> set xs. (\<exists>i. k = ws_key i) \<and> length k < 2 ^ 63"
proof (cases "kv d (bucket_key u n)")
  case None
  with store_live [OF assms(1)] that [of "[]"] show ?thesis by simp
next
  case (Some vt)
  obtain v t where vt: "vt = (v, t)" by fastforce
  with Some assms have "bucket_entry v" unfolding store_ok_def by blast
  then obtain xs where "v = VSet xs" "\<forall>k \<in> set xs. (\<exists>i. k = ws_key i) \<and> length k < 2 ^ 63"
    by (auto simp: bucket_entry_def split: rvalue.splits)
  with that [of xs] Some vt store_live [OF assms(1)] show ?thesis by simp
qed

lemma store_device:
  assumes "store_ok T d"
  shows "live d (ws_key i) = map_option VStr (owner (abs_store d) i)"
    "owner (abs_store d) i = Some u \<Longrightarrow> u \<noteq> [] \<and> length u < 2 ^ 63"
proof -
  have "dev_entry v" if "kv d (ws_key i) = Some (v, t)" for v t
    using assms that unfolding store_ok_def by blast
  then show "live d (ws_key i) = map_option VStr (owner (abs_store d) i)"
    "owner (abs_store d) i = Some u \<Longrightarrow> u \<noteq> [] \<and> length u < 2 ^ 63"
    using store_live [OF assms, of "ws_key i"]
    by (auto simp: abs_store_def dev_entry_def split: option.splits rvalue.splits)
qed

lemma bucket_entry_add:
  "\<forall>k \<in> set xs. (\<exists>i. k = ws_key i) \<and> length k < 2 ^ 63 \<Longrightarrow> length i + 3 < 2 ^ 63 \<Longrightarrow>
     bucket_entry (VSet (add_member (ws_key i) xs))"
  by (auto simp: bucket_entry_def ws_key_def)

lemma online_store:
  fixes b :: int
  assumes ok: "store_ok T d" and dev: "ok_device dev"
  defines "d' \<equiv> online_db (bucket_key (dev_UserId dev) b) dev d"
  shows "store_ok T d'" "abs_store d' = go_online (dev_UserId dev) b (dev_Id dev) (abs_store d)"
proof -
  let ?u = "dev_UserId dev" and ?i = "dev_Id dev"
  let ?bk = "bucket_key ?u b"
  have u: "ok_user ?u" and key: "makeKey dev = ws_key ?i" and len: "length ?i + 3 < 2 ^ 63" "length ?u < 2 ^ 63"
    using dev makeKey_ws [of dev] by (simp_all add: ok_device_def)
  obtain xs where xs: "live d ?bk = None \<and> xs = [] \<or> live d ?bk = Some (VSet xs)"
    "set_members d ?bk = xs" "\<forall>k \<in> set xs. (\<exists>i. k = ws_key i) \<and> length k < 2 ^ 63"
    using store_bucket [OF ok u] .
  have ne: "?bk \<noteq> makeKey dev" using u key by simp
  have "d' = d\<lparr>kv := (kv d)(?bk \<mapsto> (VSet (add_member (ws_key ?i) xs), Some (clock_ms d + BucketSize * 1000)),
                  ws_key ?i \<mapsto> (VStr ?u, Some (clock_ms d + deviceTTL BucketSize NumBuckets * 1000)))\<rparr>"
    unfolding d'_def using online_kv [OF ne xs(1)] key by simp
  note d' = this [unfolded TTL_values(2), unfolded TTL_values(1)]
  have "?u \<noteq> []" using u by (simp add: ok_user_def)
  with ok u len bucket_entry_add [OF xs(3) len(1)] show ok': "store_ok T d'"
    unfolding store_ok_def d' by (auto simp: hold_def TTL_values(1) dev_entry_def)
  have live': "live d' k = (if k = ws_key ?i then Some (VStr ?u)
      else if k = ?bk then Some (VSet (add_member (ws_key ?i) xs)) else live d k)" for k
    unfolding store_live [OF ok'] store_live [OF ok] by (simp add: d')
  have "owner (abs_store d') = (owner (abs_store d))(?i \<mapsto> ?u)"
    using u by (auto simp: abs_store_def live')
  moreover have "seen (abs_store d') v n = (if v = ?u \<and> n = b then insert ?i (seen (abs_store d) v n) else seen (abs_store d) v n)"
    for v n
    using u xs(2) by (auto simp: abs_store_def live')
  ultimately show "abs_store d' = go_online ?u b ?i (abs_store d)"
    by (auto simp: go_online_def fun_eq_iff)
qed

lemma offline_store:
  fixes i :: string
  assumes ok: "store_ok T d"
  defines "d' \<equiv> snd (cmd_del d [ws_key i])"
  shows "store_ok T d'" "abs_store d' = go_offline i (abs_store d)"
proof -
  have d': "d' = d\<lparr>kv := (kv d)(ws_key i := None)\<rparr>" by (simp add: d'_def cmd_del_def fun_upd_def)
  show ok': "store_ok T d'" using ok unfolding store_ok_def d' by (auto split: if_splits)
  have live': "live d' k = (if k = ws_key i then None else live d k)" for k
    unfolding store_live [OF ok'] store_live [OF ok] by (simp add: d')
  show "abs_store d' = go_offline i (abs_store d)"
    by (auto simp: abs_store_def go_offline_def live' fun_eq_iff)
qed

text \<open>Time passing on the server changes nothing before the horizon.\<close>

definition elapse :: "int \<Rightarrow> db \<Rightarrow> db" where
  "elapse n d = d\<lparr>clock_ms := clock_ms d + n\<rparr>"

lemma elapse_store:
  assumes "store_ok T d" and "0 \<le> n" and "clock_ms d + n < T"
  shows "store_ok T (elapse n d)" "abs_store (elapse n d) = abs_store d"
proof -
  show ok': "store_ok T (elapse n d)" using assms by (auto simp: store_ok_def elapse_def)
  have "live (elapse n d) k = live d k" for k
    unfolding store_live [OF ok'] store_live [OF assms(1)] by (simp add: elapse_def)
  then show "abs_store (elapse n d) = abs_store d" by (simp add: abs_store_def fun_eq_iff)
qed

text \<open>
  The query: \<open>SUNION\<close> over the last buckets gives the keys of the devices seen, each once,
  and \<open>GET\<close> gives the owners.
\<close>

lemma store_get:
  assumes "store_ok T d"
  shows "redis_exec (d, None) [''GET'', ws_key i] =
     (case owner (abs_store d) i of Some v \<Rightarrow> RBulk v | None \<Rightarrow> RNil, d, None)"
proof (cases "owner (abs_store d) i")
  case None
  then show ?thesis
    using store_device(1) [OF assms, of i] by (simp add: redis_exec_def run_def cmd_get_def answer_def)
next
  case (Some u)
  then show ?thesis
    using store_device [OF assms, of i] by (simp add: redis_exec_def run_def cmd_get_def answer_def)
qed

lemma store_union_members:
  assumes "store_ok T d" and "ok_user u"
  shows "set (union_members d (last_buckets u b)) =
     ws_key ` (\<Union>n \<in> {b - NumBuckets..b}. seen (abs_store d) u n)"
    "\<forall>k \<in> set (union_members d (last_buckets u b)). length k < 2 ^ 63"
proof -
  have m: "set (set_members d (bucket_key u n)) = ws_key ` seen (abs_store d) u n \<and>
      (\<forall>k \<in> set (set_members d (bucket_key u n)). length k < 2 ^ 63)" for n
    using store_bucket [OF assms, of n] assms(2)
    by (auto simp: abs_store_def image_iff simp del: set_members.simps)
  have r: "{b - NumBuckets..b} = (\<lambda>i. b + i) ` {- NumBuckets..0}"
    by simp
  have un: "set (union_members d (last_buckets u b)) =
      (\<Union>n \<in> {b - NumBuckets..b}. set (set_members d (bucket_key u n)))"
    unfolding r by (simp add: union_members_def last_buckets_def image_image del: set_members.simps image_add_atLeastAtMost)
  show "set (union_members d (last_buckets u b)) =
     ws_key ` (\<Union>n \<in> {b - NumBuckets..b}. seen (abs_store d) u n)"
    "\<forall>k \<in> set (union_members d (last_buckets u b)). length k < 2 ^ 63"
    using m by (auto simp: un)
qed

lemma length_union_members:
  assumes "store_ok T d" and "ok_user u"
  shows "length (union_members d (last_buckets u b)) = card (\<Union>n \<in> {b - NumBuckets..b}. seen (abs_store d) u n)"
proof -
  have "length (union_members d (last_buckets u b)) = card (set (union_members d (last_buckets u b)))"
    unfolding union_members_def by (rule distinct_card [symmetric]) simp
  also have "\<dots> = card (\<Union>n \<in> {b - NumBuckets..b}. seen (abs_store d) u n)"
    unfolding store_union_members(1) [OF assms] by (rule card_image) (simp add: inj_on_def)
  finally show ?thesis .
qed

lemma store_union:
  assumes "store_ok T d" and "ok_user u" and "length (union_members d (last_buckets u b)) < 2 ^ 63"
  shows "redis_exec (d, None) (''SUNION'' # last_buckets u b) =
     (RArr (map RBulk (union_members d (last_buckets u b))), d, None)"
proof -
  have "\<not> is_string_key d k" if k: "k \<in> set (last_buckets u b)" for k
  proof -
    from k obtain n where n: "k = bucket_key u n" by (auto simp: last_buckets_def)
    obtain xs where "live d k = None \<or> live d k = Some (VSet xs)"
      using store_bucket [OF assms(1,2), of n] n by metis
    then show ?thesis by (auto simp: is_string_key_def)
  qed
  then have "\<not> list_ex (is_string_key d) (last_buckets u b)" by (auto simp: list_ex_iff)
  moreover have "last_buckets u b \<noteq> []" by (simp add: last_buckets_def NumBuckets_def)
  moreover have "answer (RArr (map RBulk (union_members d (last_buckets u b)))) =
      RArr (map RBulk (union_members d (last_buckets u b)))"
    using store_union_members(2) [OF assms(1,2)] assms(3) by (auto simp: answer_def)
  ultimately show ?thesis by (simp add: redis_exec_def run_def cmd_sunion_def)
qed

text \<open>Keys of devices always parse, so the listing is complete and has no error.\<close>

definition key_value :: "presence \<Rightarrow> string \<Rightarrow> string option" where
  "key_value a k = owner a (drop 3 k)"

lemma key_value_ws [simp]: "key_value a (ws_key i) = owner a i"
  by (simp add: key_value_def ws_key_def)

lemma parseDevice_ws:
  "parseDevice v (ws_key i) =
     Inr \<lparr>dev_Id = i, dev_Type = Device_WS, dev_UserId = v, dev_Status = Device_ONLINE\<rparr>"
proof -
  let ?d = "\<lparr>dev_Id = i, dev_Type = Device_WS, dev_UserId = [], dev_Status = 0\<rparr>"
  have "makeKey ?d = ws_key i" using makeKey_ws [of ?d] by simp
  then show ?thesis using parseDevice_key [of v ?d] by simp
qed

lemma listing_ws:
  assumes "\<forall>i u. owner a i = Some u \<longrightarrow> u \<noteq> []"
  shows "listing (key_value a) (map ws_key is) =
     (None, concat (map (\<lambda>i. case owner a i of None \<Rightarrow> []
        | Some v \<Rightarrow> [\<lparr>dev_Id = i, dev_Type = Device_WS, dev_UserId = v, dev_Status = Device_ONLINE\<rparr>]) is))"
  using assms by (induction "is") (auto simp: parseDevice_ws split: option.split)

section \<open>The handlers refine the abstract service\<close>

text \<open>The replies and the store after the commands of one status request.\<close>

lemma status_run:
  assumes "store_ok T d" and "ok_device dev"
  obtains rs d' where "exec_all redis_exec (d, None) (status_cmds (bucket_key (dev_UserId dev) b) dev) = (rs, d', None)"
    "first_error rs = None" "store_ok T d'" "abs_store d' = set_status b dev (abs_store d)"
proof (cases "dev_Status dev = Device_ONLINE")
  case True
  obtain rs where "exec_all redis_exec (d, None) (online_cmds (bucket_key (dev_UserId dev) b) dev) =
      (rs, online_db (bucket_key (dev_UserId dev) b) dev d, None)" "first_error rs = None"
    using online_run .
  with True online_store [OF assms, of b] show ?thesis
    by (intro that) (simp_all add: status_cmds_def set_status_def)
next
  case False
  obtain n where "exec_all redis_exec (d, None) [[''DEL'', makeKey dev]] =
      ([RInt n], snd (cmd_del d [makeKey dev]), None)"
    using offline_run .
  moreover have "makeKey dev = ws_key (dev_Id dev)"
    using assms(2) makeKey_ws by (simp add: ok_device_def)
  ultimately show ?thesis
    using False offline_store [OF assms(1), of "dev_Id dev"]
    by (intro that [of "[RInt n]" "snd (cmd_del d [makeKey dev])"])
       (simp_all add: status_cmds_def set_status_def)
qed

lemma SetStatus_store:
  assumes f: "w_free w (d, None)" and ok: "store_ok T d" and dev: "sr_Device r = Some dev" "ok_device dev"
    and win: "os_window (minute_start b) (minute_start (b + 1)) 2 (w_clock (w_get addr w))" "0 \<le> b"
    and M: "\<And>t. Marshal \<lparr>ev_Timestamp = t, ev_Device = Some dev\<rparr> = Inr (body t)"
  obtains w' d' t err m w0 where
    "SetStatus Marshal (stack addr sentinel pub strm) (Some r) w =
       Returns (case err of Some e \<Rightarrow> Inl e | None \<Rightarrow> Inr StatusReply, w')"
    "w_free w' (d', None)" "store_ok T d'" "abs_store d' = set_status b dev (abs_store d)"
    "w_streamed w' = w_streamed w" "minute_start b \<le> t" "t < minute_start (b + 1)"
    "err = snd (snd (pub m w0))"
    "err = None \<Longrightarrow> w_published w' = w_published w @
       [\<lparr>pm_Topic = streamTopic, pm_Key = dev_UserId dev, pm_Value = body (UnixNano t)\<rparr>]"
proof -
  obtain rs d' where rs: "exec_all redis_exec (d, None) (status_cmds (bucket_key (dev_UserId dev) b) dev) = (rs, d', None)"
    "first_error rs = None" "store_ok T d'" "abs_store d' = set_status b dev (abs_store d)"
    using status_run [OF ok dev(2)] .
  let ?S = "stack addr sentinel pub strm"
  have ne: "dev_Id dev \<noteq> []" "dev_UserId dev \<noteq> []" using dev(2) by (auto simp: ok_device_def ok_user_def)
  have win': "w_window (minute_start b) (minute_start (b + 1)) 2 (Redis_Get ?S w)"
    using win(1) by (simp add: w_window_def stack_def)
  have "no_tx (d', None)" by (simp add: no_tx_def)
  from stack.SetStatus_run [where Marshal = Marshal and body = body, OF f dev(1) ne win' win(2) rs(1) this M]
  obtain w' t err m w0 where
    "SetStatus Marshal ?S (Some r) w = Returns (case err of Some e \<Rightarrow> Inl e | None \<Rightarrow> Inr StatusReply, w')"
    "w_free w' (d', None)" "w_streamed w' = w_streamed w" "minute_start b \<le> t" "t < minute_start (b + 1)"
    "err = snd (snd (fst (SendMessage ?S m w0)))"
    "err = None \<Longrightarrow> w_published w' = w_published w @
       [\<lparr>pm_Topic = streamTopic, pm_Key = dev_UserId dev, pm_Value = body (UnixNano t)\<rparr>]"
    using rs(2) by (metis (no_types, lifting) option.case(1))
  with rs(3,4) show ?thesis
    by (intro that [of err w' d' t m w0]) (simp_all add: stack_def)
qed

lemma SetStatus_up:
  assumes f: "w_free w (d, None)" and ok: "store_ok T d" and dev: "sr_Device r = Some dev" "ok_device dev"
    and win: "os_window (minute_start b) (minute_start (b + 1)) 2 (w_clock (w_get addr w))" "0 \<le> b"
    and M: "\<And>t. Marshal \<lparr>ev_Timestamp = t, ev_Device = Some dev\<rparr> = Inr (body t)"
    and up: "\<And>m w. snd (snd (pub m w)) = None"
  shows "\<exists>w' d' t. SetStatus Marshal (stack addr sentinel pub strm) (Some r) w = Returns (Inr StatusReply, w') \<and>
    w_free w' (d', None) \<and> store_ok T d' \<and> abs_store d' = set_status b dev (abs_store d) \<and>
    minute_start b \<le> t \<and> t < minute_start (b + 1) \<and> w_streamed w' = w_streamed w \<and>
    w_published w' = w_published w @
      [\<lparr>pm_Topic = streamTopic, pm_Key = dev_UserId dev, pm_Value = body (UnixNano t)\<rparr>]"
proof (rule SetStatus_store [where Marshal = Marshal and body = body and sentinel = sentinel and pub = pub
      and strm = strm, OF f ok dev win M])
  fix w' d' t err m w0
  assume R: "SetStatus Marshal (stack addr sentinel pub strm) (Some r) w =
       Returns (case err of Some e \<Rightarrow> Inl e | None \<Rightarrow> Inr StatusReply, w')"
    "w_free w' (d', None)" "store_ok T d'" "abs_store d' = set_status b dev (abs_store d)"
    "w_streamed w' = w_streamed w" "minute_start b \<le> t" "t < minute_start (b + 1)"
    "err = snd (snd (pub m w0))"
    "err = None \<Longrightarrow> w_published w' = w_published w @
       [\<lparr>pm_Topic = streamTopic, pm_Key = dev_UserId dev, pm_Value = body (UnixNano t)\<rparr>]"
  then show ?thesis
    using up by (intro exI [of _ w'] exI [of _ d'] exI [of _ t]) simp
qed

lemma GetDevices_store:
  assumes f: "w_free w (d, None)" and ok: "store_ok T d" and u: "dr_UserId r = u" "ok_user u"
    and win: "os_window (minute_start b) (minute_start (b + 1)) 6 (w_clock (w_get addr w))" "NumBuckets \<le> b"
    and len: "length (union_members d (last_buckets u b)) < 2 ^ 63"
    and up: "\<And>dev w. strm dev w = None"
  shows "\<exists>w' ds. GetDevices (stack addr sentinel pub strm) (Some r) w = Returns (None, w') \<and>
    w_free w' (d, None) \<and> w_published w' = w_published w \<and> w_streamed w' = w_streamed w @ ds \<and>
    set ds = recent (abs_store d) u b \<and> distinct (map dev_Id ds)"
proof -
  let ?a = "abs_store d" and ?S = "stack addr sentinel pub strm"
  let ?ks = "union_members d (last_buckets u b)"
  let ?dev = "\<lambda>i v. \<lparr>dev_Id = i, dev_Type = Device_WS, dev_UserId = v, dev_Status = Device_ONLINE\<rparr>"
  define ids where "ids = map (drop 3) ?ks"
  note seen = store_union_members [OF ok u(2), of b]
  have ks: "?ks = map ws_key ids"
  proof -
    have "ws_key (drop 3 k) = k" if "k \<in> set ?ks" for k
      using that unfolding seen(1) by (auto simp: ws_key_def)
    then have "map (\<lambda>k. ws_key (drop 3 k)) ?ks = ?ks" by (rule map_idI)
    then show ?thesis by (simp add: ids_def comp_def)
  qed
  have "ws_key ` set ids = ws_key ` (\<Union>n \<in> {b - NumBuckets..b}. seen ?a u n)"
    using seen(1) by (simp add: ks)
  then have idset: "set ids = (\<Union>n \<in> {b - NumBuckets..b}. seen ?a u n)"
    by (subst (asm) inj_image_eq_iff) (simp_all add: inj_def)
  have "distinct (map ws_key ids)"
    unfolding ks [symmetric] by (simp add: union_members_def)
  then have dist: "distinct ids" by (simp add: distinct_map)
  have L: "listing (key_value ?a) ?ks = (None, concat (map (\<lambda>i. case owner ?a i of None \<Rightarrow> [] | Some v \<Rightarrow> [?dev i v]) ids))"
    unfolding ks using store_device(2) [OF ok] by (intro listing_ws) blast
  have get: "\<forall>k \<in> set ?ks. redis_exec (d, None) [''GET'', k] =
      (case key_value ?a k of Some v \<Rightarrow> RBulk v | None \<Rightarrow> RNil, d, None)"
    using store_get [OF ok] by (auto simp: ks)
  have win': "w_window (minute_start b) (minute_start (b + 1)) 6 (Redis_Get ?S w)"
    using win(1) by (simp add: w_window_def stack_def)
  have strm: "fst (stream_Send ?S dev w) = None" for dev w by (simp add: stack_def up)
  from stack.GetDevices_run [OF f u(1) _ win' win(2) store_union [OF ok u(2) len] get _ strm]
  obtain w' where w': "GetDevices ?S (Some r) w = Returns (None, w')" "w_free w' (d, None)"
    "w_published w' = w_published w" "w_streamed w' = w_streamed w @
      concat (map (\<lambda>i. case owner ?a i of None \<Rightarrow> [] | Some v \<Rightarrow> [?dev i v]) ids)"
    using u by (auto simp: L no_tx_def ok_user_def)
  have "map dev_Id (concat (map (\<lambda>i. case owner ?a i of None \<Rightarrow> [] | Some v \<Rightarrow> [?dev i v]) js)) =
      filter (\<lambda>i. owner ?a i \<noteq> None) js" for js
    by (induction js) (auto split: option.split)
  moreover have "set (concat (map (\<lambda>i. case owner ?a i of None \<Rightarrow> [] | Some v \<Rightarrow> [?dev i v]) ids)) = recent ?a u b"
    using idset by (auto simp: recent_def split: option.splits)
  ultimately show ?thesis using w' dist by auto
qed

section \<open>Requests outside the contract\<close>

text \<open>
  On any database at all, an online request that passes validation is answered with
  success: no reply of a single command can reach the handler.
\<close>

lemma SetStatus_online_any:
  assumes f: "w_free w (d, None)" and dev: "sr_Device r = Some dev" "dev_Id dev \<noteq> []" "dev_UserId dev \<noteq> []"
    "dev_Status dev = Device_ONLINE"
    and win: "os_window (minute_start b) (minute_start (b + 1)) 2 (w_clock (w_get addr w))" "0 \<le> b"
    and M: "\<And>t. Marshal \<lparr>ev_Timestamp = t, ev_Device = Some dev\<rparr> = Inr (body t)"
    and up: "\<And>m w. snd (snd (pub m w)) = None"
  shows "\<exists>w'. SetStatus Marshal (stack addr sentinel pub strm) (Some r) w = Returns (Inr StatusReply, w') \<and>
    w_free w' (online_db (bucket_key (dev_UserId dev) b) dev d, None)"
proof -
  let ?S = "stack addr sentinel pub strm"
  obtain rs where rs: "exec_all redis_exec (d, None) (online_cmds (bucket_key (dev_UserId dev) b) dev) =
      (rs, online_db (bucket_key (dev_UserId dev) b) dev d, None)" "first_error rs = None"
    using online_run .
  have rs': "exec_all redis_exec (d, None) (status_cmds (bucket_key (dev_UserId dev) b) dev) =
      (rs, online_db (bucket_key (dev_UserId dev) b) dev d, None)"
    using rs(1) dev(4) by (simp add: status_cmds_def)
  have win': "w_window (minute_start b) (minute_start (b + 1)) 2 (Redis_Get ?S w)"
    using win(1) by (simp add: w_window_def stack_def)
  have tx: "no_tx (online_db (bucket_key (dev_UserId dev) b) dev d, None)" by (simp add: no_tx_def)
  show ?thesis
  proof (rule stack.SetStatus_run [where Marshal = Marshal and body = body and addr = addr and sentinel = sentinel
        and pub = pub and strm = strm, OF f dev(1-3) win' win(2) rs' tx M])
    fix err w' t m w0
    assume "SetStatus Marshal ?S (Some r) w =
       Returns (case first_error rs of Some e \<Rightarrow> Inl e
                | None \<Rightarrow> (case err of Some e \<Rightarrow> Inl e | None \<Rightarrow> Inr StatusReply), w')"
      "w_free w' (online_db (bucket_key (dev_UserId dev) b) dev d, None)"
      "err = snd (snd (fst (SendMessage ?S m w0)))"
    then show ?thesis using rs(2) up by (auto simp: stack_def)
  qed
qed

text \<open>A bucket key that holds a string keeps it.\<close>

lemma online_db_string:
  assumes "live d bk = Some (VStr s)" and "makeKey dev \<noteq> bk"
  shows "live (online_db bk dev d) bk = Some (VStr s)"
proof -
  have 1: "snd (cmd_sadd d bk [makeKey dev]) = d" using assms(1) by (simp add: cmd_sadd_def)
  have 2: "snd (cmd_expire d bk (FormatInt BucketSize)) =
      d\<lparr>kv := (kv d)(bk \<mapsto> (VStr s, Some (clock_ms d + BucketSize * 1000)))\<rparr>"
    using assms(1) by (intro expire_live) (simp_all add: TTL_values in_int64_def)
  show ?thesis
    using assms(2) unfolding online_db_def Let_def 1 2 TTL_values(2)
    by (simp add: cmd_set_def expire_live live_def in_int64_def TTL_values(1) split: option.split)
qed

text \<open>A key of a foreign type in the listing stops it with an error.\<close>

lemma listing_bad_key:
  assumes "k \<in> set ks" and "val k = Some u" and "u \<noteq> []" and "\<And>v. parseDevice v k = Inl e"
    and "\<And>k' v. k' \<in> set ks \<Longrightarrow> k' \<noteq> k \<Longrightarrow> \<not> isl (parseDevice v k')"
  shows "fst (listing val ks) = Some (ErrorString (''parsing device: '' @ error_text e))"
  using assms(1,5)
proof (induction ks)
  case (Cons k' ks)
  show ?case
  proof (cases "k' = k")
    case True
    with assms show ?thesis by simp
  next
    case False
    with Cons have "fst (listing val ks) = Some (ErrorString (''parsing device: '' @ error_text e))" by auto
    moreover have "\<exists>dv. parseDevice v k' = Inr dv" for v
      using Cons.prems(2) [of k'] False by (metis isl_def list.set_intros(1) sum.exhaust_sel)
    ultimately show ?thesis by (auto split: option.split sum.split) (metis sum.distinct(1))
  qed
qed simp

text \<open>
  The store after an online request with a type number the protocol does not define: the
  user's listing now contains a key that does not parse.
\<close>

definition ok_foreign :: "Device \<Rightarrow> bool" where
  "ok_foreign dev \<longleftrightarrow> dev_Type dev \<noteq> Device_WS \<and> dev_Id dev \<noteq> [] \<and> dev_Status dev = Device_ONLINE \<and>
     ok_user (dev_UserId dev) \<and> length (dev_UserId dev) < 2 ^ 63 \<and> length (makeKey dev) < 2 ^ 63 \<and>
     dev_UserId dev \<noteq> Device_Type_String (dev_Type dev) \<and>
     \<not> prefix (Device_Type_String (dev_Type dev) @ '':'') (dev_UserId dev)"

lemma foreign_keys:
  assumes "ok_foreign dev"
  shows "makeKey dev \<noteq> bucket_key (dev_UserId dev) n" "makeKey dev \<noteq> ws_key i"
proof -
  show "makeKey dev \<noteq> bucket_key (dev_UserId dev) n"
    using key_clash [of "dev_Type dev" "dev_UserId dev" n] assms by (auto simp: ok_foreign_def)
  let ?d = "\<lparr>dev_Id = i, dev_Type = Device_WS, dev_UserId = [], dev_Status = 0\<rparr>"
  have "makeKey dev \<noteq> makeKey ?d" using assms by (auto simp: makeKey_eq_iff ok_foreign_def)
  then show "makeKey dev \<noteq> ws_key i" using makeKey_ws [of ?d] by simp
qed

lemma foreign_live:
  fixes b :: int
  assumes ok: "store_ok T d" and dev: "ok_foreign dev"
  defines "d' \<equiv> online_db (bucket_key (dev_UserId dev) b) dev d"
  shows "live d' (makeKey dev) = Some (VStr (dev_UserId dev))"
    "live d' (ws_key i) = live d (ws_key i)"
    "\<exists>xs. (live d' (bucket_key (dev_UserId dev) n) = None \<and> xs = [] \<or> live d' (bucket_key (dev_UserId dev) n) = Some (VSet xs)) \<and>
       set_members d' (bucket_key (dev_UserId dev) n) = xs \<and> (n = b \<longrightarrow> makeKey dev \<in> set xs) \<and>
       (\<forall>k \<in> set xs. k = makeKey dev \<or> (\<exists>i. k = ws_key i) \<and> length k < 2 ^ 63)"
proof -
  let ?u = "dev_UserId dev"
  let ?bk = "bucket_key ?u b"
  have u: "ok_user ?u" using dev by (simp add: ok_foreign_def)
  note keys = foreign_keys [OF dev]
  obtain xs where xs: "live d ?bk = None \<and> xs = [] \<or> live d ?bk = Some (VSet xs)"
    "set_members d ?bk = xs" "\<forall>k \<in> set xs. (\<exists>i. k = ws_key i) \<and> length k < 2 ^ 63"
    using store_bucket [OF ok u] .
  have d': "d' = d\<lparr>kv := (kv d)(?bk \<mapsto> (VSet (add_member (makeKey dev) xs), Some (clock_ms d + BucketSize * 1000)),
                  makeKey dev \<mapsto> (VStr ?u, Some (clock_ms d + deviceTTL BucketSize NumBuckets * 1000)))\<rparr>"
    unfolding d'_def using online_kv [OF keys(1) [symmetric] xs(1)] .
  have live': "live d' k = (if k = makeKey dev then Some (VStr ?u)
      else if k = ?bk then Some (VSet (add_member (makeKey dev) xs)) else live d k)" for k
    unfolding d' TTL_values(2) by (simp add: live_def TTL_values(1) split: option.split)
  show "live d' (makeKey dev) = Some (VStr ?u)" "live d' (ws_key i) = live d (ws_key i)"
    using keys(2) [of i, symmetric] u by (simp_all add: live')
  show "\<exists>xs. (live d' (bucket_key ?u n) = None \<and> xs = [] \<or> live d' (bucket_key ?u n) = Some (VSet xs)) \<and>
       set_members d' (bucket_key ?u n) = xs \<and> (n = b \<longrightarrow> makeKey dev \<in> set xs) \<and>
       (\<forall>k \<in> set xs. k = makeKey dev \<or> (\<exists>i. k = ws_key i) \<and> length k < 2 ^ 63)"
  proof (cases "n = b")
    case True
    with xs(3) keys(1) [of b] show ?thesis
      by (intro exI [of _ "add_member (makeKey dev) xs"]) (auto simp: live' dest: sym)
  next
    case False
    obtain ys where "live d (bucket_key ?u n) = None \<and> ys = [] \<or> live d (bucket_key ?u n) = Some (VSet ys)"
      "set_members d (bucket_key ?u n) = ys" "\<forall>k \<in> set ys. (\<exists>i. k = ws_key i) \<and> length k < 2 ^ 63"
      using store_bucket [OF ok u] .
    with False keys(1) [of n] show ?thesis by (intro exI [of _ ys]) (auto simp: live' dest: sym)
  qed
qed

lemma foreign_listing:
  fixes b :: int
  assumes ok: "store_ok T d" and dev: "ok_foreign dev"
  defines "d' \<equiv> online_db (bucket_key (dev_UserId dev) b) dev d"
  defines "ks \<equiv> union_members d' (last_buckets (dev_UserId dev) b)"
  defines "val \<equiv> (\<lambda>k. if k = makeKey dev then Some (dev_UserId dev) else key_value (abs_store d) k)"
  assumes len: "length ks < 2 ^ 63"
  shows "redis_exec (d', None) (''SUNION'' # last_buckets (dev_UserId dev) b) = (RArr (map RBulk ks), d', None)"
    "\<forall>k \<in> set ks. redis_exec (d', None) [''GET'', k] = (case val k of Some v \<Rightarrow> RBulk v | None \<Rightarrow> RNil, d', None)"
    "fst (listing val ks) = Some (ErrorString ''parsing device: invalid device type'')"
proof -
  let ?u = "dev_UserId dev"
  note L = foreign_live [OF ok dev, of b, folded d'_def]
  note F = dev [unfolded ok_foreign_def]
  have last: "\<exists>n. k = bucket_key ?u n" if "k \<in> set (last_buckets ?u b)" for k
    using that by (auto simp: last_buckets_def)
  have nostr: "\<not> is_string_key d' k" if k: "k \<in> set (last_buckets ?u b)" for k
  proof -
    obtain n xs where "k = bucket_key ?u n" "live d' k = None \<or> live d' k = Some (VSet xs)"
      using last [OF k] L(3) by metis
    then show ?thesis by (auto simp: is_string_key_def)
  qed
  have mem: "k = makeKey dev \<or> (\<exists>i. k = ws_key i) \<and> length k < 2 ^ 63" if k: "k \<in> set ks" for k
  proof -
    obtain n where "k \<in> set (set_members d' (bucket_key ?u n))"
      using k last by (auto simp: ks_def union_members_def simp del: set_members.simps)
    with L(3) [of n] show ?thesis by metis
  qed
  have "bucket_key ?u b \<in> set (last_buckets ?u b)" by (auto simp: last_buckets_def NumBuckets_def intro: rev_image_eqI [of 0])
  moreover have "makeKey dev \<in> set (set_members d' (bucket_key ?u b))" using L(3) [of b] by metis
  ultimately have key: "makeKey dev \<in> set ks"
    unfolding ks_def union_members_def set_remdups set_concat set_map by (intro UN_I imageI) auto
  have "\<forall>k \<in> set ks. length k < 2 ^ 63" using mem F by blast
  with len have "answer (RArr (map RBulk ks)) = RArr (map RBulk ks)" by (auto simp: answer_def)
  moreover have "\<not> list_ex (is_string_key d') (last_buckets ?u b)" using nostr by (auto simp: list_ex_iff)
  moreover have "last_buckets ?u b \<noteq> []" by (simp add: last_buckets_def NumBuckets_def)
  ultimately show "redis_exec (d', None) (''SUNION'' # last_buckets ?u b) = (RArr (map RBulk ks), d', None)"
    by (simp add: redis_exec_def run_def cmd_sunion_def ks_def)
  show "\<forall>k \<in> set ks. redis_exec (d', None) [''GET'', k] = (case val k of Some v \<Rightarrow> RBulk v | None \<Rightarrow> RNil, d', None)"
  proof
    fix k assume "k \<in> set ks"
    from mem [OF this] consider "k = makeKey dev" | i where "k = ws_key i" by blast
    then show "redis_exec (d', None) [''GET'', k] = (case val k of Some v \<Rightarrow> RBulk v | None \<Rightarrow> RNil, d', None)"
    proof cases
      case 1
      with L(1) F show ?thesis by (simp add: val_def redis_exec_def run_def cmd_get_def answer_def)
    next
      case 2
      then have "val k = owner (abs_store d) i" using foreign_keys(2) [OF dev, of i] by (simp add: val_def)
      with 2 L(2) [of i] store_device [OF ok, of i] show ?thesis
        by (cases "owner (abs_store d) i") (simp_all add: redis_exec_def run_def cmd_get_def answer_def)
    qed
  qed
  have "fst (listing val ks) = Some (ErrorString (''parsing device: '' @ error_text (ErrorString ''invalid device type'')))"
  proof (rule listing_bad_key [OF key])
    show "val (makeKey dev) = Some ?u" by (simp add: val_def)
    show "?u \<noteq> []" using F by (simp add: ok_user_def)
    show "parseDevice v (makeKey dev) = Inl (ErrorString ''invalid device type'')" for v
      using parseDevice_key [of v dev] F by simp
    show "\<not> isl (parseDevice v k')" if "k' \<in> set ks" "k' \<noteq> makeKey dev" for k' v
      using mem [OF that(1)] that(2) parseDevice_ws by auto
  qed
  then show "fst (listing val ks) = Some (ErrorString ''parsing device: invalid device type'')" by simp
qed

section \<open>Histories\<close>

text \<open>
  The states the service reaches on an initially empty database by serving requests of
  well-behaved clients, one after the other, with time passing in between: each status
  request is served within some minute \<open>b\<close>. The horizon \<open>T\<close> is \<open>hold\<close> milliseconds after
  the start, nineteen hundred years.
\<close>

definition nobody :: presence where
  "nobody = \<lparr>owner = Map.empty, seen = (\<lambda>_ _. {})\<rparr>"

inductive served ::
  "(Event \<Rightarrow> error + string) \<Rightarrow> string \<Rightarrow> string \<Rightarrow> producer \<Rightarrow> stream_out \<Rightarrow> int \<Rightarrow> world \<Rightarrow> presence \<Rightarrow> bool"
  for Marshal addr sentinel pub strm T where
  start: "served Marshal addr sentinel pub strm T (started \<lparr>kv = Map.empty, clock_ms = T - hold\<rparr> k) nobody"
| status: "served Marshal addr sentinel pub strm T w a \<Longrightarrow>
    sr_Device r = Some dev \<Longrightarrow> ok_device dev \<Longrightarrow> 0 \<le> b \<Longrightarrow>
    os_window (minute_start b) (minute_start (b + 1)) 2 (w_clock (w_get addr w)) \<Longrightarrow>
    SetStatus Marshal (stack addr sentinel pub strm) (Some r) w = Returns (res, w') \<Longrightarrow>
    served Marshal addr sentinel pub strm T w' (set_status b dev a)"
| query: "served Marshal addr sentinel pub strm T w a \<Longrightarrow>
    dr_UserId r = u \<Longrightarrow> ok_user u \<Longrightarrow> NumBuckets \<le> b \<Longrightarrow>
    os_window (minute_start b) (minute_start (b + 1)) 6 (w_clock (w_get addr w)) \<Longrightarrow>
    length (union_members (w_db w) (last_buckets u b)) < 2 ^ 63 \<Longrightarrow>
    GetDevices (stack addr sentinel pub strm) (Some r) w = Returns (res, w') \<Longrightarrow>
    served Marshal addr sentinel pub strm T w' a"
| wait: "served Marshal addr sentinel pub strm T w a \<Longrightarrow> 0 \<le> n \<Longrightarrow> clock_ms (w_db w) + n < T \<Longrightarrow>
    served Marshal addr sentinel pub strm T (w\<lparr>w_db := elapse n (w_db w), w_clock := k\<rparr>) a"

lemma started_ok: "w_free (started \<lparr>kv = Map.empty, clock_ms = T - hold\<rparr> k) (\<lparr>kv = Map.empty, clock_ms = T - hold\<rparr>, None)"
  "store_ok T \<lparr>kv = Map.empty, clock_ms = T - hold\<rparr>" "abs_store \<lparr>kv = Map.empty, clock_ms = T - hold\<rparr> = nobody"
  by (simp_all add: w_free_def started_def pool_ok_def main_pool_def NewPool_def store_ok_def hold_def
      TTL_values abs_store_def live_def nobody_def fun_eq_iff)

lemma w_free_db: "w_free w (d, None) \<Longrightarrow> w_db w = d"
  by (simp add: w_free_def)

lemma served_ok:
  assumes "served Marshal addr sentinel pub strm T w a"
    and M: "\<And>e. \<not> isl (Marshal e)" and up: "\<And>dev w. strm dev w = None"
  shows "w_free w (w_db w, None) \<and> store_ok T (w_db w) \<and> abs_store (w_db w) = a"
  using assms(1)
proof induction
  case (start k)
  show ?case using started_ok(1) [of T k] started_ok(2,3) [of T] by (simp add: started_def)
next
  case (status w a r dev b res w')
  have M': "Marshal \<lparr>ev_Timestamp = t, ev_Device = Some dev\<rparr> = Inr (projr (Marshal \<lparr>ev_Timestamp = t, ev_Device = Some dev\<rparr>))" for t
    using M by (simp add: sum.collapse)
  have I: "w_free w (w_db w, None)" "store_ok T (w_db w)" using status.IH by simp_all
  obtain w2 d2 err where "SetStatus Marshal (stack addr sentinel pub strm) (Some r) w =
      Returns (case err of Some e \<Rightarrow> Inl e | None \<Rightarrow> Inr StatusReply, w2)"
    "w_free w2 (d2, None)" "store_ok T d2" "abs_store d2 = set_status b dev (abs_store (w_db w))"
    using SetStatus_store [where Marshal = Marshal
        and body = "\<lambda>t. projr (Marshal \<lparr>ev_Timestamp = t, ev_Device = Some dev\<rparr>)",
        OF I status.hyps(2,3,5,4) M'] by metis
  with status.IH status.hyps(6) w_free_db [of w2 d2] show ?case by simp
next
  case (query w a r u b res w')
  have I: "w_free w (w_db w, None)" "store_ok T (w_db w)" using query.IH by simp_all
  obtain w2 where "GetDevices (stack addr sentinel pub strm) (Some r) w = Returns (None, w2)"
    "w_free w2 (w_db w, None)"
    using GetDevices_store [where strm = strm, OF I query.hyps(2,3,5,4,6) up] by metis
  with query.IH query.hyps(7) w_free_db [of w2 "w_db w"] show ?case by simp
next
  case (wait w a n k)
  with elapse_store [of T "w_db w" n] show ?case by (simp add: w_free_def)
qed

section \<open>Concrete data\<close>

text \<open>A quiet morning: the database is empty and the clock stands at the start of minute ten.\<close>

definition morning :: os_clock where
  "morning = \<lparr>readings = (\<lambda>_. minute_start 10), reads = 0\<rparr>"

definition fresh :: world where
  "fresh = started \<lparr>kv = Map.empty, clock_ms = 0\<rparr> morning"

definition phone :: Device where
  "phone = \<lparr>dev_Id = ''phone'', dev_Type = Device_WS, dev_UserId = ''ann'', dev_Status = Device_ONLINE\<rparr>"

lemma morning_window: "os_window (minute_start 10) (minute_start (10 + 1)) n morning"
  by (simp add: os_window_def morning_def minute_start_def Second_def)

lemma morning_get:
  "w_free w d \<Longrightarrow> readings (w_clock w) = readings morning \<Longrightarrow>
     os_window (minute_start 10) (minute_start (10 + 1)) n (w_clock (w_get addr w))"
  using w_get_sess(2) [of w d addr] by (simp add: os_window_def morning_def minute_start_def Second_def)

lemma fresh_ok: "w_free fresh (\<lparr>kv = Map.empty, clock_ms = 0\<rparr>, None)" "store_ok hold \<lparr>kv = Map.empty, clock_ms = 0\<rparr>"
  "abs_store \<lparr>kv = Map.empty, clock_ms = 0\<rparr> = nobody" "w_clock (w_get addr fresh) = morning"
  using started_ok(1) [of hold morning] started_ok(2,3) [of hold] by (simp_all add: fresh_def)

lemma phone_ok: "ok_device phone"
  by (simp add: phone_def ok_device_def ok_user_def)

lemma union_empty: "union_members \<lparr>kv = Map.empty, clock_ms = n\<rparr> ks = []"
  by (induction ks) (simp_all add: union_members_def live_def)

text \<open>Ann's phone reported by Bob, and a device of a type from a later protocol version.\<close>

definition phone_bob :: Device where
  "phone_bob = phone\<lparr>dev_UserId := ''bob''\<rparr>"

definition watch :: Device where
  "watch = \<lparr>dev_Id = ''watch'', dev_Type = 7, dev_UserId = ''ann'', dev_Status = Device_ONLINE\<rparr>"

lemma phone_bob_ok: "ok_device phone_bob"
  by (simp add: phone_bob_def phone_def ok_device_def ok_user_def)

lemma watch_ok: "ok_foreign watch"
proof -
  have "Device_Type_String 7 = ''7''" by (simp add: Device_Type_String_def EnumName_def Device_Type_name_def FormatInt_def digits.simps [of 7] digit_char_def) code_simp
  then show ?thesis
    by (simp add: watch_def ok_foreign_def ok_user_def Device_WS_def makeKey_def)
qed

end
