(* ===== verification/Sarama_Codec.thy ===== *)
theory Sarama_Codec
  imports Prelude "HOL-Library.AList"
begin

unbundle bit_operations_syntax

text \<open>
  The Kafka wire codec of \<open>sarama\<close>: \<open>encoder_decoder.go\<close>, \<open>prep_encoder.go\<close>,
  \<open>real_encoder.go\<close>, \<open>real_decoder.go\<close>, \<open>crc32_field.go\<close>, \<open>length_field.go\<close>.

  A message's \<open>encode\<close> method makes a sequence of calls on a \<open>packetEncoder\<close> and returns at
  the first call that fails; here it is that sequence of calls, a list of \<open>packetEncoder\<close> calls. \<open>encode\<close>
  runs it twice, on the encoder that only adds up lengths and on the one that fills a
  buffer of that length. A \<open>decode\<close> method is a function on the decoder's state that gives a
  result or an error; an index or slice error of the source is \<open>Panics\<close>.
\<close>

section \<open>Bytes\<close>

text \<open>Big-endian numbers of \<open>k\<close> bytes, and the signed number of \<open>w\<close> bits with given low bits.\<close>

fun be :: "nat \<Rightarrow> int \<Rightarrow> string" where
  "be 0 x = []"
| "be (Suc k) x = be k (x div 256) @ [char_of (nat (x mod 256))]"

definition of_be :: "string \<Rightarrow> int" where
  "of_be s = foldl (\<lambda>n c. n * 256 + int (of_char c)) 0 s"

definition swrap :: "nat \<Rightarrow> int \<Rightarrow> int" where
  "swrap w x = (x + 2 ^ (w - 1)) mod 2 ^ w - 2 ^ (w - 1)"

definition fits :: "nat \<Rightarrow> int \<Rightarrow> bool" where
  "fits w x \<longleftrightarrow> - (2 ^ (w - 1)) \<le> x \<and> x < 2 ^ (w - 1)"

lemma length_be [simp]: "length (be k x) = k"
  by (induction k x rule: be.induct) simp_all

lemma of_be_snoc: "of_be (s @ [c]) = of_be s * 256 + int (of_char c)"
  by (simp add: of_be_def)

lemma of_be_be: "of_be (be k x) = x mod 256 ^ k"
proof (induction k arbitrary: x)
  case 0
  then show ?case by (simp add: of_be_def)
next
  case (Suc k)
  have "int (of_char (char_of (nat (x mod 256)) :: char)) = x mod 256" by simp
  moreover have "x mod (256 * 256 ^ k) = 256 * (x div 256 mod 256 ^ k) + x mod 256"
    by (rule zmod_zmult2_eq) simp
  ultimately show ?case by (simp add: of_be_snoc Suc.IH)
qed

lemma swrap_fits: "fits w x \<Longrightarrow> 0 < w \<Longrightarrow> swrap w (x mod 2 ^ w) = x"
proof -
  assume x: "fits w x" and w: "0 < w"
  then obtain v where v: "w = Suc v" by (cases w) auto
  have "swrap w (x mod 2 ^ w) = (x + 2 ^ v) mod 2 ^ w - 2 ^ v"
    by (simp add: swrap_def v mod_add_left_eq)
  also have "(x + 2 ^ v) mod 2 ^ w = x + 2 ^ v"
    using x by (intro mod_pos_pos_trivial) (auto simp: fits_def v)
  finally show ?thesis by simp
qed

section \<open>Checksums\<close>

text \<open>\<open>crc32.ChecksumIEEE\<close>: the reflected polynomial, bit by bit.\<close>

definition crc_bit :: "32 word \<Rightarrow> 32 word" where
  "crc_bit c = (if bit c 0 then drop_bit 1 c XOR 0xEDB88320 else drop_bit 1 c)"

definition crc_byte :: "32 word \<Rightarrow> char \<Rightarrow> 32 word" where
  "crc_byte c b = (crc_bit ^^ 8) (c XOR of_nat (of_char b))"

definition ChecksumIEEE :: "string \<Rightarrow> int" where
  "ChecksumIEEE s = uint (NOT (foldl crc_byte (NOT 0) s))"

lemma ChecksumIEEE_range: "0 \<le> ChecksumIEEE s \<and> ChecksumIEEE s < 2 ^ 32"
  using uint_lt2p [of "NOT (foldl crc_byte (NOT 0) s)"] by (simp add: ChecksumIEEE_def)

section \<open>Errors\<close>

datatype kafka_error =
    PacketEncodingError string
  | PacketDecodingError string
  | ErrInsufficientData
  | CompressionError string
  | AddressError string

definition MaxRequestSize :: nat where
  "MaxRequestSize = 104857600"

definition MaxResponseSize :: int where
  "MaxResponseSize = 104857600"

definition MaxInt16 :: nat where "MaxInt16 = 32767"
definition MaxInt32 :: nat where "MaxInt32 = 2147483647"

section \<open>Encoding\<close>

text \<open>
  The calls on a \<open>packetEncoder\<close>; \<open>Fail\<close> is an \<open>encode\<close> method returning an error of its own,
  \<open>Crash\<close> a panic in it.
\<close>

datatype packetEncoder =
    PutInt8 int
  | PutInt16 int
  | PutInt32 int
  | PutInt64 int
  | PutArrayLength nat
  | PutBytes "string option"
  | PutRawBytes string
  | PutString string
  | PutInt32Array "int list"
  | PutInt64Array "int list"
  | PushLength
  | PushCRC
  | Pop
  | Fail kafka_error
  | Crash string

subsection \<open>prepEncoder\<close>

definition prep_putBytes :: "string option \<Rightarrow> nat \<Rightarrow> kafka_error + nat" where
  "prep_putBytes p n =
     (case p of
        None \<Rightarrow> Inr (n + 4)
      | Some s \<Rightarrow>
          if length s > MaxInt32 then Inl (PacketEncodingError (''Byteslice too long: '' @ digits (length s)))
          else Inr (n + 4 + length s))"

definition prep_putRawBytes :: "string \<Rightarrow> nat \<Rightarrow> kafka_error + nat" where
  "prep_putRawBytes s n =
     (if length s > MaxInt32 then Inl (PacketEncodingError (''Byteslice too long: '' @ digits (length s)))
      else Inr (n + length s))"

definition prep_putString :: "string \<Rightarrow> nat \<Rightarrow> kafka_error + nat" where
  "prep_putString s n =
     (if length s > MaxInt16 then Inl (PacketEncodingError (''String too long: '' @ digits (length s)))
      else Inr (n + 2 + length s))"

definition prep_putArrayLength :: "nat \<Rightarrow> nat \<Rightarrow> kafka_error + nat" where
  "prep_putArrayLength k n =
     (if k > MaxInt32 then Inl (PacketEncodingError (''Array too long: '' @ digits k)) else Inr (n + 4))"

definition prep_putInts :: "nat \<Rightarrow> int list \<Rightarrow> nat \<Rightarrow> kafka_error + nat" where
  "prep_putInts w xs n =
     (case prep_putArrayLength (length xs) n of Inl e \<Rightarrow> Inl e | Inr m \<Rightarrow> Inr (m + w * length xs))"

fun prep_put :: "packetEncoder \<Rightarrow> nat \<Rightarrow> (kafka_error + nat) outcome" where
  "prep_put (PutInt8 x) n = Returns (Inr (n + 1))"
| "prep_put (PutInt16 x) n = Returns (Inr (n + 2))"
| "prep_put (PutInt32 x) n = Returns (Inr (n + 4))"
| "prep_put (PutInt64 x) n = Returns (Inr (n + 8))"
| "prep_put (PutArrayLength k) n = Returns (prep_putArrayLength k n)"
| "prep_put (PutBytes p) n = Returns (prep_putBytes p n)"
| "prep_put (PutRawBytes s) n = Returns (prep_putRawBytes s n)"
| "prep_put (PutString s) n = Returns (prep_putString s n)"
| "prep_put (PutInt32Array xs) n = Returns (prep_putInts 4 xs n)"
| "prep_put (PutInt64Array xs) n = Returns (prep_putInts 8 xs n)"
| "prep_put PushLength n = Returns (Inr (n + 4))"
| "prep_put PushCRC n = Returns (Inr (n + 4))"
| "prep_put Pop n = Returns (Inr n)"
| "prep_put (Fail e) n = Returns (Inl e)"
| "prep_put (Crash m) n = Panics m"

fun prep_run :: "packetEncoder list \<Rightarrow> nat \<Rightarrow> (kafka_error + nat) outcome" where
  "prep_run [] n = Returns (Inr n)"
| "prep_run (p # ps) n =
     bind_outcome (prep_put p n) (\<lambda>r. case r of Inl e \<Rightarrow> Returns (Inl e) | Inr m \<Rightarrow> prep_run ps m)"

subsection \<open>realEncoder\<close>

datatype pushed = LengthField nat | CRC32Field nat

record realEncoder =
  re_raw :: string
  re_off :: nat
  re_stack :: "pushed list"

definition put_at :: "string \<Rightarrow> nat \<Rightarrow> string \<Rightarrow> string" where
  "put_at raw i s = take i raw @ s @ drop (i + length s) raw"

text \<open>
  A fixed-size number panics where the buffer is too short; \<open>copy\<close> stops at its end.
\<close>

definition re_int :: "nat \<Rightarrow> int \<Rightarrow> realEncoder \<Rightarrow> realEncoder outcome" where
  "re_int k x e =
     (if re_off e + k \<le> length (re_raw e)
      then Returns (e\<lparr>re_raw := put_at (re_raw e) (re_off e) (be k x), re_off := re_off e + k\<rparr>)
      else Panics ''runtime error: index out of range'')"

definition re_copy :: "string \<Rightarrow> realEncoder \<Rightarrow> realEncoder outcome" where
  "re_copy s e =
     (if re_off e \<le> length (re_raw e)
      then Returns (e\<lparr>re_raw := put_at (re_raw e) (re_off e) (take (length (re_raw e) - re_off e) s),
                      re_off := re_off e + length s\<rparr>)
      else Panics ''runtime error: slice bounds out of range'')"

fun re_ints :: "nat \<Rightarrow> int list \<Rightarrow> realEncoder \<Rightarrow> realEncoder outcome" where
  "re_ints k [] e = Returns e"
| "re_ints k (x # xs) e = bind_outcome (re_int k x e) (re_ints k xs)"

definition re_push :: "(nat \<Rightarrow> pushed) \<Rightarrow> realEncoder \<Rightarrow> realEncoder" where
  "re_push f e = e\<lparr>re_stack := f (re_off e) # re_stack e, re_off := re_off e + 4\<rparr>"

text \<open>\<open>run\<close> of the two fields: fill in the four bytes reserved at the saved offset.\<close>

fun field_run :: "pushed \<Rightarrow> nat \<Rightarrow> string \<Rightarrow> string outcome" where
  "field_run (LengthField s) cur raw =
     (if s + 4 \<le> length raw then Returns (put_at raw s (be 4 (int cur - int s - 4)))
      else Panics ''runtime error: index out of range'')"
| "field_run (CRC32Field s) cur raw =
     (if s + 4 \<le> cur \<and> cur \<le> length raw
      then Returns (put_at raw s (be 4 (ChecksumIEEE (drop (s + 4) (take cur raw)))))
      else Panics ''runtime error: slice bounds out of range'')"

definition re_pop :: "realEncoder \<Rightarrow> realEncoder outcome" where
  "re_pop e =
     (case re_stack e of
        [] \<Rightarrow> Panics ''runtime error: index out of range''
      | f # st \<Rightarrow> bind_outcome (field_run f (re_off e) (re_raw e)) (\<lambda>raw. Returns (e\<lparr>re_raw := raw, re_stack := st\<rparr>)))"

fun real_put :: "packetEncoder \<Rightarrow> realEncoder \<Rightarrow> (kafka_error + realEncoder) outcome" where
  "real_put (PutInt8 x) e = bind_outcome (re_int 1 x e) (\<lambda>e. Returns (Inr e))"
| "real_put (PutInt16 x) e = bind_outcome (re_int 2 x e) (\<lambda>e. Returns (Inr e))"
| "real_put (PutInt32 x) e = bind_outcome (re_int 4 x e) (\<lambda>e. Returns (Inr e))"
| "real_put (PutInt64 x) e = bind_outcome (re_int 8 x e) (\<lambda>e. Returns (Inr e))"
| "real_put (PutArrayLength k) e = bind_outcome (re_int 4 (int k) e) (\<lambda>e. Returns (Inr e))"
| "real_put (PutBytes None) e = bind_outcome (re_int 4 (-1) e) (\<lambda>e. Returns (Inr e))"
| "real_put (PutBytes (Some s)) e =
     bind_outcome (re_int 4 (int (length s)) e) (\<lambda>e. bind_outcome (re_copy s e) (\<lambda>e. Returns (Inr e)))"
| "real_put (PutRawBytes s) e = bind_outcome (re_copy s e) (\<lambda>e. Returns (Inr e))"
| "real_put (PutString s) e =
     bind_outcome (re_int 2 (int (length s)) e) (\<lambda>e. bind_outcome (re_copy s e) (\<lambda>e. Returns (Inr e)))"
| "real_put (PutInt32Array xs) e =
     bind_outcome (re_int 4 (int (length xs)) e) (\<lambda>e. bind_outcome (re_ints 4 xs e) (\<lambda>e. Returns (Inr e)))"
| "real_put (PutInt64Array xs) e =
     bind_outcome (re_int 4 (int (length xs)) e) (\<lambda>e. bind_outcome (re_ints 8 xs e) (\<lambda>e. Returns (Inr e)))"
| "real_put PushLength e = Returns (Inr (re_push LengthField e))"
| "real_put PushCRC e = Returns (Inr (re_push CRC32Field e))"
| "real_put Pop e = bind_outcome (re_pop e) (\<lambda>e. Returns (Inr e))"
| "real_put (Fail err) e = Returns (Inl err)"
| "real_put (Crash m) e = Panics m"

fun real_run :: "packetEncoder list \<Rightarrow> realEncoder \<Rightarrow> (kafka_error + realEncoder) outcome" where
  "real_run [] e = Returns (Inr e)"
| "real_run (p # ps) e =
     bind_outcome (real_put p e) (\<lambda>r. case r of Inl err \<Rightarrow> Returns (Inl err) | Inr e \<Rightarrow> real_run ps e)"

text \<open>
  \<open>encode\<close>: the calls of the first and of the second pass. They are the same up to the
  order in which the two passes iterate over maps.
\<close>

definition encode :: "packetEncoder list \<Rightarrow> packetEncoder list \<Rightarrow> (kafka_error + string) outcome" where
  "encode first second =
     bind_outcome (prep_run first 0) (\<lambda>r. case r of
        Inl e \<Rightarrow> Returns (Inl e)
      | Inr n \<Rightarrow>
          if n > MaxRequestSize then Returns (Inl (PacketEncodingError (''Invalid request size: '' @ digits n)))
          else bind_outcome (real_run second \<lparr>re_raw = replicate n (CHR 0x00), re_off = 0, re_stack = []\<rparr>)
                 (\<lambda>r. case r of Inl e \<Rightarrow> Returns (Inl e) | Inr e \<Rightarrow> Returns (Inr (re_raw e))))"

section \<open>What a sequence of calls writes\<close>

text \<open>
  \<open>writes ps bs\<close>: the first pass adds exactly the length of \<open>bs\<close>, and on any buffer with
  room for them the second pass puts exactly \<open>bs\<close> at the current offset and nothing else.
\<close>

definition writes :: "packetEncoder list \<Rightarrow> string \<Rightarrow> bool" where
  "writes ps bs \<longleftrightarrow> (\<forall>n. prep_run ps n = Returns (Inr (n + length bs))) \<and>
     (\<forall>e. re_off e + length bs \<le> length (re_raw e) \<longrightarrow>
        real_run ps e = Returns (Inr (e\<lparr>re_raw := put_at (re_raw e) (re_off e) bs, re_off := re_off e + length bs\<rparr>)))"

lemma put_at_length [simp]: "i + length s \<le> length raw \<Longrightarrow> length (put_at raw i s) = length raw"
  by (simp add: put_at_def)

lemma put_at_put_at [simp]:
  assumes "i + length s + length t \<le> length raw"
  shows "put_at (put_at raw i s) (i + length s) t = put_at raw i (s @ t)"
proof -
  have l: "length (take i raw) = i" using assms by simp
  have "take (i + length s) (take i raw @ s @ drop (i + length s) raw) = take i raw @ s"
    using l by simp
  moreover have "drop (i + length s + length t) (take i raw @ s @ drop (i + length s) raw) = drop (i + length s + length t) raw"
    using l by (simp add: add.commute)
  ultimately show ?thesis by (simp add: put_at_def add.assoc)
qed

lemma put_at_Nil [simp]: "put_at raw i [] = raw"
  by (simp add: put_at_def)

lemma prep_run_append:
  "prep_run (ps @ qs) n =
     bind_outcome (prep_run ps n) (\<lambda>r. case r of Inl e \<Rightarrow> Returns (Inl e) | Inr m \<Rightarrow> prep_run qs m)"
proof (induction ps arbitrary: n)
  case (Cons p ps)
  then show ?case by (cases "prep_put p n") (auto split: sum.split)
qed simp

lemma real_run_append:
  "real_run (ps @ qs) e =
     bind_outcome (real_run ps e) (\<lambda>r. case r of Inl err \<Rightarrow> Returns (Inl err) | Inr e \<Rightarrow> real_run qs e)"
proof (induction ps arbitrary: e)
  case (Cons p ps)
  then show ?case by (cases "real_put p e") (auto split: sum.split)
qed simp

lemma writes_Nil [simp]: "writes [] []"
  by (simp add: writes_def)

lemma writes_append:
  assumes "writes ps bs" and "writes qs cs"
  shows "writes (ps @ qs) (bs @ cs)"
  using assms by (auto simp: writes_def prep_run_append real_run_append)

lemma writes_Cons: "writes [p] bs \<Longrightarrow> writes qs cs \<Longrightarrow> writes (p # qs) (bs @ cs)"
  using writes_append [of "[p]"] by simp

lemma writes_concat:
  "(\<And>x. x \<in> set xs \<Longrightarrow> writes (f x) (g x)) \<Longrightarrow> writes (concat (map f xs)) (concat (map g xs))"
  by (induction xs) (simp_all add: writes_append)

text \<open>The same for the single steps of the second pass.\<close>

definition emits :: "(realEncoder \<Rightarrow> realEncoder outcome) \<Rightarrow> string \<Rightarrow> bool" where
  "emits f bs \<longleftrightarrow> (\<forall>e. re_off e + length bs \<le> length (re_raw e) \<longrightarrow>
     f e = Returns (e\<lparr>re_raw := put_at (re_raw e) (re_off e) bs, re_off := re_off e + length bs\<rparr>))"

lemma emits_bind: "emits f bs \<Longrightarrow> emits g cs \<Longrightarrow> emits (\<lambda>e. bind_outcome (f e) g) (bs @ cs)"
  by (auto simp: emits_def add.assoc [symmetric])

lemma emits_int: "emits (re_int k x) (be k x)"
  by (simp add: emits_def re_int_def)

lemma emits_copy: "emits (re_copy s) s"
  by (simp add: emits_def re_copy_def)

lemma emits_ints: "emits (re_ints k xs) (concat (map (be k) xs))"
proof (induction xs)
  case Nil
  then show ?case by (simp add: emits_def)
next
  case (Cons x xs)
  have "emits (\<lambda>e. bind_outcome (re_int k x e) (re_ints k xs)) (be k x @ concat (map (be k) xs))"
    by (rule emits_bind [OF emits_int Cons.IH])
  then show ?case by (simp add: emits_def)
qed

lemma writes_one:
  assumes "\<And>n. prep_put p n = Returns (Inr (n + length bs))" and "emits f bs"
    and "\<And>e. real_put p e = bind_outcome (f e) (\<lambda>e. Returns (Inr e))"
  shows "writes [p] bs"
  using assms by (simp add: writes_def emits_def)

lemma length_concat_be [simp]: "length (concat (map (be k) xs)) = k * length xs"
  by (induction xs) simp_all

lemma writes_put:
  "writes [PutInt8 x] (be 1 x)" "writes [PutInt16 x] (be 2 x)" "writes [PutInt32 x] (be 4 x)" "writes [PutInt64 x] (be 8 x)"
  by (rule writes_one [OF _ emits_int]; simp)+

lemma writes_ArrayLength: "n \<le> MaxInt32 \<Longrightarrow> writes [PutArrayLength n] (be 4 (int n))"
  by (rule writes_one [OF _ emits_int]) (simp_all add: prep_putArrayLength_def)

lemma bind_outcome_assoc: "bind_outcome (bind_outcome x f) g = bind_outcome x (\<lambda>y. bind_outcome (f y) g)"
  by (cases x) simp_all

definition bytes_of :: "string option \<Rightarrow> string" where
  "bytes_of p = (case p of None \<Rightarrow> be 4 (-1) | Some s \<Rightarrow> be 4 (int (length s)) @ s)"

lemma writes_Bytes:
  assumes "\<And>s. p = Some s \<Longrightarrow> length s \<le> MaxInt32"
  shows "writes [PutBytes p] (bytes_of p)"
proof (cases p)
  case None
  show ?thesis unfolding None bytes_of_def option.case
    by (rule writes_one [OF _ emits_int]) (simp_all add: prep_putBytes_def)
next
  case (Some s)
  show ?thesis unfolding Some bytes_of_def option.case
    by (rule writes_one [OF _ emits_bind [OF emits_int emits_copy]])
       (use assms Some in \<open>simp_all add: prep_putBytes_def bind_outcome_assoc\<close>)
qed

definition string_of :: "string \<Rightarrow> string" where
  "string_of s = be 2 (int (length s)) @ s"

lemma writes_String: "length s \<le> MaxInt16 \<Longrightarrow> writes [PutString s] (string_of s)"
  unfolding string_of_def
  by (rule writes_one [OF _ emits_bind [OF emits_int emits_copy]])
     (simp_all add: prep_putString_def bind_outcome_assoc)

definition ints_of :: "nat \<Rightarrow> int list \<Rightarrow> string" where
  "ints_of k xs = be 4 (int (length xs)) @ concat (map (be k) xs)"

lemma writes_Ints:
  "length xs \<le> MaxInt32 \<Longrightarrow> writes [PutInt32Array xs] (ints_of 4 xs)"
  "length xs \<le> MaxInt32 \<Longrightarrow> writes [PutInt64Array xs] (ints_of 8 xs)"
  unfolding ints_of_def
  by (rule writes_one [OF _ emits_bind [OF emits_int emits_ints]];
      simp add: prep_putInts_def prep_putArrayLength_def bind_outcome_assoc)+

text \<open>Fields that depend on what follows them.\<close>

lemma take_put_at: "i \<le> length raw \<Longrightarrow> take (i + length s) (put_at raw i s) = take i raw @ s"
  by (simp add: put_at_def)

lemma put_at_middle:
  assumes "i + 4 + length bs \<le> length raw" and "length h = 4"
  shows "put_at (put_at raw (i + 4) bs) i h = put_at raw i (h @ bs)"
proof -
  have l: "length (take (i + 4) raw) = i + 4" using assms(1) by simp
  then show ?thesis
    using assms by (simp add: put_at_def min_def add.assoc)
qed

lemma writes_field:
  assumes "writes ps bs" and "P \<in> {PushLength, PushCRC}"
  shows "writes (P # ps @ [Pop])
     ((if P = PushLength then be 4 (int (length bs)) else be 4 (ChecksumIEEE bs)) @ bs)"
proof -
  let ?h = "if P = PushLength then be 4 (int (length bs)) else be 4 (ChecksumIEEE bs)"
  let ?f = "if P = PushLength then LengthField else CRC32Field"
  have h: "length ?h = 4" by simp
  have prep: "prep_run (P # ps @ [Pop]) n = Returns (Inr (n + length (?h @ bs)))" for n
    using assms by (auto simp: writes_def prep_run_append)
  have real: "real_run (P # ps @ [Pop]) e =
      Returns (Inr (e\<lparr>re_raw := put_at (re_raw e) (re_off e) (?h @ bs), re_off := re_off e + length (?h @ bs)\<rparr>))"
    if room: "re_off e + length (?h @ bs) \<le> length (re_raw e)" for e
  proof -
    have room': "re_off e + 4 + length bs \<le> length (re_raw e)" using room h by (metis add.assoc length_append)
    let ?e1 = "re_push ?f e"
    let ?raw = "put_at (re_raw e) (re_off e + 4) bs"
    have push: "real_put P e = Returns (Inr ?e1)" using assms(2) by auto
    have body: "real_run ps ?e1 = Returns (Inr (?e1\<lparr>re_raw := ?raw, re_off := re_off e + 4 + length bs\<rparr>))"
      using assms(1) room' by (simp add: writes_def re_push_def)
    have "drop (re_off e + 4) (take (re_off e + 4 + length bs) ?raw) = bs"
      using take_put_at [of "re_off e + 4" "re_raw e" bs] room' by simp
    then have run: "field_run (?f (re_off e)) (re_off e + 4 + length bs) ?raw = Returns (put_at ?raw (re_off e) ?h)"
      using room' by simp
    show ?thesis
      using push body run put_at_middle [OF room' h]
      by (simp add: real_run_append re_pop_def re_push_def)
  qed
  show ?thesis unfolding writes_def using prep real by blast
qed

lemmas writes_length = writes_field [where P = PushLength, simplified]
lemmas writes_crc = writes_field [where P = PushCRC, simplified]

lemma encode_bytes:
  assumes "writes first as" and "writes second bs" and "length as = length bs"
  shows "encode first second =
     (if length bs > MaxRequestSize
      then Returns (Inl (PacketEncodingError (''Invalid request size: '' @ digits (length bs))))
      else Returns (Inr bs))"
  using assms by (simp add: encode_def writes_def put_at_def)

text \<open>
  The length pass and the writing pass agree. Whatever calls an \<open>encode\<close> method makes, if
  they write \<open>bs\<close> and the first pass saw the same number of bytes (in whatever order it
  visited the maps), then \<open>encode\<close> returns exactly \<open>bs\<close> up to the size limit and the size
  error beyond it, and never runs out of the buffer it allocated.
\<close>

theorem encode_writes:
  assumes "writes first as" and "writes second bs" and "length as = length bs"
  shows "encode first second =
     (if length bs > MaxRequestSize
      then Returns (Inl (PacketEncodingError (''Invalid request size: '' @ digits (length bs))))
      else Returns (Inr bs))"
  by (rule encode_bytes [OF assms])

lemma encode_writes_witness:
  "encode [PushLength, PutString ''ab'', Pop] [PushLength, PutString ''ab'', Pop] =
     Returns (Inr (be 4 (int (length (string_of ''ab''))) @ string_of ''ab''))"
proof -
  have "writes ([PushLength] @ [PutString ''ab''] @ [Pop]) (be 4 (int (length (string_of ''ab''))) @ string_of ''ab'')"
    using writes_length [OF writes_String, of "''ab''"] by (simp add: MaxInt16_def)
  from encode_writes [OF this this] show ?thesis by (simp add: MaxRequestSize_def string_of_def)
qed

end
