(* ===== verification/Sarama_Decoder.thy ===== *)
theory Sarama_Decoder
  imports Sarama_Codec "HOL-Library.Multiset"
begin

text \<open>
  The decoding half of sarama's Kafka codec (\<open>real_decoder.go\<close>, \<open>decode\<close> of
  \<open>encoder_decoder.go\<close>, \<open>check\<close> of \<open>crc32_field.go\<close> and \<open>length_field.go\<close>), and the
  contract \<open>kafka_codec\<close> between the encoder and the decoder of one kind of message.

  A \<open>decode\<close> method is a function from the decoder's state to an error or a value and the
  state after it. Where the source fills the fields of a struct one by one, the model returns
  the whole struct at the end; a struct that is left half filled by an error is not returned.
\<close>

section \<open>The decoder\<close>

text \<open>
  \<open>rd_spare\<close> holds the bytes between the length and the capacity of \<open>raw\<close>, which a slice
  expression can reach.
\<close>

record realDecoder =
  rd_raw :: string
  rd_off :: nat
  rd_stack :: "pushed list"
  rd_spare :: string

type_synonym 'a dec = "realDecoder \<Rightarrow> ((kafka_error + 'a) \<times> realDecoder) outcome"

definition dret :: "'a \<Rightarrow> 'a dec" where
  "dret x d = Returns (Inr x, d)"

definition dfail :: "kafka_error \<Rightarrow> 'a dec" where
  "dfail e d = Returns (Inl e, d)"

definition dbind :: "'a dec \<Rightarrow> ('a \<Rightarrow> 'b dec) \<Rightarrow> 'b dec" where
  "dbind p f d = bind_outcome (p d) (\<lambda>(r, d'). case r of Inl e \<Rightarrow> Returns (Inl e, d') | Inr x \<Rightarrow> f x d')"

text \<open>Giving up at the end of the input, as every reader does that finds too few bytes left.\<close>

definition dshort :: "'a dec" where
  "dshort d = Returns (Inl ErrInsufficientData, d\<lparr>rd_off := length (rd_raw d)\<rparr>)"

definition remaining :: "realDecoder \<Rightarrow> int" where
  "remaining d = int (length (rd_raw d)) - int (rd_off d)"

definition rd_bytes :: "nat \<Rightarrow> realDecoder \<Rightarrow> string" where
  "rd_bytes k d = take k (drop (rd_off d) (rd_raw d))"

definition rd_skip :: "nat \<Rightarrow> realDecoder \<Rightarrow> realDecoder" where
  "rd_skip k d = d\<lparr>rd_off := rd_off d + k\<rparr>"

text \<open>The unsigned big-endian number of \<open>k\<close> bytes at the offset, and the signed one.\<close>

definition getUint :: "nat \<Rightarrow> int dec" where
  "getUint k d = (if remaining d < int k then dshort d else dret (of_be (rd_bytes k d)) (rd_skip k d))"

definition getInt :: "nat \<Rightarrow> int dec" where
  "getInt k = dbind (getUint k) (\<lambda>u. dret (swrap (8 * k) u))"

definition getInt8 :: "int dec" where "getInt8 = getInt 1"
definition getInt16 :: "int dec" where "getInt16 = getInt 2"
definition getInt32 :: "int dec" where "getInt32 = getInt 4"
definition getInt64 :: "int dec" where "getInt64 = getInt 8"

definition MaxUint16 :: int where "MaxUint16 = 65535"

definition getArrayLength :: "nat dec" where
  "getArrayLength = dbind (getUint 4) (\<lambda>n d.
     if n > remaining d then dshort d
     else if n > 2 * MaxUint16 then dfail (PacketDecodingError ''getArrayLength failed: Invalid array length'') d
     else dret (nat n) d)"

definition getBytes :: "string option dec" where
  "getBytes = dbind getInt32 (\<lambda>n d.
     if n < -1 then dfail (PacketDecodingError ''getBytes failed: Invalid length'') d
     else if n = -1 then dret None d
     else if n = 0 then dret (Some []) d
     else if n > remaining d then dshort d
     else dret (Some (rd_bytes (nat n) d)) (rd_skip (nat n) d))"

definition getString :: "string dec" where
  "getString = dbind getInt16 (\<lambda>n d.
     if n < -1 then dfail (PacketDecodingError ''getString failed: invalid length'') d
     else if n = -1 then dret [] d
     else if n = 0 then dret [] d
     else if n > remaining d then dshort d
     else dret (rd_bytes (nat n) d) (rd_skip (nat n) d))"

text \<open>\<open>n\<close> runs of a decoder, as the loops over array elements make them.\<close>

fun dtimes :: "nat \<Rightarrow> 'a dec \<Rightarrow> 'a list dec" where
  "dtimes 0 p = dret []"
| "dtimes (Suc n) p = dbind p (\<lambda>x. dbind (dtimes n p) (\<lambda>xs. dret (x # xs)))"

text \<open>
  \<open>getInt32Array\<close> (\<open>k\<close> = 4) and \<open>getInt64Array\<close> (\<open>k\<close> = 8). The length is an unsigned 32-bit
  number in a 64-bit \<open>int\<close>, so it is not negative and its product with \<open>k\<close> does not wrap.
\<close>

definition getInts :: "nat \<Rightarrow> int list dec" where
  "getInts k = dbind (getUint 4) (\<lambda>n d. if remaining d < int k * n then dshort d else dtimes (nat n) (getInt k) d)"

definition getInt32Array :: "int list dec" where "getInt32Array = getInts 4"
definition getInt64Array :: "int list dec" where "getInt64Array = getInts 8"

definition getSubset :: "int \<Rightarrow> realDecoder dec" where
  "getSubset len d =
     (if len > remaining d then dshort d
      else if len < 0 then Panics ''runtime error: slice bounds out of range''
      else dret \<lparr>rd_raw = rd_bytes (nat len) d, rd_off = 0, rd_stack = [],
                   rd_spare = drop (rd_off d + nat len) (rd_raw d) @ rd_spare d\<rparr> (rd_skip (nat len) d))"

definition rd_push :: "(nat \<Rightarrow> pushed) \<Rightarrow> unit dec" where
  "rd_push f d =
     (if remaining d < 4 then dshort d
      else dret () (rd_skip 4 (d\<lparr>rd_stack := f (rd_off d) # rd_stack d\<rparr>)))"

text \<open>\<open>check\<close>: the number at the saved offset against what lies between it and the current one.\<close>

fun field_check :: "pushed \<Rightarrow> nat \<Rightarrow> string \<Rightarrow> kafka_error option outcome" where
  "field_check (LengthField s) cur raw =
     (if length raw < s + 4 then Panics ''runtime error: index out of range''
      else Returns (if (int cur - int s - 4) mod 2 ^ 32 \<noteq> of_be (take 4 (drop s raw))
                    then Some (PacketDecodingError ''Lengthfield check failed'') else None))"
| "field_check (CRC32Field s) cur raw =
     (if \<not> (s + 4 \<le> cur \<and> cur \<le> length raw) then Panics ''runtime error: slice bounds out of range''
      else Returns (if ChecksumIEEE (drop (s + 4) (take cur raw)) \<noteq> of_be (take 4 (drop s raw))
                    then Some (PacketDecodingError ''CRC didn't match'') else None))"

definition rd_pop :: "unit dec" where
  "rd_pop d =
     (case rd_stack d of
        [] \<Rightarrow> Panics ''runtime error: index out of range''
      | f # st \<Rightarrow> bind_outcome (field_check f (rd_off d) (rd_raw d)) (\<lambda>e. let d' = d\<lparr>rd_stack := st\<rparr> in
          (case e of None \<Rightarrow> dret () d' | Some e \<Rightarrow> dfail e d')))"

text \<open>
  \<open>decode\<close> of \<open>encoder_decoder.go\<close>; a nil buffer leaves the target (\<open>zero\<close>) as it was. The
  buffers it is called on are allocated at their size, with no spare capacity.
\<close>

definition new_decoder :: "string \<Rightarrow> string \<Rightarrow> realDecoder" where
  "new_decoder raw spare = \<lparr>rd_raw = raw, rd_off = 0, rd_stack = [], rd_spare = spare\<rparr>"

definition decode :: "'a \<Rightarrow> 'a dec \<Rightarrow> string option \<Rightarrow> (kafka_error + 'a) outcome" where
  "decode zero p buf =
     (case buf of
        None \<Rightarrow> Returns (Inr zero)
      | Some raw \<Rightarrow> bind_outcome (p (new_decoder raw [])) (\<lambda>(r, d).
          case r of Inl e \<Rightarrow> Returns (Inl e)
          | Inr x \<Rightarrow> if rd_off d \<noteq> length raw then Returns (Inl (PacketDecodingError ''Length was invalid''))
                     else Returns (Inr x)))"

section \<open>What a decoder reads\<close>

text \<open>
  \<open>parses p bs x\<close>: wherever \<open>bs\<close> stands in the input, \<open>p\<close> at its start gives \<open>x\<close>, stops right
  behind it and leaves the stack of open fields alone.
\<close>

definition rd_at :: "string \<Rightarrow> string \<Rightarrow> pushed list \<times> string \<Rightarrow> realDecoder" where
  "rd_at pre post st = \<lparr>rd_raw = pre @ post, rd_off = length pre, rd_stack = fst st, rd_spare = snd st\<rparr>"

lemma new_decoder_at: "new_decoder raw spare = rd_at [] raw ([], spare)"
  by (simp add: new_decoder_def rd_at_def)

definition parses :: "'a dec \<Rightarrow> string \<Rightarrow> 'a \<Rightarrow> bool" where
  "parses p bs x \<longleftrightarrow> (\<forall>pre post st. p (rd_at pre (bs @ post) st) = Returns (Inr x, rd_at (pre @ bs) post st))"

lemma remaining_at [simp]: "remaining (rd_at pre post st) = int (length post)"
  by (simp add: remaining_def rd_at_def)

lemma rd_bytes_at [simp]: "rd_bytes k (rd_at pre post st) = take k post"
  by (simp add: rd_bytes_def rd_at_def)

lemma rd_skip_at: "k \<le> length post \<Longrightarrow> rd_skip k (rd_at pre post st) = rd_at (pre @ take k post) (drop k post) st"
  by (simp add: rd_skip_def rd_at_def)

lemma rd_skip_append: "rd_skip (length s) (rd_at pre (s @ post) st) = rd_at (pre @ s) post st"
  by (simp add: rd_skip_at)

lemma dbind_dret [simp]: "dbind (dret x) f = f x"
  by (rule ext) (simp add: dbind_def dret_def)

lemma dbind_assoc: "dbind (dbind p f) g = dbind p (\<lambda>x. dbind (f x) g)"
proof
  fix d
  show "dbind (dbind p f) g d = dbind p (\<lambda>x. dbind (f x) g) d"
    by (cases "p d") (auto simp: dbind_def split: sum.split)
qed

lemma reads_dret: "parses (dret x) [] x"
  by (simp add: parses_def dret_def)

lemma reads_dbind: "parses p bs x \<Longrightarrow> parses (f x) cs y \<Longrightarrow> parses (dbind p f) (bs @ cs) y"
  by (simp add: parses_def dbind_def)

lemma reads_map: "parses p bs x \<Longrightarrow> parses (dbind p (\<lambda>x. dret (f x))) bs (f x)"
  by (simp add: parses_def dbind_def dret_def)

lemma reads_Uint:
  assumes "length bs = k"
  shows "parses (getUint k) bs (of_be bs)"
  using assms rd_skip_append [of bs] by (simp add: parses_def getUint_def dret_def)

lemma reads_Int:
  assumes "fits (8 * k) x" and "0 < k"
  shows "parses (getInt k) (be k x) x"
proof -
  have "(256 :: int) ^ k = 2 ^ (8 * k)" by (simp add: power_mult)
  then have "swrap (8 * k) (of_be (be k x)) = x" using swrap_fits assms by (simp add: of_be_be)
  with reads_map [OF reads_Uint [OF length_be]] show ?thesis by (metis getInt_def)
qed

lemma reads_Ints:
  "fits 8 x \<Longrightarrow> parses getInt8 (be 1 x) x" "fits 16 x \<Longrightarrow> parses getInt16 (be 2 x) x"
  "fits 32 x \<Longrightarrow> parses getInt32 (be 4 x) x" "fits 64 x \<Longrightarrow> parses getInt64 (be 8 x) x"
  using reads_Int [of 1 x] reads_Int [of 2 x] reads_Int [of 4 x] reads_Int [of 8 x]
  by (simp_all add: getInt8_def getInt16_def getInt32_def getInt64_def)

lemma reads_dtimes:
  "(\<And>x. x \<in> set xs \<Longrightarrow> parses p (f x) x) \<Longrightarrow> parses (dtimes (length xs) p) (concat (map f xs)) xs"
proof (induction xs)
  case (Cons x xs)
  then have "parses (dbind (dtimes (length xs) p) (\<lambda>xs. dret (x # xs))) (concat (map f xs)) (x # xs)"
    by (intro reads_map) simp
  then show ?case unfolding list.size dtimes.simps list.map concat.simps add_Suc_right add_0_right
    by (intro reads_dbind [where x = x]) (simp_all add: Cons.prems)
qed (simp add: reads_dret)

text \<open>A count read first, then what depends on it and on the bytes that are left.\<close>

lemma reads_count:
  assumes "parses p bs n" and "\<And>pre post st. f n (rd_at pre (cs @ post) st) = g (rd_at pre (cs @ post) st)" and "parses g cs y"
  shows "parses (dbind p f) (bs @ cs) y"
  using assms by (simp add: parses_def dbind_def)

lemma reads_count4:
  assumes "int n < 2 ^ 32" and "\<And>pre post st. f (int n) (rd_at pre (cs @ post) st) = g (rd_at pre (cs @ post) st)" and "parses g cs y"
  shows "parses (dbind (getUint 4) f) (be 4 (int n) @ cs) y"
proof -
  have "parses (getUint 4) (be 4 (int n)) (of_be (be 4 (int n)))" by (rule reads_Uint) simp
  with assms(1) have "parses (getUint 4) (be 4 (int n)) (int n)" by (simp add: of_be_be)
  from reads_count [where f = f and g = g, OF this assms(2) assms(3)] show ?thesis .
qed

definition getArray :: "'a dec \<Rightarrow> 'a list dec" where
  "getArray p = dbind getArrayLength (\<lambda>n. dtimes n p)"

definition MaxArray :: nat where "MaxArray = 131070"

lemma reads_Array:
  assumes p: "\<And>x. x \<in> set xs \<Longrightarrow> parses p (f x) x" and ne: "\<And>x. x \<in> set xs \<Longrightarrow> f x \<noteq> []" and len: "length xs \<le> MaxArray"
  shows "parses (getArray p) (be 4 (int (length xs)) @ concat (map f xs)) xs"
proof -
  have "length xs \<le> length (concat (map f xs))"
    using ne
  proof (induction xs)
    case (Cons x xs)
    have "length (f x) > 0" using Cons.prems [of x] by simp
    moreover have "length xs \<le> length (concat (map f xs))" using Cons by simp
    ultimately have "length (x # xs) \<le> length (f x) + length (concat (map f xs))"
      unfolding list.size by linarith
    then show ?case by simp
  qed simp
  then have "dbind (\<lambda>d. if int (length xs) > remaining d then dshort d
      else if int (length xs) > 2 * MaxUint16 then dfail (PacketDecodingError ''getArrayLength failed: Invalid array length'') d
      else dret (nat (int (length xs))) d) (\<lambda>n. dtimes n p) (rd_at pre (concat (map f xs) @ post) st)
      = dtimes (length xs) p (rd_at pre (concat (map f xs) @ post) st)" for pre post st
    using len by (simp add: dbind_def dret_def MaxArray_def MaxUint16_def)
  then show ?thesis
    unfolding getArray_def getArrayLength_def dbind_assoc
    by (intro reads_count4 [OF _ _ reads_dtimes [OF p]]) (use len in \<open>simp_all add: MaxArray_def\<close>)
qed

lemma reads_IntArray:
  assumes "\<And>x. x \<in> set xs \<Longrightarrow> fits (8 * k) x" and "0 < k" and "length xs \<le> MaxInt32"
  shows "parses (getInts k) (ints_of k xs) xs"
proof -
  have r: "parses (dtimes (length xs) (getInt k)) (concat (map (be k) xs)) xs"
    using assms reads_Int by (intro reads_dtimes) blast
  show ?thesis unfolding getInts_def ints_of_def
    by (rule reads_count4 [OF _ _ r]) (use assms(3) in \<open>simp_all add: MaxInt32_def\<close>)
qed

lemma reads_Bytes:
  assumes "\<And>s. p = Some s \<Longrightarrow> length s \<le> MaxInt32"
  shows "parses getBytes (bytes_of p) p"
proof (cases p)
  case None
  have "parses getInt32 (be 4 (-1)) (-1)" by (rule reads_Ints) (simp add: fits_def)
  then have "parses getBytes (be 4 (-1) @ []) None"
    unfolding getBytes_def by (rule reads_count [OF _ _ reads_dret]) simp
  then show ?thesis by (simp add: None bytes_of_def)
next
  case (Some s)
  with assms have "parses getInt32 (be 4 (int (length s))) (int (length s))"
    by (intro reads_Ints) (simp add: fits_def MaxInt32_def)
  moreover have "parses (\<lambda>d. dret (Some s) (rd_skip (length s) d)) s (Some s)"
    by (simp add: parses_def dret_def rd_skip_append)
  ultimately show ?thesis
    unfolding Some getBytes_def bytes_of_def option.case
    by (intro reads_count [where n = "int (length s)" and g = "\<lambda>d. dret (Some s) (rd_skip (length s) d)"])
       (auto simp: dret_def rd_skip_append)
qed

lemma reads_String:
  assumes "length s \<le> MaxInt16"
  shows "parses getString (string_of s) s"
proof -
  from assms have "parses getInt16 (be 2 (int (length s))) (int (length s))"
    by (intro reads_Ints) (simp add: fits_def MaxInt16_def)
  moreover have "parses (\<lambda>d. dret s (rd_skip (length s) d)) s s"
    by (simp add: parses_def dret_def rd_skip_append)
  ultimately show ?thesis
    unfolding getString_def string_of_def
    by (intro reads_count [where n = "int (length s)" and g = "\<lambda>d. dret s (rd_skip (length s) d)"])
       (auto simp: dret_def rd_skip_append)
qed


text \<open>Fields over what they enclose: the value pushed and popped around a decoder.\<close>

definition in_field :: "(nat \<Rightarrow> pushed) \<Rightarrow> 'a dec \<Rightarrow> 'a dec" where
  "in_field f p = dbind (rd_push f) (\<lambda>_. dbind p (\<lambda>x. dbind rd_pop (\<lambda>_. dret x)))"

lemma rd_push_at:
  "length h = 4 \<Longrightarrow> rd_push f (rd_at pre (h @ post) st) = Returns (Inr (), rd_at (pre @ h) post (f (length pre) # fst st, snd st))"
  by (simp add: rd_push_def dret_def rd_skip_def rd_at_def remaining_def)

lemma rd_pop_at:
  assumes "length h = 4" and "of_be h = (if P = PushLength then int (length bs) else ChecksumIEEE bs)" and "length bs < 2 ^ 32"
  shows "rd_pop (rd_at (pre @ h @ bs) post ((if P = PushLength then LengthField else CRC32Field) (length pre) # fst st, snd st))
    = Returns (Inr (), rd_at (pre @ h @ bs) post st)"
  using assms by (simp add: rd_pop_def rd_at_def dret_def Let_def)

lemma reads_field:
  assumes "parses p bs x" and "length bs < 2 ^ 32"
  shows "parses (in_field (if P = PushLength then LengthField else CRC32Field) p)
     ((if P = PushLength then be 4 (int (length bs)) else be 4 (ChecksumIEEE bs)) @ bs) x"
proof -
  let ?h = "if P = PushLength then be 4 (int (length bs)) else be 4 (ChecksumIEEE bs)"
  have h: "length ?h = 4" by simp
  have v: "of_be ?h = (if P = PushLength then int (length bs) else ChecksumIEEE bs)"
    using assms(2) ChecksumIEEE_range [of bs] by (simp add: of_be_be)
  show ?thesis
    unfolding parses_def in_field_def dbind_def
    using assms(1) by (simp add: rd_push_at [OF h] rd_pop_at [OF h v assms(2)] parses_def dret_def)
qed

lemmas reads_length = reads_field [where P = PushLength, simplified]
lemmas reads_crc = reads_field [where P = PushCRC, simplified]

section \<open>No decoder panics\<close>

text \<open>
  A decoder's state is well formed when its offset is within the buffer and every open field
  lies before it. A safe decoder returns from every such state: it does not panic, it does not
  move backwards, and where it succeeds the fields that were open still are.
\<close>

fun field_start :: "pushed \<Rightarrow> nat" where
  "field_start (LengthField s) = s"
| "field_start (CRC32Field s) = s"

definition wf_dec :: "realDecoder \<Rightarrow> bool" where
  "wf_dec d \<longleftrightarrow> rd_off d \<le> length (rd_raw d) \<and> list_all (\<lambda>f. field_start f + 4 \<le> rd_off d) (rd_stack d)"

definition later :: "realDecoder \<Rightarrow> realDecoder \<Rightarrow> bool" where
  "later d d' \<longleftrightarrow> wf_dec d' \<and> rd_raw d' = rd_raw d \<and> rd_off d \<le> rd_off d'"

definition safe :: "'a dec \<Rightarrow> bool" where
  "safe p \<longleftrightarrow> (\<forall>d. wf_dec d \<longrightarrow> (\<exists>r d'. p d = Returns (r, d') \<and> later d d' \<and>
     (\<forall>x. r = Inr x \<longrightarrow> (\<exists>ext. rd_stack d' = ext @ rd_stack d))))"

lemma safeD:
  assumes "safe p" and "wf_dec d"
  obtains (fail) e d' where "p d = Returns (Inl e, d')" and "later d d'"
  | (ok) x d' ext where "p d = Returns (Inr x, d')" and "later d d'" and "rd_stack d' = ext @ rd_stack d"
  using assms by (metis safe_def sum.exhaust)

lemma later_trans: "later d d' \<Longrightarrow> later d' d'' \<Longrightarrow> later d d''"
  by (simp add: later_def)

lemma later_wf: "later d d' \<Longrightarrow> wf_dec d'"
  by (simp add: later_def)

lemma safe_dret [intro]: "safe (dret x)"
  by (simp add: safe_def dret_def later_def)

lemma safe_dfail [intro]: "safe (dfail e)"
  by (simp add: safe_def dfail_def later_def)

lemma later_short: "wf_dec d \<Longrightarrow> later d (d\<lparr>rd_off := length (rd_raw d)\<rparr>)"
  by (auto simp: later_def wf_dec_def list_all_iff)

lemma later_skip: "wf_dec d \<Longrightarrow> int k \<le> remaining d \<Longrightarrow> later d (rd_skip k d)"
  by (auto simp: later_def wf_dec_def list_all_iff rd_skip_def remaining_def)

lemma safe_dshort [intro]: "safe dshort"
  using later_short by (simp add: safe_def dshort_def)

lemma safe_dbind [intro]:
  assumes p: "safe p" and f: "\<And>x. safe (f x)"
  shows "safe (dbind p f)"
  unfolding safe_def
proof (intro allI impI)
  fix d assume wf: "wf_dec d"
  from p wf show "\<exists>r d'. dbind p f d = Returns (r, d') \<and> later d d' \<and> (\<forall>x. r = Inr x \<longrightarrow> (\<exists>ext. rd_stack d' = ext @ rd_stack d))"
  proof (cases rule: safeD)
    case (fail e d')
    then show ?thesis by (simp add: dbind_def)
  next
    case p_ok: (ok x d' ext)
    then have step: "dbind p f d = f x d'" by (simp add: dbind_def)
    from f [of x] later_wf [OF p_ok(2)] show ?thesis
    proof (cases rule: safeD)
      case (fail e d'')
      then show ?thesis using later_trans [OF p_ok(2)] by (simp add: step)
    next
      case (ok y d'' ext')
      then show ?thesis using later_trans [OF p_ok(2)] p_ok(3) by (simp add: step)
    qed
  qed
qed

lemma safe_if_state:
  assumes "\<And>d. wf_dec d \<Longrightarrow> b d \<Longrightarrow> \<exists>q. safe q \<and> p d = q d" and "\<And>d. wf_dec d \<Longrightarrow> \<not> b d \<Longrightarrow> \<exists>q. safe q \<and> p d = q d"
  shows "safe p"
proof -
  have "\<exists>q. safe q \<and> p d = q d" if "wf_dec d" for d using assms that by (cases "b d") auto
  then show ?thesis by (metis safe_def)
qed

lemma safe_skip:
  assumes "wf_dec d" and "int k \<le> remaining d"
  shows "\<exists>q. safe q \<and> dret x (rd_skip k d) = q d"
proof -
  let ?q = "\<lambda>e. if e = d then dret x (rd_skip k d) else dret x e"
  have "safe ?q" using later_skip [OF assms] by (auto simp: safe_def dret_def later_def rd_skip_def)
  then show ?thesis by (intro exI [of _ ?q]) simp
qed

lemma safe_Uint [intro]: "safe (getUint k)"
  by (rule safe_if_state [where b = "\<lambda>d. remaining d < int k"]) (auto simp: getUint_def intro: safe_skip)

lemma safe_Ints [intro]: "safe (getInt k)" "safe getInt8" "safe getInt16" "safe getInt32" "safe getInt64"
  by (auto simp: getInt_def getInt8_def getInt16_def getInt32_def getInt64_def)

lemma safe_ArrayLength [intro]: "safe getArrayLength"
  unfolding getArrayLength_def
  by (rule safe_dbind [OF safe_Uint], rule safe_if_state [where b = "\<lambda>d. _ > remaining d"]) auto

lemma safe_dtimes [intro]: "safe p \<Longrightarrow> safe (dtimes n p)"
  by (induction n) auto

lemma safe_Array [intro]: "safe p \<Longrightarrow> safe (getArray p)"
  by (auto simp: getArray_def)

lemma safe_IntArray [intro]: "safe (getInts k)"
  unfolding getInts_def
  by (rule safe_dbind [OF safe_Uint], rule safe_if_state [where b = "\<lambda>d. remaining d < _"]) auto

lemma safe_Bytes [intro]: "safe getBytes"
  unfolding getBytes_def
  by (rule safe_dbind [OF safe_Ints(4)], rule safe_if_state [where b = "\<lambda>d. _ > remaining d"]) (auto intro: safe_skip)

lemma safe_String [intro]: "safe getString"
  unfolding getString_def
  by (rule safe_dbind [OF safe_Ints(3)], rule safe_if_state [where b = "\<lambda>d. _ > remaining d"]) (auto intro: safe_skip)


lemma safe_push: "safe (rd_push f)" if "\<And>n. field_start (f n) = n"
proof -
  have "later d (rd_skip 4 (d\<lparr>rd_stack := f (rd_off d) # rd_stack d\<rparr>))" if "wf_dec d" "\<not> remaining d < 4" for d
    using that \<open>\<And>n. field_start (f n) = n\<close>
    by (auto simp: later_def wf_dec_def rd_skip_def remaining_def list_all_iff)
  then show ?thesis using later_short
    by (auto simp: safe_def rd_push_def dret_def dshort_def rd_skip_def)
qed

lemma rd_pop_returns:
  assumes "wf_dec d" and "rd_stack d = f # st"
  shows "\<exists>r. rd_pop d = Returns (r, d\<lparr>rd_stack := st\<rparr>) \<and> later d (d\<lparr>rd_stack := st\<rparr>)"
  using assms
  by (cases f) (auto simp: rd_pop_def wf_dec_def later_def dret_def dfail_def Let_def split: option.split)

lemma safe_in_field:
  assumes f: "\<And>n. field_start (f n) = n" and p: "safe p"
  shows "safe (in_field f p)"
  unfolding safe_def in_field_def
proof (intro allI impI)
  fix d assume wf: "wf_dec d"
  let ?run = "dbind (rd_push f) (\<lambda>_. dbind p (\<lambda>x. dbind rd_pop (\<lambda>_. dret x)))"
  show "\<exists>r d'. ?run d = Returns (r, d') \<and> later d d' \<and> (\<forall>x. r = Inr x \<longrightarrow> (\<exists>ext. rd_stack d' = ext @ rd_stack d))"
  proof (cases "remaining d < 4")
    case True
    with wf later_short show ?thesis by (simp add: rd_push_def dshort_def dbind_def)
  next
    case False
    define d1 where "d1 = rd_skip 4 (d\<lparr>rd_stack := f (rd_off d) # rd_stack d\<rparr>)"
    have push: "rd_push f d = Returns (Inr (), d1)" using False by (simp add: rd_push_def dret_def d1_def)
    have d1: "later d d1" using wf False f
      by (auto simp: d1_def later_def wf_dec_def rd_skip_def remaining_def list_all_iff)
    have st1: "rd_stack d1 = f (rd_off d) # rd_stack d" by (simp add: d1_def rd_skip_def)
    from p later_wf [OF d1] show ?thesis
    proof (cases rule: safeD)
      case (fail e d')
      then show ?thesis using later_trans [OF d1] push by (simp add: dbind_def)
    next
      case (ok x d' ext)
      then obtain g st where st: "rd_stack d' = g # st" and ext: "\<exists>ext. st = ext @ rd_stack d"
        using st1 by (cases ext) auto
      from rd_pop_returns [OF later_wf [OF ok(2)] st]
      obtain r where "rd_pop d' = Returns (r, d'\<lparr>rd_stack := st\<rparr>)" and l: "later d' (d'\<lparr>rd_stack := st\<rparr>)" by blast
      moreover have "later d (d'\<lparr>rd_stack := st\<rparr>)" using d1 ok(2) l later_trans by blast
      ultimately show ?thesis using ok(1) push ext
        by (cases r) (simp_all add: dbind_def dret_def)
    qed
  qed
qed

lemma decode_returns: "safe p \<Longrightarrow> \<exists>r. decode z p buf = Returns r"
proof (cases buf)
  case (Some raw)
  assume "safe p"
  moreover have "wf_dec (new_decoder raw [])" by (simp add: wf_dec_def new_decoder_def)
  ultimately show ?thesis
    by (cases rule: safeD) (auto simp: decode_def Some)
qed (simp add: decode_def)

section \<open>Maps\<close>

text \<open>
  A Go map is the list of its entries, one for each key, in the order in which it is iterated;
  setting a key replaces its entry. The map that a decoder fills starts empty.
\<close>

definition go_map :: "('k \<times> 'v) list \<Rightarrow> ('k \<times> 'v) list" where
  "go_map xs = foldl (\<lambda>m (k, v). AList.update k v m) [] xs"

lemma update_new: "k \<notin> fst ` set m \<Longrightarrow> AList.update k v m = m @ [(k, v)]"
  by (induction m) auto

lemma go_map_distinct:
  assumes "distinct (map fst xs)"
  shows "go_map xs = xs"
proof -
  have "foldl (\<lambda>m (k, v). AList.update k v m) m xs = m @ xs" if "distinct (map fst (m @ xs))" for m
    using that
  proof (induction xs arbitrary: m)
    case (Cons x xs)
    obtain k v where x: "x = (k, v)" by (cases x)
    then have "AList.update k v m = m @ [(k, v)]" using Cons.prems by (intro update_new) auto
    then show ?case using Cons.IH [of "m @ [(k, v)]"] Cons.prems by (simp add: x)
  qed simp
  from this [of "[]"] assms show ?thesis by (simp add: go_map_def)
qed

text \<open>The same map, its values related by \<open>R\<close>, in another order.\<close>

definition same_map :: "('v \<Rightarrow> 'w \<Rightarrow> bool) \<Rightarrow> ('k \<times> 'v) list \<Rightarrow> ('k \<times> 'w) list \<Rightarrow> bool" where
  "same_map R xs ys \<longleftrightarrow> distinct (map fst xs) \<and> distinct (map fst ys) \<and> length xs = length ys \<and>
     list_all (\<lambda>(k, v). case map_of ys k of None \<Rightarrow> False | Some w \<Rightarrow> R v w) xs"

lemma sum_list_keys:
  "distinct (map fst xs) \<Longrightarrow> sum_list (map (\<lambda>(k, v). g k v) xs) = (\<Sum>k\<in>fst ` set xs. g k (the (map_of xs k)))"
  for g :: "'k \<Rightarrow> 'v \<Rightarrow> nat"
proof -
  assume d: "distinct (map fst xs)"
  have "map (\<lambda>(k, v). g k v) xs = map (\<lambda>k. g k (the (map_of xs k))) (map fst xs)"
    using d by (auto simp: map_of_eq_Some_iff)
  also have "sum_list \<dots> = (\<Sum>k\<in>set (map fst xs). g k (the (map_of xs k)))"
    by (rule sum_list_distinct_conv_sum_set [OF d])
  finally show ?thesis by simp
qed

lemma same_map_sum:
  fixes g :: "'k \<Rightarrow> 'v \<Rightarrow> nat"
  assumes "same_map R xs ys" and "\<And>k v w. R v w \<Longrightarrow> g k v = h k w"
  shows "sum_list (map (\<lambda>(k, v). g k v) xs) = sum_list (map (\<lambda>(k, w). h k w) ys)"
proof -
  have d: "distinct (map fst xs)" "distinct (map fst ys)" and l: "length xs = length ys"
    and r: "\<And>k v. (k, v) \<in> set xs \<Longrightarrow> \<exists>w. map_of ys k = Some w \<and> R v w"
    using assms(1) by (fastforce simp: same_map_def list_all_iff split: option.splits)+
  have sub: "fst ` set xs \<subseteq> fst ` set ys"
    using r by (force dest: map_of_SomeD)
  have "card (fst ` set xs) = card (fst ` set ys)"
    using d l by (metis distinct_card length_map list.set_map)
  with sub have keys: "fst ` set xs = fst ` set ys" by (simp add: card_subset_eq)
  have "g k (the (map_of xs k)) = h k (the (map_of ys k))" if "k \<in> fst ` set xs" for k
    using that r assms(2) d(1) by (auto simp: map_of_eq_Some_iff) (metis d(1) map_of_is_SomeI option.sel)
  then show ?thesis
    using d keys by (simp add: sum_list_keys)
qed

section \<open>The contract of a codec\<close>

text \<open>
  What the \<open>encode\<close> and \<open>decode\<close> methods of one type promise each other: for every value that
  fits the format (\<open>ok\<close>), the one writes the bytes that the other reads back. \<open>same\<close> relates
  the two orders in which the passes of \<open>encode\<close> may iterate over the value's maps.
\<close>

locale kafka_codec =
  fixes enc :: "'a \<Rightarrow> packetEncoder list" and dec :: "'a dec" and bytes :: "'a \<Rightarrow> string"
    and ok :: "'a \<Rightarrow> bool" and same :: "'a \<Rightarrow> 'a \<Rightarrow> bool"
  assumes enc_writes: "ok x \<Longrightarrow> writes (enc x) (bytes x)"
    and dec_reads: "ok x \<Longrightarrow> parses dec (bytes x) x"
    and same_length: "same x y \<Longrightarrow> length (bytes x) = length (bytes y)"
begin

lemma encode_ok:
  assumes "ok x" and "ok y" and "same x y" and "length (bytes y) \<le> MaxRequestSize"
  shows "encode (enc x) (enc y) = Returns (Inr (bytes y))"
  using encode_bytes [OF enc_writes [OF assms(1)] enc_writes [OF assms(2)] same_length [OF assms(3)]] assms(4) by simp

lemma decode_ok: "ok x \<Longrightarrow> decode z dec (Some (bytes x)) = Returns (Inr x)"
  using dec_reads [of x] unfolding parses_def
  by (auto dest!: spec [of _ "[]"] simp: decode_def new_decoder_at) (simp add: rd_at_def)

lemma round_trip:
  assumes "ok x" and "ok y" and "same x y" and "length (bytes y) \<le> MaxRequestSize"
  shows "\<exists>bs. encode (enc x) (enc y) = Returns (Inr bs) \<and> decode z dec (Some bs) = Returns (Inr y)"
  using encode_ok [OF assms] decode_ok [OF assms(2)] by blast

end

text \<open>An array of elements, each at least one byte long.\<close>

definition put_array :: "('a \<Rightarrow> packetEncoder list) \<Rightarrow> 'a list \<Rightarrow> packetEncoder list" where
  "put_array enc xs = PutArrayLength (length xs) # concat (map enc xs)"

definition array_bytes :: "('a \<Rightarrow> string) \<Rightarrow> 'a list \<Rightarrow> string" where
  "array_bytes bytes xs = be 4 (int (length xs)) @ concat (map bytes xs)"

definition array_ok :: "('a \<Rightarrow> bool) \<Rightarrow> 'a list \<Rightarrow> bool" where
  "array_ok ok xs \<longleftrightarrow> length xs \<le> MaxArray \<and> list_all ok xs"

lemma array_okD: "array_ok ok xs \<Longrightarrow> x \<in> set xs \<Longrightarrow> ok x"
  by (simp add: array_ok_def list_all_iff)

lemma writes_array:
  assumes "\<And>x. x \<in> set xs \<Longrightarrow> writes (enc x) (bytes x)" and "length xs \<le> MaxInt32"
  shows "writes (put_array enc xs) (array_bytes bytes xs)"
  unfolding put_array_def array_bytes_def
  by (rule writes_Cons [OF writes_ArrayLength [OF assms(2)] writes_concat [OF assms(1)]])

lemma MaxArray_MaxInt32: "n \<le> MaxArray \<Longrightarrow> n \<le> MaxInt32"
  by (simp add: MaxArray_def MaxInt32_def)

locale kafka_element = kafka_codec enc dec bytes ok "(=)"
  for enc :: "'a \<Rightarrow> packetEncoder list" and dec :: "'a dec" and bytes :: "'a \<Rightarrow> string" and ok :: "'a \<Rightarrow> bool" +
  assumes bytes_nonempty: "ok x \<Longrightarrow> bytes x \<noteq> []"
begin

lemma array_writes: "array_ok ok xs \<Longrightarrow> writes (put_array enc xs) (array_bytes bytes xs)"
  using enc_writes by (intro writes_array) (auto simp: array_ok_def list_all_iff MaxArray_MaxInt32)

lemma array_reads: "array_ok ok xs \<Longrightarrow> parses (getArray dec) (array_bytes bytes xs) xs"
  using dec_reads bytes_nonempty unfolding array_bytes_def
  by (intro reads_Array) (auto simp: array_ok_def list_all_iff)

end

text \<open>
  The layout most messages share: a map from topics to a map from partitions to blocks. Such a
  map is written and read with its keys, and a codec of the blocks gives one of the map.
\<close>

type_synonym 'b topics = "(string \<times> (int \<times> 'b) list) list"

definition put_topics :: "('b \<Rightarrow> packetEncoder list) \<Rightarrow> 'b topics \<Rightarrow> packetEncoder list" where
  "put_topics enc = put_array (\<lambda>(topic, ps). PutString topic # put_array (\<lambda>(id, b). PutInt32 id # enc b) ps)"

definition get_topics :: "'b dec \<Rightarrow> 'b topics dec" where
  "get_topics dec =
     dbind (getArray (dbind getString (\<lambda>topic.
        dbind (getArray (dbind getInt32 (\<lambda>id. dbind dec (\<lambda>b. dret (id, b))))) (\<lambda>ps. dret (topic, go_map ps)))))
       (\<lambda>ts. dret (go_map ts))"

definition part_bytes :: "('b \<Rightarrow> string) \<Rightarrow> int \<times> 'b \<Rightarrow> string" where
  "part_bytes bytes p = be 4 (fst p) @ bytes (snd p)"

definition topic_bytes :: "('b \<Rightarrow> string) \<Rightarrow> string \<times> (int \<times> 'b) list \<Rightarrow> string" where
  "topic_bytes bytes t = string_of (fst t) @ array_bytes (part_bytes bytes) (snd t)"

definition topics_ok :: "('b \<Rightarrow> bool) \<Rightarrow> 'b topics \<Rightarrow> bool" where
  "topics_ok ok ts \<longleftrightarrow> distinct (map fst ts) \<and>
     array_ok (\<lambda>(topic, ps). length topic \<le> MaxInt16 \<and> distinct (map fst ps) \<and> array_ok (\<lambda>(id, b). fits 32 id \<and> ok b) ps) ts"

lemma topics_okD:
  "topics_ok ok ts \<Longrightarrow> t \<in> set ts \<Longrightarrow>
     length (fst t) \<le> MaxInt16 \<and> distinct (map fst (snd t)) \<and> array_ok (\<lambda>(id, b). fits 32 id \<and> ok b) (snd t)"
  unfolding topics_ok_def by (auto dest: array_okD)

locale block_codec = kafka_codec
begin

lemma parts_writes:
  assumes "array_ok (\<lambda>(id, b). fits 32 id \<and> ok b) ps"
  shows "writes (put_array (\<lambda>(id, b). PutInt32 id # enc b) ps) (array_bytes (part_bytes bytes) ps)"
proof (rule writes_array)
  show "writes ((\<lambda>(id, b). PutInt32 id # enc b) p) (part_bytes bytes p)" if "p \<in> set ps" for p
    using array_okD [OF assms that] writes_Cons [OF writes_put(3) enc_writes, of "snd p" "fst p"]
    by (simp add: part_bytes_def case_prod_unfold)
  show "length ps \<le> MaxInt32" using assms by (simp add: array_ok_def MaxArray_MaxInt32)
qed

lemma parts_reads:
  assumes "array_ok (\<lambda>(id, b). fits 32 id \<and> ok b) ps"
  shows "parses (getArray (dbind getInt32 (\<lambda>id. dbind dec (\<lambda>b. dret (id, b))))) (array_bytes (part_bytes bytes) ps) ps"
  unfolding array_bytes_def
proof (rule reads_Array)
  show "parses (dbind getInt32 (\<lambda>id. dbind dec (\<lambda>b. dret (id, b)))) (part_bytes bytes p) p" if "p \<in> set ps" for p
  proof -
    have "fits 32 (fst p)" "ok (snd p)" using array_okD [OF assms that] by (simp_all add: case_prod_unfold)
    then show ?thesis unfolding part_bytes_def
      using reads_map [OF dec_reads, of "snd p" "\<lambda>b. (fst p, b)"] by (intro reads_dbind [OF reads_Ints(3)]) simp_all
  qed
  show "part_bytes bytes p \<noteq> []" for p :: "int \<times> 'a"
    by (metis part_bytes_def append_is_Nil_conv length_be list.size(3) zero_neq_numeral)
  show "length ps \<le> MaxArray" using assms by (simp add: array_ok_def)
qed

lemma topics_writes:
  assumes "topics_ok ok ts"
  shows "writes (put_topics enc ts) (array_bytes (topic_bytes bytes) ts)"
  unfolding put_topics_def
proof (rule writes_array)
  show "writes ((\<lambda>(topic, ps). PutString topic # put_array (\<lambda>(id, b). PutInt32 id # enc b) ps) t) (topic_bytes bytes t)"
    if "t \<in> set ts" for t
    using topics_okD [OF assms that] writes_Cons [OF writes_String parts_writes, of "fst t" "snd t"]
    by (simp add: topic_bytes_def case_prod_unfold)
  show "length ts \<le> MaxInt32" using assms by (simp add: topics_ok_def array_ok_def MaxArray_MaxInt32)
qed

lemma topics_reads:
  assumes "topics_ok ok ts"
  shows "parses (get_topics dec) (array_bytes (topic_bytes bytes) ts) ts"
proof -
  let ?parts = "getArray (dbind getInt32 (\<lambda>id. dbind dec (\<lambda>b. dret (id, b))))"
  let ?topic = "dbind getString (\<lambda>topic. dbind ?parts (\<lambda>ps. dret (topic, go_map ps)))"
  have "parses ?topic (topic_bytes bytes t) t" if "t \<in> set ts" for t
  proof -
    have t: "length (fst t) \<le> MaxInt16" "distinct (map fst (snd t))" "array_ok (\<lambda>(id, b). fits 32 id \<and> ok b) (snd t)"
      using topics_okD [OF assms that] by simp_all
    from reads_map [OF parts_reads [OF t(3)], of "\<lambda>ps. (fst t, go_map ps)"] t
    show ?thesis unfolding topic_bytes_def
      by (intro reads_dbind [OF reads_String]) (simp_all add: go_map_distinct)
  qed
  moreover have "topic_bytes bytes t \<noteq> []" for t
    by (simp add: topic_bytes_def string_of_def) (metis length_be list.size(3) zero_neq_numeral)
  ultimately have "parses (getArray ?topic) (array_bytes (topic_bytes bytes) ts) ts"
    unfolding array_bytes_def using assms by (intro reads_Array) (simp_all add: topics_ok_def array_ok_def)
  from reads_map [OF this, of go_map] assms show ?thesis
    by (simp add: get_topics_def topics_ok_def go_map_distinct)
qed

lemma topics_same:
  assumes "same_map (same_map same) ts us"
  shows "length (array_bytes (topic_bytes bytes) ts) = length (array_bytes (topic_bytes bytes) us)"
proof -
  have array: "length (array_bytes f xs) = 4 + sum_list (map (\<lambda>x. length (f x)) xs)" for f :: "'c \<Rightarrow> string" and xs
    by (simp add: array_bytes_def length_concat comp_def)
  have parts: "length (array_bytes (part_bytes bytes) ps) = length (array_bytes (part_bytes bytes) qs)" if "same_map same ps qs" for ps qs
    using same_map_sum [OF that, of "\<lambda>k b. 4 + length (bytes b)" "\<lambda>k b. 4 + length (bytes b)"] same_length
    by (simp add: array part_bytes_def case_prod_unfold)
  show ?thesis
    using same_map_sum [OF assms, of "\<lambda>t ps. length (topic_bytes bytes (t, ps))" "\<lambda>t ps. length (topic_bytes bytes (t, ps))"] parts
    by (simp add: array topic_bytes_def case_prod_unfold)
qed

end

sublocale block_codec \<subseteq> topics: kafka_codec "put_topics enc" "get_topics dec" "array_bytes (topic_bytes bytes)"
  "topics_ok ok" "same_map (same_map same)"
  by unfold_locales (fact topics_writes topics_reads topics_same)+

lemma safe_topics [intro]: "safe dec \<Longrightarrow> safe (get_topics dec)"
  unfolding get_topics_def by (intro safe_dbind safe_Array safe_String safe_Ints safe_dret)

end
