(* ===== verification/Snappy_Block.thy ===== *)
theory Snappy_Block
  imports Prelude
begin

text \<open>
  The snappy block format of \<open>code.google.com/p/snappy-go/snappy\<close>, which sarama compresses
  message sets with: \<open>Decode\<close> and \<open>decodedLen\<close> of \<open>decode.go\<close>, \<open>emitLiteral\<close>, \<open>emitCopy\<close>,
  \<open>Encode\<close> and \<open>MaxEncodedLen\<close> of \<open>encode.go\<close>, and the varints of \<open>encoding/binary\<close> they use.

  Bytes are characters and offsets are natural numbers. Shifts and masks of a byte \<open>b\<close> are
  written as \<open>div\<close> and \<open>mod\<close>, and the \<open>or\<close> of disjoint bit fields as a sum. An index or slice
  error of the source is \<open>Panics\<close>.
\<close>

abbreviation byte :: "nat \<Rightarrow> char" where
  "byte n \<equiv> char_of n"

abbreviation byte_at :: "string \<Rightarrow> nat \<Rightarrow> nat" where
  "byte_at s i \<equiv> of_char (s ! i)"

section \<open>Varints\<close>

text \<open>\<open>binary.PutUvarint\<close> (on a buffer with room) and \<open>binary.Uvarint\<close>.\<close>

fun PutUvarint :: "nat \<Rightarrow> string" where
  "PutUvarint x = (if x \<ge> 128 then byte (x mod 128 + 128) # PutUvarint (x div 128) else [byte x])"

declare PutUvarint.simps [simp del]

text \<open>
  The value and the number of bytes read; zero bytes where the input ends inside the number,
  and a negative count where it does not fit 64 bits.
\<close>

fun Uvarint_loop :: "nat \<Rightarrow> nat \<Rightarrow> string \<Rightarrow> nat \<times> int" where
  "Uvarint_loop i x [] = (0, 0)"
| "Uvarint_loop i x (c # cs) =
     (let b = of_char c in
      if b < 128 then
        if i > 9 \<or> i = 9 \<and> b > 1 then (0, - (int i + 1)) else ((x + b * 2 ^ (7 * i)) mod 2 ^ 64, int i + 1)
      else Uvarint_loop (i + 1) ((x + (b - 128) * 2 ^ (7 * i)) mod 2 ^ 64) cs)"

definition Uvarint :: "string \<Rightarrow> nat \<times> int" where
  "Uvarint s = Uvarint_loop 0 0 s"

section \<open>Decoding\<close>

datatype snappy_error =
    ErrCorrupt
  | ErrUnsupported
  | ErrTooLarge
  | ErrLiteralLength
  | ErrCopy4

text \<open>The value of a 64-bit unsigned number as a signed one.\<close>

definition signed64 :: "nat \<Rightarrow> int" where
  "signed64 v = (if v < 2 ^ 63 then int v else int v - 2 ^ 64)"

definition decodedLen :: "string \<Rightarrow> snappy_error + int \<times> int" where
  "decodedLen src =
     (let (v, n) = Uvarint src in
      if n = 0 then Inl ErrCorrupt
      else if signed64 v mod 2 ^ 64 \<noteq> int v then Inl ErrTooLarge
      else Inr (signed64 v, n))"

definition DecodedLen :: "string \<Rightarrow> snappy_error + int" where
  "DecodedLen src = map_sum id fst (decodedLen src)"

text \<open>The little-endian number of the \<open>k\<close> bytes at \<open>i\<close>.\<close>

fun le_at :: "string \<Rightarrow> nat \<Rightarrow> nat \<Rightarrow> nat" where
  "le_at src i 0 = 0"
| "le_at src i (Suc k) = byte_at src i + 256 * le_at src (Suc i) k"

text \<open>The length of a literal less one, and the position of its first byte.\<close>

definition literal_header :: "string \<Rightarrow> nat \<Rightarrow> snappy_error + nat \<times> nat" where
  "literal_header src s =
     (let x = byte_at src s div 4 in
      if x < 60 then Inr (x, s + 1)
      else let k = x - 59 in
        if s + 1 + k > length src then Inl ErrCorrupt
        else Inr (le_at src (s + 1) k, s + 1 + k))"

text \<open>The length and the offset of a copy, and the position behind it.\<close>

definition copy_header :: "string \<Rightarrow> nat \<Rightarrow> snappy_error + nat \<times> nat \<times> nat" where
  "copy_header src s =
     (let b = byte_at src s in
      if b mod 4 = 1 then
        if s + 2 > length src then Inl ErrCorrupt
        else Inr (4 + b div 4 mod 8, b div 32 * 256 + byte_at src (s + 1), s + 2)
      else if b mod 4 = 2 then
        if s + 3 > length src then Inl ErrCorrupt
        else Inr (1 + b div 4, le_at src (s + 1) 2, s + 3)
      else Inl ErrCopy4)"

text \<open>\<open>for ; d < end; d++ { dst[d] = dst[d-offset] }\<close>\<close>

fun copy_loop :: "nat \<Rightarrow> nat \<Rightarrow> nat \<Rightarrow> string \<Rightarrow> string" where
  "copy_loop 0 offset d dst = dst"
| "copy_loop (Suc n) offset d dst = copy_loop n offset (d + 1) (dst[d := dst ! (d - offset)])"

lemma copy_header_later: "copy_header src s = Inr (len, offset, s') \<Longrightarrow> s < s'"
  by (auto simp: copy_header_def Let_def split: if_splits)

lemma literal_header_later: "literal_header src s = Inr (x, s') \<Longrightarrow> s < s'"
  by (auto simp: literal_header_def Let_def split: if_splits)

function Decode_loop :: "string \<Rightarrow> string \<Rightarrow> nat \<Rightarrow> nat \<Rightarrow> snappy_error + string \<times> nat" where
  "Decode_loop src dst d s =
     (if s \<ge> length src then Inr (dst, d)
      else if byte_at src s mod 4 = 0 then
        case literal_header src s of
          Inl e \<Rightarrow> Inl e
        | Inr (x, s') \<Rightarrow>
            let len = x + 1 in
            if int len \<le> 0 then Inl ErrLiteralLength
            else if int len > int (length dst) - int d \<or> int len > int (length src) - int s' then Inl ErrCorrupt
            else Decode_loop src (take d dst @ take len (drop s' src) @ drop (d + len) dst) (d + len) (s' + len)
      else
        case copy_header src s of
          Inl e \<Rightarrow> Inl e
        | Inr (len, offset, s') \<Rightarrow>
            if offset > d \<or> d + len > length dst then Inl ErrCorrupt
            else Decode_loop src (copy_loop len offset d dst) (d + len) s')"
  by pat_completeness auto

termination
  by (relation "measure (\<lambda>(src, dst, d, s). length src - s)")
     (auto dest!: copy_header_later literal_header_later)

declare Decode_loop.simps [simp del]

text \<open>
  \<open>Decode\<close>. \<open>limit\<close> is the longest slice the runtime can make, where \<open>make\<close> panics. A negative
  header length makes the first index negative.
\<close>

definition snappy_Decode :: "nat \<Rightarrow> string \<Rightarrow> string \<Rightarrow> (snappy_error + string) outcome" where
  "snappy_Decode limit dst src =
     (case decodedLen src of
        Inl e \<Rightarrow> Returns (Inl e)
      | Inr (dLen, s) \<Rightarrow>
          if int (length dst) < dLen \<and> dLen > int limit then Panics ''runtime error: makeslice: len out of range''
          else
            let dst = (if int (length dst) < dLen then replicate (nat dLen) (CHR 0x00) else dst) in
            if s < 0 then Panics ''runtime error: index out of range''
            else case Decode_loop src dst 0 (nat s) of
              Inl e \<Rightarrow> Returns (Inl e)
            | Inr (dst, d) \<Rightarrow> if int d \<noteq> dLen then Returns (Inl ErrCorrupt) else Returns (Inr (take d dst)))"

section \<open>Encoding\<close>

text \<open>
  What the encoder has written into its buffer of \<open>cap\<close> bytes. The source checks the room for
  a literal with \<open>copy\<close> and for everything else by indexing.
\<close>

definition emit :: "nat \<Rightarrow> string \<Rightarrow> string \<Rightarrow> string outcome" where
  "emit cap out bs =
     (if length out + length bs \<le> cap then Returns (out @ bs) else Panics ''runtime error: index out of range'')"

fun le_bytes :: "nat \<Rightarrow> nat \<Rightarrow> string" where
  "le_bytes 0 n = []"
| "le_bytes (Suc k) n = byte (n mod 256) # le_bytes k (n div 256)"

definition literal_tag :: "nat \<Rightarrow> string" where
  "literal_tag n =
     (if n < 60 then [byte (4 * n)]
      else if n < 2 ^ 8 then byte (60 * 4) # le_bytes 1 n
      else if n < 2 ^ 16 then byte (61 * 4) # le_bytes 2 n
      else if n < 2 ^ 24 then byte (62 * 4) # le_bytes 3 n
      else byte (63 * 4) # le_bytes 4 n)"

definition emitLiteral :: "nat \<Rightarrow> string \<Rightarrow> string \<Rightarrow> string outcome" where
  "emitLiteral cap out lit =
     (let n = length lit - 1 in
      if n \<ge> 2 ^ 32 then Panics ''snappy: source buffer is too long''
      else bind_outcome (emit cap out (literal_tag n)) (\<lambda>out.
        if length out + length lit \<le> cap then Returns (out @ lit)
        else Panics ''snappy: destination buffer is too short''))"

fun emitCopy :: "nat \<Rightarrow> string \<Rightarrow> nat \<Rightarrow> nat \<Rightarrow> string outcome" where
  "emitCopy cap out offset len =
     (if len = 0 then Returns out
      else if 4 \<le> len \<and> len - 4 < 2 ^ 3 \<and> offset < 2 ^ 11
      then emit cap out [byte (offset div 256 mod 8 * 32 + (len - 4) * 4 + 1), byte (offset mod 256)]
      else let x = min len 64 in
        bind_outcome (emit cap out (byte ((x - 1) * 4 + 2) # le_bytes 2 offset)) (\<lambda>out. emitCopy cap out offset (len - x)))"

declare emitCopy.simps [simp del]

definition MaxEncodedLen :: "nat \<Rightarrow> nat" where
  "MaxEncodedLen n = 32 + n + n div 6"

definition maxOffset :: nat where "maxOffset = 2 ^ 15"

definition maxTableSize :: nat where "maxTableSize = 2 ^ 14"

text \<open>\<open>shift\<close>, from the loop that doubles \<open>tableSize\<close>.\<close>

function table_shift :: "nat \<Rightarrow> nat \<Rightarrow> nat \<Rightarrow> nat" where
  "table_shift n shift tableSize =
     (if 0 < tableSize \<and> tableSize < maxTableSize \<and> tableSize < n then table_shift n (shift - 1) (tableSize * 2) else shift)"
  by pat_completeness auto
termination
  by (relation "measure (\<lambda>(n, shift, tableSize). maxTableSize - tableSize)") auto

declare table_shift.simps [simp del]

definition hash4 :: "string \<Rightarrow> nat \<Rightarrow> nat \<Rightarrow> nat" where
  "hash4 src shift s = le_at src s 4 * 0x1e35a7bd mod 2 ^ 32 div 2 ^ shift"

text \<open>\<open>for s < len(src) \<and> src[s] == src[t]\<close>: by how much the match grows.\<close>

function extend :: "string \<Rightarrow> nat \<Rightarrow> nat \<Rightarrow> nat" where
  "extend src s t = (if s < length src \<and> src ! s = src ! t then extend src (s + 1) (t + 1) else s)"
  by pat_completeness auto
termination
  by (relation "measure (\<lambda>(src, s, t). length src - s)") auto

declare extend.simps [simp del]

lemma extend_le: "s \<le> extend src s t"
  by (induction src s t rule: extend.induct) (subst extend.simps, auto)

definition emitPending :: "nat \<Rightarrow> string \<Rightarrow> string \<Rightarrow> nat \<Rightarrow> nat \<Rightarrow> string outcome" where
  "emitPending cap out src lit s = (if lit \<noteq> s then emitLiteral cap out (take (s - lit) (drop lit src)) else Returns out)"

text \<open>
  The loop over the source: \<open>table\<close> holds positions plus one, zero for none; it returns the
  start of the literal that is still pending and what was written.
\<close>

function Encode_loop :: "nat \<Rightarrow> string \<Rightarrow> nat \<Rightarrow> (nat \<Rightarrow> nat) \<Rightarrow> nat \<Rightarrow> nat \<Rightarrow> string \<Rightarrow> (nat \<times> string) outcome" where
  "Encode_loop cap src shift table s lit out =
     (if s + 3 < length src then
        let p = hash4 src shift s; t = table p; table = table(p := s + 1) in
        if t = 0 \<or> s - (t - 1) \<ge> maxOffset \<or> take 4 (drop s src) \<noteq> take 4 (drop (t - 1) src)
        then Encode_loop cap src shift table (s + 1) lit out
        else
          let s' = extend src (s + 4) (t - 1 + 4) in
          bind_outcome (emitPending cap out src lit s) (\<lambda>out.
          bind_outcome (emitCopy cap out (s - (t - 1)) (s' - s)) (\<lambda>out.
          Encode_loop cap src shift table s' s' out))
      else Returns (lit, out))"
  by pat_completeness auto
termination
proof (relation "measure (\<lambda>(cap, src, shift, table, s, lit, out). length src - s)", goal_cases)
  case (3 cap src shift table s lit out x xa xb xc xd xe)
  then show ?case using extend_le [of "s + 4" src "xa - 1 + 4"] by auto
qed auto

declare Encode_loop.simps [simp del]

definition snappy_Encode :: "string \<Rightarrow> string \<Rightarrow> string outcome" where
  "snappy_Encode dst src =
     (let n = length src; cap = max (length dst) (MaxEncodedLen n) in
      bind_outcome (emit cap [] (PutUvarint n)) (\<lambda>out.
      if n \<le> 4 then emitPending cap out src 0 n
      else bind_outcome (Encode_loop cap src (table_shift n 24 256) (\<lambda>_. 0) 0 0 out) (\<lambda>(lit, out).
        emitPending cap out src lit n)))"

section \<open>Varints round trip\<close>

lemma of_char_byte [simp]: "n < 256 \<Longrightarrow> of_char (byte n) = n"
  by simp

lemma Uvarint_loop_Put:
  "x < 2 ^ (7 * i) \<Longrightarrow> x + n * 2 ^ (7 * i) < 2 ^ 64 \<Longrightarrow> 0 < n \<or> i = 0 \<Longrightarrow>
     Uvarint_loop i x (PutUvarint n @ rest) = (x + n * 2 ^ (7 * i), int i + int (length (PutUvarint n)))"
proof (induction n arbitrary: i x rule: PutUvarint.induct)
  case (1 n)
  show ?case
  proof (cases "n \<ge> 128")
    case True
    let ?x = "x + n mod 128 * 2 ^ (7 * i)"
    have p: "(2::nat) ^ (7 * (i + 1)) = 128 * 2 ^ (7 * i)" by (simp add: power_add)
    have sum: "?x + n div 128 * 2 ^ (7 * (i + 1)) = x + n * 2 ^ (7 * i)"
      using arg_cong [OF mod_mult_div_eq [of n 128], of "\<lambda>m. m * 2 ^ (7 * i)"]
      unfolding p distrib_right by (simp only: ac_simps)
    have "?x < 2 ^ (7 * i) + 127 * 2 ^ (7 * i)"
      using "1.prems"(1) by (intro add_less_le_mono mult_right_mono) auto
    then have x: "?x < 2 ^ (7 * (i + 1))" unfolding p by simp
    have "?x < 2 ^ 64" using sum "1.prems"(2) by linarith
    moreover have "0 < n div 128" using True by (simp add: div_greater_zero_iff)
    ultimately show ?thesis
      using True "1.IH" [OF True x] sum "1.prems"(2)
      by (subst (1 2) PutUvarint.simps) (simp add: Let_def)
  next
    case False
    have "\<not> (i > 9 \<or> i = 9 \<and> n > 1)"
    proof
      assume "i > 9 \<or> i = 9 \<and> n > 1"
      then consider "i \<ge> 10" | "i = 9" "n \<ge> 2" by linarith
      then show False
      proof cases
        case 1
        with "1.prems"(3) have "1 * 2 ^ 70 \<le> n * 2 ^ (7 * i)" by (intro mult_mono power_increasing) auto
        with "1.prems"(2) show ?thesis by simp
      next
        case 2
        with "1.prems"(2) show ?thesis by simp
      qed
    qed
    with False "1.prems" show ?thesis
      by (subst (1 2) PutUvarint.simps) (simp add: Let_def)
  qed
qed

lemma Uvarint_Put: "n < 2 ^ 64 \<Longrightarrow> Uvarint (PutUvarint n @ rest) = (n, int (length (PutUvarint n)))"
  using Uvarint_loop_Put [of 0 0 n rest] by (simp add: Uvarint_def)

lemma length_PutUvarint: "n < 128 ^ Suc k \<Longrightarrow> length (PutUvarint n) \<le> Suc k"
proof (induction k arbitrary: n)
  case 0
  then show ?case by (subst PutUvarint.simps) simp
next
  case (Suc k)
  then have "n div 128 < 128 ^ Suc k" by (simp add: less_mult_imp_div_less mult.commute)
  with Suc.IH show ?case by (subst PutUvarint.simps) simp
qed

section \<open>What a run of chunks decodes to\<close>

text \<open>
  \<open>decodes src bs d d'\<close>: with the first \<open>d\<close> bytes of \<open>src\<close> in the output buffer, the loop goes
  through the chunks \<open>bs\<close>, wherever they stand in the input, to the first \<open>d'\<close> bytes.
\<close>

definition decodes :: "string \<Rightarrow> string \<Rightarrow> nat \<Rightarrow> nat \<Rightarrow> bool" where
  "decodes src bs d d' \<longleftrightarrow>
     (\<forall>dst. length src \<le> length dst \<and> take d dst = take d src \<longrightarrow>
        (\<exists>dst'. length dst' = length dst \<and> take d' dst' = take d' src \<and>
           (\<forall>pre rest. Decode_loop (pre @ bs @ rest) dst d (length pre) =
              Decode_loop (pre @ bs @ rest) dst' d' (length pre + length bs))))"

lemma decodes_Nil: "decodes src [] d d"
  unfolding decodes_def
proof (intro allI impI)
  fix dst assume "length src \<le> length dst \<and> take d dst = take d src"
  then show "\<exists>dst'. length dst' = length dst \<and> take d dst' = take d src \<and>
      (\<forall>pre rest. Decode_loop (pre @ [] @ rest) dst d (length pre) = Decode_loop (pre @ [] @ rest) dst' d (length pre + length []))"
    by (intro exI [of _ dst]) simp
qed

lemma decodes_append:
  assumes a: "decodes src bs d d1" and b: "decodes src cs d1 d2"
  shows "decodes src (bs @ cs) d d2"
  unfolding decodes_def
proof (intro allI impI)
  fix dst assume "length src \<le> length dst \<and> take d dst = take d src"
  with a obtain dst1 where d1: "length dst1 = length dst" "take d1 dst1 = take d1 src" "length src \<le> length dst1"
    and s1: "\<And>pre rest. Decode_loop (pre @ bs @ rest) dst d (length pre) = Decode_loop (pre @ bs @ rest) dst1 d1 (length pre + length bs)"
    unfolding decodes_def by metis
  with b obtain dst2 where d2: "length dst2 = length dst" "take d2 dst2 = take d2 src"
    and s2: "\<And>pre rest. Decode_loop (pre @ cs @ rest) dst1 d1 (length pre) = Decode_loop (pre @ cs @ rest) dst2 d2 (length pre + length cs)"
    unfolding decodes_def by metis
  have "Decode_loop (pre @ (bs @ cs) @ rest) dst d (length pre) =
      Decode_loop (pre @ (bs @ cs) @ rest) dst2 d2 (length pre + length (bs @ cs))" for pre rest
    using s1 [of pre "cs @ rest"] s2 [of "pre @ bs" rest] by (simp add: add.assoc)
  with d2 show "\<exists>dst'. length dst' = length dst \<and> take d2 dst' = take d2 src \<and>
      (\<forall>pre rest. Decode_loop (pre @ (bs @ cs) @ rest) dst d (length pre) =
         Decode_loop (pre @ (bs @ cs) @ rest) dst' d2 (length pre + length (bs @ cs)))"
    by blast
qed

lemma length_le_bytes [simp]: "length (le_bytes k n) = k"
  by (induction k n rule: le_bytes.induct) simp_all

lemma le_at_bytes: "le_at (pre @ le_bytes k n @ rest) (length pre) k = n mod 256 ^ k"
proof (induction k arbitrary: n pre)
  case (Suc k)
  from Suc.IH [of "pre @ [byte (n mod 256)]" "n div 256"]
  have "le_at (pre @ le_bytes (Suc k) n @ rest) (Suc (length pre)) k = n div 256 mod 256 ^ k" by simp
  then show ?case by (simp add: nth_append mod_mult2_eq)
qed simp

text \<open>Literals.\<close>

lemma literal_header_tag:
  assumes "n < 2 ^ 32"
  shows "literal_header (pre @ literal_tag n @ rest) (length pre) = Inr (n, length pre + length (literal_tag n)) \<and>
    byte_at (pre @ literal_tag n @ rest) (length pre) mod 4 = 0"
proof -
  have long: "literal_header (pre @ (byte ((59 + k) * 4) # le_bytes k n) @ rest) (length pre) =
      Inr (n, length pre + length (byte ((59 + k) * 4) # le_bytes k n)) \<and>
      byte_at (pre @ (byte ((59 + k) * 4) # le_bytes k n) @ rest) (length pre) mod 4 = 0"
    if "n < 256 ^ k" "0 < k" "k \<le> 4" for k
    using le_at_bytes [of "pre @ [byte ((59 + k) * 4)]" k n rest] that
    by (simp add: literal_header_def Let_def nth_append)
  show ?thesis
    using long [of 1] long [of 2] long [of 3] long [of 4] assms
    by (simp add: literal_tag_def literal_header_def nth_append split: if_split)
qed

lemma decodes_literal:
  assumes "0 < k" and "k \<le> 2 ^ 32" and "d + k \<le> length src"
  shows "decodes src (literal_tag (k - 1) @ take k (drop d src)) d (d + k)"
  unfolding decodes_def
proof (intro allI impI)
  fix dst assume dst: "length src \<le> length dst \<and> take d dst = take d src"
  let ?lit = "take k (drop d src)"
  let ?dst = "take d dst @ ?lit @ drop (d + k) dst"
  have len: "length ?lit = k" using assms by simp
  have n: "k - 1 < 2 ^ 32" using assms by simp
  have "Decode_loop (pre @ (literal_tag (k - 1) @ ?lit) @ rest) dst d (length pre) =
      Decode_loop (pre @ (literal_tag (k - 1) @ ?lit) @ rest) ?dst (d + k) (length pre + length (literal_tag (k - 1) @ ?lit))" for pre rest
  proof -
    have "length (literal_tag (k - 1)) > 0" by (simp add: literal_tag_def)
    then show ?thesis
      using literal_header_tag [OF n, of pre "?lit @ rest"] len dst assms
      by (subst Decode_loop.simps) (simp add: Let_def add.assoc)
  qed
  moreover have "take (d + k) ?dst = take (d + k) src"
    using dst assms len by (simp add: take_add)
  moreover have "length ?dst = length dst" using dst assms by simp
  ultimately show "\<exists>dst'. length dst' = length dst \<and> take (d + k) dst' = take (d + k) src \<and>
      (\<forall>pre rest. Decode_loop (pre @ (literal_tag (k - 1) @ ?lit) @ rest) dst d (length pre) =
         Decode_loop (pre @ (literal_tag (k - 1) @ ?lit) @ rest) dst' (d + k) (length pre + length (literal_tag (k - 1) @ ?lit)))"
    by blast
qed

text \<open>Copies.\<close>

lemma length_copy_loop [simp]: "length (copy_loop n off d dst) = length dst"
  by (induction n off d dst rule: copy_loop.induct) simp_all

definition repeats :: "string \<Rightarrow> nat \<Rightarrow> nat \<Rightarrow> nat \<Rightarrow> bool" where
  "repeats src off d n \<longleftrightarrow> 0 < off \<and> off \<le> d \<and> d + n \<le> length src \<and> (\<forall>i<n. src ! (d + i) = src ! (d + i - off))"

lemma copy_loop_repeats:
  "repeats src off d n \<Longrightarrow> length src \<le> length dst \<Longrightarrow> take d dst = take d src \<Longrightarrow>
     take (d + n) (copy_loop n off d dst) = take (d + n) src"
proof (induction n arbitrary: d dst)
  case (Suc n)
  have d: "d < length src" "off \<le> d" "0 < off" "d < length dst" using Suc.prems by (auto simp: repeats_def)
  have at: "dst ! (d - off) = src ! d"
  proof -
    have "dst ! (d - off) = take d dst ! (d - off)" using d by simp
    also have "\<dots> = src ! (d - off)" using d Suc.prems(3) by simp
    finally show ?thesis using Suc.prems(1) by (auto simp: repeats_def dest: spec [of _ 0])
  qed
  have "take (d + 1) (dst[d := dst ! (d - off)]) = take (d + 1) src"
    using Suc.prems(3) d at by (simp add: take_Suc_conv_app_nth)
  moreover have "repeats src off (d + 1) n"
    unfolding repeats_def
  proof (intro conjI allI impI)
    fix i assume "i < n"
    then have "src ! (d + Suc i) = src ! (d + Suc i - off)" using Suc.prems(1) by (auto simp: repeats_def)
    then show "src ! (d + 1 + i) = src ! (d + 1 + i - off)" by simp
  qed (use Suc.prems(1) in \<open>auto simp: repeats_def\<close>)
  ultimately show ?case using Suc.IH [of "d + 1" "dst[d := dst ! (d - off)]"] Suc.prems(2) by simp
qed simp

lemma decodes_copy:
  assumes hdr: "\<And>pre rest. copy_header (pre @ bs @ rest) (length pre) = Inr (n, off, length pre + length bs) \<and>
      byte_at (pre @ bs @ rest) (length pre) mod 4 \<noteq> 0"
    and bs: "bs \<noteq> []" and rep: "repeats src off d n"
  shows "decodes src bs d (d + n)"
  unfolding decodes_def
proof (intro allI impI)
  fix dst assume dst: "length src \<le> length dst \<and> take d dst = take d src"
  have "Decode_loop (pre @ bs @ rest) dst d (length pre) =
      Decode_loop (pre @ bs @ rest) (copy_loop n off d dst) (d + n) (length pre + length bs)" for pre rest
    using hdr [of pre rest] bs rep dst by (subst Decode_loop.simps) (simp add: repeats_def)
  then show "\<exists>dst'. length dst' = length dst \<and> take (d + n) dst' = take (d + n) src \<and>
      (\<forall>pre rest. Decode_loop (pre @ bs @ rest) dst d (length pre) = Decode_loop (pre @ bs @ rest) dst' (d + n) (length pre + length bs))"
    using copy_loop_repeats [OF rep] dst by (intro exI [of _ "copy_loop n off d dst"]) simp
qed

lemma copy_header_copy1:
  assumes "b < 256" and "b mod 4 = 1" and "c < 256"
  shows "copy_header (pre @ [byte b, byte c] @ rest) (length pre) = Inr (4 + b div 4 mod 8, b div 32 * 256 + c, length pre + 2) \<and>
    byte_at (pre @ [byte b, byte c] @ rest) (length pre) mod 4 \<noteq> 0"
  using assms by (simp add: copy_header_def Let_def nth_append)

lemma copy_header_copy2:
  assumes "b < 256" and "b mod 4 = 2" and "off < 2 ^ 16"
  shows "copy_header (pre @ (byte b # le_bytes 2 off) @ rest) (length pre) = Inr (1 + b div 4, off, length pre + 3) \<and>
    byte_at (pre @ (byte b # le_bytes 2 off) @ rest) (length pre) mod 4 \<noteq> 0"
  using le_at_bytes [of "pre @ [byte b]" 2 off rest] assms
  by (simp add: copy_header_def Let_def nth_append)

lemma decodes_copy1:
  assumes "repeats src off d n" and "4 \<le> n" and "n < 12" and "off < 2 ^ 11"
  shows "decodes src [byte (off div 256 mod 8 * 32 + (n - 4) * 4 + 1), byte (off mod 256)] d (d + n)"
proof (rule decodes_copy)
  fix pre rest
  define b where "b = off div 256 mod 8 * 32 + (n - 4) * 4 + 1"
  have off: "off div 256 < 8" using assms(4) by (simp add: less_mult_imp_div_less)
  define m where "m = n - 4"
  then have m: "n = m + 4" "m < 8" using assms(2,3) by auto
  have b4: "b = 1 + 4 * (off div 256 * 8 + m)" and b32: "b = 4 * m + 1 + 32 * (off div 256)"
    using off m by (simp_all add: b_def)
  have "b div 4 = off div 256 * 8 + m" unfolding b4 by simp
  moreover have "b mod 4 = 1" unfolding b4 mod_mult_self2 by simp
  moreover have "b div 32 = off div 256" unfolding b32 using m by (subst div_mult_self2) simp_all
  moreover have "b < 256" unfolding b32 using off m by linarith
  ultimately have b: "b < 256" "b mod 4 = 1" "4 + b div 4 mod 8 = n" "b div 32 = off div 256"
    using m by simp_all
  show "copy_header (pre @ [byte (off div 256 mod 8 * 32 + (n - 4) * 4 + 1), byte (off mod 256)] @ rest) (length pre) =
        Inr (n, off, length pre + length [byte (off div 256 mod 8 * 32 + (n - 4) * 4 + 1), byte (off mod 256)]) \<and>
      byte_at (pre @ [byte (off div 256 mod 8 * 32 + (n - 4) * 4 + 1), byte (off mod 256)] @ rest) (length pre) mod 4 \<noteq> 0"
    unfolding b_def [symmetric] using copy_header_copy1 [OF b(1,2), of "off mod 256" pre rest] b(3,4) by simp
qed (use assms(1) in simp_all)

lemma decodes_copy2:
  assumes "repeats src off d n" and "0 < n" and "n \<le> 64" and "off < 2 ^ 16"
  shows "decodes src (byte ((n - 1) * 4 + 2) # le_bytes 2 off) d (d + n)"
proof (rule decodes_copy)
  fix pre rest
  define b where "b = (n - 1) * 4 + 2"
  obtain m where m: "n = Suc m" using assms(2) by (cases n) auto
  then have b4: "b = 2 + 4 * m" by (simp add: b_def)
  have "b mod 4 = 2" unfolding b4 mod_mult_self2 by simp
  then have b: "b < 256" "b mod 4 = 2" "1 + b div 4 = n" using assms(3) m b4 by auto
  show "copy_header (pre @ (byte ((n - 1) * 4 + 2) # le_bytes 2 off) @ rest) (length pre) =
        Inr (n, off, length pre + length (byte ((n - 1) * 4 + 2) # le_bytes 2 off)) \<and>
      byte_at (pre @ (byte ((n - 1) * 4 + 2) # le_bytes 2 off) @ rest) (length pre) mod 4 \<noteq> 0"
    unfolding b_def [symmetric] using copy_header_copy2 [OF b(1,2) assms(4), of pre rest] b(3) by simp
qed (use assms(1) in simp_all)

section \<open>Encoding is decoded\<close>

lemma emit_room: "length out + length bs \<le> cap \<Longrightarrow> emit cap out bs = Returns (out @ bs)"
  by (simp add: emit_def)

lemma repeats_split:
  assumes "repeats src off d n" and "x \<le> n"
  shows "repeats src off d x" and "repeats src off (d + x) (n - x)"
proof -
  show "repeats src off d x" using assms by (auto simp: repeats_def)
  have "src ! (d + (x + i)) = src ! (d + (x + i) - off)" if "i < n - x" for i
    using assms that by (auto simp: repeats_def)
  then show "repeats src off (d + x) (n - x)" using assms by (auto simp: repeats_def add.assoc)
qed

lemma emitCopy_decodes:
  assumes "repeats src off d n" and "off < 2 ^ 16"
  shows "\<exists>bs. length bs \<le> (if n = 0 then 0 else if n < 4 then 3 else n - 1) \<and> decodes src bs d (d + n) \<and>
    (\<forall>cap out. length out + length bs \<le> cap \<longrightarrow> emitCopy cap out off n = Returns (out @ bs))"
  using assms
proof (induction n arbitrary: d rule: less_induct)
  case (less n)
  consider "n = 0" | "4 \<le> n" "n < 12" "off < 2 ^ 11" | "0 < n" "\<not> (4 \<le> n \<and> n - 4 < 2 ^ 3 \<and> off < 2 ^ 11)" by force
  then show ?case
  proof cases
    case 1
    then show ?thesis by (intro exI [of _ "[]"]) (simp add: decodes_Nil emitCopy.simps)
  next
    case 2
    then show ?thesis using decodes_copy1 [OF less.prems(1) 2]
      by (intro exI [of _ "[byte (off div 256 mod 8 * 32 + (n - 4) * 4 + 1), byte (off mod 256)]"])
         (auto simp: emitCopy.simps emit_def)
  next
    case 3
    define x where "x = min n 64"
    have x: "0 < x" "x \<le> 64" "x \<le> n" using 3 by (auto simp: x_def)
    define hd where "hd = byte ((x - 1) * 4 + 2) # le_bytes 2 off"
    have hd: "decodes src hd d (d + x)" "length hd = 3"
      using decodes_copy2 [OF repeats_split(1) [OF less.prems(1) x(3)] x(1,2) less.prems(2)] by (simp_all add: hd_def)
    have smaller: "n - x < n" using x by auto
    from less.IH [OF smaller repeats_split(2) [OF less.prems(1) x(3)] less.prems(2)]
    obtain bs where bs: "length bs \<le> (if n - x = 0 then 0 else if n - x < 4 then 3 else n - x - 1)"
        "decodes src bs (d + x) (d + x + (n - x))"
      and run: "\<And>cap out. length out + length bs \<le> cap \<Longrightarrow> emitCopy cap out off (n - x) = Returns (out @ bs)"
      by blast
    have "emitCopy cap out off n = Returns (out @ hd @ bs)" if "length out + length (hd @ bs) \<le> cap" for cap out
    proof -
      have "emitCopy cap out off n = bind_outcome (emit cap out hd) (\<lambda>out. emitCopy cap out off (n - x))"
        using 3 by (subst emitCopy.simps) (auto simp: x_def hd_def Let_def)
      then show ?thesis using that run [of "out @ hd" cap] by (simp add: emit_room)
    qed
    moreover have "length (hd @ bs) \<le> (if n = 0 then 0 else if n < 4 then 3 else n - 1)"
      using bs(1) hd(2) x by (auto simp: x_def split: if_splits)
    moreover have "decodes src (hd @ bs) d (d + n)" using decodes_append [OF hd(1) bs(2)] x by simp
    ultimately show ?thesis by blast
  qed
qed

lemma length_literal_tag: "0 < k \<Longrightarrow> 6 * length (literal_tag (k - 1)) \<le> 6 + k \<and> length (literal_tag (k - 1)) \<le> 5"
  by (auto simp: literal_tag_def)

lemma emitPending_decodes:
  assumes "lit \<le> s" and "s \<le> length src" and "length src \<le> 2 ^ 32"
  shows "\<exists>bs. 6 * length bs \<le> 7 * (s - lit) + 6 \<and> decodes src bs lit s \<and>
    (\<forall>cap out. length out + length bs \<le> cap \<longrightarrow> emitPending cap out src lit s = Returns (out @ bs))"
proof (cases "lit = s")
  case True
  then show ?thesis by (intro exI [of _ "[]"]) (simp add: decodes_Nil emitPending_def)
next
  case False
  let ?k = "s - lit"
  let ?bs = "literal_tag (?k - 1) @ take ?k (drop lit src)"
  have k: "0 < ?k" "?k \<le> 2 ^ 32" "lit + ?k \<le> length src" using False assms by auto
  have "emitPending cap out src lit s = Returns (out @ ?bs)" if "length out + length ?bs \<le> cap" for cap out
    using that k False by (auto simp: emitPending_def emitLiteral_def emit_room Let_def)
  moreover have "6 * length ?bs \<le> 7 * ?k + 6" 
  proof -
    have "length ?bs = length (literal_tag (?k - 1)) + ?k" using k by simp
    with length_literal_tag [OF k(1)] show ?thesis by linarith
  qed
  moreover have "decodes src ?bs lit s" using decodes_literal [OF k] assms(1) by simp
  ultimately show ?thesis by blast
qed

lemma extend_bound: "s \<le> length src \<Longrightarrow> extend src s t \<le> length src"
  by (induction src s t rule: extend.induct) (subst extend.simps, auto)

lemma extend_matches: "s \<le> j \<Longrightarrow> j < extend src s t \<Longrightarrow> src ! j = src ! (t + (j - s))"
proof (induction src s t rule: extend.induct)
  case (1 src s t)
  show ?case
  proof (cases "j = s")
    case True
    then show ?thesis using "1.prems" by (auto simp: extend.simps [of src s t] split: if_splits)
  next
    case False
    then have j: "s + 1 \<le> j" "s < length src \<and> src ! s = src ! t" "j < extend src (s + 1) (t + 1)"
      using "1.prems" by (auto simp: extend.simps [of src s t] split: if_splits)
    then have "t + 1 + (j - (s + 1)) = t + (j - s)" by simp
    with "1.IH" [OF j(2,1,3)] show ?thesis by (simp only:)
  qed
qed

lemma match_repeats:
  assumes "t < s" and "s + 3 < length src" and "take 4 (drop s src) = take 4 (drop t src)"
  shows "repeats src (s - t) s (extend src (s + 4) (t + 4) - s)"
proof -
  let ?s = "extend src (s + 4) (t + 4)"
  have bound: "?s \<le> length src" "s + 4 \<le> ?s" using extend_bound extend_le assms(2) by auto
  have "src ! (s + i) = src ! (s + i - (s - t))" if "i < ?s - s" for i
  proof (cases "i < 4")
    case True
    then have "src ! (s + i) = take 4 (drop s src) ! i" using assms(2) by simp
    also have "\<dots> = src ! (t + i)" using True assms by (simp only: assms(3)) simp
    finally show ?thesis using assms(1) by (simp add: add.commute)
  next
    case False
    then have "src ! (s + i) = src ! (t + 4 + (s + i - (s + 4)))"
      using that by (intro extend_matches) auto
    then show ?thesis using False assms(1) by (simp add: add.commute)
  qed
  then show ?thesis using bound assms(1) by (auto simp: repeats_def)
qed

lemma Encode_loop_decodes:
  assumes n: "length src \<le> 2 ^ 32" and cap: "MaxEncodedLen (length src) \<le> cap"
  shows "lit \<le> s \<Longrightarrow> s \<le> length src \<Longrightarrow> (\<And>i. table i \<le> s) \<Longrightarrow> decodes src body 0 lit \<Longrightarrow>
    6 * length (hdr @ body) \<le> 60 + 7 * lit \<Longrightarrow>
    \<exists>lit' body'. Encode_loop cap src shift table s lit (hdr @ body) = Returns (lit', hdr @ body') \<and>
      lit' \<le> length src \<and> decodes src body' 0 lit' \<and> 6 * length (hdr @ body') \<le> 60 + 7 * lit'"
proof (induction "length src - s" arbitrary: s lit table body rule: less_induct)
  case less
  let ?p = "hash4 src shift s"
  let ?t = "table ?p"
  let ?table = "table(?p := s + 1)"
  show ?case
  proof (cases "s + 3 < length src")
    case False
    then show ?thesis using less.prems by (subst Encode_loop.simps) auto
  next
    case inside: True
    let ?miss = "?t = 0 \<or> s - (?t - 1) \<ge> maxOffset \<or> take 4 (drop s src) \<noteq> take 4 (drop (?t - 1) src)"
    show ?thesis
    proof (cases ?miss)
      case True
      then have "Encode_loop cap src shift table s lit (hdr @ body) = Encode_loop cap src shift ?table (s + 1) lit (hdr @ body)"
        using inside by (subst Encode_loop.simps) (simp add: Let_def)
      moreover have "?table i \<le> s + 1" for i using less.prems(3) [of i] by simp
      ultimately show ?thesis
        using less.hyps [of "s + 1" lit ?table body] less.prems inside by simp
    next
      case False
      let ?off = "s - (?t - 1)"
      let ?s = "extend src (s + 4) (?t - 1 + 4)"
      have t: "?t - 1 < s" using False less.prems(3) [of ?p] by linarith
      have rep: "repeats src ?off s (?s - s)" using match_repeats [OF t inside] False by simp
      have s': "s + 4 \<le> ?s" "?s \<le> length src" using extend_le extend_bound inside by auto
      obtain bs where bs: "6 * length bs \<le> 7 * (s - lit) + 6" "decodes src bs lit s"
        and emit_bs: "\<And>out. length out + length bs \<le> cap \<Longrightarrow> emitPending cap out src lit s = Returns (out @ bs)"
        using emitPending_decodes [OF less.prems(1,2) n] by blast
      have off: "?off < 2 ^ 16" using False by (auto simp: maxOffset_def)
      obtain cs where cs: "length cs \<le> ?s - s - 1" "decodes src cs s (s + (?s - s))"
        and emit_cs: "\<And>out. length out + length cs \<le> cap \<Longrightarrow> emitCopy cap out ?off (?s - s) = Returns (out @ cs)"
        using emitCopy_decodes [OF rep off] s' by (auto split: if_splits)
      have bound: "6 * length (hdr @ body @ bs @ cs) \<le> 60 + 7 * ?s"
        using less.prems(1,5) bs(1) cs(1) s' by simp
      also have "\<dots> \<le> 6 * cap" using cap s'(2) unfolding MaxEncodedLen_def by linarith
      finally have room: "length (hdr @ body @ bs @ cs) \<le> cap" by linarith
      have "Encode_loop cap src shift table s lit (hdr @ body) =
          Encode_loop cap src shift ?table ?s ?s (hdr @ body @ bs @ cs)"
        using inside False room emit_bs [of "hdr @ body"] emit_cs [of "hdr @ body @ bs"]
        by (subst Encode_loop.simps) (simp add: Let_def del: diff_diff_left Nat.diff_diff_right Suc_diff_le)
      moreover have "?table i \<le> ?s" for i using less.prems(3) [of i] s' by auto
      moreover have "decodes src (body @ bs @ cs) 0 ?s"
        using decodes_append [OF less.prems(4) decodes_append [OF bs(2) cs(2)]] s' by simp
      ultimately show ?thesis
        using less.hyps [of ?s ?s ?table "body @ bs @ cs"] bound s' inside by simp
    qed
  qed
qed

lemma Encode_decodes:
  assumes n: "length src \<le> 2 ^ 32"
  shows "\<exists>body. snappy_Encode dst src = Returns (PutUvarint (length src) @ body) \<and> decodes src body 0 (length src)
    \<and> length (PutUvarint (length src) @ body) \<le> MaxEncodedLen (length src)"
proof -
  let ?n = "length src"
  let ?hdr = "PutUvarint ?n"
  let ?cap = "max (length dst) (MaxEncodedLen ?n)"
  have "?n < 128 ^ Suc 9" using n by simp
  then have hdr: "length ?hdr \<le> 10" using length_PutUvarint [of ?n 9] by simp
  have pending: "\<exists>bs. emitPending ?cap (?hdr @ body) src lit ?n = Returns (?hdr @ body @ bs) \<and> decodes src (body @ bs) 0 ?n
      \<and> length (?hdr @ body @ bs) \<le> MaxEncodedLen ?n"
    if body: "decodes src body 0 lit" "lit \<le> ?n" "6 * length (?hdr @ body) \<le> 60 + 7 * lit" for lit body
  proof -
    obtain bs where bs: "6 * length bs \<le> 7 * (?n - lit) + 6" "decodes src bs lit ?n"
      and emit: "\<And>cap out. length out + length bs \<le> cap \<Longrightarrow> emitPending cap out src lit ?n = Returns (out @ bs)"
      using emitPending_decodes [OF body(2) order_refl n] by blast
    have "6 * length (?hdr @ body @ bs) \<le> 66 + 7 * ?n" using body bs(1) by simp
    then have room: "length (?hdr @ body @ bs) \<le> MaxEncodedLen ?n" unfolding MaxEncodedLen_def by linarith
    then show ?thesis using emit [of "?hdr @ body" ?cap] decodes_append [OF body(1) bs(2)] by auto
  qed
  have start: "emit ?cap [] ?hdr = Returns ?hdr" using hdr by (simp add: emit_def MaxEncodedLen_def)
  show ?thesis
  proof (cases "?n \<le> 4")
    case True
    then show ?thesis using pending [of "[]" 0] start hdr by (auto simp: snappy_Encode_def Let_def decodes_Nil)
  next
    case False
    obtain lit body where loop: "Encode_loop ?cap src (table_shift ?n 24 256) (\<lambda>_. 0) 0 0 ?hdr = Returns (lit, ?hdr @ body)"
      and body: "lit \<le> ?n" "decodes src body 0 lit" "6 * length (?hdr @ body) \<le> 60 + 7 * lit"
      using Encode_loop_decodes [OF n max.cobounded2, of 0 0 "\<lambda>_. 0" "[]" ?hdr "length dst" "table_shift ?n 24 256"] hdr decodes_Nil
      by auto
    show ?thesis using pending [OF body(2,1,3)] loop start False by (auto simp: snappy_Encode_def Let_def)
  qed
qed

lemma Decode_decodes:
  assumes n: "length src < 2 ^ 63" "length src \<le> limit" and body: "decodes src body 0 (length src)"
  shows "snappy_Decode limit [] (PutUvarint (length src) @ body) = Returns (Inr src)"
proof -
  let ?n = "length src"
  let ?bs = "PutUvarint ?n @ body"
  let ?dst = "replicate ?n (CHR 0x00)"
  have len: "decodedLen ?bs = Inr (int ?n, int (length (PutUvarint ?n)))"
    using n Uvarint_Put [of ?n body] PutUvarint.simps [of ?n] by (simp add: decodedLen_def signed64_def split: if_splits)
  obtain dst' where dst': "length dst' = ?n" "take ?n dst' = take ?n src"
    and run: "\<And>pre rest. Decode_loop (pre @ body @ rest) ?dst 0 (length pre) = Decode_loop (pre @ body @ rest) dst' ?n (length pre + length body)"
    using body unfolding decodes_def by (metis length_replicate order_refl take0)
  have "Decode_loop ?bs ?dst 0 (length (PutUvarint ?n)) = Inr (dst', ?n)"
    using run [of "PutUvarint ?n" "[]"] by (simp add: Decode_loop.simps)
  then show ?thesis using len n dst' by (cases "?n = 0") (simp_all add: snappy_Decode_def Let_def)
qed

text \<open>How much a block can expand: a chunk of at least two bytes gives at most 64.\<close>

lemma copy_header_bound: "copy_header src s = Inr (len, offset, s') \<Longrightarrow> len \<le> 64 \<and> s + 1 \<le> s' \<and> s' \<le> length src"
proof -
  have "byte_at src s < 256" by (metis mod_less_divisor of_char_mod_256 zero_less_numeral)
  then have "4 + byte_at src s div 4 mod 8 \<le> 64" "1 + byte_at src s div 4 \<le> 64" by linarith+
  then show "copy_header src s = Inr (len, offset, s') \<Longrightarrow> ?thesis"
    by (auto simp: copy_header_def Let_def split: if_splits)
qed

lemma Decode_loop_bound:
  "Decode_loop src dst d s = Inr (dst', d') \<Longrightarrow> s \<le> length src \<Longrightarrow> d' \<le> d + 64 * (length src - s)"
proof (induction src dst d s rule: Decode_loop.induct)
  case (1 src dst d s)
  consider "s \<ge> length src" | "s < length src" "byte_at src s mod 4 = 0" | "s < length src" "byte_at src s mod 4 \<noteq> 0" by linarith
  then show ?case
  proof cases
    case 1
    then show ?thesis using "1.prems" by (simp add: Decode_loop.simps [of src dst d s])
  next
    case 2
    then obtain x s' where h: "literal_header src s = Inr (x, s')"
      using "1.prems"(1) by (auto simp: Decode_loop.simps [of src dst d s] split: sum.splits)
    then have room: "\<not> (int (x + 1) > int (length dst) - int d \<or> int (x + 1) > int (length src) - int s')"
      using 2 "1.prems"(1) by (auto simp: Decode_loop.simps [of src dst d s] Let_def split: if_splits)
    then have "Decode_loop src (take d dst @ take (x + 1) (drop s' src) @ drop (d + (x + 1)) dst) (d + (x + 1)) (s' + (x + 1)) = Inr (dst', d')"
      using 2 h "1.prems"(1) by (simp add: Decode_loop.simps [of src dst d s] Let_def)
    from "1.IH"(1) [OF _ _ h refl refl _ _ this] 2 room have "d' \<le> d + (x + 1) + 64 * (length src - (s' + (x + 1)))" by auto
    then show ?thesis using literal_header_later [OF h] room by auto
  next
    case 3
    then obtain len off s' where h: "copy_header src s = Inr (len, off, s')"
      using "1.prems"(1) by (auto simp: Decode_loop.simps [of src dst d s] split: sum.splits)
    then have room: "\<not> (off > d \<or> d + len > length dst)"
      using 3 "1.prems"(1) by (auto simp: Decode_loop.simps [of src dst d s] split: if_splits)
    then have "Decode_loop src (copy_loop len off d dst) (d + len) s' = Inr (dst', d')"
      using 3 h "1.prems"(1) by (simp add: Decode_loop.simps [of src dst d s])
    from "1.IH"(2) [OF _ _ h refl refl _ this] 3 room copy_header_bound [OF h]
    have "d' \<le> d + len + 64 * (length src - s')" by auto
    then show ?thesis using copy_header_bound [OF h] by auto
  qed
qed

lemma Decode_bound: "snappy_Decode limit dst src = Returns (Inr out) \<Longrightarrow> length out \<le> 64 * length src"
proof -
  assume "snappy_Decode limit dst src = Returns (Inr out)"
  then obtain dLen s dst1 dst' d where "Decode_loop src dst1 0 s = Inr (dst', d)" "out = take d dst'"
    by (auto simp: snappy_Decode_def Let_def split: sum.splits if_splits)
  then show ?thesis using Decode_loop_bound [of src dst1 0 s dst' d] Decode_loop.simps [of src dst1 0 s]
    by (cases "s \<le> length src") (auto simp: min_def split: if_splits)
qed

section \<open>Properties\<close>

text \<open>
  Decompression is bounded. Whatever block \<open>Decode\<close> accepts, its output is at most 64 times
  as long as the input, so a hostile block cannot claim more.
\<close>

theorem Decode_expansion:
  assumes "snappy_Decode limit dst src = Returns (Inr out)"
  shows "length out \<le> 64 * length src"
  by (rule Decode_bound [OF assms])

lemma Decode_expansion_witness: "\<exists>bs. snappy_Decode 10 [] bs = Returns (Inr ''abc'') \<and> length ''abc'' \<le> 64 * length bs"
proof -
  have "length ''abc'' \<le> 2 ^ 32" by simp
  then obtain body where "decodes ''abc'' body 0 (length ''abc'')" using Encode_decodes by blast
  then have "snappy_Decode 10 [] (PutUvarint (length ''abc'') @ body) = Returns (Inr ''abc'')" by (intro Decode_decodes) simp_all
  with Decode_expansion [OF this] show ?thesis by blast
qed

text \<open>
  C34: snappy round trip. For every source of at most four gigabytes, \<open>Encode\<close> returns without
  panicking, the block it returns is at most \<open>MaxEncodedLen\<close> bytes long whatever buffer it was
  given, and \<open>Decode\<close> turns it back into the source.
\<close>

theorem snappy_round_trip:
  assumes "length src \<le> 2 ^ 32" and "length src \<le> limit"
  shows "\<exists>bs. snappy_Encode dst src = Returns bs \<and> length bs \<le> MaxEncodedLen (length src) \<and>
    snappy_Decode limit [] bs = Returns (Inr src)"
  using Encode_decodes [OF assms(1), of dst] Decode_decodes [of src limit] assms by auto

lemma snappy_round_trip_witness:
  "\<exists>bs. snappy_Encode [] ''abcdabcd'' = Returns bs \<and> length bs \<le> 41 \<and> snappy_Decode 100 [] bs = Returns (Inr ''abcdabcd'')"
  using snappy_round_trip [of "''abcdabcd''" 100 "[]"] by (simp add: MaxEncodedLen_def)

text \<open>
  \<open>decodedLen\<close> tests the header's length only for zero. A varint that does not fit 64 bits
  gives a negative length, and \<open>Decode\<close> panics on such an input instead of returning
  \<open>ErrCorrupt\<close>.
\<close>

theorem Decode_panics_on_long_varint:
  assumes "list_all (\<lambda>c. of_char c \<ge> (128 :: nat)) cs" and "10 \<le> length cs" and "of_char c < (128 :: nat)"
  shows "snappy_Decode limit dst (cs @ c # rest) = Panics ''runtime error: index out of range''"
proof -
  have "\<exists>k>0. Uvarint_loop i x (cs @ c # rest) = (0, - int k)" if "10 \<le> i + length cs" for i x
    using that assms(1)
  proof (induction cs arbitrary: i x)
    case Nil
    then show ?case using assms(3) by (intro exI [of _ "i + 1"]) auto
  next
    case (Cons b cs)
    then have "10 \<le> (i + 1) + length cs" "list_all (\<lambda>c. of_char c \<ge> (128 :: nat)) cs" by simp_all
    from Cons.IH [OF this] Cons.prems show ?case by (simp add: Let_def)
  qed
  from this [of 0 0] assms(2) obtain k :: nat where "0 < k" "Uvarint (cs @ c # rest) = (0, - int k)"
    by (auto simp: Uvarint_def)
  then show ?thesis by (simp add: snappy_Decode_def decodedLen_def signed64_def Let_def)
qed

lemma Decode_panics_on_long_varint_witness:
  "snappy_Decode 100 [] (replicate 10 (CHR 0xFF) @ [CHR 0x01]) = Panics ''runtime error: index out of range''"
  using Decode_panics_on_long_varint [of "replicate 10 (CHR 0xFF)" "CHR 0x01" 100 "[]" "[]"] by (simp add: list_all_iff)

end
