(* ===== verification/Sarama_Message.thy ===== *)
theory Sarama_Message
  imports Sarama_Decoder Snappy_Block "HOL-Library.Sublist"
begin

declare be.simps [simp del]

text \<open>
  Kafka messages and message sets: \<open>message.go\<close>, \<open>message_set.go\<close> and \<open>snappy.go\<close> of sarama.

  The compressor of \<open>compress/gzip\<close> is a parameter (\<open>gzip_write\<close>, \<open>gzip_read\<close>); snappy is the
  one of \<open>Snappy_Block\<close>. \<open>grown\<close> gives the spare capacity behind a slice that grew by
  appending, and \<open>make_limit\<close> the longest slice that can be made. A compressed message holds a
  message set that is decoded by a recursive call; its depth is bounded by the goroutine's stack,
  and beyond it the process dies.
\<close>

record codecs =
  gzip_write :: "string \<Rightarrow> kafka_error + string"
  gzip_read :: "string \<Rightarrow> kafka_error + string"
  grown :: "string \<Rightarrow> string"
  make_limit :: nat

section \<open>snappy.go\<close>

definition snappyMagic :: string where
  "snappyMagic = map char_of [130, 83, 78, 65, 80, 80, 89, 0 :: nat]"

fun snappy_text :: "snappy_error \<Rightarrow> string" where
  "snappy_text ErrCorrupt = ''snappy: corrupt input''"
| "snappy_text ErrUnsupported = ''snappy: unsupported input''"
| "snappy_text ErrTooLarge = ''snappy: decoded block is too large''"
| "snappy_text ErrLiteralLength = ''snappy: unsupported literal length''"
| "snappy_text ErrCopy4 = ''snappy: unsupported COPY_4 tag''"

text \<open>The loop over the blocks of the framed format; positions are unsigned 32-bit numbers.\<close>

function snappy_frames :: "nat \<Rightarrow> string \<Rightarrow> nat \<Rightarrow> nat \<Rightarrow> (snappy_error + string) outcome" where
  "snappy_frames limit buf end pos =
     (if pos < end then
        let p1 = (pos + 4) mod 2 ^ 32 in
        if p1 < pos \<or> length buf < p1 then Panics ''runtime error: slice bounds out of range''
        else
          let size = nat (of_be (take 4 (drop pos buf))); p2 = (p1 + size) mod 2 ^ 32 in
          if p2 < p1 \<or> length buf < p2 then Panics ''runtime error: slice bounds out of range''
          else bind_outcome (snappy_Decode limit [] (take size (drop p1 buf))) (\<lambda>r.
            case r of Inl e \<Rightarrow> Returns (Inl e)
            | Inr chunk \<Rightarrow> bind_outcome (snappy_frames limit buf end p2) (\<lambda>r. Returns (map_sum id ((@) chunk) r)))
      else Returns (Inr []))"
  by pat_completeness auto
termination
proof (relation "measure (\<lambda>(limit, buf, end, pos). end - pos)", goal_cases)
  case (2 limit buf "end" pos)
  have "pos \<noteq> (pos + 4) mod 2 ^ 32"
  proof
    assume a: "pos = (pos + 4) mod 2 ^ 32"
    moreover have "(pos + 4) mod 2 ^ 32 < 2 ^ 32" by simp
    ultimately have "pos < 2 ^ 32" by linarith
    with a show False by (cases "pos + 4 < 2 ^ 32") (auto simp: mod_if split: if_splits)
  qed
  then have "pos < (pos + 4) mod 2 ^ 32" if "\<not> (pos + 4) mod 2 ^ 32 < pos" using that by linarith
  with 2 show ?case by (auto intro!: diff_less_mono2)
qed simp

declare snappy_frames.simps [simp del]

definition snappyEncode :: "string \<Rightarrow> string outcome" where
  "snappyEncode src = snappy_Encode [] src"

text \<open>
  \<open>src[:8]\<close> reaches into the spare capacity of a shorter slice. An empty result is nil: nothing
  was appended, or \<open>Decode\<close> returned a prefix of its nil buffer.
\<close>

definition snappyDecode :: "codecs \<Rightarrow> string \<Rightarrow> string \<Rightarrow> (kafka_error + string \<times> string) outcome" where
  "snappyDecode cs src spare =
     (if length (src @ spare) < 8 then Panics ''runtime error: slice bounds out of range''
      else if take 8 (src @ spare) = snappyMagic then
        bind_outcome (snappy_frames (make_limit cs) (src @ spare) (length src mod 2 ^ 32) 16) (\<lambda>r.
          case r of Inl e \<Rightarrow> Returns (Inl (CompressionError (snappy_text e))) | Inr v \<Rightarrow> Returns (Inr (v, grown cs v)))
      else
        bind_outcome (snappy_Decode (make_limit cs) [] src) (\<lambda>r.
          case r of Inl e \<Rightarrow> Returns (Inl (CompressionError (snappy_text e))) | Inr v \<Rightarrow> Returns (Inr (v, []))))"

section \<open>message.go, message_set.go\<close>

datatype Message = Message (Codec: int) (Key: "string option") (Val: "string option")
    (MSet: "MessageSet option") (compressedCache: "string option")
  and MessageBlock = MessageBlock (Offset: int) (Msg: Message)
  and MessageSet = MessageSet (PartialTrailingMessage: bool) (Messages: "MessageBlock list")

definition CompressionNone :: int where "CompressionNone = 0"
definition CompressionGZIP :: int where "CompressionGZIP = 1"
definition CompressionSnappy :: int where "CompressionSnappy = 2"

definition messageFormat :: int where "messageFormat = 0"

definition value_bytes :: "string option \<Rightarrow> string" where
  "value_bytes v = (case v of None \<Rightarrow> [] | Some s \<Rightarrow> s)"

subsection \<open>Encoding\<close>

text \<open>The compressed value, where the codec is one that compresses.\<close>

definition compress :: "codecs \<Rightarrow> Message \<Rightarrow> (kafka_error + string) outcome" where
  "compress cs m =
     (if Codec m = CompressionGZIP then Returns (gzip_write cs (value_bytes (Val m)))
      else if Codec m = CompressionSnappy then bind_outcome (snappyEncode (value_bytes (Val m))) (\<lambda>b. Returns (Inr b))
      else Returns (Inl (PacketEncodingError (''Unsupported compression codec: '' @ FormatInt (Codec m)))))"

definition Message_payload :: "codecs \<Rightarrow> Message \<Rightarrow> packetEncoder list" where
  "Message_payload cs m =
     (case compressedCache m of
        Some c \<Rightarrow> [PutBytes (Some c), Pop]
      | None \<Rightarrow>
          if Codec m = CompressionNone then [PutBytes (Val m), Pop]
          else case compress cs m of
            Returns (Inr b) \<Rightarrow> [PutBytes (Some b), Pop]
          | Returns (Inl e) \<Rightarrow> [Fail e]
          | Panics msg \<Rightarrow> [Crash msg]
          | Exits msg \<Rightarrow> [Crash msg])"

definition Message_encode :: "codecs \<Rightarrow> Message \<Rightarrow> packetEncoder list" where
  "Message_encode cs m =
     [PushCRC, PutInt8 messageFormat, PutInt8 (Codec m mod 4), PutBytes (Key m)] @ Message_payload cs m"

text \<open>The message after a pass of \<open>encode\<close>: the cache is filled by one pass and emptied by the next.\<close>

definition Message_cached :: "codecs \<Rightarrow> Message \<Rightarrow> Message" where
  "Message_cached cs m =
     (let cache = (case compressedCache m of
        Some _ \<Rightarrow> None
      | None \<Rightarrow> if Codec m = CompressionNone then None
               else case compress cs m of Returns (Inr b) \<Rightarrow> Some b | _ \<Rightarrow> None)
      in Message (Codec m) (Key m) (Val m) (MSet m) cache)"

definition MessageBlock_encode :: "codecs \<Rightarrow> MessageBlock \<Rightarrow> packetEncoder list" where
  "MessageBlock_encode cs b = [PutInt64 (Offset b), PushLength] @ Message_encode cs (Msg b) @ [Pop]"

definition MessageSet_encode :: "codecs \<Rightarrow> MessageSet \<Rightarrow> packetEncoder list" where
  "MessageSet_encode cs ms = concat (map (MessageBlock_encode cs) (Messages ms))"

definition MessageSet_cached :: "codecs \<Rightarrow> MessageSet \<Rightarrow> MessageSet" where
  "MessageSet_cached cs ms =
     MessageSet (PartialTrailingMessage ms) (map (\<lambda>b. MessageBlock (Offset b) (Message_cached cs (Msg b))) (Messages ms))"

definition addMessage :: "Message \<Rightarrow> MessageSet \<Rightarrow> MessageSet" where
  "addMessage m ms = MessageSet (PartialTrailingMessage ms) (Messages ms @ [MessageBlock 0 m])"

definition MessageBlock_Messages :: "MessageBlock \<Rightarrow> MessageBlock list" where
  "MessageBlock_Messages b = (case MSet (Msg b) of Some ms \<Rightarrow> Messages ms | None \<Rightarrow> [b])"

subsection \<open>Decoding\<close>

type_synonym set_decoder = "string \<Rightarrow> string \<Rightarrow> (kafka_error + MessageSet) outcome"

text \<open>A decompressed value is kept and its message set decoded; the method returns without \<open>pop\<close>.\<close>

definition with_set :: "set_decoder \<Rightarrow> int \<Rightarrow> string option \<Rightarrow> string option \<Rightarrow> string \<Rightarrow> Message dec" where
  "with_set decodeSet codec key val spare d =
     bind_outcome (decodeSet (value_bytes val) spare) (\<lambda>r.
       case r of Inl e \<Rightarrow> dfail e d | Inr ms \<Rightarrow> dret (Message codec key val (Some ms) None) d)"

definition Message_value :: "codecs \<Rightarrow> set_decoder \<Rightarrow> int \<Rightarrow> string option \<Rightarrow> string option \<Rightarrow> Message dec" where
  "Message_value cs decodeSet codec key val =
     (if codec = CompressionNone then dbind rd_pop (\<lambda>_. dret (Message codec key val None None))
      else if codec = CompressionGZIP then
        (case val of
           None \<Rightarrow> dfail (PacketDecodingError ''GZIP compression specified, but no data to uncompress'')
         | Some v \<Rightarrow>
             (case gzip_read cs v of
                Inl e \<Rightarrow> dfail e
              | Inr u \<Rightarrow> with_set decodeSet codec key (Some u) (grown cs u)))
      else if codec = CompressionSnappy then
        (case val of
           None \<Rightarrow> dfail (PacketDecodingError ''Snappy compression specified, but no data to uncompress'')
         | Some v \<Rightarrow> (\<lambda>d.
             bind_outcome (snappyDecode cs v (drop (rd_off d) (rd_raw d) @ rd_spare d)) (\<lambda>r.
               case r of Inl e \<Rightarrow> dfail e d
               | Inr (u, spare) \<Rightarrow> with_set decodeSet codec key (if u = [] then None else Some u) spare d)))
      else dfail (PacketDecodingError (''Invalid compression specified: '' @ FormatInt codec)))"

definition Message_decode :: "codecs \<Rightarrow> set_decoder \<Rightarrow> Message dec" where
  "Message_decode cs decodeSet =
     dbind (rd_push CRC32Field) (\<lambda>_.
     dbind getInt8 (\<lambda>format.
     if format \<noteq> messageFormat then dfail (PacketDecodingError ''Unexpected messageFormat'')
     else dbind getInt8 (\<lambda>attribute.
       dbind getBytes (\<lambda>key.
       dbind getBytes (\<lambda>val.
       Message_value cs decodeSet (attribute mod 4) key val)))))"

definition MessageBlock_decode :: "codecs \<Rightarrow> set_decoder \<Rightarrow> MessageBlock dec" where
  "MessageBlock_decode cs decodeSet =
     dbind getInt64 (\<lambda>off. in_field LengthField (dbind (Message_decode cs decodeSet) (\<lambda>m. dret (MessageBlock off m))))"

text \<open>
  The loop of \<open>MessageSet.decode\<close>. A block that is decoded takes at least one byte, so as many
  rounds as there are bytes left are enough (\<open>set_loop_enough\<close> below).
\<close>

fun set_loop :: "MessageBlock dec \<Rightarrow> nat \<Rightarrow> MessageSet dec" where
  "set_loop block 0 d = dret (MessageSet False []) d"
| "set_loop block (Suc n) d =
     (if remaining d > 0 then
        bind_outcome (block d) (\<lambda>(r, d').
          case r of
            Inl e \<Rightarrow> if e = ErrInsufficientData then dret (MessageSet True []) d' else dfail e d'
          | Inr b \<Rightarrow> dbind (set_loop block n) (\<lambda>ms. dret (MessageSet (PartialTrailingMessage ms) (b # Messages ms))) d')
      else dret (MessageSet False []) d)"

fun MessageSet_decode :: "codecs \<Rightarrow> nat \<Rightarrow> MessageSet dec" where
  "MessageSet_decode cs 0 d = Exits ''stack overflow''"
| "MessageSet_decode cs (Suc depth) d =
     set_loop (MessageBlock_decode cs (\<lambda>v spare. bind_outcome (MessageSet_decode cs depth (new_decoder v spare)) (\<lambda>(r, _). Returns r)))
       (nat (remaining d)) d"

section \<open>Uncompressed messages\<close>

text \<open>The bytes of a message, and the messages the wire format can hold without compression.\<close>

definition Message_body :: "Message \<Rightarrow> string" where
  "Message_body m = be 1 messageFormat @ be 1 (Codec m mod 4) @ bytes_of (Key m) @ bytes_of (Val m)"

definition Message_bytes :: "Message \<Rightarrow> string" where
  "Message_bytes m = be 4 (ChecksumIEEE (Message_body m)) @ Message_body m"

definition bytes_ok :: "string option \<Rightarrow> bool" where
  "bytes_ok p = (case p of None \<Rightarrow> True | Some s \<Rightarrow> length s \<le> 2 ^ 30)"

definition Message_ok :: "Message \<Rightarrow> bool" where
  "Message_ok m \<longleftrightarrow> Codec m = CompressionNone \<and> bytes_ok (Key m) \<and> bytes_ok (Val m) \<and> MSet m = None \<and> compressedCache m = None"

definition MessageBlock_bytes :: "MessageBlock \<Rightarrow> string" where
  "MessageBlock_bytes b = be 8 (Offset b) @ be 4 (int (length (Message_bytes (Msg b)))) @ Message_bytes (Msg b)"

definition MessageBlock_ok :: "MessageBlock \<Rightarrow> bool" where
  "MessageBlock_ok b \<longleftrightarrow> fits 64 (Offset b) \<and> Message_ok (Msg b)"

lemma bytes_okD: "bytes_ok p \<Longrightarrow> p = Some s \<Longrightarrow> length s \<le> MaxInt32"
  by (simp add: bytes_ok_def MaxInt32_def)

lemma length_Message_bytes: "Message_ok m \<Longrightarrow> length (Message_body m) < 2 ^ 32 \<and> length (Message_bytes m) < 2 ^ 32"
  by (auto simp: Message_ok_def Message_bytes_def Message_body_def bytes_of_def bytes_ok_def split: option.splits)

lemma Message_writes:
  assumes "Message_ok m"
  shows "writes (Message_encode cs m) (Message_bytes m)"
proof -
  have k: "bytes_ok (Key m)" "bytes_ok (Val m)" and c: "Codec m = CompressionNone" "compressedCache m = None"
    using assms by (simp_all add: Message_ok_def)
  have "writes ([PutInt8 messageFormat] @ [PutInt8 (Codec m mod 4)] @ [PutBytes (Key m)] @ [PutBytes (Val m)]) (Message_body m)"
    unfolding Message_body_def
    by (intro writes_append writes_put writes_Bytes) (use k bytes_okD in blast)+
  from writes_crc [OF this] c show ?thesis
    by (simp add: Message_encode_def Message_payload_def Message_bytes_def)
qed

lemma MessageBlock_writes:
  assumes "MessageBlock_ok b"
  shows "writes (MessageBlock_encode cs b) (MessageBlock_bytes b)"
proof -
  have "writes (PushLength # Message_encode cs (Msg b) @ [Pop]) (be 4 (int (length (Message_bytes (Msg b)))) @ Message_bytes (Msg b))"
    using assms by (intro writes_length Message_writes) (simp add: MessageBlock_ok_def)
  from writes_Cons [OF writes_put(4) this] show ?thesis
    by (simp add: MessageBlock_encode_def MessageBlock_bytes_def)
qed

lemma MessageSet_writes:
  assumes "list_all MessageBlock_ok (Messages ms)"
  shows "writes (MessageSet_encode cs ms) (concat (map MessageBlock_bytes (Messages ms)))"
  unfolding MessageSet_encode_def using assms
  by (intro writes_concat MessageBlock_writes) (simp add: list_all_iff)

lemma readsD: "parses p bs x \<Longrightarrow> p (rd_at pre (bs @ post) st) = Returns (Inr x, rd_at (pre @ bs) post st)"
  unfolding parses_def by blast

lemma Message_reads:
  assumes "Message_ok m"
  shows "parses (Message_decode cs dec) (Message_bytes m) m"
proof -
  have k: "bytes_ok (Key m)" "bytes_ok (Val m)" and c: "Codec m = 0"
    and m: "m = Message 0 (Key m) (Val m) None None"
    using assms by (cases m; simp add: Message_ok_def CompressionNone_def)+
  have zero: "parses getInt8 (be 1 0) 0" by (rule reads_Ints) (simp add: fits_def)
  have key: "parses getBytes (bytes_of (Key m)) (Key m)" and val: "parses getBytes (bytes_of (Val m)) (Val m)"
    using k bytes_okD by (auto intro: reads_Bytes)
  let ?body = "Message_body m"
  let ?h = "be 4 (ChecksumIEEE ?body)"
  have body: "?body = be 1 0 @ be 1 0 @ bytes_of (Key m) @ bytes_of (Val m)"
    by (simp add: Message_body_def messageFormat_def c)
  have "of_be ?h = ChecksumIEEE ?body" using ChecksumIEEE_range [of ?body] by (simp add: of_be_be)
  then have pop: "rd_pop (rd_at (pre @ ?h @ ?body) post (CRC32Field (length pre) # fst st, snd st)) = Returns (Inr (), rd_at (pre @ ?h @ ?body) post st)" for pre post st
    using rd_pop_at [of ?h PushCRC ?body pre post st] length_Message_bytes [OF assms] by simp
  show ?thesis
    unfolding parses_def Message_bytes_def
  proof (intro allI)
    fix pre post st
    have push: "rd_push CRC32Field (rd_at pre ((?h @ ?body) @ post) st)
        = Returns (Inr (), rd_at (pre @ ?h) (?body @ post) (CRC32Field (length pre) # fst st, snd st))"
      using rd_push_at [of ?h CRC32Field pre "?body @ post" st] by simp
    show "Message_decode cs dec (rd_at pre ((?h @ ?body) @ post) st) = Returns (Inr m, rd_at (pre @ ?h @ ?body) post st)"
      using pop [of pre post st] unfolding Message_decode_def
      by (simp add: dbind_def push [unfolded body append_assoc One_nat_def] body readsD [OF zero, unfolded One_nat_def] readsD [OF key] readsD [OF val] messageFormat_def
          Message_value_def CompressionNone_def dret_def m [symmetric])
  qed
qed

lemma MessageBlock_reads:
  assumes "MessageBlock_ok b"
  shows "parses (MessageBlock_decode cs dec) (MessageBlock_bytes b) b"
proof -
  have b: "fits 64 (Offset b)" "Message_ok (Msg b)" using assms by (simp_all add: MessageBlock_ok_def)
  have "parses (dbind (Message_decode cs dec) (\<lambda>m. dret (MessageBlock (Offset b) m))) (Message_bytes (Msg b)) b"
    using reads_map [where f = "MessageBlock (Offset b)", OF Message_reads [OF b(2)]] by simp
  from reads_length [OF this] length_Message_bytes [OF b(2)] b(1) show ?thesis
    unfolding MessageBlock_decode_def MessageBlock_bytes_def by (intro reads_dbind [OF reads_Ints(4)]) simp_all
qed

lemma MessageBlock_bytes_length: "Message_ok (Msg b) \<Longrightarrow> 26 \<le> length (MessageBlock_bytes b)"
  by (auto simp: MessageBlock_bytes_def Message_bytes_def Message_body_def bytes_of_def split: option.split)

text \<open>What the loop makes of a run of blocks followed by something it stops at.\<close>

lemma set_loop_blocks:
  assumes "list_all MessageBlock_ok bs"
    and "n \<ge> length bs + k"
    and stop: "\<And>m. m \<ge> k \<Longrightarrow> set_loop (MessageBlock_decode cs dec) m (rd_at (pre @ concat (map MessageBlock_bytes bs)) post st)
        = Returns (Inr (MessageSet part []), d')"
  shows "set_loop (MessageBlock_decode cs dec) n (rd_at pre (concat (map MessageBlock_bytes bs) @ post) st)
    = Returns (Inr (MessageSet part bs), d')"
  using assms
proof (induction bs arbitrary: n pre)
  case Nil
  then show ?case by simp
next
  case (Cons b bs)
  obtain n' where n: "n = Suc n'" "n' \<ge> length bs + k" using Cons.prems(2) by (cases n) auto
  have b: "MessageBlock_ok b" and bs: "list_all MessageBlock_ok bs" using Cons.prems(1) by simp_all
  have len: "length (MessageBlock_bytes b) > 0" using MessageBlock_bytes_length b by (fastforce simp: MessageBlock_ok_def)
  let ?post = "concat (map MessageBlock_bytes bs) @ post"
  have "set_loop (MessageBlock_decode cs dec) n' (rd_at (pre @ MessageBlock_bytes b) ?post st) = Returns (Inr (MessageSet part bs), d')"
    by (rule Cons.IH [OF bs n(2)]) (use Cons.prems(3) in simp)
  moreover have "remaining (rd_at pre (MessageBlock_bytes b @ ?post) st) > 0" using len unfolding remaining_at length_append by linarith
  ultimately show ?case
    using readsD [OF MessageBlock_reads [OF b], of cs dec pre ?post st]
    by (simp add: n dbind_def dret_def del: remaining_at)
qed

lemma MessageSet_decode_bytes:
  assumes "list_all MessageBlock_ok bs"
  shows "MessageSet_decode cs (Suc depth) (new_decoder (concat (map MessageBlock_bytes bs)) spare)
    = Returns (Inr (MessageSet False bs), rd_at (concat (map MessageBlock_bytes bs)) [] ([], spare))"
proof -
  let ?raw = "concat (map MessageBlock_bytes bs)"
  have "length bs \<le> length ?raw"
    using assms
  proof (induction bs)
    case (Cons b bs)
    then have "26 \<le> length (MessageBlock_bytes b)" "length bs \<le> length (concat (map MessageBlock_bytes bs))"
      using MessageBlock_bytes_length by (auto simp: MessageBlock_ok_def)
    then have "length (b # bs) \<le> length (MessageBlock_bytes b) + length (concat (map MessageBlock_bytes bs))"
      unfolding list.size by linarith
    then show ?case by simp
  qed simp
  moreover have "set_loop (MessageBlock_decode cs dec) m (rd_at ?raw [] st) = Returns (Inr (MessageSet False []), rd_at ?raw [] st)" for dec m st
    by (cases m) (simp_all add: dret_def)
  ultimately have "set_loop (MessageBlock_decode cs dec) (length ?raw) (rd_at [] (?raw @ []) ([], spare))
      = Returns (Inr (MessageSet False bs), rd_at ?raw [] ([], spare))" for dec
    by (intro set_loop_blocks [where k = 0, OF assms]) simp_all
  then show ?thesis by (simp add: new_decoder_at)
qed

section \<open>Truncated input\<close>

text \<open>\<open>short p bs\<close>: on an input that ends inside \<open>bs\<close> the decoder reports that data is missing.\<close>

definition short :: "'a dec \<Rightarrow> string \<Rightarrow> bool" where
  "short p bs \<longleftrightarrow> (\<forall>pre part st. strict_prefix part bs \<longrightarrow>
     (\<exists>d'. p (rd_at pre part st) = Returns (Inl ErrInsufficientData, d')))"

lemma strict_prefix_append_cases:
  assumes "strict_prefix part (bs @ cs)"
  obtains "strict_prefix part bs" | more where "part = bs @ more" and "strict_prefix more cs"
proof (cases "strict_prefix part bs")
  case True
  then show ?thesis by (rule that(1))
next
  case False
  have "prefix part bs \<or> (\<exists>us. part = bs @ us \<and> prefix us cs)"
    using assms by (auto simp: strict_prefix_def prefix_append)
  then obtain us where "part = bs @ us" "prefix us cs" using False by (fastforce simp: strict_prefix_def)
  with assms show ?thesis by (intro that(2) [of us]) (auto simp: strict_prefix_def)
qed

lemma short_Nil [simp]: "short p []"
  by (simp add: short_def)

lemma short_dbind:
  assumes "parses p bs x" and "short p bs" and "short (f x) cs"
  shows "short (dbind p f) (bs @ cs)"
  unfolding short_def
proof (intro allI impI)
  fix pre part st
  assume "strict_prefix part (bs @ cs)"
  then show "\<exists>d'. dbind p f (rd_at pre part st) = Returns (Inl ErrInsufficientData, d')"
  proof (cases rule: strict_prefix_append_cases)
    case 1
    with assms(2) obtain d' where "p (rd_at pre part st) = Returns (Inl ErrInsufficientData, d')" unfolding short_def by blast
    then show ?thesis by (simp add: dbind_def)
  next
    case (2 more)
    with assms(3) obtain d' where "f x (rd_at (pre @ bs) more st) = Returns (Inl ErrInsufficientData, d')" unfolding short_def by blast
    then show ?thesis using readsD [OF assms(1)] 2 by (simp add: dbind_def)
  qed
qed

lemma strict_prefix_shorter: "strict_prefix part bs \<Longrightarrow> length part < length bs"
  by (rule prefix_length_less)

lemma short_Int: "length bs = k \<Longrightarrow> short (getInt k) bs"
  unfolding short_def getInt_def dbind_def getUint_def dshort_def
  by (auto dest: strict_prefix_shorter)

lemma short_Ints: "short getInt8 (be 1 x)" "short getInt64 (be 8 x)"
  by (simp_all add: getInt8_def getInt64_def short_Int)

lemma short_Bytes:
  assumes "bytes_ok p"
  shows "short getBytes (bytes_of p)"
proof (cases p)
  case None
  have i: "parses getInt32 (be 4 (-1)) (-1)" by (rule reads_Ints) (simp add: fits_def)
  have "short getBytes (be 4 (-1) @ [])" unfolding getBytes_def
    by (rule short_dbind [OF i]) (simp_all add: getInt32_def short_Int)
  then show ?thesis by (simp add: None bytes_of_def)
next
  case (Some s)
  have len: "length s \<le> 2 ^ 30" using assms by (simp add: Some bytes_ok_def)
  then have i: "parses getInt32 (be 4 (int (length s))) (int (length s))"
    by (intro reads_Ints) (simp add: fits_def)
  have h: "short getInt32 (be 4 (int (length s)))" by (simp add: getInt32_def short_Int)
  show ?thesis unfolding getBytes_def Some bytes_of_def option.case
    by (rule short_dbind [OF i h]) (auto simp: short_def dshort_def dest: strict_prefix_shorter)
qed

lemma short_push:
  assumes "length h = 4" and "short q bs"
  shows "short (dbind (rd_push f) (\<lambda>_. q)) (h @ bs)"
  unfolding short_def
proof (intro allI impI)
  fix pre part st
  assume "strict_prefix part (h @ bs)"
  then show "\<exists>d'. dbind (rd_push f) (\<lambda>_. q) (rd_at pre part st) = Returns (Inl ErrInsufficientData, d')"
  proof (cases rule: strict_prefix_append_cases)
    case 1
    then have "length part < 4" using assms(1) by (auto dest: strict_prefix_shorter)
    then show ?thesis by (simp add: dbind_def rd_push_def dshort_def)
  next
    case (2 more)
    with assms(2) obtain d' where "q (rd_at (pre @ h) more (f (length pre) # fst st, snd st)) = Returns (Inl ErrInsufficientData, d')"
      unfolding short_def by blast
    then show ?thesis using rd_push_at [OF assms(1)] 2 by (simp add: dbind_def)
  qed
qed

lemma Message_short:
  assumes "Message_ok m"
  shows "short (Message_decode cs dec) (Message_bytes m)"
proof -
  have k: "bytes_ok (Key m)" "bytes_ok (Val m)" and c: "Codec m = 0"
    using assms by (simp_all add: Message_ok_def CompressionNone_def)
  have zero: "parses getInt8 (be 1 0) 0" by (rule reads_Ints) (simp add: fits_def)
  have key: "parses getBytes (bytes_of (Key m)) (Key m)" and val: "parses getBytes (bytes_of (Val m)) (Val m)"
    using k bytes_okD by (auto intro: reads_Bytes)
  have "short (dbind getBytes (\<lambda>val. Message_value cs dec 0 (Key m) val)) (bytes_of (Val m) @ [])"
    by (rule short_dbind [OF val short_Bytes [OF k(2)]]) simp
  then have "short (dbind getBytes (\<lambda>key. dbind getBytes (\<lambda>val. Message_value cs dec 0 key val))) (bytes_of (Key m) @ bytes_of (Val m))"
    by (intro short_dbind [OF key short_Bytes [OF k(1)]]) simp
  then have "short (dbind getInt8 (\<lambda>attribute. dbind getBytes (\<lambda>key. dbind getBytes (\<lambda>val. Message_value cs dec (attribute mod 4) key val))))
      (be 1 0 @ bytes_of (Key m) @ bytes_of (Val m))"
    by (intro short_dbind [OF zero short_Ints(1)]) simp
  then show ?thesis
    unfolding Message_decode_def Message_bytes_def Message_body_def
    by (intro short_push short_dbind [OF zero [folded messageFormat_def] short_Ints(1)]) (simp_all add: c)
qed

lemma MessageBlock_short:
  assumes "MessageBlock_ok b"
  shows "short (MessageBlock_decode cs dec) (MessageBlock_bytes b)"
proof -
  have b: "fits 64 (Offset b)" "Message_ok (Msg b)" using assms by (simp_all add: MessageBlock_ok_def)
  have m: "short (dbind (Message_decode cs dec) (\<lambda>m. dret (MessageBlock (Offset b) m))) (Message_bytes (Msg b) @ [])"
    by (rule short_dbind [OF Message_reads [OF b(2)] Message_short [OF b(2)] short_Nil])
  have r: "parses (dbind (Message_decode cs dec) (\<lambda>m. dret (MessageBlock (Offset b) m))) (Message_bytes (Msg b)) b"
    using reads_map [where f = "MessageBlock (Offset b)", OF Message_reads [OF b(2)]] by simp
  have "short (dbind (dbind (Message_decode cs dec) (\<lambda>m. dret (MessageBlock (Offset b) m))) (\<lambda>x. dbind rd_pop (\<lambda>_. dret x)))
      (Message_bytes (Msg b) @ [])"
    using m by (intro short_dbind [OF r]) simp_all
  then have "short (in_field LengthField (dbind (Message_decode cs dec) (\<lambda>m. dret (MessageBlock (Offset b) m))))
      (be 4 (int (length (Message_bytes (Msg b)))) @ Message_bytes (Msg b))"
    unfolding in_field_def by (intro short_push) simp_all
  then show ?thesis
    unfolding MessageBlock_decode_def MessageBlock_bytes_def by (intro short_dbind [OF reads_Ints(4) short_Ints(2)]) (simp_all add: b)
qed

section \<open>The rounds of the loop are enough\<close>

text \<open>A decoder that succeeds keeps the buffer and does not move back; a block moves ahead.\<close>

definition forward :: "nat \<Rightarrow> 'a dec \<Rightarrow> bool" where
  "forward k p \<longleftrightarrow> (\<forall>d x d'. p d = Returns (Inr x, d') \<longrightarrow> rd_raw d' = rd_raw d \<and> rd_off d + k \<le> rd_off d')"

lemma forward_dbind:
  assumes "forward k p" and "\<And>x. forward 0 (f x)"
  shows "forward k (dbind p f)"
  unfolding forward_def
proof (intro allI impI)
  fix d y d' assume "dbind p f d = Returns (Inr y, d')"
  then obtain x d1 where "p d = Returns (Inr x, d1)" "f x d1 = Returns (Inr y, d')"
    by (cases "p d") (auto simp: dbind_def split: sum.splits)
  with assms show "rd_raw d' = rd_raw d \<and> rd_off d + k \<le> rd_off d'" unfolding forward_def by fastforce
qed

lemma forward_simps:
  "forward 0 (dret x)" "forward k (dfail e)" "forward k dshort" "forward 0 (rd_push f)" "forward 0 rd_pop" "forward k (getUint k)"
  by (auto simp: forward_def dret_def dfail_def dshort_def rd_push_def rd_skip_def getUint_def rd_pop_def Let_def
      bind_outcome_Returns_iff split: if_splits list.splits option.splits)

lemma forward_weaken: "forward k p \<Longrightarrow> forward 0 p"
  by (fastforce simp: forward_def)

lemma forward_Int: "forward k (getInt k)"
  unfolding getInt_def by (intro forward_dbind forward_simps)

lemma forward_Bytes: "forward 0 getBytes"
  unfolding getBytes_def getInt32_def
  by (rule forward_dbind [OF forward_weaken [OF forward_Int]])
     (auto simp: forward_def dret_def dfail_def dshort_def rd_skip_def split: if_splits)

lemma forward_set: "forward 0 (with_set dec codec key v spare)"
  unfolding forward_def
proof (intro allI impI)
  fix d x d' assume "with_set dec codec key v spare d = Returns (Inr x, d')"
  then have "d' = d"
    by (cases "dec (value_bytes v) spare") (auto simp: with_set_def dret_def dfail_def split: sum.splits)
  then show "rd_raw d' = rd_raw d \<and> rd_off d + 0 \<le> rd_off d'" by simp
qed

lemma forward_snappy:
  "forward 0 (\<lambda>d. bind_outcome (snappyDecode cs v (drop (rd_off d) (rd_raw d) @ rd_spare d)) (\<lambda>r.
     case r of Inl e \<Rightarrow> dfail e d | Inr (u, spare) \<Rightarrow> with_set dec codec key (f u) spare d))"
  unfolding forward_def
proof (intro allI impI)
  fix d x d'
  assume run: "bind_outcome (snappyDecode cs v (drop (rd_off d) (rd_raw d) @ rd_spare d)) (\<lambda>r.
     case r of Inl e \<Rightarrow> dfail e d | Inr (u, spare) \<Rightarrow> with_set dec codec key (f u) spare d) = Returns (Inr x, d')"
  then obtain u spare where "with_set dec codec key (f u) spare d = Returns (Inr x, d')"
    by (cases "snappyDecode cs v (drop (rd_off d) (rd_raw d) @ rd_spare d)") (auto simp: dfail_def split: sum.splits)
  then show "rd_raw d' = rd_raw d \<and> rd_off d + 0 \<le> rd_off d'" using forward_set unfolding forward_def by blast
qed

lemma forward_value: "forward 0 (Message_value cs dec codec key val)"
proof -
  have pop: "forward 0 (dbind rd_pop (\<lambda>_. dret (Message codec key val None None)))"
    by (intro forward_dbind forward_simps)
  show ?thesis unfolding Message_value_def
    by (simp only: split: if_split option.split sum.split) (intro conjI impI allI pop forward_simps forward_set forward_snappy)
qed

lemma forward_Block: "forward 8 (MessageBlock_decode cs dec)"
  unfolding MessageBlock_decode_def in_field_def Message_decode_def getInt64_def getInt8_def
  by (intro forward_dbind forward_Int forward_simps forward_Bytes forward_value
      forward_weaken [OF forward_Int] conjI impI | simp only: split: if_split)+

lemma set_loop_enough:
  assumes "forward 1 block" and "nat (remaining d) \<le> n"
  shows "set_loop block n d = set_loop block (nat (remaining d)) d"
  using assms(2)
proof (induction n arbitrary: d rule: less_induct)
  case (less n)
  show ?case
  proof (cases "remaining d > 0")
    case False
    then show ?thesis by (cases n) auto
  next
    case True
    obtain n' where n: "n = Suc n'" using True less.prems by (cases n) auto
    obtain m where m: "nat (remaining d) = Suc m" using True by (cases "nat (remaining d)") auto
    have "set_loop block n' d' = set_loop block m d'" if "block d = Returns (Inr b, d')" for b d'
    proof -
      have "rd_raw d' = rd_raw d" "rd_off d + 1 \<le> rd_off d'" using assms(1) that unfolding forward_def by blast+
      then have "nat (remaining d') \<le> m" using m by (simp add: remaining_def)
      then show ?thesis using less.IH [of n' d'] less.IH [of m d'] less.prems n m by simp
    qed
    then show ?thesis
      by (cases "block d") (auto simp: n m dbind_def True split: sum.split)
  qed
qed

lemma forward_1_Block: "forward 1 (MessageBlock_decode cs dec)"
  using forward_Block [of cs dec] by (fastforce simp: forward_def)

section \<open>Properties\<close>

text \<open>
  The loop of \<open>MessageSet.decode\<close> ends. Every block takes bytes, so the number of bytes left
  bounds the number of rounds, and any larger bound gives the same result.
\<close>

theorem MessageSet_decode_rounds:
  assumes "nat (remaining d) \<le> n"
  shows "set_loop (MessageBlock_decode cs decodeSet) n d = set_loop (MessageBlock_decode cs decodeSet) (nat (remaining d)) d"
  by (rule set_loop_enough [OF forward_1_Block assms])

text \<open>Codecs to try the properties on: a compressor that stores its input.\<close>

definition stored :: codecs where
  "stored = \<lparr>gzip_write = Inr, gzip_read = Inr, grown = (\<lambda>_. []), make_limit = 2 ^ 31\<rparr>"

lemma MessageSet_decode_rounds_witness:
  "set_loop (MessageBlock_decode stored (\<lambda>_ _. Panics [])) 7 (new_decoder ''abc'' []) =
   set_loop (MessageBlock_decode stored (\<lambda>_ _. Panics [])) 3 (new_decoder ''abc'' [])"
  using MessageSet_decode_rounds [of "new_decoder ''abc'' []" 7] by (simp add: remaining_def new_decoder_def)

text \<open>
  Message sets survive the wire. For every set of uncompressed messages, \<open>encode\<close> returns
  its bytes and \<open>MessageSet.decode\<close> of them gives back the same messages, with their offsets,
  keys (nil or empty are kept apart) and values, and checks every length and every CRC.
\<close>

theorem MessageSet_round_trip:
  assumes "list_all MessageBlock_ok bs"
    and "length (concat (map MessageBlock_bytes bs)) \<le> MaxRequestSize"
  shows "\<exists>raw d. encode (MessageSet_encode cs (MessageSet False bs)) (MessageSet_encode cs (MessageSet False bs)) = Returns (Inr raw) \<and>
    MessageSet_decode cs (Suc depth) (new_decoder raw spare) = Returns (Inr (MessageSet False bs), d)"
  using encode_bytes [OF MessageSet_writes MessageSet_writes, of "MessageSet False bs" "MessageSet False bs" cs cs]
    MessageSet_decode_bytes [OF assms(1)] assms
  by simp

lemma MessageSet_round_trip_witness:
  "\<exists>raw d. encode (MessageSet_encode stored (MessageSet False [MessageBlock 7 (Message 0 None (Some ''v'') None None)]))
      (MessageSet_encode stored (MessageSet False [MessageBlock 7 (Message 0 None (Some ''v'') None None)])) = Returns (Inr raw) \<and>
    MessageSet_decode stored 1 (new_decoder raw []) = Returns (Inr (MessageSet False [MessageBlock 7 (Message 0 None (Some ''v'') None None)]), d)"
  using MessageSet_round_trip [of "[MessageBlock 7 (Message 0 None (Some ''v'') None None)]" stored 0 "[]"]
  by (simp add: MessageBlock_ok_def Message_ok_def fits_def bytes_ok_def CompressionNone_def MessageBlock_bytes_def Message_bytes_def
      Message_body_def bytes_of_def MaxRequestSize_def)

text \<open>
  A partial message at the end. Wherever the broker cuts a message set off, the messages
  before the cut are returned and the set is marked as having an incomplete trailing message;
  the cut is not an error.
\<close>

theorem MessageSet_decode_truncated:
  assumes "list_all MessageBlock_ok bs" and "MessageBlock_ok b" and "strict_prefix part (MessageBlock_bytes b)" and "part \<noteq> []"
  shows "\<exists>d'. MessageSet_decode cs (Suc depth) (new_decoder (concat (map MessageBlock_bytes bs) @ part) spare)
    = Returns (Inr (MessageSet True bs), d')"
proof -
  let ?raw = "concat (map MessageBlock_bytes bs)"
  let ?block = "MessageBlock_decode cs (\<lambda>v spare. bind_outcome (MessageSet_decode cs depth (new_decoder v spare)) (\<lambda>(r, _). Returns r))"
  have "1 \<le> length part" using assms(4) by (cases part) auto
  obtain d' where "?block (rd_at ?raw part ([], spare)) = Returns (Inl ErrInsufficientData, d')"
    using MessageBlock_short [OF assms(2)] assms(3) unfolding short_def by blast
  then have stop: "set_loop ?block m (rd_at ([] @ ?raw) part ([], spare)) = Returns (Inr (MessageSet True []), d')" if "m \<ge> 1" for m
    using that assms(4) by (cases m) (auto simp: dret_def)
  define d0 where "d0 = new_decoder (?raw @ part) spare"
  have d0: "d0 = rd_at [] (?raw @ part) ([], spare)" by (simp add: d0_def new_decoder_at)
  have "set_loop ?block (length bs + length part + length ?raw) d0 = Returns (Inr (MessageSet True bs), d')"
    unfolding d0 by (rule set_loop_blocks [OF assms(1) _ stop]) (use \<open>1 \<le> length part\<close> in simp_all)
  moreover have "set_loop ?block (length bs + length part + length ?raw) d0 = set_loop ?block (nat (remaining d0)) d0"
    by (rule set_loop_enough [OF forward_1_Block]) (simp add: d0)
  ultimately have "MessageSet_decode cs (Suc depth) d0 = Returns (Inr (MessageSet True bs), d')" by simp
  then show ?thesis unfolding d0_def by blast
qed

lemma MessageSet_decode_truncated_witness:
  "\<exists>d'. MessageSet_decode stored 1 (new_decoder (MessageBlock_bytes (MessageBlock 7 (Message 0 None None None None)) @
      take 20 (MessageBlock_bytes (MessageBlock 8 (Message 0 None None None None)))) [])
    = Returns (Inr (MessageSet True [MessageBlock 7 (Message 0 None None None None)]), d')"
proof -
  let ?b = "MessageBlock_bytes (MessageBlock 8 (Message 0 None None None None))"
  have ok: "MessageBlock_ok (MessageBlock n (Message 0 None None None None))" if "n \<in> {7, 8}" for n
    using that by (auto simp: MessageBlock_ok_def Message_ok_def fits_def bytes_ok_def CompressionNone_def)
  have len: "length ?b = 26"
    by (simp add: MessageBlock_bytes_def Message_bytes_def Message_body_def bytes_of_def)
  then have "strict_prefix (take 20 ?b) ?b" "take 20 ?b \<noteq> []"
    by (auto simp: strict_prefix_def take_is_prefix dest: arg_cong [of _ _ length])
  from MessageSet_decode_truncated [OF _ ok this, of "[MessageBlock 7 (Message 0 None None None None)]" stored 0 "[]"] ok [of 7]
  show ?thesis by simp
qed

section \<open>Compressed messages\<close>

text \<open>No block that decodes starts with the magic number of the framed format.\<close>

lemma magic_not_block:
  assumes "take 8 src = snappyMagic"
  shows "snappy_Decode limit [] src \<noteq> Returns (Inr v)"
proof -
  obtain rest where src: "src = snappyMagic @ rest" using assms by (metis append_take_drop_id)
  have magic: "snappyMagic = [char_of (130 :: nat), char_of (83 :: nat), char_of (78 :: nat), char_of (65 :: nat), char_of (80 :: nat),
      char_of (80 :: nat), char_of (89 :: nat), char_of (0 :: nat)]" by (simp add: snappyMagic_def)
  have "decodedLen src = Inr (10626, 2)"
    unfolding src magic by (simp add: decodedLen_def Uvarint_def Let_def signed64_def)
  moreover have "Decode_loop src dst 0 2 = Inl ErrCorrupt" for dst
    unfolding src magic by (subst Decode_loop.simps) (simp add: copy_header_def Let_def numeral_2_eq_2)
  ultimately show ?thesis by (simp add: snappy_Decode_def Let_def)
qed

lemma snappyDecode_Encode:
  assumes "snappyEncode raw = Returns z" and "8 \<le> length z" and "length raw \<le> 2 ^ 32" and "length raw \<le> make_limit cs"
  shows "snappyDecode cs z spare = Returns (Inr (raw, []))"
proof -
  obtain body where "z = PutUvarint (length raw) @ body" "decodes raw body 0 (length raw)"
    using Encode_decodes [OF assms(3), of "[]"] assms(1) by (auto simp: snappyEncode_def)
  then have dec: "snappy_Decode (make_limit cs) [] z = Returns (Inr raw)"
    using Decode_decodes [of raw "make_limit cs" body] assms(3,4) by simp
  with magic_not_block [of z "make_limit cs" raw] have "take 8 z \<noteq> snappyMagic" by blast
  then show ?thesis using assms(2) dec by (simp add: snappyDecode_def)
qed

definition snappy_body :: "string option \<Rightarrow> string \<Rightarrow> string" where
  "snappy_body key z = be 1 messageFormat @ be 1 CompressionSnappy @ bytes_of key @ bytes_of (Some z)"

lemma snappy_Message_writes:
  assumes "snappyEncode raw = Returns z" and "bytes_ok key" and "length z \<le> 2 ^ 30"
  shows "writes (Message_encode cs (Message CompressionSnappy key (Some raw) None None))
    (be 4 (ChecksumIEEE (snappy_body key z)) @ snappy_body key z)"
proof -
  have "writes ([PutInt8 messageFormat] @ [PutInt8 CompressionSnappy] @ [PutBytes key] @ [PutBytes (Some z)]) (snappy_body key z)"
    unfolding snappy_body_def using assms(2,3)
    by (intro writes_append writes_put writes_Bytes) (auto dest: bytes_okD simp: MaxInt32_def)
  from writes_crc [OF this] assms(1) show ?thesis
    by (simp add: Message_encode_def Message_payload_def compress_def value_bytes_def
        CompressionNone_def CompressionGZIP_def CompressionSnappy_def)
qed

lemma snappy_Message_decode:
  assumes z: "snappyEncode raw = Returns z" "8 \<le> length z" "length z \<le> 2 ^ 30" and key: "bytes_ok key"
    and raw: "raw \<noteq> []" "length raw \<le> 2 ^ 32" "length raw \<le> make_limit cs"
    and set: "decodeSet raw [] = Returns (Inr ms)" and h: "length h = 4"
  shows "Message_decode cs decodeSet (rd_at pre (h @ snappy_body key z @ post) st) =
    Returns (Inr (Message CompressionSnappy key (Some raw) (Some ms) None),
      rd_at (pre @ h @ snappy_body key z) post (CRC32Field (length pre) # fst st, snd st))"
proof -
  have zero: "parses getInt8 (be 1 0) 0" and two: "parses getInt8 (be 1 2) 2" by (intro reads_Ints; simp add: fits_def)+
  have k: "parses getBytes (bytes_of key) key" and v: "parses getBytes (bytes_of (Some z)) (Some z)"
    using key z(3) by (auto intro!: reads_Bytes dest: bytes_okD simp: MaxInt32_def)
  have body: "snappy_body key z = be 1 0 @ be 1 2 @ bytes_of key @ bytes_of (Some z)"
    by (simp add: snappy_body_def messageFormat_def CompressionSnappy_def)
  show ?thesis unfolding body Message_decode_def
    by (simp add: dbind_def rd_push_at [OF h] readsD [OF zero, unfolded One_nat_def] readsD [OF two, unfolded One_nat_def]
        readsD [OF k] readsD [OF v] messageFormat_def Message_value_def CompressionNone_def CompressionGZIP_def
        CompressionSnappy_def snappyDecode_Encode [OF z(1,2) raw(2,3)] raw(1) with_set_def value_bytes_def set dret_def)
qed

lemma snappy_Block_decode:
  assumes z: "snappyEncode raw = Returns z" "8 \<le> length z" "length z \<le> 2 ^ 30" and key: "bytes_ok key"
    and raw: "raw \<noteq> []" "length raw \<le> 2 ^ 32" "length raw \<le> make_limit cs"
    and set: "decodeSet raw [] = Returns (Inr ms)" and len: "length len = 4" and off: "fits 64 off"
  shows "MessageBlock_decode cs decodeSet
      (rd_at pre (be 8 off @ len @ be 4 (ChecksumIEEE (snappy_body key z)) @ snappy_body key z @ post) st) =
    Returns (Inr (MessageBlock off (Message CompressionSnappy key (Some raw) (Some ms) None)),
      rd_at (pre @ be 8 off @ len @ be 4 (ChecksumIEEE (snappy_body key z)) @ snappy_body key z) post
        (LengthField (length pre + 8) # fst st, snd st))"
proof -
  let ?body = "snappy_body key z"
  let ?h = "be 4 (ChecksumIEEE ?body)"
  have h: "length ?h = 4" by simp
  have "of_be ?h = ChecksumIEEE ?body" using ChecksumIEEE_range [of ?body] by (simp add: of_be_be)
  moreover have "length ?body < 2 ^ 32"
    using key z(3) by (auto simp: snappy_body_def bytes_of_def bytes_ok_def split: option.splits)
  ultimately have pop: "rd_pop (rd_at (p @ ?h @ ?body) post (CRC32Field (length p) # st', sp)) = Returns (Inr (), rd_at (p @ ?h @ ?body) post (st', sp))"
    for p st' sp using rd_pop_at [OF h, of PushCRC ?body p post "(st', sp)"] by simp
  show ?thesis
    using pop [of "pre @ be 8 off @ len"]
    unfolding MessageBlock_decode_def in_field_def dbind_def
    by (simp add: readsD [OF reads_Ints(4) [OF off]] rd_push_at [OF len] snappy_Message_decode [where decodeSet = decodeSet, OF z key raw set h]
        dret_def len)
qed

lemma snappy_Set_decode:
  assumes z: "snappyEncode raw = Returns z" "8 \<le> length z" "length z \<le> 2 ^ 30" and key: "bytes_ok key"
    and bs: "list_all MessageBlock_ok bs" "bs \<noteq> []" "raw = concat (map MessageBlock_bytes bs)"
    and raw: "length raw \<le> 2 ^ 32" "length raw \<le> make_limit cs" and len: "length len = 4" and off: "fits 64 off"
  shows "\<exists>d. MessageSet_decode cs (Suc (Suc depth))
      (new_decoder (be 8 off @ len @ be 4 (ChecksumIEEE (snappy_body key z)) @ snappy_body key z) spare) =
    Returns (Inr (MessageSet False [MessageBlock off (Message CompressionSnappy key (Some raw) (Some (MessageSet False bs)) None)]), d)"
proof -
  let ?msg = "be 8 off @ len @ be 4 (ChecksumIEEE (snappy_body key z)) @ snappy_body key z"
  let ?dec = "\<lambda>v spare. bind_outcome (MessageSet_decode cs (Suc depth) (new_decoder v spare)) (\<lambda>(r, _). Returns r)"
  let ?b = "MessageBlock off (Message CompressionSnappy key (Some raw) (Some (MessageSet False bs)) None)"
  obtain b rest where "bs = b # rest" using bs(2) by (cases bs) auto
  then have "raw \<noteq> []" using MessageBlock_bytes_length [of b] bs(1,3) by (auto simp: MessageBlock_ok_def)
  have set: "?dec raw [] = Returns (Inr (MessageSet False bs))" using MessageSet_decode_bytes [OF bs(1)] bs(3) by simp
  define d0 where "d0 = new_decoder ?msg spare"
  have d0: "d0 = rd_at [] ?msg ([], spare)" by (simp add: d0_def new_decoder_at)
  obtain d1 where block: "MessageBlock_decode cs ?dec d0 = Returns (Inr ?b, d1)" and d1: "remaining d1 = 0"
    using snappy_Block_decode [where decodeSet = ?dec and pre = "[]" and post = "[]" and st = "([], spare)",
        OF z key \<open>raw \<noteq> []\<close> raw set len off] d0 by auto
  have stop: "set_loop p m d1 = Returns (Inr (MessageSet False []), d1)" for p m using d1 by (cases m) (auto simp: dret_def)
  obtain n where n: "nat (remaining d0) = Suc n" and pos: "remaining d0 > 0" using len by (cases "nat (remaining d0)") (auto simp: d0)
  have "MessageSet_decode cs (Suc (Suc depth)) d0 = set_loop (MessageBlock_decode cs ?dec) (Suc n) d0"
    unfolding MessageSet_decode.simps(2) [of cs "Suc depth"] n ..
  also have "\<dots> = Returns (Inr (MessageSet False [?b]), d1)"
    using block pos by (simp add: dbind_def stop dret_def del: MessageSet_decode.simps)
  finally show ?thesis unfolding d0_def by blast
qed

subsection \<open>Properties\<close>

text \<open>
  Compression happens once. \<open>encode\<close> makes two passes over a message, and the second takes
  the compressed value from the cache the first one left: both passes make the same calls, and
  after them the cache is empty again, as before.
\<close>

theorem compressed_passes_agree:
  assumes "compressedCache m = None" and "compress cs m = Returns (Inr z)"
  shows "Message_encode cs (Message_cached cs m) = Message_encode cs m \<and> Message_cached cs (Message_cached cs m) = m"
  using assms by (cases m) (auto simp: Message_encode_def Message_payload_def Message_cached_def Let_def)

lemma compressed_passes_agree_witness:
  "Message_encode stored (Message_cached stored (Message 1 None (Some ''v'') None None)) = Message_encode stored (Message 1 None (Some ''v'') None None)"
  using compressed_passes_agree [of "Message 1 None (Some ''v'') None None" stored "''v''"]
  by (simp add: compress_def CompressionGZIP_def value_bytes_def stored_def)

text \<open>
  Snappy-compressed sets survive the wire. A message that wraps the bytes of a message set
  under snappy compression is encoded and decoded to a message with the same key and value that
  holds the wrapped set; the block's magic number is never mistaken for the framed format.
\<close>

theorem snappy_set_round_trip:
  assumes "snappyEncode raw = Returns z" and "8 \<le> length z" and "length z \<le> 2 ^ 30" and "bytes_ok key"
    and "list_all MessageBlock_ok bs" and "bs \<noteq> []" and "raw = concat (map MessageBlock_bytes bs)"
    and "length raw \<le> 2 ^ 32" and "length raw \<le> make_limit cs" and "fits 64 off"
    and "length z + length (value_bytes key) \<le> 2 ^ 26"
  shows "\<exists>bytes d. encode (MessageSet_encode cs (MessageSet False [MessageBlock off (Message CompressionSnappy key (Some raw) None None)]))
      (MessageSet_encode cs (MessageSet_cached cs (MessageSet False [MessageBlock off (Message CompressionSnappy key (Some raw) None None)])))
      = Returns (Inr bytes) \<and>
    MessageSet_decode cs (Suc (Suc depth)) (new_decoder bytes spare) =
      Returns (Inr (MessageSet False [MessageBlock off (Message CompressionSnappy key (Some raw) (Some (MessageSet False bs)) None)]), d)"
proof -
  let ?m = "Message CompressionSnappy key (Some raw) None None"
  let ?mb = "be 4 (ChecksumIEEE (snappy_body key z)) @ snappy_body key z"
  have "Message_encode cs (Message_cached cs ?m) = Message_encode cs ?m"
    using assms(1) by (simp add: Message_encode_def Message_payload_def Message_cached_def Let_def compress_def value_bytes_def
        CompressionNone_def CompressionGZIP_def CompressionSnappy_def)
  then have same: "MessageSet_encode cs (MessageSet_cached cs (MessageSet False [MessageBlock off ?m])) =
      MessageSet_encode cs (MessageSet False [MessageBlock off ?m])"
    by (simp add: MessageSet_encode_def MessageSet_cached_def MessageBlock_encode_def)
  have w: "writes (MessageSet_encode cs (MessageSet False [MessageBlock off ?m])) (be 8 off @ be 4 (int (length ?mb)) @ ?mb)"
    using writes_Cons [OF writes_put(4) writes_length [OF snappy_Message_writes [OF assms(1,4,3)]]]
    by (simp add: MessageSet_encode_def MessageBlock_encode_def)
  have "length ?mb \<le> 2 ^ 26 + 30"
    using assms(11) by (auto simp: snappy_body_def bytes_of_def value_bytes_def split: option.splits)
  then have "\<not> length (be 8 off @ be 4 (int (length ?mb)) @ ?mb) > MaxRequestSize" by (simp add: MaxRequestSize_def)
  with encode_bytes [OF w w refl] have "encode (MessageSet_encode cs (MessageSet False [MessageBlock off ?m])) (MessageSet_encode cs (MessageSet False [MessageBlock off ?m]))
      = Returns (Inr (be 8 off @ be 4 (int (length ?mb)) @ ?mb))" by simp
  with snappy_Set_decode [OF assms(1-9) _ assms(10), of "be 4 (int (length ?mb))" depth spare] same show ?thesis by auto
qed

text \<open>A set with one message of 450 bytes, which snappy cannot shrink below eight bytes.\<close>

definition long_block :: MessageBlock where
  "long_block = MessageBlock 0 (Message CompressionNone None (Some (replicate 450 (CHR ''v''))) None None)"

lemma long_block_facts:
  "MessageBlock_ok long_block" "length (MessageBlock_bytes long_block) = 476"
  by (simp_all add: long_block_def MessageBlock_ok_def Message_ok_def bytes_ok_def fits_def MessageBlock_bytes_def
      Message_bytes_def Message_body_def bytes_of_def)

lemma long_block_snappy:
  "\<exists>z. snappyEncode (MessageBlock_bytes long_block) = Returns z \<and> 8 \<le> length z \<and> length z \<le> 1000"
proof -
  let ?raw = "MessageBlock_bytes long_block"
  have l: "length ?raw \<le> 2 ^ 32" by (simp add: long_block_facts)
  obtain body where z: "snappy_Encode [] ?raw = Returns (PutUvarint (length ?raw) @ body)" "decodes ?raw body 0 (length ?raw)"
    "length (PutUvarint (length ?raw) @ body) \<le> MaxEncodedLen (length ?raw)"
    using Encode_decodes [OF l, of "[]"] by blast
  have "snappy_Decode 1000 [] (PutUvarint (length ?raw) @ body) = Returns (Inr ?raw)"
    by (rule Decode_decodes [OF _ _ z(2)]) (simp_all add: long_block_facts)
  from Decode_bound [OF this] z show ?thesis
    by (auto simp: snappyEncode_def long_block_facts MaxEncodedLen_def)
qed

lemma snappy_set_round_trip_witness:
  "\<exists>bytes d. encode (MessageSet_encode stored (MessageSet False [MessageBlock 0 (Message CompressionSnappy None (Some (MessageBlock_bytes long_block)) None None)]))
      (MessageSet_encode stored (MessageSet_cached stored (MessageSet False [MessageBlock 0 (Message CompressionSnappy None (Some (MessageBlock_bytes long_block)) None None)])))
      = Returns (Inr bytes) \<and>
    MessageSet_decode stored (Suc (Suc 0)) (new_decoder bytes []) =
      Returns (Inr (MessageSet False [MessageBlock 0 (Message CompressionSnappy None (Some (MessageBlock_bytes long_block))
        (Some (MessageSet False [long_block])) None)]), d)"
proof -
  obtain z where z: "snappyEncode (MessageBlock_bytes long_block) = Returns z" "8 \<le> length z" "length z \<le> 1000"
    using long_block_snappy by blast
  show ?thesis
    by (rule snappy_set_round_trip [OF z(1,2)])
       (use z(3) in \<open>simp_all add: long_block_facts stored_def bytes_ok_def fits_def value_bytes_def\<close>)
qed

text \<open>
  The length of a compressed message is not checked. \<open>Message.decode\<close> returns without
  \<open>pop\<close> when the message is compressed, so the pop of its block checks the CRC and the length
  field stays unread: any four bytes are accepted in its place.
\<close>

theorem compressed_length_unchecked:
  assumes "snappyEncode raw = Returns z" and "8 \<le> length z" and "length z \<le> 2 ^ 30" and "bytes_ok key"
    and "list_all MessageBlock_ok bs" and "bs \<noteq> []" and "raw = concat (map MessageBlock_bytes bs)"
    and "length raw \<le> 2 ^ 32" and "length raw \<le> make_limit cs" and "length len = 4" and "fits 64 off"
  shows "\<exists>d. MessageSet_decode cs (Suc (Suc depth))
      (new_decoder (be 8 off @ len @ be 4 (ChecksumIEEE (snappy_body key z)) @ snappy_body key z) spare) =
    Returns (Inr (MessageSet False [MessageBlock off (Message CompressionSnappy key (Some raw) (Some (MessageSet False bs)) None)]), d)"
  by (rule snappy_Set_decode [OF assms])

lemma compressed_length_unchecked_witness:
  "\<exists>z. snappyEncode (MessageBlock_bytes long_block) = Returns z \<and>
    (\<exists>d. MessageSet_decode stored (Suc (Suc 0))
      (new_decoder (be 8 0 @ ''junk'' @ be 4 (ChecksumIEEE (snappy_body None z)) @ snappy_body None z) []) =
    Returns (Inr (MessageSet False [MessageBlock 0 (Message CompressionSnappy None (Some (MessageBlock_bytes long_block))
      (Some (MessageSet False [long_block])) None)]), d))"
proof -
  obtain z where z: "snappyEncode (MessageBlock_bytes long_block) = Returns z" "8 \<le> length z" "length z \<le> 1000"
    using long_block_snappy by blast
  have "\<exists>d. MessageSet_decode stored (Suc (Suc 0))
      (new_decoder (be 8 0 @ ''junk'' @ be 4 (ChecksumIEEE (snappy_body None z)) @ snappy_body None z) []) =
    Returns (Inr (MessageSet False [MessageBlock 0 (Message CompressionSnappy None (Some (MessageBlock_bytes long_block))
      (Some (MessageSet False [long_block])) None)]), d)"
    by (rule compressed_length_unchecked [OF z(1,2)])
       (use z(3) in \<open>simp_all add: long_block_facts stored_def bytes_ok_def fits_def\<close>)
  with z(1) show ?thesis by blast
qed

text \<open>
  \<open>snappyDecode\<close> looks at eight bytes before it knows that they are there. Where fewer are
  left in the buffer it panics, so a broker that sends a snappy message with a short value at the
  end of a response brings the client down.
\<close>

theorem short_snappy_value_panics:
  assumes "length v + length spare < 8"
  shows "Message_decode cs decodeSet (rd_at [] (be 4 crc @ be 1 0 @ be 1 2 @ bytes_of None @ bytes_of (Some v)) (st, spare))
    = Panics ''runtime error: slice bounds out of range''"
proof -
  have zero: "parses getInt8 (be 1 0) 0" and two: "parses getInt8 (be 1 2) 2" by (intro reads_Ints; simp add: fits_def)+
  have k: "parses getBytes (bytes_of None) None" and v: "parses getBytes (bytes_of (Some v)) (Some v)"
    using assms by (auto intro!: reads_Bytes simp: MaxInt32_def)
  show ?thesis
    using readsD [OF v, where post = "[]"] assms unfolding Message_decode_def
    by (simp add: dbind_def rd_push_at [OF length_be] readsD [OF zero, unfolded One_nat_def] readsD [OF two, unfolded One_nat_def]
        readsD [OF k] messageFormat_def Message_value_def CompressionNone_def CompressionGZIP_def CompressionSnappy_def snappyDecode_def)
       (simp add: rd_at_def)
qed

lemma short_snappy_value_panics_witness:
  "Message_decode stored (\<lambda>_ _. Panics []) (rd_at [] (be 4 0 @ be 1 0 @ be 1 2 @ bytes_of None @ bytes_of (Some ''x'')) ([], []))
    = Panics ''runtime error: slice bounds out of range''"
  using short_snappy_value_panics [of "''x''" "[]" stored "\<lambda>_ _. Panics []" 0 "[]"] by simp

end
