(* ===== verification/Sarama_Protocol.thy ===== *)
theory Sarama_Protocol
  imports Sarama_Message Redigo_Reply
begin

text \<open>
  The requests and responses of the Kafka protocol that sarama speaks: \<open>request.go\<close>,
  \<open>response_header.go\<close>, \<open>produce_*.go\<close>, \<open>metadata_*.go\<close>, \<open>fetch_*.go\<close>, \<open>offset_*.go\<close>,
  \<open>offset_commit_*.go\<close>, \<open>offset_fetch_*.go\<close>, \<open>consumer_metadata_*.go\<close>, and \<open>encode\<close> and
  \<open>decode\<close> of \<open>Broker\<close>.

  Every message that has both directions is shown to satisfy the contract \<open>kafka_codec\<close>;
  the decoders of all responses but \<open>FetchResponse\<close> are shown never to panic.
\<close>

section \<open>Nested maps\<close>

text \<open>
  The map from topics to maps from partitions that most messages hold. A map that was not made
  yet is empty, and the methods that add an entry make the maps they need.
\<close>

definition get_block :: "'b topics \<Rightarrow> string \<Rightarrow> int \<Rightarrow> 'b option" where
  "get_block m topic part = (case map_of m topic of None \<Rightarrow> None | Some ps \<Rightarrow> map_of ps part)"

definition partitions :: "'b topics \<Rightarrow> string \<Rightarrow> (int \<times> 'b) list" where
  "partitions m topic = (case map_of m topic of None \<Rightarrow> [] | Some ps \<Rightarrow> ps)"

definition set_block :: "string \<Rightarrow> int \<Rightarrow> 'b \<Rightarrow> 'b topics \<Rightarrow> 'b topics" where
  "set_block topic part b m = AList.update topic (AList.update part b (partitions m topic)) m"

section \<open>request.go, response_header.go\<close>

text \<open>A request's body, behind the interface \<open>requestEncoder\<close>: its key, its version and the calls of its \<open>encode\<close>.\<close>

record requestEncoder =
  req_key :: int
  req_version :: int
  req_encode :: "packetEncoder list"

definition request_encode :: "int \<Rightarrow> string \<Rightarrow> requestEncoder \<Rightarrow> packetEncoder list" where
  "request_encode correlationID clientID body =
     [PushLength, PutInt16 (req_key body), PutInt16 (req_version body), PutInt32 correlationID, PutString clientID]
     @ req_encode body @ [Pop]"

record responseHeader =
  rh_length :: int
  rh_correlationID :: int

definition responseHeader_decode :: "responseHeader dec" where
  "responseHeader_decode =
     dbind getInt32 (\<lambda>len.
     if len \<le> 4 \<or> len > MaxResponseSize
     then dfail (PacketDecodingError (''Message of length '' @ FormatInt len @ '' too large or too small''))
     else dbind getInt32 (\<lambda>cid. dret \<lparr>rh_length = len, rh_correlationID = cid\<rparr>))"

section \<open>produce_request.go, produce_response.go\<close>

definition NoResponse :: int where "NoResponse = 0"
definition WaitForLocal :: int where "WaitForLocal = 1"
definition WaitForAll :: int where "WaitForAll = -1"

record ProduceRequest =
  pr_RequiredAcks :: int
  pr_Timeout :: int
  pr_msgSets :: "MessageSet topics"

definition ProduceRequest_encode :: "codecs \<Rightarrow> ProduceRequest \<Rightarrow> packetEncoder list" where
  "ProduceRequest_encode cs p =
     [PutInt16 (pr_RequiredAcks p), PutInt32 (pr_Timeout p)] @
     put_topics (\<lambda>ms. PushLength # MessageSet_encode cs ms @ [Pop]) (pr_msgSets p)"

definition ProduceRequest_body :: "codecs \<Rightarrow> ProduceRequest \<Rightarrow> requestEncoder" where
  "ProduceRequest_body cs p = \<lparr>req_key = 0, req_version = 0, req_encode = ProduceRequest_encode cs p\<rparr>"

definition ProduceRequest_AddMessage :: "string \<Rightarrow> int \<Rightarrow> Message \<Rightarrow> ProduceRequest \<Rightarrow> ProduceRequest" where
  "ProduceRequest_AddMessage topic part msg p =
     (let ms = (case get_block (pr_msgSets p) topic part of None \<Rightarrow> MessageSet False [] | Some ms \<Rightarrow> ms)
      in p\<lparr>pr_msgSets := set_block topic part (addMessage msg ms) (pr_msgSets p)\<rparr>)"

definition ProduceRequest_AddSet :: "string \<Rightarrow> int \<Rightarrow> MessageSet \<Rightarrow> ProduceRequest \<Rightarrow> ProduceRequest" where
  "ProduceRequest_AddSet topic part ms p = p\<lparr>pr_msgSets := set_block topic part ms (pr_msgSets p)\<rparr>"

record ProduceResponseBlock =
  prb_Err :: int
  prb_Offset :: int

definition ProduceResponseBlock_decode :: "ProduceResponseBlock dec" where
  "ProduceResponseBlock_decode =
     dbind getInt16 (\<lambda>err. dbind getInt64 (\<lambda>off. dret \<lparr>prb_Err = err, prb_Offset = off\<rparr>))"

definition ProduceResponseBlock_encode :: "ProduceResponseBlock \<Rightarrow> packetEncoder list" where
  "ProduceResponseBlock_encode b = [PutInt16 (prb_Err b), PutInt64 (prb_Offset b)]"

type_synonym ProduceResponse = "ProduceResponseBlock topics"

definition ProduceResponse_decode :: "ProduceResponse dec" where
  "ProduceResponse_decode = get_topics ProduceResponseBlock_decode"

definition ProduceResponse_encode :: "ProduceResponse \<Rightarrow> packetEncoder list" where
  "ProduceResponse_encode = put_topics ProduceResponseBlock_encode"

definition ProduceResponse_GetBlock :: "ProduceResponse \<Rightarrow> string \<Rightarrow> int \<Rightarrow> ProduceResponseBlock option" where
  "ProduceResponse_GetBlock pr topic part = get_block pr topic part"

definition ProduceResponse_AddTopicPartition :: "string \<Rightarrow> int \<Rightarrow> int \<Rightarrow> ProduceResponse \<Rightarrow> ProduceResponse" where
  "ProduceResponse_AddTopicPartition topic part err pr = set_block topic part \<lparr>prb_Err = err, prb_Offset = 0\<rparr> pr"

section \<open>metadata_request.go, metadata_response.go\<close>

definition MetadataRequest_encode :: "string list \<Rightarrow> packetEncoder list" where
  "MetadataRequest_encode topics = put_array (\<lambda>t. [PutString t]) topics"

definition MetadataRequest_body :: "string list \<Rightarrow> requestEncoder" where
  "MetadataRequest_body topics = \<lparr>req_key = 3, req_version = 0, req_encode = MetadataRequest_encode topics\<rparr>"

record PartitionMetadata =
  pm_Err :: int
  pm_ID :: int
  pm_Leader :: int
  pm_Replicas :: "int list"
  pm_Isr :: "int list"

definition PartitionMetadata_decode :: "PartitionMetadata dec" where
  "PartitionMetadata_decode =
     dbind getInt16 (\<lambda>err. dbind getInt32 (\<lambda>i. dbind getInt32 (\<lambda>leader.
     dbind getInt32Array (\<lambda>replicas. dbind getInt32Array (\<lambda>isr.
     dret \<lparr>pm_Err = err, pm_ID = i, pm_Leader = leader, pm_Replicas = replicas, pm_Isr = isr\<rparr>)))))"

definition PartitionMetadata_encode :: "PartitionMetadata \<Rightarrow> packetEncoder list" where
  "PartitionMetadata_encode pm =
     [PutInt16 (pm_Err pm), PutInt32 (pm_ID pm), PutInt32 (pm_Leader pm),
      PutInt32Array (pm_Replicas pm), PutInt32Array (pm_Isr pm)]"

record TopicMetadata =
  tm_Err :: int
  tm_Name :: string
  tm_Partitions :: "PartitionMetadata list"

definition TopicMetadata_decode :: "TopicMetadata dec" where
  "TopicMetadata_decode =
     dbind getInt16 (\<lambda>err. dbind getString (\<lambda>name. dbind (getArray PartitionMetadata_decode) (\<lambda>ps.
     dret \<lparr>tm_Err = err, tm_Name = name, tm_Partitions = ps\<rparr>)))"

definition TopicMetadata_encode :: "TopicMetadata \<Rightarrow> packetEncoder list" where
  "TopicMetadata_encode tm =
     [PutInt16 (tm_Err tm), PutString (tm_Name tm)] @ put_array PartitionMetadata_encode (tm_Partitions tm)"

subsection \<open>\<open>net.SplitHostPort\<close>, \<open>strconv.Atoi\<close>, \<open>encode\<close> and \<open>decode\<close> of \<open>Broker\<close>\<close>

fun byteIndex :: "char \<Rightarrow> string \<Rightarrow> nat option" where
  "byteIndex c [] = None"
| "byteIndex c (x # xs) = (if x = c then Some 0 else map_option Suc (byteIndex c xs))"

definition lastIndex :: "char \<Rightarrow> string \<Rightarrow> nat option" where
  "lastIndex c s = map_option (\<lambda>i. length s - 1 - i) (byteIndex c (rev s))"

definition AddrError :: "string \<Rightarrow> string \<Rightarrow> string" where
  "AddrError err addr = err @ '' '' @ addr"

definition SplitHostPort :: "string \<Rightarrow> string + string \<times> string" where
  "SplitHostPort hostport =
     (let brackets = (\<lambda>host j k i.
        if byteIndex (CHR ''['') (drop j hostport) \<noteq> None then Inl (AddrError ''unexpected '[' in address'' hostport)
        else if byteIndex (CHR '']'') (drop k hostport) \<noteq> None then Inl (AddrError ''unexpected ']' in address'' hostport)
        else Inr (host, drop (i + 1) hostport))
      in case lastIndex (CHR '':'') hostport of
        None \<Rightarrow> Inl (AddrError ''missing port in address'' hostport)
      | Some i \<Rightarrow>
          if hd hostport = CHR ''['' then
            (case byteIndex (CHR '']'') hostport of
               None \<Rightarrow> Inl (AddrError ''missing ']' in address'' hostport)
             | Some e \<Rightarrow>
                 if e + 1 = length hostport then Inl (AddrError ''missing port in address'' hostport)
                 else if e + 1 = i then brackets (take (e - 1) (drop 1 hostport)) 1 (e + 1) i
                 else if hostport ! (e + 1) = CHR '':'' then Inl (AddrError ''too many colons in address'' hostport)
                 else Inl (AddrError ''missing port in address'' hostport))
          else
            let host = take i hostport in
            if byteIndex (CHR '':'') host \<noteq> None then Inl (AddrError ''too many colons in address'' hostport)
            else if byteIndex (CHR ''%'') host \<noteq> None then Inl (AddrError ''missing brackets in address'' hostport)
            else brackets host 0 0 i)"

record Broker =
  broker_id :: int
  broker_addr :: string

definition NewBroker :: "string \<Rightarrow> Broker" where
  "NewBroker addr = \<lparr>broker_id = -1, broker_addr = addr\<rparr>"

definition Broker_decode :: "Broker dec" where
  "Broker_decode =
     dbind getInt32 (\<lambda>i. dbind getString (\<lambda>host. dbind getInt32 (\<lambda>port.
     dret \<lparr>broker_id = i, broker_addr = host @ '':'' @ FormatInt port\<rparr>)))"

definition Broker_encode :: "Broker \<Rightarrow> packetEncoder list" where
  "Broker_encode b =
     (case SplitHostPort (broker_addr b) of
        Inl e \<Rightarrow> [Fail (AddressError e)]
      | Inr (host, portstr) \<Rightarrow>
          (case ParseInt portstr of
             (port, None) \<Rightarrow> [PutInt32 (broker_id b), PutString host, PutInt32 port]
           | (_, Some _) \<Rightarrow> [Fail (AddressError (''strconv.ParseInt: parsing '' @ portstr))]))"

record MetadataResponse =
  mr_Brokers :: "Broker list"
  mr_Topics :: "TopicMetadata list"

definition MetadataResponse_decode :: "MetadataResponse dec" where
  "MetadataResponse_decode =
     dbind (getArray Broker_decode) (\<lambda>bs. dbind (getArray TopicMetadata_decode) (\<lambda>ts.
     dret \<lparr>mr_Brokers = bs, mr_Topics = ts\<rparr>))"

definition MetadataResponse_encode :: "MetadataResponse \<Rightarrow> packetEncoder list" where
  "MetadataResponse_encode m = put_array Broker_encode (mr_Brokers m) @ put_array TopicMetadata_encode (mr_Topics m)"

definition MetadataResponse_AddBroker :: "string \<Rightarrow> int \<Rightarrow> MetadataResponse \<Rightarrow> MetadataResponse" where
  "MetadataResponse_AddBroker addr i m = m\<lparr>mr_Brokers := mr_Brokers m @ [\<lparr>broker_id = i, broker_addr = addr\<rparr>]\<rparr>"

text \<open>Change the first element that matches, or append a new one: the two searches with \<open>goto\<close>.\<close>

fun update_first :: "('a \<Rightarrow> bool) \<Rightarrow> ('a \<Rightarrow> 'a) \<Rightarrow> 'a \<Rightarrow> 'a list \<Rightarrow> 'a list" where
  "update_first P f new [] = [f new]"
| "update_first P f new (x # xs) = (if P x then f x # xs else x # update_first P f new xs)"

definition MetadataResponse_AddTopic :: "string \<Rightarrow> int \<Rightarrow> MetadataResponse \<Rightarrow> MetadataResponse" where
  "MetadataResponse_AddTopic topic err m =
     m\<lparr>mr_Topics := update_first (\<lambda>tm. tm_Name tm = topic) (tm_Err_update (\<lambda>_. err))
         \<lparr>tm_Err = 0, tm_Name = topic, tm_Partitions = []\<rparr> (mr_Topics m)\<rparr>"

definition MetadataResponse_AddTopicPartition ::
    "string \<Rightarrow> int \<Rightarrow> int \<Rightarrow> int list \<Rightarrow> int list \<Rightarrow> int \<Rightarrow> MetadataResponse \<Rightarrow> MetadataResponse" where
  "MetadataResponse_AddTopicPartition topic part brokerID replicas isr err m =
     m\<lparr>mr_Topics := update_first (\<lambda>tm. tm_Name tm = topic)
         (\<lambda>tm. tm\<lparr>tm_Err := 0, tm_Partitions :=
            update_first (\<lambda>pm. pm_ID pm = part)
              (\<lambda>pm. pm\<lparr>pm_Leader := brokerID, pm_Replicas := replicas, pm_Isr := isr, pm_Err := err\<rparr>)
              \<lparr>pm_Err = 0, pm_ID = part, pm_Leader = 0, pm_Replicas = [], pm_Isr = []\<rparr> (tm_Partitions tm)\<rparr>)
         \<lparr>tm_Err = 0, tm_Name = topic, tm_Partitions = []\<rparr> (mr_Topics m)\<rparr>"

section \<open>fetch_request.go, fetch_response.go\<close>

record fetchRequestBlock =
  frq_fetchOffset :: int
  frq_maxBytes :: int

definition fetchRequestBlock_encode :: "fetchRequestBlock \<Rightarrow> packetEncoder list" where
  "fetchRequestBlock_encode f = [PutInt64 (frq_fetchOffset f), PutInt32 (frq_maxBytes f)]"

record FetchRequest =
  fr_MaxWaitTime :: int
  fr_MinBytes :: int
  fr_blocks :: "fetchRequestBlock topics"

definition FetchRequest_encode :: "FetchRequest \<Rightarrow> packetEncoder list" where
  "FetchRequest_encode f =
     [PutInt32 (-1), PutInt32 (fr_MaxWaitTime f), PutInt32 (fr_MinBytes f)] @ put_topics fetchRequestBlock_encode (fr_blocks f)"

definition FetchRequest_body :: "FetchRequest \<Rightarrow> requestEncoder" where
  "FetchRequest_body f = \<lparr>req_key = 1, req_version = 0, req_encode = FetchRequest_encode f\<rparr>"

definition FetchRequest_AddBlock :: "string \<Rightarrow> int \<Rightarrow> int \<Rightarrow> int \<Rightarrow> FetchRequest \<Rightarrow> FetchRequest" where
  "FetchRequest_AddBlock topic part off maxBytes f =
     f\<lparr>fr_blocks := set_block topic part \<lparr>frq_fetchOffset = off, frq_maxBytes = maxBytes\<rparr> (fr_blocks f)\<rparr>"

record FetchResponseBlock =
  frb_Err :: int
  frb_HighWaterMarkOffset :: int
  frb_MsgSet :: MessageSet

text \<open>The message set is decoded from a decoder of its own, whose final position is not looked at.\<close>

definition FetchResponseBlock_decode :: "codecs \<Rightarrow> nat \<Rightarrow> FetchResponseBlock dec" where
  "FetchResponseBlock_decode cs depth =
     dbind getInt16 (\<lambda>err. dbind getInt64 (\<lambda>hw. dbind getInt32 (\<lambda>size. dbind (getSubset size) (\<lambda>sub d.
     bind_outcome (MessageSet_decode cs depth sub) (\<lambda>(r, _).
       case r of Inl e \<Rightarrow> dfail e d
       | Inr ms \<Rightarrow> dret \<lparr>frb_Err = err, frb_HighWaterMarkOffset = hw, frb_MsgSet = ms\<rparr> d)))))"

definition FetchResponseBlock_encode :: "codecs \<Rightarrow> FetchResponseBlock \<Rightarrow> packetEncoder list" where
  "FetchResponseBlock_encode cs b =
     [PutInt16 (frb_Err b), PutInt64 (frb_HighWaterMarkOffset b), PushLength] @ MessageSet_encode cs (frb_MsgSet b) @ [Pop]"

type_synonym FetchResponse = "FetchResponseBlock topics"

definition FetchResponse_decode :: "codecs \<Rightarrow> nat \<Rightarrow> FetchResponse dec" where
  "FetchResponse_decode cs depth = get_topics (FetchResponseBlock_decode cs depth)"

definition FetchResponse_encode :: "codecs \<Rightarrow> FetchResponse \<Rightarrow> packetEncoder list" where
  "FetchResponse_encode cs = put_topics (FetchResponseBlock_encode cs)"

definition FetchResponse_GetBlock :: "FetchResponse \<Rightarrow> string \<Rightarrow> int \<Rightarrow> FetchResponseBlock option" where
  "FetchResponse_GetBlock fr topic part = get_block fr topic part"

definition zero_fetch_block :: FetchResponseBlock where
  "zero_fetch_block = \<lparr>frb_Err = 0, frb_HighWaterMarkOffset = 0, frb_MsgSet = MessageSet False []\<rparr>"

definition block_or_new :: "FetchResponse \<Rightarrow> string \<Rightarrow> int \<Rightarrow> FetchResponseBlock" where
  "block_or_new fr topic part = (case get_block fr topic part of None \<Rightarrow> zero_fetch_block | Some b \<Rightarrow> b)"

definition FetchResponse_AddError :: "string \<Rightarrow> int \<Rightarrow> int \<Rightarrow> FetchResponse \<Rightarrow> FetchResponse" where
  "FetchResponse_AddError topic part err fr = set_block topic part ((block_or_new fr topic part)\<lparr>frb_Err := err\<rparr>) fr"

text \<open>The key and the value are what their encoders return, nil where there is none; an encoder's error is ignored.\<close>

definition FetchResponse_AddMessage ::
    "string \<Rightarrow> int \<Rightarrow> string option \<Rightarrow> string option \<Rightarrow> int \<Rightarrow> FetchResponse \<Rightarrow> FetchResponse" where
  "FetchResponse_AddMessage topic part key val off fr =
     (let b = block_or_new fr topic part; ms = frb_MsgSet b in
      set_block topic part
        (b\<lparr>frb_MsgSet := MessageSet (PartialTrailingMessage ms) (Messages ms @ [MessageBlock off (Message 0 key val None None)])\<rparr>) fr)"

section \<open>offset_request.go, offset_response.go\<close>

record offsetRequestBlock =
  orb_time :: int
  orb_maxOffsets :: int

definition offsetRequestBlock_encode :: "offsetRequestBlock \<Rightarrow> packetEncoder list" where
  "offsetRequestBlock_encode r = [PutInt64 (orb_time r), PutInt32 (orb_maxOffsets r)]"

type_synonym OffsetRequest = "offsetRequestBlock topics"

definition OffsetRequest_encode :: "OffsetRequest \<Rightarrow> packetEncoder list" where
  "OffsetRequest_encode r = PutInt32 (-1) # put_topics offsetRequestBlock_encode r"

definition OffsetRequest_body :: "OffsetRequest \<Rightarrow> requestEncoder" where
  "OffsetRequest_body r = \<lparr>req_key = 2, req_version = 0, req_encode = OffsetRequest_encode r\<rparr>"

definition OffsetRequest_AddBlock :: "string \<Rightarrow> int \<Rightarrow> int \<Rightarrow> int \<Rightarrow> OffsetRequest \<Rightarrow> OffsetRequest" where
  "OffsetRequest_AddBlock topic part time maxOffsets r =
     set_block topic part \<lparr>orb_time = time, orb_maxOffsets = maxOffsets\<rparr> r"

record OffsetResponseBlock =
  ofr_Err :: int
  ofr_Offsets :: "int list"

definition OffsetResponseBlock_decode :: "OffsetResponseBlock dec" where
  "OffsetResponseBlock_decode =
     dbind getInt16 (\<lambda>err. dbind getInt64Array (\<lambda>offs. dret \<lparr>ofr_Err = err, ofr_Offsets = offs\<rparr>))"

definition OffsetResponseBlock_encode :: "OffsetResponseBlock \<Rightarrow> packetEncoder list" where
  "OffsetResponseBlock_encode r = [PutInt16 (ofr_Err r), PutInt64Array (ofr_Offsets r)]"

type_synonym OffsetResponse = "OffsetResponseBlock topics"

definition OffsetResponse_decode :: "OffsetResponse dec" where
  "OffsetResponse_decode = get_topics OffsetResponseBlock_decode"

definition OffsetResponse_encode :: "OffsetResponse \<Rightarrow> packetEncoder list" where
  "OffsetResponse_encode = put_topics OffsetResponseBlock_encode"

definition OffsetResponse_GetBlock :: "OffsetResponse \<Rightarrow> string \<Rightarrow> int \<Rightarrow> OffsetResponseBlock option" where
  "OffsetResponse_GetBlock r topic part = get_block r topic part"

definition OffsetResponse_AddTopicPartition :: "string \<Rightarrow> int \<Rightarrow> int \<Rightarrow> OffsetResponse \<Rightarrow> OffsetResponse" where
  "OffsetResponse_AddTopicPartition topic part off r = set_block topic part \<lparr>ofr_Err = 0, ofr_Offsets = [off]\<rparr> r"

section \<open>offset_commit_request.go, offset_commit_response.go\<close>

definition ReceiveTime :: int where "ReceiveTime = -1"

record offsetCommitRequestBlock =
  ocb_offset :: int
  ocb_timestamp :: int
  ocb_metadata :: string

definition offsetCommitRequestBlock_encode :: "offsetCommitRequestBlock \<Rightarrow> packetEncoder list" where
  "offsetCommitRequestBlock_encode r = [PutInt64 (ocb_offset r), PutInt64 (ocb_timestamp r), PutString (ocb_metadata r)]"

record OffsetCommitRequest =
  oc_ConsumerGroup :: string
  oc_blocks :: "offsetCommitRequestBlock topics"

definition OffsetCommitRequest_encode :: "OffsetCommitRequest \<Rightarrow> packetEncoder list" where
  "OffsetCommitRequest_encode r = PutString (oc_ConsumerGroup r) # put_topics offsetCommitRequestBlock_encode (oc_blocks r)"

definition OffsetCommitRequest_body :: "OffsetCommitRequest \<Rightarrow> requestEncoder" where
  "OffsetCommitRequest_body r = \<lparr>req_key = 8, req_version = 0, req_encode = OffsetCommitRequest_encode r\<rparr>"

definition OffsetCommitRequest_AddBlock ::
    "string \<Rightarrow> int \<Rightarrow> int \<Rightarrow> int \<Rightarrow> string \<Rightarrow> OffsetCommitRequest \<Rightarrow> OffsetCommitRequest" where
  "OffsetCommitRequest_AddBlock topic part off timestamp metadata r =
     r\<lparr>oc_blocks := set_block topic part \<lparr>ocb_offset = off, ocb_timestamp = timestamp, ocb_metadata = metadata\<rparr> (oc_blocks r)\<rparr>"

text \<open>\<open>OffsetCommitResponse\<close>: the error code of every partition.\<close>

definition OffsetCommitResponse_decode :: "int topics dec" where
  "OffsetCommitResponse_decode = get_topics getInt16"

section \<open>offset_fetch_request.go, offset_fetch_response.go\<close>

record OffsetFetchRequest =
  ofq_ConsumerGroup :: string
  ofq_partitions :: "(string \<times> int list) list"

definition OffsetFetchRequest_encode :: "OffsetFetchRequest \<Rightarrow> packetEncoder list" where
  "OffsetFetchRequest_encode r =
     PutString (ofq_ConsumerGroup r) # put_array (\<lambda>(topic, ps). [PutString topic, PutInt32Array ps]) (ofq_partitions r)"

definition OffsetFetchRequest_body :: "OffsetFetchRequest \<Rightarrow> requestEncoder" where
  "OffsetFetchRequest_body r = \<lparr>req_key = 9, req_version = 0, req_encode = OffsetFetchRequest_encode r\<rparr>"

definition OffsetFetchRequest_AddPartition :: "string \<Rightarrow> int \<Rightarrow> OffsetFetchRequest \<Rightarrow> OffsetFetchRequest" where
  "OffsetFetchRequest_AddPartition topic part r =
     (let ps = (case map_of (ofq_partitions r) topic of None \<Rightarrow> [] | Some ps \<Rightarrow> ps)
      in r\<lparr>ofq_partitions := AList.update topic (ps @ [part]) (ofq_partitions r)\<rparr>)"

record OffsetFetchResponseBlock =
  ofb_Offset :: int
  ofb_Metadata :: string
  ofb_Err :: int

definition OffsetFetchResponseBlock_decode :: "OffsetFetchResponseBlock dec" where
  "OffsetFetchResponseBlock_decode =
     dbind getInt64 (\<lambda>off. dbind getString (\<lambda>md. dbind getInt16 (\<lambda>err.
     dret \<lparr>ofb_Offset = off, ofb_Metadata = md, ofb_Err = err\<rparr>)))"

definition OffsetFetchResponseBlock_encode :: "OffsetFetchResponseBlock \<Rightarrow> packetEncoder list" where
  "OffsetFetchResponseBlock_encode r = [PutInt64 (ofb_Offset r), PutString (ofb_Metadata r), PutInt16 (ofb_Err r)]"

definition OffsetFetchResponse_decode :: "OffsetFetchResponseBlock topics dec" where
  "OffsetFetchResponse_decode = get_topics OffsetFetchResponseBlock_decode"

section \<open>consumer_metadata_request.go, consumer_metadata_response.go\<close>

definition ConsumerMetadataRequest_encode :: "string \<Rightarrow> packetEncoder list" where
  "ConsumerMetadataRequest_encode grp = [PutString grp]"

definition ConsumerMetadataRequest_body :: "string \<Rightarrow> requestEncoder" where
  "ConsumerMetadataRequest_body grp = \<lparr>req_key = 10, req_version = 0, req_encode = ConsumerMetadataRequest_encode grp\<rparr>"

record ConsumerMetadataResponse =
  cm_Err :: int
  cm_CoordinatorID :: int
  cm_CoordinatorHost :: string
  cm_CoordinatorPort :: int

definition ConsumerMetadataResponse_decode :: "ConsumerMetadataResponse dec" where
  "ConsumerMetadataResponse_decode =
     dbind getInt16 (\<lambda>err. dbind getInt32 (\<lambda>i. dbind getString (\<lambda>host. dbind getInt32 (\<lambda>port.
     dret \<lparr>cm_Err = err, cm_CoordinatorID = i, cm_CoordinatorHost = host, cm_CoordinatorPort = port\<rparr>))))"

section \<open>The codecs meet their contract\<close>

subsection \<open>Produce responses\<close>

definition ProduceResponseBlock_bytes :: "ProduceResponseBlock \<Rightarrow> string" where
  "ProduceResponseBlock_bytes b = be 2 (prb_Err b) @ be 8 (prb_Offset b)"

definition ProduceResponseBlock_ok :: "ProduceResponseBlock \<Rightarrow> bool" where
  "ProduceResponseBlock_ok b \<longleftrightarrow> fits 16 (prb_Err b) \<and> fits 64 (prb_Offset b)"

interpretation produce: block_codec ProduceResponseBlock_encode ProduceResponseBlock_decode ProduceResponseBlock_bytes
  ProduceResponseBlock_ok "(=)"
proof
  fix b assume ok: "ProduceResponseBlock_ok b"
  show "writes (ProduceResponseBlock_encode b) (ProduceResponseBlock_bytes b)"
    unfolding ProduceResponseBlock_encode_def ProduceResponseBlock_bytes_def by (rule writes_Cons [OF writes_put(2) writes_put(4)])
  have "parses (dbind getInt64 (\<lambda>off. dret \<lparr>prb_Err = prb_Err b, prb_Offset = off\<rparr>)) (be 8 (prb_Offset b)) b"
    using reads_map [OF reads_Ints(4), of "prb_Offset b" "\<lambda>off. \<lparr>prb_Err = prb_Err b, prb_Offset = off\<rparr>"] ok
    by (cases b) (simp add: ProduceResponseBlock_ok_def)
  then show "parses ProduceResponseBlock_decode (ProduceResponseBlock_bytes b) b"
    unfolding ProduceResponseBlock_decode_def ProduceResponseBlock_bytes_def
    by (intro reads_dbind [OF reads_Ints(2)]) (use ok in \<open>simp_all add: ProduceResponseBlock_ok_def\<close>)
qed simp

subsection \<open>Offset responses\<close>

definition OffsetResponseBlock_bytes :: "OffsetResponseBlock \<Rightarrow> string" where
  "OffsetResponseBlock_bytes b = be 2 (ofr_Err b) @ ints_of 8 (ofr_Offsets b)"

definition OffsetResponseBlock_ok :: "OffsetResponseBlock \<Rightarrow> bool" where
  "OffsetResponseBlock_ok b \<longleftrightarrow> fits 16 (ofr_Err b) \<and> list_all (fits 64) (ofr_Offsets b) \<and> length (ofr_Offsets b) \<le> MaxInt32"

lemma reads_Int32Array: "list_all (fits 32) xs \<Longrightarrow> length xs \<le> MaxInt32 \<Longrightarrow> parses getInt32Array (ints_of 4 xs) xs"
  unfolding getInt32Array_def by (rule reads_IntArray) (auto simp: list_all_iff)

lemma reads_Int64Array: "list_all (fits 64) xs \<Longrightarrow> length xs \<le> MaxInt32 \<Longrightarrow> parses getInt64Array (ints_of 8 xs) xs"
  unfolding getInt64Array_def by (rule reads_IntArray) (auto simp: list_all_iff)

interpretation offset: block_codec OffsetResponseBlock_encode OffsetResponseBlock_decode OffsetResponseBlock_bytes
  OffsetResponseBlock_ok "(=)"
proof
  fix b assume ok: "OffsetResponseBlock_ok b"
  then show "writes (OffsetResponseBlock_encode b) (OffsetResponseBlock_bytes b)"
    unfolding OffsetResponseBlock_encode_def OffsetResponseBlock_bytes_def
    by (intro writes_Cons [OF writes_put(2) writes_Ints(2)]) (simp add: OffsetResponseBlock_ok_def)
  have "parses (dbind getInt64Array (\<lambda>offs. dret \<lparr>ofr_Err = ofr_Err b, ofr_Offsets = offs\<rparr>)) (ints_of 8 (ofr_Offsets b)) b"
    using reads_map [OF reads_Int64Array, of "ofr_Offsets b" "\<lambda>offs. \<lparr>ofr_Err = ofr_Err b, ofr_Offsets = offs\<rparr>"] ok
    by (cases b) (simp add: OffsetResponseBlock_ok_def)
  then show "parses OffsetResponseBlock_decode (OffsetResponseBlock_bytes b) b"
    unfolding OffsetResponseBlock_decode_def OffsetResponseBlock_bytes_def
    by (intro reads_dbind [OF reads_Ints(2)]) (use ok in \<open>simp_all add: OffsetResponseBlock_ok_def\<close>)
qed simp

definition OffsetFetchResponseBlock_bytes :: "OffsetFetchResponseBlock \<Rightarrow> string" where
  "OffsetFetchResponseBlock_bytes b = be 8 (ofb_Offset b) @ string_of (ofb_Metadata b) @ be 2 (ofb_Err b)"

definition OffsetFetchResponseBlock_ok :: "OffsetFetchResponseBlock \<Rightarrow> bool" where
  "OffsetFetchResponseBlock_ok b \<longleftrightarrow> fits 64 (ofb_Offset b) \<and> length (ofb_Metadata b) \<le> MaxInt16 \<and> fits 16 (ofb_Err b)"

interpretation offset_fetch: block_codec OffsetFetchResponseBlock_encode OffsetFetchResponseBlock_decode
  OffsetFetchResponseBlock_bytes OffsetFetchResponseBlock_ok "(=)"
proof
  fix b assume ok: "OffsetFetchResponseBlock_ok b"
  then show "writes (OffsetFetchResponseBlock_encode b) (OffsetFetchResponseBlock_bytes b)"
    unfolding OffsetFetchResponseBlock_encode_def OffsetFetchResponseBlock_bytes_def
    by (intro writes_Cons [OF writes_put(4) writes_Cons [OF writes_String writes_put(2)]]) (simp add: OffsetFetchResponseBlock_ok_def)
  let ?mk = "\<lambda>err. \<lparr>ofb_Offset = ofb_Offset b, ofb_Metadata = ofb_Metadata b, ofb_Err = err\<rparr>"
  have "parses (dbind getInt16 (\<lambda>err. dret (?mk err))) (be 2 (ofb_Err b)) b"
    using reads_map [OF reads_Ints(2), of "ofb_Err b" ?mk] ok by (cases b) (simp add: OffsetFetchResponseBlock_ok_def)
  then show "parses OffsetFetchResponseBlock_decode (OffsetFetchResponseBlock_bytes b) b"
    unfolding OffsetFetchResponseBlock_decode_def OffsetFetchResponseBlock_bytes_def
    by (intro reads_dbind [OF reads_Ints(4)] reads_dbind [OF reads_String]) (use ok in \<open>simp_all add: OffsetFetchResponseBlock_ok_def\<close>)
qed simp

subsection \<open>Fetch responses\<close>

definition FetchResponseBlock_bytes :: "FetchResponseBlock \<Rightarrow> string" where
  "FetchResponseBlock_bytes b =
     (let raw = concat (map MessageBlock_bytes (Messages (frb_MsgSet b)))
      in be 2 (frb_Err b) @ be 8 (frb_HighWaterMarkOffset b) @ be 4 (int (length raw)) @ raw)"

definition FetchResponseBlock_ok :: "FetchResponseBlock \<Rightarrow> bool" where
  "FetchResponseBlock_ok b \<longleftrightarrow> fits 16 (frb_Err b) \<and> fits 64 (frb_HighWaterMarkOffset b) \<and>
     \<not> PartialTrailingMessage (frb_MsgSet b) \<and> list_all MessageBlock_ok (Messages (frb_MsgSet b)) \<and>
     length (concat (map MessageBlock_bytes (Messages (frb_MsgSet b)))) \<le> MaxInt32"

lemma getSubset_at:
  "getSubset (int (length raw)) (rd_at pre (raw @ post) st) = Returns (Inr (new_decoder raw (post @ snd st)), rd_at (pre @ raw) post st)"
  by (simp add: getSubset_def dret_def rd_skip_append new_decoder_def) (simp add: rd_at_def)

lemma FetchResponseBlock_reads:
  assumes "FetchResponseBlock_ok b"
  shows "parses (FetchResponseBlock_decode cs (Suc depth)) (FetchResponseBlock_bytes b) b"
proof -
  let ?bs = "Messages (frb_MsgSet b)"
  let ?raw = "concat (map MessageBlock_bytes ?bs)"
  have set: "frb_MsgSet b = MessageSet False ?bs" using assms by (cases "frb_MsgSet b") (simp add: FetchResponseBlock_ok_def)
  have size: "fits 32 (int (length ?raw))" using assms by (simp add: FetchResponseBlock_ok_def fits_def MaxInt32_def)
  have dec: "MessageSet_decode cs (Suc depth) (new_decoder ?raw spare) = Returns (Inr (frb_MsgSet b), rd_at ?raw [] ([], spare))" for spare
    using MessageSet_decode_bytes [of ?bs cs depth spare] assms set by (simp add: FetchResponseBlock_ok_def del: MessageSet_decode.simps)
  let ?k = "\<lambda>sub d. bind_outcome (MessageSet_decode cs (Suc depth) sub) (\<lambda>(r, _).
       case r of Inl e \<Rightarrow> dfail e d
       | Inr ms \<Rightarrow> dret \<lparr>frb_Err = frb_Err b, frb_HighWaterMarkOffset = frb_HighWaterMarkOffset b, frb_MsgSet = ms\<rparr> d)"
  have "parses (dbind (getSubset (int (length ?raw))) ?k) ?raw b"
    unfolding parses_def by (simp add: dbind_def getSubset_at dec dret_def del: MessageSet_decode.simps)
  then show ?thesis
    unfolding FetchResponseBlock_decode_def FetchResponseBlock_bytes_def Let_def
    by (intro reads_dbind [OF reads_Ints(2)] reads_dbind [OF reads_Ints(4)] reads_dbind [OF reads_Ints(3) [OF size]])
       (use assms in \<open>simp_all add: FetchResponseBlock_ok_def\<close>)
qed

lemma FetchResponseBlock_writes:
  assumes "FetchResponseBlock_ok b"
  shows "writes (FetchResponseBlock_encode cs b) (FetchResponseBlock_bytes b)"
proof -
  have "writes (PushLength # MessageSet_encode cs (frb_MsgSet b) @ [Pop])
      (be 4 (int (length (concat (map MessageBlock_bytes (Messages (frb_MsgSet b)))))) @ concat (map MessageBlock_bytes (Messages (frb_MsgSet b))))"
    using assms by (intro writes_length MessageSet_writes) (simp add: FetchResponseBlock_ok_def)
  from writes_Cons [OF writes_put(2) writes_Cons [OF writes_put(4) this]] show ?thesis
    by (simp add: FetchResponseBlock_encode_def FetchResponseBlock_bytes_def Let_def)
qed

interpretation fetch: block_codec "FetchResponseBlock_encode cs" "FetchResponseBlock_decode cs (Suc depth)" FetchResponseBlock_bytes
  FetchResponseBlock_ok "(=)" for cs depth
  by unfold_locales (auto intro: FetchResponseBlock_reads FetchResponseBlock_writes)

subsection \<open>Metadata responses\<close>

definition PartitionMetadata_bytes :: "PartitionMetadata \<Rightarrow> string" where
  "PartitionMetadata_bytes pm =
     be 2 (pm_Err pm) @ be 4 (pm_ID pm) @ be 4 (pm_Leader pm) @ ints_of 4 (pm_Replicas pm) @ ints_of 4 (pm_Isr pm)"

definition ints_ok :: "int list \<Rightarrow> bool" where
  "ints_ok xs \<longleftrightarrow> list_all (fits 32) xs \<and> length xs \<le> MaxInt32"

definition PartitionMetadata_ok :: "PartitionMetadata \<Rightarrow> bool" where
  "PartitionMetadata_ok pm \<longleftrightarrow> fits 16 (pm_Err pm) \<and> fits 32 (pm_ID pm) \<and> fits 32 (pm_Leader pm) \<and>
     ints_ok (pm_Replicas pm) \<and> ints_ok (pm_Isr pm)"

lemma be_not_Nil [simp]: "be k x \<noteq> [] \<longleftrightarrow> k \<noteq> 0"
  by (metis length_0_conv length_be)

interpretation partition: kafka_element PartitionMetadata_encode PartitionMetadata_decode PartitionMetadata_bytes PartitionMetadata_ok
proof
  fix b assume ok: "PartitionMetadata_ok b"
  then show "writes (PartitionMetadata_encode b) (PartitionMetadata_bytes b)"
    unfolding PartitionMetadata_encode_def PartitionMetadata_bytes_def
    by (intro writes_Cons [OF writes_put(2)] writes_Cons [OF writes_put(3)] writes_Cons [OF writes_Ints(1)] writes_Ints)
       (simp_all add: PartitionMetadata_ok_def ints_ok_def)
  let ?mk = "\<lambda>isr. \<lparr>pm_Err = pm_Err b, pm_ID = pm_ID b, pm_Leader = pm_Leader b, pm_Replicas = pm_Replicas b, pm_Isr = isr\<rparr>"
  have "parses (dbind getInt32Array (\<lambda>isr. dret (?mk isr))) (ints_of 4 (pm_Isr b)) b"
    using reads_map [OF reads_Int32Array, of "pm_Isr b" ?mk] ok by (cases b) (simp add: PartitionMetadata_ok_def ints_ok_def)
  then show "parses PartitionMetadata_decode (PartitionMetadata_bytes b) b"
    unfolding PartitionMetadata_decode_def PartitionMetadata_bytes_def
    by (intro reads_dbind [OF reads_Ints(2)] reads_dbind [OF reads_Ints(3)] reads_dbind [OF reads_Int32Array])
       (use ok in \<open>simp_all add: PartitionMetadata_ok_def ints_ok_def\<close>)
  show "PartitionMetadata_bytes b \<noteq> []" by (simp add: PartitionMetadata_bytes_def)
qed simp

definition TopicMetadata_bytes :: "TopicMetadata \<Rightarrow> string" where
  "TopicMetadata_bytes tm = be 2 (tm_Err tm) @ string_of (tm_Name tm) @ array_bytes PartitionMetadata_bytes (tm_Partitions tm)"

definition TopicMetadata_ok :: "TopicMetadata \<Rightarrow> bool" where
  "TopicMetadata_ok tm \<longleftrightarrow> fits 16 (tm_Err tm) \<and> length (tm_Name tm) \<le> MaxInt16 \<and> array_ok PartitionMetadata_ok (tm_Partitions tm)"

interpretation topic: kafka_element TopicMetadata_encode TopicMetadata_decode TopicMetadata_bytes TopicMetadata_ok
proof
  fix b assume ok: "TopicMetadata_ok b"
  have "writes (PutInt16 (tm_Err b) # PutString (tm_Name b) # put_array PartitionMetadata_encode (tm_Partitions b)) (TopicMetadata_bytes b)"
    unfolding TopicMetadata_bytes_def
    by (intro writes_Cons [OF writes_put(2)] writes_Cons [OF writes_String] partition.array_writes)
       (use ok in \<open>simp_all add: TopicMetadata_ok_def\<close>)
  then show "writes (TopicMetadata_encode b) (TopicMetadata_bytes b)" by (simp add: TopicMetadata_encode_def)
  let ?mk = "\<lambda>ps. \<lparr>tm_Err = tm_Err b, tm_Name = tm_Name b, tm_Partitions = ps\<rparr>"
  have "parses (dbind (getArray PartitionMetadata_decode) (\<lambda>ps. dret (?mk ps))) (array_bytes PartitionMetadata_bytes (tm_Partitions b)) b"
    using reads_map [OF partition.array_reads, of "tm_Partitions b" ?mk] ok by (cases b) (simp add: TopicMetadata_ok_def)
  then show "parses TopicMetadata_decode (TopicMetadata_bytes b) b"
    unfolding TopicMetadata_decode_def TopicMetadata_bytes_def
    by (intro reads_dbind [OF reads_Ints(2)] reads_dbind [OF reads_String]) (use ok in \<open>simp_all add: TopicMetadata_ok_def\<close>)
  show "TopicMetadata_bytes b \<noteq> []" by (simp add: TopicMetadata_bytes_def)
qed simp

text \<open>Brokers whose address is a host name or IPv4 address and a port.\<close>

definition plain_host :: "string \<Rightarrow> bool" where
  "plain_host host \<longleftrightarrow> list_all (\<lambda>c. c \<notin> {CHR '':'', CHR ''%'', CHR ''['', CHR '']''}) host"

definition Broker_host :: "Broker \<Rightarrow> string" where
  "Broker_host b = takeWhile (\<lambda>c. c \<noteq> CHR '':'') (broker_addr b)"

definition Broker_port :: "Broker \<Rightarrow> int" where
  "Broker_port b = fst (ParseInt (drop (length (Broker_host b) + 1) (broker_addr b)))"

definition Broker_ok :: "Broker \<Rightarrow> bool" where
  "Broker_ok b \<longleftrightarrow> fits 32 (broker_id b) \<and> fits 32 (Broker_port b) \<and> plain_host (Broker_host b) \<and> length (Broker_host b) \<le> MaxInt16 \<and>
     broker_addr b = Broker_host b @ '':'' @ FormatInt (Broker_port b)"

definition Broker_bytes :: "Broker \<Rightarrow> string" where
  "Broker_bytes b = be 4 (broker_id b) @ string_of (Broker_host b) @ be 4 (Broker_port b)"

lemma byteIndex_None: "byteIndex c s = None \<longleftrightarrow> c \<notin> set s"
  by (induction s) auto

lemma byteIndex_append: "c \<notin> set s \<Longrightarrow> byteIndex c (s @ c # t) = Some (length s)"
  by (induction s) auto

lemma FormatInt_plain: "c \<in> set (FormatInt i) \<Longrightarrow> is_digit c \<or> c = CHR ''-''"
  using digits_all_digit by (auto simp: FormatInt_def split: if_splits)

lemma SplitHostPort_plain:
  assumes "plain_host host" and "plain_host port"
  shows "SplitHostPort (host @ '':'' @ port) = Inr (host, port)"
proof -
  have n: "CHR '':'' \<notin> set host" "CHR ''%'' \<notin> set host" "CHR ''['' \<notin> set host" "CHR '']'' \<notin> set host"
    "CHR '':'' \<notin> set port" "CHR ''['' \<notin> set port" "CHR '']'' \<notin> set port"
    using assms by (auto simp: plain_host_def list_all_iff)
  have "byteIndex (CHR '':'') (rev port @ CHR '':'' # rev host) = Some (length (rev port))"
    by (rule byteIndex_append) (use n in simp)
  then have last: "lastIndex (CHR '':'') (host @ '':'' @ port) = Some (length host)" by (simp add: lastIndex_def)
  have "hd (host @ '':'' @ port) \<noteq> CHR ''[''" using n by (cases host) auto
  then show ?thesis using last n by (simp add: SplitHostPort_def Let_def byteIndex_None)
qed

lemma Broker_encode_ok:
  assumes "Broker_ok b"
  shows "Broker_encode b = [PutInt32 (broker_id b), PutString (Broker_host b), PutInt32 (Broker_port b)]"
proof -
  have addr: "broker_addr b = Broker_host b @ '':'' @ FormatInt (Broker_port b)" and host: "plain_host (Broker_host b)"
    and port: "fits 32 (Broker_port b)" using assms by (simp_all add: Broker_ok_def)
  have "plain_host (FormatInt (Broker_port b))"
    unfolding plain_host_def list_all_iff by (auto dest!: FormatInt_plain simp: is_digit_def)
  then have split: "SplitHostPort (broker_addr b) = Inr (Broker_host b, FormatInt (Broker_port b))"
    by (subst addr) (rule SplitHostPort_plain [OF host])
  have "in_int64 (Broker_port b)" using port by (auto simp: fits_def in_int64_def)
  then show ?thesis unfolding Broker_encode_def split by (simp add: ParseInt_FormatInt)
qed

interpretation broker: kafka_element Broker_encode Broker_decode Broker_bytes Broker_ok
proof
  fix b assume ok: "Broker_ok b"
  then show "writes (Broker_encode b) (Broker_bytes b)"
    unfolding Broker_encode_ok [OF ok] Broker_bytes_def
    by (intro writes_Cons [OF writes_put(3)] writes_Cons [OF writes_String] writes_put) (simp add: Broker_ok_def)
  let ?mk = "\<lambda>port. \<lparr>broker_id = broker_id b, broker_addr = Broker_host b @ '':'' @ FormatInt port\<rparr>"
  have "?mk (Broker_port b) = b" using ok by (cases b) (simp add: Broker_ok_def)
  then have "parses (dbind getInt32 (\<lambda>port. dret (?mk port))) (be 4 (Broker_port b)) b"
    using reads_map [OF reads_Ints(3), of "Broker_port b" ?mk] ok by (simp add: Broker_ok_def)
  then show "parses Broker_decode (Broker_bytes b) b"
    unfolding Broker_decode_def Broker_bytes_def
    by (intro reads_dbind [OF reads_Ints(3)] reads_dbind [OF reads_String]) (use ok in \<open>simp_all add: Broker_ok_def\<close>)
  show "Broker_bytes b \<noteq> []" by (simp add: Broker_bytes_def)
qed simp

definition MetadataResponse_bytes :: "MetadataResponse \<Rightarrow> string" where
  "MetadataResponse_bytes m = array_bytes Broker_bytes (mr_Brokers m) @ array_bytes TopicMetadata_bytes (mr_Topics m)"

definition MetadataResponse_ok :: "MetadataResponse \<Rightarrow> bool" where
  "MetadataResponse_ok m \<longleftrightarrow> array_ok Broker_ok (mr_Brokers m) \<and> array_ok TopicMetadata_ok (mr_Topics m)"

interpretation metadata: kafka_codec MetadataResponse_encode MetadataResponse_decode MetadataResponse_bytes MetadataResponse_ok "(=)"
proof
  fix m assume ok: "MetadataResponse_ok m"
  then show "writes (MetadataResponse_encode m) (MetadataResponse_bytes m)"
    unfolding MetadataResponse_encode_def MetadataResponse_bytes_def
    by (intro writes_append broker.array_writes topic.array_writes) (simp_all add: MetadataResponse_ok_def)
  let ?mk = "\<lambda>ts. \<lparr>mr_Brokers = mr_Brokers m, mr_Topics = ts\<rparr>"
  have "parses (dbind (getArray TopicMetadata_decode) (\<lambda>ts. dret (?mk ts))) (array_bytes TopicMetadata_bytes (mr_Topics m)) m"
    using reads_map [OF topic.array_reads, of "mr_Topics m" ?mk] ok by (cases m) (simp add: MetadataResponse_ok_def)
  then show "parses MetadataResponse_decode (MetadataResponse_bytes m) m"
    unfolding MetadataResponse_decode_def MetadataResponse_bytes_def
    by (intro reads_dbind [OF broker.array_reads]) (use ok in \<open>simp_all add: MetadataResponse_ok_def\<close>)
qed simp

section \<open>What requests write\<close>

lemma request_writes:
  assumes "writes (req_encode body) bs" and "length clientID \<le> MaxInt16"
  shows "writes (request_encode cid clientID body)
    (let rest = be 2 (req_key body) @ be 2 (req_version body) @ be 4 cid @ string_of clientID @ bs
     in be 4 (int (length rest)) @ rest)"
proof -
  have "writes (PutInt16 (req_key body) # PutInt16 (req_version body) # PutInt32 cid # PutString clientID # req_encode body)
      (be 2 (req_key body) @ be 2 (req_version body) @ be 4 cid @ string_of clientID @ bs)"
    by (intro writes_Cons [OF writes_put(2)] writes_Cons [OF writes_put(3)] writes_Cons [OF writes_String] assms)
  from writes_length [OF this] show ?thesis by (simp add: request_encode_def Let_def)
qed

text \<open>A produce request holds, for every partition, a message set behind its length.\<close>

definition sized_set :: "MessageSet \<Rightarrow> string" where
  "sized_set ms = (let raw = concat (map MessageBlock_bytes (Messages ms)) in be 4 (int (length raw)) @ raw)"

definition ProduceRequest_bytes :: "ProduceRequest \<Rightarrow> string" where
  "ProduceRequest_bytes p = be 2 (pr_RequiredAcks p) @ be 4 (pr_Timeout p) @ array_bytes (topic_bytes sized_set) (pr_msgSets p)"

definition ProduceRequest_ok :: "ProduceRequest \<Rightarrow> bool" where
  "ProduceRequest_ok p \<longleftrightarrow> topics_ok (\<lambda>ms. list_all MessageBlock_ok (Messages ms)) (pr_msgSets p)"

lemma ProduceRequest_writes:
  assumes "ProduceRequest_ok p"
  shows "writes (ProduceRequest_encode cs p) (ProduceRequest_bytes p)"
proof -
  have set: "writes (PushLength # MessageSet_encode cs ms @ [Pop]) (sized_set ms)" if "list_all MessageBlock_ok (Messages ms)" for ms
    unfolding sized_set_def Let_def using that by (intro writes_length MessageSet_writes)
  have part: "writes (put_array (\<lambda>(id, ms). PutInt32 id # PushLength # MessageSet_encode cs ms @ [Pop]) ps) (array_bytes (part_bytes sized_set) ps)"
    if "array_ok (\<lambda>(id, ms). fits 32 id \<and> list_all MessageBlock_ok (Messages ms)) ps" for ps
  proof (rule writes_array)
    show "writes ((\<lambda>(id, ms). PutInt32 id # PushLength # MessageSet_encode cs ms @ [Pop]) q) (part_bytes sized_set q)" if "q \<in> set ps" for q
      using array_okD [OF \<open>array_ok _ ps\<close> that] writes_Cons [OF writes_put(3) set, of "snd q" "fst q"]
      by (simp add: part_bytes_def case_prod_unfold)
  qed (use that in \<open>simp add: array_ok_def MaxArray_MaxInt32\<close>)
  have "writes (put_topics (\<lambda>ms. PushLength # MessageSet_encode cs ms @ [Pop]) (pr_msgSets p)) (array_bytes (topic_bytes sized_set) (pr_msgSets p))"
    unfolding put_topics_def
  proof (rule writes_array)
    have ok: "topics_ok (\<lambda>ms. list_all MessageBlock_ok (Messages ms)) (pr_msgSets p)" using assms by (simp add: ProduceRequest_ok_def)
    show "writes ((\<lambda>(topic, ps). PutString topic # put_array (\<lambda>(id, b). PutInt32 id # PushLength # MessageSet_encode cs b @ [Pop]) ps) t)
        (topic_bytes sized_set t)" if "t \<in> set (pr_msgSets p)" for t
      using topics_okD [OF ok that] writes_Cons [OF writes_String part, of "fst t" "snd t"]
      by (simp add: topic_bytes_def case_prod_unfold)
    show "length (pr_msgSets p) \<le> MaxInt32" using ok by (simp add: topics_ok_def array_ok_def MaxArray_MaxInt32)
  qed
  from writes_Cons [OF writes_put(2) writes_Cons [OF writes_put(3) this]] show ?thesis
    by (simp add: ProduceRequest_encode_def ProduceRequest_bytes_def)
qed

section \<open>Safety of the decoders\<close>

lemma safe_header: "safe responseHeader_decode"
  unfolding responseHeader_decode_def by (intro safe_dbind safe_Ints) (simp add: safe_dfail safe_dbind safe_Ints safe_dret)

lemma safe_blocks:
  "safe ProduceResponseBlock_decode" "safe OffsetResponseBlock_decode" "safe OffsetFetchResponseBlock_decode"
  "safe ConsumerMetadataResponse_decode" "safe Broker_decode" "safe PartitionMetadata_decode"
  unfolding ProduceResponseBlock_decode_def OffsetResponseBlock_decode_def OffsetFetchResponseBlock_decode_def
    ConsumerMetadataResponse_decode_def Broker_decode_def PartitionMetadata_decode_def getInt32Array_def getInt64Array_def
  by (intro safe_dbind safe_Ints safe_String safe_IntArray safe_dret)+

lemma safe_topic: "safe TopicMetadata_decode"
  unfolding TopicMetadata_decode_def by (intro safe_dbind safe_Ints safe_String safe_Array safe_blocks safe_dret)

lemma safe_metadata: "safe MetadataResponse_decode"
  unfolding MetadataResponse_decode_def by (intro safe_dbind safe_Array safe_blocks safe_topic safe_dret)

section \<open>Properties\<close>


text \<open>
  Fetch responses are the exception. \<open>getSubset\<close> does not look at the sign of the size it is
  given, so a fetch response with a negative message set size makes the decoder panic with a
  slice error instead of returning one.
\<close>

theorem negative_set_size_panics:
  assumes "n < 0" and "fits 32 n" and "fits 16 err" and "fits 64 hw"
  shows "FetchResponseBlock_decode cs depth (rd_at pre (be 2 err @ be 8 hw @ be 4 n @ post) st)
    = Panics ''runtime error: slice bounds out of range''"
  unfolding FetchResponseBlock_decode_def
  using readsD [OF reads_Ints(2) [OF assms(3)]] readsD [OF reads_Ints(4) [OF assms(4)]] readsD [OF reads_Ints(3) [OF assms(2)]] assms(1)
  by (simp add: dbind_def getSubset_def)

lemma negative_set_size_panics_witness:
  "FetchResponseBlock_decode stored 1 (rd_at [] (be 2 0 @ be 8 0 @ be 4 (-1) @ []) ([], [])) = Panics ''runtime error: slice bounds out of range''"
  by (rule negative_set_size_panics) (simp_all add: fits_def)

text \<open>
  Metadata survives the wire: decoding what \<open>encode\<close> makes of a metadata response gives it
  back, brokers with their addresses, topics and partitions in order with replicas and in-sync
  replicas.
\<close>

theorem metadata_round_trip:
  assumes "MetadataResponse_ok m" and "length (MetadataResponse_bytes m) \<le> MaxRequestSize"
  shows "\<exists>bs. encode (MetadataResponse_encode m) (MetadataResponse_encode m) = Returns (Inr bs) \<and>
    decode z MetadataResponse_decode (Some bs) = Returns (Inr m)"
  by (rule metadata.round_trip [OF assms(1) assms(1) refl assms(2)])

definition example_metadata :: MetadataResponse where
  "example_metadata = \<lparr>mr_Brokers = [\<lparr>broker_id = 1, broker_addr = ''kafka:9092''\<rparr>],
     mr_Topics = [\<lparr>tm_Err = 0, tm_Name = ''user-status'',
       tm_Partitions = [\<lparr>pm_Err = 0, pm_ID = 0, pm_Leader = 1, pm_Replicas = [1, 2], pm_Isr = [1]\<rparr>]\<rparr>]\<rparr>"

lemma metadata_round_trip_witness:
  "\<exists>bs. encode (MetadataResponse_encode example_metadata) (MetadataResponse_encode example_metadata) = Returns (Inr bs) \<and>
    decode example_metadata MetadataResponse_decode (Some bs) = Returns (Inr example_metadata)"
proof (rule metadata_round_trip)
  let ?b = "\<lparr>broker_id = 1, broker_addr = ''kafka:9092''\<rparr>"
  have host: "Broker_host ?b = ''kafka''" by (simp add: Broker_host_def)
  have "ParseInt (FormatInt 9092) = (9092, None)" by (rule ParseInt_FormatInt) (simp add: in_int64_def)
  moreover have port_text: "FormatInt 9092 = ''9092''" by (simp add: FormatInt_def digits.simps digit_char_def) code_simp
  ultimately have port: "Broker_port ?b = 9092" by (simp add: Broker_port_def host)
  have b: "Broker_ok ?b"
    by (simp add: Broker_ok_def host port port_text plain_host_def fits_def MaxInt16_def)
  show "MetadataResponse_ok example_metadata"
    using b by (simp add: example_metadata_def MetadataResponse_ok_def array_ok_def MaxArray_def TopicMetadata_ok_def fits_def
        MaxInt16_def PartitionMetadata_ok_def ints_ok_def MaxInt32_def)
  show "length (MetadataResponse_bytes example_metadata) \<le> MaxRequestSize"
    by (simp add: example_metadata_def MetadataResponse_bytes_def array_bytes_def Broker_bytes_def TopicMetadata_bytes_def
        PartitionMetadata_bytes_def string_of_def ints_of_def host MaxRequestSize_def)
qed

text \<open>
  Fetch responses survive the wire. The two passes of \<open>encode\<close> may iterate over the nested
  maps in different orders; the result always has the length the first pass computed and decodes
  to the same topics, partitions, offsets and messages.
\<close>

theorem fetch_round_trip:
  assumes "topics_ok FetchResponseBlock_ok x" and "topics_ok FetchResponseBlock_ok y" and "same_map (same_map (=)) x y"
    and "length (array_bytes (topic_bytes FetchResponseBlock_bytes) y) \<le> MaxRequestSize"
  shows "\<exists>bs. encode (FetchResponse_encode cs x) (FetchResponse_encode cs y) = Returns (Inr bs) \<and>
    decode z (FetchResponse_decode cs (Suc depth)) (Some bs) = Returns (Inr y)"
  unfolding FetchResponse_encode_def FetchResponse_decode_def
  by (rule fetch.topics.round_trip [OF assms])

lemma fetch_round_trip_witness:
  "\<exists>bs. encode (FetchResponse_encode stored [(''a'', [(0, zero_fetch_block), (1, zero_fetch_block)]), (''b'', [])])
      (FetchResponse_encode stored [(''b'', []), (''a'', [(1, zero_fetch_block), (0, zero_fetch_block)])]) = Returns (Inr bs) \<and>
    decode [] (FetchResponse_decode stored (Suc 0)) (Some bs) =
      Returns (Inr [(''b'', []), (''a'', [(1, zero_fetch_block), (0, zero_fetch_block)])])"
  by (rule fetch_round_trip)
     (simp_all add: topics_ok_def array_ok_def MaxArray_def MaxInt16_def fits_def FetchResponseBlock_ok_def zero_fetch_block_def
       same_map_def array_bytes_def topic_bytes_def part_bytes_def FetchResponseBlock_bytes_def string_of_def MaxRequestSize_def Let_def)

text \<open>
  How a request is framed. \<open>encode\<close> of a request whose body writes \<open>bs\<close> returns the length of
  what follows, the request's key and version, the correlation id, the client id and \<open>bs\<close>; a client
  id of more than 32767 bytes is refused and nothing is written.
\<close>

theorem request_framing:
  assumes "writes (req_encode body) bs" and "length bs + length clientID < MaxRequestSize - 20"
  shows "encode (request_encode cid clientID body) (request_encode cid clientID body) =
    (if length clientID \<le> MaxInt16
     then Returns (Inr (let rest = be 2 (req_key body) @ be 2 (req_version body) @ be 4 cid @ string_of clientID @ bs
                        in be 4 (int (length rest)) @ rest))
     else Returns (Inl (PacketEncodingError (''String too long: '' @ digits (length clientID)))))"
proof (cases "length clientID \<le> MaxInt16")
  case True
  let ?rest = "be 2 (req_key body) @ be 2 (req_version body) @ be 4 cid @ string_of clientID @ bs"
  have w: "writes (request_encode cid clientID body) (be 4 (int (length ?rest)) @ ?rest)"
    using request_writes [OF assms(1) True] by (simp add: Let_def)
  have "\<not> length (be 4 (int (length ?rest)) @ ?rest) > MaxRequestSize"
    using assms(2) by (simp add: string_of_def MaxRequestSize_def)
  then show ?thesis using encode_bytes [OF w w refl] True by (simp add: Let_def)
next
  case False
  then show ?thesis by (simp add: encode_def request_encode_def prep_putString_def)
qed

lemma request_framing_witness:
  "encode (request_encode 7 ''svc'' (MetadataRequest_body [])) (request_encode 7 ''svc'' (MetadataRequest_body [])) =
    Returns (Inr (be 4 17 @ be 2 3 @ be 2 0 @ be 4 7 @ string_of ''svc'' @ be 4 0))"
proof -
  have "writes (MetadataRequest_encode []) (be 4 0)"
    using writes_array [of "[]" "\<lambda>t. [PutString t]" string_of] by (simp add: MetadataRequest_encode_def array_bytes_def)
  then have "writes (req_encode (MetadataRequest_body [])) (be 4 0)" by (simp add: MetadataRequest_body_def)
  from request_framing [OF this, of "''svc''" 7] show ?thesis
    by (simp add: MaxRequestSize_def MaxInt16_def Let_def MetadataRequest_body_def string_of_def)
qed

text \<open>
  Batching keeps every message in order. After \<open>AddMessage\<close> the batch of that topic and
  partition is the old one with the message at the end, and every other batch is unchanged.
\<close>

theorem AddMessage_appends:
  "get_block (pr_msgSets (ProduceRequest_AddMessage topic part msg p)) t q =
     (if t = topic \<and> q = part
      then Some (addMessage msg (case get_block (pr_msgSets p) topic part of None \<Rightarrow> MessageSet False [] | Some ms \<Rightarrow> ms))
      else get_block (pr_msgSets p) t q)"
  by (auto simp: ProduceRequest_AddMessage_def Let_def get_block_def set_block_def partitions_def update_conv' split: option.split)

end
