(* ===== verification/Sarama_Config.thy ===== *)
theory Sarama_Config
  imports Sarama_Protocol
begin

text \<open>
  The error codes of a Kafka broker and their messages (\<open>errors.go\<close>), and the configuration
  with its defaults and its validation (\<open>config.go\<close>).
\<close>

section \<open>errors.go\<close>

definition ErrNoError :: int where "ErrNoError = 0"
definition ErrUnknown :: int where "ErrUnknown = -1"
definition ErrOffsetOutOfRange :: int where "ErrOffsetOutOfRange = 1"
definition ErrInvalidMessage :: int where "ErrInvalidMessage = 2"
definition ErrUnknownTopicOrPartition :: int where "ErrUnknownTopicOrPartition = 3"
definition ErrInvalidMessageSize :: int where "ErrInvalidMessageSize = 4"
definition ErrLeaderNotAvailable :: int where "ErrLeaderNotAvailable = 5"
definition ErrNotLeaderForPartition :: int where "ErrNotLeaderForPartition = 6"
definition ErrRequestTimedOut :: int where "ErrRequestTimedOut = 7"
definition ErrBrokerNotAvailable :: int where "ErrBrokerNotAvailable = 8"
definition ErrReplicaNotAvailable :: int where "ErrReplicaNotAvailable = 9"
definition ErrMessageSizeTooLarge :: int where "ErrMessageSizeTooLarge = 10"
definition ErrStaleControllerEpochCode :: int where "ErrStaleControllerEpochCode = 11"
definition ErrOffsetMetadataTooLarge :: int where "ErrOffsetMetadataTooLarge = 12"
definition ErrOffsetsLoadInProgress :: int where "ErrOffsetsLoadInProgress = 14"
definition ErrConsumerCoordinatorNotAvailable :: int where "ErrConsumerCoordinatorNotAvailable = 15"
definition ErrNotCoordinatorForConsumer :: int where "ErrNotCoordinatorForConsumer = 16"
definition ErrInvalidTopic :: int where "ErrInvalidTopic = 17"
definition ErrMessageSetSizeTooLarge :: int where "ErrMessageSetSizeTooLarge = 18"
definition ErrNotEnoughReplicas :: int where "ErrNotEnoughReplicas = 19"
definition ErrNotEnoughReplicasAfterAppend :: int where "ErrNotEnoughReplicasAfterAppend = 20"

text \<open>\<open>KError.Error\<close>: the cases of its switch in order.\<close>

definition kerror_messages :: "(int \<times> string) list" where
  "kerror_messages = [
   (ErrNoError, ''kafka server: Not an error, why are you printing me?''),
   (ErrUnknown, ''kafka server: Unexpected (unknown?) server error.''),
   (ErrOffsetOutOfRange, ''kafka server: The requested offset is outside the range of offsets maintained by the server for the given topic/partition.''),
   (ErrInvalidMessage, ''kafka server: Message contents does not match its CRC.''),
   (ErrUnknownTopicOrPartition, ''kafka server: Request was for a topic or partition that does not exist on this broker.''),
   (ErrInvalidMessageSize, ''kafka server: The message has a negative size.''),
   (ErrLeaderNotAvailable, ''kafka server: In the middle of a leadership election, there is currently no leader for this partition and hence it is unavailable for writes.''),
   (ErrNotLeaderForPartition, ''kafka server: Tried to send a message to a replica that is not the leader for some partition. Your metadata is out of date.''),
   (ErrRequestTimedOut, ''kafka server: Request exceeded the user-specified time limit in the request.''),
   (ErrBrokerNotAvailable, ''kafka server: Broker not available. Not a client facing error, we should never receive this!!!''),
   (ErrReplicaNotAvailable, ''kafka server: Replica infomation not available, one or more brokers are down.''),
   (ErrMessageSizeTooLarge, ''kafka server: Message was too large, server rejected it to avoid allocation error.''),
   (ErrStaleControllerEpochCode, ''kafka server: StaleControllerEpochCode (internal error code for broker-to-broker communication).''),
   (ErrOffsetMetadataTooLarge, ''kafka server: Specified a string larger than the configured maximum for offset metadata.''),
   (ErrOffsetsLoadInProgress, ''kafka server: The broker is still loading offsets after a leader change for that offset's topic partition.''),
   (ErrConsumerCoordinatorNotAvailable, ''kafka server: Offset's topic has not yet been created.''),
   (ErrNotCoordinatorForConsumer, ''kafka server: Request was for a consumer group that is not coordinated by this broker.''),
   (ErrInvalidTopic, ''kafka server: The request attempted to perform an operation on an invalid topic.''),
   (ErrMessageSetSizeTooLarge, ''kafka server: The request included message batch larger than the configured segment size on the server.''),
   (ErrNotEnoughReplicas, ''kafka server: Messages are rejected since there are fewer in-sync replicas than required.''),
   (ErrNotEnoughReplicasAfterAppend, ''kafka server: Messages are written to the log, but to fewer in-sync replicas than required.'')]"

definition KError_Error :: "int \<Rightarrow> string" where
  "KError_Error err =
     (case map_of kerror_messages err of
        Some text \<Rightarrow> text
      | None \<Rightarrow> ''Unknown error, how did this happen? Error code = '' @ FormatInt err)"

lemmas kerrors = ErrNoError_def
  ErrUnknown_def
  ErrOffsetOutOfRange_def
  ErrInvalidMessage_def
  ErrUnknownTopicOrPartition_def
  ErrInvalidMessageSize_def
  ErrLeaderNotAvailable_def
  ErrNotLeaderForPartition_def
  ErrRequestTimedOut_def
  ErrBrokerNotAvailable_def
  ErrReplicaNotAvailable_def
  ErrMessageSizeTooLarge_def
  ErrStaleControllerEpochCode_def
  ErrOffsetMetadataTooLarge_def
  ErrOffsetsLoadInProgress_def
  ErrConsumerCoordinatorNotAvailable_def
  ErrNotCoordinatorForConsumer_def
  ErrInvalidTopic_def
  ErrMessageSetSizeTooLarge_def
  ErrNotEnoughReplicas_def
  ErrNotEnoughReplicasAfterAppend_def

section \<open>config.go\<close>

definition Millisecond :: duration where "Millisecond = 1000000"

text \<open>The nested structs of \<open>Config\<close>, flattened. The constructor of a partitioner is nil or a function.\<close>

record 'p Config =
  Net_MaxOpenRequests :: int
  Net_DialTimeout :: duration
  Net_ReadTimeout :: duration
  Net_WriteTimeout :: duration
  Metadata_Retry_Max :: int
  Metadata_Retry_Backoff :: duration
  Metadata_RefreshFrequency :: duration
  Producer_MaxMessageBytes :: int
  Producer_RequiredAcks :: int
  Producer_Timeout :: duration
  Producer_Compression :: int
  Producer_Partitioner :: "'p option"
  Producer_Return_Successes :: bool
  Producer_Return_Errors :: bool
  Producer_Flush_Bytes :: int
  Producer_Flush_Messages :: int
  Producer_Flush_Frequency :: duration
  Producer_Flush_MaxMessages :: int
  Producer_Retry_Max :: int
  Producer_Retry_Backoff :: duration
  Consumer_Retry_Backoff :: duration
  Consumer_Fetch_Min :: int
  Consumer_Fetch_Default :: int
  Consumer_Fetch_Max :: int
  Consumer_MaxWaitTime :: duration
  Consumer_Return_Errors :: bool
  ClientID :: string
  ChannelBufferSize :: int

definition NewConfig :: "'p \<Rightarrow> 'p Config" where
  "NewConfig newHashPartitioner =
     \<lparr>Net_MaxOpenRequests = 5,
      Net_DialTimeout = 30 * Second,
      Net_ReadTimeout = 30 * Second,
      Net_WriteTimeout = 30 * Second,
      Metadata_Retry_Max = 3,
      Metadata_Retry_Backoff = 250 * Millisecond,
      Metadata_RefreshFrequency = 10 * Minute,
      Producer_MaxMessageBytes = 1000000,
      Producer_RequiredAcks = WaitForLocal,
      Producer_Timeout = 10 * Second,
      Producer_Compression = CompressionNone,
      Producer_Partitioner = Some newHashPartitioner,
      Producer_Return_Successes = False,
      Producer_Return_Errors = True,
      Producer_Flush_Bytes = 0,
      Producer_Flush_Messages = 0,
      Producer_Flush_Frequency = 0,
      Producer_Flush_MaxMessages = 0,
      Producer_Retry_Max = 3,
      Producer_Retry_Backoff = 100 * Millisecond,
      Consumer_Retry_Backoff = 2 * Second,
      Consumer_Fetch_Min = 1,
      Consumer_Fetch_Default = 32768,
      Consumer_Fetch_Max = 0,
      Consumer_MaxWaitTime = 250 * Millisecond,
      Consumer_Return_Errors = False,
      ClientID = [],
      ChannelBufferSize = 256\<rparr>"

definition forceFlushThreshold :: int where
  "forceFlushThreshold = int MaxRequestSize - 10 * 1024"

text \<open>\<open>Validate\<close>: what it logs, and the first check that fails.\<close>

definition Validate_warnings :: "'p Config \<Rightarrow> string list" where
  "Validate_warnings c =
     (if Producer_RequiredAcks c > 1
      then [''Producer.RequiredAcks > 1 is deprecated and will raise an exception with kafka >= 0.8.2.0.''] else []) @
     (if Producer_MaxMessageBytes c \<ge> forceFlushThreshold
      then [''Producer.MaxMessageBytes is too close to MaxRequestSize; it will be ignored.''] else []) @
     (if Producer_Flush_Bytes c \<ge> forceFlushThreshold
      then [''Producer.Flush.Bytes is too close to MaxRequestSize; it will be ignored.''] else []) @
     (if Producer_Timeout c mod Millisecond \<noteq> 0
      then [''Producer.Timeout only supports millisecond resolution; nanoseconds will be truncated.''] else []) @
     (if Consumer_MaxWaitTime c < 100 * Millisecond
      then [''Consumer.MaxWaitTime is very low, which can cause high CPU and network usage. See documentation for details.''] else []) @
     (if Consumer_MaxWaitTime c mod Millisecond \<noteq> 0
      then [''Consumer.MaxWaitTime only supports millisecond precision; nanoseconds will be truncated.''] else []) @
     (if ClientID c = ''sarama''
      then [''ClientID is the default of 'sarama', you should consider setting it to something application-specific.''] else [])"

definition Validate_checks :: "'p Config \<Rightarrow> (bool \<times> string) list" where
  "Validate_checks c = [
   (Net_MaxOpenRequests c \<le> 0, ''Invalid Net.MaxOpenRequests, must be > 0''),
   (Net_DialTimeout c \<le> 0, ''Invalid Net.DialTimeout, must be > 0''),
   (Net_ReadTimeout c \<le> 0, ''Invalid Net.ReadTimeout, must be > 0''),
   (Net_WriteTimeout c \<le> 0, ''Invalid Net.WriteTimeout, must be > 0''),
   (Metadata_Retry_Max c < 0, ''Invalid Metadata.Retry.Max, must be >= 0''),
   (Metadata_Retry_Backoff c < 0, ''Invalid Metadata.Retry.Backoff, must be >= 0''),
   (Metadata_RefreshFrequency c < 0, ''Invalid Metadata.RefreshFrequency, must be >= 0''),
   (Producer_MaxMessageBytes c \<le> 0, ''Invalid Producer.MaxMessageBytes, must be > 0''),
   (Producer_RequiredAcks c < -1, ''Invalid Producer.RequiredAcks, must be >= -1''),
   (Producer_Timeout c \<le> 0, ''Invalid Producer.Timeout, must be > 0''),
   (Producer_Partitioner c = None, ''Invalid Producer.Partitioner, must not be nil''),
   (Producer_Flush_Bytes c < 0, ''Invalid Producer.Flush.Bytes, must be >= 0''),
   (Producer_Flush_Messages c < 0, ''Invalid Producer.Flush.Messages, must be >= 0''),
   (Producer_Flush_Frequency c < 0, ''Invalid Producer.Flush.Frequency, must be >= 0''),
   (Producer_Flush_MaxMessages c < 0, ''Invalid Producer.Flush.MaxMessages, must be >= 0''),
   (Producer_Flush_MaxMessages c > 0 \<and> Producer_Flush_MaxMessages c < Producer_Flush_Messages c, ''Invalid Producer.Flush.MaxMessages, must be >= Producer.Flush.Messages when set''),
   (Producer_Retry_Max c < 0, ''Invalid Producer.Retry.Max, must be >= 0''),
   (Producer_Retry_Backoff c < 0, ''Invalid Producer.Retry.Backoff, must be >= 0''),
   (Consumer_Fetch_Min c \<le> 0, ''Invalid Consumer.Fetch.Min, must be > 0''),
   (Consumer_Fetch_Default c \<le> 0, ''Invalid Consumer.Fetch.Default, must be > 0''),
   (Consumer_Fetch_Max c < 0, ''Invalid Consumer.Fetch.Max, must be >= 0''),
   (Consumer_MaxWaitTime c < 1 * Millisecond, ''Invalid Consumer.MaxWaitTime, must be > 1ms''),
   (Consumer_Retry_Backoff c < 0, ''Invalid Consumer.Retry.Backoff, must be >= 0''),
   (ChannelBufferSize c < 0, ''Invalid ChannelBufferSize, must be >= 0'')]"

definition Validate :: "'p Config \<Rightarrow> string list \<times> string option" where
  "Validate c = (Validate_warnings c, map_option snd (find fst (Validate_checks c)))"

definition ConfigurationError_Error :: "string \<Rightarrow> string" where
  "ConfigurationError_Error err = ''kafka: Invalid Configuration: '' @ err"

section \<open>Properties\<close>

text \<open>
  \<open>Validate\<close> accepts exactly the configurations whose values make sense, and the defaults of
  \<open>NewConfig\<close> are among them and log no warning.
\<close>

theorem Validate_accepts:
  "(snd (Validate c) = None \<longleftrightarrow>
     Net_MaxOpenRequests c > 0 \<and> Net_DialTimeout c > 0 \<and> Net_ReadTimeout c > 0 \<and> Net_WriteTimeout c > 0 \<and>
     Metadata_Retry_Max c \<ge> 0 \<and> Metadata_Retry_Backoff c \<ge> 0 \<and> Metadata_RefreshFrequency c \<ge> 0 \<and>
     Producer_MaxMessageBytes c > 0 \<and> Producer_RequiredAcks c \<ge> -1 \<and> Producer_Timeout c > 0 \<and> Producer_Partitioner c \<noteq> None \<and>
     Producer_Flush_Bytes c \<ge> 0 \<and> Producer_Flush_Messages c \<ge> 0 \<and> Producer_Flush_Frequency c \<ge> 0 \<and>
     (Producer_Flush_MaxMessages c = 0 \<or> Producer_Flush_MaxMessages c \<ge> max 1 (Producer_Flush_Messages c)) \<and>
     Producer_Retry_Max c \<ge> 0 \<and> Producer_Retry_Backoff c \<ge> 0 \<and>
     Consumer_Fetch_Min c > 0 \<and> Consumer_Fetch_Default c > 0 \<and> Consumer_Fetch_Max c \<ge> 0 \<and>
     Consumer_MaxWaitTime c \<ge> Millisecond \<and> Consumer_Retry_Backoff c \<ge> 0 \<and> ChannelBufferSize c \<ge> 0) \<and>
   Validate (NewConfig p) = ([], None)"
proof
  show "Validate (NewConfig p) = ([], None)"
    by (simp add: Validate_def Validate_warnings_def Validate_checks_def NewConfig_def Second_def Minute_def Millisecond_def
        WaitForLocal_def forceFlushThreshold_def MaxRequestSize_def)
qed (simp add: Validate_def Validate_checks_def find_None_iff, linarith)

end
