(* ===== verification/Sarama_Partitioner.thy ===== *)
theory Sarama_Partitioner
  imports Sarama_Config
begin

unbundle bit_operations_syntax

text \<open>
  Messages to produce and the partitions they go to: \<open>partitioner.go\<close>, the encoders of
  \<open>utils.go\<close>, and \<open>ProducerMessage\<close> of \<open>async_producer.go\<close>.

  A partitioner is a state and a method \<open>Partition\<close> that may change it. The generator of
  \<open>math/rand\<close> is a parameter: \<open>draw n\<close> is what \<open>Intn\<close> returns next for a positive \<open>n\<close>.
\<close>

section \<open>Encoders and messages\<close>

text \<open>The interface \<open>Encoder\<close>: the bytes or an error's text, and the length it claims.\<close>

record Encoder =
  enc_Encode :: "string + string"
  enc_Length :: int

definition StringEncoder :: "string \<Rightarrow> Encoder" where
  "StringEncoder s = \<lparr>enc_Encode = Inr s, enc_Length = int (length s)\<rparr>"

definition ByteEncoder :: "string \<Rightarrow> Encoder" where
  "ByteEncoder b = \<lparr>enc_Encode = Inr b, enc_Length = int (length b)\<rparr>"

text \<open>The flags of a message; a message that carries data has none.\<close>

datatype flag = Data | Chaser | Ref | Unref | Shutdown

record ProducerMessage =
  msg_Topic :: string
  msg_Key :: "Encoder option"
  msg_Value :: "Encoder option"
  msg_Offset :: int
  msg_Partition :: int
  msg_Metadata :: nat
  msg_retries :: int
  msg_flags :: flag

definition byteSize :: "ProducerMessage \<Rightarrow> int" where
  "byteSize m =
     26 + (case msg_Key m of None \<Rightarrow> 0 | Some k \<Rightarrow> enc_Length k) + (case msg_Value m of None \<Rightarrow> 0 | Some v \<Rightarrow> enc_Length v)"

section \<open>Partitioners\<close>

datatype Partitioner =
    manualPartitioner
  | randomPartitioner
  | roundRobinPartitioner int
  | hashPartitioner

definition NewManualPartitioner :: "string \<Rightarrow> Partitioner" where "NewManualPartitioner topic = manualPartitioner"
definition NewRandomPartitioner :: "string \<Rightarrow> Partitioner" where "NewRandomPartitioner topic = randomPartitioner"
definition NewRoundRobinPartitioner :: "string \<Rightarrow> Partitioner" where "NewRoundRobinPartitioner topic = roundRobinPartitioner 0"
definition NewHashPartitioner :: "string \<Rightarrow> Partitioner" where "NewHashPartitioner topic = hashPartitioner"

fun RequiresConsistency :: "Partitioner \<Rightarrow> bool" where
  "RequiresConsistency manualPartitioner = True"
| "RequiresConsistency randomPartitioner = False"
| "RequiresConsistency (roundRobinPartitioner _) = False"
| "RequiresConsistency hashPartitioner = True"

text \<open>\<open>fnv.New32a\<close>: the 32-bit FNV-1a hash.\<close>

definition fnv32a :: "string \<Rightarrow> 32 word" where
  "fnv32a s = foldl (\<lambda>h c. (h XOR of_nat (of_char c)) * 16777619) 2166136261 s"

text \<open>
  The choice of the hash partitioner: the hash as a signed 32-bit number, negated when it is
  negative (which wraps for the smallest one), and the remainder of Go's truncating division.
\<close>

definition go_rem :: "int \<Rightarrow> int \<Rightarrow> int" where
  "go_rem a b = (if a < 0 then - ((- a) mod \<bar>b\<bar>) else a mod \<bar>b\<bar>)"

definition hash_choice :: "string \<Rightarrow> int \<Rightarrow> int" where
  "hash_choice key n =
     (let hash = sint (fnv32a key); hash = (if hash < 0 then wrap32 (- hash) else hash) in go_rem hash n)"

definition random_choice :: "(int \<Rightarrow> int) \<Rightarrow> int \<Rightarrow> (string + int) outcome" where
  "random_choice draw n = (if n \<le> 0 then Panics ''invalid argument to Intn'' else Returns (Inr (draw n)))"

fun Partition :: "(int \<Rightarrow> int) \<Rightarrow> Partitioner \<Rightarrow> ProducerMessage \<Rightarrow> int \<Rightarrow> (string + int) outcome \<times> Partitioner" where
  "Partition draw manualPartitioner m n = (Returns (Inr (msg_Partition m)), manualPartitioner)"
| "Partition draw randomPartitioner m n = (random_choice draw n, randomPartitioner)"
| "Partition draw (roundRobinPartitioner p) m n =
     (let p = (if p \<ge> n then 0 else p) in (Returns (Inr p), roundRobinPartitioner (wrap32 (p + 1))))"
| "Partition draw hashPartitioner m n =
     (case msg_Key m of
        None \<Rightarrow> (random_choice draw n, hashPartitioner)
      | Some k \<Rightarrow>
          (case enc_Encode k of
             Inl e \<Rightarrow> (Returns (Inl e), hashPartitioner)
           | Inr bytes \<Rightarrow>
               if n = 0 then (Panics ''runtime error: integer divide by zero'', hashPartitioner)
               else (Returns (Inr (hash_choice bytes n)), hashPartitioner)))"

section \<open>dupeAndSort of utils.go\<close>

definition dupeAndSort :: "int list \<Rightarrow> int list" where
  "dupeAndSort input = sort input"

section \<open>Properties\<close>

lemma go_rem_range: "0 \<le> a \<Longrightarrow> 0 < n \<Longrightarrow> 0 \<le> go_rem a n \<and> go_rem a n < n"
  by (simp add: go_rem_def)

lemma sint32_range: "- (2 ^ 31) \<le> sint (w :: 32 word) \<and> sint w < 2 ^ 31"
  using sint_range_size [of w] by (simp add: word_size)

lemma sint_smallest: "sint (w :: 32 word) = - (2 ^ 31) \<longleftrightarrow> w = 0x80000000"
proof
  assume "sint w = - (2 ^ 31)"
  then have "word_of_int (sint w) = (word_of_int (- (2 ^ 31)) :: 32 word)" by simp
  then show "w = 0x80000000" by simp
next
  show "w = 0x80000000 \<Longrightarrow> sint w = - (2 ^ 31)" by simp
qed

lemma hash_choice_range:
  assumes "0 < n"
  shows "if fnv32a bytes = 0x80000000 then hash_choice bytes n = - (2 ^ 31 mod n) else 0 \<le> hash_choice bytes n \<and> hash_choice bytes n < n"
proof -
  let ?h = "sint (fnv32a bytes)"
  let ?a = "if ?h < 0 then wrap32 (- ?h) else ?h"
  have choice: "hash_choice bytes n = go_rem ?a n" by (simp add: hash_choice_def Let_def)
  show ?thesis
  proof (cases "fnv32a bytes = 0x80000000")
    case True
    then have "?h = - (2 ^ 31)" by (simp only: sint_smallest)
    then have "?a = - (2 ^ 31)" by (simp add: wrap32_def)
    then show ?thesis using choice True assms by (simp add: go_rem_def)
  next
    case False
    then have "0 \<le> ?a" using sint32_range [of "fnv32a bytes"] sint_smallest [of "fnv32a bytes"] by (auto simp: wrap32_def)
    then show ?thesis using choice False go_rem_range [of ?a n] assms by simp
  qed
qed

text \<open>
  Where a keyed message goes. The hash partitioner gives messages with equal key bytes the
  same partition whatever came before, and it lies in the range of the partitions for every key
  but those whose hash is \<open>0x80000000\<close>: for these the negation wraps, and the choice is the
  negative remainder.
\<close>

theorem hash_partition:
  assumes "msg_Key m = Some k" and "enc_Encode k = Inr bytes" and "0 < n" and "n < 2 ^ 31"
  shows "\<exists>choice. Partition draw hashPartitioner m n = (Returns (Inr choice), hashPartitioner) \<and> choice = hash_choice bytes n \<and>
    (if fnv32a bytes = 0x80000000 then choice = - (2 ^ 31 mod n) else 0 \<le> choice \<and> choice < n)"
  using assms hash_choice_range [OF assms(3), of bytes] by simp

definition keyed :: "string \<Rightarrow> ProducerMessage" where
  "keyed key = \<lparr>msg_Topic = ''t'', msg_Key = Some (StringEncoder key), msg_Value = None, msg_Offset = 0, msg_Partition = 0,
     msg_Metadata = 0, msg_retries = 0, msg_flags = Data\<rparr>"

lemma hash_partition_witness:
  "\<exists>choice. Partition (\<lambda>_. 0) hashPartitioner (keyed ''qqk42v'') 3 = (Returns (Inr choice), hashPartitioner) \<and> choice = - 2"
proof -
  have h: "fnv32a ''qqk42v'' = 0x80000000" by (simp add: fnv32a_def)
  show ?thesis
    using hash_partition [of "keyed ''qqk42v''" "StringEncoder ''qqk42v''" "''qqk42v''" 3 "\<lambda>_. 0"]
    by (simp add: h keyed_def StringEncoder_def)
qed

text \<open>
  The round-robin partitioner walks through all partitions: with \<open>n\<close> partitions its \<open>k\<close>-th
  choice is \<open>k mod n\<close>.
\<close>

fun choices :: "(int \<Rightarrow> int) \<Rightarrow> Partitioner \<Rightarrow> ProducerMessage list \<Rightarrow> int \<Rightarrow> (string + int) outcome list" where
  "choices draw p [] n = []"
| "choices draw p (m # ms) n = (let (r, p') = Partition draw p m n in r # choices draw p' ms n)"

lemma round_robin_from:
  assumes "0 < n" and "n < 2 ^ 31 - 1"
  shows "0 \<le> p \<Longrightarrow> p \<le> n \<Longrightarrow>
    choices draw (roundRobinPartitioner p) ms n = map (\<lambda>i. Returns (Inr ((p + int i) mod n))) [0..<length ms]"
proof (induction ms arbitrary: p)
  case (Cons m ms)
  define q where "q = (if p \<ge> n then 0 else p)"
  have q: "0 \<le> q" "q < n" "q = p mod n" using Cons.prems assms(1) by (auto simp: q_def)
  have w: "wrap32 (q + 1) = q + 1" using q assms(2) by (simp add: wrap32_def)
  have shift: "(q + 1 + int i) mod n = (p + int (Suc i)) mod n" for i
    unfolding q(3) by (simp add: mod_simps add.assoc)
  have "choices draw (roundRobinPartitioner p) (m # ms) n = Returns (Inr q) # choices draw (roundRobinPartitioner (q + 1)) ms n"
    by (simp add: q_def [symmetric] w)
  also have "\<dots> = Returns (Inr (p mod n)) # map (\<lambda>i. Returns (Inr ((p + int (Suc i)) mod n))) [0..<length ms]"
    using Cons.IH [of "q + 1"] q(1,2) unfolding shift by (simp only: q(3))
  also have "\<dots> = map (\<lambda>i. Returns (Inr ((p + int i) mod n))) [0..<length (m # ms)]"
    by (simp add: map_upt_Suc del: upt_Suc)
  finally show ?case .
qed simp

theorem round_robin_cycles:
  assumes "0 < n" and "n < 2 ^ 31 - 1"
  shows "choices draw (NewRoundRobinPartitioner topic) ms n = map (\<lambda>i. Returns (Inr (int i mod n))) [0..<length ms]"
  using round_robin_from [OF assms, of 0] assms(1) by (simp add: NewRoundRobinPartitioner_def)

lemma round_robin_cycles_witness:
  "choices (\<lambda>_. 0) (NewRoundRobinPartitioner ''t'') (replicate 3 (keyed ''k'')) 2 = [Returns (Inr 0), Returns (Inr 1), Returns (Inr 0)]"
  using round_robin_cycles [of 2 "\<lambda>_. 0" "''t''" "replicate 3 (keyed ''k'')"] by (simp add: upt_rec)

end
