(* ===== verification/Sarama_Broker.thy ===== *)
theory Sarama_Broker
  imports Sarama_Partitioner
begin

text \<open>
  The connection to one Kafka broker (\<open>broker.go\<close>): opening and closing it, sending requests,
  and the goroutine that reads the responses and hands each to the request that waits for it.

  \<open>Open\<close> passes the broker's lock to the goroutine that dials, so no other operation sees the
  connection before the attempt is over: both are one step. A promise that was sent stays in
  \<open>bc_responses\<close> until the receiver is done with it; the channel of that name holds all but the
  one the receiver works on. The network is what was written (\<open>bc_out\<close>) and what there is to
  read (\<open>bc_in\<close>), and the errors of the socket calls are arguments.
\<close>

datatype broker_error =
    ErrNotConnected
  | ErrAlreadyConnected
  | ConfigError string
  | NetError string
  | KafkaError kafka_error

record 'p BrokerConn =
  bc_opened :: bool
  bc_conn :: bool
  bc_connErr :: "string option"
  bc_conf :: "'p Config option"
  bc_correlationID :: int
  bc_responses :: "int list"
  bc_out :: string
  bc_in :: string

section \<open>Open, Connected, Close\<close>

definition new_conn :: "'p BrokerConn" where
  "new_conn = \<lparr>bc_opened = False, bc_conn = False, bc_connErr = None, bc_conf = None, bc_correlationID = 0,
     bc_responses = [], bc_out = [], bc_in = []\<rparr>"

text \<open>\<open>dial\<close> is the error of \<open>net.DialTimeout\<close>, if any; \<open>def\<close> the partitioner of the default configuration.\<close>

definition Broker_Open :: "'p \<Rightarrow> 'p Config option \<Rightarrow> string option \<Rightarrow> 'p BrokerConn \<Rightarrow> broker_error option \<times> 'p BrokerConn" where
  "Broker_Open def conf dial b =
     (let c = (case conf of None \<Rightarrow> NewConfig def | Some c \<Rightarrow> c) in
      case snd (Validate c) of
        Some e \<Rightarrow> (Some (ConfigError e), b)
      | None \<Rightarrow>
          if bc_opened b then (Some ErrAlreadyConnected, b)
          else
            let b1 = b\<lparr>bc_opened := True\<rparr> in
            if bc_conn b1 then (Some ErrAlreadyConnected, b1)
            else case dial of
              Some e \<Rightarrow> (None, b1\<lparr>bc_connErr := Some e, bc_conn := False, bc_opened := False\<rparr>)
            | None \<Rightarrow> (None, b1\<lparr>bc_connErr := None, bc_conn := True, bc_conf := Some c, bc_responses := [],
                 bc_out := [], bc_in := []\<rparr>))"

definition Broker_Connected :: "'p BrokerConn \<Rightarrow> bool \<times> string option" where
  "Broker_Connected b = (bc_conn b, bc_connErr b)"

section \<open>send\<close>

datatype net_write = Wrote | DeadlineFails string | WriteFails nat string

text \<open>
  The lock is held throughout. \<open>body1\<close> and \<open>body2\<close> are what the two passes of \<open>encode\<close> see. A
  failed write leaves the bytes that got through on the wire and the correlation id as it was.
\<close>

definition Broker_send :: "net_write \<Rightarrow> requestEncoder \<Rightarrow> requestEncoder \<Rightarrow> bool \<Rightarrow> 'p BrokerConn
    \<Rightarrow> ((broker_error + int option) \<times> 'p BrokerConn) outcome" where
  "Broker_send w body1 body2 promiseResponse b =
     (if \<not> bc_conn b then
        Returns (Inl (case bc_connErr b of Some e \<Rightarrow> NetError e | None \<Rightarrow> ErrNotConnected), b)
      else
        let cid = bc_correlationID b; client = (case bc_conf b of None \<Rightarrow> [] | Some c \<Rightarrow> ClientID c) in
        bind_outcome (encode (request_encode cid client body1) (request_encode cid client body2)) (\<lambda>r.
        case r of
          Inl e \<Rightarrow> Returns (Inl (KafkaError e), b)
        | Inr packet \<Rightarrow>
            (case w of
               DeadlineFails e \<Rightarrow> Returns (Inl (NetError e), b)
             | WriteFails k e \<Rightarrow> Returns (Inl (NetError e), b\<lparr>bc_out := bc_out b @ take k packet\<rparr>)
             | Wrote \<Rightarrow>
                 let b1 = b\<lparr>bc_out := bc_out b @ packet, bc_correlationID := wrap32 (cid + 1)\<rparr> in
                 if promiseResponse then Returns (Inr (Some cid), b1\<lparr>bc_responses := bc_responses b1 @ [cid]\<rparr>)
                 else Returns (Inr None, b1))))"

section \<open>responseReceiver\<close>

text \<open>
  One round of the receiver, for the promise \<open>cid\<close>: the answer it gets and what is left to read.
  \<open>deadline\<close> is the error of \<open>SetReadDeadline\<close>; a read that comes up short has consumed what
  there was.
\<close>

definition receive_one :: "string option \<Rightarrow> int \<Rightarrow> string \<Rightarrow> (broker_error + string) outcome \<times> string" where
  "receive_one deadline cid inp =
     (case deadline of
        Some e \<Rightarrow> (Returns (Inl (NetError e)), inp)
      | None \<Rightarrow>
          if length inp < 8 then (Returns (Inl (NetError (if inp = [] then ''EOF'' else ''unexpected EOF''))), [])
          else
            let header = take 8 inp; rest = drop 8 inp in
            case decode \<lparr>rh_length = 0, rh_correlationID = 0\<rparr> responseHeader_decode (Some header) of
              Returns (Inl e) \<Rightarrow> (Returns (Inl (KafkaError e)), rest)
            | Returns (Inr h) \<Rightarrow>
                if rh_correlationID h \<noteq> cid then
                  (Returns (Inl (KafkaError (PacketDecodingError (''CorrelationID didn't match, wanted '' @ FormatInt cid @
                     '', got '' @ FormatInt (rh_correlationID h))))), rest)
                else
                  let n = nat (rh_length h - 4) in
                  if length rest < n then (Returns (Inl (NetError (if rest = [] then ''EOF'' else ''unexpected EOF''))), [])
                  else (Returns (Inr (take n rest)), drop n rest)
            | Panics m \<Rightarrow> (Panics m, rest)
            | Exits m \<Rightarrow> (Exits m, rest))"

text \<open>The receiver on all promises of the channel in turn, without deadline errors.\<close>

fun receive_all :: "int list \<Rightarrow> string \<Rightarrow> (broker_error + string) outcome list \<times> string" where
  "receive_all [] inp = ([], inp)"
| "receive_all (cid # cids) inp =
     (let (r, inp1) = receive_one None cid inp; (rs, inp2) = receive_all cids inp1 in (r # rs, inp2))"

text \<open>\<open>Close\<close> lets the receiver finish the promises that are pending; \<open>closeErr\<close> is the socket's error.\<close>

definition Broker_Close :: "string option \<Rightarrow> 'p BrokerConn \<Rightarrow> broker_error option \<times> (broker_error + string) outcome list \<times> 'p BrokerConn" where
  "Broker_Close closeErr b =
     (if \<not> bc_conn b then (Some ErrNotConnected, [], b)
      else
        let (answers, inp) = receive_all (bc_responses b) (bc_in b) in
        (map_option NetError closeErr, answers,
         b\<lparr>bc_conn := False, bc_connErr := None, bc_responses := [], bc_opened := False, bc_in := inp\<rparr>))"

section \<open>sendAndReceive and the requests\<close>

text \<open>
  \<open>answer\<close> is what the receiver sends on the promise's channels: a packet or an error. A request
  that expects no response has no decoder.
\<close>

definition sendAndReceive :: "net_write \<Rightarrow> requestEncoder \<Rightarrow> requestEncoder \<Rightarrow> ('a \<times> 'a dec) option \<Rightarrow> broker_error + string
    \<Rightarrow> 'p BrokerConn \<Rightarrow> ((broker_error + 'a option) \<times> 'p BrokerConn) outcome" where
  "sendAndReceive w body1 body2 res answer b =
     bind_outcome (Broker_send w body1 body2 (res \<noteq> None) b) (\<lambda>(r, b1).
       case r of
         Inl e \<Rightarrow> Returns (Inl e, b1)
       | Inr None \<Rightarrow> Returns (Inr None, b1)
       | Inr (Some cid) \<Rightarrow>
           (case (answer, res) of
              (Inl e, _) \<Rightarrow> Returns (Inl e, b1)
            | (Inr packet, Some (zero, dec)) \<Rightarrow>
                bind_outcome (decode zero dec (Some packet)) (\<lambda>d.
                  case d of Inl e \<Rightarrow> Returns (Inl (KafkaError e), b1) | Inr x \<Rightarrow> Returns (Inr (Some x), b1))
            | (Inr packet, None) \<Rightarrow> Returns (Inr None, b1)))"

definition Broker_GetMetadata :: "net_write \<Rightarrow> string list \<Rightarrow> broker_error + string \<Rightarrow> 'p BrokerConn
    \<Rightarrow> ((broker_error + MetadataResponse option) \<times> 'p BrokerConn) outcome" where
  "Broker_GetMetadata w topics answer =
     sendAndReceive w (MetadataRequest_body topics) (MetadataRequest_body topics)
       (Some (\<lparr>mr_Brokers = [], mr_Topics = []\<rparr>, MetadataResponse_decode)) answer"

definition Broker_GetConsumerMetadata :: "net_write \<Rightarrow> string \<Rightarrow> broker_error + string \<Rightarrow> 'p BrokerConn
    \<Rightarrow> ((broker_error + ConsumerMetadataResponse option) \<times> 'p BrokerConn) outcome" where
  "Broker_GetConsumerMetadata w grp answer =
     sendAndReceive w (ConsumerMetadataRequest_body grp) (ConsumerMetadataRequest_body grp)
       (Some (\<lparr>cm_Err = 0, cm_CoordinatorID = 0, cm_CoordinatorHost = [], cm_CoordinatorPort = 0\<rparr>, ConsumerMetadataResponse_decode)) answer"

definition Broker_GetAvailableOffsets :: "net_write \<Rightarrow> OffsetRequest \<Rightarrow> OffsetRequest \<Rightarrow> broker_error + string \<Rightarrow> 'p BrokerConn
    \<Rightarrow> ((broker_error + OffsetResponse option) \<times> 'p BrokerConn) outcome" where
  "Broker_GetAvailableOffsets w r1 r2 answer =
     sendAndReceive w (OffsetRequest_body r1) (OffsetRequest_body r2) (Some ([], OffsetResponse_decode)) answer"

definition Broker_Produce :: "codecs \<Rightarrow> net_write \<Rightarrow> ProduceRequest \<Rightarrow> ProduceRequest \<Rightarrow> broker_error + string \<Rightarrow> 'p BrokerConn
    \<Rightarrow> ((broker_error + ProduceResponse option) \<times> 'p BrokerConn) outcome" where
  "Broker_Produce cs w r1 r2 answer =
     sendAndReceive w (ProduceRequest_body cs r1) (ProduceRequest_body cs r2)
       (if pr_RequiredAcks r1 = NoResponse then None else Some ([], ProduceResponse_decode)) answer"

definition Broker_Fetch :: "codecs \<Rightarrow> nat \<Rightarrow> net_write \<Rightarrow> FetchRequest \<Rightarrow> FetchRequest \<Rightarrow> broker_error + string \<Rightarrow> 'p BrokerConn
    \<Rightarrow> ((broker_error + FetchResponse option) \<times> 'p BrokerConn) outcome" where
  "Broker_Fetch cs depth w r1 r2 answer =
     sendAndReceive w (FetchRequest_body r1) (FetchRequest_body r2) (Some ([], FetchResponse_decode cs depth)) answer"

definition Broker_CommitOffset :: "net_write \<Rightarrow> OffsetCommitRequest \<Rightarrow> OffsetCommitRequest \<Rightarrow> broker_error + string \<Rightarrow> 'p BrokerConn
    \<Rightarrow> ((broker_error + int topics option) \<times> 'p BrokerConn) outcome" where
  "Broker_CommitOffset w r1 r2 answer =
     sendAndReceive w (OffsetCommitRequest_body r1) (OffsetCommitRequest_body r2) (Some ([], OffsetCommitResponse_decode)) answer"

definition Broker_FetchOffset :: "net_write \<Rightarrow> OffsetFetchRequest \<Rightarrow> OffsetFetchRequest \<Rightarrow> broker_error + string \<Rightarrow> 'p BrokerConn
    \<Rightarrow> ((broker_error + OffsetFetchResponseBlock topics option) \<times> 'p BrokerConn) outcome" where
  "Broker_FetchOffset w r1 r2 answer =
     sendAndReceive w (OffsetFetchRequest_body r1) (OffsetFetchRequest_body r2) (Some ([], OffsetFetchResponse_decode)) answer"

section \<open>Which answer a request gets\<close>

definition response_frame :: "int \<Rightarrow> string \<Rightarrow> string" where
  "response_frame cid body = be 4 (int (length body) + 4) @ be 4 cid @ body"

definition frame_ok :: "string \<Rightarrow> bool" where
  "frame_ok body \<longleftrightarrow> body \<noteq> [] \<and> int (length body) + 4 \<le> MaxResponseSize"

lemma header_decoded:
  assumes "4 < len" and "len \<le> MaxResponseSize" and "fits 32 got"
  shows "decode z responseHeader_decode (Some (be 4 len @ be 4 got)) = Returns (Inr \<lparr>rh_length = len, rh_correlationID = got\<rparr>)"
proof -
  let ?mk = "\<lambda>cid. \<lparr>rh_length = len, rh_correlationID = cid\<rparr>"
  have "fits 32 len" using assms by (simp add: fits_def MaxResponseSize_def)
  from reads_Ints(3) [OF this] reads_map [OF reads_Ints(3) [OF assms(3)], of ?mk]
  have "parses responseHeader_decode (be 4 len @ be 4 got) (?mk got)"
    unfolding responseHeader_decode_def using assms by (intro reads_dbind) auto
  then show ?thesis unfolding parses_def
    by (auto dest!: spec [of _ "[]"] simp: decode_def new_decoder_at) (simp add: rd_at_def)
qed

lemma receive_one_frame:
  assumes "frame_ok body" and "fits 32 got"
  shows "receive_one None cid (response_frame got body @ rest) =
    (if got = cid then (Returns (Inr body), rest)
     else (Returns (Inl (KafkaError (PacketDecodingError (''CorrelationID didn't match, wanted '' @ FormatInt cid @
             '', got '' @ FormatInt got)))), body @ rest))"
proof -
  let ?inp = "response_frame got body @ rest"
  have "take 8 ?inp = be 4 (int (length body) + 4) @ be 4 got" "drop 8 ?inp = body @ rest"
    by (simp_all add: response_frame_def)
  moreover have "4 < int (length body) + 4" using assms(1) by (simp add: frame_ok_def)
  ultimately show ?thesis using assms header_decoded [of "int (length body) + 4" got "\<lparr>rh_length = 0, rh_correlationID = 0\<rparr>"]
    by (simp add: receive_one_def frame_ok_def response_frame_def Let_def)
qed

lemma receive_all_frames:
  assumes "list_all2 (\<lambda>cid body. fits 32 cid \<and> frame_ok body) cids bodies"
  shows "receive_all cids (concat (map2 response_frame cids bodies) @ rest) = (map (\<lambda>body. Returns (Inr body)) bodies, rest)"
  using assms by (induction rule: list_all2_induct) (simp_all add: receive_one_frame)

section \<open>Runs of a connection\<close>

text \<open>
  A send that expects a response goes through while fewer than \<open>MaxOpenRequests\<close> are pending: the
  channel holds one less, and the receiver works on one.
\<close>

inductive broker_step :: "'p BrokerConn \<Rightarrow> 'p BrokerConn \<Rightarrow> bool" where
  step_Open: "Broker_Open def conf dial b = (r, b') \<Longrightarrow> broker_step b b'"
| step_send: "Broker_send w body1 body2 promised b = Returns (r, b') \<Longrightarrow>
    (\<And>c. bc_conf b = Some c \<Longrightarrow> int (length (bc_responses b)) < Net_MaxOpenRequests c) \<Longrightarrow> broker_step b b'"
| step_receive: "bc_conn b \<Longrightarrow> bc_responses b = cid # cids \<Longrightarrow> receive_one deadline cid (bc_in b) = (Returns r, inp) \<Longrightarrow>
    broker_step b (b\<lparr>bc_responses := cids, bc_in := inp\<rparr>)"
| step_arrive: "broker_step b (b\<lparr>bc_in := bc_in b @ bytes\<rparr>)"
| step_Close: "Broker_Close closeErr b = (r, answers, b') \<Longrightarrow> broker_step b b'"

inductive broker_reach :: "'p BrokerConn \<Rightarrow> bool" where
  reach_new: "broker_reach new_conn"
| reach_step: "broker_reach b \<Longrightarrow> broker_step b b' \<Longrightarrow> broker_reach b'"

definition conn_inv :: "'p BrokerConn \<Rightarrow> bool" where
  "conn_inv b \<longleftrightarrow> bc_opened b = bc_conn b \<and> fits 32 (bc_correlationID b) \<and> list_all (fits 32) (bc_responses b) \<and>
     (if bc_conn b
      then case bc_conf b of None \<Rightarrow> False
        | Some c \<Rightarrow> snd (Validate c) = None \<and> int (length (bc_responses b)) \<le> Net_MaxOpenRequests c
      else bc_responses b = [])"

lemma wrap32_fits [simp]: "fits 32 (wrap32 x)"
  using wrap32_range [of x] by (simp add: fits_def in_int32_def)

lemma Validate_open_requests: "snd (Validate c) = None \<Longrightarrow> 0 < Net_MaxOpenRequests c"
  by (cases "Net_MaxOpenRequests c \<le> 0") (simp add: Validate_def Validate_checks_def, simp)

lemma Open_inv: "conn_inv b \<Longrightarrow> Broker_Open def conf dial b = (r, b') \<Longrightarrow> conn_inv b'"
  by (auto simp: Broker_Open_def conn_inv_def Let_def dest: Validate_open_requests split: option.splits if_splits)

lemma bind_outcome_Returns: "bind_outcome m f = Returns y \<longleftrightarrow> (\<exists>x. m = Returns x \<and> f x = Returns y)"
  by (cases m) simp_all

lemma send_result:
  assumes "Broker_send w body1 body2 promised b = Returns (r, b')"
  shows "b' = b \<or> (\<exists>out. b' = b\<lparr>bc_out := out\<rparr>) \<or>
    bc_conn b \<and> (\<exists>out. b' = b\<lparr>bc_out := out, bc_correlationID := wrap32 (bc_correlationID b + 1),
      bc_responses := bc_responses b @ (if promised then [bc_correlationID b] else [])\<rparr>)"
proof (cases "bc_conn b")
  case True
  let ?client = "case bc_conf b of None \<Rightarrow> [] | Some c \<Rightarrow> ClientID c"
  let ?cid = "bc_correlationID b"
  obtain enc where enc: "encode (request_encode ?cid ?client body1) (request_encode ?cid ?client body2) = Returns enc"
    using assms True by (auto simp: Broker_send_def Let_def bind_outcome_Returns)
  show ?thesis
  proof (cases enc)
    case (Inr packet)
    then show ?thesis using assms True enc
      by (cases w) (auto simp: Broker_send_def Let_def split: if_splits)
  qed (use assms True enc in \<open>simp add: Broker_send_def Let_def\<close>)
qed (use assms in \<open>simp add: Broker_send_def\<close>)

lemma send_inv:
  assumes "conn_inv b" and "Broker_send w body1 body2 promised b = Returns (r, b')"
    and "\<And>c. bc_conf b = Some c \<Longrightarrow> int (length (bc_responses b)) < Net_MaxOpenRequests c"
  shows "conn_inv b'"
  using send_result [OF assms(2)] assms(1,3) by (auto simp: conn_inv_def split: option.splits)

lemma receive_inv: "conn_inv b \<Longrightarrow> bc_responses b = cid # cids \<Longrightarrow> conn_inv (b\<lparr>bc_responses := cids, bc_in := inp\<rparr>)"
  by (auto simp: conn_inv_def split: option.splits)

lemma Close_inv: "conn_inv b \<Longrightarrow> Broker_Close closeErr b = (r, answers, b') \<Longrightarrow> conn_inv b'"
  by (auto simp: Broker_Close_def conn_inv_def Let_def split: if_splits prod.splits)

lemma broker_step_inv: "broker_step b b' \<Longrightarrow> conn_inv b \<Longrightarrow> conn_inv b'"
proof (induction rule: broker_step.induct)
  case (step_Open def conf dial b r b')
  then show ?case by (elim Open_inv)
next
  case (step_send w body1 body2 promised b r b')
  from step_send(3,1,2) show ?case by (rule send_inv)
next
  case (step_receive b cid cids deadline r inp)
  then show ?case by (elim receive_inv)
next
  case (step_Close closeErr b r answers b')
  then show ?case by (elim Close_inv)
qed (auto simp: conn_inv_def split: option.splits if_splits)

lemma broker_reach_inv: "broker_reach b \<Longrightarrow> conn_inv b"
  by (induction rule: broker_reach.induct) (simp_all add: broker_step_inv, simp add: conn_inv_def new_conn_def fits_def)


lemma send_ok:
  assumes "bc_conn b" and "bc_conf b = Some c" and "writes (req_encode body) bs" and "length (ClientID c) \<le> MaxInt16"
    and "length bs + length (ClientID c) < MaxRequestSize - 20"
  shows "\<exists>packet. Broker_send Wrote body body True b = Returns (Inr (Some (bc_correlationID b)),
    b\<lparr>bc_out := bc_out b @ packet, bc_correlationID := wrap32 (bc_correlationID b + 1), bc_responses := bc_responses b @ [bc_correlationID b]\<rparr>)"
proof -
  let ?rest = "be 2 (req_key body) @ be 2 (req_version body) @ be 4 (bc_correlationID b) @ string_of (ClientID c) @ bs"
  have w: "writes (request_encode (bc_correlationID b) (ClientID c) body) (be 4 (int (length ?rest)) @ ?rest)"
    using request_writes [OF assms(3,4)] by (simp add: Let_def)
  have "\<not> length (be 4 (int (length ?rest)) @ ?rest) > MaxRequestSize"
    using assms(5) by (simp add: string_of_def MaxRequestSize_def)
  then show ?thesis using encode_bytes [OF w w refl] assms(1,2) by (auto simp: Broker_send_def Let_def)
qed

lemma Open_new: "snd (Validate c) = None \<Longrightarrow>
  Broker_Open def (Some c) None new_conn = (None, new_conn\<lparr>bc_opened := True, bc_conn := True, bc_conf := Some c\<rparr>)"
  by (simp add: Broker_Open_def new_conn_def)

text \<open>A connection with one pending request and its response.\<close>

lemma example_connection:
  fixes c :: "'p Config"
  assumes "snd (Validate c) = None" and "ClientID c = []"
  obtains b :: "'p BrokerConn" where "broker_reach b" "bc_conn b" "bc_responses b = [0]" "bc_in b = response_frame 0 body"
proof -
  let ?b0 = "new_conn\<lparr>bc_opened := True, bc_conn := True, bc_conf := Some c\<rparr>"
  let ?req = "MetadataRequest_body []"
  have "broker_step new_conn ?b0" using step_Open [OF Open_new [OF assms(1)]] .
  with reach_new have r0: "broker_reach ?b0" by (rule reach_step)
  have "writes (req_encode ?req) (be 4 0)"
    using writes_array [of "[]" "\<lambda>t. [PutString t]" string_of] by (simp add: MetadataRequest_body_def MetadataRequest_encode_def array_bytes_def)
  then obtain packet where "Broker_send Wrote ?req ?req True ?b0 = Returns (Inr (Some (bc_correlationID ?b0)),
      ?b0\<lparr>bc_out := bc_out ?b0 @ packet, bc_correlationID := wrap32 (bc_correlationID ?b0 + 1),
        bc_responses := bc_responses ?b0 @ [bc_correlationID ?b0]\<rparr>)" (is "_ = Returns (_, ?b1)")
    using send_ok [of ?b0 c ?req "be 4 0"] assms(2) by (auto simp: MaxRequestSize_def)
  then have "broker_step ?b0 ?b1"
    by (rule step_send) (use Validate_open_requests [OF assms(1)] in \<open>simp add: new_conn_def\<close>)
  with r0 have r1: "broker_reach ?b1" by (rule reach_step)
  show thesis by (rule that [OF reach_step [OF r1 step_arrive [of _ "response_frame 0 body"]]]) (simp_all add: new_conn_def)
qed


text \<open>
  One lost or unexpected response spoils the connection. When the next response in the stream
  answers another request, the waiting request gets an error, but the body of that response stays
  in the stream: the next request reads its header from there.
\<close>

theorem mismatch_misaligns:
  assumes "fits 32 got" and "got \<noteq> cid" and "frame_ok body"
  shows "receive_all (cid # cids) (response_frame got body @ rest) =
    (let (answers, rest') = receive_all cids (body @ rest)
     in (Returns (Inl (KafkaError (PacketDecodingError (''CorrelationID didn't match, wanted '' @ FormatInt cid @
           '', got '' @ FormatInt got)))) # answers, rest'))"
  using assms by (simp add: receive_one_frame)

lemma mismatch_misaligns_witness:
  "receive_all [5, 6] (response_frame 4 ''abcdefgh'' @ response_frame 5 ''x'') =
    (let (answers, rest') = receive_all [6] (''abcdefgh'' @ response_frame 5 ''x'')
     in (Returns (Inl (KafkaError (PacketDecodingError (''CorrelationID didn't match, wanted '' @ FormatInt 5 @
           '', got '' @ FormatInt 4)))) # answers, rest'))"
  by (rule mismatch_misaligns) (simp_all add: fits_def frame_ok_def MaxResponseSize_def)

text \<open>
  A metadata request on an open connection. When the broker answers with the bytes of a metadata
  response, \<open>GetMetadata\<close> returns exactly that response, and the connection is the one before with
  the request written, the next correlation id and the promise queued.
\<close>

theorem GetMetadata_exchange:
  assumes "bc_conn b" and "bc_conf b = Some c" and "length (ClientID c) \<le> MaxInt16"
    and "writes (MetadataRequest_encode topics) bs" and "length bs + length (ClientID c) < MaxRequestSize - 20"
    and "MetadataResponse_ok m"
  shows "\<exists>packet. Broker_GetMetadata Wrote topics (Inr (MetadataResponse_bytes m)) b = Returns (Inr (Some m),
    b\<lparr>bc_out := bc_out b @ packet, bc_correlationID := wrap32 (bc_correlationID b + 1), bc_responses := bc_responses b @ [bc_correlationID b]\<rparr>)"
proof -
  have "writes (req_encode (MetadataRequest_body topics)) bs" using assms(4) by (simp add: MetadataRequest_body_def)
  from send_ok [OF assms(1,2) this assms(3,5)] metadata.decode_ok [OF assms(6)]
  show ?thesis by (auto simp: Broker_GetMetadata_def sendAndReceive_def)
qed

definition example_topic :: MetadataResponse where
  "example_topic = \<lparr>mr_Brokers = [], mr_Topics = [\<lparr>tm_Err = 0, tm_Name = ''user-status'',
     tm_Partitions = [\<lparr>pm_Err = 0, pm_ID = 0, pm_Leader = 1, pm_Replicas = [1, 2], pm_Isr = [1]\<rparr>]\<rparr>]\<rparr>"

lemma GetMetadata_exchange_witness:
  "let b = new_conn\<lparr>bc_opened := True, bc_conn := True, bc_conf := Some (NewConfig ())\<rparr> in
   \<exists>packet. Broker_GetMetadata Wrote [] (Inr (MetadataResponse_bytes example_topic)) b = Returns (Inr (Some example_topic),
    b\<lparr>bc_out := bc_out b @ packet, bc_correlationID := wrap32 (bc_correlationID b + 1), bc_responses := bc_responses b @ [bc_correlationID b]\<rparr>)"
proof -
  have "MetadataResponse_ok example_topic"
    by (simp add: example_topic_def MetadataResponse_ok_def array_ok_def MaxArray_def TopicMetadata_ok_def fits_def
        MaxInt16_def PartitionMetadata_ok_def ints_ok_def MaxInt32_def)
  moreover have "writes (MetadataRequest_encode []) (be 4 0)"
    using writes_array [of "[]" "\<lambda>t. [PutString t]" string_of] by (simp add: MetadataRequest_encode_def array_bytes_def)
  ultimately show ?thesis unfolding Let_def
    by (intro GetMetadata_exchange [where c = "NewConfig ()" and bs = "be 4 0"]) (simp_all add: NewConfig_def MaxRequestSize_def)
qed

end
