(* ===== verification/Sarama_Producer.thy ===== *)
theory Sarama_Producer
  imports Sarama_Broker
begin

text \<open>
  The end of the producer's pipeline (\<open>async_producer.go\<close>): \<open>buildRequest\<close>, the \<open>flusher\<close> that
  sends batches to one broker and reads the responses, and the functions that return messages to
  the caller or hand them to the retry handler.

  What a goroutine sends on the producer's channels is a list of events. Go iterates over maps in
  any order: the functions that do take the order as an argument \<open>ord\<close>.
\<close>

section \<open>Errors and events\<close>

text \<open>The errors of the producer and of its client.\<close>

datatype producer_error =
    ProduceKError int
  | ErrShuttingDown
  | ErrIncompleteResponse
  | ErrInvalidPartition
  | ErrBreakerOpen
  | ErrClosedClient
  | ErrOutOfBrokers
  | BrokerError broker_error
  | OtherError string

text \<open>
  A \<open>ProducerError\<close> on the channel \<open>errors\<close> or in the log, a message on \<open>successes\<close>, a message on
  \<open>retries\<close>.
\<close>

datatype event =
    Errored ProducerMessage "producer_error option"
  | LoggedError ProducerMessage "producer_error option"
  | Succeeded ProducerMessage
  | Retried ProducerMessage

fun event_msg :: "event \<Rightarrow> ProducerMessage" where
  "event_msg (Errored m _) = m"
| "event_msg (LoggedError m _) = m"
| "event_msg (Succeeded m) = m"
| "event_msg (Retried m) = m"

definition returnError :: "'p Config \<Rightarrow> ProducerMessage \<Rightarrow> producer_error option \<Rightarrow> event" where
  "returnError conf m err =
     (let m = m\<lparr>msg_flags := Data, msg_retries := 0\<rparr>
      in if Producer_Return_Errors conf then Errored m err else LoggedError m err)"

text \<open>A batch may hold nil messages, which are skipped.\<close>

definition somes :: "'a option list \<Rightarrow> 'a list" where
  "somes xs = List.map_filter id xs"

definition returnErrors :: "'p Config \<Rightarrow> ProducerMessage option list \<Rightarrow> producer_error option \<Rightarrow> event list" where
  "returnErrors conf batch err = map (\<lambda>m. returnError conf m err) (somes batch)"

definition returnSuccesses :: "ProducerMessage option list \<Rightarrow> event list" where
  "returnSuccesses batch = map (\<lambda>m. Succeeded (m\<lparr>msg_flags := Data\<rparr>)) (somes batch)"

definition retryMessage :: "'p Config \<Rightarrow> producer_error option \<Rightarrow> ProducerMessage \<Rightarrow> event" where
  "retryMessage conf err m =
     (if msg_retries m \<ge> Producer_Retry_Max conf then returnError conf m err
      else Retried (m\<lparr>msg_retries := msg_retries m + 1\<rparr>))"

definition retryMessages :: "'p Config \<Rightarrow> ProducerMessage option list \<Rightarrow> producer_error option \<Rightarrow> event list" where
  "retryMessages conf batch err = map (retryMessage conf err) (somes batch)"

section \<open>buildRequest\<close>

type_synonym msg_sets = "ProducerMessage list topics"

definition entries :: "'a topics \<Rightarrow> (string \<times> int \<times> 'a) list" where
  "entries m = concat (map (\<lambda>(topic, ps). map (\<lambda>(part, x). (topic, part, x)) ps) m)"

text \<open>\<open>Encode\<close> of a key or a value that may be nil.\<close>

definition encode_opt :: "Encoder option \<Rightarrow> string + string option" where
  "encode_opt e = (case e of None \<Rightarrow> Inr None | Some k \<Rightarrow> map_sum id Some (enc_Encode k))"

definition encodes :: "ProducerMessage \<Rightarrow> bool" where
  "encodes m \<longleftrightarrow> \<not> isl (encode_opt (msg_Key m)) \<and> \<not> isl (encode_opt (msg_Value m))"

text \<open>\<open>buildRequest\<close> resets a message that it returns to the caller, but leaves it in its batch.\<close>

definition after_build :: "ProducerMessage \<Rightarrow> ProducerMessage" where
  "after_build m = (if encodes m then m else m\<lparr>msg_flags := Data, msg_retries := 0\<rparr>)"

definition map_sets :: "('a \<Rightarrow> 'b) \<Rightarrow> 'a topics \<Rightarrow> 'b topics" where
  "map_sets f = map (map_prod id (map (map_prod id f)))"

record building =
  bd_req :: ProduceRequest
  bd_set :: MessageSet
  bd_size :: int
  bd_empty :: bool
  bd_events :: "event list"

text \<open>The compressed set so far becomes one message of the request. An encoding error panics.\<close>

definition wrap_set :: "codecs \<Rightarrow> 'p Config \<Rightarrow> string \<Rightarrow> int \<Rightarrow> building \<Rightarrow> building outcome" where
  "wrap_set cs conf topic part s =
     bind_outcome (encode (MessageSet_encode cs (bd_set s)) (MessageSet_encode cs (bd_set s))) (\<lambda>r.
       case r of
         Inl e \<Rightarrow> Panics ''buildRequest: encode failed''
       | Inr valBytes \<Rightarrow>
           Returns (s\<lparr>bd_req := ProduceRequest_AddMessage topic part
             (Message (Producer_Compression conf) None (Some valBytes) None None) (bd_req s)\<rparr>))"

definition build_message :: "codecs \<Rightarrow> 'p Config \<Rightarrow> string \<Rightarrow> int \<Rightarrow> ProducerMessage \<Rightarrow> building \<Rightarrow> building outcome" where
  "build_message cs conf topic part m s =
     (case encode_opt (msg_Key m) of
        Inl e \<Rightarrow> Returns (s\<lparr>bd_events := bd_events s @ [returnError conf m (Some (OtherError e))]\<rparr>)
      | Inr keyBytes \<Rightarrow>
          (case encode_opt (msg_Value m) of
             Inl e \<Rightarrow> Returns (s\<lparr>bd_events := bd_events s @ [returnError conf m (Some (OtherError e))]\<rparr>)
           | Inr valBytes \<Rightarrow>
               bind_outcome
                 (if Producer_Compression conf \<noteq> CompressionNone \<and> bd_size s + byteSize m > Producer_MaxMessageBytes conf
                  then bind_outcome (wrap_set cs conf topic part s) (\<lambda>s. Returns (s\<lparr>bd_set := MessageSet False [], bd_size := 0\<rparr>))
                  else Returns s) (\<lambda>s.
               Returns (s\<lparr>bd_size := bd_size s + byteSize m,
                 bd_set := addMessage (Message CompressionNone keyBytes valBytes None None) (bd_set s), bd_empty := False\<rparr>))))"

fun build_messages :: "codecs \<Rightarrow> 'p Config \<Rightarrow> string \<Rightarrow> int \<Rightarrow> ProducerMessage list \<Rightarrow> building \<Rightarrow> building outcome" where
  "build_messages cs conf topic part [] s = Returns s"
| "build_messages cs conf topic part (m # ms) s =
     bind_outcome (build_message cs conf topic part m s) (build_messages cs conf topic part ms)"

definition build_partition :: "codecs \<Rightarrow> 'p Config \<Rightarrow> string \<times> int \<times> ProducerMessage list \<Rightarrow> building \<Rightarrow> building outcome" where
  "build_partition cs conf e s =
     (case e of (topic, part, msgSet) \<Rightarrow>
        bind_outcome (build_messages cs conf topic part msgSet (s\<lparr>bd_set := MessageSet False [], bd_size := 0\<rparr>)) (\<lambda>s.
        if Producer_Compression conf = CompressionNone
        then Returns (s\<lparr>bd_req := ProduceRequest_AddSet topic part (bd_set s) (bd_req s)\<rparr>)
        else wrap_set cs conf topic part s))"

fun build_partitions :: "codecs \<Rightarrow> 'p Config \<Rightarrow> (string \<times> int \<times> ProducerMessage list) list \<Rightarrow> building \<Rightarrow> building outcome" where
  "build_partitions cs conf [] s = Returns s"
| "build_partitions cs conf (e # es) s = bind_outcome (build_partition cs conf e s) (build_partitions cs conf es)"

definition go_quot :: "int \<Rightarrow> int \<Rightarrow> int" where
  "go_quot a b = sgn a * (\<bar>a\<bar> div b)"

definition buildRequest :: "codecs \<Rightarrow> 'p Config \<Rightarrow> msg_sets \<Rightarrow> (ProduceRequest option \<times> event list) outcome" where
  "buildRequest cs conf batch =
     bind_outcome (build_partitions cs conf (entries batch)
       \<lparr>bd_req = \<lparr>pr_RequiredAcks = Producer_RequiredAcks conf,
          pr_Timeout = wrap32 (go_quot (Producer_Timeout conf) Millisecond), pr_msgSets = []\<rparr>,
        bd_set = MessageSet False [], bd_size = 0, bd_empty = True, bd_events = []\<rparr>) (\<lambda>s.
     Returns (if bd_empty s then None else Some (bd_req s), bd_events s))"

section \<open>flusher\<close>

record flusher =
  fl_closing :: "producer_error option"
  fl_currentRetries :: "string \<times> int \<Rightarrow> producer_error option"

definition new_flusher :: flusher where
  "new_flusher = \<lparr>fl_closing = None, fl_currentRetries = (\<lambda>_. None)\<rparr>"

text \<open>
  The grouping of a batch: messages of partitions that are being retried go back at once, and the
  chaser ends that. The messages that are left, with their places, and the sets by partition.
\<close>

definition add_to_set :: "ProducerMessage \<Rightarrow> msg_sets \<Rightarrow> msg_sets" where
  "add_to_set m sets =
     set_block (msg_Topic m) (msg_Partition m)
       ((case get_block sets (msg_Topic m) (msg_Partition m) of None \<Rightarrow> [] | Some ms \<Rightarrow> ms) @ [m]) sets"

record grouping =
  gr_retries :: "string \<times> int \<Rightarrow> producer_error option"
  gr_batch :: "ProducerMessage option list"
  gr_sets :: msg_sets
  gr_events :: "event list"

definition group_message :: "'p Config \<Rightarrow> ProducerMessage \<Rightarrow> grouping \<Rightarrow> grouping" where
  "group_message conf m g =
     (let tp = (msg_Topic m, msg_Partition m) in
      if gr_retries g tp \<noteq> None then
        let retries = (if msg_flags m = Chaser then (gr_retries g)(tp := None) else gr_retries g) in
        g\<lparr>gr_retries := retries, gr_events := gr_events g @ retryMessages conf [Some m] (retries tp), gr_batch := gr_batch g @ [None]\<rparr>
      else g\<lparr>gr_batch := gr_batch g @ [Some m], gr_sets := add_to_set m (gr_sets g)\<rparr>)"

definition group_batch :: "'p Config \<Rightarrow> flusher \<Rightarrow> ProducerMessage list \<Rightarrow> grouping" where
  "group_batch conf fl batch =
     fold (group_message conf) batch \<lparr>gr_retries = fl_currentRetries fl, gr_batch = [], gr_sets = [], gr_events = []\<rparr>"

definition retriable :: "int \<Rightarrow> bool" where
  "retriable err \<longleftrightarrow> err \<in> {ErrUnknownTopicOrPartition, ErrNotLeaderForPartition, ErrLeaderNotAvailable,
     ErrRequestTimedOut, ErrNotEnoughReplicas, ErrNotEnoughReplicasAfterAppend}"

definition with_offsets :: "int \<Rightarrow> ProducerMessage list \<Rightarrow> ProducerMessage list" where
  "with_offsets off ms = map (\<lambda>(i, m). m\<lparr>msg_Offset := wrap64 (off + int i)\<rparr>) (List.enumerate 0 ms)"

text \<open>What the response says about the messages of one partition.\<close>

definition answer_partition :: "'p Config \<Rightarrow> ProduceResponse \<Rightarrow> string \<times> int \<times> ProducerMessage list
    \<Rightarrow> event list \<times> (string \<times> int \<Rightarrow> producer_error option) \<Rightarrow> event list \<times> (string \<times> int \<Rightarrow> producer_error option)" where
  "answer_partition conf response e acc =
     (case (e, acc) of ((topic, part, msgs), (events, retries)) \<Rightarrow>
        case ProduceResponse_GetBlock response topic part of
          None \<Rightarrow> (events @ returnErrors conf (map Some msgs) (Some ErrIncompleteResponse), retries)
        | Some block \<Rightarrow>
            if prb_Err block = ErrNoError then
              (if Producer_Return_Successes conf
               then (events @ returnSuccesses (map Some (with_offsets (prb_Offset block) msgs)), retries)
               else (events, retries))
            else if retriable (prb_Err block) then
              (events @ retryMessages conf (map Some msgs) (Some (ProduceKError (prb_Err block))),
               retries((topic, part) := Some (ProduceKError (prb_Err block))))
            else (events @ returnErrors conf (map Some msgs) (Some (ProduceKError (prb_Err block))), retries))"

text \<open>
  One batch. \<open>Produce\<close> of the broker is an argument; the last component tells whether the broker
  connection was abandoned and closed.
\<close>

definition flusher_batch :: "codecs \<Rightarrow> 'p Config \<Rightarrow> (msg_sets \<Rightarrow> msg_sets) \<Rightarrow> (msg_sets \<Rightarrow> msg_sets)
    \<Rightarrow> (ProduceRequest \<Rightarrow> broker_error + ProduceResponse option) \<Rightarrow> flusher \<Rightarrow> ProducerMessage list
    \<Rightarrow> (event list \<times> flusher \<times> bool) outcome" where
  "flusher_batch cs conf ord1 ord2 produce fl batch =
     (case fl_closing fl of
        Some err \<Rightarrow> Returns (retryMessages conf (map Some batch) (Some err), fl, False)
      | None \<Rightarrow>
          let g = group_batch conf fl batch; fl1 = fl\<lparr>fl_currentRetries := gr_retries g\<rparr> in
          bind_outcome (buildRequest cs conf (ord1 (gr_sets g))) (\<lambda>(request, events1).
          let events = gr_events g @ events1; left = map (map_option after_build) (gr_batch g);
            sets = map_sets (map after_build) (gr_sets g) in
          case request of
            None \<Rightarrow> Returns (events, fl1, False)
          | Some req \<Rightarrow>
              (case produce req of
                 Inl (KafkaError (PacketEncodingError e)) \<Rightarrow>
                   Returns (events @ returnErrors conf left (Some (BrokerError (KafkaError (PacketEncodingError e)))), fl1, False)
               | Inl err \<Rightarrow>
                   Returns (events @ retryMessages conf left (Some (BrokerError err)), fl1\<lparr>fl_closing := Some (BrokerError err)\<rparr>, True)
               | Inr None \<Rightarrow>
                   Returns (events @ (if Producer_Return_Successes conf then returnSuccesses left else []), fl1, False)
               | Inr (Some response) \<Rightarrow>
                   (case fold (answer_partition conf response) (entries (ord2 sets)) (events, gr_retries g) of
                      (events2, retries) \<Rightarrow> Returns (events2, fl1\<lparr>fl_currentRetries := retries\<rparr>, False)))))"

fun flusher_run :: "codecs \<Rightarrow> 'p Config \<Rightarrow> (msg_sets \<Rightarrow> msg_sets) \<Rightarrow> (msg_sets \<Rightarrow> msg_sets)
    \<Rightarrow> (nat \<Rightarrow> ProduceRequest \<Rightarrow> broker_error + ProduceResponse option) \<Rightarrow> nat \<Rightarrow> flusher \<Rightarrow> ProducerMessage list list
    \<Rightarrow> (event list \<times> flusher) outcome" where
  "flusher_run cs conf ord1 ord2 produce n fl [] = Returns ([], fl)"
| "flusher_run cs conf ord1 ord2 produce n fl (batch # batches) =
     bind_outcome (flusher_batch cs conf ord1 ord2 (produce n) fl batch) (\<lambda>(es, fl1, _).
     bind_outcome (flusher_run cs conf ord1 ord2 produce (Suc n) fl1 batches) (\<lambda>(es', fl2).
     Returns (es @ es', fl2)))"

section \<open>Every message is answered once\<close>

text \<open>A message without what the producer changes on its way, and the messages a list of events answers.\<close>

definition core :: "ProducerMessage \<Rightarrow> ProducerMessage" where
  "core m = m\<lparr>msg_flags := Data, msg_retries := 0, msg_Offset := 0\<rparr>"

definition answered :: "event list \<Rightarrow> ProducerMessage multiset" where
  "answered es = image_mset (core \<circ> event_msg) (mset es)"

definition iterates :: "('a topics \<Rightarrow> 'a topics) \<Rightarrow> bool" where
  "iterates ord \<longleftrightarrow> (\<forall>m. mset (entries (ord m)) = mset (entries m))"

definition set_msgs :: "'a list topics \<Rightarrow> 'a multiset" where
  "set_msgs m = mset (concat (map (snd \<circ> snd) (entries m)))"

lemma core_returnError [simp]: "core (event_msg (returnError conf m err)) = core m"
  by (simp add: returnError_def core_def Let_def)

lemma core_retryMessage [simp]: "core (event_msg (retryMessage conf err m)) = core m"
  by (simp add: retryMessage_def) (simp add: core_def)

lemma core_updates [simp]: "core (m\<lparr>msg_Offset := off\<rparr>) = core m" "core (m\<lparr>msg_flags := f\<rparr>) = core m"
  by (simp_all add: core_def)

lemma core_Offset_flags [simp]: "core (m\<lparr>msg_flags := f, msg_Offset := off\<rparr>) = core m"
  by (simp add: core_def)

lemma answered_append [simp]: "answered (es @ es') = answered es + answered es'"
  by (simp add: answered_def)

lemma answered_Nil [simp]: "answered [] = {#}"
  by (simp add: answered_def)

lemma somes_simps [simp]:
  "somes [] = []" "somes (None # xs) = somes xs" "somes (Some x # xs) = x # somes xs" "somes (xs @ ys) = somes xs @ somes ys"
  "somes (map Some ms) = ms"
  by (simp_all add: somes_def List.map_filter_def o_def)

lemma set_msgs_Nil [simp]: "set_msgs [] = {#}"
  by (simp add: set_msgs_def entries_def)

lemma answered_returns [simp]:
  "answered (returnErrors conf batch err) = image_mset core (mset (somes batch))"
  "answered (returnSuccesses batch) = image_mset core (mset (somes batch))"
  "answered (retryMessages conf batch err) = image_mset core (mset (somes batch))"
  by (simp_all add: answered_def returnErrors_def returnSuccesses_def retryMessages_def multiset.map_comp o_def flip: mset_map)

lemma core_with_offsets [simp]: "image_mset core (mset (with_offsets off ms)) = image_mset core (mset ms)"
proof -
  have "map core (with_offsets off ms) = map core (map snd (List.enumerate 0 ms))"
    by (simp only: with_offsets_def case_prod_unfold map_map o_def core_updates)
  then show ?thesis by (metis map_snd_enumerate mset_map)
qed

lemma encodes_build [simp]: "encodes m \<Longrightarrow> after_build m = m"
  by (simp add: after_build_def)

subsection \<open>Grouping\<close>

lemma mset_alist_update:
  "mset (AList.update k v al) + (case map_of al k of None \<Rightarrow> {#} | Some v0 \<Rightarrow> {#(k, v0)#}) = add_mset (k, v) (mset al)"
  by (induction al) auto

lemma set_msgs_entries: "set_msgs m = (\<Sum>(topic, ps)\<in>#mset m. \<Sum>(part, ms)\<in>#mset ps. mset ms)"
proof (induction m)
  case (Cons a m)
  have "mset (concat (map (snd \<circ> snd) (map (\<lambda>(part, x). (fst a, part, x)) ps))) = (\<Sum>(part, ms)\<in>#mset ps. mset ms)" for ps
    by (induction ps) auto
  with Cons show ?case by (simp add: set_msgs_def entries_def case_prod_unfold)
qed (simp add: set_msgs_def entries_def)

lemma set_msgs_add: "set_msgs (add_to_set m sets) = add_mset m (set_msgs sets)"
proof -
  let ?t = "msg_Topic m" and ?p = "msg_Partition m"
  let ?ps = "partitions sets ?t"
  let ?ms = "case get_block sets ?t ?p of None \<Rightarrow> [] | Some ms \<Rightarrow> ms"
  let ?sum = "\<lambda>ps. \<Sum>(part, ms)\<in>#mset ps. mset ms"
  let ?ps' = "AList.update ?p (?ms @ [m]) ?ps"
  have ms: "?ms = (case map_of ?ps ?p of None \<Rightarrow> [] | Some ms \<Rightarrow> ms)"
    by (simp add: get_block_def partitions_def split: option.split)
  have "?sum ?ps' + mset ?ms = add_mset m (mset ?ms) + ?sum ?ps"
    using arg_cong [OF mset_alist_update [of ?p "?ms @ [m]" ?ps], of "\<lambda>M. \<Sum>(part, ms)\<in>#M. mset ms"]
    by (simp add: ms split: option.splits)
  then have inner: "?sum ?ps' = add_mset m (?sum ?ps)" by simp
  have "set_msgs (add_to_set m sets) + ?sum ?ps = ?sum ?ps' + set_msgs sets"
    using arg_cong [OF mset_alist_update [of ?t ?ps' sets], of "\<lambda>M. \<Sum>(topic, ps)\<in>#M. ?sum ps"]
    by (simp add: set_msgs_entries add_to_set_def set_block_def partitions_def split: option.splits)
  with inner show ?thesis by simp
qed

lemma group_fold:
  "let g' = fold (group_message conf) batch g in
   answered (gr_events g') + image_mset core (mset (somes (gr_batch g'))) =
     answered (gr_events g) + image_mset core (mset (somes (gr_batch g))) + image_mset core (mset batch) \<and>
   (set_msgs (gr_sets g) = mset (somes (gr_batch g)) \<longrightarrow>
    set_msgs (gr_sets g') = mset (somes (gr_batch g'))) \<and>
   set_mset (set_msgs (gr_sets g')) \<subseteq> set_mset (set_msgs (gr_sets g)) \<union> set batch"
proof (induction batch arbitrary: g)
  case (Cons m batch)
  let ?g = "group_message conf m g"
  have "answered (gr_events ?g) + image_mset core (mset (somes (gr_batch ?g))) =
      add_mset (core m) (answered (gr_events g) + image_mset core (mset (somes (gr_batch g))))"
    by (auto simp: group_message_def Let_def)
  moreover have "set_msgs (gr_sets g) = mset (somes (gr_batch g)) \<Longrightarrow>
      set_msgs (gr_sets ?g) = mset (somes (gr_batch ?g))"
    by (auto simp: group_message_def Let_def set_msgs_add)
  moreover have "set_mset (set_msgs (gr_sets ?g)) \<subseteq> insert m (set_mset (set_msgs (gr_sets g)))"
    by (auto simp: group_message_def Let_def set_msgs_add)
  ultimately show ?case using Cons [of ?g] by (auto simp: Let_def)
qed simp

lemma group_batch_msgs:
  assumes "g = group_batch conf fl batch"
  shows "answered (gr_events g) + image_mset core (mset (somes (gr_batch g))) = image_mset core (mset batch)"
    and "set_msgs (gr_sets g) = mset (somes (gr_batch g))"
    and "set_mset (set_msgs (gr_sets g)) \<subseteq> set batch"
proof -
  have "answered (gr_events g) + image_mset core (mset (somes (gr_batch g))) = image_mset core (mset batch) \<and>
      set_msgs (gr_sets g) = mset (somes (gr_batch g)) \<and> set_mset (set_msgs (gr_sets g)) \<subseteq> set batch"
    using group_fold [of conf batch "\<lparr>gr_retries = fl_currentRetries fl, gr_batch = [], gr_sets = [], gr_events = []\<rparr>"]
    by (auto simp: assms group_batch_def Let_def)
  then show "answered (gr_events g) + image_mset core (mset (somes (gr_batch g))) = image_mset core (mset batch)"
      "set_msgs (gr_sets g) = mset (somes (gr_batch g))" "set_mset (set_msgs (gr_sets g)) \<subseteq> set batch"
    by blast+
qed

subsection \<open>The request\<close>

lemma wrap_set_frame:
  "wrap_set cs conf topic part s = Returns s' \<Longrightarrow> bd_events s' = bd_events s \<and> bd_empty s' = bd_empty s"
  by (cases "encode (MessageSet_encode cs (bd_set s)) (MessageSet_encode cs (bd_set s))")
     (auto simp: wrap_set_def split: sum.splits)

lemma build_message_encodes:
  assumes "encodes m" and "build_message cs conf topic part m s = Returns s'"
  shows "bd_events s' = bd_events s \<and> \<not> bd_empty s'"
proof -
  obtain key val where "encode_opt (msg_Key m) = Inr key" "encode_opt (msg_Value m) = Inr val"
    using assms(1) unfolding encodes_def isl_def by (metis sum.exhaust)
  then show ?thesis using assms(2)
    by (auto simp: build_message_def bind_outcome_Returns dest: wrap_set_frame split: if_splits)
qed

lemma build_messages_encode:
  "\<forall>m \<in> set ms. encodes m \<Longrightarrow> build_messages cs conf topic part ms s = Returns s' \<Longrightarrow>
   bd_events s' = bd_events s \<and> (bd_empty s' \<longleftrightarrow> bd_empty s \<and> ms = [])"
proof (induction ms arbitrary: s)
  case (Cons m ms)
  then obtain s1 where s1: "build_message cs conf topic part m s = Returns s1" "build_messages cs conf topic part ms s1 = Returns s'"
    by (auto simp: bind_outcome_Returns)
  show ?case using Cons.IH [OF _ s1(2)] build_message_encodes [OF _ s1(1)] Cons.prems(1) by simp
qed simp

lemma build_partition_encode:
  assumes "\<forall>m \<in> set (snd (snd e)). encodes m" and "build_partition cs conf e s = Returns s'"
  shows "bd_events s' = bd_events s \<and> (bd_empty s' \<longleftrightarrow> bd_empty s \<and> snd (snd e) = [])"
proof -
  obtain topic part ms where e: "e = (topic, part, ms)" by (cases e)
  let ?s = "s\<lparr>bd_set := MessageSet False [], bd_size := 0\<rparr>"
  obtain s1 where s1: "build_messages cs conf topic part ms ?s = Returns s1"
      "bd_events s' = bd_events s1 \<and> bd_empty s' = bd_empty s1"
    using assms(2) unfolding e by (auto simp: build_partition_def bind_outcome_Returns dest: wrap_set_frame split: if_splits)
  show ?thesis using build_messages_encode [OF _ s1(1)] assms(1) s1(2) by (simp add: e)
qed

lemma build_partitions_encode:
  "\<forall>e \<in> set es. \<forall>m \<in> set (snd (snd e)). encodes m \<Longrightarrow> build_partitions cs conf es s = Returns s' \<Longrightarrow>
   bd_events s' = bd_events s \<and> (bd_empty s' \<longleftrightarrow> bd_empty s \<and> concat (map (snd \<circ> snd) es) = [])"
proof (induction es arbitrary: s)
  case (Cons e es)
  then obtain s1 where s1: "build_partition cs conf e s = Returns s1" "build_partitions cs conf es s1 = Returns s'"
    by (auto simp: bind_outcome_Returns)
  show ?case using Cons.IH [OF _ s1(2)] build_partition_encode [OF _ s1(1)] Cons.prems(1) by auto
qed simp

lemma buildRequest_encodes:
  assumes "\<forall>m \<in># set_msgs sets. encodes m" and "buildRequest cs conf sets = Returns (request, events)"
  shows "events = [] \<and> (request = None \<longleftrightarrow> set_msgs sets = {#})"
proof -
  have "\<forall>e \<in> set (entries sets). \<forall>m \<in> set (snd (snd e)). encodes m"
    using assms(1) by (simp add: set_msgs_def)
  from build_partitions_encode [OF this] show ?thesis
    using assms(2) by (fastforce simp: buildRequest_def bind_outcome_Returns set_msgs_def split: if_splits)
qed

text \<open>Without compression there is nothing that can panic.\<close>

lemma build_uncompressed:
  assumes "Producer_Compression conf = CompressionNone"
  shows "\<exists>r. buildRequest cs conf sets = Returns r"
proof -
  have m: "\<exists>s'. build_message cs conf topic part m s = Returns s'" for topic part m s
    by (simp add: build_message_def assms split: sum.split)
  have ms: "\<exists>s'. build_messages cs conf topic part ms s = Returns s'" for topic part ms s
  proof (induction ms arbitrary: s)
    case (Cons x ms)
    then show ?case using m [of topic part x s] by auto
  qed simp
  have p: "\<exists>s'. build_partition cs conf e s = Returns s'" for e s
  proof -
    obtain topic part xs where "e = (topic, part, xs)" by (cases e)
    then show ?thesis using ms [of topic part xs "s\<lparr>bd_set := MessageSet False [], bd_size := 0\<rparr>"]
      by (auto simp: build_partition_def assms)
  qed
  have "\<exists>s'. build_partitions cs conf es s = Returns s'" for es s
  proof (induction es arbitrary: s)
    case (Cons e es)
    then show ?case using p [of e s] by auto
  qed simp
  then obtain s' where "build_partitions cs conf (entries sets)
      \<lparr>bd_req = \<lparr>pr_RequiredAcks = Producer_RequiredAcks conf,
         pr_Timeout = wrap32 (go_quot (Producer_Timeout conf) Millisecond), pr_msgSets = []\<rparr>,
       bd_set = MessageSet False [], bd_size = 0, bd_empty = True, bd_events = []\<rparr> = Returns s'" by blast
  then show ?thesis by (simp add: buildRequest_def)
qed

subsection \<open>The answers\<close>

lemma answer_partition_answers:
  assumes "Producer_Return_Successes conf"
  shows "answered (fst (answer_partition conf response e acc)) = answered (fst acc) + image_mset core (mset (snd (snd e)))"
  using assms by (cases e; cases acc) (simp add: answer_partition_def Let_def split: option.split)

lemma answer_fold:
  assumes "Producer_Return_Successes conf"
  shows "answered (fst (fold (answer_partition conf response) es acc)) =
    answered (fst acc) + image_mset core (mset (concat (map (snd \<circ> snd) es)))"
  by (induction es arbitrary: acc) (simp_all add: answer_partition_answers [OF assms])

lemma set_msgs_ord: "iterates ord \<Longrightarrow> set_msgs (ord sets) = set_msgs sets"
  by (simp add: set_msgs_def iterates_def mset_concat flip: sum_mset_sum_list)

lemma map_sets_id:
  assumes "\<forall>m \<in># set_msgs sets. f m = m"
  shows "map_sets (map f) sets = sets"
proof -
  have "map_prod id (map f) p = p" if "(topic, ps) \<in> set sets" "p \<in> set ps" for topic ps p
  proof -
    have "(topic, fst p, snd p) \<in> set (entries sets)" using that by (force simp: entries_def)
    then have "set (snd p) \<subseteq> set_mset (set_msgs sets)" by (force simp: set_msgs_def)
    with assms show ?thesis by (cases p) (simp add: map_idI subset_iff)
  qed
  then show ?thesis unfolding map_sets_def by (intro map_idI) (force intro!: map_idI)
qed

lemma flusher_batch_answers:
  assumes "Producer_Return_Successes conf" and "iterates ord1" and "iterates ord2" and "\<forall>m \<in> set batch. encodes m"
    and "flusher_batch cs conf ord1 ord2 produce fl batch = Returns (es, fl', abandoned)"
  shows "answered es = image_mset core (mset batch)"
proof (cases "fl_closing fl")
  case None
  define g where "g = group_batch conf fl batch"
  note msgs = group_batch_msgs [OF g_def]
  have enc: "\<forall>m \<in># set_msgs (gr_sets g). encodes m" using msgs(3) assms(4) by blast
  have left: "map (map_option after_build) (gr_batch g) = gr_batch g"
  proof (rule map_idI)
    fix x assume "x \<in> set (gr_batch g)"
    then have "case x of None \<Rightarrow> True | Some m \<Rightarrow> m \<in># set_msgs (gr_sets g)"
      using msgs(2) by (auto simp: somes_def List.map_filter_def image_iff split: option.split)
    with enc show "map_option after_build x = x" by (cases x) auto
  qed
  have sets: "map_sets (map after_build) (gr_sets g) = gr_sets g" using enc by (intro map_sets_id) simp
  obtain request events where req: "buildRequest cs conf (ord1 (gr_sets g)) = Returns (request, events)"
    using assms(5) None by (auto simp: flusher_batch_def Let_def bind_outcome_Returns g_def)
  have ev: "events = []" and none: "request = None \<longleftrightarrow> set_msgs (gr_sets g) = {#}"
    using buildRequest_encodes [OF _ req] enc by (simp_all add: set_msgs_ord [OF assms(2)])
  have all: "answered (gr_events g) + image_mset core (mset (somes (gr_batch g))) = image_mset core (mset batch)" by (rule msgs(1))
  have sum: "image_mset core (mset (concat (map (snd \<circ> snd) (entries (ord2 (gr_sets g)))))) = image_mset core (mset (somes (gr_batch g)))"
    using set_msgs_ord [OF assms(3), of "gr_sets g"] msgs(2) by (simp add: set_msgs_def)
  note run = assms(5) [unfolded flusher_batch_def None Let_def, simplified g_def [symmetric] req ev left sets, simplified]
  show ?thesis
  proof (cases request)
    case None
    then show ?thesis using run none all msgs(2) by simp
  next
    case (Some r)
    show ?thesis
    proof (cases "produce r")
      case (Inl err)
      then show ?thesis using run Some all by (auto split: broker_error.splits kafka_error.splits)
    next
      case (Inr resp)
      have "answered es = image_mset core (mset batch)" if "resp = Some response"
          "fold (answer_partition conf response) (entries (ord2 (gr_sets g))) (gr_events g, gr_retries g) = (es, retries)" for response retries
        using answer_fold [OF assms(1), of response "entries (ord2 (gr_sets g))" "(gr_events g, gr_retries g)"] that sum all by simp
      with Inr show ?thesis using run Some all assms(1) by (auto split: option.splits prod.splits)
    qed
  qed
qed (use assms in \<open>auto simp: flusher_batch_def\<close>)

lemma flusher_run_answers:
  assumes "Producer_Return_Successes conf" and "iterates ord1" and "iterates ord2"
  shows "\<forall>m \<in> set (concat batches). encodes m \<Longrightarrow> flusher_run cs conf ord1 ord2 produce n fl batches = Returns (es, fl') \<Longrightarrow>
    answered es = image_mset core (mset (concat batches))"
proof (induction batches arbitrary: n fl es)
  case (Cons batch batches)
  then obtain es1 fl1 ab es2 where "flusher_batch cs conf ord1 ord2 (produce n) fl batch = Returns (es1, fl1, ab)"
      "flusher_run cs conf ord1 ord2 produce (Suc n) fl1 batches = Returns (es2, fl')" "es = es1 @ es2"
    by (auto simp: bind_outcome_Returns)
  then show ?case using Cons.IH [of "Suc n" fl1 es2] flusher_batch_answers [OF assms, of batch cs "produce n" fl es1 fl1 ab] Cons.prems(1)
    by auto
qed simp

lemma flusher_batch_returns:
  assumes "Producer_Compression conf = CompressionNone"
  shows "\<exists>es fl' ab. flusher_batch cs conf ord1 ord2 produce fl batch = Returns (es, fl', ab)"
proof -
  obtain request events where "buildRequest cs conf (ord1 (gr_sets (group_batch conf fl batch))) = Returns (request, events)"
    using build_uncompressed [OF assms] by (metis surj_pair)
  then show ?thesis
    by (auto simp: flusher_batch_def Let_def split: option.split sum.split broker_error.split kafka_error.split prod.split)
qed

lemma flusher_run_returns:
  assumes "Producer_Compression conf = CompressionNone"
  shows "\<exists>es fl'. flusher_run cs conf ord1 ord2 produce n fl batches = Returns (es, fl')"
proof (induction batches arbitrary: n fl)
  case (Cons batch batches)
  obtain es fl1 ab where b: "flusher_batch cs conf ord1 ord2 (produce n) fl batch = Returns (es, fl1, ab)"
    using flusher_batch_returns [OF assms] by blast
  obtain es' fl2 where "flusher_run cs conf ord1 ord2 produce (Suc n) fl1 batches = Returns (es', fl2)" using Cons by blast
  with b show ?case by simp
qed simp


lemma iterates_id: "iterates id" and iterates_rev: "iterates rev"
  by (simp_all add: iterates_def entries_def mset_concat rev_map flip: sum_mset_sum_list)

definition example_config :: "unit Config" where
  "example_config = (NewConfig ())\<lparr>Producer_Return_Successes := True\<rparr>"

definition example_message :: "int \<Rightarrow> Encoder \<Rightarrow> ProducerMessage" where
  "example_message part v = \<lparr>msg_Topic = ''user-status'', msg_Key = None, msg_Value = Some v, msg_Offset = 0, msg_Partition = part,
     msg_Metadata = 0, msg_retries = 0, msg_flags = Data\<rparr>"


text \<open>
  C33: a message whose value cannot be encoded comes back twice. \<open>buildRequest\<close> returns it as an
  error but it stays in its batch; when the broker then accepts the others, it is also returned as
  a success, with the offset at which the broker stored the next message.
\<close>

theorem encode_failure_answered_twice:
  assumes "Producer_Return_Errors conf" and "Producer_Return_Successes conf" and "Producer_Compression conf = CompressionNone"
    and "msg_Value bad = Some v" and "enc_Encode v = Inl e" and "msg_Key bad = None"
    and "encodes good" and "msg_Topic good = msg_Topic bad" and "msg_Partition good = msg_Partition bad"
    and "\<And>req. produce req = Inr (Some [(msg_Topic bad, [(msg_Partition bad, \<lparr>prb_Err = ErrNoError, prb_Offset = off\<rparr>)])])"
  shows "\<exists>fl'. flusher_batch cs conf id id produce new_flusher [bad, good] = Returns (
    [Errored (bad\<lparr>msg_flags := Data, msg_retries := 0\<rparr>) (Some (OtherError e)),
     Succeeded (bad\<lparr>msg_flags := Data, msg_retries := 0, msg_Offset := wrap64 off\<rparr>),
     Succeeded (good\<lparr>msg_flags := Data, msg_Offset := wrap64 (off + 1)\<rparr>)], fl', False)"
proof -
  obtain key val where good: "encode_opt (msg_Key good) = Inr key" "encode_opt (msg_Value good) = Inr val"
    using assms(7) unfolding encodes_def isl_def by (metis sum.exhaust)
  have "encode_opt (msg_Key bad) = Inr None" "encode_opt (msg_Value bad) = Inl e" and "\<not> encodes bad"
    using assms(4-6) by (simp_all add: encode_opt_def encodes_def)
  then show ?thesis using good assms(1-3,7-10)
    by (simp add: flusher_batch_def new_flusher_def group_batch_def group_message_def add_to_set_def set_block_def get_block_def
        partitions_def buildRequest_def entries_def build_partition_def build_message_def map_sets_def after_build_def returnError_def
        ProduceResponse_GetBlock_def answer_partition_def returnSuccesses_def with_offsets_def Let_def)
qed

lemma encode_failure_answered_twice_witness:
  "let bad = example_message 0 \<lparr>enc_Encode = Inl ''marshal'', enc_Length = 1\<rparr>; good = example_message 0 (StringEncoder ''b'') in
   \<exists>fl'. flusher_batch stored example_config id id
     (\<lambda>req. Inr (Some [(''user-status'', [(0, \<lparr>prb_Err = ErrNoError, prb_Offset = 17\<rparr>)])])) new_flusher [bad, good] = Returns (
    [Errored bad (Some (OtherError ''marshal'')), Succeeded (bad\<lparr>msg_Offset := 17\<rparr>), Succeeded (good\<lparr>msg_Offset := 18\<rparr>)], fl', False)"
  using encode_failure_answered_twice [of example_config "example_message 0 \<lparr>enc_Encode = Inl ''marshal'', enc_Length = 1\<rparr>"
      "\<lparr>enc_Encode = Inl ''marshal'', enc_Length = 1\<rparr>" "''marshal''" "example_message 0 (StringEncoder ''b'')"
      "\<lambda>req. Inr (Some [(''user-status'', [(0, \<lparr>prb_Err = ErrNoError, prb_Offset = 17\<rparr>)])])" 17 stored]
  by (simp add: example_config_def NewConfig_def example_message_def StringEncoder_def encodes_def encode_opt_def Let_def wrap64_def)

end
