(* ===== verification/Sarama_Client.thy ===== *)
theory Sarama_Client
  imports Sarama_Producer
begin

text \<open>
  The client (\<open>client.go\<close>): the brokers it knows, the cached metadata of the cluster and how they
  are refreshed.

  Brokers are stored under their own ids, so the map of brokers is the list of them. A nil map is
  \<open>None\<close>: \<open>Close\<close> sets the maps to nil. What the network does is the environment: \<open>ce_ask\<close> is the
  result of opening the broker with this address, if it is not open, and of \<open>GetMetadata\<close> on it,
  by the number of the call; \<open>ce_pick\<close> and \<open>ce_order\<close> are the order in which Go walks the maps.
  Operations run one after the other, as under the client's lock.
\<close>

section \<open>State\<close>

text \<open>A broker of the client: the seed broker, or one the metadata registered.\<close>

datatype any_broker = SeedBroker string | Registered Broker

record 'p Client =
  cl_conf :: "'p Config"
  cl_seedBrokerAddrs :: "string list"
  cl_seedBroker :: "string option"
  cl_deadBrokerAddrs :: "string list"
  cl_brokers :: "Broker list option"
  cl_metadata :: "PartitionMetadata topics option"
  cl_cachedPartitionsResults :: "(string \<times> int list \<times> int list) list"
  cl_closing :: "any_broker list"
  cl_calls :: nat

record client_env =
  ce_ask :: "nat \<Rightarrow> string \<Rightarrow> string list \<Rightarrow> broker_error + MetadataResponse"
  ce_pick :: "nat \<Rightarrow> nat"
  ce_order :: "string list \<Rightarrow> string list"

datatype partitionType = allPartitions | writablePartitions

definition OffsetNewest :: int where "OffsetNewest = -1"
definition OffsetOldest :: int where "OffsetOldest = -2"

definition client_Closed :: "'p Client \<Rightarrow> bool" where
  "client_Closed c \<longleftrightarrow> cl_brokers c = None"

definition broker_by_id :: "int \<Rightarrow> Broker list \<Rightarrow> Broker option" where
  "broker_by_id i bs = find (\<lambda>b. broker_id b = i) bs"

section \<open>Brokers\<close>

fun any_addr :: "any_broker \<Rightarrow> string" where
  "any_addr (SeedBroker addr) = addr"
| "any_addr (Registered b) = broker_addr b"

definition client_any :: "client_env \<Rightarrow> 'p Client \<Rightarrow> any_broker option" where
  "client_any env c =
     (case cl_seedBroker c of
        Some addr \<Rightarrow> Some (SeedBroker addr)
      | None \<Rightarrow>
          (case cl_brokers c of
             None \<Rightarrow> None
           | Some bs \<Rightarrow> if bs = [] then None else Some (Registered (bs ! (ce_pick env (cl_calls c) mod length bs)))))"

definition first_seed :: "string list \<Rightarrow> string option" where
  "first_seed addrs = (case addrs of [] \<Rightarrow> None | addr # _ \<Rightarrow> Some addr)"

definition disconnectBroker :: "any_broker \<Rightarrow> 'p Client \<Rightarrow> 'p Client outcome" where
  "disconnectBroker b c =
     (let c = c\<lparr>cl_deadBrokerAddrs := List.insert (any_addr b) (cl_deadBrokerAddrs c)\<rparr> in
      case b of
        SeedBroker _ \<Rightarrow>
          (case cl_seedBrokerAddrs c of
             [] \<Rightarrow> Panics ''runtime error: slice bounds out of range''
           | _ # rest \<Rightarrow> Returns (c\<lparr>cl_seedBrokerAddrs := rest, cl_seedBroker := first_seed rest\<rparr>))
      | Registered b1 \<Rightarrow> Returns (c\<lparr>cl_brokers := map_option (filter (\<lambda>x. broker_id x \<noteq> broker_id b1)) (cl_brokers c)\<rparr>))"

definition resurrectDeadBrokers :: "client_env \<Rightarrow> 'p Client \<Rightarrow> 'p Client outcome" where
  "resurrectDeadBrokers env c =
     (case ce_order env (fold List.insert (cl_seedBrokerAddrs c) (cl_deadBrokerAddrs c)) of
        [] \<Rightarrow> Panics ''runtime error: index out of range''
      | addr # addrs \<Rightarrow> Returns (c\<lparr>cl_seedBrokerAddrs := addr # addrs, cl_deadBrokerAddrs := [], cl_seedBroker := Some addr\<rparr>))"

section \<open>The cached metadata\<close>

definition cachedMetadata :: "string \<Rightarrow> int \<Rightarrow> 'p Client \<Rightarrow> PartitionMetadata option" where
  "cachedMetadata topic part c = (case cl_metadata c of None \<Rightarrow> None | Some md \<Rightarrow> get_block md topic part)"

definition cachedPartitions :: "string \<Rightarrow> partitionType \<Rightarrow> 'p Client \<Rightarrow> int list option" where
  "cachedPartitions topic ptype c =
     (case map_of (cl_cachedPartitionsResults c) topic of
        None \<Rightarrow> None
      | Some (alls, writables) \<Rightarrow> Some (case ptype of allPartitions \<Rightarrow> alls | writablePartitions \<Rightarrow> writables))"

definition setPartitionCache :: "(int \<times> PartitionMetadata) list \<Rightarrow> partitionType \<Rightarrow> int list" where
  "setPartitionCache parts ptype =
     sort (map pm_ID (filter (\<lambda>p. \<not> (ptype = writablePartitions \<and> pm_Err p = ErrLeaderNotAvailable)) (map snd parts)))"

definition cachedLeader :: "string \<Rightarrow> int \<Rightarrow> 'p Client \<Rightarrow> Broker option \<times> producer_error option" where
  "cachedLeader topic part c =
     (case cachedMetadata topic part c of
        None \<Rightarrow> (None, Some (ProduceKError ErrUnknownTopicOrPartition))
      | Some md \<Rightarrow>
          if pm_Err md = ErrLeaderNotAvailable then (None, Some (ProduceKError ErrLeaderNotAvailable))
          else (case cl_brokers c of
              None \<Rightarrow> (None, Some (ProduceKError ErrLeaderNotAvailable))
            | Some bs \<Rightarrow>
                (case broker_by_id (pm_Leader md) bs of
                   None \<Rightarrow> (None, Some (ProduceKError ErrLeaderNotAvailable))
                 | Some b \<Rightarrow> (Some b, None))))"

section \<open>updateMetadata\<close>

text \<open>The brokers of a response; a broker whose address changed is closed and replaced.\<close>

definition register_broker :: "Broker \<Rightarrow> Broker list \<times> any_broker list \<Rightarrow> Broker list \<times> any_broker list" where
  "register_broker b acc =
     (case acc of (bs, closing) \<Rightarrow>
        case broker_by_id (broker_id b) bs of
          None \<Rightarrow> (bs @ [b], closing)
        | Some old \<Rightarrow>
            if broker_addr b \<noteq> broker_addr old
            then (map (\<lambda>x. if broker_id x = broker_id b then b else x) bs, closing @ [Registered old])
            else (bs, closing))"

record metadata_update =
  mu_metadata :: "PartitionMetadata topics"
  mu_cache :: "(string \<times> int list \<times> int list) list"
  mu_retry :: "string list"
  mu_err :: "producer_error option"

definition partition_map :: "PartitionMetadata list \<Rightarrow> (int \<times> PartitionMetadata) list" where
  "partition_map ps = fold (\<lambda>p m. AList.update (pm_ID p) p m) ps []"

definition update_topic :: "TopicMetadata \<Rightarrow> metadata_update \<Rightarrow> metadata_update" where
  "update_topic t u =
     (let u1 = u\<lparr>mu_metadata := AList.delete (tm_Name t) (mu_metadata u), mu_cache := AList.delete (tm_Name t) (mu_cache u)\<rparr> in
      if tm_Err t \<noteq> ErrNoError \<and> tm_Err t \<noteq> ErrLeaderNotAvailable then
        u1\<lparr>mu_err := Some (ProduceKError (tm_Err t)),
          mu_retry := (if tm_Err t = ErrUnknownTopicOrPartition then List.insert (tm_Name t) (mu_retry u1) else mu_retry u1)\<rparr>
      else
        let parts = partition_map (tm_Partitions t);
            leaderless = (tm_Err t = ErrLeaderNotAvailable \<or> (\<exists>p \<in> set (tm_Partitions t). pm_Err p = ErrLeaderNotAvailable))
        in u1\<lparr>mu_retry := (if leaderless then List.insert (tm_Name t) (mu_retry u1) else mu_retry u1),
          mu_metadata := AList.update (tm_Name t) parts (mu_metadata u1),
          mu_cache := AList.update (tm_Name t)
            (setPartitionCache parts allPartitions, setPartitionCache parts writablePartitions) (mu_cache u1)\<rparr>)"

text \<open>Storing into a nil map panics; deleting from one does not.\<close>

definition stores_topic :: "TopicMetadata \<Rightarrow> bool" where
  "stores_topic t \<longleftrightarrow> tm_Err t = ErrNoError \<or> tm_Err t = ErrLeaderNotAvailable"

definition updateMetadata :: "client_env \<Rightarrow> MetadataResponse \<Rightarrow> 'p Client \<Rightarrow> (string list \<times> producer_error option \<times> 'p Client) outcome" where
  "updateMetadata env data c =
     (if (cl_brokers c = None \<and> mr_Brokers data \<noteq> []) \<or> (cl_metadata c = None \<and> (\<exists>t \<in> set (mr_Topics data). stores_topic t))
      then Panics ''assignment to entry in nil map''
      else
        let (bs, closing) = fold register_broker (mr_Brokers data) (case cl_brokers c of None \<Rightarrow> [] | Some bs \<Rightarrow> bs, cl_closing c);
            u = fold update_topic (mr_Topics data)
              \<lparr>mu_metadata = (case cl_metadata c of None \<Rightarrow> [] | Some md \<Rightarrow> md), mu_cache = cl_cachedPartitionsResults c,
               mu_retry = [], mu_err = None\<rparr>
        in Returns (ce_order env (mu_retry u), mu_err u,
          c\<lparr>cl_brokers := map_option (\<lambda>_. bs) (cl_brokers c), cl_closing := closing,
            cl_metadata := map_option (\<lambda>_. mu_metadata u) (cl_metadata c), cl_cachedPartitionsResults := mu_cache u\<rparr>))"

section \<open>tryRefreshMetadata\<close>

lemma bind_outcome_cong [fundef_cong]:
  "m = m' \<Longrightarrow> (\<And>x. m' = Returns x \<Longrightarrow> f x = g x) \<Longrightarrow> bind_outcome m f = bind_outcome m' g"
  by (cases m') simp_all

definition client_size :: "'p Client \<Rightarrow> nat" where
  "client_size c = length (cl_seedBrokerAddrs c) + (case cl_brokers c of None \<Rightarrow> 0 | Some bs \<Rightarrow> length bs)"

text \<open>Every broker that fails is dropped, so the loop ends.\<close>

lemma disconnectBroker_smaller:
  assumes "client_any env c = Some b" and "disconnectBroker b (c\<lparr>cl_calls := n\<rparr>) = Returns c'"
  shows "client_size c' < client_size c"
proof (cases "cl_seedBroker c")
  case None
  then obtain bs where bs: "cl_brokers c = Some bs" "bs \<noteq> []" "b = Registered (bs ! (ce_pick env (cl_calls c) mod length bs))"
    using assms(1) by (auto simp: client_any_def split: option.splits if_splits)
  let ?b1 = "bs ! (ce_pick env (cl_calls c) mod length bs)"
  have "?b1 \<in> set bs" using bs(2) by (intro nth_mem) simp
  then have "length (filter (\<lambda>x. broker_id x \<noteq> broker_id ?b1) bs) < length bs" by (intro length_filter_less) auto
  then show ?thesis using assms(2) bs by (auto simp: disconnectBroker_def client_size_def)
next
  case (Some addr)
  then show ?thesis using assms by (auto simp: client_any_def disconnectBroker_def client_size_def split: list.splits)
qed

text \<open>The case \<open>PacketEncodingError\<close> of the type switch.\<close>

fun not_sent :: "broker_error \<Rightarrow> bool" where
  "not_sent (KafkaError (PacketEncodingError _)) = True"
| "not_sent _ = False"

function tryRefreshMetadata :: "client_env \<Rightarrow> string list \<Rightarrow> nat \<Rightarrow> 'p Client \<Rightarrow> (producer_error option \<times> 'p Client) outcome" where
  "tryRefreshMetadata env topics retriesRemaining c =
     (case client_any env c of
        Some broker \<Rightarrow>
          let c1 = c\<lparr>cl_calls := Suc (cl_calls c)\<rparr> in
          (case ce_ask env (cl_calls c) (any_addr broker) topics of
             Inr response \<Rightarrow>
               bind_outcome (updateMetadata env response c1) (\<lambda>(retry, err, c2).
                 if retry \<noteq> [] \<and> retriesRemaining > 0 then tryRefreshMetadata env retry (retriesRemaining - 1) c2
                 else Returns (err, c2))
           | Inl err \<Rightarrow>
               if not_sent err then Returns (Some (BrokerError err), c1)
               else bind_outcome (disconnectBroker broker c1) (\<lambda>c2. tryRefreshMetadata env topics retriesRemaining c2))
      | None \<Rightarrow>
          if retriesRemaining > 0 then
            bind_outcome (resurrectDeadBrokers env c) (\<lambda>c2. tryRefreshMetadata env topics (retriesRemaining - 1) c2)
          else Returns (Some ErrOutOfBrokers, c))"
  by pat_completeness auto
termination
  by (relation "inv_image (less_than <*lex*> less_than) (\<lambda>(env, topics, n, c). (n, client_size c))")
     (auto dest: disconnectBroker_smaller)

declare tryRefreshMetadata.simps [simp del]

definition RefreshMetadata :: "client_env \<Rightarrow> string list \<Rightarrow> 'p Client \<Rightarrow> (producer_error option \<times> 'p Client) outcome" where
  "RefreshMetadata env topics c =
     (if client_Closed c then Returns (Some ErrClosedClient, c)
      else if [] \<in> set topics then Returns (Some (ProduceKError ErrInvalidTopic), c)
      else tryRefreshMetadata env topics (nat (Metadata_Retry_Max (cl_conf c))) c)"

section \<open>The operations of the client\<close>

definition NewClient :: "client_env \<Rightarrow> 'p \<Rightarrow> string list \<Rightarrow> 'p Config option \<Rightarrow> (producer_error + 'p Client) outcome" where
  "NewClient env def addrs conf =
     (let conf = (case conf of None \<Rightarrow> NewConfig def | Some cf \<Rightarrow> cf) in
      case snd (Validate conf) of
        Some e \<Rightarrow> Returns (Inl (BrokerError (ConfigError e)))
      | None \<Rightarrow>
          (case addrs of
             [] \<Rightarrow> Returns (Inl (BrokerError (ConfigError ''You must provide at least one broker address'')))
           | addr # _ \<Rightarrow>
               bind_outcome (RefreshMetadata env []
                 \<lparr>cl_conf = conf, cl_seedBrokerAddrs = addrs, cl_seedBroker = Some addr, cl_deadBrokerAddrs = [], cl_brokers = Some [],
                  cl_metadata = Some [], cl_cachedPartitionsResults = [], cl_closing = [], cl_calls = 0\<rparr>) (\<lambda>(err, c).
               case err of
                 None \<Rightarrow> Returns (Inr c)
               | Some e \<Rightarrow>
                   if e = ProduceKError ErrLeaderNotAvailable \<or> e = ProduceKError ErrReplicaNotAvailable then Returns (Inr c)
                   else Returns (Inl e))))"

definition client_Close :: "'p Client \<Rightarrow> producer_error option \<times> 'p Client" where
  "client_Close c =
     (case cl_brokers c of
        None \<Rightarrow> (Some ErrClosedClient, c)
      | Some bs \<Rightarrow>
          (None, c\<lparr>cl_brokers := None, cl_metadata := None, cl_closing := cl_closing c @ map Registered bs
            @ (case cl_seedBroker c of None \<Rightarrow> [] | Some addr \<Rightarrow> [SeedBroker addr])\<rparr>))"

definition client_Topics :: "client_env \<Rightarrow> 'p Client \<Rightarrow> producer_error + string list" where
  "client_Topics env c =
     (if client_Closed c then Inl ErrClosedClient
      else Inr (ce_order env (case cl_metadata c of None \<Rightarrow> [] | Some md \<Rightarrow> map fst md)))"

text \<open>\<open>Partitions\<close> and \<open>WritablePartitions\<close> differ in the cache they look at.\<close>

definition partitions_of :: "client_env \<Rightarrow> partitionType \<Rightarrow> string \<Rightarrow> 'p Client \<Rightarrow> ((producer_error + int list) \<times> 'p Client) outcome" where
  "partitions_of env ptype topic c =
     (if client_Closed c then Returns (Inl ErrClosedClient, c)
      else
        let result = (\<lambda>c. (case cachedPartitions topic ptype c of None \<Rightarrow> Inl (ProduceKError ErrUnknownTopicOrPartition) | Some ps \<Rightarrow> Inr ps, c))
        in if cachedPartitions topic ptype c \<in> {None, Some []} then
             bind_outcome (RefreshMetadata env [topic] c) (\<lambda>(err, c1).
               case err of Some e \<Rightarrow> Returns (Inl e, c1) | None \<Rightarrow> Returns (result c1))
           else Returns (result c))"

definition client_Partitions :: "client_env \<Rightarrow> string \<Rightarrow> 'p Client \<Rightarrow> ((producer_error + int list) \<times> 'p Client) outcome" where
  "client_Partitions env = partitions_of env allPartitions"

definition client_WritablePartitions :: "client_env \<Rightarrow> string \<Rightarrow> 'p Client \<Rightarrow> ((producer_error + int list) \<times> 'p Client) outcome" where
  "client_WritablePartitions env = partitions_of env writablePartitions"

definition client_Replicas :: "client_env \<Rightarrow> string \<Rightarrow> int \<Rightarrow> 'p Client \<Rightarrow> ((producer_error + int list) \<times> 'p Client) outcome" where
  "client_Replicas env topic part c =
     (if client_Closed c then Returns (Inl ErrClosedClient, c)
      else
        let result = (\<lambda>c. (case cachedMetadata topic part c of
              None \<Rightarrow> Inl (ProduceKError ErrUnknownTopicOrPartition)
            | Some md \<Rightarrow> if pm_Err md = ErrReplicaNotAvailable then Inl (ProduceKError (pm_Err md)) else Inr (dupeAndSort (pm_Replicas md)), c))
        in if cachedMetadata topic part c = None then
             bind_outcome (RefreshMetadata env [topic] c) (\<lambda>(err, c1).
               case err of Some e \<Rightarrow> Returns (Inl e, c1) | None \<Rightarrow> Returns (result c1))
           else Returns (result c))"

text \<open>
  The second lookup of \<open>Leader\<close> assigns to the \<open>err\<close> of the inner block; what is returned is the
  one of the first lookup.
\<close>

definition client_Leader :: "client_env \<Rightarrow> string \<Rightarrow> int \<Rightarrow> 'p Client \<Rightarrow> ((Broker option \<times> producer_error option) \<times> 'p Client) outcome" where
  "client_Leader env topic part c =
     (let (leader, err) = cachedLeader topic part c in
      if leader = None then
        bind_outcome (RefreshMetadata env [topic] c) (\<lambda>(err', c1).
          case err' of
            Some e \<Rightarrow> Returns ((None, Some e), c1)
          | None \<Rightarrow> Returns ((fst (cachedLeader topic part c1), err), c1))
      else Returns ((leader, err), c))"

text \<open>\<open>offsets\<close> is \<open>GetAvailableOffsets\<close> of the broker. Without an error the leader is not nil.\<close>

definition client_GetOffset :: "client_env \<Rightarrow> (Broker \<Rightarrow> OffsetRequest \<Rightarrow> broker_error + OffsetResponse) \<Rightarrow> string \<Rightarrow> int \<Rightarrow> int \<Rightarrow> 'p Client
    \<Rightarrow> ((int \<times> producer_error option) \<times> 'p Client) outcome" where
  "client_GetOffset env offsets topic part time c =
     bind_outcome (client_Leader env topic part c) (\<lambda>((broker, err), c1).
       case (err, broker) of
         (Some e, _) \<Rightarrow> Returns ((-1, Some e), c1)
       | (None, None) \<Rightarrow> Panics ''runtime error: invalid memory address or nil pointer dereference''
       | (None, Some b) \<Rightarrow>
           (case offsets b (OffsetRequest_AddBlock topic part time 1 []) of
              Inl e \<Rightarrow> Returns ((-1, Some (BrokerError e)), c1)
            | Inr response \<Rightarrow>
                (case OffsetResponse_GetBlock response topic part of
                   None \<Rightarrow> Returns ((-1, Some ErrIncompleteResponse), c1)
                 | Some block \<Rightarrow>
                     if ofr_Err block \<noteq> ErrNoError then Returns ((-1, Some (ProduceKError (ofr_Err block))), c1)
                     else (case ofr_Offsets block of
                         [off] \<Rightarrow> Returns ((off, None), c1)
                       | _ \<Rightarrow> Returns ((-1, Some (ProduceKError ErrOffsetOutOfRange)), c1)))))"

text \<open>One tick of \<open>backgroundMetadataUpdater\<close>, which is not started with frequency zero.\<close>

definition backgroundMetadataUpdater :: "client_env \<Rightarrow> 'p Client \<Rightarrow> 'p Client outcome" where
  "backgroundMetadataUpdater env c =
     (if Metadata_RefreshFrequency (cl_conf c) = 0 then Returns c
      else bind_outcome (RefreshMetadata env [] c) (\<lambda>(_, c1). Returns c1))"

section \<open>Invariant\<close>

text \<open>
  The brokers are stored under different ids, every topic of the metadata has its partitions stored
  under their own ids, the cached partition lists are those of the metadata, the seed broker is the
  first seed address, and there is always an address to go back to.
\<close>

definition cache_entry :: "(int \<times> PartitionMetadata) list \<Rightarrow> int list \<times> int list" where
  "cache_entry ps = (setPartitionCache ps allPartitions, setPartitionCache ps writablePartitions)"

definition partition_map_ok :: "(int \<times> PartitionMetadata) list \<Rightarrow> bool" where
  "partition_map_ok ps \<longleftrightarrow> distinct (map fst ps) \<and> (\<forall>(i, p) \<in> set ps. pm_ID p = i)"

definition metadata_ok :: "PartitionMetadata topics \<Rightarrow> (string \<times> int list \<times> int list) list \<Rightarrow> bool" where
  "metadata_ok md cache \<longleftrightarrow>
     distinct (map fst md) \<and> cache = map (\<lambda>(t, ps). (t, cache_entry ps)) md \<and> (\<forall>(t, ps) \<in> set md. partition_map_ok ps)"

definition addresses_ok :: "'p Client \<Rightarrow> bool" where
  "addresses_ok c \<longleftrightarrow>
     cl_seedBroker c = first_seed (cl_seedBrokerAddrs c) \<and> (cl_seedBrokerAddrs c \<noteq> [] \<or> cl_deadBrokerAddrs c \<noteq> [])"

definition client_ok :: "'p Client \<Rightarrow> bool" where
  "client_ok c \<longleftrightarrow>
     addresses_ok c \<and>
     (case (cl_brokers c, cl_metadata c) of
        (Some bs, Some md) \<Rightarrow> distinct (map broker_id bs) \<and> metadata_ok md (cl_cachedPartitionsResults c)
      | _ \<Rightarrow> False)"

text \<open>Walking a Go map visits each of its keys once.\<close>

definition map_walks :: "client_env \<Rightarrow> bool" where
  "map_walks env \<longleftrightarrow> (\<forall>xs. mset (ce_order env xs) = mset xs)"

lemma map_walksD: "map_walks env \<Longrightarrow> set (ce_order env xs) = set xs" "map_walks env \<Longrightarrow> ce_order env xs = [] \<longleftrightarrow> xs = []"
  by (metis map_walks_def set_mset_mset, metis map_walks_def mset_zero_iff mset.simps(1))

subsection \<open>Association lists\<close>

lemma update_map_values: "AList.update k (f v) (map (\<lambda>(k, v). (k, f v)) xs) = map (\<lambda>(k, v). (k, f v)) (AList.update k v xs)"
  by (induction xs) auto

lemma delete_map_values: "AList.delete k (map (\<lambda>(k, v). (k, f v)) xs) = map (\<lambda>(k, v). (k, f v)) (AList.delete k xs)"
  by (induction xs) (auto simp: AList.delete_eq)

lemma map_of_map_values: "map_of (map (\<lambda>(k, v). (k, f v)) xs) k = map_option f (map_of xs k)"
  by (induction xs) auto

lemma set_update_subset: "set (AList.update k v xs) \<subseteq> insert (k, v) (set xs)"
  by (induction xs) auto

lemma partition_map_ok_update: "partition_map_ok m \<Longrightarrow> partition_map_ok (AList.update (pm_ID p) p m)"
  using set_update_subset [of "pm_ID p" p m] by (fastforce simp: partition_map_ok_def distinct_update)

lemma partition_map_ok: "partition_map_ok (partition_map ps)"
proof -
  have "partition_map_ok (fold (\<lambda>p m. AList.update (pm_ID p) p m) ps m)" if "partition_map_ok m" for m
    using that by (induction ps arbitrary: m) (auto simp: partition_map_ok_update)
  from this [of "[]"] show ?thesis by (simp add: partition_map_def partition_map_ok_def)
qed

lemma map_of_fold_update:
  "map_of (fold (\<lambda>p m. AList.update (pm_ID p) p m) ps m) i =
     (case find (\<lambda>p. pm_ID p = i) (rev ps) of None \<Rightarrow> map_of m i | Some p \<Rightarrow> Some p)"
proof (induction ps arbitrary: m rule: rev_induct)
  case (snoc p ps)
  then show ?case by (auto simp: update_conv split: option.splits)
qed simp

lemma map_of_partition_map: "map_of (partition_map ps) i = find (\<lambda>p. pm_ID p = i) (rev ps)"
  by (simp add: partition_map_def map_of_fold_update split: option.splits)

subsection \<open>Every operation keeps the invariant\<close>

lemma client_okE:
  assumes "client_ok c"
  obtains bs md where "cl_brokers c = Some bs" "cl_metadata c = Some md" "distinct (map broker_id bs)"
    "metadata_ok md (cl_cachedPartitionsResults c)" "addresses_ok c"
  using assms by (auto simp: client_ok_def split: option.splits)

lemma client_okI:
  assumes "cl_brokers c = Some bs" "cl_metadata c = Some md" "distinct (map broker_id bs)"
    "metadata_ok md (cl_cachedPartitionsResults c)" "addresses_ok c"
  shows "client_ok c"
  using assms by (simp add: client_ok_def)

lemma client_ok_calls [simp]: "client_ok (c\<lparr>cl_calls := n\<rparr>) = client_ok c"
  by (simp add: client_ok_def addresses_ok_def split: option.splits)

lemma insert_not_Nil: "List.insert x xs \<noteq> []"
  by (auto simp: List.insert_def)

lemma disconnectBroker_ok:
  assumes "client_ok c" and "client_any env c = Some b"
  shows "\<exists>c'. disconnectBroker b (c\<lparr>cl_calls := n\<rparr>) = Returns c' \<and> client_ok c'"
proof (cases b)
  case (SeedBroker addr)
  then obtain rest where "cl_seedBrokerAddrs c = addr # rest" and "cl_seedBroker c = Some addr"
    using assms by (auto simp: client_any_def client_ok_def addresses_ok_def first_seed_def split: option.splits list.splits if_splits)
  then show ?thesis using assms SeedBroker
    by (auto simp: disconnectBroker_def client_ok_def addresses_ok_def Let_def insert_not_Nil split: option.splits)
next
  case (Registered b1)
  then show ?thesis using assms
    by (auto simp: disconnectBroker_def client_ok_def addresses_ok_def Let_def distinct_map_filter insert_not_Nil split: option.splits)
qed

lemma set_fold_insert: "set (fold List.insert xs ys) = set xs \<union> set ys"
  by (induction xs arbitrary: ys) auto

lemma resurrectDeadBrokers_ok:
  assumes "client_ok c" and "map_walks env"
  shows "\<exists>c'. resurrectDeadBrokers env c = Returns c' \<and> client_ok c'"
proof -
  have "set (fold List.insert (cl_seedBrokerAddrs c) (cl_deadBrokerAddrs c)) \<noteq> {}"
    using assms(1) unfolding set_fold_insert by (auto simp: client_ok_def addresses_ok_def)
  then have "ce_order env (fold List.insert (cl_seedBrokerAddrs c) (cl_deadBrokerAddrs c)) \<noteq> []"
    using map_walksD(2) [OF assms(2)] by auto
  then show ?thesis using assms(1)
    by (auto simp: resurrectDeadBrokers_def client_ok_def addresses_ok_def first_seed_def split: list.splits option.splits)
qed

lemma broker_by_id_None: "broker_by_id i bs = None \<longleftrightarrow> i \<notin> broker_id ` set bs"
  by (auto simp: broker_by_id_def find_None_iff)

lemma register_broker_distinct:
  "distinct (map broker_id (fst acc)) \<Longrightarrow> distinct (map broker_id (fst (register_broker b acc)))"
  by (auto simp: register_broker_def broker_by_id_None map_idI comp_def if_distrib cong: if_cong split: prod.splits option.splits)

lemma fold_register_distinct:
  "distinct (map broker_id (fst acc)) \<Longrightarrow> distinct (map broker_id (fst (fold register_broker bs acc)))"
  by (induction bs arbitrary: acc) (simp_all add: register_broker_distinct del: split_paired_All)

lemma set_delete_subset: "set (AList.delete k xs) \<subseteq> set xs"
  by (auto simp: AList.delete_eq)

lemma metadata_ok_delete: "metadata_ok md cache \<Longrightarrow> metadata_ok (AList.delete t md) (AList.delete t cache)"
  using set_delete_subset [of t md] by (fastforce simp: metadata_ok_def delete_map_values distinct_delete)

lemma metadata_ok_update:
  "metadata_ok md cache \<Longrightarrow> partition_map_ok ps \<Longrightarrow> metadata_ok (AList.update t ps md) (AList.update t (cache_entry ps) cache)"
  using set_update_subset [of t ps md] by (fastforce simp: metadata_ok_def update_map_values distinct_update)

lemma update_topic_ok: "metadata_ok (mu_metadata u) (mu_cache u) \<Longrightarrow> metadata_ok (mu_metadata (update_topic t u)) (mu_cache (update_topic t u))"
  by (simp add: update_topic_def Let_def metadata_ok_delete metadata_ok_update partition_map_ok flip: cache_entry_def)

lemma fold_update_topic_ok:
  "metadata_ok (mu_metadata u) (mu_cache u) \<Longrightarrow> metadata_ok (mu_metadata (fold update_topic ts u)) (mu_cache (fold update_topic ts u))"
  by (induction ts arbitrary: u) (auto intro: update_topic_ok)

lemma updateMetadata_ok:
  assumes "client_ok c"
  shows "\<exists>retry err c'. updateMetadata env data c = Returns (retry, err, c') \<and> client_ok c'"
proof -
  obtain bs md where c: "cl_brokers c = Some bs" "cl_metadata c = Some md" "distinct (map broker_id bs)"
    "metadata_ok md (cl_cachedPartitionsResults c)" "addresses_ok c" using assms by (rule client_okE)
  then show ?thesis
    using fold_register_distinct [of "(bs, cl_closing c)" "mr_Brokers data"]
      fold_update_topic_ok [of "\<lparr>mu_metadata = md, mu_cache = cl_cachedPartitionsResults c, mu_retry = [], mu_err = None\<rparr>" "mr_Topics data"]
    by (auto simp: updateMetadata_def Let_def client_ok_def addresses_ok_def split: prod.splits)
qed

lemma tryRefreshMetadata_ok:
  "client_ok c \<Longrightarrow> map_walks env \<Longrightarrow> \<exists>err c'. tryRefreshMetadata env topics n c = Returns (err, c') \<and> client_ok c'"
proof (induction env topics n c rule: tryRefreshMetadata.induct)
  case (1 env topics n c)
  show ?case
  proof (cases "client_any env c")
    case None
    then show ?thesis using "1.IH"(1) [OF None] "1.prems" resurrectDeadBrokers_ok [of c env]
      by (subst tryRefreshMetadata.simps) auto
  next
    case (Some b)
    let ?c = "c\<lparr>cl_calls := Suc (cl_calls c)\<rparr>"
    show ?thesis
    proof (cases "ce_ask env (cl_calls c) (any_addr b) topics")
      case (Inr data)
      then obtain retry err c' where u: "updateMetadata env data ?c = Returns (retry, err, c')" "client_ok c'"
        using updateMetadata_ok [of ?c env data] "1.prems"(1) by auto
      show ?thesis using "1.IH"(3) [OF Some refl Inr u(1) refl refl] u "1.prems"(2) Some Inr
        by (subst tryRefreshMetadata.simps) simp
    next
      case (Inl e)
      obtain c' where d: "disconnectBroker b ?c = Returns c'" "client_ok c'"
        using disconnectBroker_ok [OF "1.prems"(1) Some] by blast
      show ?thesis using "1.IH"(2) [OF Some refl Inl _ d(1)] d "1.prems" Some Inl
        by (subst tryRefreshMetadata.simps) (simp add: Let_def)
    qed
  qed
qed

lemma RefreshMetadata_ok:
  assumes "client_ok c" and "map_walks env"
  shows "\<exists>err c'. RefreshMetadata env topics c = Returns (err, c') \<and> client_ok c'"
  using tryRefreshMetadata_ok [OF assms] assms(1) by (simp add: RefreshMetadata_def)

lemma partitions_of_ok:
  assumes "client_ok c" and "map_walks env"
  shows "\<exists>r c'. partitions_of env ptype topic c = Returns (r, c') \<and> client_ok c'"
  using assms RefreshMetadata_ok [OF assms, of "[topic]"]
  by (auto simp: partitions_of_def Let_def client_Closed_def split: option.splits)

lemma client_Replicas_ok:
  assumes "client_ok c" and "map_walks env"
  shows "\<exists>r c'. client_Replicas env topic part c = Returns (r, c') \<and> client_ok c'"
  using assms RefreshMetadata_ok [OF assms, of "[topic]"]
  by (auto simp: client_Replicas_def Let_def client_Closed_def split: option.splits)

lemma cachedLeader_cases:
  obtains (leader) b where "cachedLeader topic part c = (Some b, None)"
    | (error) e where "cachedLeader topic part c = (None, Some e)"
proof -
  have "(\<exists>b. cachedLeader topic part c = (Some b, None)) \<or> (\<exists>e. cachedLeader topic part c = (None, Some e))"
    by (simp add: cachedLeader_def split: option.splits)
  then show thesis using that by blast
qed

text \<open>Without an error there is a leader; the converse fails.\<close>

lemma client_Leader_ok:
  assumes "client_ok c" and "map_walks env"
  shows "\<exists>leader err c'. client_Leader env topic part c = Returns ((leader, err), c') \<and> client_ok c' \<and> (err = None \<longrightarrow> leader \<noteq> None)"
proof (cases topic part c rule: cachedLeader_cases)
  case (error e)
  then show ?thesis using RefreshMetadata_ok [OF assms, of "[topic]"]
    by (auto simp: client_Leader_def split: option.splits)
qed (use assms in \<open>simp add: client_Leader_def\<close>)

lemma client_GetOffset_ok:
  assumes "client_ok c" and "map_walks env"
  shows "\<exists>r c'. client_GetOffset env offsets topic part time c = Returns (r, c') \<and> client_ok c'"
  using client_Leader_ok [OF assms, of topic part]
  by (auto simp: client_GetOffset_def split: option.splits sum.splits list.splits)

section \<open>What the metadata says\<close>

lemma mu_metadata_update_topic:
  "map_of (mu_metadata (update_topic t u)) name =
     (if name \<noteq> tm_Name t then map_of (mu_metadata u) name
      else if stores_topic t then Some (partition_map (tm_Partitions t)) else None)"
  by (auto simp: update_topic_def stores_topic_def Let_def update_conv delete_conv)

lemma mu_metadata_fold:
  "map_of (mu_metadata (fold update_topic ts u)) name =
     (case find (\<lambda>t. tm_Name t = name) (rev ts) of
        None \<Rightarrow> map_of (mu_metadata u) name
      | Some t \<Rightarrow> if stores_topic t then Some (partition_map (tm_Partitions t)) else None)"
  by (induction ts rule: rev_induct) (auto simp: mu_metadata_update_topic)

definition needs_retry :: "TopicMetadata \<Rightarrow> bool" where
  "needs_retry t \<longleftrightarrow> tm_Err t = ErrUnknownTopicOrPartition \<or> tm_Err t = ErrLeaderNotAvailable
     \<or> (tm_Err t = ErrNoError \<and> (\<exists>p \<in> set (tm_Partitions t). pm_Err p = ErrLeaderNotAvailable))"

lemma mu_retry_update_topic: "set (mu_retry (update_topic t u)) = set (mu_retry u) \<union> (if needs_retry t then {tm_Name t} else {})"
  by (auto simp: update_topic_def needs_retry_def Let_def ErrNoError_def ErrUnknownTopicOrPartition_def ErrLeaderNotAvailable_def)

lemma mu_retry_fold: "set (mu_retry (fold update_topic ts u)) = set (mu_retry u) \<union> tm_Name ` {t \<in> set ts. needs_retry t}"
  by (induction ts arbitrary: u) (auto simp: mu_retry_update_topic)

text \<open>The abstract view of the client: what it knows of every partition, and where every broker is.\<close>

definition partition_view :: "'p Client \<Rightarrow> string \<Rightarrow> int \<Rightarrow> PartitionMetadata option" where
  "partition_view c topic part = cachedMetadata topic part c"

definition broker_view :: "'p Client \<Rightarrow> int \<Rightarrow> string option" where
  "broker_view c i = map_option broker_addr (broker_by_id i (case cl_brokers c of None \<Rightarrow> [] | Some bs \<Rightarrow> bs))"

lemma find_map_replace:
  "find (\<lambda>b. broker_id b = i) (map (\<lambda>x. if broker_id x = broker_id b then b else x) bs) =
     (if i = broker_id b then (if i \<in> broker_id ` set bs then Some b else None) else find (\<lambda>b. broker_id b = i) bs)"
  by (induction bs) auto

lemma find_append: "find P (xs @ ys) = (case find P xs of None \<Rightarrow> find P ys | Some x \<Rightarrow> Some x)"
  by (induction xs) auto

lemma register_broker_view:
  "map_option broker_addr (broker_by_id i (fst (register_broker b acc))) =
     (if i = broker_id b then Some (broker_addr b) else map_option broker_addr (broker_by_id i (fst acc)))"
proof (cases acc)
  case (Pair bs closing)
  show ?thesis
  proof (cases "broker_by_id (broker_id b) bs")
    case None
    then show ?thesis using Pair by (auto simp: register_broker_def broker_by_id_def find_append split: option.splits)
  next
    case (Some old)
    then have "broker_id b \<in> broker_id ` set bs" by (metis broker_by_id_None option.distinct(1))
    then show ?thesis using Pair Some by (auto simp: register_broker_def broker_by_id_def find_map_replace)
  qed
qed

lemma fold_register_view:
  "map_option broker_addr (broker_by_id i (fst (fold register_broker bs acc))) =
     (case find (\<lambda>b. broker_id b = i) (rev bs) of
        None \<Rightarrow> map_option broker_addr (broker_by_id i (fst acc)) | Some b \<Rightarrow> Some (broker_addr b))"
  by (induction bs rule: rev_induct) (auto simp: register_broker_view)

lemma updateMetadata_fields:
  assumes "client_ok c" and "updateMetadata env data c = Returns (retry, err, c')"
  obtains bs md u where "cl_brokers c = Some bs" and "cl_metadata c = Some md"
    and "u = fold update_topic (mr_Topics data) \<lparr>mu_metadata = md, mu_cache = cl_cachedPartitionsResults c, mu_retry = [], mu_err = None\<rparr>"
    and "cl_brokers c' = Some (fst (fold register_broker (mr_Brokers data) (bs, cl_closing c)))"
    and "cl_metadata c' = Some (mu_metadata u)" and "retry = ce_order env (mu_retry u)"
proof -
  obtain bs md where "cl_brokers c = Some bs" "cl_metadata c = Some md" using assms(1) by (rule client_okE)
  then show thesis using assms(2) that
    by (auto simp: updateMetadata_def Let_def split: prod.splits)
qed

text \<open>
  C30: A metadata response overrides what the client knew, and nothing else. For every topic of
  the response the partitions become those of its last entry, or unknown when that entry has an
  error other than a missing leader; every other topic is untouched. Every broker of the response
  is registered under its id with its address, and the other brokers stay. The topics to ask
  again are exactly those that are unknown or without a leader.
\<close>

theorem updateMetadata_refines:
  assumes "client_ok c" and "map_walks env" and "updateMetadata env data c = Returns (retry, err, c')"
  shows "partition_view c' topic part =
           (case find (\<lambda>t. tm_Name t = topic) (rev (mr_Topics data)) of
              None \<Rightarrow> partition_view c topic part
            | Some t \<Rightarrow> if stores_topic t then find (\<lambda>p. pm_ID p = part) (rev (tm_Partitions t)) else None)
    \<and> broker_view c' i =
           (case find (\<lambda>b. broker_id b = i) (rev (mr_Brokers data)) of
              None \<Rightarrow> broker_view c i | Some b \<Rightarrow> Some (broker_addr b))
    \<and> set retry = tm_Name ` {t \<in> set (mr_Topics data). needs_retry t}"
proof -
  obtain bs md u where u: "cl_brokers c = Some bs" "cl_metadata c = Some md"
      "u = fold update_topic (mr_Topics data) \<lparr>mu_metadata = md, mu_cache = cl_cachedPartitionsResults c, mu_retry = [], mu_err = None\<rparr>"
      "cl_brokers c' = Some (fst (fold register_broker (mr_Brokers data) (bs, cl_closing c)))"
      "cl_metadata c' = Some (mu_metadata u)" "retry = ce_order env (mu_retry u)"
    using assms(1,3) by (rule updateMetadata_fields)
  have "partition_view c' topic part = (case find (\<lambda>t. tm_Name t = topic) (rev (mr_Topics data)) of
              None \<Rightarrow> partition_view c topic part
            | Some t \<Rightarrow> if stores_topic t then find (\<lambda>p. pm_ID p = part) (rev (tm_Partitions t)) else None)"
    using u(2,3,5) by (simp add: partition_view_def cachedMetadata_def get_block_def mu_metadata_fold map_of_partition_map split: option.splits)
  moreover have "broker_view c' i = (case find (\<lambda>b. broker_id b = i) (rev (mr_Brokers data)) of
              None \<Rightarrow> broker_view c i | Some b \<Rightarrow> Some (broker_addr b))"
    using u(1,4) by (simp add: broker_view_def fold_register_view split: option.splits)
  moreover have "set retry = tm_Name ` {t \<in> set (mr_Topics data). needs_retry t}"
    using u assms(2) by (simp add: map_walksD mu_retry_fold)
  ultimately show ?thesis by blast
qed

text \<open>
  C31: No operation of an open client panics or runs forever, whatever the brokers answer, and
  each of them leaves the client consistent: the cached partition lists are those of the metadata,
  brokers have different ids, and an address to go back to remains. In particular \<open>GetOffset\<close> never
  uses a nil leader.
\<close>

theorem client_operations_safe:
  assumes "client_ok c" and "map_walks env"
  shows "(\<exists>err c'. RefreshMetadata env topics c = Returns (err, c') \<and> client_ok c')
    \<and> (\<exists>r c'. client_Partitions env topic c = Returns (r, c') \<and> client_ok c')
    \<and> (\<exists>r c'. client_WritablePartitions env topic c = Returns (r, c') \<and> client_ok c')
    \<and> (\<exists>r c'. client_Replicas env topic part c = Returns (r, c') \<and> client_ok c')
    \<and> (\<exists>r c'. client_Leader env topic part c = Returns (r, c') \<and> client_ok c')
    \<and> (\<exists>r c'. client_GetOffset env offsets topic part time c = Returns (r, c') \<and> client_ok c')"
  using RefreshMetadata_ok [OF assms] partitions_of_ok [OF assms] client_Replicas_ok [OF assms]
    client_Leader_ok [OF assms, of topic part] client_GetOffset_ok [OF assms]
  by (simp add: client_Partitions_def client_WritablePartitions_def) blast

text \<open>
  \<open>NewClient\<close> returns for every list of addresses and whatever the brokers answer; when it
  returns a client, the client is consistent.
\<close>

theorem NewClient_ok:
  assumes "map_walks env"
  shows "\<exists>r. NewClient env random addrs conf = Returns r \<and> (\<forall>c. r = Inr c \<longrightarrow> client_ok c)"
proof (cases addrs)
  case (Cons addr rest)
  define cf where "cf = (case conf of None \<Rightarrow> NewConfig random | Some cf \<Rightarrow> cf)"
  let ?c = "\<lparr>cl_conf = cf, cl_seedBrokerAddrs = addr # rest, cl_seedBroker = Some addr, cl_deadBrokerAddrs = [], cl_brokers = Some [],
              cl_metadata = Some [], cl_cachedPartitionsResults = [], cl_closing = [], cl_calls = 0\<rparr>"
  have "client_ok ?c" by (simp add: client_ok_def addresses_ok_def metadata_ok_def first_seed_def)
  from RefreshMetadata_ok [OF this assms, of "[]"] show ?thesis using Cons
    by (auto simp: NewClient_def Let_def simp flip: cf_def split: option.splits)
qed (simp add: NewClient_def Let_def split: option.splits)

lemma cachedPartitions_view:
  assumes "client_ok c" and "cachedPartitions topic ptype c = Some ps"
  shows "sorted_wrt (<) ps"
    and "i \<in> set ps \<longleftrightarrow>
      (\<exists>p. partition_view c topic i = Some p \<and> \<not> (ptype = writablePartitions \<and> pm_Err p = ErrLeaderNotAvailable))"
proof -
  obtain bs md where c: "cl_brokers c = Some bs" "cl_metadata c = Some md" "metadata_ok md (cl_cachedPartitionsResults c)"
    using assms(1) by (rule client_okE)
  then have "cl_cachedPartitionsResults c = map (\<lambda>(t, ps). (t, cache_entry ps)) md" by (simp add: metadata_ok_def)
  then obtain parts where parts: "map_of md topic = Some parts" "ps = setPartitionCache parts ptype"
    using assms(2) by (cases ptype) (auto simp: cachedPartitions_def map_of_map_values cache_entry_def split: option.splits)
  have ok: "distinct (map fst parts)" "\<And>j p. (j, p) \<in> set parts \<Longrightarrow> pm_ID p = j"
    using c(3) map_of_SomeD [OF parts(1)] by (fastforce simp: metadata_ok_def partition_map_ok_def)+
  have "map (pm_ID \<circ> snd) parts = map fst parts" using ok(2) by (auto intro!: map_cong)
  then have "distinct (map (pm_ID \<circ> snd) parts)" using ok(1) by metis
  then show "sorted_wrt (<) ps" unfolding parts(2) setPartitionCache_def
    by (simp add: strict_sorted_iff distinct_map_filter)
  have "partition_view c topic i = Some p \<longleftrightarrow> (i, p) \<in> set parts" for p
    using c(2) parts(1) ok(1) by (simp add: partition_view_def cachedMetadata_def get_block_def)
  then show "i \<in> set ps \<longleftrightarrow>
      (\<exists>p. partition_view c topic i = Some p \<and> \<not> (ptype = writablePartitions \<and> pm_Err p = ErrLeaderNotAvailable))"
    unfolding parts(2) setPartitionCache_def using ok(2) by force
qed

lemma partitions_of_cached:
  assumes "partitions_of env ptype topic c = Returns (Inr ps, c')"
  shows "cachedPartitions topic ptype c' = Some ps"
  using assms by (auto simp: partitions_of_def Let_def bind_outcome_Returns_iff split: if_splits option.splits)

text \<open>
  \<open>Partitions\<close> returns the partitions of the topic in the metadata, in increasing order and
  without duplicates, and \<open>WritablePartitions\<close> those of them that have a leader.
\<close>

theorem client_Partitions_correct:
  assumes "client_ok c" and "map_walks env"
    and "client_Partitions env topic c = Returns (Inr ps, c')"
    and "client_WritablePartitions env topic c' = Returns (Inr ws, c'')"
  shows "sorted_wrt (<) ps \<and> sorted_wrt (<) ws
    \<and> (\<forall>i. i \<in> set ps \<longleftrightarrow> partition_view c' topic i \<noteq> None)
    \<and> (\<forall>i. i \<in> set ws \<longleftrightarrow> (\<exists>p. partition_view c'' topic i = Some p \<and> pm_Err p \<noteq> ErrLeaderNotAvailable))"
proof -
  have ok: "client_ok c'" using assms(3) partitions_of_ok [OF assms(1,2), of allPartitions topic] by (auto simp: client_Partitions_def)
  then have ok': "client_ok c''"
    using assms(4) partitions_of_ok [OF ok assms(2), of writablePartitions topic] by (auto simp: client_WritablePartitions_def)
  have "cachedPartitions topic allPartitions c' = Some ps" "cachedPartitions topic writablePartitions c'' = Some ws"
    using assms(3,4) by (auto simp: client_Partitions_def client_WritablePartitions_def intro: partitions_of_cached)
  note cp = cachedPartitions_view [OF ok this(1)] cachedPartitions_view [OF ok' this(2)]
  show ?thesis by (intro conjI allI) (use cp in auto)
qed

text \<open>
  C32: Flaw of \<open>Leader\<close>: the second lookup assigns to the \<open>err\<close> of the inner block. When the
  leader is not in the cache and the refresh finds it, \<open>Leader\<close> returns the leader together with
  the error of the first lookup, so that \<open>GetOffset\<close> fails with it although the leader is known.
\<close>

theorem client_Leader_stale_error:
  assumes "cachedLeader topic part c = (None, Some e)"
    and "RefreshMetadata env [topic] c = Returns (None, c')"
    and "cachedLeader topic part c' = (Some b, None)"
  shows "client_Leader env topic part c = Returns ((Some b, Some e), c')
    \<and> client_GetOffset env offsets topic part time c = Returns ((-1, Some e), c')
    \<and> client_Leader env topic part c' = Returns ((Some b, None), c')"
  using assms by (simp add: client_GetOffset_def client_Leader_def)

text \<open>
  After \<open>Close\<close> every operation that can fail answers \<open>ErrClosedClient\<close> and a second \<open>Close\<close>
  does too. A refresh that got its answer before \<open>Close\<close> and stores it after it writes to a nil
  map: the lock is not held while the broker is asked, and \<open>updateMetadata\<close> does not check again.
\<close>

theorem client_closed:
  assumes "client_ok c" and "client_Close c = (err, c')"
  shows "err = None \<and> client_Close c' = (Some ErrClosedClient, c')
    \<and> RefreshMetadata env topics c' = Returns (Some ErrClosedClient, c')
    \<and> client_Topics env c' = Inl ErrClosedClient
    \<and> client_Partitions env topic c' = Returns (Inl ErrClosedClient, c')
    \<and> client_Replicas env topic part c' = Returns (Inl ErrClosedClient, c')
    \<and> snd (cachedLeader topic part c') = Some (ProduceKError ErrUnknownTopicOrPartition)
    \<and> (mr_Brokers data \<noteq> [] \<longrightarrow> updateMetadata env data c' = Panics ''assignment to entry in nil map'')"
  using assms by (auto simp: client_ok_def client_Close_def client_Closed_def RefreshMetadata_def client_Topics_def client_Partitions_def
      partitions_of_def client_Replicas_def updateMetadata_def cachedLeader_def cachedMetadata_def split: option.splits)

section \<open>Witnesses\<close>

definition demo_metadata :: MetadataResponse where
  "demo_metadata = \<lparr>mr_Brokers = [\<lparr>broker_id = 7, broker_addr = ''b:1''\<rparr>],
     mr_Topics = [\<lparr>tm_Err = ErrNoError, tm_Name = ''t'', tm_Partitions =
       [\<lparr>pm_Err = ErrNoError, pm_ID = 1, pm_Leader = 7, pm_Replicas = [], pm_Isr = []\<rparr>,
        \<lparr>pm_Err = ErrNoError, pm_ID = 0, pm_Leader = 7, pm_Replicas = [], pm_Isr = []\<rparr>]\<rparr>]\<rparr>"

definition demo_client_env :: client_env where
  "demo_client_env = \<lparr>ce_ask = (\<lambda>n addr topics. if addr = ''s:1'' then Inl (NetError ''refused'') else Inr demo_metadata),
     ce_pick = (\<lambda>_. 0), ce_order = (\<lambda>xs. xs)\<rparr>"

definition demo_client :: "unit Client" where
  "demo_client = \<lparr>cl_conf = NewConfig (), cl_seedBrokerAddrs = [''s:1'', ''s:2''], cl_seedBroker = Some ''s:1'', cl_deadBrokerAddrs = [],
     cl_brokers = Some [], cl_metadata = Some [], cl_cachedPartitionsResults = [], cl_closing = [], cl_calls = 0\<rparr>"

definition demo_client' :: "unit Client" where
  "demo_client' = (case tryRefreshMetadata demo_client_env [''t''] 3 demo_client of Returns (_, c) \<Rightarrow> c | _ \<Rightarrow> demo_client)"

lemma demo_client_facts:
  "client_ok demo_client" "map_walks demo_client_env"
  "RefreshMetadata demo_client_env [''t''] demo_client = Returns (None, demo_client')"
  by code_simp (simp add: map_walks_def demo_client_env_def, code_simp)

theorem updateMetadata_refines_witness:
  "\<exists>retry err c'. updateMetadata demo_client_env demo_metadata demo_client = Returns (retry, err, c')
    \<and> partition_view c' ''t'' 1 \<noteq> None \<and> broker_view c' 7 = Some ''b:1'' \<and> retry = []"
proof -
  obtain retry err c' where u: "updateMetadata demo_client_env demo_metadata demo_client = Returns (retry, err, c')"
    using updateMetadata_ok [OF demo_client_facts(1)] by blast
  have "needs_retry t = False" if "t \<in> set (mr_Topics demo_metadata)" for t
    using that by (simp add: demo_metadata_def needs_retry_def ErrNoError_def ErrUnknownTopicOrPartition_def ErrLeaderNotAvailable_def)
  then have "{t \<in> set (mr_Topics demo_metadata). needs_retry t} = {}" by blast
  then have "tm_Name ` {t \<in> set (mr_Topics demo_metadata). needs_retry t} = {}" by simp
  note r = updateMetadata_refines [OF demo_client_facts(1,2) u, of "''t''" 1 7, unfolded this]
  have "partition_view c' ''t'' 1 \<noteq> None \<and> broker_view c' 7 = Some ''b:1'' \<and> retry = []"
    using r by (simp add: demo_metadata_def stores_topic_def)
  then show ?thesis using u by blast
qed

theorem client_operations_safe_witness:
  "client_ok demo_client \<and> map_walks demo_client_env
    \<and> (\<exists>r c'. client_GetOffset demo_client_env (\<lambda>_ _. Inr []) ''t'' 1 OffsetNewest demo_client = Returns (r, c') \<and> client_ok c')"
  using client_operations_safe [OF demo_client_facts(1,2)] demo_client_facts(1,2) by blast

theorem NewClient_ok_witness:
  "map_walks demo_client_env \<and> (\<exists>r. NewClient demo_client_env () [''s:1''] None = Returns r \<and> (\<forall>c. r = Inr c \<longrightarrow> client_ok c))"
  by (rule conjI [OF demo_client_facts(2) NewClient_ok [OF demo_client_facts(2)]])

theorem client_Partitions_correct_witness:
  "client_Partitions demo_client_env ''t'' demo_client = Returns (Inr [0, 1], demo_client') \<and> sorted_wrt (<) [0, 1 :: int]
    \<and> partition_view demo_client' ''t'' 1 \<noteq> None"
proof -
  have p: "client_Partitions demo_client_env ''t'' demo_client = Returns (Inr [0, 1], demo_client')" by code_simp
  have w: "client_WritablePartitions demo_client_env ''t'' demo_client' = Returns (Inr [0, 1], demo_client')" by code_simp
  have "1 \<in> set [0, 1 :: int]" by simp
  then have "partition_view demo_client' ''t'' 1 \<noteq> None"
    using client_Partitions_correct [OF demo_client_facts(1,2) p w] by blast
  then show ?thesis using p by simp
qed

theorem client_Leader_stale_error_witness:
  "cachedLeader ''t'' 1 demo_client' = (Some \<lparr>broker_id = 7, broker_addr = ''b:1''\<rparr>, None)
    \<and> client_Leader demo_client_env ''t'' 1 demo_client
      = Returns ((Some \<lparr>broker_id = 7, broker_addr = ''b:1''\<rparr>, Some (ProduceKError ErrUnknownTopicOrPartition)), demo_client')"
proof -
  have "cachedLeader ''t'' 1 demo_client = (None, Some (ProduceKError ErrUnknownTopicOrPartition))" by code_simp
  moreover have "cachedLeader ''t'' 1 demo_client' = (Some \<lparr>broker_id = 7, broker_addr = ''b:1''\<rparr>, None)" by code_simp
  ultimately show ?thesis using client_Leader_stale_error [OF _ demo_client_facts(3)] by blast
qed

theorem client_closed_witness:
  "client_ok demo_client' \<and> fst (client_Close demo_client') = None
    \<and> updateMetadata demo_client_env demo_metadata (snd (client_Close demo_client')) = Panics ''assignment to entry in nil map''"
proof -
  have "client_ok demo_client'" by code_simp
  moreover have "mr_Brokers demo_metadata \<noteq> []" by (simp add: demo_metadata_def)
  ultimately show ?thesis using client_closed [OF _ surjective_pairing] by blast
qed

end
