(* ===== verification/Go_Breaker.thy ===== *)
theory Go_Breaker
  imports Go_Time
begin

text \<open>
  \<open>eapache/go-resiliency/breaker\<close>, the circuit breaker sarama's producer puts around its
  metadata lookups. A breaker starts closed; it opens after \<open>errorThreshold\<close> errors, half-opens
  when the timer it then starts goes off, and from there closes after \<open>successThreshold\<close>
  successes or opens again on an error.

  \<open>processResult\<close> and the end of the timer's sleep run under the breaker's lock and are the
  atomic steps of the relation \<open>breaker_step\<close>; \<open>Run\<close> reads the state without it. The clock is
  read up to twice, for the two calls of \<open>time.Now\<close>.
\<close>

datatype breaker_state = Closed | Open | HalfOpen

record Breaker =
  errorThreshold :: int
  successThreshold :: int
  br_timeout :: duration
  br_state :: breaker_state
  br_errors :: int
  br_successes :: int
  lastError :: time

definition breaker_New :: "int \<Rightarrow> int \<Rightarrow> duration \<Rightarrow> Breaker" where
  "breaker_New errs succs timeout =
     \<lparr>errorThreshold = errs, successThreshold = succs, br_timeout = timeout,
      br_state = Closed, br_errors = 0, br_successes = 0, lastError = 0\<rparr>"

definition changeState :: "breaker_state \<Rightarrow> Breaker \<Rightarrow> Breaker" where
  "changeState st b = b\<lparr>br_errors := 0, br_successes := 0, br_state := st\<rparr>"

text \<open>Every operation also tells how many timers it started.\<close>

definition openBreaker :: "Breaker \<Rightarrow> Breaker \<times> nat" where
  "openBreaker b = (changeState Open b, 1)"

definition closeBreaker :: "Breaker \<Rightarrow> Breaker \<times> nat" where
  "closeBreaker b = (changeState Closed b, 0)"

definition processResult :: "bool \<Rightarrow> time \<Rightarrow> time \<Rightarrow> Breaker \<Rightarrow> Breaker \<times> nat" where
  "processResult ok now1 now2 b =
     (if ok then
        (if br_state b = HalfOpen then
           let b1 = b\<lparr>br_successes := br_successes b + 1\<rparr> in
           if br_successes b1 = successThreshold b1 then closeBreaker b1 else (b1, 0)
         else (b, 0))
      else
        let b1 = (if br_errors b > 0 \<and> now1 > time_Add (lastError b) (br_timeout b) then b\<lparr>br_errors := 0\<rparr> else b) in
        (case br_state b1 of
           Closed \<Rightarrow>
             let b2 = b1\<lparr>br_errors := br_errors b1 + 1\<rparr> in
             if br_errors b2 = errorThreshold b2 then openBreaker b2 else (b2\<lparr>lastError := now2\<rparr>, 0)
         | HalfOpen \<Rightarrow> openBreaker b1
         | Open \<Rightarrow> (b1, 0)))"

definition breaker_timer :: "Breaker \<Rightarrow> Breaker" where
  "breaker_timer b = changeState HalfOpen b"

text \<open>
  \<open>doWork\<close> with the state \<open>Run\<close> has read, and \<open>Run\<close>. The work returns an error or not, or
  panics; the panic is passed on after the breaker has counted it.
\<close>

definition doWork :: "breaker_state \<Rightarrow> 'e option outcome \<Rightarrow> time \<Rightarrow> time \<Rightarrow> Breaker \<Rightarrow> 'e option outcome \<times> Breaker \<times> nat" where
  "doWork st result now1 now2 b =
     (let ok = (result = Returns None) in
      if ok \<and> st = Closed then (Returns None, b, 0) else (result, processResult ok now1 now2 b))"

datatype 'e run_result = BreakerOpen | Ran "'e option outcome"

definition breaker_Run :: "'e option outcome \<Rightarrow> time \<Rightarrow> time \<Rightarrow> Breaker \<Rightarrow> 'e run_result \<times> Breaker \<times> nat" where
  "breaker_Run result now1 now2 b =
     (if br_state b = Open then (BreakerOpen, b, 0)
      else let (r, b', timers) = doWork (br_state b) result now1 now2 b in (Ran r, b', timers))"

section \<open>The breaker under concurrent use\<close>

text \<open>
  Goroutines may have read the state long before they report their result, so any result can
  arrive in any state. The second component counts the timers that are still asleep.
\<close>

inductive breaker_step :: "Breaker \<times> nat \<Rightarrow> Breaker \<times> nat \<Rightarrow> bool" where
  result: "processResult ok now1 now2 b = (b', started) \<Longrightarrow> breaker_step (b, asleep) (b', asleep + started)"
| timer: "breaker_step (b, Suc asleep) (breaker_timer b, asleep)"

definition breaker_inv :: "Breaker \<times> nat \<Rightarrow> bool" where
  "breaker_inv s \<longleftrightarrow> (case s of (b, asleep) \<Rightarrow>
     asleep = (if br_state b = Open then 1 else 0) \<and>
     0 \<le> br_errors b \<and> br_errors b < errorThreshold b \<and>
     0 \<le> br_successes b \<and> br_successes b < successThreshold b \<and>
     (br_state b \<noteq> Closed \<longrightarrow> br_errors b = 0) \<and> (br_state b \<noteq> HalfOpen \<longrightarrow> br_successes b = 0))"

lemma breaker_step_inv: "breaker_step s t \<Longrightarrow> breaker_inv s \<Longrightarrow> breaker_inv t"
proof (induction rule: breaker_step.induct)
  case (result ok now1 now2 b b' started asleep)
  then show ?case
    by (cases "br_state b"; cases ok)
       (auto simp: processResult_def breaker_inv_def openBreaker_def closeBreaker_def changeState_def Let_def split: if_splits)
next
  case (timer b asleep)
  then show ?case by (auto simp: breaker_inv_def breaker_timer_def changeState_def split: if_splits)
qed

section \<open>Properties\<close>

text \<open>
  C37: the breaker never gets stuck. Under any interleaving of results and timers, starting from a
  new breaker with positive thresholds, exactly one timer is asleep while the breaker is open and
  none otherwise, so an open breaker always half-opens; and it opens before \<open>errorThreshold\<close> errors
  are counted and closes before \<open>successThreshold\<close> successes are.
\<close>

theorem breaker_one_timer:
  assumes "breaker_step\<^sup>*\<^sup>* (breaker_New errs succs timeout, 0) (b, asleep)" and "0 < errs" and "0 < succs"
  shows "asleep = (if br_state b = Open then 1 else 0) \<and> br_errors b < errorThreshold b \<and> br_successes b < successThreshold b"
proof -
  have "breaker_inv (breaker_New errs succs timeout, 0)" using assms(2,3) by (simp add: breaker_inv_def breaker_New_def)
  with assms(1) have "breaker_inv (b, asleep)" by (induction rule: rtranclp_induct) (auto intro: breaker_step_inv)
  then show ?thesis by (simp add: breaker_inv_def)
qed

lemma breaker_one_timer_witness:
  "br_errors (fst (openBreaker (breaker_New 1 1 Second))) < 1"
proof -
  have "processResult False 0 0 (breaker_New 1 1 Second) = ((fst (openBreaker (breaker_New 1 1 Second)))\<lparr>br_errors := 0\<rparr>, 1)"
    by (simp add: processResult_def breaker_New_def openBreaker_def changeState_def Let_def)
  from breaker_step.result [OF this, of 0]
  have "breaker_step\<^sup>*\<^sup>* (breaker_New 1 1 Second, 0) ((fst (openBreaker (breaker_New 1 1 Second)))\<lparr>br_errors := 0\<rparr>, 1)" by auto
  from breaker_one_timer [OF this] show ?thesis by (simp add: openBreaker_def changeState_def breaker_New_def)
qed

text \<open>
  When the breaker opens. A closed breaker that sees \<open>k\<close> errors in a row, each before the
  previous one has expired, is still closed for \<open>k\<close> below the threshold and open at it; while
  it is open no work is run.
\<close>

fun fail_times :: "time list \<Rightarrow> Breaker \<Rightarrow> Breaker" where
  "fail_times [] b = b"
| "fail_times (t # ts) b = fail_times ts (fst (processResult False t t b))"

lemma fail_times_closed:
  "br_state b = Closed \<Longrightarrow> 0 \<le> br_errors b \<Longrightarrow> br_errors b + int (length ts) \<le> errorThreshold b \<Longrightarrow> ts \<noteq> [] \<Longrightarrow>
   (br_errors b > 0 \<longrightarrow> hd ts \<le> time_Add (lastError b) (br_timeout b)) \<Longrightarrow>
   successively (\<lambda>s t. t \<le> time_Add s (br_timeout b)) ts \<Longrightarrow>
     br_state (fail_times ts b) = (if br_errors b + int (length ts) = errorThreshold b then Open else Closed)"
proof (induction ts arbitrary: b)
  case (Cons t ts)
  let ?b = "fst (processResult False t t b)"
  have keep: "\<not> (br_errors b > 0 \<and> t > time_Add (lastError b) (br_timeout b))" using Cons.prems(5) by auto
  show ?case
  proof (cases "ts = []")
    case True
    then show ?thesis using Cons.prems keep
      by (auto simp: processResult_def openBreaker_def changeState_def Let_def)
  next
    case False
    then have "br_errors b + 1 \<noteq> errorThreshold b" using Cons.prems(3) by (cases ts) auto
    then have b: "?b = b\<lparr>br_errors := br_errors b + 1, lastError := t\<rparr>"
      using Cons.prems(1) keep by (auto simp: processResult_def Let_def)
    have "br_state (fail_times ts ?b) = (if br_errors ?b + int (length ts) = errorThreshold ?b then Open else Closed)"
      by (rule Cons.IH) (use Cons.prems False b in \<open>auto simp: successively_Cons\<close>)
    then show ?thesis using b by simp
  qed
qed simp

theorem breaker_opens_at_threshold:
  assumes "ts \<noteq> []" and "int (length ts) \<le> errs" and "successively (\<lambda>s t. t \<le> time_Add s timeout) ts"
  shows "br_state (fail_times ts (breaker_New errs succs timeout)) = (if int (length ts) = errs then Open else Closed) \<and>
    (fst (breaker_Run result now1 now2 (fail_times ts (breaker_New errs succs timeout))) = BreakerOpen \<longleftrightarrow> int (length ts) = errs)"
  using fail_times_closed [of "breaker_New errs succs timeout" ts] assms
  by (simp add: breaker_New_def breaker_Run_def case_prod_unfold Let_def)

lemma breaker_opens_at_threshold_witness:
  "br_state (fail_times [0, 1, 2] (breaker_New 3 1 (10 * Second))) = Open"
  using breaker_opens_at_threshold [of "[0, 1, 2]" 3 "10 * Second" 1 "Returns (None :: unit option)" 0 0]
  by (simp add: time_Add_def Second_def)

end
