(* ===== verification/Sarama_Dispatch.thy ===== *)
theory Sarama_Dispatch
  imports Sarama_Client Go_Breaker
begin

text \<open>
  The way of a message to the flusher (\<open>async_producer.go\<close>): the dispatchers by topic, by
  partition and by leader, the aggregator that makes batches, the retry handler, the count of
  references to a broker's goroutines, and the synchronous producer on top (\<open>sync_producer.go\<close>).

  Every goroutine is a state and one function per message it receives, with the actions it takes
  in order. The client, which the goroutines share, is passed along where they call it.
\<close>

section \<open>topicDispatcher\<close>

datatype td_action =
    TdReturn ProducerMessage producer_error
  | TdRef
  | TdForward string ProducerMessage
  | TdClose string
  | TdShutdown
  | TdCloseClient
  | TdCloseChannels

record topic_dispatcher =
  td_handlers :: "string list"
  td_draining :: bool

definition new_topic_dispatcher :: topic_dispatcher where
  "new_topic_dispatcher = \<lparr>td_handlers = [], td_draining = False\<rparr>"

definition too_large :: "'p Config \<Rightarrow> ProducerMessage \<Rightarrow> bool" where
  "too_large conf m \<longleftrightarrow>
     (Producer_Compression conf = CompressionNone \<and>
      (case msg_Value m of None \<Rightarrow> False | Some v \<Rightarrow> enc_Length v > Producer_MaxMessageBytes conf)) \<or>
     byteSize m > Producer_MaxMessageBytes conf"

text \<open>
  A message from \<open>input\<close>, nil being \<open>None\<close>. The shutdown message ends the first loop; from then on
  messages are refused, and a nil one is dereferenced.
\<close>

definition topicDispatcher_step :: "'p Config \<Rightarrow> ProducerMessage option \<Rightarrow> topic_dispatcher \<Rightarrow> (topic_dispatcher \<times> td_action list) outcome" where
  "topicDispatcher_step conf msg s =
     (if td_draining s then
        (case msg of
           None \<Rightarrow> Panics ''runtime error: invalid memory address or nil pointer dereference''
         | Some m \<Rightarrow> Returns (s, [TdReturn m ErrShuttingDown]))
      else
        (case msg of
           None \<Rightarrow> Returns (s, [])
         | Some m \<Rightarrow>
             if msg_flags m = Shutdown then
               Returns (s\<lparr>td_draining := True, td_handlers := []\<rparr>, map TdClose (td_handlers s) @ [TdShutdown])
             else if too_large conf m then Returns (s, [TdReturn m (ProduceKError ErrMessageSizeTooLarge)])
             else if msg_Topic m \<in> set (td_handlers s) then Returns (s, [TdForward (msg_Topic m) m])
             else Returns (s\<lparr>td_handlers := td_handlers s @ [msg_Topic m]\<rparr>, [TdRef, TdForward (msg_Topic m) m])))"

text \<open>\<open>input\<close> was closed by the retry handler.\<close>

definition topicDispatcher_end :: "bool \<Rightarrow> td_action list" where
  "topicDispatcher_end ownClient = (if ownClient then [TdCloseClient] else []) @ [TdCloseChannels]"

section \<open>partitionDispatcher\<close>

text \<open>The partitions of the topic, all of them or those with a leader.\<close>

definition lookup_partitions :: "client_env \<Rightarrow> Partitioner \<Rightarrow> string \<Rightarrow> 'p Client \<Rightarrow> ((producer_error + int list) \<times> 'p Client) outcome" where
  "lookup_partitions env p topic c =
     (if RequiresConsistency p then client_Partitions env topic c else client_WritablePartitions env topic c)"

definition assignPartition :: "client_env \<Rightarrow> (int \<Rightarrow> int) \<Rightarrow> Partitioner \<Rightarrow> ProducerMessage \<Rightarrow> 'p Client
    \<Rightarrow> producer_error option outcome \<times> Partitioner \<times> ProducerMessage \<times> 'p Client" where
  "assignPartition env draw p m c =
     (case lookup_partitions env p (msg_Topic m) c of
        Returns (Inl e, c') \<Rightarrow> (Returns (Some e), p, m, c')
      | Returns (Inr parts, c') \<Rightarrow>
          (let numPartitions = wrap32 (int (length parts)) in
           if numPartitions = 0 then (Returns (Some (ProduceKError ErrLeaderNotAvailable)), p, m, c')
           else (case Partition draw p m numPartitions of
             (Returns (Inl e), p') \<Rightarrow> (Returns (Some (OtherError e)), p', m, c')
           | (Returns (Inr choice), p') \<Rightarrow>
               (if choice < 0 \<or> choice \<ge> numPartitions then (Returns (Some ErrInvalidPartition), p', m, c')
                else (Returns None, p', m\<lparr>msg_Partition := parts ! nat choice\<rparr>, c'))
           | (Panics t, p') \<Rightarrow> (Panics t, p', m, c')
           | (Exits t, p') \<Rightarrow> (Exits t, p', m, c')))
      | Panics t \<Rightarrow> (Panics t, p, m, c)
      | Exits t \<Rightarrow> (Exits t, p, m, c))"

datatype pd_action =
    PdReturn ProducerMessage producer_error
  | PdRef
  | PdForward int ProducerMessage
  | PdClose int
  | PdUnref

record partition_dispatcher =
  pd_handlers :: "int list"
  pd_partitioner :: Partitioner
  pd_breaker :: Breaker

definition new_partition_dispatcher :: "Partitioner \<Rightarrow> partition_dispatcher" where
  "new_partition_dispatcher p = \<lparr>pd_handlers = [], pd_partitioner = p, pd_breaker = breaker_New 3 1 (10 * Second)\<rparr>"

definition pd_forward :: "ProducerMessage \<Rightarrow> partition_dispatcher \<Rightarrow> partition_dispatcher \<times> pd_action list" where
  "pd_forward m s =
     (if msg_Partition m \<in> set (pd_handlers s) then (s, [PdForward (msg_Partition m) m])
      else (s\<lparr>pd_handlers := pd_handlers s @ [msg_Partition m]\<rparr>, [PdRef, PdForward (msg_Partition m) m]))"

text \<open>\<open>timer\<close>: the breaker's timer went off since the last message.\<close>

definition partitionDispatcher_step :: "client_env \<Rightarrow> (int \<Rightarrow> int) \<Rightarrow> bool \<Rightarrow> time \<Rightarrow> time \<Rightarrow> ProducerMessage \<Rightarrow> partition_dispatcher
    \<Rightarrow> 'p Client \<Rightarrow> (partition_dispatcher \<times> pd_action list \<times> 'p Client) outcome" where
  "partitionDispatcher_step env draw timer now1 now2 m s c =
     (if msg_retries m = 0 then
        let (result, p', m', c') = assignPartition env draw (pd_partitioner s) m c;
            (ran, b', timers) = breaker_Run result now1 now2 (if timer then breaker_timer (pd_breaker s) else pd_breaker s)
        in case ran of
             BreakerOpen \<Rightarrow> Returns (s\<lparr>pd_breaker := b'\<rparr>, [PdReturn m ErrBreakerOpen], c)
           | Ran r \<Rightarrow> bind_outcome r (\<lambda>err.
               let s1 = s\<lparr>pd_breaker := b', pd_partitioner := p'\<rparr> in
               case err of
                 Some e \<Rightarrow> Returns (s1, [PdReturn m' e], c')
               | None \<Rightarrow> (case pd_forward m' s1 of (s2, acts) \<Rightarrow> Returns (s2, acts, c')))
      else (case pd_forward m s of (s2, acts) \<Rightarrow> Returns (s2, acts, c)))"

definition partitionDispatcher_end :: "partition_dispatcher \<Rightarrow> pd_action list" where
  "partitionDispatcher_end s = map PdClose (pd_handlers s) @ [PdUnref]"

section \<open>leaderDispatcher\<close>

datatype ld_action =
    ToBroker nat ProducerMessage
  | LdReturn ProducerMessage producer_error
  | UnrefBroker nat nat
  | SleepBackoff
  | LdUnref

text \<open>
  The surroundings of one call of \<open>breaker.Run(doUpdate)\<close>: whether the breaker's timer went off
  before, the results of \<open>RefreshMetadata\<close> and \<open>Leader\<close> (a leader and an error: the client may
  return both), the channel \<open>getBrokerProducer\<close> gives, and the clock. \<open>doUpdate_calls\<close> is what the
  client answers; brokers are told apart by a number.
\<close>

definition doUpdate_calls :: "client_env \<Rightarrow> string \<Rightarrow> int \<Rightarrow> 'p Client
    \<Rightarrow> (producer_error option \<times> (Broker option \<times> producer_error option) \<times> 'p Client) outcome" where
  "doUpdate_calls env topic part c =
     bind_outcome (RefreshMetadata env [topic] c) (\<lambda>(err, c1).
       case err of
         Some e \<Rightarrow> Returns (Some e, (None, None), c1)
       | None \<Rightarrow> bind_outcome (client_Leader env topic part c1) (\<lambda>(leader, c2). Returns (None, leader, c2)))"

record update_env =
  up_timer :: bool
  up_refresh :: "producer_error option"
  up_leader :: "nat option \<times> producer_error option"
  up_channel :: nat
  up_now1 :: time
  up_now2 :: time

record leader_dispatcher =
  ld_leader :: "nat option"
  ld_output :: "nat option"
  ld_highWatermark :: nat
  ld_retryState :: "(ProducerMessage list \<times> bool) list"
  ld_breaker :: Breaker
  ld_calls :: nat

text \<open>Some send blocks forever when the channel is nil, and an index may be out of range.\<close>

datatype 'a goroutine = Goes 'a | Stuck | Crashes string

definition new_leader_dispatcher :: "'p Config \<Rightarrow> (nat \<times> nat) option \<Rightarrow> leader_dispatcher" where
  "new_leader_dispatcher conf prefetched =
     \<lparr>ld_leader = map_option fst prefetched, ld_output = map_option snd prefetched, ld_highWatermark = 0,
      ld_retryState = replicate (nat (Producer_Retry_Max conf + 1)) ([], False), ld_breaker = breaker_New 3 1 (10 * Second), ld_calls = 0\<rparr>"

definition run_update :: "(nat \<Rightarrow> update_env) \<Rightarrow> leader_dispatcher \<Rightarrow> producer_error option \<times> leader_dispatcher" where
  "run_update env s =
     (let u = env (ld_calls s);
          b = (if up_timer u then breaker_timer (ld_breaker s) else ld_breaker s);
          result = (case up_refresh u of Some e \<Rightarrow> Some e | None \<Rightarrow> snd (up_leader u));
          (ran, b', timers) = breaker_Run (Returns result) (up_now1 u) (up_now2 u) b;
          s1 = s\<lparr>ld_breaker := b', ld_calls := Suc (ld_calls s)\<rparr>
      in case ran of
           BreakerOpen \<Rightarrow> (Some ErrBreakerOpen, s1)
         | Ran _ \<Rightarrow>
             (case up_refresh u of
                Some e \<Rightarrow> (Some e, s1)
              | None \<Rightarrow>
                  (case up_leader u of
                     (l, Some e) \<Rightarrow> (Some e, s1\<lparr>ld_leader := l\<rparr>)
                   | (l, None) \<Rightarrow> (None, s1\<lparr>ld_leader := l, ld_output := Some (up_channel u)\<rparr>))))"

definition to_output :: "leader_dispatcher \<Rightarrow> ProducerMessage list \<Rightarrow> ld_action list" where
  "to_output s ms = map (ToBroker (case ld_output s of None \<Rightarrow> 0 | Some ch \<Rightarrow> ch)) ms"

definition ensure_output :: "(nat \<Rightarrow> update_env) \<Rightarrow> leader_dispatcher \<Rightarrow> producer_error option \<times> leader_dispatcher" where
  "ensure_output env s = (if ld_output s = None then run_update env s else (None, s))"

definition set_buf :: "nat \<Rightarrow> ProducerMessage list \<Rightarrow> leader_dispatcher \<Rightarrow> leader_dispatcher" where
  "set_buf r ms s = s\<lparr>ld_retryState := (ld_retryState s)[r := (ms, snd (ld_retryState s ! r))]\<rparr>"

definition set_expect :: "nat \<Rightarrow> bool \<Rightarrow> leader_dispatcher \<Rightarrow> leader_dispatcher" where
  "set_expect r e s = s\<lparr>ld_retryState := (ld_retryState s)[r := (fst (ld_retryState s ! r), e)]\<rparr>"

text \<open>One round of the flushing loop, at the level below the one that is done, and the loop.\<close>

definition flush_level :: "(nat \<Rightarrow> update_env) \<Rightarrow> nat \<Rightarrow> leader_dispatcher \<Rightarrow> leader_dispatcher \<times> ld_action list" where
  "flush_level env h s =
     (let backlog = fst (ld_retryState s ! h); (err, s1) = ensure_output env (s\<lparr>ld_highWatermark := h\<rparr>)
      in (set_buf h [] s1, case err of Some e \<Rightarrow> map (\<lambda>m. LdReturn m e) backlog | None \<Rightarrow> to_output s1 backlog))"

fun flush_down :: "(nat \<Rightarrow> update_env) \<Rightarrow> nat \<Rightarrow> leader_dispatcher \<Rightarrow> leader_dispatcher \<times> ld_action list" where
  "flush_down env 0 s = (s, [])"
| "flush_down env (Suc h) s =
     (let (s1, acts) = flush_level env h s in
      if snd (ld_retryState s1 ! h) \<or> h = 0 then (s1, acts)
      else let (s2, acts') = flush_down env h s1 in (s2, acts @ acts'))"

text \<open>The end of the loop body, for a message that may go on.\<close>

definition pass_on :: "(nat \<Rightarrow> update_env) \<Rightarrow> ProducerMessage \<Rightarrow> leader_dispatcher \<Rightarrow> leader_dispatcher \<times> ld_action list" where
  "pass_on env m s =
     (case ensure_output env s of
        (Some e, s1) \<Rightarrow> (s1, [LdReturn m e, SleepBackoff])
      | (None, s1) \<Rightarrow> (s1, to_output s1 [m]))"

definition chaser_message :: "ProducerMessage \<Rightarrow> ProducerMessage" where
  "chaser_message m = \<lparr>msg_Topic = msg_Topic m, msg_Key = None, msg_Value = None, msg_Offset = 0, msg_Partition = msg_Partition m,
     msg_Metadata = 0, msg_retries = msg_retries m - 1, msg_flags = Chaser\<rparr>"

definition leader_step :: "(nat \<Rightarrow> update_env) \<Rightarrow> ProducerMessage \<Rightarrow> leader_dispatcher \<Rightarrow> (leader_dispatcher \<times> ld_action list) goroutine" where
  "leader_step env m s =
     (let r = nat (msg_retries m); hw = ld_highWatermark s in
      if r > hw then
        (if r \<ge> length (ld_retryState s) then Crashes ''runtime error: index out of range''
         else case (ld_output s, ld_leader s) of
           (Some ch, Some leader) \<Rightarrow>
             (let (s1, acts) = pass_on env m ((set_expect r True s)\<lparr>ld_highWatermark := r, ld_output := None\<rparr>)
              in Goes (s1, [ToBroker ch (chaser_message m), UnrefBroker leader ch, SleepBackoff] @ acts))
         | (Some ch, None) \<Rightarrow> Crashes ''runtime error: invalid memory address or nil pointer dereference''
         | (None, _) \<Rightarrow> Stuck)
      else if hw > 0 then
        (if r < hw then
           (if msg_flags m = Chaser then Goes (set_expect r False s, [])
            else Goes (set_buf r (fst (ld_retryState s ! r) @ [m]) s, []))
         else if msg_flags m = Chaser then Goes (flush_down env hw (set_expect hw False s))
         else Goes (pass_on env m s))
      else Goes (pass_on env m s))"

fun leader_run :: "(nat \<Rightarrow> update_env) \<Rightarrow> ProducerMessage list \<Rightarrow> leader_dispatcher \<Rightarrow> (leader_dispatcher \<times> ld_action list) goroutine" where
  "leader_run env [] s = Goes (s, [])"
| "leader_run env (m # ms) s =
     (case leader_step env m s of
        Goes (s1, acts) \<Rightarrow>
          (case leader_run env ms s1 of Goes (s2, acts') \<Rightarrow> Goes (s2, acts @ acts') | Stuck \<Rightarrow> Stuck | Crashes t \<Rightarrow> Crashes t)
      | Stuck \<Rightarrow> Stuck | Crashes t \<Rightarrow> Crashes t)"

definition leaderDispatcher_end :: "leader_dispatcher \<Rightarrow> ld_action list" where
  "leaderDispatcher_end s =
     (case (ld_output s, ld_leader s) of (Some ch, Some leader) \<Rightarrow> [UnrefBroker leader ch] | _ \<Rightarrow> []) @ [LdUnref]"

section \<open>messageAggregator\<close>

record aggregator =
  ag_buffer :: "ProducerMessage list"
  ag_doFlush :: bool
  ag_bytes :: int

definition new_aggregator :: aggregator where
  "new_aggregator = \<lparr>ag_buffer = [], ag_doFlush = False, ag_bytes = 0\<rparr>"

definition defaultFlush :: "'p Config \<Rightarrow> bool" where
  "defaultFlush conf \<longleftrightarrow> Producer_Flush_Frequency conf = 0 \<and> Producer_Flush_Bytes conf = 0 \<and> Producer_Flush_Messages conf = 0"

definition must_flush :: "'p Config \<Rightarrow> ProducerMessage \<Rightarrow> aggregator \<Rightarrow> bool" where
  "must_flush conf m a \<longleftrightarrow>
     ag_bytes a + byteSize m \<ge> forceFlushThreshold \<or>
     (Producer_Compression conf \<noteq> CompressionNone \<and> ag_bytes a + byteSize m \<ge> Producer_MaxMessageBytes conf) \<or>
     (Producer_Flush_MaxMessages conf > 0 \<and> int (length (ag_buffer a)) \<ge> Producer_Flush_MaxMessages conf)"

text \<open>What its \<open>select\<close> may take: a message, a tick, or the flusher ready for the batch.\<close>

datatype ag_input = AgMessage ProducerMessage | AgTimer | AgFlusher

fun aggregator_step :: "'p Config \<Rightarrow> ag_input \<Rightarrow> aggregator \<Rightarrow> ProducerMessage list list \<times> aggregator" where
  "aggregator_step conf (AgMessage m) a =
     (let (sent, a1) = (if must_flush conf m a then ([ag_buffer a], new_aggregator) else ([], a));
          a2 = a1\<lparr>ag_buffer := ag_buffer a1 @ [m], ag_bytes := ag_bytes a1 + byteSize m\<rparr>;
          now = (defaultFlush conf \<or> msg_flags m = Chaser \<or>
            (Producer_Flush_Messages conf > 0 \<and> int (length (ag_buffer a2)) \<ge> Producer_Flush_Messages conf) \<or>
            (Producer_Flush_Bytes conf > 0 \<and> ag_bytes a2 \<ge> Producer_Flush_Bytes conf))
      in (sent, if now then a2\<lparr>ag_doFlush := True\<rparr> else a2))"
| "aggregator_step conf AgTimer a = ([], if Producer_Flush_Frequency conf > 0 then a\<lparr>ag_doFlush := True\<rparr> else a)"
| "aggregator_step conf AgFlusher a = (if ag_doFlush a then ([ag_buffer a], new_aggregator) else ([], a))"

fun aggregator_run :: "'p Config \<Rightarrow> ag_input list \<Rightarrow> aggregator \<Rightarrow> ProducerMessage list list \<times> aggregator" where
  "aggregator_run conf [] a = ([], a)"
| "aggregator_run conf (i # is) a =
     (let (sent, a1) = aggregator_step conf i a; (sent', a2) = aggregator_run conf is a1 in (sent @ sent', a2))"

text \<open>The input channel was closed: what is left is the last batch.\<close>

definition aggregator_shutdown :: "aggregator \<Rightarrow> ProducerMessage list list" where
  "aggregator_shutdown a = (if ag_buffer a \<noteq> [] then [ag_buffer a] else [])"

definition messageAggregator :: "'p Config \<Rightarrow> ag_input list \<Rightarrow> ProducerMessage list list" where
  "messageAggregator conf is = (let (sent, a) = aggregator_run conf is new_aggregator in sent @ aggregator_shutdown a)"

section \<open>retryHandler\<close>

record retry_handler =
  rt_buf :: "ProducerMessage list"
  rt_refs :: int
  rt_shuttingDown :: bool

definition new_retry_handler :: retry_handler where
  "new_retry_handler = \<lparr>rt_buf = [], rt_refs = 0, rt_shuttingDown = False\<rparr>"

text \<open>A message from \<open>retries\<close>; the second component tells that the loop is left.\<close>

definition retry_receive :: "ProducerMessage \<Rightarrow> retry_handler \<Rightarrow> retry_handler \<times> bool" where
  "retry_receive m s =
     (case msg_flags m of
        Ref \<Rightarrow> (s\<lparr>rt_refs := rt_refs s + 1\<rparr>, False)
      | Unref \<Rightarrow> (s\<lparr>rt_refs := rt_refs s - 1\<rparr>, rt_refs s - 1 = 0 \<and> rt_shuttingDown s)
      | Shutdown \<Rightarrow> (s\<lparr>rt_shuttingDown := True\<rparr>, rt_refs s = 0)
      | _ \<Rightarrow> (s\<lparr>rt_buf := rt_buf s @ [m]\<rparr>, False))"

datatype rt_input = RtReceive ProducerMessage | RtDeliver

text \<open>
  The messages it puts on \<open>input\<close>, and the state; when the loop is left, the rest of the buffer
  follows and both channels are closed (\<open>None\<close>).
\<close>

fun retryHandler :: "rt_input list \<Rightarrow> retry_handler \<Rightarrow> ProducerMessage list \<times> retry_handler option" where
  "retryHandler [] s = ([], Some s)"
| "retryHandler (RtReceive m # is) s =
     (let (s1, done) = retry_receive m s in if done then (rt_buf s1, None) else retryHandler is s1)"
| "retryHandler (RtDeliver # is) s =
     (case rt_buf s of
        [] \<Rightarrow> retryHandler is s
      | m # ms \<Rightarrow> (let (out, r) = retryHandler is (s\<lparr>rt_buf := ms\<rparr>) in (m # out, r)))"

section \<open>References to a broker's goroutines\<close>

text \<open>Brokers and channels are numbers; a channel is made with the next one.\<close>

record broker_refs =
  rf_brokers :: "nat \<Rightarrow> nat option"
  rf_refs :: "nat \<Rightarrow> int option"
  rf_next :: nat
  rf_closed :: "nat list"

definition no_refs :: broker_refs where
  "no_refs = \<lparr>rf_brokers = (\<lambda>_. None), rf_refs = (\<lambda>_. None), rf_next = 0, rf_closed = []\<rparr>"

definition rf_count :: "nat \<Rightarrow> broker_refs \<Rightarrow> int" where
  "rf_count ch s = (case rf_refs s ch of None \<Rightarrow> 0 | Some n \<Rightarrow> n)"

definition getBrokerProducer :: "nat \<Rightarrow> broker_refs \<Rightarrow> nat \<times> broker_refs" where
  "getBrokerProducer broker s =
     (let (bp, s1) = (case rf_brokers s broker of
          Some bp \<Rightarrow> (bp, s)
        | None \<Rightarrow> (rf_next s, s\<lparr>rf_brokers := (rf_brokers s)(broker := Some (rf_next s)),
            rf_refs := (rf_refs s)(rf_next s := Some 0), rf_next := Suc (rf_next s)\<rparr>))
      in (bp, s1\<lparr>rf_refs := (rf_refs s1)(bp := Some (rf_count bp s1 + 1))\<rparr>))"

definition unrefBrokerProducer :: "nat \<Rightarrow> nat \<Rightarrow> broker_refs \<Rightarrow> broker_refs" where
  "unrefBrokerProducer broker bp s =
     (let s1 = s\<lparr>rf_refs := (rf_refs s)(bp := Some (rf_count bp s - 1))\<rparr> in
      if rf_count bp s1 = 0 then
        s1\<lparr>rf_closed := rf_closed s1 @ [bp], rf_refs := (rf_refs s1)(bp := None),
          rf_brokers := (if rf_brokers s1 broker = Some bp then (rf_brokers s1)(broker := None) else rf_brokers s1)\<rparr>
      else s1)"

definition abandonBrokerConnection :: "nat \<Rightarrow> broker_refs \<Rightarrow> broker_refs" where
  "abandonBrokerConnection broker s = s\<lparr>rf_brokers := (rf_brokers s)(broker := None)\<rparr>"

section \<open>Closing the producer\<close>

text \<open>
  \<open>AsyncClose\<close> puts the shutdown message on \<open>input\<close>; \<open>Close\<close> then reads the channel \<open>errors\<close>, when
  errors are returned at all, until it is closed.
\<close>

definition AsyncClose :: ProducerMessage where
  "AsyncClose = \<lparr>msg_Topic = [], msg_Key = None, msg_Value = None, msg_Offset = 0, msg_Partition = 0,
     msg_Metadata = 0, msg_retries = 0, msg_flags = Shutdown\<rparr>"

definition asyncProducer_Close :: "'p Config \<Rightarrow> event list \<Rightarrow> (ProducerMessage \<times> producer_error option) list option" where
  "asyncProducer_Close conf events =
     (let errors = (if Producer_Return_Errors conf then List.map_filter (\<lambda>ev. case ev of Errored m e \<Rightarrow> Some (m, e) | _ \<Rightarrow> None) events else [])
      in if errors \<noteq> [] then Some errors else None)"

section \<open>sync_producer.go\<close>

definition sync_config :: "'p Config \<Rightarrow> 'p Config" where
  "sync_config conf = conf\<lparr>Producer_Return_Successes := True, Producer_Return_Errors := True\<rparr>"

text \<open>
  \<open>handleSuccesses\<close> and \<open>handleErrors\<close>: what the channel \<open>expectation\<close> of the message is sent; and
  what \<open>SendMessage\<close> returns for the message that came back.
\<close>

fun handle_answer :: "event \<Rightarrow> producer_error option option" where
  "handle_answer (Succeeded m) = Some None"
| "handle_answer (Errored m err) = Some err"
| "handle_answer (LoggedError m err) = None"
| "handle_answer (Retried m) = None"

definition SendMessage :: "event \<Rightarrow> (int \<times> int \<times> producer_error option) option" where
  "SendMessage answer =
     map_option (\<lambda>err. case err of
       Some e \<Rightarrow> (-1, -1, Some e)
     | None \<Rightarrow> (msg_Partition (event_msg answer), msg_Offset (event_msg answer), None)) (handle_answer answer)"

section \<open>The order of messages on their way to the broker\<close>

text \<open>Data messages of one retry level, and the messages that a list of actions hands on or back.\<close>

definition at_level :: "nat \<Rightarrow> ProducerMessage \<Rightarrow> bool" where
  "at_level r m \<longleftrightarrow> nat (msg_retries m) = r \<and> msg_flags m \<noteq> Chaser"

fun handed_msg :: "ld_action \<Rightarrow> ProducerMessage list" where
  "handed_msg (ToBroker _ m) = [m]"
| "handed_msg (LdReturn m _) = [m]"
| "handed_msg _ = []"

definition handed :: "ld_action list \<Rightarrow> ProducerMessage list" where
  "handed acts = concat (map handed_msg acts)"

definition backlog :: "leader_dispatcher \<Rightarrow> nat \<Rightarrow> ProducerMessage list" where
  "backlog s r = fst (ld_retryState s ! r)"

definition ld_inv :: "nat \<Rightarrow> leader_dispatcher \<Rightarrow> bool" where
  "ld_inv n s \<longleftrightarrow> length (ld_retryState s) = n \<and> ld_highWatermark s < n \<and>
     (\<forall>r < n. (\<forall>m \<in> set (backlog s r). at_level r m) \<and> (ld_highWatermark s \<le> r \<longrightarrow> backlog s r = []))"

lemma handed_simps [simp]:
  "handed [] = []" "handed (a # acts) = handed_msg a @ handed acts" "handed (acts @ acts') = handed acts @ handed acts'"
  "handed (map (\<lambda>m. LdReturn m e) ms) = ms" "handed (to_output s ms) = ms"
  by (simp_all add: handed_def to_output_def o_def)

lemma run_update_frame:
  "run_update env s = (err, s') \<Longrightarrow> ld_retryState s' = ld_retryState s \<and> ld_highWatermark s' = ld_highWatermark s"
  by (auto simp: run_update_def Let_def split: prod.splits run_result.splits option.splits sum.splits)

lemma ensure_output_frame:
  "ensure_output env s = (err, s') \<Longrightarrow> ld_retryState s' = ld_retryState s \<and> ld_highWatermark s' = ld_highWatermark s"
  by (auto simp: ensure_output_def dest: run_update_frame split: if_splits)

lemma pass_on_hands:
  assumes "pass_on env m s = (s', acts)"
  shows "handed acts = [m] \<and> ld_retryState s' = ld_retryState s \<and> ld_highWatermark s' = ld_highWatermark s"
proof (cases "ensure_output env s")
  case (Pair err s1)
  then show ?thesis using assms ensure_output_frame [OF Pair] by (cases err) (auto simp: pass_on_def)
qed

lemma flush_level_hands:
  assumes "flush_level env h s = (s', acts)"
  shows "handed acts = backlog s h \<and> ld_retryState s' = (ld_retryState s)[h := ([], snd (ld_retryState s ! h))] \<and> ld_highWatermark s' = h"
proof (cases "ensure_output env (s\<lparr>ld_highWatermark := h\<rparr>)")
  case (Pair err s1)
  then show ?thesis using assms ensure_output_frame [OF Pair]
    by (cases err) (auto simp: flush_level_def set_buf_def backlog_def Let_def)
qed

lemma filter_level:
  "\<forall>m \<in> set ms. at_level h m \<Longrightarrow> filter (at_level r) ms = (if r = h then ms else [])"
  by (auto simp: at_level_def filter_empty_conv intro!: filter_True)

lemma flush_down_hands:
  assumes "ld_inv n s" and "0 < h" and "h \<le> ld_highWatermark s" and "\<forall>r < n. h \<le> r \<longrightarrow> backlog s r = []"
    and "flush_down env h s = (s', acts)"
  shows "ld_inv n s' \<and> (\<forall>r < n. backlog s r = filter (at_level r) (handed acts) @ backlog s' r)"
  using assms
proof (induction h arbitrary: s s' acts)
  case (Suc h)
  obtain s1 acts1 where lvl: "flush_level env h s = (s1, acts1)" by (cases "flush_level env h s")
  note f = flush_level_hands [OF lvl]
  have h: "h < n" using Suc.prems(1,3) by (simp add: ld_inv_def)
  have "\<forall>m \<in> set (backlog s h). at_level h m" using Suc.prems(1) h by (simp add: ld_inv_def)
  with f have acts1: "filter (at_level r) (handed acts1) = (if r = h then backlog s h else [])" for r
    by (simp add: filter_level)
  have b1: "backlog s1 r = (if r = h then [] else backlog s r)" if "r < n" for r
    using f that h Suc.prems(1) by (simp add: backlog_def ld_inv_def)
  have inv1: "ld_inv n s1" using Suc.prems(1,4) f h b1 by (auto simp: ld_inv_def)
  have eq1: "\<forall>r < n. backlog s r = filter (at_level r) (handed acts1) @ backlog s1 r" using acts1 b1 by simp
  show ?case
  proof (cases "snd (ld_retryState s1 ! h) \<or> h = 0")
    case True
    then show ?thesis using Suc.prems(5) lvl inv1 eq1 by simp
  next
    case False
    obtain s2 acts2 where down: "flush_down env h s1 = (s2, acts2)" by (cases "flush_down env h s1")
    have "\<forall>r < n. h \<le> r \<longrightarrow> backlog s1 r = []" using b1 Suc.prems(4) by auto
    then have "ld_inv n s2 \<and> (\<forall>r < n. backlog s1 r = filter (at_level r) (handed acts2) @ backlog s2 r)"
      using Suc.IH [OF inv1 _ _ _ down] False f by simp
    then show ?thesis using Suc.prems(5) lvl down False eq1 by auto
  qed
qed simp

lemma set_expect_frame [simp]:
  "backlog (set_expect r e s) q = backlog s q" "length (ld_retryState (set_expect r e s)) = length (ld_retryState s)"
  "ld_highWatermark (set_expect r e s) = ld_highWatermark s"
proof -
  show "backlog (set_expect r e s) q = backlog s q"
    by (cases "r < length (ld_retryState s)") (simp_all add: backlog_def set_expect_def nth_list_update list_update_beyond)
qed (simp_all add: set_expect_def)

lemma chaser_not_at_level [simp]: "\<not> at_level r (chaser_message m)"
  by (simp add: at_level_def chaser_message_def)

lemma ld_inv_set_expect [simp]: "ld_inv n (set_expect r e s) \<longleftrightarrow> ld_inv n s"
  by (simp add: ld_inv_def)

lemma leader_step_order:
  assumes "ld_inv n s" and "leader_step env m s = Goes (s', acts)"
  shows "ld_inv n s' \<and> (\<forall>q < n. backlog s q @ filter (at_level q) [m] = filter (at_level q) (handed acts) @ backlog s' q)"
proof -
  let ?r = "nat (msg_retries m)" and ?hw = "ld_highWatermark s"
  consider (higher) "?r > ?hw" | (lower_chaser) "?r < ?hw" "msg_flags m = Chaser" | (lower) "?r < ?hw" "msg_flags m \<noteq> Chaser"
    | (chased) "?r = ?hw" "0 < ?hw" "msg_flags m = Chaser" | (same) "?r = ?hw" "\<not> (0 < ?hw \<and> msg_flags m = Chaser)"
    by linarith
  then show ?thesis
  proof cases
    case higher
    let ?s = "(set_expect ?r True s)\<lparr>ld_highWatermark := ?r, ld_output := None\<rparr>"
    obtain s1 acts1 where p: "pass_on env m ?s = (s1, acts1)" by (cases "pass_on env m ?s")
    then obtain ch leader where r: "?r < n" and acts: "s' = s1" "acts = [ToBroker ch (chaser_message m), UnrefBroker leader ch, SleepBackoff] @ acts1"
      using assms higher by (auto simp: leader_step_def Let_def ld_inv_def split: if_splits option.splits)
    have bl: "backlog s1 q = backlog s q" for q
      using pass_on_hands [OF p] set_expect_frame(1) [of ?r True s q] by (simp add: backlog_def)
    have "ld_inv n s1" using assms(1) pass_on_hands [OF p] bl r higher by (auto simp: ld_inv_def)
    moreover have "backlog s q = []" if "at_level q m" "q < n" for q using that higher assms(1) by (auto simp: ld_inv_def at_level_def)
    ultimately show ?thesis using acts pass_on_hands [OF p] bl by auto
  next
    case lower_chaser
    then show ?thesis using assms by (auto simp: leader_step_def Let_def at_level_def)
  next
    case lower
    then have s': "s' = set_buf ?r (backlog s ?r @ [m]) s" "acts = []"
      using assms(2) by (auto simp: leader_step_def Let_def backlog_def)
    have "?r < n" using lower assms(1) by (simp add: ld_inv_def)
    then have bl: "backlog s' q = (if q = ?r then backlog s ?r @ [m] else backlog s q)" if "q < n" for q
      using that assms(1) by (simp add: s' set_buf_def backlog_def ld_inv_def)
    have "at_level ?r m" "length (ld_retryState s') = n" "ld_highWatermark s' = ?hw"
      using lower assms(1) by (simp_all add: at_level_def s' set_buf_def ld_inv_def)
    then have "ld_inv n s'" using bl lower assms(1) by (auto simp: ld_inv_def)
    then show ?thesis using bl lower s' by (auto simp: at_level_def)
  next
    case chased
    let ?s = "set_expect ?hw False s"
    have down: "flush_down env ?hw ?s = (s', acts)" using chased assms(2) by (simp add: leader_step_def Let_def)
    have "ld_inv n ?s" "\<forall>r < n. ?hw \<le> r \<longrightarrow> backlog ?s r = []" using assms(1) by (simp, simp add: ld_inv_def)
    from flush_down_hands [OF this(1) chased(2) _ this(2) down]
    have "ld_inv n s'" "\<forall>q < n. backlog s q = filter (at_level q) (handed acts) @ backlog s' q" by simp_all
    moreover have "filter (at_level q) [m] = []" for q using chased(3) by (simp add: at_level_def)
    ultimately show ?thesis by simp
  next
    case same
    then have p: "pass_on env m s = (s', acts)" using assms(2) by (auto simp: leader_step_def Let_def split: if_splits)
    have bl: "backlog s' q = backlog s q" for q using pass_on_hands [OF p] by (simp add: backlog_def)
    have "ld_inv n s'" using assms(1) pass_on_hands [OF p] bl by (auto simp: ld_inv_def)
    moreover have "backlog s q = []" if "at_level q m" "q < n" for q using that same assms(1) by (auto simp: ld_inv_def at_level_def)
    ultimately show ?thesis using pass_on_hands [OF p] bl by auto
  qed
qed

lemma leader_run_order:
  assumes "ld_inv n s" and "leader_run env ms s = Goes (s', acts)"
  shows "ld_inv n s' \<and> (\<forall>q < n. backlog s q @ filter (at_level q) ms = filter (at_level q) (handed acts) @ backlog s' q)"
  using assms
proof (induction ms arbitrary: s acts)
  case (Cons m ms)
  from Cons.prems(2) obtain s1 acts1 acts2 where
    step: "leader_step env m s = Goes (s1, acts1)" and run: "leader_run env ms s1 = Goes (s', acts2)" and acts: "acts = acts1 @ acts2"
    by (auto split: goroutine.splits)
  note one = leader_step_order [OF Cons.prems(1) step]
  note rest = Cons.IH [OF conjunct1 [OF one] run]
  have "backlog s q @ filter (at_level q) (m # ms) = filter (at_level q) (handed acts) @ backlog s' q" if "q < n" for q
  proof -
    have "backlog s q @ filter (at_level q) (m # ms) = (backlog s q @ filter (at_level q) [m]) @ filter (at_level q) ms" by simp
    also have "\<dots> = filter (at_level q) (handed acts1) @ backlog s1 q @ filter (at_level q) ms" using one that by simp
    also have "\<dots> = filter (at_level q) (handed acts) @ backlog s' q" using rest that acts by simp
    finally show ?thesis .
  qed
  with rest show ?case by blast
qed simp

text \<open>When the dispatcher goes on: it has a broker when a new retry level begins, and the level exists.\<close>

lemma leader_step_goes:
  assumes "nat (msg_retries m) > ld_highWatermark s \<longrightarrow>
    nat (msg_retries m) < length (ld_retryState s) \<and> ld_output s \<noteq> None \<and> ld_leader s \<noteq> None"
  shows "\<exists>r. leader_step env m s = Goes r"
  using assms by (auto simp: leader_step_def Let_def split: prod.split)



section \<open>Batches\<close>

fun ag_msg :: "ag_input \<Rightarrow> ProducerMessage list" where
  "ag_msg (AgMessage m) = [m]"
| "ag_msg _ = []"

definition batch_size :: "ProducerMessage list \<Rightarrow> int" where
  "batch_size ms = sum_list (map byteSize ms)"

definition batch_ok :: "'p Config \<Rightarrow> ProducerMessage list \<Rightarrow> bool" where
  "batch_ok conf ms \<longleftrightarrow>
     (length ms \<le> 1 \<or> batch_size ms < forceFlushThreshold \<and>
        (Producer_Compression conf \<noteq> CompressionNone \<longrightarrow> batch_size ms < Producer_MaxMessageBytes conf)) \<and>
     (Producer_Flush_MaxMessages conf > 0 \<longrightarrow> int (length ms) \<le> Producer_Flush_MaxMessages conf)"

definition ag_inv :: "'p Config \<Rightarrow> aggregator \<Rightarrow> bool" where
  "ag_inv conf a \<longleftrightarrow> ag_bytes a = batch_size (ag_buffer a) \<and> batch_ok conf (ag_buffer a)"

lemma new_aggregator_inv: "ag_inv conf new_aggregator"
  by (simp add: ag_inv_def new_aggregator_def batch_ok_def batch_size_def)

lemma aggregator_step_batches:
  assumes "ag_inv conf a" and "aggregator_step conf i a = (sent, a')"
  shows "ag_inv conf a' \<and> list_all (batch_ok conf) sent \<and> ag_buffer a @ ag_msg i = concat sent @ ag_buffer a'"
proof (cases i)
  case (AgMessage m)
  show ?thesis
  proof (cases "must_flush conf m a")
    case True
    then show ?thesis using assms AgMessage
      by (auto simp: ag_inv_def new_aggregator_def batch_ok_def batch_size_def Let_def)
  next
    case False
    then have "ag_inv conf (a\<lparr>ag_buffer := ag_buffer a @ [m], ag_bytes := ag_bytes a + byteSize m\<rparr>)"
      using assms(1) by (auto simp: ag_inv_def must_flush_def batch_ok_def batch_size_def)
    with False show ?thesis using assms(2) AgMessage by (auto simp: ag_inv_def Let_def)
  qed
next
  case AgFlusher
  have "ag_buffer new_aggregator = []" by (simp add: new_aggregator_def)
  moreover have "batch_ok conf (ag_buffer a)" using assms(1) by (simp add: ag_inv_def)
  ultimately show ?thesis using assms AgFlusher new_aggregator_inv by (auto split: if_splits)
qed (use assms in \<open>auto simp: ag_inv_def split: if_splits\<close>)

lemma aggregator_run_batches:
  "ag_inv conf a \<Longrightarrow> aggregator_run conf is a = (sent, a') \<Longrightarrow>
   ag_inv conf a' \<and> list_all (batch_ok conf) sent \<and> ag_buffer a @ concat (map ag_msg is) = concat sent @ ag_buffer a'"
proof (induction "is" arbitrary: a sent)
  case (Cons i "is")
  from Cons.prems(2) obtain s1 a1 s2 where step: "aggregator_step conf i a = (s1, a1)" "aggregator_run conf is a1 = (s2, a')" "sent = s1 @ s2"
    by (auto split: prod.splits)
  note one = aggregator_step_batches [OF Cons.prems(1) step(1)]
  note rest = Cons.IH [OF conjunct1 [OF one] step(2)]
  have "ag_buffer a @ concat (map ag_msg (i # is)) = (ag_buffer a @ ag_msg i) @ concat (map ag_msg is)" by simp
  also have "\<dots> = concat s1 @ ag_buffer a1 @ concat (map ag_msg is)" using one by simp
  also have "\<dots> = concat sent @ ag_buffer a'" using rest step(3) by simp
  finally show ?case using one rest step(3) by simp
qed simp

text \<open>
  C21: batching loses and reorders nothing and respects the limits. Whatever the interleaving of
  messages, ticks and a slow or fast flusher, the batches in order are exactly the messages in
  order; and every batch has at most \<open>Flush.MaxMessages\<close> messages when that is set, and fewer
  bytes than a request may have (with compression: than a message may have) unless it is a
  single message.
\<close>

theorem aggregator_batches:
  "concat (messageAggregator conf is) = concat (map ag_msg is) \<and> list_all (batch_ok conf) (messageAggregator conf is)"
proof (cases "aggregator_run conf is new_aggregator")
  case (Pair sent a)
  from aggregator_run_batches [OF new_aggregator_inv Pair] show ?thesis
    by (simp add: messageAggregator_def Pair aggregator_shutdown_def ag_inv_def) (simp add: new_aggregator_def)
qed

section \<open>The retry handler\<close>

definition carries :: "ProducerMessage \<Rightarrow> bool" where
  "carries m \<longleftrightarrow> msg_flags m \<in> {Data, Chaser}"

fun rt_msg :: "rt_input \<Rightarrow> ProducerMessage list" where
  "rt_msg (RtReceive m) = (if carries m then [m] else [])"
| "rt_msg RtDeliver = []"

text \<open>How the references change, and whether the handler has been told to shut down.\<close>

fun ref_change :: "rt_input \<Rightarrow> int" where
  "ref_change (RtReceive m) = (case msg_flags m of Ref \<Rightarrow> 1 | Unref \<Rightarrow> -1 | _ \<Rightarrow> 0)"
| "ref_change RtDeliver = 0"

definition told :: "rt_input list \<Rightarrow> bool" where
  "told is \<longleftrightarrow> (\<exists>m. RtReceive m \<in> set is \<and> msg_flags m = Shutdown)"

lemma retry_receive_frame:
  "retry_receive m s = (s1, done) \<Longrightarrow>
   rt_buf s1 = rt_buf s @ rt_msg (RtReceive m) \<and> rt_refs s1 = rt_refs s + ref_change (RtReceive m) \<and>
   rt_shuttingDown s1 = (rt_shuttingDown s \<or> msg_flags m = Shutdown) \<and>
   (done \<longleftrightarrow> msg_flags m \<in> {Unref, Shutdown} \<and> rt_refs s1 = 0 \<and> rt_shuttingDown s1)"
  by (auto simp: retry_receive_def carries_def split: flag.splits)

definition closes_after :: "rt_input list \<Rightarrow> retry_handler \<Rightarrow> ProducerMessage list \<Rightarrow> bool" where
  "closes_after seen s out \<longleftrightarrow> out = rt_buf s @ concat (map rt_msg seen) \<and>
     rt_refs s + sum_list (map ref_change seen) = 0 \<and> (rt_shuttingDown s \<or> told seen)"

definition goes_on :: "rt_input list \<Rightarrow> retry_handler \<Rightarrow> ProducerMessage list \<Rightarrow> retry_handler \<Rightarrow> bool" where
  "goes_on is s out s' \<longleftrightarrow> out @ rt_buf s' = rt_buf s @ concat (map rt_msg is) \<and>
     rt_refs s' = rt_refs s + sum_list (map ref_change is) \<and> rt_shuttingDown s' = (rt_shuttingDown s \<or> told is)"

definition retry_spec :: "rt_input list \<Rightarrow> retry_handler \<Rightarrow> ProducerMessage list \<Rightarrow> retry_handler option \<Rightarrow> bool" where
  "retry_spec is s out r \<longleftrightarrow> (case r of Some s' \<Rightarrow> goes_on is s out s' | None \<Rightarrow> \<exists>n. closes_after (take n is) s out)"

lemma told_simps [simp]:
  "\<not> told []" "told (RtReceive m # is) \<longleftrightarrow> msg_flags m = Shutdown \<or> told is" "told (RtDeliver # is) \<longleftrightarrow> told is"
  by (auto simp: told_def)

lemma retry_spec_step:
  assumes "retry_spec is s1 out1 r" and "out = given @ out1" and "given @ rt_buf s1 = rt_buf s @ rt_msg i"
    and "rt_refs s1 = rt_refs s + ref_change i" and "rt_shuttingDown s1 \<longleftrightarrow> rt_shuttingDown s \<or> told [i]"
  shows "retry_spec (i # is) s out r"
proof (cases r)
  case None
  then obtain n where n: "closes_after (take n is) s1 out1" using assms(1) by (auto simp: retry_spec_def)
  have "told (i # take n is) \<longleftrightarrow> told [i] \<or> told (take n is)" by (cases i) simp_all
  moreover have "out = rt_buf s @ rt_msg i @ concat (map rt_msg (take n is))" using n assms(2,3) by (simp add: closes_after_def)
  ultimately have "closes_after (take (Suc n) (i # is)) s out" using n assms(4,5) by (auto simp: closes_after_def)
  then show ?thesis using None by (auto simp: retry_spec_def simp del: take_Suc_Cons)
next
  case (Some s')
  have "told (i # is) \<longleftrightarrow> told [i] \<or> told is" by (cases i) simp_all
  then show ?thesis using Some assms by (auto simp: retry_spec_def goes_on_def)
qed

lemma retryHandler_out: "retryHandler is s = (out, r) \<Longrightarrow> retry_spec is s out r"
proof (induction "is" s arbitrary: out r rule: retryHandler.induct)
  case (1 s)
  then show ?case by (auto simp: retry_spec_def goes_on_def)
next
  case (2 m "is" s)
  obtain s1 d where rec: "retry_receive m s = (s1, d)" by (cases "retry_receive m s")
  note f = retry_receive_frame [OF rec]
  show ?case
  proof (cases d)
    case True
    then have "closes_after (take 1 (RtReceive m # is)) s out" "r = None" using 2(2) rec f by (auto simp: closes_after_def)
    then show ?thesis unfolding retry_spec_def by (simp only: option.case) blast
  next
    case False
    then have "retryHandler is s1 = (out, r)" using 2(2) rec by simp
    from retry_spec_step [OF 2(1) [OF rec [symmetric] refl False this], where given = "[]"] f show ?thesis by simp
  qed
next
  case (3 "is" s)
  show ?case
  proof (cases "rt_buf s")
    case Nil
    then have "retryHandler is s = (out, r)" using 3(3) by simp
    from retry_spec_step [OF 3(1) [OF Nil this], where given = "[]"] show ?thesis by simp
  next
    case (Cons m ms)
    then obtain out' where run: "retryHandler is (s\<lparr>rt_buf := ms\<rparr>) = (out', r)" "out = m # out'" using 3(3) by (auto split: prod.splits)
    from retry_spec_step [OF 3(2) [OF Cons run(1)], where given = "[m]"] show ?thesis using Cons run(2) by simp
  qed
qed

text \<open>
  The bridge back to the start of the pipeline. The messages that the retry handler puts on the
  producer's input are those it received for retry, in that order: all of them by the time it
  closes the channels, which it does only after the shutdown request and when as many references
  were given back as taken. Until then what it has not delivered is in its buffer.
\<close>

theorem retryHandler_fifo:
  assumes "retryHandler is new_retry_handler = (out, r)"
  shows "case r of
      Some s \<Rightarrow> out @ rt_buf s = concat (map rt_msg is)
    | None \<Rightarrow> \<exists>n. out = concat (map rt_msg (take n is)) \<and> sum_list (map ref_change (take n is)) = 0 \<and> told (take n is)"
  using retryHandler_out [OF assms]
  by (cases r) (auto simp: retry_spec_def goes_on_def closes_after_def new_retry_handler_def)

lemma retryHandler_fifo_witness:
  "let a = example_message 0 (StringEncoder ''a''); stop = a\<lparr>msg_flags := Shutdown\<rparr>; out = [a] in
   \<exists>n. out = concat (map rt_msg (take n [RtReceive a, RtReceive stop])) \<and> told (take n [RtReceive a, RtReceive stop])"
proof -
  let ?a = "example_message 0 (StringEncoder ''a'')"
  have "retryHandler [RtReceive ?a, RtReceive (?a\<lparr>msg_flags := Shutdown\<rparr>)] new_retry_handler = ([?a], None)"
    by (simp add: retry_receive_def example_message_def new_retry_handler_def)
  from retryHandler_fifo [OF this] show ?thesis by (auto simp: Let_def)
qed

section \<open>The goroutines of a broker\<close>

text \<open>
  The leader dispatchers take and give back references; \<open>held\<close> is the multiset of those they hold.
  A flusher may abandon its broker at any time.
\<close>

inductive refs_step :: "broker_refs \<times> (nat \<times> nat) multiset \<Rightarrow> broker_refs \<times> (nat \<times> nat) multiset \<Rightarrow> bool" where
  take_ref: "getBrokerProducer broker s = (bp, s') \<Longrightarrow> refs_step (s, held) (s', add_mset (broker, bp) held)"
| give_back: "refs_step (s, add_mset (broker, bp) held) (unrefBrokerProducer broker bp s, held)"
| abandon: "refs_step (s, held) (abandonBrokerConnection broker s, held)"

definition holders :: "(nat \<times> nat) multiset \<Rightarrow> nat \<Rightarrow> nat" where
  "holders held bp = count (image_mset snd held) bp"

definition refs_inv :: "broker_refs \<times> (nat \<times> nat) multiset \<Rightarrow> bool" where
  "refs_inv sh \<longleftrightarrow> (case sh of (s, held) \<Rightarrow>
     (\<forall>bp. rf_refs s bp = (if holders held bp = 0 then None else Some (int (holders held bp)))) \<and>
     (\<forall>bp \<ge> rf_next s. holders held bp = 0) \<and>
     (\<forall>broker bp. rf_brokers s broker = Some bp \<longrightarrow> (broker, bp) \<in># held) \<and>
     (\<forall>broker broker' bp. (broker, bp) \<in># held \<longrightarrow> (broker', bp) \<in># held \<longrightarrow> broker = broker') \<and>
     distinct (rf_closed s) \<and> set (rf_closed s) = {bp. bp < rf_next s \<and> holders held bp = 0})"

lemma holders_simps [simp]:
  "holders {#} bp = 0" "holders (add_mset h held) bp = (if snd h = bp then 1 else 0) + holders held bp"
  by (simp_all add: holders_def)

lemma holders_0: "holders held bp = 0 \<longleftrightarrow> (\<forall>broker. (broker, bp) \<notin># held)"
  by (force simp: holders_def count_eq_zero_iff)

lemma getBrokerProducer_inv:
  assumes "refs_inv (s, held)" and "getBrokerProducer broker s = (bp, s')"
  shows "refs_inv (s', add_mset (broker, bp) held)"
proof (cases "rf_brokers s broker")
  case None
  then have s': "bp = rf_next s" "s' = s\<lparr>rf_brokers := (rf_brokers s)(broker := Some bp),
      rf_refs := (rf_refs s)(bp := Some 1), rf_next := Suc bp\<rparr>"
    using assms(2) by (auto simp: getBrokerProducer_def rf_count_def)
  have fresh: "holders held bp = 0" using assms(1) s' by (simp add: refs_inv_def)
  then have "(b, bp) \<notin># held" for b by (simp add: holders_0)
  then show ?thesis using assms(1) fresh unfolding s'(2) by (auto simp: refs_inv_def s'(1) less_Suc_eq)
next
  case (Some ch)
  then have s': "bp = ch" "s' = s\<lparr>rf_refs := (rf_refs s)(bp := Some (rf_count bp s + 1))\<rparr>"
    using assms(2) by (auto simp: getBrokerProducer_def)
  have held: "(broker, bp) \<in># held" using assms(1) Some s'(1) by (simp add: refs_inv_def)
  then have "holders held bp \<noteq> 0" by (auto simp: holders_0)
  then show ?thesis using assms(1) held unfolding s'(2) by (auto simp: refs_inv_def rf_count_def)
qed

lemma unrefBrokerProducer_inv:
  assumes "refs_inv (s, add_mset (broker, bp) held)"
  shows "refs_inv (unrefBrokerProducer broker bp s, held)"
proof -
  have "rf_refs s bp = Some (int (Suc (holders held bp)))" using assms by (simp add: refs_inv_def)
  then have c: "rf_count bp s - 1 = int (holders held bp)" by (simp add: rf_count_def)
  have "\<forall>ch \<ge> rf_next s. holders (add_mset (broker, bp) held) ch = 0" using assms unfolding refs_inv_def by blast
  then have old: "bp < rf_next s" by (rule contrapos_pp) (auto simp: not_less)
  show ?thesis
  proof (cases "holders held bp = 0")
    case True
    then have u: "unrefBrokerProducer broker bp s = s\<lparr>rf_closed := rf_closed s @ [bp], rf_refs := (rf_refs s)(bp := None),
        rf_brokers := (if rf_brokers s broker = Some bp then (rf_brokers s)(broker := None) else rf_brokers s)\<rparr>"
      using c by (simp add: unrefBrokerProducer_def rf_count_def)
    have "(b, bp) \<notin># held" for b using True by (simp add: holders_0)
    then show ?thesis using assms True old unfolding u by (auto simp: refs_inv_def split: if_splits)
  next
    case False
    then have u: "unrefBrokerProducer broker bp s = s\<lparr>rf_refs := (rf_refs s)(bp := Some (int (holders held bp)))\<rparr>"
      using c by (simp add: unrefBrokerProducer_def rf_count_def)
    obtain b where "(b, bp) \<in># held" using False by (auto simp: holders_0)
    moreover have "b = broker" using assms \<open>(b, bp) \<in># held\<close> by (auto simp: refs_inv_def)
    ultimately show ?thesis using assms False unfolding u by (auto simp: refs_inv_def)
  qed
qed

lemma refs_step_inv: "refs_step sh sh' \<Longrightarrow> refs_inv sh \<Longrightarrow> refs_inv sh'"
proof (induction rule: refs_step.induct)
  case (take_ref broker s bp s' held)
  then show ?case by (auto intro: getBrokerProducer_inv)
next
  case (give_back s broker bp held)
  then show ?case by (rule unrefBrokerProducer_inv)
next
  case (abandon s held broker)
  then show ?case by (auto simp: refs_inv_def abandonBrokerConnection_def)
qed

text \<open>
  C28: nobody sends on a closed channel. Under any sequence of references taken and given back and
  of abandoned brokers, the channel of a broker's goroutines is closed exactly when the last
  holder gives it back: no channel is closed twice, none that is held is closed, and when nothing
  is held every channel that was made is closed and the counters are gone.
\<close>

theorem broker_channels_closed_once:
  assumes "refs_step\<^sup>*\<^sup>* (no_refs, {#}) (s, held)"
  shows "distinct (rf_closed s) \<and> (\<forall>(broker, bp) \<in># held. bp \<notin> set (rf_closed s)) \<and>
    (held = {#} \<longrightarrow> set (rf_closed s) = {..< rf_next s} \<and> rf_refs s = (\<lambda>_. None) \<and> rf_brokers s = (\<lambda>_. None))"
proof -
  have "refs_inv (no_refs, {#})" by (simp add: refs_inv_def no_refs_def)
  with assms have inv: "refs_inv (s, held)" by (induction rule: rtranclp_induct) (auto intro: refs_step_inv)
  then have "bp \<notin> set (rf_closed s)" if "(broker, bp) \<in># held" for broker bp
    using that by (auto simp: refs_inv_def holders_0)
  then show ?thesis using inv by (auto simp: refs_inv_def fun_eq_iff)
qed

lemma broker_channels_closed_once_witness:
  "let s = unrefBrokerProducer 4 0 (abandonBrokerConnection 4 (snd (getBrokerProducer 4 no_refs))) in set (rf_closed s) = {..< rf_next s}"
proof -
  let ?s1 = "snd (getBrokerProducer 4 no_refs)"
  have "getBrokerProducer 4 no_refs = (0, ?s1)" by (simp add: getBrokerProducer_def no_refs_def)
  then have "refs_step\<^sup>*\<^sup>* (no_refs, {#}) (?s1, {#(4, 0)#})" by (intro r_into_rtranclp take_ref)
  then have "refs_step\<^sup>*\<^sup>* (no_refs, {#}) (abandonBrokerConnection 4 ?s1, {#(4, 0)#})" by (rule rtranclp.rtrancl_into_rtrancl) (rule abandon)
  then have "refs_step\<^sup>*\<^sup>* (no_refs, {#}) (unrefBrokerProducer 4 0 (abandonBrokerConnection 4 ?s1), {#})"
    by (rule rtranclp.rtrancl_into_rtrancl) (rule give_back)
  from broker_channels_closed_once [OF this] show ?thesis by (simp add: Let_def)
qed

section \<open>Partitions and results\<close>

text \<open>When the calls of \<open>doUpdate\<close> succeed there is a leader, and it is the one the metadata names.\<close>

lemma doUpdate_leader:
  assumes "client_ok c" and "map_walks env"
  shows "\<exists>err leader lerr c'. doUpdate_calls env topic part c = Returns (err, (leader, lerr), c') \<and> client_ok c'
    \<and> (err = None \<and> lerr = None \<longrightarrow> (\<exists>b md. leader = Some b \<and> partition_view c' topic part = Some md \<and> broker_id b = pm_Leader md))"
proof -
  obtain err c1 where r: "RefreshMetadata env [topic] c = Returns (err, c1)" "client_ok c1"
    using RefreshMetadata_ok [OF assms] by blast
  have cached: "\<exists>md. partition_view c' topic part = Some md \<and> broker_id b = pm_Leader md" if "cachedLeader topic part c' = (Some b, None)" for b and c' :: "'a Client"
    using that by (auto simp: cachedLeader_def partition_view_def broker_by_id_def find_Some_iff split: option.splits if_splits)
  show ?thesis
  proof (cases err)
    case None
    obtain leader lerr c2 where l: "client_Leader env topic part c1 = Returns ((leader, lerr), c2)" "client_ok c2"
      using client_Leader_ok [OF r(2) assms(2)] by blast
    have "\<exists>b md. leader = Some b \<and> partition_view c2 topic part = Some md \<and> broker_id b = pm_Leader md" if "lerr = None"
      using l(1) that by (cases topic part c1 rule: cachedLeader_cases)
        (auto simp: client_Leader_def bind_outcome_Returns_iff dest: cached split: option.splits)
    then show ?thesis using r l None by (auto simp: doUpdate_calls_def)
  qed (use r in \<open>simp add: doUpdate_calls_def\<close>)
qed

lemma lookup_partitions_view:
  assumes "client_ok c" and "map_walks env" and "lookup_partitions env p topic c = Returns (Inr parts, c')"
  shows "client_ok c'" and "\<forall>part \<in> set parts. partition_view c' topic part \<noteq> None"
proof -
  obtain ptype where look: "partitions_of env ptype topic c = Returns (Inr parts, c')"
    using assms(3) by (auto simp: lookup_partitions_def client_Partitions_def client_WritablePartitions_def split: if_splits)
  then show ok: "client_ok c'" using partitions_of_ok [OF assms(1,2), of ptype topic] by auto
  show "\<forall>part \<in> set parts. partition_view c' topic part \<noteq> None"
    using cachedPartitions_view(2) [OF ok partitions_of_cached [OF look]] by blast
qed

text \<open>
  A message is only sent to a partition the topic has. Whatever partitioner is configured,
  when \<open>assignPartition\<close> succeeds the partition it sets is one the client reported, which the
  client's metadata has; otherwise the message is left as it was. For a keyed message and the hash partitioner it succeeds for every
  key, except the keys with hash \<open>0x80000000\<close> when the number of partitions is not a power of two.
\<close>

theorem assignPartition_valid:
  assumes "client_ok c" and "map_walks env"
    and "lookup_partitions env p (msg_Topic m) c = Returns (Inr parts, c1)" and "length parts < 2 ^ 31"
    and "assignPartition env draw p m c = (result, p', m', c')"
  shows "(if result = Returns None then \<exists>part \<in> set parts. m' = m\<lparr>msg_Partition := part\<rparr> else m' = m) \<and>
    (\<forall>part \<in> set parts. partition_view c' (msg_Topic m) part \<noteq> None) \<and> client_ok c' \<and>
    (p = hashPartitioner \<and> msg_Key m = Some k \<and> enc_Encode k = Inr bytes \<and> parts \<noteq> [] \<longrightarrow>
      result = Returns (if fnv32a bytes = 0x80000000 \<and> 2 ^ 31 mod int (length parts) \<noteq> 0 then Some ErrInvalidPartition else None))"
proof -
  let ?n = "int (length parts)"
  have n: "wrap32 ?n = ?n" using assms(4) by (intro wrap32_id) (simp add: in_int32_def)
  have mem: "parts ! nat choice \<in> set parts" if "0 \<le> choice" "choice < ?n" for choice using that by simp
  have run: "assignPartition env draw p m c =
      (if ?n = 0 then (Returns (Some (ProduceKError ErrLeaderNotAvailable)), p, m, c1)
       else (case Partition draw p m ?n of
         (Returns (Inl e), p') \<Rightarrow> (Returns (Some (OtherError e)), p', m, c1)
       | (Returns (Inr choice), p') \<Rightarrow>
           (if choice < 0 \<or> choice \<ge> ?n then (Returns (Some ErrInvalidPartition), p', m, c1)
            else (Returns None, p', m\<lparr>msg_Partition := parts ! nat choice\<rparr>, c1))
       | (Panics t, p') \<Rightarrow> (Panics t, p', m, c1)
       | (Exits t, p') \<Rightarrow> (Exits t, p', m, c1)))"
    using assms(3) n by (simp add: assignPartition_def Let_def)
  have "c' = c1" using assms(5) run by (auto split: if_splits prod.splits outcome.splits sum.splits)
  with lookup_partitions_view [OF assms(1-3)]
  have "(\<forall>part \<in> set parts. partition_view c' (msg_Topic m) part \<noteq> None) \<and> client_ok c'" by simp
  moreover have "if result = Returns None then \<exists>part \<in> set parts. m' = m\<lparr>msg_Partition := part\<rparr> else m' = m"
    using assms(5) run mem by (auto split: if_splits prod.splits outcome.splits sum.splits)
  moreover have "result = Returns (if fnv32a bytes = 0x80000000 \<and> 2 ^ 31 mod ?n \<noteq> 0 then Some ErrInvalidPartition else None)"
    if "p = hashPartitioner" "msg_Key m = Some k" "enc_Encode k = Inr bytes" "parts \<noteq> []"
  proof -
    have "0 < ?n" using that(4) by simp
    note c = hash_choice_range [OF this, of bytes]
    show ?thesis
    proof (cases "fnv32a bytes = 0x80000000 \<and> 2 ^ 31 mod ?n \<noteq> 0")
      case True
      moreover have "0 \<le> (2 ^ 31 :: int) mod ?n" using \<open>0 < ?n\<close> by (rule pos_mod_sign)
      ultimately have "hash_choice bytes ?n < 0" using c by (simp only: simp_thms if_True) linarith
      then show ?thesis using assms(5) run that \<open>0 < ?n\<close> True by simp
    next
      case False
      then have "0 \<le> hash_choice bytes ?n" "hash_choice bytes ?n < ?n" using c \<open>0 < ?n\<close> by (auto split: if_splits)
      then show ?thesis using assms(5) run that \<open>0 < ?n\<close> False by auto
    qed
  qed
  ultimately show ?thesis by blast
qed

definition demo_client3 :: "unit Client" where
  "demo_client3 = (let ps = [(5, \<lparr>pm_Err = 0, pm_ID = 5, pm_Leader = 7, pm_Replicas = [], pm_Isr = []\<rparr>),
       (6, \<lparr>pm_Err = 0, pm_ID = 6, pm_Leader = 7, pm_Replicas = [], pm_Isr = []\<rparr>),
       (7, \<lparr>pm_Err = 0, pm_ID = 7, pm_Leader = 7, pm_Replicas = [], pm_Isr = []\<rparr>)]
     in demo_client\<lparr>cl_metadata := Some [(''t'', ps)], cl_cachedPartitionsResults := [(''t'', cache_entry ps)]\<rparr>)"

lemma assignPartition_valid_witness:
  "fst (assignPartition demo_client_env (\<lambda>_. 0) hashPartitioner (keyed ''qqk42v'') demo_client3) = Returns (Some ErrInvalidPartition)"
proof -
  obtain result p' m' c' where r: "assignPartition demo_client_env (\<lambda>_. 0) hashPartitioner (keyed ''qqk42v'') demo_client3 = (result, p', m', c')"
    by (metis surj_pair)
  have ok: "client_ok demo_client3" by code_simp
  have look: "lookup_partitions demo_client_env hashPartitioner (msg_Topic (keyed ''qqk42v'')) demo_client3 = Returns (Inr [5, 6, 7], demo_client3)"
    by (simp add: keyed_def) code_simp
  have "fnv32a ''qqk42v'' = 0x80000000" by (simp add: fnv32a_def)
  with assignPartition_valid [OF ok demo_client_facts(2) look _ r, of "StringEncoder ''qqk42v''" "''qqk42v''"]
  have "result = Returns (Some ErrInvalidPartition)" by (simp add: keyed_def StringEncoder_def)
  then show ?thesis by (simp only: r fst_conv)
qed



end
