(* ===== verification/Proto_Wire.thy ===== *)
theory Proto_Wire
  imports Prelude
begin

text \<open>
  The wire primitives of the protobuf runtime (\<open>golang/protobuf/proto\<close>, the first part of
  \<open>encode.go\<close> and of \<open>decode.go\<close>): varints, fixed-size and zigzag integers, counted bytes.

  A \<open>uint64\<close> is a \<open>64 word\<close> and a byte a character. An encoder is the bytes it appends to the
  buffer; a decoder reads from \<open>p.buf\<close> at \<open>p.index\<close> and leaves the buffer alone when it fails.
\<close>

unbundle bit_operations_syntax

section \<open>Errors and buffers\<close>

text \<open>A panic is an error of its own: nothing continues after it.\<close>

datatype proto_error =
    PErrNil
  | PErrRepeatedHasNil
  | RequiredNotSetError string
  | PErrUnexpectedEOF
  | PErrOverflow
  | BadByteLength int
  | CannotSkipWire nat
  | EndGroupForNonGroup
  | IllegalTag int nat
  | BadWiretype string nat nat
  | BadMapTag nat
  | PPanic string

record Buffer =
  bf_buf :: string
  bf_index :: nat

definition NewBuffer :: "string \<Rightarrow> Buffer" where
  "NewBuffer e = \<lparr>bf_buf = e, bf_index = 0\<rparr>"

definition uint8 :: "64 word \<Rightarrow> char" where
  "uint8 x = char_of (unat x)"

definition uint64_byte :: "char \<Rightarrow> 64 word" where
  "uint64_byte b = word_of_nat (of_char b)"

lemma unat_drop7: "unat (drop_bit 7 x) = unat x div 128"
  by (simp only: unat_drop_bit_eq) (simp add: drop_bit_eq_div)

section \<open>Encoders\<close>

function EncodeVarint :: "64 word \<Rightarrow> string" where
  "EncodeVarint x = (if x \<ge> push_bit 7 1 then uint8 (x AND 0x7F OR 0x80) # EncodeVarint (drop_bit 7 x) else [uint8 x])"
  by pat_completeness auto
termination
  by (relation "measure unat") (auto simp: unat_drop7 word_le_nat_alt)

declare EncodeVarint.simps [simp del]

text \<open>The function of the package writes to an array of ten bytes.\<close>

function EncodeVarint_array :: "nat \<Rightarrow> 64 word \<Rightarrow> string outcome" where
  "EncodeVarint_array n x =
     (if n \<ge> 10 then Panics ''runtime error: index out of range''
      else if x > 127 then bind_outcome (EncodeVarint_array (n + 1) (drop_bit 7 x)) (\<lambda>cs. Returns (uint8 (0x80 OR (x AND 0x7F)) # cs))
      else Returns [uint8 x])"
  by pat_completeness auto
termination
  by (relation "measure (\<lambda>(n, x). 10 - n)") auto

declare EncodeVarint_array.simps [simp del]

function sizeVarint :: "64 word \<Rightarrow> nat" where
  "sizeVarint x = (if drop_bit 7 x = 0 then 1 else 1 + sizeVarint (drop_bit 7 x))"
  by pat_completeness auto
termination
  by (relation "measure unat") (auto simp: unat_drop7 simp flip: unat_eq_zero)

declare sizeVarint.simps [simp del]

definition EncodeFixed64 :: "64 word \<Rightarrow> string" where
  "EncodeFixed64 x = [uint8 x, uint8 (drop_bit 8 x), uint8 (drop_bit 16 x), uint8 (drop_bit 24 x), uint8 (drop_bit 32 x),
     uint8 (drop_bit 40 x), uint8 (drop_bit 48 x), uint8 (drop_bit 56 x)]"

definition sizeFixed64 :: "64 word \<Rightarrow> nat" where "sizeFixed64 x = 8"

definition EncodeFixed32 :: "64 word \<Rightarrow> string" where
  "EncodeFixed32 x = [uint8 x, uint8 (drop_bit 8 x), uint8 (drop_bit 16 x), uint8 (drop_bit 24 x)]"

definition sizeFixed32 :: "64 word \<Rightarrow> nat" where "sizeFixed32 x = 4"

definition zigzag64 :: "64 word \<Rightarrow> 64 word" where
  "zigzag64 x = push_bit 1 x XOR signed_drop_bit 63 x"

definition EncodeZigzag64 :: "64 word \<Rightarrow> string" where
  "EncodeZigzag64 x = EncodeVarint (zigzag64 x)"

definition sizeZigzag64 :: "64 word \<Rightarrow> nat" where
  "sizeZigzag64 x = sizeVarint (zigzag64 x)"

definition zigzag32 :: "64 word \<Rightarrow> 64 word" where
  "zigzag32 x = ucast (push_bit 1 (ucast x :: 32 word) XOR signed_drop_bit 31 (ucast x :: 32 word))"

definition EncodeZigzag32 :: "64 word \<Rightarrow> string" where
  "EncodeZigzag32 x = EncodeVarint (zigzag32 x)"

definition sizeZigzag32 :: "64 word \<Rightarrow> nat" where
  "sizeZigzag32 x = sizeVarint (zigzag32 x)"

definition EncodeRawBytes :: "string \<Rightarrow> string" where
  "EncodeRawBytes b = EncodeVarint (word_of_nat (length b)) @ b"

definition sizeRawBytes :: "string \<Rightarrow> nat" where
  "sizeRawBytes b = sizeVarint (word_of_nat (length b)) + length b"

definition EncodeStringBytes :: "string \<Rightarrow> string" where
  "EncodeStringBytes s = EncodeVarint (word_of_nat (length s)) @ s"

definition sizeStringBytes :: "string \<Rightarrow> nat" where
  "sizeStringBytes s = sizeVarint (word_of_nat (length s)) + length s"

section \<open>Decoders\<close>

type_synonym 'a pdec = "Buffer \<Rightarrow> proto_error + 'a \<times> Buffer"

function DecodeVarint_loop :: "string \<Rightarrow> nat \<Rightarrow> nat \<Rightarrow> 64 word \<Rightarrow> proto_error + 64 word \<times> nat" where
  "DecodeVarint_loop b i shift x =
     (if shift < 64 then
        if i \<ge> length b then Inl PErrUnexpectedEOF
        else let x' = x OR push_bit shift (uint64_byte (b ! i) AND 0x7F) in
             if of_char (b ! i) < (0x80 :: nat) then Inr (x', i + 1) else DecodeVarint_loop b (i + 1) (shift + 7) x'
      else Inl PErrOverflow)"
  by pat_completeness auto
termination
  by (relation "measure (\<lambda>(b, i, shift, x). 64 - shift)") auto

declare DecodeVarint_loop.simps [simp del]

definition DecodeVarint :: "64 word pdec" where
  "DecodeVarint p =
     (case DecodeVarint_loop (bf_buf p) (bf_index p) 0 0 of Inl e \<Rightarrow> Inl e | Inr (x, i) \<Rightarrow> Inr (x, p\<lparr>bf_index := i\<rparr>))"

text \<open>The function of the package: the value and how many bytes it took, or zero for both.\<close>

definition DecodeVarint_slice :: "string \<Rightarrow> 64 word \<times> nat" where
  "DecodeVarint_slice b = (case DecodeVarint_loop b 0 0 0 of Inl _ \<Rightarrow> (0, 0) | Inr (x, n) \<Rightarrow> (x, n))"

definition DecodeFixed64 :: "64 word pdec" where
  "DecodeFixed64 p =
     (let i = bf_index p + 8; at = (\<lambda>k. uint64_byte (bf_buf p ! (i - k))) in
      if i > length (bf_buf p) then Inl PErrUnexpectedEOF
      else Inr (at 8 OR push_bit 8 (at 7) OR push_bit 16 (at 6) OR push_bit 24 (at 5) OR push_bit 32 (at 4)
             OR push_bit 40 (at 3) OR push_bit 48 (at 2) OR push_bit 56 (at 1), p\<lparr>bf_index := i\<rparr>))"

definition DecodeFixed32 :: "64 word pdec" where
  "DecodeFixed32 p =
     (let i = bf_index p + 4; at = (\<lambda>k. uint64_byte (bf_buf p ! (i - k))) in
      if i > length (bf_buf p) then Inl PErrUnexpectedEOF
      else Inr (at 4 OR push_bit 8 (at 3) OR push_bit 16 (at 2) OR push_bit 24 (at 1), p\<lparr>bf_index := i\<rparr>))"

definition unzigzag64 :: "64 word \<Rightarrow> 64 word" where
  "unzigzag64 x = drop_bit 1 x XOR signed_drop_bit 63 (push_bit 63 (x AND 1))"

definition DecodeZigzag64 :: "64 word pdec" where
  "DecodeZigzag64 p = (case DecodeVarint p of Inl e \<Rightarrow> Inl e | Inr (x, p') \<Rightarrow> Inr (unzigzag64 x, p'))"

definition unzigzag32 :: "64 word \<Rightarrow> 64 word" where
  "unzigzag32 x = ucast (drop_bit 1 (ucast x :: 32 word) XOR signed_drop_bit 31 (push_bit 31 (ucast (x AND 1) :: 32 word)))"

definition DecodeZigzag32 :: "64 word pdec" where
  "DecodeZigzag32 p = (case DecodeVarint p of Inl e \<Rightarrow> Inl e | Inr (x, p') \<Rightarrow> Inr (unzigzag32 x, p'))"

text \<open>
  The length is read as an \<open>int\<close>. The end of the bytes may exceed what an \<open>int\<close> holds; as no buffer
  is that long, the two tests of \<open>end\<close> are one.
\<close>

definition DecodeRawBytes :: "string pdec" where
  "DecodeRawBytes p =
     (case DecodeVarint p of
        Inl e \<Rightarrow> Inl e
      | Inr (n, p1) \<Rightarrow>
          if sint n < 0 then Inl (BadByteLength (sint n))
          else if bf_index p1 + unat n > length (bf_buf p1) then Inl PErrUnexpectedEOF
          else Inr (take (unat n) (drop (bf_index p1) (bf_buf p1)), p1\<lparr>bf_index := bf_index p1 + unat n\<rparr>))"

definition DecodeStringBytes :: "string pdec" where
  "DecodeStringBytes p = DecodeRawBytes p"

section \<open>Value encodings\<close>

text \<open>The encodings a property may have for its integers (\<open>valEnc\<close>, \<open>valDec\<close>, \<open>valSize\<close>).\<close>

datatype value_codec = Varint | Fixed32 | Fixed64 | Zigzag32 | Zigzag64

fun valEnc :: "value_codec \<Rightarrow> 64 word \<Rightarrow> string" where
  "valEnc Varint = EncodeVarint"
| "valEnc Fixed32 = EncodeFixed32"
| "valEnc Fixed64 = EncodeFixed64"
| "valEnc Zigzag32 = EncodeZigzag32"
| "valEnc Zigzag64 = EncodeZigzag64"

fun valDec :: "value_codec \<Rightarrow> 64 word pdec" where
  "valDec Varint = DecodeVarint"
| "valDec Fixed32 = DecodeFixed32"
| "valDec Fixed64 = DecodeFixed64"
| "valDec Zigzag32 = DecodeZigzag32"
| "valDec Zigzag64 = DecodeZigzag64"

fun valSize :: "value_codec \<Rightarrow> 64 word \<Rightarrow> nat" where
  "valSize Varint = sizeVarint"
| "valSize Fixed32 = sizeFixed32"
| "valSize Fixed64 = sizeFixed64"
| "valSize Zigzag32 = sizeZigzag32"
| "valSize Zigzag64 = sizeZigzag64"

section \<open>Properties\<close>

subsection \<open>Bytes\<close>

lemma and_masks: "x AND 0x7F = take_bit 7 x" "x AND 0xFF = take_bit 8 x" for x :: "64 word"
  by (simp_all add: take_bit_eq_mask mask_eq_exp_minus_1)

lemma uint64_uint8: "uint64_byte (uint8 x) = x AND 0xFF"
proof -
  have "unat x mod 256 = unat (take_bit 8 x)" by (simp add: unsigned_take_bit_eq take_bit_nat_def)
  then show ?thesis by (simp add: uint64_byte_def uint8_def and_masks)
qed

lemma of_char_uint8: "of_char (uint8 x) = unat x mod 256"
  by (simp add: uint8_def)

lemma low_seven: "x AND 0x7F OR push_bit 7 (drop_bit 7 x) = x" for x :: "64 word"
  unfolding and_masks by (rule bit_word_eqI) (auto simp: bit_simps, metis add_diff_inverse_nat)

lemma continuation_byte: "uint64_byte (uint8 (x AND 0x7F OR 0x80)) AND 0x7F = x AND 0x7F"
proof -
  have "(x AND 0x7F OR 0x80) AND 0x7F = x AND 0x7F"
    by (simp add: and.assoc bit.conj_disj_distrib2)
  then show ?thesis by (simp add: uint64_uint8 and.assoc)
qed

lemma continuation_byte_large: "\<not> of_char (uint8 (x AND 0x7F OR 0x80)) < (0x80 :: nat)"
proof -
  have "bit (unat (x AND 0x7F OR 0x80)) 7" by (simp add: bit_unsigned_iff bit_simps)
  then have "bit (of_char (uint8 (x AND 0x7F OR 0x80)) :: nat) 7"
    by (simp add: of_char_uint8 bit_take_bit_iff flip: take_bit_nat_def [of 8, simplified])
  then show ?thesis by (auto simp: bit_iff_odd)
qed

lemma take_bit_small: "unat x < 2 ^ n \<Longrightarrow> take_bit n x = x" for x :: "64 word"
  by (simp add: word_unat_eq_iff unsigned_take_bit_eq take_bit_nat_eq_self)

lemma last_byte:
  assumes "x < 128"
  shows "uint64_byte (uint8 x) AND 0x7F = x" and "of_char (uint8 x) < (0x80 :: nat)"
proof -
  have x: "unat x < 2 ^ 7" using assms by (simp add: word_less_nat_alt)
  show "uint64_byte (uint8 x) AND 0x7F = x"
    using x by (simp add: uint64_uint8 and.assoc) (simp add: and_masks take_bit_small)
  show "of_char (uint8 x) < (0x80 :: nat)" using x by (simp add: of_char_uint8)
qed

subsection \<open>Varints\<close>

lemma DecodeVarint_loop_Encode:
  assumes "shift < 64" and "unat x < 2 ^ (64 - shift)"
  shows "DecodeVarint_loop (pre @ EncodeVarint x @ post) (length pre) shift acc
    = Inr (acc OR push_bit shift x, length pre + length (EncodeVarint x))"
  using assms
proof (induction x arbitrary: pre shift acc rule: EncodeVarint.induct)
  case (1 x)
  show ?case
  proof (cases "x \<ge> push_bit 7 1")
    case True
    let ?c = "uint8 (x AND 0x7F OR 0x80)" and ?acc = "acc OR push_bit shift (x AND 0x7F)"
    have enc: "EncodeVarint x = ?c # EncodeVarint (drop_bit 7 x)" using True by (subst EncodeVarint.simps) simp
    have big: "128 \<le> unat x" using True by (simp add: word_le_nat_alt)
    have "\<not> 64 - shift \<le> 7"
    proof
      assume "64 - shift \<le> 7"
      then have "2 ^ (64 - shift) \<le> (2 :: nat) ^ 7" by (intro power_increasing) auto
      then show False using big "1.prems"(2) by simp
    qed
    then have s: "shift + 7 < 64" by simp
    then have "64 - shift = 64 - (shift + 7) + 7" by simp
    then have "(2 :: nat) ^ (64 - shift) = 2 ^ (64 - (shift + 7)) * 128" by (simp only: power_add) simp
    then have "unat (drop_bit 7 x) < 2 ^ (64 - (shift + 7))"
      using "1.prems"(2) by (simp add: unat_drop7 div_less_iff_less_mult)
    from "1.IH" [OF True s this, of "pre @ [?c]" "?acc"]
    have "DecodeVarint_loop (pre @ EncodeVarint x @ post) (length pre + 1) (shift + 7) ?acc
      = Inr (?acc OR push_bit (shift + 7) (drop_bit 7 x), length pre + length (EncodeVarint x))"
      by (simp add: enc)
    moreover have "?acc OR push_bit (shift + 7) (drop_bit 7 x) = acc OR push_bit shift x"
      using arg_cong [OF low_seven [of x], of "push_bit shift"] by (simp add: or.assoc push_bit_or ac_simps)
    moreover have "(pre @ EncodeVarint x @ post) ! length pre = ?c" by (simp add: enc)
    ultimately show ?thesis using "1.prems"(1)
      by (subst DecodeVarint_loop.simps) (simp add: Let_def continuation_byte continuation_byte_large enc)
  next
    case False
    then have "x < 128" and enc: "EncodeVarint x = [uint8 x]" by (simp_all add: EncodeVarint.simps [of x])
    then show ?thesis using "1.prems"(1) last_byte [of x]
      by (subst DecodeVarint_loop.simps) (simp add: Let_def)
  qed
qed

lemma drop7_zero: "drop_bit 7 x = 0 \<longleftrightarrow> \<not> x \<ge> push_bit 7 1" for x :: "64 word"
  by (simp add: unat_drop7 word_le_nat_alt div_eq_0_iff not_le flip: unat_eq_zero)

lemma sizeVarint_length: "sizeVarint x = length (EncodeVarint x)"
proof (induction x rule: EncodeVarint.induct)
  case (1 x)
  then show ?case by (subst sizeVarint.simps, subst EncodeVarint.simps) (auto simp: drop7_zero)
qed

lemma EncodeVarint_not_Nil [simp]: "EncodeVarint x \<noteq> []"
  by (subst EncodeVarint.simps) simp

lemma EncodeVarint_array_eq: "unat x < 2 ^ (7 * (10 - n)) \<Longrightarrow> n < 10 \<Longrightarrow> EncodeVarint_array n x = Returns (EncodeVarint x)"
proof (induction x arbitrary: n rule: EncodeVarint.induct)
  case (1 x)
  show ?case
  proof (cases "x \<ge> push_bit 7 1")
    case True
    then have big: "128 \<le> unat x" by (simp add: word_le_nat_alt)
    have n: "n \<noteq> 9" using big "1.prems"(1) by auto
    then have "10 - n = Suc (10 - Suc n)" using "1.prems"(2) by simp
    then have "7 * (10 - n) = 7 * (10 - Suc n) + 7" by simp
    then have "(2 :: nat) ^ (7 * (10 - n)) = 2 ^ (7 * (10 - Suc n)) * 128" by (simp only: power_add) simp
    then have "unat (drop_bit 7 x) < 2 ^ (7 * (10 - Suc n))"
      using "1.prems"(1) by (simp add: unat_drop7 div_less_iff_less_mult)
    with "1.IH" [OF True, of "Suc n"] n "1.prems"(2)
    have "EncodeVarint_array (Suc n) (drop_bit 7 x) = Returns (EncodeVarint (drop_bit 7 x))" by simp
    moreover have "127 < x" using big by (simp add: word_less_nat_alt)
    ultimately show ?thesis using "1.prems"(2) True
      by (subst EncodeVarint_array.simps, subst EncodeVarint.simps) (simp add: or.commute)
  next
    case False
    moreover from this have "\<not> 127 < x" by (simp add: word_le_nat_alt word_less_nat_alt)
    ultimately show ?thesis using "1.prems"(2)
      by (subst EncodeVarint_array.simps, subst EncodeVarint.simps) simp
  qed
qed

lemma EncodeVarint_length: "length (EncodeVarint x) \<le> 10"
proof -
  have "length cs \<le> 10 - n" if "EncodeVarint_array n y = Returns cs" for n y cs
    using that
    by (induction n y arbitrary: cs rule: EncodeVarint_array.induct)
      (subst (asm) (2) EncodeVarint_array.simps, fastforce simp: bind_outcome_Returns_iff split: if_splits)
  moreover have "unat x < 2 ^ (7 * (10 - 0))" using unsigned_less [of x, where ?'a = nat] by simp
  ultimately show ?thesis using EncodeVarint_array_eq [of x 0] by fastforce
qed

subsection \<open>What a decoder reads\<close>

text \<open>\<open>decodes_as dec bs v\<close>: wherever \<open>bs\<close> stands in the buffer, \<open>dec\<close> reads it, and the value is \<open>v\<close>.\<close>

definition decodes_as :: "'a pdec \<Rightarrow> string \<Rightarrow> 'a \<Rightarrow> bool" where
  "decodes_as dec bs v \<longleftrightarrow>
     (\<forall>pre post. dec \<lparr>bf_buf = pre @ bs @ post, bf_index = length pre\<rparr>
       = Inr (v, \<lparr>bf_buf = pre @ bs @ post, bf_index = length pre + length bs\<rparr>))"

lemma parsesD: "decodes_as dec bs v \<Longrightarrow>
    dec \<lparr>bf_buf = pre @ bs @ post, bf_index = length pre\<rparr> = Inr (v, \<lparr>bf_buf = pre @ bs @ post, bf_index = length pre + length bs\<rparr>)"
  by (simp add: decodes_as_def)

text \<open>A decoder that succeeds has read something and not passed the end.\<close>

definition advances :: "'a pdec \<Rightarrow> bool" where
  "advances dec \<longleftrightarrow>
     (\<forall>p v p'. dec p = Inr (v, p') \<longrightarrow> bf_buf p' = bf_buf p \<and> bf_index p < bf_index p' \<and> bf_index p' \<le> length (bf_buf p))"

lemma advancesD: "advances dec \<Longrightarrow> dec p = Inr (v, p') \<Longrightarrow>
    bf_buf p' = bf_buf p \<and> bf_index p < bf_index p' \<and> bf_index p' \<le> length (bf_buf p)"
  by (simp add: advances_def)

lemma DecodeVarint_loop_bounds: "DecodeVarint_loop b i shift x = Inr (v, j) \<Longrightarrow> i < j \<and> j \<le> length b"
proof (induction b i shift x rule: DecodeVarint_loop.induct)
  case (1 b i shift x)
  from "1.prems" show ?case
    by (subst (asm) DecodeVarint_loop.simps) (auto simp: Let_def split: if_splits dest!: "1.IH" [OF _ _ refl])
qed

lemma parses_varint: "decodes_as DecodeVarint (EncodeVarint x) x"
proof -
  have "unat x < 2 ^ (64 - 0)" using unsigned_less [of x, where ?'a = nat] by simp
  from DecodeVarint_loop_Encode [OF _ this] show ?thesis by (simp add: decodes_as_def DecodeVarint_def)
qed

lemma advances_varint: "advances DecodeVarint"
  by (auto simp: advances_def DecodeVarint_def split: sum.splits dest!: DecodeVarint_loop_bounds)

lemma glue_bytes: "take_bit n x OR push_bit n (take_bit 8 (drop_bit n x)) = take_bit (n + 8) x" for x :: "64 word"
proof (rule bit_word_eqI)
  fix k
  show "bit (take_bit n x OR push_bit n (take_bit 8 (drop_bit n x))) k = bit (take_bit (n + 8) x) k" if "k < LENGTH(64)"
    using that by (cases "k < n") (auto simp: bit_simps)
qed

lemmas glues = glue_bytes [of 8, simplified] glue_bytes [of 16, simplified] glue_bytes [of 24, simplified] glue_bytes [of 32, simplified]
  glue_bytes [of 40, simplified] glue_bytes [of 48, simplified] glue_bytes [of 56, simplified]

lemma take_bit_64: "take_bit 64 x = x" for x :: "64 word"
  using unsigned_less [of x, where ?'a = nat] by (intro take_bit_small) simp

lemma parses_fixed32: "decodes_as DecodeFixed32 (EncodeFixed32 x) (take_bit 32 x)"
  by (simp add: decodes_as_def DecodeFixed32_def EncodeFixed32_def Let_def nth_append uint64_uint8 and_masks)
    (simp add: glues flip: or.assoc)

lemma parses_fixed64: "decodes_as DecodeFixed64 (EncodeFixed64 x) x"
  by (simp add: decodes_as_def DecodeFixed64_def EncodeFixed64_def Let_def nth_append uint64_uint8 and_masks)
    (simp add: glues take_bit_64 flip: or.assoc)

lemma advances_fixed: "advances DecodeFixed32" "advances DecodeFixed64"
  by (auto simp: advances_def DecodeFixed32_def DecodeFixed64_def Let_def split: if_splits)

subsection \<open>Zigzag\<close>

lemma sign_fill64: "signed_drop_bit 63 x = (if bit x 63 then - 1 else 0)" for x :: "64 word"
proof (rule bit_word_eqI)
  show "bit (signed_drop_bit 63 x) n = bit (if bit x 63 then - 1 else 0 :: 64 word) n" if "n < LENGTH(64)" for n
    using that by (cases n) (auto simp: bit_simps)
qed

lemma sign_fill32: "signed_drop_bit 31 x = (if bit x 31 then - 1 else 0)" for x :: "32 word"
proof (rule bit_word_eqI)
  show "bit (signed_drop_bit 31 x) n = bit (if bit x 31 then - 1 else 0 :: 32 word) n" if "n < LENGTH(32)" for n
    using that by (cases n) (auto simp: bit_simps)
qed

lemma bit_twice64: "bit (x * 2) n \<longleftrightarrow> n < 64 \<and> 0 < n \<and> bit x (n - 1)" for x :: "64 word"
  using bit_push_bit_iff [of 1 x n] by (auto simp: push_bit_eq_mult bit_imp_le_length)

lemma bit_twice32: "bit (x * 2) n \<longleftrightarrow> n < 32 \<and> 0 < n \<and> bit x (n - 1)" for x :: "32 word"
  using bit_push_bit_iff [of 1 x n] by (auto simp: push_bit_eq_mult bit_imp_le_length)

lemma unzigzag64_zigzag64: "unzigzag64 (zigzag64 x) = x"
proof (rule bit_word_eqI)
  show "bit (unzigzag64 (zigzag64 x)) n = bit x n" if "n < LENGTH(64)" for n
    using that by (cases "n = 63") (auto simp: unzigzag64_def zigzag64_def sign_fill64 bit_simps bit_twice64)
qed

lemma unzigzag32_zigzag32: "unzigzag32 (zigzag32 x) = take_bit 32 x"
proof (rule bit_word_eqI)
  show "bit (unzigzag32 (zigzag32 x)) n = bit (take_bit 32 x) n" if "n < LENGTH(64)" for n
    using that by (cases "n = 31") (auto simp: unzigzag32_def zigzag32_def sign_fill32 bit_simps bit_twice32)
qed

subsection \<open>Value encodings and counted bytes\<close>

text \<open>What is left of an integer after a round trip: the 32-bit encodings drop the upper half.\<close>

definition kept :: "value_codec \<Rightarrow> 64 word \<Rightarrow> 64 word" where
  "kept c u = (if c = Fixed32 \<or> c = Zigzag32 then take_bit 32 u else u)"

lemma parses_map:
  "decodes_as dec bs v \<Longrightarrow> decodes_as (\<lambda>p. case dec p of Inl e \<Rightarrow> Inl e | Inr (x, p') \<Rightarrow> Inr (f x, p')) bs (f v)"
  by (simp add: decodes_as_def)

lemma advances_map: "advances dec \<Longrightarrow> advances (\<lambda>p. case dec p of Inl e \<Rightarrow> Inl e | Inr (x, p') \<Rightarrow> Inr (f x, p'))"
  by (auto simp: advances_def split: sum.splits)

lemma parses_val: "decodes_as (valDec c) (valEnc c u) (kept c u)"
proof (cases c)
  case Zigzag32
  have "decodes_as DecodeZigzag32 (EncodeVarint (zigzag32 u)) (unzigzag32 (zigzag32 u))"
    unfolding DecodeZigzag32_def by (rule parses_map [OF parses_varint])
  then show ?thesis using Zigzag32 by (simp add: EncodeZigzag32_def unzigzag32_zigzag32 kept_def)
next
  case Zigzag64
  have "decodes_as DecodeZigzag64 (EncodeVarint (zigzag64 u)) (unzigzag64 (zigzag64 u))"
    unfolding DecodeZigzag64_def by (rule parses_map [OF parses_varint])
  then show ?thesis using Zigzag64 by (simp add: EncodeZigzag64_def unzigzag64_zigzag64 kept_def)
qed (simp_all add: kept_def parses_varint parses_fixed32 parses_fixed64)

lemma advances_val: "advances (valDec c)"
  using advances_map [OF advances_varint, of unzigzag32] advances_map [OF advances_varint, of unzigzag64]
  by (cases c) (auto simp: advances_varint advances_fixed DecodeZigzag32_def [abs_def] DecodeZigzag64_def [abs_def])

lemma valSize_length: "valSize c u = length (valEnc c u)"
  by (cases c) (simp_all add: sizeVarint_length sizeFixed32_def sizeFixed64_def EncodeFixed32_def EncodeFixed64_def
      sizeZigzag32_def EncodeZigzag32_def sizeZigzag64_def EncodeZigzag64_def)

lemma valEnc_not_Nil [simp]: "valEnc c u \<noteq> []"
  by (cases c) (simp_all add: EncodeFixed32_def EncodeFixed64_def EncodeZigzag32_def EncodeZigzag64_def)

lemma sint_length: "n < 2 ^ 63 \<Longrightarrow> sint (word_of_nat n :: 64 word) = int n" "n < 2 ^ 63 \<Longrightarrow> unat (word_of_nat n :: 64 word) = n"
  by (simp_all add: signed_of_nat signed_take_bit_int_eq_self_iff unsigned_of_nat take_bit_nat_eq_self_iff)

lemma parses_raw: "length b < 2 ^ 63 \<Longrightarrow> decodes_as DecodeRawBytes (EncodeRawBytes b) b"
  unfolding decodes_as_def DecodeRawBytes_def EncodeRawBytes_def
  using parsesD [OF parses_varint, of _ "word_of_nat (length b)"]
  by (simp add: sint_length)

lemma parses_string: "length b < 2 ^ 63 \<Longrightarrow> decodes_as DecodeStringBytes (EncodeStringBytes b) b"
  using parses_raw by (simp add: DecodeStringBytes_def [abs_def] EncodeStringBytes_def EncodeRawBytes_def)

lemma DecodeRawBytes_bounds:
  "DecodeRawBytes p = Inr (v, p') \<Longrightarrow>
     bf_buf p' = bf_buf p \<and> bf_index p + length v < bf_index p' \<and> bf_index p' \<le> length (bf_buf p)"
  by (auto simp: DecodeRawBytes_def split: sum.splits if_splits dest!: advancesD [OF advances_varint])

lemma advances_raw: "advances DecodeRawBytes" "advances DecodeStringBytes"
  by (auto simp: advances_def DecodeStringBytes_def dest!: DecodeRawBytes_bounds)

lemma raw_sizes: "sizeRawBytes b = length (EncodeRawBytes b)" "sizeStringBytes b = length (EncodeStringBytes b)"
  by (simp_all add: sizeRawBytes_def EncodeRawBytes_def sizeStringBytes_def EncodeStringBytes_def sizeVarint_length)

end
