(* ===== verification/Proto_Props.thy ===== *)
theory Proto_Props
  imports Proto_Wire Redigo_Reply "HOL-Library.AList"
begin

text \<open>
  The properties of the fields of a message (\<open>golang/protobuf/proto/properties.go\<close>): how the
  struct tag of a field is parsed, which encoder and decoder a field gets from its Go type, and the
  table of the fields of a struct.

  A Go type is a value of \<open>gotype\<close>, a struct type is the list of its fields, and a pointer to a struct
  names its type: message types may refer to themselves. Types that marshal themselves and
  extendable messages are left out; the printed warnings too.
\<close>

section \<open>Wire types\<close>

definition WireVarint :: nat where "WireVarint = 0"
definition WireFixed64 :: nat where "WireFixed64 = 1"
definition WireBytes :: nat where "WireBytes = 2"
definition WireStartGroup :: nat where "WireStartGroup = 3"
definition WireEndGroup :: nat where "WireEndGroup = 4"
definition WireFixed32 :: nat where "WireFixed32 = 5"

lemmas wire_defs = WireVarint_def WireFixed64_def WireBytes_def WireStartGroup_def WireEndGroup_def WireFixed32_def

section \<open>tagMap\<close>

record tagMap =
  fastTags :: "int list"
  slowTags :: "(int \<times> int) list"

definition tagMapFastLimit :: int where "tagMapFastLimit = 1024"

definition no_tags :: tagMap where "no_tags = \<lparr>fastTags = [], slowTags = []\<rparr>"

definition tagMap_get :: "tagMap \<Rightarrow> int \<Rightarrow> int option" where
  "tagMap_get p t =
     (if t > 0 \<and> t < tagMapFastLimit then
        if t \<ge> int (length (fastTags p)) then None
        else let fi = fastTags p ! nat t in if fi \<ge> 0 then Some fi else None
      else map_of (slowTags p) t)"

definition tagMap_put :: "int \<Rightarrow> int \<Rightarrow> tagMap \<Rightarrow> tagMap" where
  "tagMap_put t fi p =
     (if t > 0 \<and> t < tagMapFastLimit then
        p\<lparr>fastTags := (fastTags p @ replicate (nat (t + 1) - length (fastTags p)) (- 1))[nat t := fi]\<rparr>
      else p\<lparr>slowTags := (t, fi) # slowTags p\<rparr>)"

section \<open>Types and properties\<close>

datatype gotype =
    TBool | TInt32 | TUint32 | TInt64 | TUint64 | TFloat32 | TFloat64 | TString | TUint8 | TOther
  | TStruct string | TPtr gotype | TSlice gotype | TMap gotype gotype

text \<open>Which of the functions \<open>enc_\<dots>\<close>, \<open>dec_\<dots>\<close> and \<open>size_\<dots>\<close> a field uses; the flag is \<open>packed\<close> or \<open>proto3\<close>.\<close>

datatype codec =
    NoCodec
  | Proto3_bool | Proto3_int32 | Proto3_uint32 | Proto3_int64 | Proto3_string
  | Ptr_bool | Ptr_int32 | Ptr_uint32 | Ptr_int64 | Ptr_string
  | Struct_message string | Struct_group string
  | Slice_bool bool | Slice_int32 bool | Slice_uint32 bool | Slice_int64 bool
  | Slice_byte bool | Slice_string | Slice_slice_byte
  | Slice_struct_message string | Slice_struct_group string
  | New_map

record 'm Properties =
  p_Name :: string
  p_OrigName :: string
  p_Wire :: string
  p_WireType :: nat
  p_Tag :: int
  p_Required :: bool
  p_Optional :: bool
  p_Repeated :: bool
  p_Packed :: bool
  p_Enum :: string
  p_proto3 :: bool
  p_Default :: string
  p_HasDefault :: bool
  p_val :: "value_codec option"
  p_codec :: codec
  p_tagcode :: string
  p_mprops :: 'm

text \<open>The properties of the keys and the values of a map, and of a field.\<close>

type_synonym entry_props = "unit Properties"
type_synonym props = "(entry_props \<times> entry_props) option Properties"

definition zero_props :: "'m \<Rightarrow> 'm Properties" where
  "zero_props m = \<lparr>p_Name = [], p_OrigName = [], p_Wire = [], p_WireType = 0, p_Tag = 0, p_Required = False, p_Optional = False,
     p_Repeated = False, p_Packed = False, p_Enum = [], p_proto3 = False, p_Default = [], p_HasDefault = False, p_val = None,
     p_codec = NoCodec, p_tagcode = [], p_mprops = m\<rparr>"

section \<open>Parse\<close>

fun Join :: "string list \<Rightarrow> string \<Rightarrow> string" where
  "Join [] sep = []"
| "Join [s] sep = s"
| "Join (s # ss) sep = s @ sep @ Join ss sep"

definition parse_wire :: "string \<Rightarrow> (nat \<times> value_codec option) option" where
  "parse_wire w =
     (if w = ''varint'' then Some (WireVarint, Some Varint)
      else if w = ''fixed32'' then Some (WireFixed32, Some Fixed32)
      else if w = ''fixed64'' then Some (WireFixed64, Some Fixed64)
      else if w = ''zigzag32'' then Some (WireVarint, Some Zigzag32)
      else if w = ''zigzag64'' then Some (WireVarint, Some Zigzag64)
      else if w = ''bytes'' \<or> w = ''group'' then Some (WireBytes, None)
      else None)"

text \<open>
  One field of the tag; \<open>rest\<close> are the fields after it. The \<open>break\<close> of the source leaves the switch,
  not the loop: the fields of a default value with commas are parsed as well.
\<close>

definition parse_opt :: "string \<Rightarrow> string list \<Rightarrow> 'm Properties \<Rightarrow> 'm Properties" where
  "parse_opt f rest p =
     (if f = ''req'' then p\<lparr>p_Required := True\<rparr>
      else if f = ''opt'' then p\<lparr>p_Optional := True\<rparr>
      else if f = ''rep'' then p\<lparr>p_Repeated := True\<rparr>
      else if f = ''packed'' then p\<lparr>p_Packed := True\<rparr>
      else if prefix ''name='' f then p\<lparr>p_OrigName := drop 5 f\<rparr>
      else if prefix ''enum='' f then p\<lparr>p_Enum := drop 5 f\<rparr>
      else if f = ''proto3'' then p\<lparr>p_proto3 := True\<rparr>
      else if prefix ''def='' f then
        p\<lparr>p_HasDefault := True, p_Default := drop 4 f @ (if rest \<noteq> [] then '','' @ Join rest '','' else [])\<rparr>
      else p)"

fun parse_opts :: "string list \<Rightarrow> 'm Properties \<Rightarrow> 'm Properties" where
  "parse_opts [] p = p"
| "parse_opts (f # fs) p = parse_opts fs (parse_opt f fs p)"

definition Properties_Parse :: "string \<Rightarrow> 'm Properties \<Rightarrow> 'm Properties" where
  "Properties_Parse s p =
     (case Split s '','' of
        wire # tag # opts \<Rightarrow>
          (let p1 = p\<lparr>p_Wire := wire\<rparr> in
           case parse_wire wire of
             None \<Rightarrow> p1
           | Some (wt, vc) \<Rightarrow>
               (case ParseInt tag of
                  (t, None) \<Rightarrow> parse_opts opts (p1\<lparr>p_WireType := wt, p_val := vc, p_Tag := t\<rparr>)
                | (t, Some _) \<Rightarrow> p1\<lparr>p_WireType := wt, p_val := vc, p_Tag := t\<rparr>))
      | _ \<Rightarrow> p)"

definition Properties_String :: "'m Properties \<Rightarrow> string" where
  "Properties_String p =
     '','' @ FormatInt (p_Tag p)
     @ (if p_Required p then '',req'' else [])
     @ (if p_Optional p then '',opt'' else [])
     @ (if p_Repeated p then '',rep'' else [])
     @ (if p_Packed p then '',packed'' else [])
     @ (if p_OrigName p \<noteq> p_Name p then '',name='' @ p_OrigName p else [])
     @ (if p_proto3 p then '',proto3'' else [])
     @ (if p_Enum p \<noteq> [] then '',enum='' @ p_Enum p else [])
     @ (if p_HasDefault p then '',def='' @ p_Default p else [])"

section \<open>setEncAndDec\<close>

fun codec_ptr :: "string \<Rightarrow> gotype \<Rightarrow> codec" where
  "codec_ptr wire TBool = Ptr_bool"
| "codec_ptr wire TInt32 = Ptr_int32"
| "codec_ptr wire TUint32 = Ptr_uint32"
| "codec_ptr wire TInt64 = Ptr_int64"
| "codec_ptr wire TUint64 = Ptr_int64"
| "codec_ptr wire TFloat32 = Ptr_uint32"
| "codec_ptr wire TFloat64 = Ptr_int64"
| "codec_ptr wire TString = Ptr_string"
| "codec_ptr wire (TStruct name) = (if wire = ''bytes'' then Struct_message name else Struct_group name)"
| "codec_ptr wire _ = NoCodec"

fun codec_slice :: "string \<Rightarrow> bool \<Rightarrow> bool \<Rightarrow> gotype \<Rightarrow> codec" where
  "codec_slice wire packed proto3 TBool = Slice_bool packed"
| "codec_slice wire packed proto3 TInt32 = Slice_int32 packed"
| "codec_slice wire packed proto3 TUint32 = Slice_uint32 packed"
| "codec_slice wire packed proto3 TInt64 = Slice_int64 packed"
| "codec_slice wire packed proto3 TUint64 = Slice_int64 packed"
| "codec_slice wire packed proto3 TUint8 = Slice_byte proto3"
| "codec_slice wire packed proto3 TFloat32 = Slice_uint32 packed"
| "codec_slice wire packed proto3 TFloat64 = Slice_int64 packed"
| "codec_slice wire packed proto3 TString = Slice_string"
| "codec_slice wire packed proto3 (TPtr (TStruct name)) = (if wire = ''bytes'' then Slice_struct_message name else Slice_struct_group name)"
| "codec_slice wire packed proto3 (TSlice TUint8) = Slice_slice_byte"
| "codec_slice wire packed proto3 _ = NoCodec"

fun codec_of :: "string \<Rightarrow> bool \<Rightarrow> bool \<Rightarrow> gotype \<Rightarrow> codec" where
  "codec_of wire packed proto3 TBool = Proto3_bool"
| "codec_of wire packed proto3 TInt32 = Proto3_int32"
| "codec_of wire packed proto3 TUint32 = Proto3_uint32"
| "codec_of wire packed proto3 TInt64 = Proto3_int64"
| "codec_of wire packed proto3 TUint64 = Proto3_int64"
| "codec_of wire packed proto3 TFloat32 = Proto3_uint32"
| "codec_of wire packed proto3 TFloat64 = Proto3_int64"
| "codec_of wire packed proto3 TString = Proto3_string"
| "codec_of wire packed proto3 (TPtr t) = codec_ptr wire t"
| "codec_of wire packed proto3 (TSlice t) = codec_slice wire packed proto3 t"
| "codec_of wire packed proto3 (TMap k v) = New_map"
| "codec_of wire packed proto3 _ = NoCodec"

text \<open>The encoding of the tag and the wire type, as a \<open>uint32\<close>.\<close>

lemma unat_drop7_32: "unat (drop_bit 7 x) = unat x div 128" for x :: "32 word"
  by (simp only: unat_drop_bit_eq) (simp add: drop_bit_eq_div)

function tagcode_loop :: "32 word \<Rightarrow> string" where
  "tagcode_loop x = (if x > 127 then char_of (unat (0x80 OR (x AND 0x7F))) # tagcode_loop (drop_bit 7 x) else [char_of (unat x)])"
  by pat_completeness auto
termination
  by (relation "measure unat") (auto simp: unat_drop7_32 word_less_nat_alt)

declare tagcode_loop.simps [simp del]

definition tagcode :: "int \<Rightarrow> nat \<Rightarrow> string" where
  "tagcode tag wire = tagcode_loop (push_bit 3 (word_of_int tag) OR word_of_nat wire)"

definition set_codec :: "gotype \<Rightarrow> 'm Properties \<Rightarrow> 'm Properties" where
  "set_codec t p =
     p\<lparr>p_codec := codec_of (p_Wire p) (p_Packed p) (p_proto3 p) t,
       p_tagcode := tagcode (p_Tag p) (if p_Packed p then WireBytes else p_WireType p)\<rparr>"

record go_field =
  f_Name :: string
  f_Type :: gotype
  f_protobuf :: string
  f_protobuf_key :: string
  f_protobuf_val :: string

definition init_props :: "'m \<Rightarrow> gotype \<Rightarrow> string \<Rightarrow> string \<Rightarrow> 'm Properties" where
  "init_props m t name tag =
     (let p = (zero_props m)\<lparr>p_Name := name, p_OrigName := name\<rparr> in
      if tag = [] then p else set_codec t (Properties_Parse tag p))"

fun map_value_type :: "gotype \<Rightarrow> gotype" where
  "map_value_type (TPtr t) = TPtr t"
| "map_value_type (TSlice t) = TSlice t"
| "map_value_type t = TPtr t"

definition Properties_init :: "go_field \<Rightarrow> props" where
  "Properties_init f =
     init_props
       (case f_Type f of
          TMap k v \<Rightarrow> Some (init_props () (TPtr k) ''Key'' (f_protobuf_key f), init_props () (map_value_type v) ''Value'' (f_protobuf_val f))
        | _ \<Rightarrow> None)
       (f_Type f) (f_Name f) (f_protobuf f)"

section \<open>GetProperties\<close>

record StructProperties =
  sp_Prop :: "props list"
  sp_reqCount :: nat
  sp_decoderTags :: tagMap
  sp_decoderOrigNames :: "(string \<times> nat) list"
  sp_order :: "nat list"
  sp_unrecognized :: bool

definition internal :: "'m Properties \<Rightarrow> bool" where
  "internal p \<longleftrightarrow> prefix ''XXX_'' (p_Name p)"

text \<open>\<open>sort.Sort\<close> of the field numbers by tag; fields with the same tag may come in any order.\<close>

definition field_order :: "props list \<Rightarrow> nat list" where
  "field_order ps = sort_key (\<lambda>i. p_Tag (ps ! i)) [0 ..< length ps]"

definition GetProperties :: "go_field list \<Rightarrow> StructProperties" where
  "GetProperties fs =
     (let ps = map Properties_init fs; visible = filter (\<lambda>(i, p). \<not> internal p) (enumerate 0 ps) in
      \<lparr>sp_Prop = ps, sp_reqCount = length (filter (\<lambda>(i, p). p_Required p) visible),
       sp_decoderTags = fold (\<lambda>(i, p). tagMap_put (p_Tag p) (int i)) visible no_tags,
       sp_decoderOrigNames = fold (\<lambda>(i, p). AList.update (p_OrigName p) i) visible [],
       sp_order = field_order ps,
       sp_unrecognized = (\<exists>f \<in> set fs. f_Name f = ''XXX_unrecognized'')\<rparr>)"

section \<open>Defaults with commas\<close>

lemma parse_opt_required: "p_Required p \<Longrightarrow> p_Required (parse_opt f fs p)"
  by (simp add: parse_opt_def)

lemma parse_opts_required: "p_Required p \<Longrightarrow> p_Required (parse_opts fs p)"
  by (induction fs arbitrary: p) (simp_all add: parse_opt_required)

text \<open>A default value that continues with \<open>,req\<close> makes its field required.\<close>

lemma default_parsed_as_options:
  "p_Required (parse_opts ((''def='' @ s) # ''req'' # fs) p)" "p_Packed (parse_opts [''def='' @ s, ''packed''] p)"
proof -
  show "p_Required (parse_opts ((''def='' @ s) # ''req'' # fs) p)" by (simp add: parse_opts_required parse_opt_def)
  show "p_Packed (parse_opts [''def='' @ s, ''packed''] p)" by (simp add: parse_opt_def)
qed

section \<open>A table of tags\<close>

text \<open>What \<open>GetProperties\<close> and \<open>unmarshalType\<close> rely on in the table: it is a map.\<close>

locale tag_table =
  fixes empty :: 'm and get :: "'m \<Rightarrow> int \<Rightarrow> int option" and put :: "int \<Rightarrow> int \<Rightarrow> 'm \<Rightarrow> 'm"
  assumes get_empty: "get empty t = None"
    and get_put: "0 \<le> fi \<Longrightarrow> get (put t fi m) t' = (if t' = t then Some fi else get m t')"
begin

lemma get_fold:
  "get (fold (\<lambda>(i, x). put (key x) (int i)) xs m) t =
     (case find (\<lambda>(i, x). key x = t) (rev xs) of Some (i, x) \<Rightarrow> Some (int i) | None \<Rightarrow> get m t)"
  by (induction xs rule: rev_induct) (auto simp: get_put split: option.splits)

lemma get_distinct:
  assumes "distinct (map (key \<circ> snd) xs)" and "(i, x) \<in> set xs"
  shows "get (fold (\<lambda>(i, x). put (key x) (int i)) xs empty) (key x) = Some (int i)"
proof -
  have "find (\<lambda>(j, y). key y = key x) (rev xs) \<noteq> None"
    using assms(2) by (auto simp: find_None_iff)
  then obtain j y where f: "find (\<lambda>(j, y). key y = key x) (rev xs) = Some (j, y)" by auto
  then have "(j, y) \<in> set xs \<and> key y = key x" by (auto simp: find_Some_iff) (metis length_rev nth_mem set_rev)
  moreover have "inj_on (key \<circ> snd) (set xs)" using assms(1) by (simp add: distinct_map)
  ultimately have "(j, y) = (i, x)" using assms(2) by (intro inj_onD [of "key \<circ> snd" "set xs"]) auto
  then show ?thesis using f by (simp add: get_fold)
qed

lemma get_absent: "t \<notin> (key \<circ> snd) ` set xs \<Longrightarrow> get (fold (\<lambda>(i, x). put (key x) (int i)) xs empty) t = None"
  by (auto simp: get_fold get_empty find_Some_iff split: option.splits) (metis imageI length_rev nth_mem set_rev snd_conv)

end

lemma fast_get_put:
  assumes "0 \<le> fi" and t: "t > 0 \<and> t < tagMapFastLimit" and t': "t' > 0 \<and> t' < tagMapFastLimit"
  shows "tagMap_get (tagMap_put t fi m) t' = (if t' = t then Some fi else tagMap_get m t')"
proof -
  let ?fast = "fastTags m"
  let ?ys = "?fast @ replicate (nat (t + 1) - length ?fast) (- 1)"
  have put: "fastTags (tagMap_put t fi m) = ?ys[nat t := fi]" using t by (simp add: tagMap_put_def)
  have len: "nat t < length ?ys" using t by (simp add: nat_add_distrib)
  show ?thesis
  proof (cases "t' = t")
    case True
    have "?ys[nat t := fi] ! nat t = fi" using len by (rule nth_list_update_eq)
    moreover have "\<not> int (length ?ys) \<le> t" using len by simp
    ultimately show ?thesis using True t assms(1) by (simp add: tagMap_get_def put Let_def del: length_append)
  next
    case False
    then have "nat t' \<noteq> nat t" using t t' by (simp add: eq_nat_nat_iff)
    then have upd: "?ys[nat t := fi] ! nat t' = ?ys ! nat t'" by simp
    show ?thesis
    proof (cases "nat t' < length ?fast")
      case True
      then have "?ys ! nat t' = ?fast ! nat t'" by (simp add: nth_append)
      moreover have "\<not> int (length ?fast) \<le> t'" using True by linarith
      ultimately show ?thesis using False t' upd by (simp add: tagMap_get_def put Let_def)
    next
      case old: False
      then have get: "tagMap_get m t' = None" using t' by (simp add: tagMap_get_def nat_less_iff not_less)
      show ?thesis
      proof (cases "int (length ?ys) \<le> t'")
        case True
        then show ?thesis using get False t' by (simp add: tagMap_get_def put)
      next
        case in_pad: False
        then have "nat t' < length ?ys" using t' by (subst nat_less_iff) simp_all
        then have "?ys ! nat t' = - 1" using old by (simp add: nth_append)
        then show ?thesis using get in_pad False t' upd by (simp add: tagMap_get_def put Let_def)
      qed
    qed
  qed
qed

interpretation tags: tag_table no_tags tagMap_get tagMap_put
proof
  show "tagMap_get no_tags t = None" for t by (simp add: tagMap_get_def no_tags_def)
  show "tagMap_get (tagMap_put t fi m) t' = (if t' = t then Some fi else tagMap_get m t')" if "0 \<le> fi" for t fi m t'
  proof (cases "t > 0 \<and> t < tagMapFastLimit \<and> t' > 0 \<and> t' < tagMapFastLimit")
    case True
    then show ?thesis using that by (simp add: fast_get_put)
  next
    case False
    then show ?thesis by (auto simp: tagMap_get_def tagMap_put_def)
  qed
qed

section \<open>Tag codes\<close>

lemma unat_ucast32: "unat (ucast x :: 64 word) = unat x" for x :: "32 word"
proof -
  have "unat x < 2 ^ 64" using unsigned_less [of x, where ?'a = nat] by simp
  then show ?thesis by (simp add: unsigned_ucast_eq take_bit_nat_eq_self)
qed

lemma drop7_ucast: "drop_bit 7 (ucast x :: 64 word) = ucast (drop_bit 7 x)" for x :: "32 word"
  by (simp only: word_unat_eq_iff unat_ucast32 unat_drop7 unat_drop7_32)

lemma tagcode_loop_varint: "tagcode_loop x = EncodeVarint (ucast x)"
proof (induction x rule: tagcode_loop.induct)
  case (1 x)
  have byte: "char_of (unat (0x80 OR (x AND 0x7F))) = uint8 (ucast x AND 0x7F OR 0x80)"
    by (simp add: uint8_def unsigned_or_eq unsigned_and_eq or.commute unat_ucast32)
  show ?case
  proof (cases "127 < x")
    case True
    then have "(ucast x :: 64 word) \<ge> push_bit 7 1" by (simp add: word_le_nat_alt word_less_nat_alt unat_ucast32)
    then show ?thesis using True "1.IH" [OF True] byte
      by (subst tagcode_loop.simps, subst EncodeVarint.simps) (simp add: drop7_ucast)
  next
    case False
    then have "\<not> (ucast x :: 64 word) \<ge> push_bit 7 1" by (simp add: word_le_nat_alt word_less_nat_alt unat_ucast32)
    then show ?thesis using False
      by (subst tagcode_loop.simps, subst EncodeVarint.simps) (simp add: uint8_def unat_ucast32)
  qed
qed

text \<open>What the decoder gets back from a tag code: the wire type in the lower three bits, the tag above.\<close>

definition key_word :: "int \<Rightarrow> nat \<Rightarrow> 64 word" where
  "key_word tag wire = ucast (push_bit 3 (word_of_int tag) OR word_of_nat wire :: 32 word)"

lemma tagcode_varint: "tagcode tag wire = EncodeVarint (key_word tag wire)"
  by (simp add: tagcode_def tagcode_loop_varint key_word_def)

lemma bit_small: "w < 2 ^ k \<Longrightarrow> bit w n \<Longrightarrow> n < k" for w :: nat
  by (metis bit_take_bit_iff take_bit_nat_eq_self)

lemma bit_small_int: "0 \<le> t \<Longrightarrow> t < 2 ^ k \<Longrightarrow> bit t n \<Longrightarrow> n < k" for t :: int
  by (metis bit_take_bit_iff take_bit_int_eq_self)

lemma and_seven: "x AND 0x7 = take_bit 3 x" for x :: "64 word"
  by (simp add: take_bit_eq_mask mask_eq_exp_minus_1)

lemma key_word_parts:
  assumes "0 \<le> tag" and "tag < 2 ^ 29" and "wire < 8"
  shows "unat (key_word tag wire AND 0x7) = wire" and "int (unat (drop_bit 3 (key_word tag wire))) = tag"
proof -
  have w: "bit wire n \<Longrightarrow> n < 3" for n using bit_small [of wire 3 n] assms(3) by simp
  have t: "bit tag n \<Longrightarrow> n < 29" for n using bit_small_int [of tag 29 n] assms(1,2) by simp
  have "key_word tag wire AND 0x7 = word_of_nat wire"
    unfolding and_seven by (rule bit_word_eqI) (auto simp: key_word_def bit_simps dest: w)
  then show "unat (key_word tag wire AND 0x7) = wire"
    using assms(3) by (simp add: unsigned_of_nat take_bit_nat_eq_self_iff)
  have "drop_bit 3 (key_word tag wire) = word_of_int tag"
    by (rule bit_word_eqI) (auto simp: key_word_def bit_simps dest: w t)
  then show "int (unat (drop_bit 3 (key_word tag wire))) = tag"
    using assms(1,2) by (simp add: unsigned_of_int take_bit_int_eq_self_iff)
qed

end
