(* ===== verification/Proto_Encode.thy ===== *)
theory Proto_Encode
  imports Proto_Props
begin

text \<open>
  \<open>Marshal\<close> and \<open>Size\<close> of the protobuf runtime (\<open>golang/protobuf/proto/encode.go\<close>).

  A message is the list of the values of its fields, in the order of the struct, and the bytes of its
  \<open>XXX_unrecognized\<close> field. Values have the shape of their Go types: pointers are options, slices
  lists; a nil slice is the empty list, except that a \<open>[]byte\<close> may be nil. The pointers of
  \<open>pointer_unsafe.go\<close> into the struct are the value itself. A map is the list of its
  entries in the order in which they are written. An encoder gives the bytes it appends and the error
  it returns; a value that does not have the type of its field, which Go rules out, is a panic.
\<close>

section \<open>Values\<close>

datatype val =
    VBool bool | VW32 "32 word" | VW64 "64 word" | VString string
  | PBool "bool option" | PW32 "32 word option" | PW64 "64 word option" | PString "string option"
  | VBytes "string option" | PMsg "msg option"
  | LBool "bool list" | LW32 "32 word list" | LW64 "64 word list" | LString "string list" | LBytes "string list"
  | LMsg "msg option list"
  | VMap "(val \<times> val) list"
and msg = Msg "val list" string

text \<open>The struct types by name.\<close>

type_synonym types = "string \<Rightarrow> go_field list"

type_synonym enc_result = "string \<times> proto_error option"

section \<open>errorState\<close>

text \<open>\<open>shouldContinue\<close>: whether to go on, and the error that is remembered.\<close>

fun shouldContinue :: "proto_error \<Rightarrow> string option \<Rightarrow> proto_error option \<Rightarrow> bool \<times> proto_error option" where
  "shouldContinue (RequiredNotSetError field) name st =
     (True, case st of
        Some e \<Rightarrow> Some e
      | None \<Rightarrow> Some (RequiredNotSetError (case name of None \<Rightarrow> field | Some n \<Rightarrow> n @ ''.'' @ field)))"
| "shouldContinue _ name st = (False, st)"

section \<open>Encoders of scalars\<close>

definition nil_function :: proto_error where
  "nil_function = PPanic ''runtime error: invalid memory address or nil pointer dereference''"

definition enc_value :: "'m Properties \<Rightarrow> 64 word \<Rightarrow> enc_result" where
  "enc_value p x = (case p_val p of None \<Rightarrow> ([], Some nil_function) | Some c \<Rightarrow> (p_tagcode p @ valEnc c x, None))"

definition bool64 :: "bool \<Rightarrow> 64 word" where "bool64 b = (if b then 1 else 0)"

definition enc_bool :: "'m Properties \<Rightarrow> bool option \<Rightarrow> enc_result" where
  "enc_bool p v = (case v of None \<Rightarrow> ([], Some PErrNil) | Some b \<Rightarrow> enc_value p (bool64 b))"

definition enc_proto3_bool :: "'m Properties \<Rightarrow> bool \<Rightarrow> enc_result" where
  "enc_proto3_bool p v = (if \<not> v then ([], Some PErrNil) else enc_value p 1)"

text \<open>\<open>int32\<close> values are sign-extended.\<close>

definition enc_int32 :: "'m Properties \<Rightarrow> 32 word option \<Rightarrow> enc_result" where
  "enc_int32 p v = (case v of None \<Rightarrow> ([], Some PErrNil) | Some x \<Rightarrow> enc_value p (scast x))"

definition enc_proto3_int32 :: "'m Properties \<Rightarrow> 32 word \<Rightarrow> enc_result" where
  "enc_proto3_int32 p x = (if x = 0 then ([], Some PErrNil) else enc_value p (scast x))"

definition enc_uint32 :: "'m Properties \<Rightarrow> 32 word option \<Rightarrow> enc_result" where
  "enc_uint32 p v = (case v of None \<Rightarrow> ([], Some PErrNil) | Some x \<Rightarrow> enc_value p (ucast x))"

definition enc_proto3_uint32 :: "'m Properties \<Rightarrow> 32 word \<Rightarrow> enc_result" where
  "enc_proto3_uint32 p x = (if x = 0 then ([], Some PErrNil) else enc_value p (ucast x))"

definition enc_int64 :: "'m Properties \<Rightarrow> 64 word option \<Rightarrow> enc_result" where
  "enc_int64 p v = (case v of None \<Rightarrow> ([], Some PErrNil) | Some x \<Rightarrow> enc_value p x)"

definition enc_proto3_int64 :: "'m Properties \<Rightarrow> 64 word \<Rightarrow> enc_result" where
  "enc_proto3_int64 p x = (if x = 0 then ([], Some PErrNil) else enc_value p x)"

definition enc_string :: "'m Properties \<Rightarrow> string option \<Rightarrow> enc_result" where
  "enc_string p v = (case v of None \<Rightarrow> ([], Some PErrNil) | Some x \<Rightarrow> (p_tagcode p @ EncodeStringBytes x, None))"

definition enc_proto3_string :: "'m Properties \<Rightarrow> string \<Rightarrow> enc_result" where
  "enc_proto3_string p v = (if v = [] then ([], Some PErrNil) else (p_tagcode p @ EncodeStringBytes v, None))"

definition enc_slice_byte :: "'m Properties \<Rightarrow> string option \<Rightarrow> enc_result" where
  "enc_slice_byte p s = (case s of None \<Rightarrow> ([], Some PErrNil) | Some b \<Rightarrow> (p_tagcode p @ EncodeRawBytes b, None))"

definition enc_proto3_slice_byte :: "'m Properties \<Rightarrow> string option \<Rightarrow> enc_result" where
  "enc_proto3_slice_byte p s =
     (case s of
        None \<Rightarrow> ([], Some PErrNil)
      | Some b \<Rightarrow> if b = [] then ([], Some PErrNil) else (p_tagcode p @ EncodeRawBytes b, None))"

section \<open>Encoders of slices\<close>

definition enc_slice_values :: "'m Properties \<Rightarrow> 64 word list \<Rightarrow> enc_result" where
  "enc_slice_values p xs =
     (if xs = [] then ([], Some PErrNil)
      else case p_val p of
        None \<Rightarrow> ([], Some nil_function)
      | Some c \<Rightarrow> (concat (map (\<lambda>x. p_tagcode p @ valEnc c x) xs), None))"

definition enc_slice_packed_values :: "'m Properties \<Rightarrow> 64 word list \<Rightarrow> enc_result" where
  "enc_slice_packed_values p xs =
     (if xs = [] then ([], Some PErrNil)
      else case p_val p of
        None \<Rightarrow> ([], Some nil_function)
      | Some c \<Rightarrow>
          (let b = concat (map (valEnc c) xs) in (p_tagcode p @ EncodeVarint (word_of_nat (length b)) @ b, None)))"

definition enc_slice_bool :: "'m Properties \<Rightarrow> bool list \<Rightarrow> enc_result" where
  "enc_slice_bool p s = enc_slice_values p (map bool64 s)"

text \<open>Each bool is taken to be one byte.\<close>

definition enc_slice_packed_bool :: "'m Properties \<Rightarrow> bool list \<Rightarrow> enc_result" where
  "enc_slice_packed_bool p s =
     (if s = [] then ([], Some PErrNil)
      else case p_val p of
        None \<Rightarrow> ([], Some nil_function)
      | Some c \<Rightarrow> (p_tagcode p @ EncodeVarint (word_of_nat (length s)) @ concat (map (valEnc c \<circ> bool64) s), None))"

definition enc_slice_int32 :: "'m Properties \<Rightarrow> 32 word list \<Rightarrow> enc_result" where
  "enc_slice_int32 p s = enc_slice_values p (map scast s)"

definition enc_slice_packed_int32 :: "'m Properties \<Rightarrow> 32 word list \<Rightarrow> enc_result" where
  "enc_slice_packed_int32 p s = enc_slice_packed_values p (map scast s)"

definition enc_slice_uint32 :: "'m Properties \<Rightarrow> 32 word list \<Rightarrow> enc_result" where
  "enc_slice_uint32 p s = enc_slice_values p (map ucast s)"

definition enc_slice_packed_uint32 :: "'m Properties \<Rightarrow> 32 word list \<Rightarrow> enc_result" where
  "enc_slice_packed_uint32 p s = enc_slice_packed_values p (map ucast s)"

definition enc_slice_int64 :: "'m Properties \<Rightarrow> 64 word list \<Rightarrow> enc_result" where
  "enc_slice_int64 p s = enc_slice_values p s"

definition enc_slice_packed_int64 :: "'m Properties \<Rightarrow> 64 word list \<Rightarrow> enc_result" where
  "enc_slice_packed_int64 p s = enc_slice_packed_values p s"

definition enc_slice_slice_byte :: "'m Properties \<Rightarrow> string list \<Rightarrow> enc_result" where
  "enc_slice_slice_byte p ss =
     (if ss = [] then ([], Some PErrNil) else (concat (map (\<lambda>s. p_tagcode p @ EncodeRawBytes s) ss), None))"

definition enc_slice_string :: "'m Properties \<Rightarrow> string list \<Rightarrow> enc_result" where
  "enc_slice_string p ss = (concat (map (\<lambda>s. p_tagcode p @ EncodeStringBytes s) ss), None)"

section \<open>Messages\<close>

text \<open>
  \<open>enc_len_thing\<close> reserves four bytes for the length, encodes the message after them, and moves the
  message when its length takes more or fewer bytes. \<open>copy_at\<close> is \<open>copy\<close> into a slice.
\<close>

definition copy_at :: "nat \<Rightarrow> string \<Rightarrow> string \<Rightarrow> string" where
  "copy_at i src dst = take i dst @ take (length dst - i) src @ drop (i + length src) dst"

definition len_shuffle :: "string \<Rightarrow> string \<Rightarrow> string" where
  "len_shuffle b body =
     (let iLen = length b; iMsg = iLen + 4; lMsg = length body; lLen = sizeVarint (word_of_nat lMsg);
          b1 = b @ replicate 4 (CHR 0x00) @ body;
          b2 = (if lLen > 4 then copy_at (iMsg + (lLen - 4)) (take lMsg (drop iMsg b1)) (b1 @ replicate (lLen - 4) (CHR 0x00))
                else if lLen < 4 then copy_at (iMsg - (4 - lLen)) (take lMsg (drop iMsg b1)) b1
                else b1)
      in take (iLen + lLen + lMsg) (copy_at iLen (EncodeVarint (word_of_nat lMsg)) b2))"

definition enc_len_thing :: "enc_result \<Rightarrow> proto_error option \<Rightarrow> string \<times> proto_error option \<times> proto_error option" where
  "enc_len_thing r st =
     (case r of
        (body, Some e) \<Rightarrow>
          (case shouldContinue e None st of
             (True, st') \<Rightarrow> (len_shuffle [] body, st', st')
           | (False, st') \<Rightarrow> (replicate 4 (CHR 0x00) @ body, Some e, st'))
      | (body, None) \<Rightarrow> (len_shuffle [] body, st, st))"

definition enc_struct_message :: "'m Properties \<Rightarrow> enc_result option \<Rightarrow> enc_result" where
  "enc_struct_message p r =
     (case r of
        None \<Rightarrow> ([], Some PErrNil)
      | Some r \<Rightarrow> (case enc_len_thing r None of (b, err, _) \<Rightarrow> (p_tagcode p @ b, err)))"

definition group_key :: "'m Properties \<Rightarrow> nat \<Rightarrow> string" where
  "group_key p wire = EncodeVarint (push_bit 3 (word_of_int (p_Tag p)) OR word_of_nat wire)"

definition enc_struct_group :: "'m Properties \<Rightarrow> enc_result option \<Rightarrow> enc_result" where
  "enc_struct_group p r =
     (case r of
        None \<Rightarrow> ([], Some PErrNil)
      | Some (body, err) \<Rightarrow>
          (let (go_on, st) = (case err of None \<Rightarrow> (True, None) | Some e \<Rightarrow> shouldContinue e None None) in
           if go_on then (group_key p WireStartGroup @ body @ group_key p WireEndGroup, st)
           else (group_key p WireStartGroup @ body, err)))"

fun enc_slice_struct_message :: "'m Properties \<Rightarrow> proto_error option \<Rightarrow> enc_result option list \<Rightarrow> enc_result" where
  "enc_slice_struct_message p st [] = ([], st)"
| "enc_slice_struct_message p st (None # rs) = ([], Some PErrRepeatedHasNil)"
| "enc_slice_struct_message p st (Some r # rs) =
     (case enc_len_thing r st of
        (b, err, st1) \<Rightarrow>
          let (go_on, st2) = (case err of None \<Rightarrow> (True, st1) | Some e \<Rightarrow> shouldContinue e None st1) in
          if go_on then (case enc_slice_struct_message p st2 rs of (bs, err') \<Rightarrow> (p_tagcode p @ b @ bs, err'))
          else (p_tagcode p @ b, if err = Some PErrNil then Some PErrRepeatedHasNil else err))"

fun enc_slice_struct_group :: "'m Properties \<Rightarrow> proto_error option \<Rightarrow> enc_result option list \<Rightarrow> enc_result" where
  "enc_slice_struct_group p st [] = ([], st)"
| "enc_slice_struct_group p st (None # rs) = ([], Some PErrRepeatedHasNil)"
| "enc_slice_struct_group p st (Some (body, err) # rs) =
     (let (go_on, st1) = (case err of None \<Rightarrow> (True, st) | Some e \<Rightarrow> shouldContinue e None st) in
      if go_on then (case enc_slice_struct_group p st1 rs of
        (bs, err') \<Rightarrow> (group_key p WireStartGroup @ body @ group_key p WireEndGroup @ bs, err'))
      else (group_key p WireStartGroup @ body, if err = Some PErrNil then Some PErrRepeatedHasNil else err))"

text \<open>The entries of a map, each with the result of encoding its key and its value.\<close>

definition enc_entry :: "enc_result \<Rightarrow> enc_result \<Rightarrow> enc_result" where
  "enc_entry k v =
     (case k of
        (kb, Some e) \<Rightarrow> (kb, Some e)
      | (kb, None) \<Rightarrow> (case v of (vb, err) \<Rightarrow> (kb @ vb, err)))"

fun enc_new_map :: "'m Properties \<Rightarrow> proto_error option \<Rightarrow> (enc_result \<times> enc_result) list \<Rightarrow> enc_result" where
  "enc_new_map p st [] = ([], None)"
| "enc_new_map p st ((k, v) # es) =
     (case enc_len_thing (enc_entry k v) st of
        (b, Some e, st') \<Rightarrow> (p_tagcode p @ b, Some e)
      | (b, None, st') \<Rightarrow> (case enc_new_map p st' es of (bs, err) \<Rightarrow> (p_tagcode p @ b @ bs, err)))"

section \<open>enc_struct\<close>

text \<open>The loop over the fields in the order of their tags, from the results of their encoders.\<close>

fun enc_fields :: "proto_error option \<Rightarrow> (props \<times> enc_result) list \<Rightarrow> string \<times> proto_error option \<times> bool" where
  "enc_fields st [] = ([], st, False)"
| "enc_fields st ((p, b, err) # rs) =
     (case err of
        None \<Rightarrow> (case enc_fields st rs of (bs, r) \<Rightarrow> (b @ bs, r))
      | Some PErrNil \<Rightarrow>
          (case enc_fields (if p_Required p \<and> st = None then Some (RequiredNotSetError (p_Name p)) else st) rs of (bs, r) \<Rightarrow> (b @ bs, r))
      | Some e \<Rightarrow>
          (case shouldContinue e (Some (p_Name p)) st of
             (True, st') \<Rightarrow> (case enc_fields st' rs of (bs, r) \<Rightarrow> (b @ bs, r))
           | (False, st') \<Rightarrow> (b, Some e, True)))"

definition lift_entry :: "entry_props \<Rightarrow> props" where
  "lift_entry p = (zero_props None)\<lparr>p_Name := p_Name p, p_OrigName := p_OrigName p, p_Wire := p_Wire p, p_WireType := p_WireType p,
     p_Tag := p_Tag p, p_Required := p_Required p, p_Optional := p_Optional p, p_Repeated := p_Repeated p, p_Packed := p_Packed p,
     p_Enum := p_Enum p, p_proto3 := p_proto3 p, p_Default := p_Default p, p_HasDefault := p_HasDefault p, p_val := p_val p,
     p_codec := p_codec p, p_tagcode := p_tagcode p\<rparr>"

definition wrong_type :: proto_error where
  "wrong_type = PPanic ''value of the wrong type''"

lemma set_zip_snd: "(p, v) \<in> set (zip ps vs) \<Longrightarrow> v \<in> set vs"
  by (rule set_zip_rightD)

function enc_struct :: "types \<Rightarrow> go_field list \<Rightarrow> msg \<Rightarrow> enc_result"
  and enc_field :: "types \<Rightarrow> props \<Rightarrow> val \<Rightarrow> enc_result" where
  "enc_struct ty fs (Msg vs unrec) =
     (let sp = GetProperties fs;
          rs = map (\<lambda>(p, v). (p, enc_field ty p v)) (zip (sp_Prop sp) vs);
          (bs, st, stop) = enc_fields None (map (\<lambda>i. rs ! i) (filter (\<lambda>i. i < length rs \<and> p_codec (sp_Prop sp ! i) \<noteq> NoCodec) (sp_order sp)))
      in if stop then (bs, st)
         else (bs @ (if sp_unrecognized sp then unrec else []), st))"
| "enc_field ty p v =
     (case (p_codec p, v) of
        (Proto3_bool, VBool b) \<Rightarrow> enc_proto3_bool p b
      | (Proto3_int32, VW32 x) \<Rightarrow> enc_proto3_int32 p x
      | (Proto3_uint32, VW32 x) \<Rightarrow> enc_proto3_uint32 p x
      | (Proto3_int64, VW64 x) \<Rightarrow> enc_proto3_int64 p x
      | (Proto3_string, VString s) \<Rightarrow> enc_proto3_string p s
      | (Ptr_bool, PBool b) \<Rightarrow> enc_bool p b
      | (Ptr_int32, PW32 x) \<Rightarrow> enc_int32 p x
      | (Ptr_uint32, PW32 x) \<Rightarrow> enc_uint32 p x
      | (Ptr_int64, PW64 x) \<Rightarrow> enc_int64 p x
      | (Ptr_string, PString s) \<Rightarrow> enc_string p s
      | (Slice_byte proto3, VBytes s) \<Rightarrow> if proto3 then enc_proto3_slice_byte p s else enc_slice_byte p s
      | (Slice_bool packed, LBool s) \<Rightarrow> if packed then enc_slice_packed_bool p s else enc_slice_bool p s
      | (Slice_int32 packed, LW32 s) \<Rightarrow> if packed then enc_slice_packed_int32 p s else enc_slice_int32 p s
      | (Slice_uint32 packed, LW32 s) \<Rightarrow> if packed then enc_slice_packed_uint32 p s else enc_slice_uint32 p s
      | (Slice_int64 packed, LW64 s) \<Rightarrow> if packed then enc_slice_packed_int64 p s else enc_slice_int64 p s
      | (Slice_string, LString ss) \<Rightarrow> enc_slice_string p ss
      | (Slice_slice_byte, LBytes ss) \<Rightarrow> enc_slice_slice_byte p ss
      | (Struct_message t, PMsg m) \<Rightarrow> enc_struct_message p (map_option (enc_struct ty (ty t)) m)
      | (Struct_group t, PMsg m) \<Rightarrow> enc_struct_group p (map_option (enc_struct ty (ty t)) m)
      | (Slice_struct_message t, LMsg ms) \<Rightarrow> enc_slice_struct_message p None (map (map_option (enc_struct ty (ty t))) ms)
      | (Slice_struct_group t, LMsg ms) \<Rightarrow> enc_slice_struct_group p None (map (map_option (enc_struct ty (ty t))) ms)
      | (New_map, VMap es) \<Rightarrow>
          (case p_mprops p of
             None \<Rightarrow> ([], Some nil_function)
           | Some (kp, vp) \<Rightarrow>
               enc_new_map p None (map (\<lambda>(k, v). (enc_field ty (lift_entry kp) k, enc_field ty (lift_entry vp) v)) es))
      | _ \<Rightarrow> ([], Some wrong_type))"
  by pat_completeness auto
termination
proof (relation "measure (case_sum (\<lambda>(ty, fs, m). size m) (\<lambda>(ty, p, v). size v))", goal_cases)
  case 1
  then show ?case by simp
next
  case 2
  then show ?case by (auto dest!: set_zip_snd simp: size_list_estimation' less_Suc_eq_le)
qed (auto simp: size_list_estimation' less_Suc_eq_le)

declare enc_struct.simps [simp del] enc_field.simps [simp del]

text \<open>\<open>Marshal\<close> of a pointer to a message, \<open>None\<close> being nil. An error about a required field comes with the bytes.\<close>

definition Buffer_Marshal :: "types \<Rightarrow> string \<Rightarrow> msg option \<Rightarrow> enc_result" where
  "Buffer_Marshal ty t pb = (case pb of None \<Rightarrow> ([], Some PErrNil) | Some m \<Rightarrow> enc_struct ty (ty t) m)"

definition Marshal :: "types \<Rightarrow> string \<Rightarrow> msg option \<Rightarrow> (string \<times> proto_error option) outcome" where
  "Marshal ty t pb =
     (case Buffer_Marshal ty t pb of
        (b, None) \<Rightarrow> Returns (b, None)
      | (b, Some (PPanic s)) \<Rightarrow> Panics s
      | (b, Some e) \<Rightarrow> if fst (shouldContinue e None None) then Returns (b, Some e) else Returns ([], Some e))"

section \<open>Sizers\<close>

definition add_size :: "nat outcome \<Rightarrow> nat outcome \<Rightarrow> nat outcome" where
  "add_size a b = bind_outcome a (\<lambda>x. bind_outcome b (\<lambda>y. Returns (x + y)))"

fun sum_sizes :: "nat outcome list \<Rightarrow> nat outcome" where
  "sum_sizes [] = Returns 0"
| "sum_sizes (a # as) = add_size a (sum_sizes as)"

definition nil_call :: "'a outcome" where
  "nil_call = Panics ''runtime error: invalid memory address or nil pointer dereference''"

definition size_value :: "'m Properties \<Rightarrow> 64 word \<Rightarrow> nat outcome" where
  "size_value p x = (case p_val p of None \<Rightarrow> nil_call | Some c \<Rightarrow> Returns (length (p_tagcode p) + valSize c x))"

definition size_bool :: "'m Properties \<Rightarrow> bool option \<Rightarrow> nat outcome" where
  "size_bool p v = (case v of None \<Rightarrow> Returns 0 | Some _ \<Rightarrow> Returns (length (p_tagcode p) + 1))"

definition size_proto3_bool :: "'m Properties \<Rightarrow> bool \<Rightarrow> nat outcome" where
  "size_proto3_bool p v = (if \<not> v then Returns 0 else Returns (length (p_tagcode p) + 1))"

definition size_int32 :: "'m Properties \<Rightarrow> 32 word option \<Rightarrow> nat outcome" where
  "size_int32 p v = (case v of None \<Rightarrow> Returns 0 | Some x \<Rightarrow> size_value p (scast x))"

definition size_proto3_int32 :: "'m Properties \<Rightarrow> 32 word \<Rightarrow> nat outcome" where
  "size_proto3_int32 p x = (if x = 0 then Returns 0 else size_value p (scast x))"

definition size_uint32 :: "'m Properties \<Rightarrow> 32 word option \<Rightarrow> nat outcome" where
  "size_uint32 p v = (case v of None \<Rightarrow> Returns 0 | Some x \<Rightarrow> size_value p (ucast x))"

definition size_proto3_uint32 :: "'m Properties \<Rightarrow> 32 word \<Rightarrow> nat outcome" where
  "size_proto3_uint32 p x = (if x = 0 then Returns 0 else size_value p (ucast x))"

definition size_int64 :: "'m Properties \<Rightarrow> 64 word option \<Rightarrow> nat outcome" where
  "size_int64 p v = (case v of None \<Rightarrow> Returns 0 | Some x \<Rightarrow> size_value p x)"

definition size_proto3_int64 :: "'m Properties \<Rightarrow> 64 word \<Rightarrow> nat outcome" where
  "size_proto3_int64 p x = (if x = 0 then Returns 0 else size_value p x)"

definition size_string :: "'m Properties \<Rightarrow> string option \<Rightarrow> nat outcome" where
  "size_string p v = (case v of None \<Rightarrow> Returns 0 | Some x \<Rightarrow> Returns (length (p_tagcode p) + sizeStringBytes x))"

definition size_proto3_string :: "'m Properties \<Rightarrow> string \<Rightarrow> nat outcome" where
  "size_proto3_string p v = (if v = [] then Returns 0 else Returns (length (p_tagcode p) + sizeStringBytes v))"

definition size_slice_byte :: "'m Properties \<Rightarrow> string option \<Rightarrow> nat outcome" where
  "size_slice_byte p s = (case s of None \<Rightarrow> Returns 0 | Some b \<Rightarrow> Returns (length (p_tagcode p) + sizeRawBytes b))"

definition size_proto3_slice_byte :: "'m Properties \<Rightarrow> string option \<Rightarrow> nat outcome" where
  "size_proto3_slice_byte p s =
     (case s of
        None \<Rightarrow> Returns 0
      | Some b \<Rightarrow> if b = [] then Returns 0 else Returns (length (p_tagcode p) + sizeRawBytes b))"

definition size_slice_values :: "'m Properties \<Rightarrow> 64 word list \<Rightarrow> nat outcome" where
  "size_slice_values p xs = sum_sizes (map (size_value p) xs)"

definition size_slice_packed_values :: "'m Properties \<Rightarrow> 64 word list \<Rightarrow> nat outcome" where
  "size_slice_packed_values p xs =
     (if xs = [] then Returns 0
      else case p_val p of
        None \<Rightarrow> nil_call
      | Some c \<Rightarrow>
          (let bufSize = sum_list (map (valSize c) xs)
           in Returns (length (p_tagcode p) + sizeVarint (word_of_nat bufSize) + bufSize)))"

definition size_slice_bool :: "'m Properties \<Rightarrow> bool list \<Rightarrow> nat outcome" where
  "size_slice_bool p s = (if s = [] then Returns 0 else Returns (length s * (length (p_tagcode p) + 1)))"

definition size_slice_packed_bool :: "'m Properties \<Rightarrow> bool list \<Rightarrow> nat outcome" where
  "size_slice_packed_bool p s =
     (if s = [] then Returns 0 else Returns (length (p_tagcode p) + sizeVarint (word_of_nat (length s)) + length s))"

definition size_slice_int32 :: "'m Properties \<Rightarrow> 32 word list \<Rightarrow> nat outcome" where
  "size_slice_int32 p s = size_slice_values p (map scast s)"

definition size_slice_packed_int32 :: "'m Properties \<Rightarrow> 32 word list \<Rightarrow> nat outcome" where
  "size_slice_packed_int32 p s = size_slice_packed_values p (map scast s)"

definition size_slice_uint32 :: "'m Properties \<Rightarrow> 32 word list \<Rightarrow> nat outcome" where
  "size_slice_uint32 p s = size_slice_values p (map ucast s)"

definition size_slice_packed_uint32 :: "'m Properties \<Rightarrow> 32 word list \<Rightarrow> nat outcome" where
  "size_slice_packed_uint32 p s = size_slice_packed_values p (map ucast s)"

definition size_slice_int64 :: "'m Properties \<Rightarrow> 64 word list \<Rightarrow> nat outcome" where
  "size_slice_int64 p s = size_slice_values p s"

definition size_slice_packed_int64 :: "'m Properties \<Rightarrow> 64 word list \<Rightarrow> nat outcome" where
  "size_slice_packed_int64 p s = size_slice_packed_values p s"

definition size_slice_slice_byte :: "'m Properties \<Rightarrow> string list \<Rightarrow> nat outcome" where
  "size_slice_slice_byte p ss =
     (if ss = [] then Returns 0 else Returns (length ss * length (p_tagcode p) + sum_list (map sizeRawBytes ss)))"

definition size_slice_string :: "'m Properties \<Rightarrow> string list \<Rightarrow> nat outcome" where
  "size_slice_string p ss = Returns (length ss * length (p_tagcode p) + sum_list (map sizeStringBytes ss))"

definition with_length :: "nat \<Rightarrow> nat" where
  "with_length n = n + sizeVarint (word_of_nat n)"

definition size_struct_message :: "'m Properties \<Rightarrow> nat outcome option \<Rightarrow> nat outcome" where
  "size_struct_message p r =
     (case r of None \<Rightarrow> Returns 0 | Some n \<Rightarrow> bind_outcome n (\<lambda>n1. Returns (length (p_tagcode p) + with_length n1)))"

definition group_key_size :: "'m Properties \<Rightarrow> nat \<Rightarrow> nat" where
  "group_key_size p wire = sizeVarint (push_bit 3 (word_of_int (p_Tag p)) OR word_of_nat wire)"

definition size_struct_group :: "'m Properties \<Rightarrow> nat outcome option \<Rightarrow> nat outcome" where
  "size_struct_group p r =
     (case r of
        None \<Rightarrow> Returns 0
      | Some n \<Rightarrow> bind_outcome n (\<lambda>n1. Returns (group_key_size p WireStartGroup + n1 + group_key_size p WireEndGroup)))"

text \<open>A nil element ends the loop with the size so far.\<close>

fun size_elements :: "(nat \<Rightarrow> nat) \<Rightarrow> nat outcome option list \<Rightarrow> nat outcome" where
  "size_elements f [] = Returns 0"
| "size_elements f (None # rs) = Returns 0"
| "size_elements f (Some n # rs) = add_size (bind_outcome n (\<lambda>n1. Returns (f n1))) (size_elements f rs)"

definition size_slice_struct_message :: "'m Properties \<Rightarrow> nat outcome option list \<Rightarrow> nat outcome" where
  "size_slice_struct_message p rs = add_size (Returns (length rs * length (p_tagcode p))) (size_elements with_length rs)"

definition size_slice_struct_group :: "'m Properties \<Rightarrow> nat outcome option list \<Rightarrow> nat outcome" where
  "size_slice_struct_group p rs =
     add_size (Returns (length rs * group_key_size p WireStartGroup + length rs * group_key_size p WireEndGroup)) (size_elements (\<lambda>n. n) rs)"

definition size_new_map :: "(nat outcome \<times> nat outcome) list \<Rightarrow> nat outcome" where
  "size_new_map es = sum_sizes (map (\<lambda>(k, v). add_size (Returns 2) (add_size k v)) es)"

function size_struct :: "types \<Rightarrow> go_field list \<Rightarrow> msg \<Rightarrow> nat outcome"
  and size_field :: "types \<Rightarrow> props \<Rightarrow> val \<Rightarrow> nat outcome" where
  "size_struct ty fs (Msg vs unrec) =
     (let sp = GetProperties fs;
          rs = map (\<lambda>(p, v). size_field ty p v) (zip (sp_Prop sp) vs)
      in add_size (sum_sizes (map (\<lambda>i. rs ! i) (filter (\<lambda>i. i < length rs \<and> p_codec (sp_Prop sp ! i) \<noteq> NoCodec) (sp_order sp))))
           (Returns (if sp_unrecognized sp then length unrec else 0)))"
| "size_field ty p v =
     (case (p_codec p, v) of
        (Proto3_bool, VBool b) \<Rightarrow> size_proto3_bool p b
      | (Proto3_int32, VW32 x) \<Rightarrow> size_proto3_int32 p x
      | (Proto3_uint32, VW32 x) \<Rightarrow> size_proto3_uint32 p x
      | (Proto3_int64, VW64 x) \<Rightarrow> size_proto3_int64 p x
      | (Proto3_string, VString s) \<Rightarrow> size_proto3_string p s
      | (Ptr_bool, PBool b) \<Rightarrow> size_bool p b
      | (Ptr_int32, PW32 x) \<Rightarrow> size_int32 p x
      | (Ptr_uint32, PW32 x) \<Rightarrow> size_uint32 p x
      | (Ptr_int64, PW64 x) \<Rightarrow> size_int64 p x
      | (Ptr_string, PString s) \<Rightarrow> size_string p s
      | (Slice_byte proto3, VBytes s) \<Rightarrow> if proto3 then size_proto3_slice_byte p s else size_slice_byte p s
      | (Slice_bool packed, LBool s) \<Rightarrow> if packed then size_slice_packed_bool p s else size_slice_bool p s
      | (Slice_int32 packed, LW32 s) \<Rightarrow> if packed then size_slice_packed_int32 p s else size_slice_int32 p s
      | (Slice_uint32 packed, LW32 s) \<Rightarrow> if packed then size_slice_packed_uint32 p s else size_slice_uint32 p s
      | (Slice_int64 packed, LW64 s) \<Rightarrow> if packed then size_slice_packed_int64 p s else size_slice_int64 p s
      | (Slice_string, LString ss) \<Rightarrow> size_slice_string p ss
      | (Slice_slice_byte, LBytes ss) \<Rightarrow> size_slice_slice_byte p ss
      | (Struct_message t, PMsg m) \<Rightarrow> size_struct_message p (map_option (size_struct ty (ty t)) m)
      | (Struct_group t, PMsg m) \<Rightarrow> size_struct_group p (map_option (size_struct ty (ty t)) m)
      | (Slice_struct_message t, LMsg ms) \<Rightarrow> size_slice_struct_message p (map (map_option (size_struct ty (ty t))) ms)
      | (Slice_struct_group t, LMsg ms) \<Rightarrow> size_slice_struct_group p (map (map_option (size_struct ty (ty t))) ms)
      | (New_map, VMap es) \<Rightarrow>
          (case p_mprops p of
             None \<Rightarrow> nil_call
           | Some (kp, vp) \<Rightarrow> size_new_map (map (\<lambda>(k, v). (size_field ty (lift_entry kp) k, size_field ty (lift_entry vp) v)) es))
      | _ \<Rightarrow> Panics ''value of the wrong type'')"
  by pat_completeness auto
termination
proof (relation "measure (case_sum (\<lambda>(ty, fs, m). size m) (\<lambda>(ty, p, v). size v))", goal_cases)
  case 1
  then show ?case by simp
next
  case 2
  then show ?case by (auto dest!: set_zip_snd simp: size_list_estimation' less_Suc_eq_le)
qed (auto simp: size_list_estimation' less_Suc_eq_le)

declare size_struct.simps [simp del] size_field.simps [simp del]

definition Size :: "types \<Rightarrow> string \<Rightarrow> msg option \<Rightarrow> nat outcome" where
  "Size ty t pb = (case pb of None \<Rightarrow> Returns 0 | Some m \<Rightarrow> size_struct ty (ty t) m)"

end
