(* ===== verification/Proto_Decode.thy ===== *)
theory Proto_Decode
  imports Proto_Encode
begin

text \<open>
  \<open>Unmarshal\<close> of the protobuf runtime (\<open>golang/protobuf/proto/decode.go\<close>).

  A decoder reads from the buffer and gives the error it returns, the buffer and the new value of the
  field, as a failing decoder may have changed both. The loops that call themselves on what is left of
  the buffer take fuel and give \<open>None\<close> without it; \<open>Unmarshal\<close> gives them more than the bytes of the
  buffer, and that is always enough.
\<close>

section \<open>Zero values\<close>

fun zero_elem :: "gotype \<Rightarrow> val" where
  "zero_elem TBool = PBool None"
| "zero_elem TInt32 = PW32 None"
| "zero_elem TUint32 = PW32 None"
| "zero_elem TFloat32 = PW32 None"
| "zero_elem TInt64 = PW64 None"
| "zero_elem TUint64 = PW64 None"
| "zero_elem TFloat64 = PW64 None"
| "zero_elem TString = PString None"
| "zero_elem _ = PMsg None"

fun zero_slice :: "gotype \<Rightarrow> val" where
  "zero_slice TBool = LBool []"
| "zero_slice TInt32 = LW32 []"
| "zero_slice TUint32 = LW32 []"
| "zero_slice TFloat32 = LW32 []"
| "zero_slice TInt64 = LW64 []"
| "zero_slice TUint64 = LW64 []"
| "zero_slice TFloat64 = LW64 []"
| "zero_slice TString = LString []"
| "zero_slice TUint8 = VBytes None"
| "zero_slice (TSlice _) = LBytes []"
| "zero_slice _ = LMsg []"

fun zero_val :: "gotype \<Rightarrow> val" where
  "zero_val TBool = VBool False"
| "zero_val TInt32 = VW32 0"
| "zero_val TUint32 = VW32 0"
| "zero_val TFloat32 = VW32 0"
| "zero_val TInt64 = VW64 0"
| "zero_val TUint64 = VW64 0"
| "zero_val TFloat64 = VW64 0"
| "zero_val TString = VString []"
| "zero_val (TSlice t) = zero_slice t"
| "zero_val (TMap _ _) = VMap []"
| "zero_val (TPtr t) = zero_elem t"
| "zero_val _ = VBool False"

text \<open>\<open>reflect.New\<close> and \<open>Reset\<close>.\<close>

definition new_msg :: "go_field list \<Rightarrow> msg" where
  "new_msg fs = Msg (map (zero_val \<circ> f_Type) fs) []"

section \<open>Decoders of scalars and slices\<close>

type_synonym dec_result = "proto_error option \<times> Buffer \<times> val"

definition dec_value :: "'m Properties \<Rightarrow> Buffer \<Rightarrow> (64 word \<Rightarrow> val) \<Rightarrow> val \<Rightarrow> dec_result" where
  "dec_value p b f v =
     (case p_val p of
        None \<Rightarrow> (Some nil_function, b, v)
      | Some c \<Rightarrow> (case valDec c b of Inl e \<Rightarrow> (Some e, b, v) | Inr (u, b') \<Rightarrow> (None, b', f u)))"

definition dec_bool :: "'m Properties \<Rightarrow> Buffer \<Rightarrow> val \<Rightarrow> dec_result" where
  "dec_bool p b v = dec_value p b (\<lambda>u. PBool (Some (u \<noteq> 0))) v"

definition dec_proto3_bool :: "'m Properties \<Rightarrow> Buffer \<Rightarrow> val \<Rightarrow> dec_result" where
  "dec_proto3_bool p b v = dec_value p b (\<lambda>u. VBool (u \<noteq> 0)) v"

definition dec_int32 :: "'m Properties \<Rightarrow> Buffer \<Rightarrow> val \<Rightarrow> dec_result" where
  "dec_int32 p b v = dec_value p b (\<lambda>u. PW32 (Some (ucast u))) v"

definition dec_proto3_int32 :: "'m Properties \<Rightarrow> Buffer \<Rightarrow> val \<Rightarrow> dec_result" where
  "dec_proto3_int32 p b v = dec_value p b (\<lambda>u. VW32 (ucast u)) v"

definition dec_int64 :: "'m Properties \<Rightarrow> Buffer \<Rightarrow> val \<Rightarrow> dec_result" where
  "dec_int64 p b v = dec_value p b (\<lambda>u. PW64 (Some u)) v"

definition dec_proto3_int64 :: "'m Properties \<Rightarrow> Buffer \<Rightarrow> val \<Rightarrow> dec_result" where
  "dec_proto3_int64 p b v = dec_value p b (\<lambda>u. VW64 u) v"

definition dec_bytes :: "string pdec \<Rightarrow> Buffer \<Rightarrow> (string \<Rightarrow> val) \<Rightarrow> val \<Rightarrow> dec_result" where
  "dec_bytes dec b f v = (case dec b of Inl e \<Rightarrow> (Some e, b, v) | Inr (s, b') \<Rightarrow> (None, b', f s))"

definition dec_string :: "Buffer \<Rightarrow> val \<Rightarrow> dec_result" where
  "dec_string b v = dec_bytes DecodeStringBytes b (\<lambda>s. PString (Some s)) v"

definition dec_proto3_string :: "Buffer \<Rightarrow> val \<Rightarrow> dec_result" where
  "dec_proto3_string b v = dec_bytes DecodeStringBytes b VString v"

definition dec_slice_byte :: "Buffer \<Rightarrow> val \<Rightarrow> dec_result" where
  "dec_slice_byte b v = dec_bytes DecodeRawBytes b (\<lambda>s. VBytes (Some s)) v"

definition dec_slice_bool :: "'m Properties \<Rightarrow> Buffer \<Rightarrow> bool list \<Rightarrow> dec_result" where
  "dec_slice_bool p b s = dec_value p b (\<lambda>u. LBool (s @ [u \<noteq> 0])) (LBool s)"

definition dec_slice_int32 :: "'m Properties \<Rightarrow> Buffer \<Rightarrow> 32 word list \<Rightarrow> dec_result" where
  "dec_slice_int32 p b s = dec_value p b (\<lambda>u. LW32 (s @ [ucast u])) (LW32 s)"

definition dec_slice_int64 :: "'m Properties \<Rightarrow> Buffer \<Rightarrow> 64 word list \<Rightarrow> dec_result" where
  "dec_slice_int64 p b s = dec_value p b (\<lambda>u. LW64 (s @ [u])) (LW64 s)"

definition dec_slice_string :: "Buffer \<Rightarrow> string list \<Rightarrow> dec_result" where
  "dec_slice_string b s = dec_bytes DecodeStringBytes b (\<lambda>x. LString (s @ [x])) (LString s)"

definition dec_slice_slice_byte :: "Buffer \<Rightarrow> string list \<Rightarrow> dec_result" where
  "dec_slice_slice_byte b s = dec_bytes DecodeRawBytes b (\<lambda>x. LBytes (s @ [x])) (LBytes s)"

text \<open>The packed bools are counted: as many values as the length says bytes.\<close>

fun packed_bools :: "value_codec \<Rightarrow> nat \<Rightarrow> Buffer \<Rightarrow> bool list \<Rightarrow> (proto_error \<times> Buffer) + bool list \<times> Buffer" where
  "packed_bools c 0 b y = Inr (y, b)"
| "packed_bools c (Suc n) b y =
     (case valDec c b of Inl e \<Rightarrow> Inl (e, b) | Inr (u, b') \<Rightarrow> packed_bools c n b' (y @ [u \<noteq> 0]))"

definition dec_slice_packed_bool :: "'m Properties \<Rightarrow> Buffer \<Rightarrow> bool list \<Rightarrow> dec_result" where
  "dec_slice_packed_bool p b s =
     (case DecodeVarint b of
        Inl e \<Rightarrow> (Some e, b, LBool s)
      | Inr (nn, b1) \<Rightarrow>
          (case p_val p of
             None \<Rightarrow> if sint nn > 0 then (Some nil_function, b1, LBool s) else (None, b1, LBool s)
           | Some c \<Rightarrow>
               (case packed_bools c (nat (sint nn)) b1 s of
                  Inl (e, b2) \<Rightarrow> (Some e, b2, LBool s)
                | Inr (y, b2) \<Rightarrow> (None, b2, LBool y))))"

text \<open>The other packed values end where the length says, or after it; they are stored one by one.\<close>

function packed_values :: "value_codec \<Rightarrow> int \<Rightarrow> Buffer \<Rightarrow> 64 word list \<Rightarrow> proto_error option \<times> Buffer \<times> 64 word list" where
  "packed_values c fin b acc =
     (if int (bf_index b) < fin then
        (case valDec c b of Inl e \<Rightarrow> (Some e, b, acc) | Inr (u, b') \<Rightarrow> packed_values c fin b' (acc @ [u]))
      else (None, b, acc))"
  by pat_completeness auto
termination
  by (relation "measure (\<lambda>(c, fin, b, acc). nat (fin - int (bf_index b)))") (auto dest!: advancesD [OF advances_val])

declare packed_values.simps [simp del]

definition dec_packed :: "'m Properties \<Rightarrow> Buffer \<Rightarrow> (64 word list \<Rightarrow> val) \<Rightarrow> dec_result" where
  "dec_packed p b f =
     (case DecodeVarint b of
        Inl e \<Rightarrow> (Some e, b, f [])
      | Inr (nn, b1) \<Rightarrow>
          (let fin = wrap64 (int (bf_index b1) + sint nn) in
           if fin < int (bf_index b1) then (Some PErrOverflow, b1, f [])
           else if fin = int (bf_index b1) then (None, b1, f [])
           else case p_val p of
             None \<Rightarrow> (Some nil_function, b1, f [])
           | Some c \<Rightarrow> (case packed_values c fin b1 [] of (err, b2, us) \<Rightarrow> (err, b2, f us))))"

definition dec_slice_packed_int32 :: "'m Properties \<Rightarrow> Buffer \<Rightarrow> 32 word list \<Rightarrow> dec_result" where
  "dec_slice_packed_int32 p b s = dec_packed p b (\<lambda>us. LW32 (s @ map ucast us))"

definition dec_slice_packed_int64 :: "'m Properties \<Rightarrow> Buffer \<Rightarrow> 64 word list \<Rightarrow> dec_result" where
  "dec_slice_packed_int64 p b s = dec_packed p b (\<lambda>us. LW64 (s @ us))"

text \<open>The decoder of a field without messages: \<open>dec\<close>, or \<open>packedDec\<close> if the flag is set.\<close>

definition dec_simple :: "bool \<Rightarrow> 'm Properties \<Rightarrow> Buffer \<Rightarrow> val \<Rightarrow> dec_result" where
  "dec_simple packed p b v =
     (case (p_codec p, v) of
        (Proto3_bool, VBool _) \<Rightarrow> dec_proto3_bool p b v
      | (Proto3_int32, VW32 _) \<Rightarrow> dec_proto3_int32 p b v
      | (Proto3_uint32, VW32 _) \<Rightarrow> dec_proto3_int32 p b v
      | (Proto3_int64, VW64 _) \<Rightarrow> dec_proto3_int64 p b v
      | (Proto3_string, VString _) \<Rightarrow> dec_proto3_string b v
      | (Ptr_bool, PBool _) \<Rightarrow> dec_bool p b v
      | (Ptr_int32, PW32 _) \<Rightarrow> dec_int32 p b v
      | (Ptr_uint32, PW32 _) \<Rightarrow> dec_int32 p b v
      | (Ptr_int64, PW64 _) \<Rightarrow> dec_int64 p b v
      | (Ptr_string, PString _) \<Rightarrow> dec_string b v
      | (Slice_byte _, VBytes _) \<Rightarrow> dec_slice_byte b v
      | (Slice_bool _, LBool s) \<Rightarrow> if packed then dec_slice_packed_bool p b s else dec_slice_bool p b s
      | (Slice_int32 _, LW32 s) \<Rightarrow> if packed then dec_slice_packed_int32 p b s else dec_slice_int32 p b s
      | (Slice_uint32 _, LW32 s) \<Rightarrow> if packed then dec_slice_packed_int32 p b s else dec_slice_int32 p b s
      | (Slice_int64 _, LW64 s) \<Rightarrow> if packed then dec_slice_packed_int64 p b s else dec_slice_int64 p b s
      | (Slice_string, LString s) \<Rightarrow> dec_slice_string b s
      | (Slice_slice_byte, LBytes s) \<Rightarrow> dec_slice_slice_byte b s
      | (NoCodec, _) \<Rightarrow> (Some nil_function, b, v)
      | _ \<Rightarrow> (Some wrong_type, b, v))"

fun packable :: "codec \<Rightarrow> bool" where
  "packable (Slice_bool _) = True"
| "packable (Slice_int32 _) = True"
| "packable (Slice_uint32 _) = True"
| "packable (Slice_int64 _) = True"
| "packable _ = False"

section \<open>skip\<close>

fun skip :: "nat \<Rightarrow> nat \<Rightarrow> Buffer \<Rightarrow> (proto_error option \<times> Buffer) option"
  and skip_group :: "nat \<Rightarrow> Buffer \<Rightarrow> (proto_error option \<times> Buffer) option" where
  "skip 0 wire b = None"
| "skip (Suc n) wire b =
     (if wire = WireVarint then Some (case DecodeVarint b of Inl e \<Rightarrow> (Some e, b) | Inr (_, b') \<Rightarrow> (None, b'))
      else if wire = WireFixed64 then Some (case DecodeFixed64 b of Inl e \<Rightarrow> (Some e, b) | Inr (_, b') \<Rightarrow> (None, b'))
      else if wire = WireBytes then Some (case DecodeRawBytes b of Inl e \<Rightarrow> (Some e, b) | Inr (_, b') \<Rightarrow> (None, b'))
      else if wire = WireFixed32 then Some (case DecodeFixed32 b of Inl e \<Rightarrow> (Some e, b) | Inr (_, b') \<Rightarrow> (None, b'))
      else if wire = WireStartGroup then skip_group n b
      else Some (Some (CannotSkipWire wire), b))"
| "skip_group 0 b = None"
| "skip_group (Suc n) b =
     (case DecodeVarint b of
        Inl e \<Rightarrow> Some (Some e, b)
      | Inr (u, b1) \<Rightarrow>
          (let fwire = unat (u AND 0x7) in
           if fwire = WireEndGroup then Some (None, b1)
           else Option.bind (skip n fwire b1) (\<lambda>(err, b2). if err \<noteq> None then Some (err, b2) else skip_group n b2)))"

definition skip_fuel :: "Buffer \<Rightarrow> nat" where
  "skip_fuel b = 2 * length (bf_buf b) + 2"

text \<open>The skipped bytes are kept when the struct has a field for them.\<close>

definition skipAndSave :: "bool \<Rightarrow> 64 word \<Rightarrow> nat \<Rightarrow> Buffer \<Rightarrow> string \<Rightarrow> (proto_error option \<times> Buffer \<times> string) option" where
  "skipAndSave unrecField key wire b unrec =
     Option.bind (skip (skip_fuel b) wire b) (\<lambda>(err, b').
       Some (err, b',
         if err = None \<and> unrecField
         then unrec @ EncodeVarint key @ take (bf_index b' - bf_index b) (drop (bf_index b) (bf_buf b)) else unrec))"

section \<open>Messages and maps\<close>

text \<open>
  \<open>um\<close> is \<open>unmarshalType\<close> for a struct type, in a group or not. A nested message is decoded from a
  buffer of its own.
\<close>

type_synonym unmarshaler = "string \<Rightarrow> bool \<Rightarrow> Buffer \<Rightarrow> msg \<Rightarrow> (proto_error option \<times> Buffer \<times> msg) option"

definition dec_struct_message :: "types \<Rightarrow> unmarshaler \<Rightarrow> string \<Rightarrow> Buffer \<Rightarrow> msg option \<Rightarrow> dec_result option" where
  "dec_struct_message ty um t b v =
     (case DecodeRawBytes b of
        Inl e \<Rightarrow> Some (Some e, b, PMsg v)
      | Inr (raw, b1) \<Rightarrow>
          (let bas = (case v of None \<Rightarrow> new_msg (ty t) | Some m \<Rightarrow> m) in
           Option.bind (um t False (NewBuffer raw) bas) (\<lambda>(err, _, m). Some (err, b1, PMsg (Some m)))))"

definition dec_struct_group :: "types \<Rightarrow> unmarshaler \<Rightarrow> string \<Rightarrow> Buffer \<Rightarrow> msg option \<Rightarrow> dec_result option" where
  "dec_struct_group ty um t b v =
     (let bas = (case v of None \<Rightarrow> new_msg (ty t) | Some m \<Rightarrow> m) in
      Option.bind (um t True b bas) (\<lambda>(err, b1, m). Some (err, b1, PMsg (Some m))))"

definition dec_slice_struct :: "types \<Rightarrow> unmarshaler \<Rightarrow> string \<Rightarrow> bool \<Rightarrow> Buffer \<Rightarrow> msg option list \<Rightarrow> dec_result option" where
  "dec_slice_struct ty um t is_group b s =
     (let bas = new_msg (ty t) in
      if is_group then Option.bind (um t True b bas) (\<lambda>(err, b1, m). Some (err, b1, LMsg (s @ [Some m])))
      else
        (case DecodeRawBytes b of
           Inl e \<Rightarrow> Some (Some e, b, LMsg (s @ [Some bas]))
         | Inr (raw, b1) \<Rightarrow>
             Option.bind (um t False (NewBuffer raw) bas) (\<lambda>(err, _, m). Some (err, b1, LMsg (s @ [Some m])))))"

definition dec_entry :: "types \<Rightarrow> unmarshaler \<Rightarrow> bool \<Rightarrow> 'm Properties \<Rightarrow> Buffer \<Rightarrow> val \<Rightarrow> dec_result option" where
  "dec_entry ty um packed p b v =
     (case (p_codec p, v) of
        (Struct_message t, PMsg m) \<Rightarrow> dec_struct_message ty um t b m
      | (Struct_group t, PMsg m) \<Rightarrow> dec_struct_group ty um t b m
      | (Slice_struct_message t, LMsg ms) \<Rightarrow> dec_slice_struct ty um t False b ms
      | (Slice_struct_group t, LMsg ms) \<Rightarrow> dec_slice_struct ty um t True b ms
      | _ \<Rightarrow> Some (dec_simple packed p b v))"

text \<open>The nil pointers a key and a value start from, by the decoder they use.\<close>

fun zero_of_codec :: "codec \<Rightarrow> val" where
  "zero_of_codec Ptr_bool = PBool None"
| "zero_of_codec Ptr_int32 = PW32 None"
| "zero_of_codec Ptr_uint32 = PW32 None"
| "zero_of_codec Ptr_int64 = PW64 None"
| "zero_of_codec Ptr_string = PString None"
| "zero_of_codec (Slice_byte _) = VBytes None"
| "zero_of_codec (Struct_message _) = PMsg None"
| "zero_of_codec (Struct_group _) = PMsg None"
| "zero_of_codec _ = PBool None"

text \<open>A key that is still nil cannot be used as a key; a nil value deletes the entry, a nil message is stored.\<close>

fun is_nil :: "val \<Rightarrow> bool" where
  "is_nil (PBool None) = True"
| "is_nil (PW32 None) = True"
| "is_nil (PW64 None) = True"
| "is_nil (PString None) = True"
| "is_nil _ = False"

fun map_entry_loop :: "types \<Rightarrow> unmarshaler \<Rightarrow> nat \<Rightarrow> entry_props \<Rightarrow> entry_props \<Rightarrow> string \<Rightarrow> nat \<Rightarrow> Buffer \<Rightarrow> val \<Rightarrow> val
    \<Rightarrow> (proto_error option \<times> Buffer \<times> val \<times> val) option" where
  "map_entry_loop ty um 0 kp vp raw oi b k v = None"
| "map_entry_loop ty um (Suc n) kp vp raw oi b k v =
     (if bf_index b < oi then
        (case (p_tagcode kp, p_tagcode vp) of
           (kc # _, vc # _) \<Rightarrow>
             (let tagcode = bf_buf b ! bf_index b; b1 = b\<lparr>bf_index := bf_index b + 1\<rparr> in
              if tagcode = kc then
                Option.bind (dec_entry ty um False kp b1 k) (\<lambda>(err, b2, k').
                  if err \<noteq> None then Some (err, b2, k', v) else map_entry_loop ty um n kp vp raw oi b2 k' v)
              else if tagcode = vc then
                Option.bind (dec_entry ty um False vp b1 v) (\<lambda>(err, b2, v').
                  if err \<noteq> None then Some (err, b2, k, v') else map_entry_loop ty um n kp vp raw oi b2 k v')
              else Some (Some (BadMapTag (of_char (raw ! 0))), b1, k, v))
         | _ \<Rightarrow> Some (Some (PPanic ''runtime error: index out of range''), b, k, v))
      else Some (None, b, k, v))"

definition dec_new_map :: "types \<Rightarrow> unmarshaler \<Rightarrow> props \<Rightarrow> Buffer \<Rightarrow> (val \<times> val) list \<Rightarrow> dec_result option" where
  "dec_new_map ty um p b es =
     (case DecodeRawBytes b of
        Inl e \<Rightarrow> Some (Some e, b, VMap es)
      | Inr (raw, b1) \<Rightarrow>
          (case p_mprops p of
             None \<Rightarrow> Some (Some nil_function, b1, VMap es)
           | Some (kp, vp) \<Rightarrow>
               Option.bind
                 (map_entry_loop ty um (Suc (length (bf_buf b1))) kp vp raw (bf_index b1) (b1\<lparr>bf_index := bf_index b1 - length raw\<rparr>)
                    (zero_of_codec (p_codec kp)) (zero_of_codec (p_codec vp)))
                 (\<lambda>(err, b2, k, v).
                    if err \<noteq> None then Some (err, b2, VMap es)
                    else if is_nil k then Some (Some (PPanic ''reflect: call of reflect.Value.SetMapIndex on zero Value''), b2, VMap es)
                    else if is_nil v then Some (None, b2, VMap (AList.delete k es))
                    else Some (None, b2, VMap (AList.update k v es)))))"

definition dec_field :: "types \<Rightarrow> unmarshaler \<Rightarrow> bool \<Rightarrow> props \<Rightarrow> Buffer \<Rightarrow> val \<Rightarrow> dec_result option" where
  "dec_field ty um packed p b v =
     (case (p_codec p, v) of (New_map, VMap es) \<Rightarrow> dec_new_map ty um p b es | _ \<Rightarrow> dec_entry ty um packed p b v)"

section \<open>unmarshalType\<close>

text \<open>The book-keeping of required fields: a bitmap up to tag 64, a mere count above.\<close>

definition count_required :: "props \<Rightarrow> int \<Rightarrow> int \<times> 64 word \<Rightarrow> int \<times> 64 word" where
  "count_required p tag acc =
     (case acc of (required, reqFields) \<Rightarrow>
        if \<not> p_Required p then acc
        else if tag \<le> 64 then
          (let mask = push_bit (nat (tag - 1)) 1 in
           if reqFields AND mask = 0 then (required - 1, reqFields OR mask) else acc)
        else (required - 1, reqFields))"

definition unmarshal_end :: "bool \<Rightarrow> int \<Rightarrow> proto_error option \<Rightarrow> proto_error option" where
  "unmarshal_end is_group required st =
     (if is_group then Some PErrUnexpectedEOF
      else if st \<noteq> None then st
      else if required > 0 then Some (RequiredNotSetError ''{Unknown}'')
      else None)"

text \<open>
  One round of the loop: it ends the loop with a result, or goes on with a new state. The state is the
  count of required fields, the remembered error, the buffer and the message.
\<close>

type_synonym unmarshal_result = "proto_error option \<times> Buffer \<times> msg"
type_synonym unmarshal_state = "(int \<times> 64 word) \<times> proto_error option \<times> Buffer \<times> msg"

definition store_field ::
  "props \<Rightarrow> int \<Rightarrow> int \<times> 64 word \<Rightarrow> proto_error option \<Rightarrow> proto_error option \<Rightarrow> Buffer \<Rightarrow> msg \<Rightarrow> unmarshal_result + unmarshal_state" where
  "store_field p tag req st decErr b m =
     (case decErr of
        None \<Rightarrow> Inr (count_required p tag req, st, b, m)
      | Some e \<Rightarrow>
          (case shouldContinue e (Some (p_Name p)) st of
             (True, st') \<Rightarrow> Inr (count_required p tag req, st', b, m)
           | (False, st') \<Rightarrow> Inl (Some e, b, m)))"

definition unmarshal_known ::
  "types \<Rightarrow> unmarshaler \<Rightarrow> props \<Rightarrow> nat \<Rightarrow> nat \<Rightarrow> int \<Rightarrow> unmarshal_state \<Rightarrow> (unmarshal_result + unmarshal_state) option" where
  "unmarshal_known ty um p i wire tag s =
     (case s of (req, st, b, Msg vs unrec) \<Rightarrow>
        let packed = (wire \<noteq> WireStartGroup \<and> wire \<noteq> p_WireType p) in
        if p_codec p = NoCodec then Some (Inr s)
        else if packed \<and> \<not> (wire = WireBytes \<and> packable (p_codec p)) then
          Some (Inl (Some (BadWiretype (p_Name p) wire (p_WireType p)), b, Msg vs unrec))
        else Option.bind (dec_field ty um packed p b (vs ! i)) (\<lambda>(decErr, b', v).
          Some (store_field p tag req st decErr b' (Msg (vs[i := v]) unrec))))"

definition unmarshal_unknown :: "bool \<Rightarrow> 64 word \<Rightarrow> nat \<Rightarrow> unmarshal_state \<Rightarrow> (unmarshal_result + unmarshal_state) option" where
  "unmarshal_unknown unrecField u wire s =
     (case s of (req, st, b, Msg vs unrec) \<Rightarrow>
        Option.bind (skipAndSave unrecField u wire b unrec) (\<lambda>(err, b', unrec').
          Some (if err \<noteq> None then Inl (err, b', Msg vs unrec') else Inr (req, st, b', Msg vs unrec'))))"

definition unmarshal_round :: "types \<Rightarrow> unmarshaler \<Rightarrow> StructProperties \<Rightarrow> bool \<Rightarrow> unmarshal_state \<Rightarrow> (unmarshal_result + unmarshal_state) option" where
  "unmarshal_round ty um sp is_group s =
     (case s of (req, st, b, m) \<Rightarrow>
        if bf_index b < length (bf_buf b) then
          (case DecodeVarint b of
             Inl e \<Rightarrow> Some (Inl (Some e, b, m))
           | Inr (u, b1) \<Rightarrow>
               (let wire = unat (u AND 0x7); tag = int (unat (drop_bit 3 u)) in
                if wire = WireEndGroup then Some (Inl (if is_group then None else Some EndGroupForNonGroup, b1, m))
                else if tag \<le> 0 then Some (Inl (Some (IllegalTag tag wire), b1, m))
                else case tagMap_get (sp_decoderTags sp) tag of
                  None \<Rightarrow> unmarshal_unknown (sp_unrecognized sp) u wire (req, st, b1, m)
                | Some fi \<Rightarrow> unmarshal_known ty um (sp_Prop sp ! nat fi) (nat fi) wire tag (req, st, b1, m)))
        else Some (Inl (unmarshal_end is_group (fst req) st, b, m)))"

fun unmarshal_loop :: "types \<Rightarrow> nat \<Rightarrow> go_field list \<Rightarrow> bool \<Rightarrow> unmarshal_state \<Rightarrow> unmarshal_result option" where
  "unmarshal_loop ty 0 fs is_group s = None"
| "unmarshal_loop ty (Suc n) fs is_group s =
     Option.bind
       (unmarshal_round ty (\<lambda>t grp b' m'. unmarshal_loop ty n (ty t) grp ((int (sp_reqCount (GetProperties (ty t))), 0), None, b', m'))
          (GetProperties fs) is_group s)
       (\<lambda>r. case r of Inl res \<Rightarrow> Some res | Inr s' \<Rightarrow> unmarshal_loop ty n fs is_group s')"

declare unmarshal_loop.simps [simp del]

definition unmarshalType :: "types \<Rightarrow> nat \<Rightarrow> string \<Rightarrow> bool \<Rightarrow> Buffer \<Rightarrow> msg \<Rightarrow> (proto_error option \<times> Buffer \<times> msg) option" where
  "unmarshalType ty n t is_group b m = unmarshal_loop ty n (ty t) is_group ((int (sp_reqCount (GetProperties (ty t))), 0), None, b, m)"

definition UnmarshalMerge :: "types \<Rightarrow> string \<Rightarrow> string \<Rightarrow> msg \<Rightarrow> (proto_error option \<times> msg) option" where
  "UnmarshalMerge ty t data m =
     map_option (\<lambda>(err, _, m'). (err, m')) (unmarshalType ty (Suc (length data)) t False (NewBuffer data) m)"

definition Unmarshal :: "types \<Rightarrow> string \<Rightarrow> string \<Rightarrow> (proto_error option \<times> msg) option" where
  "Unmarshal ty t data = UnmarshalMerge ty t data (new_msg (ty t))"

end
