(* ===== verification/Proto_Total.thy ===== *)
theory Proto_Total
  imports Proto_Decode
begin

text \<open>
  \<open>Unmarshal\<close> on any input: the fuel is always enough, so that every loop of the decoder ends; more
  fuel does not change the result; no decoder reads outside of its buffer.
\<close>

section \<open>More fuel, same result\<close>

definition opt_le :: "'a option \<Rightarrow> 'a option \<Rightarrow> bool" where
  "opt_le x y \<longleftrightarrow> x = None \<or> x = y"

lemma opt_le_refl [simp, intro]: "opt_le x x"
  by (simp add: opt_le_def)

lemma opt_le_None [simp]: "opt_le None x"
  by (simp add: opt_le_def)

lemma opt_leD: "opt_le x y \<Longrightarrow> x = Some r \<Longrightarrow> y = Some r"
  by (auto simp: opt_le_def)

lemma opt_le_bind: "opt_le x y \<Longrightarrow> (\<And>a. opt_le (f a) (g a)) \<Longrightarrow> opt_le (Option.bind x f) (Option.bind y g)"
  by (cases x; cases y) (simp_all add: opt_le_def)

definition um_le :: "unmarshaler \<Rightarrow> unmarshaler \<Rightarrow> bool" where
  "um_le um um' \<longleftrightarrow> (\<forall>t g b m. opt_le (um t g b m) (um' t g b m))"

lemma um_leD: "um_le um um' \<Longrightarrow> opt_le (um t g b m) (um' t g b m)"
  by (simp add: um_le_def)

lemma dec_entry_mono: "um_le um um' \<Longrightarrow> opt_le (dec_entry ty um packed p b v) (dec_entry ty um' packed p b v)"
  by (auto simp: dec_entry_def dec_struct_message_def dec_struct_group_def dec_slice_struct_def Let_def
      intro!: opt_le_bind um_leD split: codec.split val.split sum.split)

lemma map_entry_loop_mono:
  "um_le um um' \<Longrightarrow> opt_le (map_entry_loop ty um n kp vp raw oi b k v) (map_entry_loop ty um' n kp vp raw oi b k v)"
  by (induction n arbitrary: b k v) (auto simp: Let_def intro!: opt_le_bind dec_entry_mono split: list.split)

lemma dec_new_map_mono: "um_le um um' \<Longrightarrow> opt_le (dec_new_map ty um p b es) (dec_new_map ty um' p b es)"
  by (auto simp: dec_new_map_def simp del: map_entry_loop.simps intro!: opt_le_bind map_entry_loop_mono split: sum.split option.split)

lemma dec_field_cases:
  obtains (map) es where "p_codec p = New_map" "v = VMap es" "\<And>um. dec_field ty um packed p b v = dec_new_map ty um p b es"
    | (entry) "\<And>um. dec_field ty um packed p b v = dec_entry ty um packed p b v"
proof (cases "\<exists>es. p_codec p = New_map \<and> v = VMap es")
  case True
  then show thesis using map by (auto simp: dec_field_def)
next
  case False
  then show thesis using entry by (cases "p_codec p"; cases v) (simp_all add: dec_field_def)
qed

lemma dec_field_mono: "um_le um um' \<Longrightarrow> opt_le (dec_field ty um packed p b v) (dec_field ty um' packed p b v)"
  by (cases rule: dec_field_cases [of p v ty packed b]) (simp_all add: dec_entry_mono dec_new_map_mono)

abbreviation um_at :: "types \<Rightarrow> nat \<Rightarrow> unmarshaler" where
  "um_at ty n \<equiv> (\<lambda>t g b m. unmarshal_loop ty n (ty t) g ((int (sp_reqCount (GetProperties (ty t))), 0), None, b, m))"

lemma unmarshal_round_mono: "um_le um um' \<Longrightarrow> opt_le (unmarshal_round ty um sp g s) (unmarshal_round ty um' sp g s)"
  by (cases s rule: prod_cases4)
    (auto simp: unmarshal_round_def unmarshal_known_def Let_def intro!: opt_le_bind dec_field_mono
      split: sum.split option.split msg.split)

lemma unmarshal_loop_Suc: "opt_le (unmarshal_loop ty n fs g s) (unmarshal_loop ty (Suc n) fs g s)"
proof (induction n arbitrary: fs g s)
  case (Suc n)
  have "um_le (um_at ty n) (um_at ty (Suc n))" using Suc.IH by (simp add: um_le_def)
  note round = unmarshal_round_mono [OF this]
  show ?case unfolding unmarshal_loop.simps(2) [of ty n fs g s] unmarshal_loop.simps(2) [of ty "Suc n" fs g s]
    by (rule opt_le_bind [OF round]) (simp add: Suc.IH split: sum.split)
qed (simp add: unmarshal_loop.simps)

lemma unmarshal_loop_mono: "n \<le> n' \<Longrightarrow> unmarshal_loop ty n fs g s = Some r \<Longrightarrow> unmarshal_loop ty n' fs g s = Some r"
  by (induction rule: dec_induct) (blast intro: opt_leD [OF unmarshal_loop_Suc])+

section \<open>Bounds\<close>

definition bytes_left :: "Buffer \<Rightarrow> nat" where
  "bytes_left b = length (bf_buf b) - bf_index b"

definition inside :: "Buffer \<Rightarrow> bool" where
  "inside b \<longleftrightarrow> bf_index b \<le> length (bf_buf b)"

text \<open>Where a decoder may leave the buffer: unchanged, at an index that is not before the old one.\<close>

definition within :: "Buffer \<Rightarrow> Buffer \<Rightarrow> bool" where
  "within b b' \<longleftrightarrow> bf_buf b' = bf_buf b \<and> bf_index b \<le> bf_index b' \<and> bf_index b' \<le> length (bf_buf b)"

lemma within_refl: "inside b \<Longrightarrow> within b b"
  by (simp add: inside_def within_def)

lemma within_trans: "within b b' \<Longrightarrow> within b' b'' \<Longrightarrow> within b b''"
  by (simp add: within_def)

lemma within_inside: "within b b' \<Longrightarrow> inside b'"
  by (simp add: within_def inside_def)

lemma within_remaining: "within b b' \<Longrightarrow> bytes_left b' \<le> bytes_left b"
  by (simp add: within_def bytes_left_def diff_le_mono2)

lemma advances_within: "advances dec \<Longrightarrow> dec b = Inr (v, b') \<Longrightarrow> within b b' \<and> bytes_left b' < bytes_left b"
  by (drule (1) advancesD) (auto simp: within_def bytes_left_def)

lemma packed_bools_within:
  "inside b \<Longrightarrow> (case packed_bools c n b y of Inl (e, b') \<Rightarrow> within b b' | Inr (y', b') \<Rightarrow> within b b')"
proof (induction n arbitrary: b y)
  case (Suc n)
  show ?case
  proof (cases "valDec c b")
    case (Inr r)
    then obtain u b1 where r: "valDec c b = Inr (u, b1)" by (cases r) simp
    then have w: "within b b1" using advances_within [OF advances_val] by blast
    show ?thesis using Suc.IH [OF within_inside [OF w], of "y @ [u \<noteq> 0]"] r w
      by (auto split: sum.splits intro: within_trans)
  qed (use Suc.prems in \<open>simp add: within_refl\<close>)
qed (simp add: within_refl)

lemma packed_values_within: "inside b \<Longrightarrow> within b (fst (snd (packed_values c fin b acc)))"
proof (induction c fin b acc rule: packed_values.induct)
  case (1 c fin b acc)
  show ?case
  proof (cases "valDec c b")
    case (Inr r)
    then obtain u b1 where r: "valDec c b = Inr (u, b1)" by (cases r) simp
    then have w: "within b b1" using advances_within [OF advances_val] by blast
    show ?thesis using "1.IH" [OF _ r refl within_inside [OF w]] w "1.prems" r
      by (subst packed_values.simps) (auto intro: within_trans within_refl)
  qed (use "1.prems" in \<open>simp add: packed_values.simps [of c fin b] within_refl\<close>)
qed

lemma dec_value_within: "inside b \<Longrightarrow> within b (fst (snd (dec_value p b f v)))"
  by (auto simp: dec_value_def within_refl split: option.split sum.split dest!: advances_within [OF advances_val])

lemma dec_bytes_within: "advances dec \<Longrightarrow> inside b \<Longrightarrow> within b (fst (snd (dec_bytes dec b f v)))"
  by (auto simp: dec_bytes_def within_refl split: sum.split dest!: advances_within)

lemma dec_packed_within: "inside b \<Longrightarrow> within b (fst (snd (dec_packed p b f)))"
proof (cases "DecodeVarint b")
  case (Inr r)
  assume "inside b"
  obtain u b1 where r: "DecodeVarint b = Inr (u, b1)" using Inr by (cases r) simp
  then have w: "within b b1" using advances_within [OF advances_varint] by blast
  show ?thesis using within_trans [OF w packed_values_within [OF within_inside [OF w]]] w r
    by (simp add: dec_packed_def Let_def split: option.split prod.split) (metis fst_conv snd_conv)
qed (simp add: dec_packed_def within_refl)

lemma dec_slice_packed_bool_within: "inside b \<Longrightarrow> within b (fst (snd (dec_slice_packed_bool p b s)))"
proof (cases "DecodeVarint b")
  case (Inr r)
  assume "inside b"
  obtain u b1 where r: "DecodeVarint b = Inr (u, b1)" using Inr by (cases r) simp
  then have w: "within b b1" using advances_within [OF advances_varint] by blast
  show ?thesis
  proof (cases "p_val p")
    case (Some c)
    show ?thesis using packed_bools_within [OF within_inside [OF w], of c "nat (sint u)" s] w r Some
      by (auto simp: dec_slice_packed_bool_def split: sum.splits intro: within_trans)
  qed (use r w in \<open>simp add: dec_slice_packed_bool_def\<close>)
qed (simp add: dec_slice_packed_bool_def within_refl)

lemmas dec_simple_defs = dec_proto3_bool_def dec_proto3_int32_def dec_proto3_int64_def dec_proto3_string_def dec_bool_def dec_int32_def
  dec_int64_def dec_string_def dec_slice_byte_def dec_slice_bool_def dec_slice_int32_def dec_slice_int64_def dec_slice_string_def
  dec_slice_slice_byte_def dec_slice_packed_int32_def dec_slice_packed_int64_def

lemma dec_simple_within: "inside b \<Longrightarrow> within b (fst (snd (dec_simple packed p b v)))"
  by (simp add: dec_simple_def dec_simple_defs dec_value_within dec_bytes_within dec_packed_within dec_slice_packed_bool_within
      advances_raw within_refl split: codec.split val.split)

section \<open>Every loop ends\<close>

lemma skip_total:
  "inside b \<Longrightarrow> 2 * bytes_left b + 1 < n \<Longrightarrow> \<exists>err b'. skip n wire b = Some (err, b') \<and> within b b'"
  "inside b \<Longrightarrow> 2 * bytes_left b < n \<Longrightarrow> \<exists>err b'. skip_group n b = Some (err, b') \<and> within b b'"
proof (induction n wire b and n b rule: skip_skip_group.induct)
  case (2 n wire b)
  show ?case
  proof (cases "wire = WireStartGroup")
    case True
    then show ?thesis using 2 by (simp add: wire_defs)
  next
    case False
    then show ?thesis using "2.prems"
      by (auto simp: within_refl split: sum.split dest!: advances_within [OF advances_varint] advances_within [OF advances_raw(1)]
          advances_within [OF advances_fixed(1)] advances_within [OF advances_fixed(2)])
  qed
next
  case (4 n b)
  show ?case
  proof (cases "DecodeVarint b")
    case (Inr r)
    then obtain u b1 where r: "DecodeVarint b = Inr (u, b1)" by (cases r) simp
    then have w: "within b b1" "bytes_left b1 < bytes_left b" using advances_within [OF advances_varint] by blast+
    let ?f = "unat (u AND 0x7)"
    show ?thesis
    proof (cases "?f = WireEndGroup")
      case False
      obtain err b2 where s: "skip n ?f b1 = Some (err, b2)" "within b1 b2"
        using "4.IH"(1) [OF r refl refl False within_inside [OF w(1)]] "4.prems"(2) w(2) by auto
      have "\<exists>err b'. skip_group n b2 = Some (err, b') \<and> within b2 b'" if "err = None"
        using "4.IH"(2) [OF r refl refl False s(1) refl] that within_inside [OF s(2)] within_remaining [OF s(2)] "4.prems"(2) w(2) by simp
      then show ?thesis using r False s w by (auto intro: within_trans [OF w(1) within_trans [OF s(2)]] within_trans [OF w(1) s(2)])
    qed (use r w in simp)
  qed (use "4.prems" in \<open>simp add: within_refl\<close>)
qed simp_all

definition um_total :: "unmarshaler \<Rightarrow> nat \<Rightarrow> bool" where
  "um_total um k \<longleftrightarrow> (\<forall>t g b m. inside b \<and> bytes_left b < k \<longrightarrow> (\<exists>err b' m'. um t g b m = Some (err, b', m') \<and> within b b'))"

lemma um_totalD: "um_total um k \<Longrightarrow> inside b \<Longrightarrow> bytes_left b < k \<Longrightarrow> \<exists>err b' m'. um t g b m = Some (err, b', m') \<and> within b b'"
  by (simp add: um_total_def)

lemma raw_buffer: "DecodeRawBytes b = Inr (raw, b1) \<Longrightarrow> inside (NewBuffer raw) \<and> bytes_left (NewBuffer raw) < bytes_left b \<and> within b b1"
  by (drule DecodeRawBytes_bounds) (auto simp: inside_def NewBuffer_def bytes_left_def within_def)

lemma nested_total:
  assumes "um_total um k" and "bytes_left b < k" and "DecodeRawBytes b = Inr (raw, b1)"
  obtains err b' m' where "um t g (NewBuffer raw) m = Some (err, b', m')" and "within b b1"
  using um_totalD [OF assms(1), of "NewBuffer raw" t g m] raw_buffer [OF assms(3)] assms(2) by force

lemma dec_entry_total:
  assumes "um_total um k" and "inside b" and "bytes_left b < k"
  shows "\<exists>err b' v'. dec_entry ty um packed p b v = Some (err, b', v') \<and> within b b'"
proof -
  have simple: "\<exists>err b' v'. Some (dec_simple packed p b v) = Some (err, b', v') \<and> within b b'"
    using dec_simple_within [OF assms(2), of packed p v] by (cases "dec_simple packed p b v") auto
  have grp: "\<exists>err b' v'. Option.bind (um t True b m) (\<lambda>(err, b1, m). Some (err, b1, f m)) = Some (err, b', v') \<and> within b b'"
    for t m and f :: "msg \<Rightarrow> val"
    using um_totalD [OF assms, of t True m] by auto
  have msg: "\<exists>err b' v'. (case DecodeRawBytes b of Inl e \<Rightarrow> Some (Some e, b, v0) | Inr (raw, b1) \<Rightarrow>
      Option.bind (um t False (NewBuffer raw) m) (\<lambda>(err, _, m). Some (err, b1, f m))) = Some (err, b', v') \<and> within b b'"
    for t m v0 and f :: "msg \<Rightarrow> val"
  proof (cases "DecodeRawBytes b")
    case (Inr r)
    then obtain raw b1 where r: "DecodeRawBytes b = Inr (raw, b1)" by (cases r) simp
    obtain err b' m' where "um t False (NewBuffer raw) m = Some (err, b', m')" "within b b1"
      using nested_total [OF assms(1,3) r] by metis
    then show ?thesis using r by simp
  qed (use assms(2) in \<open>simp add: within_refl\<close>)
  show ?thesis using simple grp msg
    unfolding dec_entry_def dec_struct_message_def dec_struct_group_def dec_slice_struct_def Let_def
    by (cases "p_codec p"; cases v) simp_all
qed

lemma map_entry_loop_total:
  assumes "um_total um k"
  shows "inside b \<Longrightarrow> bytes_left b \<le> k \<Longrightarrow> oi \<le> length (bf_buf b) \<Longrightarrow> bytes_left b < n
    \<Longrightarrow> \<exists>err b' k' v'. map_entry_loop ty um n kp vp raw oi b kv v = Some (err, b', k', v') \<and> within b b'"
proof (induction n arbitrary: b kv v)
  case (Suc n)
  let ?b1 = "b\<lparr>bf_index := bf_index b + 1\<rparr>"
  show ?case
  proof (cases "bf_index b < oi")
    case True
    then have b1: "inside ?b1" "within b ?b1" "bytes_left ?b1 < bytes_left b"
      using Suc.prems(3) by (auto simp: inside_def within_def bytes_left_def)
    have dec: "\<exists>err b' v'. dec_entry ty um False p ?b1 v = Some (err, b', v') \<and> within ?b1 b'" for v and p :: entry_props
      by (rule dec_entry_total [OF assms b1(1)]) (use b1(3) Suc.prems(2) in linarith)
    have rec: "\<exists>err b' k' v'. map_entry_loop ty um n kp vp raw oi b2 kv v = Some (err, b', k', v') \<and> within b b'" if "within ?b1 b2" for b2 kv v
      using Suc.IH [of b2 kv v] within_inside [OF that] within_remaining [OF that] b1 Suc.prems within_trans [OF b1(2) that]
      by (auto simp: within_def)
    have one: "\<exists>err b' k' v'. Option.bind (dec_entry ty um False p ?b1 x) (\<lambda>(err, b2, x').
        if err \<noteq> None then Some (err, b2, f x') else map_entry_loop ty um n kp vp raw oi b2 (fst (f x')) (snd (f x')))
      = Some (err, b', k', v') \<and> within b b'" for x and p :: entry_props and f :: "val \<Rightarrow> val \<times> val"
    proof -
      obtain err b2 x' where d: "dec_entry ty um False p ?b1 x = Some (err, b2, x')" "within ?b1 b2" using dec by blast
      show ?thesis
      proof (cases err)
        case None
        then show ?thesis using d rec [OF d(2)] by simp
      next
        case (Some e)
        then show ?thesis using d within_trans [OF b1(2) d(2)] by (cases "f x'") simp
      qed
    qed
    show ?thesis
    proof (cases "p_tagcode kp = [] \<or> p_tagcode vp = []")
      case False
      then obtain kc ks vc vcs where tags: "p_tagcode kp = kc # ks" "p_tagcode vp = vc # vcs" by (auto simp: neq_Nil_conv)
      consider "bf_buf b ! bf_index b = kc" | "bf_buf b ! bf_index b \<noteq> kc" "bf_buf b ! bf_index b = vc"
        | "bf_buf b ! bf_index b \<noteq> kc" "bf_buf b ! bf_index b \<noteq> vc" by blast
      then show ?thesis
      proof cases
        case 1
        then show ?thesis using True tags one [of kp kv "\<lambda>x. (x, v)", unfolded fst_conv snd_conv] by (simp add: Let_def)
      next
        case 2
        then show ?thesis using True tags one [of vp v "\<lambda>x. (kv, x)", unfolded fst_conv snd_conv] by (simp add: Let_def)
      next
        case 3
        then show ?thesis using True tags b1(2) by (simp add: Let_def)
      qed
    qed (use True within_refl [OF Suc.prems(1)] in \<open>auto split: list.split\<close>)
  qed (use Suc.prems in \<open>simp add: within_refl\<close>)
qed simp

lemma dec_new_map_total:
  assumes "um_total um k" and "inside b" and "bytes_left b < k"
  shows "\<exists>err b' v'. dec_new_map ty um p b es = Some (err, b', v') \<and> within b b'"
proof (cases "DecodeRawBytes b")
  case (Inr r)
  then obtain raw b1 where r: "DecodeRawBytes b = Inr (raw, b1)" by (cases r) simp
  note bd = DecodeRawBytes_bounds [OF r]
  let ?b0 = "b1\<lparr>bf_index := bf_index b1 - length raw\<rparr>"
  have b0: "inside ?b0" "bytes_left ?b0 \<le> k" "bf_index b1 \<le> length (bf_buf ?b0)" "bytes_left ?b0 < Suc (length (bf_buf b1))"
    and w: "within b b1" "within b ?b0"
    using bd assms(3) by (auto simp: inside_def bytes_left_def within_def)
  show ?thesis
  proof (cases "p_mprops p")
    case (Some kvp)
    then obtain kp vp where kv: "p_mprops p = Some (kp, vp)" by (cases kvp) simp
    obtain err b2 k' v' where m: "map_entry_loop ty um (Suc (length (bf_buf b1))) kp vp raw (bf_index b1) ?b0
        (zero_of_codec (p_codec kp)) (zero_of_codec (p_codec vp)) = Some (err, b2, k', v')" "within ?b0 b2"
      using map_entry_loop_total [OF assms(1) b0] by blast
    then show ?thesis using r kv within_trans [OF w(2) m(2)]
      by (simp add: dec_new_map_def del: map_entry_loop.simps)
  qed (use r w in \<open>simp add: dec_new_map_def\<close>)
qed (use assms(2) in \<open>simp add: dec_new_map_def within_refl\<close>)

lemma dec_field_total:
  assumes "um_total um k" and "inside b" and "bytes_left b < k"
  shows "\<exists>err b' v'. dec_field ty um packed p b v = Some (err, b', v') \<and> within b b'"
  using dec_entry_total [OF assms] dec_new_map_total [OF assms]
  by (cases rule: dec_field_cases [of p v ty packed b]) simp_all

lemma skipAndSave_total:
  assumes "inside b"
  shows "\<exists>err b' u'. skipAndSave un u wire b unrec = Some (err, b', u') \<and> within b b'"
proof -
  have "2 * bytes_left b + 1 < skip_fuel b" by (simp add: bytes_left_def skip_fuel_def)
  from skip_total(1) [OF assms this, of wire] show ?thesis by (auto simp: skipAndSave_def)
qed

text \<open>A round ends the loop, or makes the buffer shorter.\<close>

definition round_ok :: "Buffer \<Rightarrow> (unmarshal_result + unmarshal_state) \<Rightarrow> bool" where
  "round_ok b r = (case r of
      Inl (_, b', _) \<Rightarrow> within b b'
    | Inr (_, _, b', _) \<Rightarrow> within b b' \<and> bytes_left b' < bytes_left b)"

lemma store_field_round: "within b b' \<Longrightarrow> bytes_left b' < bytes_left b \<Longrightarrow> round_ok b (store_field p tag req st err b' m)"
  by (auto simp: round_ok_def store_field_def split: option.split prod.split bool.split)

lemma unmarshal_round_total:
  assumes "um_total um k" and "inside b" and "bytes_left b \<le> k"
  shows "\<exists>r. unmarshal_round ty um sp g (req, st, b, m) = Some r \<and> round_ok b r"
proof (cases "bf_index b < length (bf_buf b)")
  case True
  obtain vs unrec where m: "m = Msg vs unrec" by (cases m)
  show ?thesis
  proof (cases "DecodeVarint b")
    case (Inr r)
    then obtain u b1 where r: "DecodeVarint b = Inr (u, b1)" by (cases r) simp
    then have w: "within b b1" "bytes_left b1 < bytes_left b" using advances_within [OF advances_varint] by blast+
    have ok: "within b b2" "bytes_left b2 < bytes_left b" if "within b1 b2" for b2
      using within_trans [OF w(1) that] within_remaining [OF that] w(2) by simp_all
    obtain err b2 u' where skip: "skipAndSave (sp_unrecognized sp) u (unat (u AND 0x7)) b1 unrec = Some (err, b2, u')" "within b1 b2"
      using skipAndSave_total [OF within_inside [OF w(1)]] by blast
    have unknown: "\<exists>r. unmarshal_unknown (sp_unrecognized sp) u (unat (u AND 0x7)) (req, st, b1, m) = Some r \<and> round_ok b r"
      using skip ok [OF skip(2)] by (auto simp: unmarshal_unknown_def m round_ok_def)
    have known: "\<exists>r. unmarshal_known ty um p i wire tag (req, st, b1, m) = Some r \<and> round_ok b r" for p i wire tag
    proof -
      have "\<exists>err b' v'. dec_field ty um packed p b1 v = Some (err, b', v') \<and> within b1 b'" for packed v
        by (rule dec_field_total [OF assms(1) within_inside [OF w(1)]]) (use w(2) assms(3) in linarith)
      then obtain err b3 v where "dec_field ty um (wire \<noteq> WireStartGroup \<and> wire \<noteq> p_WireType p) p b1 (vs ! i) = Some (err, b3, v)" "within b1 b3"
        by blast
      then show ?thesis using w ok [of b3]
        by (auto simp: unmarshal_known_def m Let_def store_field_round) (simp_all add: round_ok_def)
    qed
    show ?thesis using True r w known unknown
      by (auto simp: unmarshal_round_def Let_def round_ok_def split: option.split)
  qed (use True in \<open>simp add: unmarshal_round_def round_ok_def within_refl [OF assms(2)]\<close>)
qed (simp add: unmarshal_round_def round_ok_def within_refl [OF assms(2)])

lemma unmarshal_loop_total:
  "inside b \<Longrightarrow> bytes_left b < n \<Longrightarrow> \<exists>err b' m'. unmarshal_loop ty n fs g (req, st, b, m) = Some (err, b', m') \<and> within b b'"
proof (induction n arbitrary: fs g req st b m)
  case (Suc n)
  have "um_total (um_at ty n) n" using Suc.IH by (simp add: um_total_def)
  then obtain r where r: "unmarshal_round ty (um_at ty n) (GetProperties fs) g (req, st, b, m) = Some r" "round_ok b r"
    using unmarshal_round_total [of "um_at ty n" n b] Suc.prems by fastforce
  show ?case
  proof (cases r)
    case (Inl res)
    then show ?thesis using r by (cases res) (simp add: unmarshal_loop.simps(2) round_ok_def)
  next
    case (Inr s)
    obtain req' st' b' m' where s: "s = (req', st', b', m')" by (cases s)
    then have w: "within b b'" "bytes_left b' < bytes_left b" using r(2) Inr by (simp_all add: round_ok_def)
    show ?thesis using Suc.IH [OF within_inside [OF w(1)], of fs g req' st' m'] w Suc.prems(2) r(1) Inr s
      by (auto simp: unmarshal_loop.simps(2) intro: within_trans)
  qed
qed simp

lemma unmarshalType_total: "\<exists>err b' m'. unmarshalType ty (Suc (length data)) t False (NewBuffer data) m = Some (err, b', m')"
proof -
  have "inside (NewBuffer data)" "bytes_left (NewBuffer data) < Suc (length data)" by (simp_all add: inside_def NewBuffer_def bytes_left_def)
  from unmarshal_loop_total [OF this] show ?thesis unfolding unmarshalType_def by metis
qed


end
