(* ===== verification/Proto_Types.thy ===== *)
theory Proto_Types
  imports Proto_Total
begin

text \<open>
  Well-typed messages. The decoder works on untyped memory through the properties it computed from the
  Go types; here it is shown that it keeps every message well-typed and never uses a field as a value
  of another type, whatever the input.
\<close>

section \<open>Types of values\<close>

function msg_typed :: "types \<Rightarrow> go_field list \<Rightarrow> msg \<Rightarrow> bool"
  and val_typed :: "types \<Rightarrow> gotype \<Rightarrow> val \<Rightarrow> bool" where
  "msg_typed ty fs (Msg vs unrec) \<longleftrightarrow> length vs = length fs \<and> (\<forall>(f, v) \<in> set (zip fs vs). val_typed ty (f_Type f) v)"
| "val_typed ty t v \<longleftrightarrow>
     (case v of
        VBool b \<Rightarrow> t = TBool \<or> zero_val t = v
      | VW32 _ \<Rightarrow> t \<in> {TInt32, TUint32, TFloat32}
      | VW64 _ \<Rightarrow> t \<in> {TInt64, TUint64, TFloat64}
      | VString _ \<Rightarrow> t = TString
      | PBool _ \<Rightarrow> t = TPtr TBool
      | PW32 _ \<Rightarrow> t \<in> {TPtr TInt32, TPtr TUint32, TPtr TFloat32}
      | PW64 _ \<Rightarrow> t \<in> {TPtr TInt64, TPtr TUint64, TPtr TFloat64}
      | PString _ \<Rightarrow> t = TPtr TString
      | VBytes _ \<Rightarrow> t = TSlice TUint8
      | PMsg None \<Rightarrow> zero_val t = v
      | PMsg (Some m) \<Rightarrow> (case t of TPtr (TStruct n) \<Rightarrow> msg_typed ty (ty n) m | _ \<Rightarrow> False)
      | LBool _ \<Rightarrow> t = TSlice TBool
      | LW32 _ \<Rightarrow> t \<in> {TSlice TInt32, TSlice TUint32, TSlice TFloat32}
      | LW64 _ \<Rightarrow> t \<in> {TSlice TInt64, TSlice TUint64, TSlice TFloat64}
      | LString _ \<Rightarrow> t = TSlice TString
      | LBytes _ \<Rightarrow> t = TSlice (TSlice TUint8) \<or> zero_val t = v
      | LMsg ms \<Rightarrow>
          (case t of
             TSlice (TPtr (TStruct n)) \<Rightarrow> (\<forall>m \<in> set ms. case m of None \<Rightarrow> True | Some m \<Rightarrow> msg_typed ty (ty n) m)
           | _ \<Rightarrow> zero_val t = v)
      | VMap es \<Rightarrow>
          (case t of
             TMap kt vt \<Rightarrow> (\<forall>(k, x) \<in> set es. val_typed ty (TPtr kt) k \<and> val_typed ty (map_value_type vt) x)
           | _ \<Rightarrow> False))"
  by pat_completeness auto
termination
proof (relation "measure (case_sum (\<lambda>(ty, fs, m). size m) (\<lambda>(ty, t, v). size v))", goal_cases)
  case 1
  then show ?case by simp
next
  case 2
  then show ?case by (auto dest!: set_zip_snd simp: size_list_estimation' less_Suc_eq_le)
qed (auto simp: size_list_estimation' less_Suc_eq_le)

declare msg_typed.simps [simp del] val_typed.simps [simp del]

lemma zero_elem_typed: "val_typed ty (TPtr t) (zero_elem t)"
  by (cases t) (simp_all add: val_typed.simps)

lemma zero_slice_typed: "val_typed ty (TSlice t) (zero_slice t)"
proof (cases t)
  case (TPtr u)
  then show ?thesis by (cases u) (simp_all add: val_typed.simps)
qed (simp_all add: val_typed.simps)

lemma zero_typed: "val_typed ty t (zero_val t)"
  using zero_elem_typed zero_slice_typed by (cases t) (simp_all add: val_typed.simps)

lemma new_msg_typed: "msg_typed ty fs (new_msg fs)"
  by (auto simp: new_msg_def msg_typed.simps zero_typed set_zip)

section \<open>Decoders keep the types\<close>

text \<open>The errors of the wire decoders are not the panic of a value of the wrong type.\<close>

lemma DecodeVarint_err: "DecodeVarint b = Inl e \<Longrightarrow> e = PErrUnexpectedEOF \<or> e = PErrOverflow"
proof -
  have "DecodeVarint_loop b i shift x = Inl e \<Longrightarrow> e = PErrUnexpectedEOF \<or> e = PErrOverflow" for b i shift x
  proof (induction b i shift x rule: DecodeVarint_loop.induct)
    case (1 b i shift x)
    from "1.prems" show ?case
      by (subst (asm) DecodeVarint_loop.simps) (auto simp: Let_def split: if_splits dest: "1.IH" [OF _ _ refl])
  qed
  then show "DecodeVarint b = Inl e \<Longrightarrow> ?thesis" by (auto simp: DecodeVarint_def split: sum.splits)
qed

lemma DecodeRawBytes_err: "DecodeRawBytes b = Inl e \<Longrightarrow> e \<noteq> wrong_type"
  by (auto simp: DecodeRawBytes_def wrong_type_def split: sum.splits if_splits dest!: DecodeVarint_err)

lemma valDec_err: "valDec c b = Inl e \<Longrightarrow> e \<noteq> wrong_type"
  by (cases c) (auto simp: wrong_type_def DecodeFixed32_def DecodeFixed64_def DecodeZigzag32_def DecodeZigzag64_def Let_def
      split: sum.splits if_splits dest!: DecodeVarint_err)

text \<open>A result that has the type and is not the panic.\<close>

definition ok_result :: "types \<Rightarrow> gotype \<Rightarrow> dec_result \<Rightarrow> bool" where
  "ok_result ty t r \<longleftrightarrow> fst r \<noteq> Some wrong_type \<and> val_typed ty t (snd (snd r))"

lemma dec_value_ok: "val_typed ty t v \<Longrightarrow> (\<And>u. val_typed ty t (f u)) \<Longrightarrow> ok_result ty t (dec_value p b f v)"
  by (auto simp: ok_result_def dec_value_def nil_function_def wrong_type_def [symmetric] split: option.split sum.split dest: valDec_err)
    (simp add: wrong_type_def)

lemma dec_bytes_ok:
  "(\<And>e. dec b = Inl e \<Longrightarrow> e \<noteq> wrong_type) \<Longrightarrow> val_typed ty t v \<Longrightarrow> (\<And>u. val_typed ty t (f u)) \<Longrightarrow> ok_result ty t (dec_bytes dec b f v)"
  by (auto simp: ok_result_def dec_bytes_def split: sum.split)

lemma packed_values_err: "fst (packed_values c fin b acc) \<noteq> Some wrong_type"
proof (induction c fin b acc rule: packed_values.induct)
  case (1 c fin b acc)
  then show ?case by (subst packed_values.simps) (auto split: sum.split dest: valDec_err)
qed

lemma dec_packed_ok: "(\<And>us. val_typed ty t (f us)) \<Longrightarrow> ok_result ty t (dec_packed p b f)"
  using packed_values_err
  by (auto simp: ok_result_def dec_packed_def Let_def nil_function_def wrong_type_def split: option.split sum.split prod.split dest: DecodeVarint_err)
    (metis fst_conv)

lemma packed_bools_err: "packed_bools c n b y = Inl (e, b') \<Longrightarrow> e \<noteq> wrong_type"
  by (induction n arbitrary: b y) (auto split: sum.splits dest: valDec_err)

lemma dec_slice_packed_bool_ok: "ok_result ty (TSlice TBool) (dec_slice_packed_bool p b s)"
  by (auto simp: ok_result_def dec_slice_packed_bool_def nil_function_def val_typed.simps split: option.split sum.split
      dest: DecodeVarint_err packed_bools_err) (auto simp: wrong_type_def dest: DecodeVarint_err)

definition codec_fits :: "codec \<Rightarrow> gotype \<Rightarrow> bool" where
  "codec_fits c t \<longleftrightarrow> (\<exists>wire packed proto3. c = codec_of wire packed proto3 t)"

fun message_codec :: "codec \<Rightarrow> bool" where
  "message_codec (Struct_message _) = True"
| "message_codec (Struct_group _) = True"
| "message_codec (Slice_struct_message _) = True"
| "message_codec (Slice_struct_group _) = True"
| "message_codec New_map = True"
| "message_codec _ = False"

lemmas dec_oks = dec_value_ok dec_bytes_ok dec_packed_ok dec_slice_packed_bool_ok

lemma string_errs: "DecodeStringBytes b = Inl e \<Longrightarrow> e \<noteq> wrong_type" "DecodeRawBytes b = Inl e \<Longrightarrow> e \<noteq> wrong_type"
  by (simp_all add: DecodeStringBytes_def DecodeRawBytes_err)

text \<open>The shapes of the values of a type.\<close>

lemma scalar_shapes:
  "val_typed ty TBool v \<longleftrightarrow> (\<exists>x. v = VBool x)"
  "t \<in> {TInt32, TUint32, TFloat32} \<Longrightarrow> val_typed ty t v \<longleftrightarrow> (\<exists>x. v = VW32 x)"
  "t \<in> {TInt64, TUint64, TFloat64} \<Longrightarrow> val_typed ty t v \<longleftrightarrow> (\<exists>x. v = VW64 x)"
  "val_typed ty TString v \<longleftrightarrow> (\<exists>x. v = VString x)"
  by (cases v; auto simp: val_typed.simps split: option.splits)+

lemma ptr_shapes:
  "val_typed ty (TPtr TBool) v \<longleftrightarrow> (\<exists>x. v = PBool x)"
  "t \<in> {TInt32, TUint32, TFloat32} \<Longrightarrow> val_typed ty (TPtr t) v \<longleftrightarrow> (\<exists>x. v = PW32 x)"
  "t \<in> {TInt64, TUint64, TFloat64} \<Longrightarrow> val_typed ty (TPtr t) v \<longleftrightarrow> (\<exists>x. v = PW64 x)"
  "val_typed ty (TPtr TString) v \<longleftrightarrow> (\<exists>x. v = PString x)"
  "val_typed ty (TPtr (TStruct n)) v \<longleftrightarrow> (\<exists>x. v = PMsg x \<and> (\<forall>m. x = Some m \<longrightarrow> msg_typed ty (ty n) m))"
  by (cases v; auto simp: val_typed.simps split: option.splits)+

lemma slice_shapes:
  "val_typed ty (TSlice TBool) v \<longleftrightarrow> (\<exists>x. v = LBool x)"
  "t \<in> {TInt32, TUint32, TFloat32} \<Longrightarrow> val_typed ty (TSlice t) v \<longleftrightarrow> (\<exists>x. v = LW32 x)"
  "t \<in> {TInt64, TUint64, TFloat64} \<Longrightarrow> val_typed ty (TSlice t) v \<longleftrightarrow> (\<exists>x. v = LW64 x)"
  "val_typed ty (TSlice TString) v \<longleftrightarrow> (\<exists>x. v = LString x)"
  "val_typed ty (TSlice TUint8) v \<longleftrightarrow> (\<exists>x. v = VBytes x)"
  "val_typed ty (TSlice (TSlice TUint8)) v \<longleftrightarrow> (\<exists>x. v = LBytes x)"
  "val_typed ty (TSlice (TPtr (TStruct n))) v \<longleftrightarrow> (\<exists>x. v = LMsg x \<and> (\<forall>m. Some m \<in> set x \<longrightarrow> msg_typed ty (ty n) m))"
  by (cases v; auto simp: val_typed.simps split: option.splits)+

lemma map_shape:
  "val_typed ty (TMap kt vt) v \<longleftrightarrow>
     (\<exists>es. v = VMap es \<and> (\<forall>(k, x) \<in> set es. val_typed ty (TPtr kt) k \<and> val_typed ty (map_value_type vt) x))"
  by (cases v; subst val_typed.simps; auto split: option.splits)

lemmas shapes = scalar_shapes ptr_shapes slice_shapes

lemma dec_simple_ok:
  assumes "codec_fits (p_codec p) t" and "\<not> message_codec (p_codec p)" and "p_codec p \<noteq> NoCodec" and "val_typed ty t v"
  shows "ok_result ty t (dec_simple packed p b v)"
proof -
  have w: "\<And>f. (\<And>u. val_typed ty t (f u)) \<Longrightarrow> ok_result ty t (dec_value p b f v)" using assms(4) by (rule dec_value_ok)
  have s: "\<And>f. (\<And>u. val_typed ty t (f u)) \<Longrightarrow> ok_result ty t (dec_bytes dec b f v)"
    if "dec = DecodeStringBytes \<or> dec = DecodeRawBytes" for dec
    by (rule dec_bytes_ok [OF _ assms(4)]) (use that string_errs in blast)+
  obtain wire pk p3 where c: "p_codec p = codec_of wire pk p3 t" using assms(1) by (auto simp: codec_fits_def)
  show ?thesis
  proof (cases t)
    case (TPtr u)
    show ?thesis using assms(2-4) c w s unfolding TPtr
      by (cases u) (auto simp: dec_simple_def dec_simple_defs shapes split: if_splits)
  next
    case (TSlice u)
    show ?thesis using assms(2-4) c w s unfolding TSlice
      by (cases rule: codec_slice.cases [of "(wire, pk, p3, u)"])
         (auto simp: dec_simple_def dec_simple_defs shapes dec_packed_ok dec_slice_packed_bool_ok split: if_splits)
  qed (use assms(2-4) c w s in \<open>auto simp: dec_simple_def dec_simple_defs shapes\<close>)
qed

text \<open>What is asked of the types: the keys of maps are scalars and their values scalars, bytes or messages.\<close>

definition scalar_type :: "gotype \<Rightarrow> bool" where
  "scalar_type t \<longleftrightarrow> t \<in> {TBool, TInt32, TUint32, TInt64, TUint64, TFloat32, TFloat64, TString}"

fun map_types_ok :: "gotype \<Rightarrow> bool" where
  "map_types_ok (TMap k v) \<longleftrightarrow> scalar_type k \<and> (scalar_type v \<or> v = TSlice TUint8 \<or> (\<exists>n. v = TPtr (TStruct n)))"
| "map_types_ok _ \<longleftrightarrow> True"

definition um_typed :: "types \<Rightarrow> unmarshaler \<Rightarrow> bool" where
  "um_typed ty um \<longleftrightarrow> (\<forall>t g b m err b' m'. msg_typed ty (ty t) m \<and> um t g b m = Some (err, b', m')
     \<longrightarrow> msg_typed ty (ty t) m' \<and> err \<noteq> Some wrong_type)"

lemma um_typedD: "um_typed ty um \<Longrightarrow> msg_typed ty (ty t) m \<Longrightarrow> um t g b m = Some (err, b', m') \<Longrightarrow> msg_typed ty (ty t) m' \<and> err \<noteq> Some wrong_type"
  by (simp add: um_typed_def)

lemma dec_struct_message_ok:
  assumes "um_typed ty um" and "val_typed ty (TPtr (TStruct n)) (PMsg x)" and "dec_struct_message ty um n b x = Some r"
  shows "ok_result ty (TPtr (TStruct n)) r"
proof (cases "DecodeRawBytes b")
  case (Inl e)
  then show ?thesis using assms(2,3) DecodeRawBytes_err [OF Inl] by (auto simp: ok_result_def dec_struct_message_def)
next
  case (Inr a)
  then obtain raw b1 where raw: "DecodeRawBytes b = Inr (raw, b1)" by (cases a) simp
  let ?m = "case x of None \<Rightarrow> new_msg (ty n) | Some m \<Rightarrow> m"
  have m: "msg_typed ty (ty n) ?m" using assms(2) by (simp add: shapes new_msg_typed split: option.split)
  obtain err b2 m' where "um n False (NewBuffer raw) ?m = Some (err, b2, m')" and r: "r = (err, b1, PMsg (Some m'))"
    using assms(3) raw by (auto simp: dec_struct_message_def Let_def bind_eq_Some_conv)
  from um_typedD [OF assms(1) m this(1)] show ?thesis by (simp add: ok_result_def r shapes)
qed

lemma dec_struct_group_ok:
  assumes "um_typed ty um" and "val_typed ty (TPtr (TStruct n)) (PMsg x)" and "dec_struct_group ty um n b x = Some r"
  shows "ok_result ty (TPtr (TStruct n)) r"
  using assms
  by (auto simp: ok_result_def dec_struct_group_def shapes bind_eq_Some_conv Let_def new_msg_typed split: option.splits
      dest: um_typedD [OF assms(1) new_msg_typed] um_typedD [OF assms(1)])

lemma dec_slice_struct_ok:
  assumes "um_typed ty um" and "val_typed ty (TSlice (TPtr (TStruct n))) (LMsg x)" and "dec_slice_struct ty um n g b x = Some r"
  shows "ok_result ty (TSlice (TPtr (TStruct n))) r"
  using assms um_typedD [OF assms(1) new_msg_typed]
  by (auto simp: ok_result_def dec_slice_struct_def shapes bind_eq_Some_conv Let_def new_msg_typed split: sum.splits if_splits
      dest: DecodeRawBytes_err)

lemma codec_message:
  assumes "codec_fits c t" and "message_codec c"
  obtains (message) n where "t = TPtr (TStruct n)" "c = Struct_message n"
    | (group) n where "t = TPtr (TStruct n)" "c = Struct_group n"
    | (messages) n where "t = TSlice (TPtr (TStruct n))" "c = Slice_struct_message n"
    | (groups) n where "t = TSlice (TPtr (TStruct n))" "c = Slice_struct_group n"
    | (map) k v where "t = TMap k v" "c = New_map"
proof -
  obtain wire pk p3 where c: "c = codec_of wire pk p3 t" using assms(1) by (auto simp: codec_fits_def)
  show thesis
  proof (cases t)
    case (TPtr u)
    then show thesis using c assms(2) message group by (cases u) (auto split: if_splits)
  next
    case (TSlice u)
    then show thesis using c assms(2) messages groups
      by (cases rule: codec_slice.cases [of "(wire, pk, p3, u)"]) (auto split: if_splits)
  next
    case (TMap k v)
    then show thesis using c map by simp
  qed (use c assms(2) in auto)
qed

lemma dec_entry_ok:
  assumes "um_typed ty um" and "codec_fits (p_codec p) t" and "p_codec p \<noteq> New_map" and "p_codec p \<noteq> NoCodec" and "val_typed ty t v"
    and "dec_entry ty um packed p b v = Some r"
  shows "ok_result ty t r"
proof (cases "message_codec (p_codec p)")
  case True
  from assms(2) True show ?thesis
  proof (cases rule: codec_message)
    case (message n)
    then obtain x where "v = PMsg x" using assms(5) by (auto simp: shapes)
    then show ?thesis using assms message dec_struct_message_ok [OF assms(1)] by (simp add: dec_entry_def)
  next
    case (group n)
    then obtain x where "v = PMsg x" using assms(5) by (auto simp: shapes)
    then show ?thesis using assms group dec_struct_group_ok [OF assms(1)] by (simp add: dec_entry_def)
  next
    case (messages n)
    then obtain x where "v = LMsg x" using assms(5) by (auto simp: shapes)
    then show ?thesis using assms messages dec_slice_struct_ok [OF assms(1)] by (simp add: dec_entry_def)
  next
    case (groups n)
    then obtain x where "v = LMsg x" using assms(5) by (auto simp: shapes)
    then show ?thesis using assms groups dec_slice_struct_ok [OF assms(1)] by (simp add: dec_entry_def)
  qed (use assms(3) in simp)
next
  case False
  then have "dec_entry ty um packed p b v = Some (dec_simple packed p b v)"
    by (cases "p_codec p"; cases v) (simp_all add: dec_entry_def)
  then show ?thesis using dec_simple_ok [OF assms(2) False assms(4,5)] assms(6) by simp
qed

lemma entry_codec:
  assumes "map_types_ok (TMap kt vt)"
  shows "codec_fits c (TPtr kt) \<Longrightarrow> c \<noteq> New_map \<and> val_typed ty (TPtr kt) (zero_of_codec c)"
    and "codec_fits c (map_value_type vt) \<Longrightarrow> c \<noteq> New_map \<and> val_typed ty (map_value_type vt) (zero_of_codec c)"
  using assms by (auto simp: codec_fits_def scalar_type_def shapes split: if_splits)

text \<open>The key or the value of an entry: typed, or nil where the field has no decoder.\<close>

definition entry_val :: "types \<Rightarrow> entry_props \<Rightarrow> gotype \<Rightarrow> val \<Rightarrow> bool" where
  "entry_val ty p t v \<longleftrightarrow> (if p_codec p = NoCodec then v = PBool None else val_typed ty t v)"

definition entry_fits :: "entry_props \<Rightarrow> gotype \<Rightarrow> bool" where
  "entry_fits p t \<longleftrightarrow> p_codec p \<noteq> New_map \<and> (p_codec p = NoCodec \<or> codec_fits (p_codec p) t)"

lemma map_entry_loop_ok:
  assumes "um_typed ty um" and "entry_fits kp kt" and "entry_fits vp vt"
  shows "entry_val ty kp kt k \<Longrightarrow> entry_val ty vp vt v \<Longrightarrow> map_entry_loop ty um n kp vp raw oi b k v = Some (err, b', k', v')
    \<Longrightarrow> entry_val ty kp kt k' \<and> entry_val ty vp vt v' \<and> err \<noteq> Some wrong_type"
proof (induction n arbitrary: b k v)
  case (Suc n)
  have dec: "fst r \<noteq> Some wrong_type \<and> entry_val ty p t (snd (snd r))"
    if "dec_entry ty um packed p b v = Some r" "entry_fits p t" "entry_val ty p t v" for packed b v t r p
  proof (cases "p_codec p = NoCodec")
    case True
    then show ?thesis using that(1,3) by (auto simp: dec_entry_def dec_simple_def entry_val_def nil_function_def wrong_type_def)
  next
    case False
    then show ?thesis using dec_entry_ok [OF assms(1) _ _ False _ that(1), of t] that(2,3)
      by (simp add: ok_result_def entry_fits_def entry_val_def)
  qed
  let ?b1 = "b\<lparr>bf_index := bf_index b + 1\<rparr>"
  show ?case
  proof (cases "bf_index b < oi")
    case True
    show ?thesis
    proof (cases "p_tagcode kp = [] \<or> p_tagcode vp = []")
      case False
      then obtain kc ks vc vcs where tags: "p_tagcode kp = kc # ks" "p_tagcode vp = vc # vcs" by (auto simp: neq_Nil_conv)
      consider (key) "bf_buf b ! bf_index b = kc" | (val) "bf_buf b ! bf_index b \<noteq> kc" "bf_buf b ! bf_index b = vc"
        | (bad) "bf_buf b ! bf_index b \<noteq> kc" "bf_buf b ! bf_index b \<noteq> vc" by blast
      then show ?thesis
      proof cases
        case key
        then obtain err1 b2 k1 where d: "dec_entry ty um False kp ?b1 k = Some (err1, b2, k1)"
            and rest: "(if err1 \<noteq> None then Some (err1, b2, k1, v) else map_entry_loop ty um n kp vp raw oi b2 k1 v) = Some (err, b', k', v')"
          using Suc.prems(3) True tags by (auto simp: Let_def bind_eq_Some_conv)
        from dec [OF d assms(2) Suc.prems(1)] rest Suc.IH [of k1 v b2] Suc.prems(2) show ?thesis by (auto split: if_splits)
      next
        case val
        then obtain err1 b2 v1 where d: "dec_entry ty um False vp ?b1 v = Some (err1, b2, v1)"
            and rest: "(if err1 \<noteq> None then Some (err1, b2, k, v1) else map_entry_loop ty um n kp vp raw oi b2 k v1) = Some (err, b', k', v')"
          using Suc.prems(3) True tags by (auto simp: Let_def bind_eq_Some_conv)
        from dec [OF d assms(3) Suc.prems(2)] rest Suc.IH [of k v1 b2] Suc.prems(1) show ?thesis by (auto split: if_splits)
      next
        case bad
        then show ?thesis using Suc.prems True tags by (auto simp: Let_def wrong_type_def)
      qed
    qed (use True Suc.prems in \<open>auto simp: wrong_type_def split: list.splits\<close>)
  qed (use Suc.prems in simp)
qed simp

definition types_ok :: "types \<Rightarrow> bool" where
  "types_ok ty \<longleftrightarrow> (\<forall>t. \<forall>f \<in> set (ty t). map_types_ok (f_Type f))"

lemma init_codec: "p_codec (init_props m t name tag) = NoCodec \<or> codec_fits (p_codec (init_props m t name tag)) t"
  by (auto simp: init_props_def Let_def zero_props_def set_codec_def codec_fits_def)

lemma Properties_init_codec: "p_codec (Properties_init f) = NoCodec \<or> codec_fits (p_codec (Properties_init f)) (f_Type f)"
  by (auto simp: Properties_init_def init_codec split: gotype.split)

lemma init_mprops: "p_mprops (init_props m t name tag) = m"
proof -
  have opts: "p_mprops (parse_opts fs p) = p_mprops p" for fs and p :: "'a Properties"
    by (induction fs arbitrary: p) (auto simp: parse_opt_def)
  show ?thesis
    by (auto simp: init_props_def Let_def zero_props_def set_codec_def Properties_Parse_def opts split: list.split option.split prod.split)
qed

lemma is_nil_PBool: "\<not> is_nil v \<Longrightarrow> entry_val ty p t v \<Longrightarrow> val_typed ty t v"
  by (auto simp: entry_val_def split: if_splits)

lemma entry_zero:
  assumes "map_types_ok (TMap kt vt)"
  shows "entry_fits (init_props () (TPtr kt) name tag) (TPtr kt)
      \<and> entry_val ty (init_props () (TPtr kt) name tag) (TPtr kt) (zero_of_codec (p_codec (init_props () (TPtr kt) name tag)))"
    and "entry_fits (init_props () (map_value_type vt) name tag) (map_value_type vt)
      \<and> entry_val ty (init_props () (map_value_type vt) name tag) (map_value_type vt)
          (zero_of_codec (p_codec (init_props () (map_value_type vt) name tag)))"
  using init_codec [of "()" "TPtr kt" name tag] init_codec [of "()" "map_value_type vt" name tag] entry_codec [OF assms, of _ ty]
  by (auto simp: entry_fits_def entry_val_def)

lemma set_update_delete_subset: "set (AList.update k v es) \<subseteq> insert (k, v) (set es)" "set (AList.delete k es) \<subseteq> set es"
  by (induction es) (auto simp: AList.delete_eq)

lemma dec_new_map_ok:
  assumes "um_typed ty um" and "f_Type f = TMap kt vt" and "map_types_ok (f_Type f)" and "val_typed ty (TMap kt vt) (VMap es)"
    and "dec_new_map ty um (Properties_init f) b es = Some r"
  shows "ok_result ty (TMap kt vt) r"
proof (cases "DecodeRawBytes b")
  case (Inl e)
  then show ?thesis using assms(4,5) DecodeRawBytes_err [OF Inl] by (auto simp: ok_result_def dec_new_map_def)
next
  case (Inr a)
  then obtain raw b1 where raw: "DecodeRawBytes b = Inr (raw, b1)" by (cases a) simp
  define kp where "kp = init_props () (TPtr kt) ''Key'' (f_protobuf_key f)"
  define vp where "vp = init_props () (map_value_type vt) ''Value'' (f_protobuf_val f)"
  have mp: "p_mprops (Properties_init f) = Some (kp, vp)"
    using assms(2) by (simp add: Properties_init_def init_mprops kp_def vp_def)
  have m: "map_types_ok (TMap kt vt)" using assms(2,3) by simp
  note z = entry_zero(1) [OF m, of "''Key''" "f_protobuf_key f" ty, folded kp_def]
    entry_zero(2) [OF m, of "''Value''" "f_protobuf_val f" ty, folded vp_def]
  obtain err b2 k v where l: "map_entry_loop ty um (Suc (length (bf_buf b1))) kp vp raw (bf_index b1)
      (b1\<lparr>bf_index := bf_index b1 - length raw\<rparr>) (zero_of_codec (p_codec kp)) (zero_of_codec (p_codec vp)) = Some (err, b2, k, v)"
    and r: "r = (if err \<noteq> None then (err, b2, VMap es)
        else if is_nil k then (Some (PPanic ''reflect: call of reflect.Value.SetMapIndex on zero Value''), b2, VMap es)
        else if is_nil v then (None, b2, VMap (AList.delete k es)) else (None, b2, VMap (AList.update k v es)))"
    using assms(5) raw mp by (auto simp: dec_new_map_def bind_eq_Some_conv simp del: map_entry_loop.simps split: if_splits)
  have kv: "entry_val ty kp (TPtr kt) k" "entry_val ty vp (map_value_type vt) v" "err \<noteq> Some wrong_type"
    using map_entry_loop_ok [OF assms(1), of kp "TPtr kt" vp "map_value_type vt"] z l by blast+
  have es: "\<forall>(k, x) \<in> set es. val_typed ty (TPtr kt) k \<and> val_typed ty (map_value_type vt) x" using assms(4) by (simp add: map_shape)
  then have upd: "val_typed ty (TMap kt vt) (VMap (AList.update k v es))" if "\<not> is_nil k" "\<not> is_nil v"
    using is_nil_PBool [OF that(1) kv(1)] is_nil_PBool [OF that(2) kv(2)] set_update_delete_subset(1) [of k v es]
    by (fastforce simp: map_shape)
  have del: "val_typed ty (TMap kt vt) (VMap (AList.delete k es))"
    using es set_update_delete_subset(2) [of k es] by (fastforce simp: map_shape)
  show ?thesis using kv(3) upd del assms(4) by (auto simp: r ok_result_def wrong_type_def)
qed

lemma dec_field_ok:
  assumes "um_typed ty um" and "map_types_ok (f_Type f)" and "p_codec (Properties_init f) \<noteq> NoCodec" and "val_typed ty (f_Type f) v"
    and "dec_field ty um packed (Properties_init f) b v = Some r"
  shows "ok_result ty (f_Type f) r"
proof -
  have fits: "codec_fits (p_codec (Properties_init f)) (f_Type f)" using Properties_init_codec [of f] assms(3) by blast
  show ?thesis
  proof (cases "p_codec (Properties_init f) = New_map")
    case True
    then have "message_codec (p_codec (Properties_init f))" by simp
    with fits obtain kt vt where t: "f_Type f = TMap kt vt" using True by (cases rule: codec_message) simp_all
    then obtain es where "v = VMap es" using assms(4) by (auto simp: map_shape)
    then show ?thesis using dec_new_map_ok [OF assms(1) t assms(2)] assms(4,5) t True by (simp add: dec_field_def)
  next
    case False
    then have "dec_field ty um packed (Properties_init f) b v = dec_entry ty um packed (Properties_init f) b v"
      by (cases "p_codec (Properties_init f)") (simp_all add: dec_field_def)
    then show ?thesis using dec_entry_ok [OF assms(1) fits False assms(3,4)] assms(5) by simp
  qed
qed

section \<open>unmarshalType keeps the types\<close>

definition round_typed :: "types \<Rightarrow> go_field list \<Rightarrow> (unmarshal_result + unmarshal_state) \<Rightarrow> bool" where
  "round_typed ty fs r = (case r of
      Inl (err, _, m) \<Rightarrow> msg_typed ty fs m \<and> err \<noteq> Some wrong_type
    | Inr (_, st, _, m) \<Rightarrow> msg_typed ty fs m \<and> st \<noteq> Some wrong_type)"

lemma msg_typed_nth: "msg_typed ty fs (Msg vs unrec) \<longleftrightarrow> length vs = length fs \<and> (\<forall>i < length fs. val_typed ty (f_Type (fs ! i)) (vs ! i))"
  by (auto simp: msg_typed.simps set_zip) metis

lemma msg_typed_update:
  "msg_typed ty fs (Msg vs unrec) \<Longrightarrow> val_typed ty (f_Type (fs ! i)) v \<Longrightarrow> msg_typed ty fs (Msg (vs[i := v]) unrec)"
  by (cases "i < length vs") (auto simp: msg_typed_nth nth_list_update)

lemma shouldContinue_typed:
  assumes "shouldContinue e name st = (go_on, st')" and "e \<noteq> wrong_type" and "st \<noteq> Some wrong_type"
  shows "st' \<noteq> Some wrong_type"
  using assms by (cases e) (auto simp: wrong_type_def split: option.splits)

lemma unmarshal_known_typed:
  assumes "um_typed ty um" and "map_types_ok (f_Type (fs ! i))" and "i < length fs" and "msg_typed ty fs m" and "st \<noteq> Some wrong_type"
    and "unmarshal_known ty um (Properties_init (fs ! i)) i wire tag (req, st, b, m) = Some r"
  shows "round_typed ty fs r"
proof -
  obtain vs unrec where m: "m = Msg vs unrec" by (cases m)
  let ?p = "Properties_init (fs ! i)" and ?packed = "wire \<noteq> WireStartGroup \<and> wire \<noteq> p_WireType (Properties_init (fs ! i))"
  have v: "val_typed ty (f_Type (fs ! i)) (vs ! i)" using assms(3,4) by (simp add: m msg_typed_nth)
  show ?thesis
  proof (cases "p_codec ?p = NoCodec \<or> ?packed \<and> \<not> (wire = WireBytes \<and> packable (p_codec ?p))")
    case True
    then show ?thesis using assms(4-6) by (auto simp: unmarshal_known_def m Let_def round_typed_def wrong_type_def split: if_splits)
  next
    case False
    then obtain err b' v' where d: "dec_field ty um ?packed ?p b (vs ! i) = Some (err, b', v')"
        and r: "r = store_field ?p tag req st err b' (Msg (vs[i := v']) unrec)"
      using assms(6) by (auto simp: unmarshal_known_def m Let_def bind_eq_Some_conv)
    have "err \<noteq> Some wrong_type" "val_typed ty (f_Type (fs ! i)) v'"
      using dec_field_ok [OF assms(1,2) _ v d] False by (auto simp: ok_result_def)
    then show ?thesis using msg_typed_update [of ty fs vs unrec i v'] assms(4,5)
      by (auto simp: r m round_typed_def store_field_def split: option.splits prod.splits bool.splits dest: shouldContinue_typed)
  qed
qed

lemma skip_err:
  "skip n wire b = Some (err, b') \<Longrightarrow> err \<noteq> Some wrong_type"
  "skip_group n b = Some (err, b') \<Longrightarrow> err \<noteq> Some wrong_type"
proof (induction n wire b and n b arbitrary: err b' and err b' rule: skip_skip_group.induct)
  case (2 n wire b)
  have v: "\<not> valDec c b = Inl wrong_type" for c using valDec_err by blast
  show ?case using 2 v [of Varint] v [of Fixed64] v [of Fixed32] DecodeRawBytes_err [of b wrong_type]
    by (auto simp: wrong_type_def split: if_splits sum.splits)
next
  case (4 n b)
  show ?case
  proof (cases "DecodeVarint b")
    case (Inl e)
    then show ?thesis using "4.prems" DecodeVarint_err [OF Inl] by (auto simp: wrong_type_def)
  next
    case (Inr a)
    then obtain u b1 where r: "DecodeVarint b = Inr (u, b1)" by (cases a) simp
    show ?thesis
    proof (cases "unat (u AND 0x7) = WireEndGroup")
      case False
      then obtain err1 b2 where s: "skip n (unat (u AND 0x7)) b1 = Some (err1, b2)"
          and rest: "(if err1 \<noteq> None then Some (err1, b2) else skip_group n b2) = Some (err, b')"
        using "4.prems" r by (auto simp: Let_def bind_eq_Some_conv)
      show ?thesis using "4.IH"(1) [OF r refl refl False s] "4.IH"(2) [OF r refl refl False s refl] rest
        by (auto split: if_splits)
    qed (use "4.prems" r in simp)
  qed
qed simp_all

lemma unmarshal_unknown_typed:
  assumes "msg_typed ty fs m" and "st \<noteq> Some wrong_type" and "unmarshal_unknown un u wire (req, st, b, m) = Some r"
  shows "round_typed ty fs r"
  using assms skip_err(1) [of "skip_fuel b" wire b]
  by (cases m) (auto simp: unmarshal_unknown_def skipAndSave_def bind_eq_Some_conv round_typed_def msg_typed.simps split: if_splits)

lemma find_SomeD: "find P xs = Some x \<Longrightarrow> x \<in> set xs \<and> P x"
  by (auto simp: find_Some_iff)

lemma GetProperties_tags:
  assumes "tagMap_get (sp_decoderTags (GetProperties fs)) tag = Some fi"
  shows "nat fi < length fs" and "sp_Prop (GetProperties fs) ! nat fi = Properties_init (fs ! nat fi)"
proof -
  have "\<exists>i x. (i, x) \<in> set (enumerate 0 (map Properties_init fs)) \<and> fi = int i"
    using assms by (auto simp: GetProperties_def Let_def tags.get_fold tags.get_empty dest!: find_SomeD split: option.splits)
  then have "nat fi < length fs" by (auto simp: in_set_enumerate_eq)
  then show "nat fi < length fs" "sp_Prop (GetProperties fs) ! nat fi = Properties_init (fs ! nat fi)"
    by (simp_all add: GetProperties_def Let_def)
qed

lemma unmarshal_round_typed:
  assumes "um_typed ty um" and "\<forall>f \<in> set fs. map_types_ok (f_Type f)" and "msg_typed ty fs m" and "st \<noteq> Some wrong_type"
    and "unmarshal_round ty um (GetProperties fs) g (req, st, b, m) = Some r"
  shows "round_typed ty fs r"
proof (cases "bf_index b < length (bf_buf b)")
  case True
  show ?thesis
  proof (cases "DecodeVarint b")
    case (Inl e)
    then show ?thesis using assms(3,5) True DecodeVarint_err [OF Inl] by (auto simp: unmarshal_round_def round_typed_def wrong_type_def)
  next
    case (Inr a)
    then obtain u b1 where u: "DecodeVarint b = Inr (u, b1)" by (cases a) simp
    let ?tag = "int (unat (drop_bit 3 u))"
    show ?thesis
    proof (cases "unat (u AND 0x7) = WireEndGroup \<or> ?tag \<le> 0")
      case True
      then show ?thesis using assms(3,5) u \<open>bf_index b < length (bf_buf b)\<close>
        by (auto simp: unmarshal_round_def Let_def round_typed_def wrong_type_def split: if_splits)
    next
      case False
      note round = assms(5) u \<open>bf_index b < length (bf_buf b)\<close> False
      show ?thesis
      proof (cases "tagMap_get (sp_decoderTags (GetProperties fs)) ?tag")
        case None
        then show ?thesis using round unmarshal_unknown_typed [OF assms(3,4)] by (auto simp: unmarshal_round_def Let_def)
      next
        case (Some fi)
        note fi = GetProperties_tags [OF Some]
        have "map_types_ok (f_Type (fs ! nat fi))" using assms(2) fi(1) by simp
        from unmarshal_known_typed [OF assms(1) this fi(1) assms(3,4)] show ?thesis
          using round Some fi(2) by (auto simp: unmarshal_round_def Let_def)
      qed
    qed
  qed
next
  case False
  then show ?thesis using assms(3-5) by (auto simp: unmarshal_round_def round_typed_def unmarshal_end_def wrong_type_def)
qed

lemma unmarshal_loop_typed:
  assumes "types_ok ty"
  shows "\<forall>f \<in> set fs. map_types_ok (f_Type f) \<Longrightarrow> msg_typed ty fs m \<Longrightarrow> st \<noteq> Some wrong_type
    \<Longrightarrow> unmarshal_loop ty n fs g (req, st, b, m) = Some (err, b', m') \<Longrightarrow> msg_typed ty fs m' \<and> err \<noteq> Some wrong_type"
proof (induction n arbitrary: fs g req st b m err b' m')
  case (Suc n)
  have "um_typed ty (um_at ty n)" unfolding um_typed_def
  proof (intro allI impI, elim conjE)
    fix t g b m err b' m'
    assume m: "msg_typed ty (ty t) m" and l: "um_at ty n t g b m = Some (err, b', m')"
    have "\<forall>f \<in> set (ty t). map_types_ok (f_Type f)" using assms by (simp add: types_ok_def)
    from Suc.IH [OF this m _ l] show "msg_typed ty (ty t) m' \<and> err \<noteq> Some wrong_type" by simp
  qed
  note round = unmarshal_round_typed [OF this Suc.prems(1-3)]
  obtain r where r: "unmarshal_round ty (um_at ty n) (GetProperties fs) g (req, st, b, m) = Some r"
    and rest: "(case r of Inl res \<Rightarrow> Some res | Inr s' \<Rightarrow> unmarshal_loop ty n fs g s') = Some (err, b', m')"
    using Suc.prems(4) by (auto simp: unmarshal_loop.simps(2) bind_eq_Some_conv)
  show ?case
  proof (cases r)
    case (Inl res)
    then show ?thesis using round [OF r] rest by (simp add: round_typed_def)
  next
    case (Inr s)
    obtain req1 st1 b1 m1 where s: "s = (req1, st1, b1, m1)" by (cases s)
    then have ok: "msg_typed ty fs m1" "st1 \<noteq> Some wrong_type" using round [OF r] Inr by (simp_all add: round_typed_def)
    have "unmarshal_loop ty n fs g (req1, st1, b1, m1) = Some (err, b', m')" using rest Inr s by simp
    from Suc.IH [OF Suc.prems(1) ok this] show ?thesis .
  qed
qed (simp add: unmarshal_loop.simps)

text \<open>
  C11: The decoder is type-safe. \<open>Unmarshal\<close> into a well-typed message leaves a well-typed message on
  every input, also when it fails, and the untyped memory access never meets a value of the wrong
  type: the functions that \<open>setEncAndDec\<close> chose for a field are those of the field's Go type.
\<close>

theorem Unmarshal_typed:
  assumes "types_ok ty" and "msg_typed ty (ty t) m" and "UnmarshalMerge ty t data m = Some (err, m')"
  shows "msg_typed ty (ty t) m' \<and> err \<noteq> Some wrong_type"
proof -
  have "\<forall>f \<in> set (ty t). map_types_ok (f_Type f)" using assms(1) by (simp add: types_ok_def)
  moreover obtain b' where "um_at ty (Suc (length data)) t False (NewBuffer data) m = Some (err, b', m')"
    using assms(3) by (auto simp: UnmarshalMerge_def unmarshalType_def)
  ultimately show ?thesis using unmarshal_loop_typed [OF assms(1) _ assms(2)] by blast
qed

end
