(* ===== verification/Proto_Size.thy ===== *)
theory Proto_Size
  imports Proto_Types
begin

text \<open>
  \<open>Size\<close> agrees with \<open>Marshal\<close>. The move of a message to fit the length in front of it is a plain
  prefix; every sizer gives the length of what the encoder of the same field appends, for fields whose
  struct tags fit their types; for maps it does not.
\<close>

section \<open>enc_len_thing\<close>

lemma copy_at_mem:
  "k + length src \<le> length mem \<Longrightarrow> copy_at (length b + k) src (b @ mem) = b @ take k mem @ src @ drop (k + length src) mem"
  by (simp add: copy_at_def)

lemma len_shuffle_eq: "len_shuffle b body = b @ EncodeVarint (word_of_nat (length body)) @ body"
proof -
  let ?enc = "EncodeVarint (word_of_nat (length body))"
  have size: "sizeVarint (word_of_nat (length body)) = length ?enc" by (rule sizeVarint_length)
  have b1: "take (length body) (drop (length b + 4) (b @ replicate 4 (CHR 0x00) @ body)) = body" by simp
  have final: "take (length b + length ?enc + length body) (copy_at (length b) ?enc (b @ pre @ body @ rest)) = b @ ?enc @ body"
    if "length pre = length ?enc" for pre rest
    using that copy_at_mem [of 0 ?enc "pre @ body @ rest" b] by simp
  consider "length ?enc > 4" | "length ?enc < 4" | "length ?enc = 4" by linarith
  then show ?thesis
  proof cases
    case 1
    let ?mem = "replicate 4 (CHR 0x00) @ body @ replicate (length ?enc - 4) (CHR 0x00)"
    have "length b + 4 + (length ?enc - 4) = length b + length ?enc" using 1 by simp
    moreover have "copy_at (length b + length ?enc) body (b @ ?mem) = b @ take (length ?enc) ?mem @ body @ drop (length ?enc + length body) ?mem"
      using 1 by (intro copy_at_mem) simp
    ultimately show ?thesis using 1 final [of "take (length ?enc) ?mem" "drop (length ?enc + length body) ?mem"]
      by (simp add: len_shuffle_def Let_def size b1)
  next
    case 2
    let ?mem = "replicate 4 (CHR 0x00) @ body"
    have "length b + 4 - (4 - length ?enc) = length b + length ?enc" using 2 by simp
    moreover have "copy_at (length b + length ?enc) body (b @ ?mem) = b @ take (length ?enc) ?mem @ body @ drop (length ?enc + length body) ?mem"
      using 2 by (intro copy_at_mem) simp
    ultimately show ?thesis using 2 final [of "take (length ?enc) ?mem" "drop (length ?enc + length body) ?mem"]
      by (simp add: len_shuffle_def Let_def size b1)
  next
    case 3
    then show ?thesis using final [of "replicate 4 (CHR 0x00)" "[]"] by (simp add: len_shuffle_def Let_def size)
  qed
qed

section \<open>Struct tags that fit their types\<close>

fun wire_of :: "value_codec \<Rightarrow> nat" where
  "wire_of Fixed32 = WireFixed32"
| "wire_of Fixed64 = WireFixed64"
| "wire_of _ = WireVarint"

definition ints_fit :: "'m Properties \<Rightarrow> value_codec set \<Rightarrow> bool" where
  "ints_fit p cs \<longleftrightarrow> (case p_val p of None \<Rightarrow> False | Some c \<Rightarrow> c \<in> cs \<and> p_WireType p = wire_of c)"

text \<open>
  The encodings that keep the values: a bool takes one byte only as a varint, a 64-bit integer is not
  kept by the encodings for 32 bits. \<open>packed\<close> is for slices.
\<close>

fun codec_ok :: "'m Properties \<Rightarrow> codec \<Rightarrow> bool" where
  "codec_ok p (Slice_bool packed) = (ints_fit p {Varint} \<and> packed = p_Packed p)"
| "codec_ok p (Slice_int32 packed) = (ints_fit p UNIV \<and> packed = p_Packed p)"
| "codec_ok p (Slice_uint32 packed) = (ints_fit p UNIV \<and> packed = p_Packed p)"
| "codec_ok p (Slice_int64 packed) = (ints_fit p {Varint, Fixed64, Zigzag64} \<and> packed = p_Packed p)"
| "codec_ok p Proto3_bool = (ints_fit p {Varint} \<and> \<not> p_Packed p)"
| "codec_ok p Ptr_bool = (ints_fit p {Varint} \<and> \<not> p_Packed p)"
| "codec_ok p Proto3_int32 = (ints_fit p UNIV \<and> \<not> p_Packed p)"
| "codec_ok p Ptr_int32 = (ints_fit p UNIV \<and> \<not> p_Packed p)"
| "codec_ok p Proto3_uint32 = (ints_fit p UNIV \<and> \<not> p_Packed p)"
| "codec_ok p Ptr_uint32 = (ints_fit p UNIV \<and> \<not> p_Packed p)"
| "codec_ok p Proto3_int64 = (ints_fit p {Varint, Fixed64, Zigzag64} \<and> \<not> p_Packed p)"
| "codec_ok p Ptr_int64 = (ints_fit p {Varint, Fixed64, Zigzag64} \<and> \<not> p_Packed p)"
| "codec_ok p NoCodec = False"
| "codec_ok p New_map = False"
| "codec_ok p _ = (p_WireType p = WireBytes \<and> \<not> p_Packed p)"

fun repeated :: "codec \<Rightarrow> bool" where
  "repeated (Slice_bool packed) = (\<not> packed)"
| "repeated (Slice_int32 packed) = (\<not> packed)"
| "repeated (Slice_uint32 packed) = (\<not> packed)"
| "repeated (Slice_int64 packed) = (\<not> packed)"
| "repeated Slice_string = True"
| "repeated Slice_slice_byte = True"
| "repeated (Slice_struct_message _) = True"
| "repeated (Slice_struct_group _) = True"
| "repeated _ = False"

definition prop_ok :: "'m Properties \<Rightarrow> bool" where
  "prop_ok p \<longleftrightarrow> 1 \<le> p_Tag p \<and> p_Tag p < 2 ^ 29 \<and> \<not> internal p \<and> codec_ok p (p_codec p)
     \<and> p_tagcode p = tagcode (p_Tag p) (if p_Packed p then WireBytes else p_WireType p)
     \<and> (p_Required p \<longrightarrow> \<not> repeated (p_codec p))"

definition fields_ok :: "go_field list \<Rightarrow> bool" where
  "fields_ok fs \<longleftrightarrow>
     (\<forall>f \<in> set fs. prop_ok (Properties_init f) \<or> (internal (Properties_init f) \<and> p_codec (Properties_init f) = NoCodec))
     \<and> distinct (map p_Tag (filter (\<lambda>p. \<not> internal p) (map Properties_init fs)))"

section \<open>Sizes\<close>

text \<open>The errors with which the encoding goes on.\<close>

fun benign :: "proto_error option \<Rightarrow> bool" where
  "benign None = True"
| "benign (Some PErrNil) = True"
| "benign (Some (RequiredNotSetError _)) = True"
| "benign _ = False"

lemma sum_sizes_Returns: "(\<And>x. x \<in> set xs \<Longrightarrow> f x = Returns (g x)) \<Longrightarrow> sum_sizes (map f xs) = Returns (sum_list (map g xs))"
  by (induction xs) (simp_all add: add_size_def)

lemma enc_value_size: "enc_value p x = (b, e) \<Longrightarrow> benign e \<Longrightarrow> size_value p x = Returns (length b)"
  by (auto simp: enc_value_def size_value_def valSize_length nil_function_def split: option.splits)

lemma bool_varint: "length (EncodeVarint (bool64 x)) = 1"
  by (cases x) (simp_all add: bool64_def EncodeVarint.simps word_le_nat_alt)

lemma valSize_fun: "valSize c = length \<circ> valEnc c"
  by (simp add: fun_eq_iff valSize_length)

lemma bool_byte: "ints_fit p {Varint} \<Longrightarrow> enc_value p (bool64 x) = (b, e) \<Longrightarrow> length b = length (p_tagcode p) + 1"
  using bool_varint [of x] by (auto simp: ints_fit_def enc_value_def split: option.splits)

lemma sum_list_Suc: "sum_list (map (\<lambda>_. k) xs) = length xs * (k :: nat)"
  by (induction xs) simp_all

lemma enc_slice_values_size: "enc_slice_values p xs = (b, e) \<Longrightarrow> benign e \<Longrightarrow> size_slice_values p xs = Returns (length b)"
proof (cases "p_val p")
  case (Some c)
  assume "enc_slice_values p xs = (b, e)"
  then have b: "b = concat (map (\<lambda>x. p_tagcode p @ valEnc c x) xs)" using Some by (auto simp: enc_slice_values_def split: if_splits)
  have "size_slice_values p xs = Returns (sum_list (map (\<lambda>x. length (p_tagcode p) + valSize c x) xs))"
    unfolding size_slice_values_def by (rule sum_sizes_Returns) (simp add: size_value_def Some)
  then show ?thesis by (simp add: b length_concat valSize_length comp_def)
qed (auto simp: enc_slice_values_def nil_function_def size_slice_values_def split: if_splits)

lemma enc_slice_packed_values_size:
  "enc_slice_packed_values p xs = (b, e) \<Longrightarrow> benign e \<Longrightarrow> size_slice_packed_values p xs = Returns (length b)"
  by (auto simp: enc_slice_packed_values_def size_slice_packed_values_def nil_function_def Let_def valSize_fun sizeVarint_length
      length_concat comp_def split: if_splits option.splits)

lemma bools_length: "length (concat (map (\<lambda>x. pre @ EncodeVarint (bool64 x)) s)) = length s * (length pre + 1)"
  by (induction s) (simp_all add: bool_varint [simplified])

lemma enc_slice_bool_size:
  "ints_fit p {Varint} \<Longrightarrow> enc_slice_bool p s = (b, e) \<Longrightarrow> size_slice_bool p s = Returns (length b)"
  using bools_length [of "p_tagcode p" s]
  by (auto simp: ints_fit_def enc_slice_bool_def enc_slice_values_def size_slice_bool_def comp_def split: option.splits if_splits)

lemma enc_slice_packed_bool_size:
  "ints_fit p {Varint} \<Longrightarrow> enc_slice_packed_bool p s = (b, e) \<Longrightarrow> size_slice_packed_bool p s = Returns (length b)"
  using bools_length [of "[]" s]
  by (auto simp: ints_fit_def enc_slice_packed_bool_def size_slice_packed_bool_def comp_def sizeVarint_length split: option.splits if_splits)

text \<open>The encoders of fields without messages.\<close>

lemmas enc_defs = enc_proto3_bool_def enc_proto3_int32_def enc_proto3_uint32_def enc_proto3_int64_def enc_proto3_string_def
  enc_bool_def enc_int32_def enc_uint32_def enc_int64_def enc_string_def enc_slice_byte_def enc_proto3_slice_byte_def
  enc_slice_int32_def enc_slice_packed_int32_def enc_slice_uint32_def enc_slice_packed_uint32_def enc_slice_int64_def
  enc_slice_packed_int64_def enc_slice_slice_byte_def enc_slice_string_def

lemmas size_defs = size_proto3_bool_def size_proto3_int32_def size_proto3_uint32_def size_proto3_int64_def size_proto3_string_def
  size_bool_def size_int32_def size_uint32_def size_int64_def size_string_def size_slice_byte_def size_proto3_slice_byte_def
  size_slice_int32_def size_slice_packed_int32_def size_slice_uint32_def size_slice_packed_uint32_def size_slice_int64_def
  size_slice_packed_int64_def size_slice_slice_byte_def size_slice_string_def

lemma strings_length: "length (concat (map (\<lambda>s. pre @ f s) ss)) = length ss * length pre + sum_list (map (length \<circ> f) ss)"
  by (induction ss) simp_all

lemma raw_size_funs: "sizeRawBytes = length \<circ> EncodeRawBytes" "sizeStringBytes = length \<circ> EncodeStringBytes"
  by (simp_all add: fun_eq_iff raw_sizes)

lemma simple_size:
  assumes "codec_ok p (p_codec p)" and "\<not> message_codec (p_codec p)" and "enc_field ty p v = (b, e)" and "benign e"
  shows "size_field ty p v = Returns (length b)"
proof -
  have one: "enc_value p 1 = (b, e) \<Longrightarrow> ints_fit p {Varint} \<Longrightarrow> length b = length (p_tagcode p) + 1"
    using bool_byte [of p True b e] by (simp add: bool64_def)
  show ?thesis using assms
    by (cases "p_codec p"; cases v)
      (auto simp: enc_field.simps size_field.simps enc_defs size_defs wrong_type_def raw_size_funs strings_length
        intro: enc_value_size enc_slice_values_size enc_slice_packed_values_size enc_slice_bool_size enc_slice_packed_bool_size
        dest: one bool_byte split: if_splits option.splits)
qed

subsection \<open>Messages\<close>

definition continues :: "proto_error option \<Rightarrow> bool" where
  "continues e \<longleftrightarrow> e = None \<or> (\<exists>f. e = Some (RequiredNotSetError f))"

lemma continues_simps [simp]: "continues None" "continues (Some (RequiredNotSetError f))"
  by (simp_all add: continues_def)

lemma shouldContinue_iff: "fst (shouldContinue e name st) \<longleftrightarrow> continues (Some e)"
  by (cases e) (auto simp: continues_def)

lemma shouldContinue_st: "continues st \<Longrightarrow> continues (snd (shouldContinue e name st))"
  by (cases e) (auto simp: continues_def split: option.splits)

lemma benign_continues: "benign e \<longleftrightarrow> continues e \<or> e = Some PErrNil"
  by (cases e rule: benign.cases) (auto simp: continues_def)

lemma enc_fields_ok:
  "enc_fields st rs = (bs, err, stop) \<Longrightarrow> continues st \<Longrightarrow> continues err
     \<Longrightarrow> \<not> stop \<and> bs = concat (map (fst \<circ> snd) rs) \<and> (\<forall>(p, b, e) \<in> set rs. benign e)"
proof (induction rs arbitrary: st bs)
  case (Cons r rs)
  obtain p b e where r: "r = (p, b, e)" by (cases r)
  have go: ?case if eq: "enc_fields st (r # rs) = (case enc_fields st' rs of (bs, r) \<Rightarrow> (b @ bs, r))" and st': "continues st'" and "benign e" for st'
  proof -
    obtain bs' where e: "enc_fields st' rs = (bs', err, stop)" and bs: "bs = b @ bs'"
      using trans [OF sym [OF eq] Cons.prems(1)] by (cases "enc_fields st' rs") auto
    show ?thesis using Cons.IH [OF e st' Cons.prems(3)] \<open>benign e\<close> bs r by auto
  qed
  consider "e = None" | "e = Some PErrNil" | x where "e = Some x" "x \<noteq> PErrNil" by (cases e) auto
  then show ?case
  proof cases
    case 1
    then show ?thesis using go [of st] r Cons.prems(2) by simp
  next
    case 2
    then show ?thesis
      using go [of "if p_Required p \<and> st = None then Some (RequiredNotSetError (p_Name p)) else st"] r Cons.prems(2) by simp
  next
    case 3
    obtain go_on st' where s: "shouldContinue x (Some (p_Name p)) st = (go_on, st')" by (cases "shouldContinue x (Some (p_Name p)) st")
    have st': "continues st'" using shouldContinue_st [OF Cons.prems(2), of x "Some (p_Name p)"] s by simp
    have on: "go_on \<longleftrightarrow> continues (Some x)" using shouldContinue_iff [of x "Some (p_Name p)" st] s by simp
    have step: "enc_fields st (r # rs) =
        (if go_on then (case enc_fields st' rs of (bs, r) \<Rightarrow> (b @ bs, r)) else (b, Some x, True))"
      using 3 s r by (cases x) simp_all
    show ?thesis
    proof (cases go_on)
      case True
      then show ?thesis using step on st' 3 by (intro go [of st']) (simp_all add: benign_continues)
    next
      case False
      then show ?thesis using step on Cons.prems(1,3) by simp
    qed
  qed
qed simp

lemma enc_fields_not_nil: "enc_fields st rs = (bs, err, stop) \<Longrightarrow> continues st \<Longrightarrow> err \<noteq> Some PErrNil"
proof (induction rs arbitrary: st bs)
  case (Cons r rs)
  obtain p b e where r: "r = (p, b, e)" by (cases r)
  have go: ?case if "enc_fields st (r # rs) = (case enc_fields st' rs of (bs, r) \<Rightarrow> (b @ bs, r))" "continues st'" for st'
    using trans [OF sym [OF that(1)] Cons.prems(1)] Cons.IH [OF _ that(2)] by (cases "enc_fields st' rs") auto
  consider "e = None" | "e = Some PErrNil" | x where "e = Some x" "x \<noteq> PErrNil" by (cases e) auto
  then show ?case
  proof cases
    case 1
    then show ?thesis using go [of st] r Cons.prems(2) by simp
  next
    case 2
    then show ?thesis
      using go [of "if p_Required p \<and> st = None then Some (RequiredNotSetError (p_Name p)) else st"] r Cons.prems(2) by simp
  next
    case 3
    obtain go_on st' where s: "shouldContinue x (Some (p_Name p)) st = (go_on, st')" by (cases "shouldContinue x (Some (p_Name p)) st")
    have st': "continues st'" using shouldContinue_st [OF Cons.prems(2), of x "Some (p_Name p)"] s by simp
    have step: "enc_fields st (r # rs) =
        (if go_on then (case enc_fields st' rs of (bs, r) \<Rightarrow> (b @ bs, r)) else (b, Some x, True))"
      using 3 s r by (cases x) simp_all
    show ?thesis using step go [OF _ st'] Cons.prems(1) 3 by (cases go_on) auto
  qed
qed (auto simp: continues_def)

lemma enc_struct_not_nil: "snd (enc_struct ty fs m) \<noteq> Some PErrNil"
proof (cases m)
  case (Msg vs unrec)
  show ?thesis unfolding Msg enc_struct.simps Let_def
    by (auto split: prod.splits dest: enc_fields_not_nil)
qed

lemma enc_len_thing_ok:
  assumes "enc_len_thing (body, e) st = (b, err, st')" and "e \<noteq> Some PErrNil" and "continues st" and "benign err"
  shows "continues e \<and> continues st' \<and> err = st' \<and> b = EncodeVarint (word_of_nat (length body)) @ body \<and> (st' = None \<longrightarrow> e = None \<and> st = None)"
proof (cases e)
  case None
  then show ?thesis using assms by (auto simp: enc_len_thing_def len_shuffle_eq)
next
  case (Some x)
  obtain go_on st1 where s: "shouldContinue x None st = (go_on, st1)" by (cases "shouldContinue x None st")
  have "continues st1" using shouldContinue_st [OF assms(3), of x None] s by simp
  moreover have on: "go_on \<longleftrightarrow> continues (Some x)" using shouldContinue_iff [of x None st] s by simp
  moreover have "st1 \<noteq> None" if go_on using s that on by (auto simp: continues_def split: option.splits)
  ultimately show ?thesis using assms Some s by (cases go_on) (auto simp: enc_len_thing_def len_shuffle_eq benign_continues)
qed

lemma shouldContinue_again: "continues (Some e) \<Longrightarrow> shouldContinue e None (Some e) = (True, Some e)"
  by (auto simp: continues_def)

lemma not_benign_stops: "\<not> benign err \<Longrightarrow> err \<noteq> None \<and> \<not> fst (shouldContinue (the err) None st)"
  by (cases err) (auto simp: shouldContinue_iff benign_continues)

text \<open>The elements of a slice of messages that was encoded: all there, all encoded.\<close>

definition encoded_slice :: "(string \<Rightarrow> string) \<Rightarrow> proto_error option \<Rightarrow> proto_error option \<Rightarrow> enc_result option list \<Rightarrow> string \<Rightarrow> bool" where
  "encoded_slice f st err rs b \<longleftrightarrow> continues err \<and> (err = None \<longrightarrow> st = None) \<and>
     (\<exists>ms. rs = map Some ms \<and> (\<forall>(body, e) \<in> set ms. continues e \<and> (err = None \<longrightarrow> e = None)) \<and> b = concat (map (f \<circ> fst) ms))"

lemma encoded_slice_Cons:
  assumes "encoded_slice f st1 err rs b" and "continues e" and "st1 = None \<longrightarrow> e = None \<and> st = None"
  shows "encoded_slice f st err (Some (body, e) # rs) (f body @ b)"
proof -
  obtain ms where "rs = map Some ms" "\<forall>(body, e) \<in> set ms. continues e \<and> (err = None \<longrightarrow> e = None)" "b = concat (map (f \<circ> fst) ms)"
    using assms(1) by (auto simp: encoded_slice_def)
  then show ?thesis using assms unfolding encoded_slice_def by (intro conjI exI [of _ "(body, e) # ms"]) auto
qed

lemma enc_slice_struct_message_ok:
  "enc_slice_struct_message p st rs = (b, err) \<Longrightarrow> continues st \<Longrightarrow> benign err \<Longrightarrow> (\<forall>r. Some r \<in> set rs \<longrightarrow> snd r \<noteq> Some PErrNil)
    \<Longrightarrow> encoded_slice (\<lambda>body. p_tagcode p @ EncodeVarint (word_of_nat (length body)) @ body) st err rs b"
proof (induction rs arbitrary: st b)
  case (Cons r0 rs)
  show ?case
  proof (cases r0)
    case (Some r)
    obtain body e where r: "r = (body, e)" by (cases r)
    obtain b1 err1 st1 where l: "enc_len_thing (body, e) st = (b1, err1, st1)" by (cases "enc_len_thing (body, e) st") auto
    have e: "e \<noteq> Some PErrNil" using Cons.prems(4) Some r by fastforce
    show ?thesis
    proof (cases "benign err1")
      case True
      note ok = enc_len_thing_ok [OF l e Cons.prems(2) True]
      obtain bs where rest: "enc_slice_struct_message p st1 rs = (bs, err)" and b: "b = p_tagcode p @ b1 @ bs"
        using Cons.prems(1) Some r l ok by (cases st1) (auto simp: shouldContinue_again split: prod.splits)
      have "encoded_slice (\<lambda>body. p_tagcode p @ EncodeVarint (word_of_nat (length body)) @ body) st1 err rs bs"
        using Cons.IH [OF rest _ Cons.prems(3)] ok Cons.prems(4) by simp
      from encoded_slice_Cons [OF this, of e st body] ok show ?thesis by (simp add: Some r b)
    next
      case False
      have "\<not> benign err" using Cons.prems(1) Some r l not_benign_stops [OF False, of st1] False
        by (cases err1) (auto split: prod.splits if_splits)
      then show ?thesis using Cons.prems(3) by simp
    qed
  qed (use Cons.prems in auto)
qed (auto simp: encoded_slice_def benign_continues)

lemma enc_slice_struct_group_ok:
  "enc_slice_struct_group p st rs = (b, err) \<Longrightarrow> continues st \<Longrightarrow> benign err \<Longrightarrow> (\<forall>r. Some r \<in> set rs \<longrightarrow> snd r \<noteq> Some PErrNil)
    \<Longrightarrow> encoded_slice (\<lambda>body. group_key p WireStartGroup @ body @ group_key p WireEndGroup) st err rs b"
proof (induction rs arbitrary: st b)
  case (Cons r0 rs)
  show ?case
  proof (cases r0)
    case (Some r)
    obtain body e where r: "r = (body, e)" by (cases r)
    have e: "e \<noteq> Some PErrNil" using Cons.prems(4) Some r by fastforce
    obtain go_on st1 where s: "(case e of None \<Rightarrow> (True, st) | Some x \<Rightarrow> shouldContinue x None st) = (go_on, st1)"
      by (cases "case e of None \<Rightarrow> (True, st) | Some x \<Rightarrow> shouldContinue x None st") auto
    show ?thesis
    proof (cases go_on)
      case True
      have ok: "continues e \<and> continues st1 \<and> (st1 = None \<longrightarrow> e = None \<and> st = None)"
      proof (cases e)
        case None
        then show ?thesis using s True Cons.prems(2) by simp
      next
        case (Some x)
        then have "continues (Some x)" using s True shouldContinue_iff [of x None st] by simp
        then obtain f where "x = RequiredNotSetError f" by (auto simp: continues_def)
        then show ?thesis using s Some True Cons.prems(2) by (auto simp: continues_def split: option.splits)
      qed
      obtain bs where rest: "enc_slice_struct_group p st1 rs = (bs, err)"
        and b: "b = group_key p WireStartGroup @ body @ group_key p WireEndGroup @ bs"
        using Cons.prems(1) Some r s True by (auto split: prod.splits)
      have "encoded_slice (\<lambda>body. group_key p WireStartGroup @ body @ group_key p WireEndGroup) st1 err rs bs"
        using Cons.IH [OF rest _ Cons.prems(3)] ok Cons.prems(4) by simp
      from encoded_slice_Cons [OF this, of e st body] ok show ?thesis by (simp add: Some r b)
    next
      case False
      then have "\<not> continues e" using s shouldContinue_iff [of "the e" None st] by (cases e) auto
      then have "\<not> benign err" using Cons.prems(1) Some r s False e by (auto simp: benign_continues)
      then show ?thesis using Cons.prems(3) by simp
    qed
  qed (use Cons.prems in auto)
qed (auto simp: encoded_slice_def benign_continues)

definition struct_sized :: "types \<Rightarrow> go_field list \<Rightarrow> msg \<Rightarrow> bool" where
  "struct_sized ty fs m \<longleftrightarrow> (\<forall>b e. enc_struct ty fs m = (b, e) \<and> continues e \<longrightarrow> size_struct ty fs m = Returns (length b))"

lemma group_key_length: "group_key_size p w = length (group_key p w)"
  by (simp add: group_key_size_def group_key_def sizeVarint_length)

lemma with_length_eq: "with_length n = n + length (EncodeVarint (word_of_nat n))"
  by (simp add: with_length_def sizeVarint_length)

lemma size_elements_Returns:
  "size_elements f (map (\<lambda>x. Some (Returns (g x))) xs) = Returns (sum_list (map (f \<circ> g) xs))"
  by (induction xs) (simp_all add: add_size_def)

text \<open>The sizes of the messages of a slice, from those of its elements.\<close>

lemma elements_sized:
  assumes "encoded_slice f st err (map (map_option (enc_struct ty fs)) ms) b" and "\<forall>m. Some m \<in> set ms \<longrightarrow> struct_sized ty fs m"
  obtains bodies where "map (map_option (size_struct ty fs)) ms = map (\<lambda>body. Some (Returns (length body))) bodies"
    and "length bodies = length ms" and "b = concat (map f bodies)"
proof -
  obtain rs where rs: "map (map_option (enc_struct ty fs)) ms = map Some rs" "\<forall>(body, e) \<in> set rs. continues e" "b = concat (map (f \<circ> fst) rs)"
    using assms(1) by (auto simp: encoded_slice_def)
  have len: "length rs = length ms" using arg_cong [OF rs(1), of length] by simp
  have "map (map_option (size_struct ty fs)) ms = map (\<lambda>body. Some (Returns (length body))) (map fst rs)"
  proof (rule nth_equalityI)
    fix i
    assume i: "i < length (map (map_option (size_struct ty fs)) ms)"
    then have "map_option (enc_struct ty fs) (ms ! i) = Some (rs ! i)" using arg_cong [OF rs(1), of "\<lambda>xs. xs ! i"] len by simp
    then obtain m where m: "ms ! i = Some m" "enc_struct ty fs m = rs ! i" by auto
    moreover have "struct_sized ty fs m" using assms(2) m(1) i by (metis length_map nth_mem)
    moreover have "continues (snd (rs ! i))" using rs(2) len i by (auto simp: case_prod_beta)
    ultimately have "size_struct ty fs m = Returns (length (fst (rs ! i)))"
      unfolding struct_sized_def by (metis prod.collapse)
    then show "map (map_option (size_struct ty fs)) ms ! i = map (\<lambda>body. Some (Returns (length body))) (map fst rs) ! i"
      using m(1) i len by simp
  qed (simp add: len)
  then show thesis using that [of "map fst rs"] len rs(3) by (simp add: comp_def)
qed

lemma message_size:
  assumes "message_codec (p_codec p)" and "p_codec p \<noteq> New_map" and "enc_field ty p v = (b, e)" and "benign e"
    and sub: "\<And>t m. size m < size v \<Longrightarrow> struct_sized ty (ty t) m"
  shows "size_field ty p v = Returns (length b)"
proof -
  have nn: "\<forall>r. Some r \<in> set (map (map_option (enc_struct ty fs)) ms) \<longrightarrow> snd r \<noteq> Some PErrNil" for fs ms
  proof (intro allI impI)
    fix r
    assume "Some r \<in> set (map (map_option (enc_struct ty fs)) ms)"
    then obtain m where "enc_struct ty fs m = r" by (auto simp: image_iff) (metis map_option_eq_Some)
    then show "snd r \<noteq> Some PErrNil" using enc_struct_not_nil by blast
  qed
  show ?thesis
  proof (cases "p_codec p")
    case (Struct_message t)
    then obtain x where v: "v = PMsg x" using assms(3,4) by (cases v) (auto simp: enc_field.simps wrong_type_def)
    show ?thesis
    proof (cases x)
      case None
      then show ?thesis using assms(3) Struct_message v by (simp add: enc_field.simps size_field.simps enc_struct_message_def size_struct_message_def)
    next
      case (Some m)
      obtain body e' where m: "enc_struct ty (ty t) m = (body, e')" by (cases "enc_struct ty (ty t) m")
      obtain b1 err1 st1 where l: "enc_len_thing (body, e') None = (b1, err1, st1)" by (cases "enc_len_thing (body, e') None") auto
      have b: "b = p_tagcode p @ b1" "e = err1"
        using assms(3) Struct_message v Some m l by (simp_all add: enc_field.simps enc_struct_message_def)
      have "e' \<noteq> Some PErrNil" using enc_struct_not_nil [of ty "ty t" m] m by simp
      note ok = enc_len_thing_ok [OF l this] b assms(4)
      have "struct_sized ty (ty t) m" using sub [of m t] v Some by simp
      then have "size_struct ty (ty t) m = Returns (length body)" using m ok by (auto simp: struct_sized_def)
      then show ?thesis using Struct_message v Some ok by (simp add: size_field.simps size_struct_message_def with_length_eq)
    qed
  next
    case (Struct_group t)
    then obtain x where v: "v = PMsg x" using assms(3,4) by (cases v) (auto simp: enc_field.simps wrong_type_def)
    show ?thesis
    proof (cases x)
      case None
      then show ?thesis using assms(3) Struct_group v by (simp add: enc_field.simps size_field.simps enc_struct_group_def size_struct_group_def)
    next
      case (Some m)
      obtain body e' where m: "enc_struct ty (ty t) m = (body, e')" by (cases "enc_struct ty (ty t) m")
      have nil: "e' \<noteq> Some PErrNil" using enc_struct_not_nil [of ty "ty t" m] m by simp
      have res: "enc_struct_group p (Some (body, e')) = (b, e)" using assms(3) Struct_group v Some m by (simp add: enc_field.simps)
      have ok: "continues e'" "b = group_key p WireStartGroup @ body @ group_key p WireEndGroup"
        using res assms(4) nil by (cases e' rule: benign.cases; auto simp: enc_struct_group_def)+
      have "struct_sized ty (ty t) m" using sub [of m t] v Some by simp
      then have "size_struct ty (ty t) m = Returns (length body)" using m ok by (auto simp: struct_sized_def)
      then show ?thesis using Struct_group v Some ok by (simp add: size_field.simps size_struct_group_def group_key_length)
    qed
  next
    case (Slice_struct_message t)
    then obtain ms where v: "v = LMsg ms" using assms(3,4) by (cases v) (auto simp: enc_field.simps wrong_type_def)
    have sm: "\<forall>m. Some m \<in> set ms \<longrightarrow> struct_sized ty (ty t) m" using sub v by (auto simp: size_list_estimation' less_Suc_eq_le intro!: sub)
    have sl: "encoded_slice (\<lambda>body. p_tagcode p @ EncodeVarint (word_of_nat (length body)) @ body) None e (map (map_option (enc_struct ty (ty t))) ms) b"
      using enc_slice_struct_message_ok [where p = p, OF _ _ assms(4) nn] assms(3) Slice_struct_message v by (simp add: enc_field.simps)
    obtain bodies where "map (map_option (size_struct ty (ty t))) ms = map (\<lambda>body. Some (Returns (length body))) bodies"
      "length bodies = length ms" "b = concat (map (\<lambda>body. p_tagcode p @ EncodeVarint (word_of_nat (length body)) @ body) bodies)"
      by (rule elements_sized [OF sl sm])
    then show ?thesis using Slice_struct_message v
      by (simp add: size_field.simps size_slice_struct_message_def size_elements_Returns add_size_def strings_length comp_def with_length_eq add.commute)
  next
    case (Slice_struct_group t)
    then obtain ms where v: "v = LMsg ms" using assms(3,4) by (cases v) (auto simp: enc_field.simps wrong_type_def)
    have sm: "\<forall>m. Some m \<in> set ms \<longrightarrow> struct_sized ty (ty t) m" using sub v by (auto simp: size_list_estimation' less_Suc_eq_le intro!: sub)
    have sl: "encoded_slice (\<lambda>body. group_key p WireStartGroup @ body @ group_key p WireEndGroup) None e (map (map_option (enc_struct ty (ty t))) ms) b"
      using enc_slice_struct_group_ok [where p = p, OF _ _ assms(4) nn] assms(3) Slice_struct_group v by (simp add: enc_field.simps)
    obtain bodies where "map (map_option (size_struct ty (ty t))) ms = map (\<lambda>body. Some (Returns (length body))) bodies"
      "length bodies = length ms" "b = concat (map (\<lambda>body. group_key p WireStartGroup @ body @ group_key p WireEndGroup) bodies)"
      by (rule elements_sized [OF sl sm])
    then show ?thesis using Slice_struct_group v
      by (simp add: size_field.simps size_slice_struct_group_def size_elements_Returns add_size_def strings_length comp_def group_key_length
          sum_list_addf sum_list_Suc)
  qed (use assms(1,2) in simp_all)
qed

lemma GetProperties_simps [simp]:
  "sp_Prop (GetProperties fs) = map Properties_init fs"
  "sp_order (GetProperties fs) = field_order (map Properties_init fs)"
  by (simp_all add: GetProperties_def Let_def)

lemma set_field_order: "set (field_order ps) = {..< length ps}" "distinct (field_order ps)"
  by (auto simp: field_order_def)

text \<open>The fields that are encoded, in their order.\<close>

definition encoded_fields :: "go_field list \<Rightarrow> nat \<Rightarrow> nat list" where
  "encoded_fields fs n = filter (\<lambda>i. i < n \<and> p_codec (Properties_init (fs ! i)) \<noteq> NoCodec) (field_order (map Properties_init fs))"

lemma encoded_fields_set: "i \<in> set (encoded_fields fs n) \<longleftrightarrow> i < n \<and> i < length fs \<and> p_codec (Properties_init (fs ! i)) \<noteq> NoCodec"
  by (auto simp: encoded_fields_def set_field_order)

lemma enc_struct_fields:
  "enc_struct ty fs (Msg vs unrec) =
     (let (bs, st, stop) = enc_fields None (map (\<lambda>i. (Properties_init (fs ! i), enc_field ty (Properties_init (fs ! i)) (vs ! i)))
            (encoded_fields fs (min (length fs) (length vs))))
      in if stop then (bs, st) else (bs @ (if sp_unrecognized (GetProperties fs) then unrec else []), st))"
proof -
  let ?rs = "map (\<lambda>(p, v). (p, enc_field ty p v)) (zip (map Properties_init fs) vs)"
  have "filter (\<lambda>i. i < length ?rs \<and> p_codec (map Properties_init fs ! i) \<noteq> NoCodec) (field_order (map Properties_init fs))
      = encoded_fields fs (min (length fs) (length vs))"
    unfolding encoded_fields_def by (rule filter_cong [OF refl]) (auto simp: set_field_order)
  moreover have "map (\<lambda>i. ?rs ! i) (encoded_fields fs (min (length fs) (length vs)))
      = map (\<lambda>i. (Properties_init (fs ! i), enc_field ty (Properties_init (fs ! i)) (vs ! i))) (encoded_fields fs (min (length fs) (length vs)))"
    by (rule map_cong [OF refl]) (simp add: encoded_fields_set)
  ultimately show ?thesis by (simp only: enc_struct.simps Let_def GetProperties_simps)
qed

lemma size_struct_fields:
  "size_struct ty fs (Msg vs unrec) =
     add_size (sum_sizes (map (\<lambda>i. size_field ty (Properties_init (fs ! i)) (vs ! i)) (encoded_fields fs (min (length fs) (length vs)))))
       (Returns (if sp_unrecognized (GetProperties fs) then length unrec else 0))"
proof -
  let ?rs = "map (\<lambda>(p, v). size_field ty p v) (zip (map Properties_init fs) vs)"
  have "filter (\<lambda>i. i < length ?rs \<and> p_codec (map Properties_init fs ! i) \<noteq> NoCodec) (field_order (map Properties_init fs))
      = encoded_fields fs (min (length fs) (length vs))"
    unfolding encoded_fields_def by (rule filter_cong [OF refl]) (auto simp: set_field_order)
  moreover have "map (\<lambda>i. ?rs ! i) (encoded_fields fs (min (length fs) (length vs)))
      = map (\<lambda>i. size_field ty (Properties_init (fs ! i)) (vs ! i)) (encoded_fields fs (min (length fs) (length vs)))"
    by (rule map_cong [OF refl]) (simp add: encoded_fields_set)
  ultimately show ?thesis by (simp only: size_struct.simps Let_def GetProperties_simps)
qed

lemma fields_okD:
  assumes "fields_ok fs" and "i \<in> set (encoded_fields fs n)"
  shows "prop_ok (Properties_init (fs ! i))"
  using assms by (auto simp: fields_ok_def encoded_fields_set)

lemma codec_ok_not_map: "prop_ok p \<Longrightarrow> p_codec p \<noteq> New_map"
  by (auto simp: prop_ok_def)

lemma struct_sized:
  assumes "\<forall>t. fields_ok (ty t)"
  shows "fields_ok fs \<Longrightarrow> struct_sized ty fs m"
proof (induction m arbitrary: fs rule: measure_induct_rule [of size])
  case (less m)
  obtain vs unrec where m: "m = Msg vs unrec" by (cases m)
  let ?is = "encoded_fields fs (min (length fs) (length vs))" and ?p = "\<lambda>i. Properties_init (fs ! i)"
  have field: "size_field ty (?p i) (vs ! i) = Returns (length (fst (enc_field ty (?p i) (vs ! i))))"
    if i: "i \<in> set ?is" and be: "benign (snd (enc_field ty (?p i) (vs ! i)))" for i
  proof -
    have ok: "prop_ok (?p i)" using fields_okD [OF less.prems i] .
    have "vs ! i \<in> set vs" using i by (simp add: encoded_fields_set)
    then have sz: "size (vs ! i) < size m" using m by (simp add: size_list_estimation' less_Suc_eq_le)
    have sub: "struct_sized ty (ty t) m'" if "size m' < size (vs ! i)" for t m'
      by (rule less.IH) (use that sz assms in auto)
    show ?thesis
    proof (cases "message_codec (p_codec (?p i))")
      case True
      then show ?thesis using message_size [OF True codec_ok_not_map [OF ok] surjective_pairing be sub] by blast
    next
      case False
      have "codec_ok (?p i) (p_codec (?p i))" using ok by (simp add: prop_ok_def)
      from simple_size [OF this False surjective_pairing be] show ?thesis .
    qed
  qed
  show ?case unfolding struct_sized_def
  proof (intro allI impI, elim conjE)
    fix b e
    assume enc: "enc_struct ty fs m = (b, e)" and e: "continues e"
    let ?rs = "map (\<lambda>i. (?p i, enc_field ty (?p i) (vs ! i))) ?is"
    obtain bs st stop where f: "enc_fields None ?rs = (bs, st, stop)" by (cases "enc_fields None ?rs") auto
    then have "e = st" using enc by (simp add: m enc_struct_fields split: if_splits)
    then have ok: "\<not> stop" "bs = concat (map (fst \<circ> snd) ?rs)" "\<forall>(p, b, e) \<in> set ?rs. benign e"
      using enc_fields_ok [OF f] e by simp_all
    then have b: "b = concat (map (\<lambda>i. fst (enc_field ty (?p i) (vs ! i))) ?is) @ (if sp_unrecognized (GetProperties fs) then unrec else [])"
      using enc f by (simp add: m enc_struct_fields comp_def)
    have "sum_sizes (map (\<lambda>i. size_field ty (?p i) (vs ! i)) ?is) = Returns (sum_list (map (\<lambda>i. length (fst (enc_field ty (?p i) (vs ! i)))) ?is))"
      by (rule sum_sizes_Returns) (use field ok(3) in \<open>auto simp: case_prod_beta\<close>)
    then show "size_struct ty fs m = Returns (length b)"
      by (simp add: m size_struct_fields b add_size_def length_concat comp_def)
  qed
qed


end
