(* ===== verification/Proto_Roundtrip.thy ===== *)
theory Proto_Roundtrip
  imports Proto_Size "HOL-Library.Multiset"
begin

text \<open>
  \<open>Unmarshal\<close> gets back what \<open>Marshal\<close> wrote, for messages whose struct tags fit the types of the
  fields, without maps and unrecognized fields. The runs of the decoder are taken without fuel: as
  more fuel does not change a result, a run is a result for some fuel.
\<close>

section \<open>Runs\<close>

definition runs :: "types \<Rightarrow> go_field list \<Rightarrow> bool \<Rightarrow> unmarshal_state \<Rightarrow> unmarshal_result \<Rightarrow> bool" where
  "runs ty fs g s r \<longleftrightarrow> (\<exists>n. unmarshal_loop ty n fs g s = Some r)"

definition at :: "string \<Rightarrow> string \<Rightarrow> Buffer" where
  "at pre rest = \<lparr>bf_buf = pre @ rest, bf_index = length pre\<rparr>"

lemma um_at_mono: "n \<le> n' \<Longrightarrow> um_le (um_at ty n) (um_at ty n')"
  unfolding um_le_def opt_le_def by (metis not_None_eq unmarshal_loop_mono)

lemma at_append: "at (pre @ bs) rest = \<lparr>bf_buf = pre @ bs @ rest, bf_index = length pre + length bs\<rparr>"
  by (simp add: at_def)

lemma parses_at: "decodes_as dec bs v \<Longrightarrow> dec (at pre (bs @ post)) = Inr (v, at (pre @ bs) post)"
  by (simp add: decodes_as_def at_def)

text \<open>\<open>fparse\<close>: a field decoder reads \<open>bs\<close> wherever it stands in a buffer, and takes the field from one value to another.\<close>

definition fparse :: "types \<Rightarrow> props \<Rightarrow> bool \<Rightarrow> string \<Rightarrow> val \<Rightarrow> val \<Rightarrow> bool" where
  "fparse ty p packed bs v v' \<longleftrightarrow>
     (\<forall>pre post. length (pre @ bs @ post) < 2 ^ 63 \<longrightarrow>
       (\<exists>n. dec_field ty (um_at ty n) packed p (at pre (bs @ post)) v = Some (None, at (pre @ bs) post, v')))"

lemma fparseD:
  "fparse ty p packed bs v v' \<Longrightarrow> length (pre @ bs @ post) < 2 ^ 63 \<Longrightarrow>
     \<exists>n. dec_field ty (um_at ty n) packed p (at pre (bs @ post)) v = Some (None, at (pre @ bs) post, v')"
  by (simp only: fparse_def)

subsection \<open>The key of a field\<close>

lemma enumerate_filter: "map snd (filter (\<lambda>(i, p). Q p) (enumerate n ps)) = filter Q ps"
  by (induction ps arbitrary: n) auto

lemma tag_lookup:
  assumes "fields_ok fs" and "i < length fs" and "prop_ok (Properties_init (fs ! i))"
  shows "tagMap_get (sp_decoderTags (GetProperties fs)) (p_Tag (Properties_init (fs ! i))) = Some (int i)"
proof -
  let ?ps = "map Properties_init fs"
  let ?vis = "filter (\<lambda>(i, p). \<not> internal p) (enumerate 0 ?ps)"
  have "map (p_Tag \<circ> snd) ?vis = map p_Tag (filter (\<lambda>p. \<not> internal p) ?ps)"
    using arg_cong [OF enumerate_filter [of "\<lambda>p. \<not> internal p" 0 ?ps], of "map p_Tag"] by simp
  then have "distinct (map (p_Tag \<circ> snd) ?vis)" using assms(1) by (simp add: fields_ok_def)
  moreover have "(i, Properties_init (fs ! i)) \<in> set ?vis"
    using assms(2,3) by (auto simp: in_set_enumerate_eq prop_ok_def)
  ultimately show ?thesis using tags.get_distinct [of p_Tag ?vis i "Properties_init (fs ! i)"]
    by (simp add: GetProperties_def Let_def)
qed

definition key :: "'m Properties \<Rightarrow> nat \<Rightarrow> string" where
  "key p wire = EncodeVarint (key_word (p_Tag p) wire)"

text \<open>The wire types with which the field is decoded, and by which decoder.\<close>

definition uses_packed :: "'m Properties \<Rightarrow> nat \<Rightarrow> bool" where
  "uses_packed p wire \<longleftrightarrow> wire \<noteq> WireStartGroup \<and> wire \<noteq> p_WireType p"

definition wire_fits :: "'m Properties \<Rightarrow> nat \<Rightarrow> bool" where
  "wire_fits p wire \<longleftrightarrow> wire < 8 \<and> wire \<noteq> WireEndGroup \<and> (uses_packed p wire \<longrightarrow> wire = WireBytes \<and> packable (p_codec p))"

lemma runs_field:
  assumes fs: "fields_ok fs" "i < length fs" and p: "p = Properties_init (fs ! i)" "prop_ok p"
    and wire: "wire_fits p wire" and "fparse ty p (uses_packed p wire) bs (vs ! i) v"
    and "length (pre @ key p wire @ bs @ post) < 2 ^ 63"
    and "runs ty fs g (count_required p (p_Tag p) req, st, at (pre @ key p wire @ bs) post, Msg (vs[i := v]) unrec) r"
  shows "runs ty fs g (req, st, at pre (key p wire @ bs @ post), Msg vs unrec) r"
proof -
  obtain n1 where d: "dec_field ty (um_at ty n1) (uses_packed p wire) p (at (pre @ key p wire) (bs @ post)) (vs ! i)
      = Some (None, at (pre @ key p wire @ bs) post, v)"
    using fparseD [OF assms(6), of "pre @ key p wire" post] assms(7) by auto
  obtain n2 where l: "unmarshal_loop ty n2 fs g (count_required p (p_Tag p) req, st, at (pre @ key p wire @ bs) post, Msg (vs[i := v]) unrec) = Some r"
    using assms(8) by (auto simp: runs_def)
  let ?n = "max n1 n2"
  have d': "dec_field ty (um_at ty ?n) (uses_packed p wire) p (at (pre @ key p wire) (bs @ post)) (vs ! i)
      = Some (None, at (pre @ key p wire @ bs) post, v)"
    by (rule opt_leD [OF dec_field_mono d]) (rule um_at_mono, simp)
  have l': "unmarshal_loop ty ?n fs g (count_required p (p_Tag p) req, st, at (pre @ key p wire @ bs) post, Msg (vs[i := v]) unrec) = Some r"
    by (rule unmarshal_loop_mono [OF _ l]) simp
  have tag: "1 \<le> p_Tag p" "p_Tag p < 2 ^ 29" using p(2) by (simp_all add: prop_ok_def)
  have parts: "unat (key_word (p_Tag p) wire AND 0x7) = wire" "int (unat (drop_bit 3 (key_word (p_Tag p) wire))) = p_Tag p"
    using key_word_parts [of "p_Tag p" wire] tag wire by (simp_all add: wire_fits_def)
  have var: "DecodeVarint (at pre (key p wire @ bs @ post)) = Inr (key_word (p_Tag p) wire, at (pre @ key p wire) (bs @ post))"
    unfolding key_def by (rule parses_at [OF parses_varint])
  have "bf_index (at pre (key p wire @ bs @ post)) < length (bf_buf (at pre (key p wire @ bs @ post)))"
    by (simp add: at_def key_def)
  moreover have "p_codec p \<noteq> NoCodec" using p(2) by (auto simp: prop_ok_def)
  ultimately have "unmarshal_round ty (um_at ty ?n) (GetProperties fs) g (req, st, at pre (key p wire @ bs @ post), Msg vs unrec)
      = Some (Inr (count_required p (p_Tag p) req, st, at (pre @ key p wire @ bs) post, Msg (vs[i := v]) unrec))"
    using tag_lookup [OF fs p(2) [unfolded p(1)], folded p(1)] var parts tag(1) wire d' p(1) fs(2)
    by (simp add: unmarshal_round_def Let_def unmarshal_known_def wire_fits_def store_field_def flip: uses_packed_def)
  then have "unmarshal_loop ty (Suc ?n) fs g (req, st, at pre (key p wire @ bs @ post), Msg vs unrec) = Some r"
    using l' by (simp add: unmarshal_loop.simps(2))
  then show ?thesis unfolding runs_def by blast
qed
section \<open>The occurrences of a field\<close>

text \<open>
  \<open>items\<close>: the occurrences of a field, each a wire type and a payload, that take its value from one
  to another; \<open>item_bytes\<close>: how they are written.
\<close>

fun items :: "types \<Rightarrow> props \<Rightarrow> val \<Rightarrow> (nat \<times> string) list \<Rightarrow> val \<Rightarrow> bool" where
  "items ty p v [] v' \<longleftrightarrow> v = v'"
| "items ty p v ((w, bs) # its) v' \<longleftrightarrow> wire_fits p w \<and> (\<exists>u. fparse ty p (uses_packed p w) bs v u \<and> items ty p u its v')"

fun item_bytes :: "'m Properties \<Rightarrow> (nat \<times> string) list \<Rightarrow> string" where
  "item_bytes p [] = []"
| "item_bytes p ((w, bs) # its) = key p w @ bs @ item_bytes p its"

lemma runs_items:
  assumes fs: "fields_ok fs" "i < length fs" and p: "p = Properties_init (fs ! i)" "prop_ok p"
  shows "items ty p (vs ! i) its v \<Longrightarrow> i < length vs \<Longrightarrow> length (pre @ item_bytes p its @ post) < 2 ^ 63
    \<Longrightarrow> runs ty fs g ((count_required p (p_Tag p) ^^ length its) req, st, at (pre @ item_bytes p its) post, Msg (vs[i := v]) unrec) r
    \<Longrightarrow> runs ty fs g (req, st, at pre (item_bytes p its @ post), Msg vs unrec) r"
proof (induction its arbitrary: pre req vs)
  case (Cons it its)
  obtain w bs where it: "it = (w, bs)" by (cases it)
  obtain u where u: "wire_fits p w" "fparse ty p (uses_packed p w) bs (vs ! i) u" "items ty p u its v" using Cons.prems(1) it by auto
  have "runs ty fs g (count_required p (p_Tag p) req, st, at (pre @ key p w @ bs) (item_bytes p its @ post), Msg (vs[i := u]) unrec) r"
    using Cons.IH [of "vs[i := u]" "pre @ key p w @ bs" "count_required p (p_Tag p) req"] Cons.prems u(3) it
    by (simp add: funpow_swap1)
  from runs_field [OF fs p u(1,2) _ this] Cons.prems(3) show ?case by (simp add: it)
qed (auto simp: list_update_id)

lemma fold_update_nth:
  "distinct js \<Longrightarrow> k < length vs0 \<Longrightarrow> fold (\<lambda>j vs'. vs'[j := f j]) js vs0 ! k = (if k \<in> set js then f k else vs0 ! k)"
  by (induction js arbitrary: vs0) (auto simp: nth_list_update)

lemma fold_update_length [simp]: "length (fold (\<lambda>j vs'. vs'[j := f j]) js vs0) = length vs0"
  by (induction js arbitrary: vs0) auto

lemma runs_fields:
  assumes fs: "fields_ok fs"
  shows "\<forall>j \<in> set js. j < length fs \<and> prop_ok (Properties_init (fs ! j)) \<and> items ty (Properties_init (fs ! j)) (vs0 ! j) (its j) (vs ! j)
    \<Longrightarrow> distinct js \<Longrightarrow> length vs0 = length fs
    \<Longrightarrow> length (pre @ concat (map (\<lambda>j. item_bytes (Properties_init (fs ! j)) (its j)) js) @ post) < 2 ^ 63
    \<Longrightarrow> runs ty fs g (fold (\<lambda>j. count_required (Properties_init (fs ! j)) (p_Tag (Properties_init (fs ! j))) ^^ length (its j)) js req, st,
          at (pre @ concat (map (\<lambda>j. item_bytes (Properties_init (fs ! j)) (its j)) js)) post, Msg (fold (\<lambda>j vs'. vs'[j := vs ! j]) js vs0) unrec) r
    \<Longrightarrow> runs ty fs g (req, st, at pre (concat (map (\<lambda>j. item_bytes (Properties_init (fs ! j)) (its j)) js) @ post), Msg vs0 unrec) r"
proof (induction js arbitrary: pre req vs0)
  case (Cons j js)
  let ?p = "Properties_init (fs ! j)" and ?rest = "concat (map (\<lambda>j. item_bytes (Properties_init (fs ! j)) (its j)) js)"
  have j: "j < length fs" "prop_ok ?p" "items ty ?p (vs0 ! j) (its j) (vs ! j)" "j \<notin> set js" using Cons.prems(1,2) by auto
  have "runs ty fs g ((count_required ?p (p_Tag ?p) ^^ length (its j)) req, st, at (pre @ item_bytes ?p (its j)) (?rest @ post),
      Msg (vs0[j := vs ! j]) unrec) r"
  proof (rule Cons.IH)
    show "\<forall>k \<in> set js. k < length fs \<and> prop_ok (Properties_init (fs ! k)) \<and>
        items ty (Properties_init (fs ! k)) (vs0[j := vs ! j] ! k) (its k) (vs ! k)"
      using Cons.prems(1) j(4) by (metis list.set_intros(2) nth_list_update_neq)
  qed (use Cons.prems in simp_all)
  from runs_items [OF fs j(1) refl j(2,3) _ _ this] Cons.prems(3,4) j(1) show ?case by simp
qed simp

subsection \<open>Required fields\<close>

text \<open>A field that is required is counted once, when its tag has not been seen.\<close>

lemma count_required_bit:
  assumes "1 \<le> p_Tag p" and "p_Tag p \<le> 64 \<longrightarrow> \<not> bit w (nat (p_Tag p - 1))" and "p_Required p"
  shows "\<exists>w'. count_required p (p_Tag p) (c, w) = (c - 1, w') \<and> (\<forall>n. bit w' n \<longrightarrow> bit w n \<or> int n = p_Tag p - 1)"
proof (cases "p_Tag p \<le> 64")
  case True
  then have "nat (p_Tag p - 1) < 64" using assms(1) by linarith
  then show ?thesis using True assms by (auto simp: count_required_def Let_def and_exp_eq_0_iff_not_bit bit_simps)
qed (use assms in \<open>auto simp: count_required_def\<close>)

lemma required_counted:
  assumes "\<forall>j \<in> set js. 1 \<le> p_Tag (P j) \<and> (p_Required (P j) \<longrightarrow> n j = 1)" and "distinct (map (p_Tag \<circ> P) js)"
    and "\<forall>j \<in> set js. p_Tag (P j) \<le> 64 \<longrightarrow> \<not> bit w (nat (p_Tag (P j) - 1))"
  shows "fst (fold (\<lambda>j. count_required (P j) (p_Tag (P j)) ^^ n j) js (c, w)) = c - int (length (filter (p_Required \<circ> P) js))"
  using assms
proof (induction js arbitrary: c w)
  case (Cons j js)
  show ?case
  proof (cases "p_Required (P j)")
    case True
    obtain w' where w': "count_required (P j) (p_Tag (P j)) (c, w) = (c - 1, w')" "\<And>n. bit w' n \<Longrightarrow> bit w n \<or> int n = p_Tag (P j) - 1"
      using count_required_bit [of "P j" w c] Cons.prems True by auto
    have "\<forall>k \<in> set js. p_Tag (P k) \<le> 64 \<longrightarrow> \<not> bit w' (nat (p_Tag (P k) - 1))"
    proof (intro ballI impI notI)
      fix k
      assume k: "k \<in> set js" "p_Tag (P k) \<le> 64" "bit w' (nat (p_Tag (P k) - 1))"
      then have "p_Tag (P k) = p_Tag (P j)" using w'(2) [OF k(3)] Cons.prems(1,3) by auto
      then show False using k(1) Cons.prems(2) by (auto simp: image_iff)
    qed
    then show ?thesis using Cons.IH [of w' "c - 1"] Cons.prems w'(1) True by simp
  next
    case False
    then have "count_required (P j) (p_Tag (P j)) = (\<lambda>a. a)" by (simp add: fun_eq_iff count_required_def split: prod.splits)
    moreover have "((\<lambda>a. a) ^^ k) x = x" for k and x :: "int \<times> 64 word" by (induction k) simp_all
    ultimately show ?thesis using Cons False by simp
  qed
qed simp

lemma required_fields:
  assumes "fields_ok fs"
  shows "length (filter (\<lambda>j. p_Required (Properties_init (fs ! j))) (encoded_fields fs (length fs))) = sp_reqCount (GetProperties fs)"
    and "distinct (map (\<lambda>j. p_Tag (Properties_init (fs ! j))) (encoded_fields fs (length fs)))"
proof -
  let ?P = "\<lambda>j. Properties_init (fs ! j)" and ?js = "encoded_fields fs (length fs)"
  let ?vis = "filter (\<lambda>j. \<not> internal (?P j)) [0 ..< length fs]"
  have vis: "p_codec (?P j) \<noteq> NoCodec \<longleftrightarrow> \<not> internal (?P j)" if "j < length fs" for j
  proof -
    have "prop_ok (?P j) \<or> internal (?P j) \<and> p_codec (?P j) = NoCodec" using assms that by (auto simp: fields_ok_def)
    then show ?thesis by (auto simp: prop_ok_def)
  qed
  have js: "distinct ?js" by (simp add: encoded_fields_def set_field_order)
  have mset: "mset ?js = mset ?vis"
  proof (rule set_eq_iff_mset_eq_distinct [THEN iffD1, OF js])
    show "set ?js = set ?vis" using vis by (auto simp: encoded_fields_set)
  qed simp
  have map: "map ?P [0 ..< length fs] = map Properties_init fs" by (rule nth_equalityI) simp_all
  have "length (filter (\<lambda>j. p_Required (?P j)) ?js) = size (filter_mset (\<lambda>j. p_Required (?P j)) (mset ?js))" by (simp flip: mset_filter)
  also have "\<dots> = length (filter (\<lambda>j. p_Required (?P j)) ?vis)" by (simp add: mset flip: mset_filter)
  also have "\<dots> = length (filter (\<lambda>p. \<not> internal p \<and> p_Required p) (map ?P [0 ..< length fs]))"
    by (simp add: filter_map comp_def)
  also have "\<dots> = sp_reqCount (GetProperties fs)"
    using arg_cong [OF enumerate_filter [of "\<lambda>p. \<not> internal p \<and> p_Required p" 0 "map Properties_init fs"], of length, unfolded case_prod_unfold]
    by (simp add: map GetProperties_def Let_def case_prod_unfold)
  finally show "length (filter (\<lambda>j. p_Required (?P j)) ?js) = sp_reqCount (GetProperties fs)" .
  have "mset (map (\<lambda>j. p_Tag (?P j)) ?js) = mset (map (\<lambda>j. p_Tag (?P j)) ?vis)" using mset by simp
  also have "map (\<lambda>j. p_Tag (?P j)) ?vis = map p_Tag (filter (\<lambda>p. \<not> internal p) (map ?P [0 ..< length fs]))"
    by (simp add: filter_map comp_def)
  finally show "distinct (map (\<lambda>j. p_Tag (?P j)) ?js)"
    using assms by (metis fields_ok_def map mset_eq_imp_distinct_iff)
qed

section \<open>What the encoders write\<close>

subsection \<open>Keys\<close>

lemma key_tagcode: "prop_ok p \<Longrightarrow> p_tagcode p = key p (if p_Packed p then WireBytes else p_WireType p)"
  by (simp add: prop_ok_def key_def tagcode_varint)

lemma group_key_eq:
  assumes "prop_ok p" and "wire < 8"
  shows "group_key p wire = key p wire"
proof -
  have "0 \<le> p_Tag p" "p_Tag p < 2 ^ 29" using assms(1) by (simp_all add: prop_ok_def)
  then have t: "bit (p_Tag p) n \<Longrightarrow> n < 29" for n using bit_small_int [of "p_Tag p" 29 n] by simp
  have w: "bit wire n \<Longrightarrow> n < 3" for n using bit_small [of wire 3 n] assms(2) by simp
  have "push_bit 3 (word_of_int (p_Tag p)) OR word_of_nat wire = key_word (p_Tag p) wire"
    by (rule bit_word_eqI) (auto simp: key_word_def bit_simps dest: w t)
  then show ?thesis by (simp add: group_key_def key_def)
qed

subsection \<open>Integers and bytes\<close>

lemma fparse_value:
  assumes "p_val p = Some c" and "\<And>um b. dec_field ty um packed p b v = Some (dec_value p b f v)"
  shows "fparse ty p packed (valEnc c u) v (f (kept c u))"
  using assms by (simp add: fparse_def dec_value_def parses_at [OF parses_val])

lemma fparse_bytes:
  assumes "\<And>um b. dec_field ty um packed p b v = Some (dec_bytes dec b f v)" and "length s < 2 ^ 63 \<Longrightarrow> decodes_as dec bs s" and "length s \<le> length bs"
  shows "fparse ty p packed bs v (f s)"
  using assms(1,3) parses_at [OF assms(2)] by (simp add: fparse_def dec_bytes_def)

lemma kept_signed: "ucast (kept c (scast x)) = x" for x :: "32 word"
  by (rule bit_word_eqI) (auto simp: kept_def bit_simps)

lemma kept_unsigned: "ucast (kept c (ucast x)) = x" for x :: "32 word"
  by (rule bit_word_eqI) (auto simp: kept_def bit_simps)

lemma kept_64: "c \<in> {Varint, Fixed64, Zigzag64} \<Longrightarrow> kept c u = u"
  by (auto simp: kept_def)

lemma kept_bool: "kept c (bool64 x) \<noteq> 0 \<longleftrightarrow> x"
  by (simp add: kept_def bool64_def)

subsection \<open>Lists of occurrences\<close>

lemma items_single: "wire_fits p w \<Longrightarrow> fparse ty p (uses_packed p w) bs v v' \<Longrightarrow> items ty p v [(w, bs)] v'"
  by simp

lemma items_list:
  assumes "wire_fits p w" and "\<And>x acc. x \<in> set xs \<Longrightarrow> fparse ty p (uses_packed p w) (f x) (L acc) (L (acc @ [x]))"
  shows "items ty p (L acc) (map (\<lambda>x. (w, f x)) xs) (L (acc @ xs))"
  using assms(2)
proof (induction xs arbitrary: acc)
  case (Cons x xs)
  have "items ty p (L (acc @ [x])) (map (\<lambda>x. (w, f x)) xs) (L ((acc @ [x]) @ xs))" by (rule Cons.IH) (simp add: Cons.prems)
  then show ?case using Cons.prems [of x acc] assms(1) by auto
qed simp

lemma item_bytes_map: "item_bytes p (map (\<lambda>x. (w, f x)) xs) = concat (map (\<lambda>x. key p w @ f x) xs)"
  by (induction xs) simp_all

subsection \<open>Packed values\<close>

lemma packed_values_run:
  "packed_values c (int (length pre + length (concat (map (valEnc c) xs)))) (at pre (concat (map (valEnc c) xs) @ post)) acc
     = (None, at (pre @ concat (map (valEnc c) xs)) post, acc @ map (kept c) xs)"
proof (induction xs arbitrary: pre acc)
  case Nil
  then show ?case by (simp add: packed_values.simps at_def)
next
  case (Cons x xs)
  let ?rest = "concat (map (valEnc c) xs)"
  have "valDec c (at pre (valEnc c x @ ?rest @ post)) = Inr (kept c x, at (pre @ valEnc c x) (?rest @ post))"
    by (rule parses_at [OF parses_val])
  moreover have "0 < int (length (valEnc c x)) + int (length ?rest)" by (simp add: add_pos_nonneg)
  ultimately show ?case using Cons.IH [of "pre @ valEnc c x" "acc @ [kept c x]"]
    by (subst packed_values.simps) (simp add: at_def add.assoc)
qed

lemma packed_bools_run:
  "packed_bools c (length s) (at pre (concat (map (valEnc c \<circ> bool64) s) @ post)) acc
     = Inr (acc @ s, at (pre @ concat (map (valEnc c \<circ> bool64) s)) post)"
proof (induction s arbitrary: pre acc)
  case (Cons x s)
  have "valDec c (at pre (valEnc c (bool64 x) @ concat (map (valEnc c \<circ> bool64) s) @ post))
      = Inr (kept c (bool64 x), at (pre @ valEnc c (bool64 x)) (concat (map (valEnc c \<circ> bool64) s) @ post))"
    by (rule parses_at [OF parses_val])
  then show ?case using Cons.IH [of "pre @ valEnc c (bool64 x)" "acc @ [x]"] by (simp add: kept_bool comp_def)
qed simp

lemma fparse_packed:
  assumes "p_val p = Some c" and "xs \<noteq> []" and "\<And>um b. dec_field ty um packed p b v = Some (dec_packed p b f)"
  shows "fparse ty p packed (EncodeVarint (word_of_nat (length (concat (map (valEnc c) xs)))) @ concat (map (valEnc c) xs)) v (f (map (kept c) xs))"
  unfolding fparse_def
proof (intro allI impI)
  fix pre post
  let ?body = "concat (map (valEnc c) xs)" and ?n = "word_of_nat (length (concat (map (valEnc c) xs))) :: 64 word"
  let ?pre = "pre @ EncodeVarint ?n"
  assume len: "length (pre @ (EncodeVarint ?n @ ?body) @ post) < 2 ^ 63"
  then have fin: "wrap64 (int (length ?pre) + sint ?n) = int (length ?pre + length ?body)"
    by (simp add: sint_length in_int64_def)
  have "?body \<noteq> []" using assms(2) by (cases xs) auto
  moreover have "DecodeVarint (at pre (EncodeVarint ?n @ ?body @ post)) = Inr (?n, at ?pre (?body @ post))"
    by (rule parses_at [OF parses_varint])
  ultimately have "dec_packed p (at pre (EncodeVarint ?n @ ?body @ post)) f = (None, at (?pre @ ?body) post, f (map (kept c) xs))"
    using fin packed_values_run [of c ?pre xs post "[]"] assms(1) by (simp add: dec_packed_def Let_def at_def del: concat_eq_Nil_conv)
  then show "\<exists>n. dec_field ty (um_at ty n) packed p (at pre ((EncodeVarint ?n @ ?body) @ post)) v = Some (None, at (pre @ EncodeVarint ?n @ ?body) post, f (map (kept c) xs))"
    by (simp add: assms(3))
qed

lemma fparse_packed_bool:
  assumes "p_val p = Some c" and "\<And>um b. dec_field ty um packed p b (LBool acc) = Some (dec_slice_packed_bool p b acc)"
    and "length s \<le> length (concat (map (valEnc c \<circ> bool64) s))"
  shows "fparse ty p packed (EncodeVarint (word_of_nat (length s)) @ concat (map (valEnc c \<circ> bool64) s)) (LBool acc) (LBool (acc @ s))"
  unfolding fparse_def
proof (intro allI impI)
  fix pre post
  let ?body = "concat (map (valEnc c \<circ> bool64) s)" and ?n = "word_of_nat (length s) :: 64 word"
  assume "length (pre @ (EncodeVarint ?n @ ?body) @ post) < 2 ^ 63"
  then have "length s < 2 ^ 63" using assms(3) by simp
  then have n: "sint ?n = int (length s)" by (rule sint_length)
  have "DecodeVarint (at pre (EncodeVarint ?n @ ?body @ post)) = Inr (?n, at (pre @ EncodeVarint ?n) (?body @ post))"
    by (rule parses_at [OF parses_varint])
  then have "dec_slice_packed_bool p (at pre (EncodeVarint ?n @ ?body @ post)) acc = (None, at (pre @ EncodeVarint ?n @ ?body) post, LBool (acc @ s))"
    using n packed_bools_run [of c s "pre @ EncodeVarint ?n" post acc] assms(1) by (simp add: dec_slice_packed_bool_def)
  then show "\<exists>n. dec_field ty (um_at ty n) packed p (at pre ((EncodeVarint ?n @ ?body) @ post)) (LBool acc)
      = Some (None, at (pre @ EncodeVarint ?n @ ?body) post, LBool (acc @ s))"
    by (simp add: assms(2))
qed

section \<open>Fields\<close>

fun zero_field :: "codec \<Rightarrow> val" where
  "zero_field Proto3_bool = VBool False"
| "zero_field Proto3_int32 = VW32 0"
| "zero_field Proto3_uint32 = VW32 0"
| "zero_field Proto3_int64 = VW64 0"
| "zero_field Proto3_string = VString []"
| "zero_field (Slice_bool _) = LBool []"
| "zero_field (Slice_int32 _) = LW32 []"
| "zero_field (Slice_uint32 _) = LW32 []"
| "zero_field (Slice_int64 _) = LW64 []"
| "zero_field Slice_string = LString []"
| "zero_field Slice_slice_byte = LBytes []"
| "zero_field (Slice_struct_message _) = LMsg []"
| "zero_field (Slice_struct_group _) = LMsg []"
| "zero_field New_map = VMap []"
| "zero_field c = zero_of_codec c"

lemma zero_field_val: "codec_fits c t \<Longrightarrow> c \<noteq> NoCodec \<Longrightarrow> zero_val t = zero_field c"
proof -
  assume "codec_fits c t" and n: "c \<noteq> NoCodec"
  then obtain wire pk p3 where c: "c = codec_of wire pk p3 t" by (auto simp: codec_fits_def)
  show ?thesis
  proof (cases t)
    case (TPtr u)
    then show ?thesis using c n by (cases u) (auto split: if_splits)
  next
    case (TSlice u)
    then show ?thesis using c n by (cases rule: codec_slice.cases [of "(wire, pk, p3, u)"]) (auto split: if_splits)
  qed (use c n in auto)
qed

text \<open>\<open>field_done\<close>: the bytes of a field decode to its value; when the field is required, they are one occurrence.\<close>

definition field_done :: "types \<Rightarrow> props \<Rightarrow> string \<Rightarrow> proto_error option \<Rightarrow> val \<Rightarrow> val \<Rightarrow> bool" where
  "field_done ty p b e z v \<longleftrightarrow>
     (\<exists>its. b = item_bytes p its \<and> items ty p z its v \<and> (p_Required p \<and> e = None \<longrightarrow> length its = 1))"

lemma done_nil: "z = v \<Longrightarrow> field_done ty p [] (Some PErrNil) z v"
  unfolding field_done_def by (rule exI [of _ "[]"]) simp

lemma done_single: "wire_fits p w \<Longrightarrow> fparse ty p (uses_packed p w) bs z v \<Longrightarrow> field_done ty p (key p w @ bs) e z v"
  unfolding field_done_def by (rule exI [of _ "[(w, bs)]"]) simp

lemma done_list:
  assumes "wire_fits p w" and "\<And>x acc. x \<in> set xs \<Longrightarrow> fparse ty p (uses_packed p w) (f x) (L acc) (L (acc @ [x]))"
    and "\<not> p_Required p"
  shows "field_done ty p (concat (map (\<lambda>x. key p w @ f x) xs)) e (L []) (L xs)"
  unfolding field_done_def using items_list [of p w xs ty f L "[]", OF assms(1,2)] assms(3)
  by (intro exI [of _ "map (\<lambda>x. (w, f x)) xs"]) (simp add: item_bytes_map)

lemma own_wire: "prop_ok p \<Longrightarrow> wire_fits p (p_WireType p) \<and> \<not> uses_packed p (p_WireType p)"
proof -
  assume "prop_ok p"
  then have "codec_ok p (p_codec p)" by (simp add: prop_ok_def)
  moreover have "wire_of c \<in> {WireVarint, WireFixed32, WireFixed64}" for c by (cases c) simp_all
  ultimately have "p_WireType p \<in> {WireVarint, WireFixed32, WireFixed64, WireBytes}"
    by (cases "p_codec p") (auto simp: ints_fit_def split: option.splits)
  then show ?thesis by (auto simp: wire_fits_def uses_packed_def wire_defs)
qed

lemma unpacked_key: "prop_ok p \<Longrightarrow> \<not> p_Packed p \<Longrightarrow> p_tagcode p = key p (p_WireType p)"
  by (simp add: key_tagcode)

lemma done_value:
  assumes "prop_ok p" and "\<not> p_Packed p" and "p_val p = Some c" and "enc_value p x = (b, e)"
    and "\<And>um b. dec_field ty um False p b z = Some (dec_value p b f z)" and "f (kept c x) = v"
  shows "field_done ty p b e z v"
  using assms(3,4) done_single [of p "p_WireType p" ty "valEnc c x" z v e] fparse_value [OF assms(3), of ty False z f x] assms(5,6)
    own_wire [OF assms(1)] unpacked_key [OF assms(1,2)]
  by (simp add: enc_value_def)

lemma done_bytes:
  assumes "prop_ok p" and "\<not> p_Packed p"
    and "\<And>um b. dec_field ty um False p b z = Some (dec_bytes dec b f z)" and "length s < 2 ^ 63 \<Longrightarrow> decodes_as dec bs s" and "length s \<le> length bs"
    and "f s = v"
  shows "field_done ty p (p_tagcode p @ bs) e z v"
  using done_single [of p "p_WireType p" ty bs z v e] fparse_bytes [where f = f, OF assms(3-5)] assms(6)
    own_wire [OF assms(1)] unpacked_key [OF assms(1,2)] by simp

lemmas dec_field_defs = dec_field_def dec_entry_def dec_simple_def dec_simple_defs

lemma length_raw: "length s \<le> length (EncodeRawBytes s)" "length s \<le> length (EncodeStringBytes s)"
  by (simp_all add: EncodeRawBytes_def EncodeStringBytes_def)

lemma ints_okD: "ints_fit p cs \<Longrightarrow> \<exists>c. p_val p = Some c \<and> c \<in> cs \<and> p_WireType p = wire_of c"
  by (auto simp: ints_fit_def split: option.splits)

text \<open>The value an integer is read as.\<close>

fun read_int :: "codec \<Rightarrow> 64 word \<Rightarrow> val" where
  "read_int Proto3_bool u = VBool (u \<noteq> 0)"
| "read_int Proto3_int64 u = VW64 u"
| "read_int Ptr_bool u = PBool (Some (u \<noteq> 0))"
| "read_int Ptr_int32 u = PW32 (Some (ucast u))"
| "read_int Ptr_uint32 u = PW32 (Some (ucast u))"
| "read_int Ptr_int64 u = PW64 (Some u)"
| "read_int _ u = VW32 (ucast u)"

definition int_codecs :: "codec set" where
  "int_codecs = {Proto3_bool, Proto3_int32, Proto3_uint32, Proto3_int64, Ptr_bool, Ptr_int32, Ptr_uint32, Ptr_int64}"

lemma read_int: "p_codec p \<in> int_codecs \<Longrightarrow>
    dec_field ty um False p b (zero_field (p_codec p)) = Some (dec_value p b (read_int (p_codec p)) (zero_field (p_codec p)))"
  unfolding int_codecs_def by (elim insertE emptyE) (simp_all add: dec_field_defs dec_value_def split: option.split sum.split)

text \<open>The word an integer is written as.\<close>

fun int_word :: "codec \<Rightarrow> val \<Rightarrow> 64 word" where
  "int_word c (VBool x) = bool64 x"
| "int_word c (PBool (Some x)) = bool64 x"
| "int_word c (VW32 x) = (if c = Proto3_int32 then scast x else ucast x)"
| "int_word c (PW32 (Some x)) = (if c = Ptr_int32 then scast x else ucast x)"
| "int_word c (VW64 x) = x"
| "int_word c (PW64 (Some x)) = x"
| "int_word c _ = 0"

lemma written_int:
  assumes "p_codec p \<in> int_codecs" and "enc_field ty p v = (b, e)" and "benign e" and "codec_ok p (p_codec p)" and "p_val p = Some c"
  shows "b = [] \<and> e = Some PErrNil \<and> zero_field (p_codec p) = v
    \<or> enc_value p (int_word (p_codec p) v) = (b, e) \<and> read_int (p_codec p) (kept c (int_word (p_codec p) v)) = v"
proof -
  have w64: "p_codec p \<in> {Proto3_int64, Ptr_int64} \<Longrightarrow> kept c x = x" for x using assms(4,5) kept_64 [of c x] by (auto dest!: ints_okD)
  have one: "enc_value p 1 = enc_value p (bool64 True)" by (simp add: bool64_def)
  show ?thesis using assms(1-3) unfolding int_codecs_def
    by (elim insertE emptyE; cases v)
       (auto simp: enc_field.simps wrong_type_def enc_defs one kept_bool kept_signed kept_unsigned w64 split: if_splits option.splits)
qed

lemma integer_done:
  assumes ok: "prop_ok p" and c: "p_codec p \<in> int_codecs" and enc: "enc_field ty p v = (b, e)" "benign e"
  shows "field_done ty p b e (zero_field (p_codec p)) v"
proof -
  have co: "codec_ok p (p_codec p)" using ok by (simp add: prop_ok_def)
  then obtain c' where c': "p_val p = Some c'" using c by (auto simp: int_codecs_def dest!: ints_okD)
  have np: "\<not> p_Packed p" using c co by (auto simp: int_codecs_def)
  show ?thesis using written_int [OF c enc co c'] done_nil done_value [OF ok np c' _ read_int [OF c]] by blast
qed

text \<open>The value a string is read as.\<close>

lemma bytes_done:
  assumes ok: "prop_ok p" and c: "p_codec p \<in> {Proto3_string, Ptr_string, Slice_byte False, Slice_byte True}"
    and enc: "enc_field ty p v = (b, e)" "benign e" and canon: "p_codec p = Slice_byte True \<longrightarrow> v \<noteq> VBytes (Some [])"
  shows "field_done ty p b e (zero_field (p_codec p)) v"
proof -
  have "codec_ok p (p_codec p)" using ok by (simp add: prop_ok_def)
  then have np: "\<not> p_Packed p" using c by auto
  have str: "field_done ty p (p_tagcode p @ EncodeStringBytes s) e (VString []) (VString s)" if "p_codec p = Proto3_string" for s
    by (rule done_bytes [OF ok np _ parses_string length_raw(2) refl]) (simp_all add: that dec_field_defs)
  have ptr: "field_done ty p (p_tagcode p @ EncodeStringBytes s) e (PString None) (PString (Some s))" if "p_codec p = Ptr_string" for s
    by (rule done_bytes [OF ok np _ parses_string length_raw(2), where f = "\<lambda>s. PString (Some s)"]) (simp_all add: that dec_field_defs)
  have raw: "field_done ty p (p_tagcode p @ EncodeRawBytes s) e (VBytes None) (VBytes (Some s))" if "p_codec p = Slice_byte p3" for s p3
    by (rule done_bytes [OF ok np _ parses_raw length_raw(1), where f = "\<lambda>s. VBytes (Some s)"]) (simp_all add: that dec_field_defs)
  show ?thesis using c enc canon str ptr raw
    by (elim insertE emptyE; cases v)
       (auto simp: enc_field.simps enc_defs wrong_type_def intro!: done_nil split: if_splits option.splits)
qed

text \<open>Slices that are not packed: an occurrence for each element.\<close>

lemma done_slice:
  assumes "prop_ok p" and "\<not> p_Packed p" and "repeated (p_codec p)"
    and "\<And>x acc. x \<in> set xs \<Longrightarrow> fparse ty p False (f x) (L acc) (L (acc @ [x]))"
  shows "field_done ty p (concat (map (\<lambda>x. p_tagcode p @ f x) xs)) e (L []) (L xs)"
proof -
  have "\<not> p_Required p" using assms(1,3) by (auto simp: prop_ok_def)
  then show ?thesis using done_list [of p "p_WireType p" xs ty f L e] own_wire [OF assms(1)] unpacked_key [OF assms(1,2)] assms(4) by simp
qed

lemma done_values:
  assumes "prop_ok p" and "\<not> p_Packed p" and "repeated (p_codec p)" and "p_val p = Some c" and "enc_slice_values p (map g xs) = (b, e)"
    and "\<And>um b acc. dec_field ty um False p b (L acc) = Some (dec_value p b (\<lambda>u. L (acc @ [h u])) (L acc))" and "\<And>x. h (kept c (g x)) = x"
  shows "field_done ty p b e (L []) (L xs)"
proof (cases "xs = []")
  case True
  then show ?thesis using assms(5) done_nil [of "L []" "L []" ty p] by (simp add: enc_slice_values_def)
next
  case False
  have "fparse ty p False (valEnc c (g x)) (L acc) (L (acc @ [x]))" for x acc
    using fparse_value [OF assms(4,6), of "g x" acc] assms(7) by simp
  then show ?thesis using done_slice [OF assms(1-3), of xs ty "\<lambda>x. valEnc c (g x)" L e] assms(4,5) False
    by (simp add: enc_slice_values_def comp_def)
qed

lemma packed_wire: "prop_ok p \<Longrightarrow> packable (p_codec p) \<Longrightarrow> wire_fits p WireBytes \<and> uses_packed p WireBytes"
proof -
  assume "prop_ok p" and pk: "packable (p_codec p)"
  then have "codec_ok p (p_codec p)" by (simp add: prop_ok_def)
  then obtain c where "p_WireType p = wire_of c" using pk by (cases "p_codec p") (auto dest!: ints_okD)
  then have "p_WireType p \<noteq> WireBytes" by (cases c) (simp_all add: wire_defs)
  then show ?thesis using pk by (auto simp: wire_fits_def uses_packed_def wire_defs)
qed

lemma done_packed:
  assumes "prop_ok p" and "p_Packed p" and "packable (p_codec p)" and "p_val p = Some c" and "enc_slice_packed_values p (map g xs) = (b, e)"
    and "\<And>um b. dec_field ty um True p b (L []) = Some (dec_packed p b (\<lambda>us. L (map h us)))" and "\<And>x. h (kept c (g x)) = x"
  shows "field_done ty p b e (L []) (L xs)"
proof (cases "xs = []")
  case True
  then show ?thesis using assms(5) done_nil [of "L []" "L []" ty p] by (simp add: enc_slice_packed_values_def)
next
  case False
  let ?body = "concat (map (valEnc c) (map g xs))"
  have "fparse ty p True (EncodeVarint (word_of_nat (length ?body)) @ ?body) (L []) (L (map h (map (kept c) (map g xs))))"
    by (rule fparse_packed [OF assms(4) _ assms(6)]) (simp add: False)
  moreover have "map h (map (kept c) (map g xs)) = xs" by (simp add: assms(7) comp_def)
  moreover have "b = key p WireBytes @ EncodeVarint (word_of_nat (length ?body)) @ ?body"
    using assms(2,4,5) False key_tagcode [OF assms(1)] by (simp add: enc_slice_packed_values_def Let_def)
  ultimately show ?thesis using done_single [of p WireBytes ty "EncodeVarint (word_of_nat (length ?body)) @ ?body" "L []" "L xs" e]
    packed_wire [OF assms(1,3)] by simp
qed

lemma done_packed_bool:
  assumes "prop_ok p" and "p_codec p = Slice_bool True" and "p_val p = Some Varint" and "enc_slice_packed_bool p s = (b, e)"
  shows "field_done ty p b e (LBool []) (LBool s)"
proof (cases "s = []")
  case True
  then show ?thesis using assms(4) done_nil [of "LBool []" "LBool []" ty p] by (simp add: enc_slice_packed_bool_def)
next
  case False
  let ?bs = "EncodeVarint (word_of_nat (length s)) @ concat (map (valEnc Varint \<circ> bool64) s)"
  have pk: "p_Packed p" using assms(1,2) by (simp add: prop_ok_def)
  have "length s \<le> length (concat (map (valEnc Varint \<circ> bool64) s))" using bools_length [of "[]" s] by (simp add: comp_def)
  then have "fparse ty p True ?bs (LBool []) (LBool s)"
    using fparse_packed_bool [OF assms(3), of ty True "[]" s] assms(2) by (simp add: dec_field_defs)
  moreover have "b = key p WireBytes @ ?bs"
    using assms(3,4) False pk key_tagcode [OF assms(1)] by (simp add: enc_slice_packed_bool_def)
  ultimately show ?thesis using done_single [of p WireBytes ty ?bs "LBool []" "LBool s" e] packed_wire [OF assms(1)] assms(2) by simp
qed

lemma slice_done:
  assumes ok: "prop_ok p" and c: "p_codec p \<in> {Slice_bool pk, Slice_int32 pk, Slice_uint32 pk, Slice_int64 pk, Slice_string, Slice_slice_byte}"
    and enc: "enc_field ty p v = (b, e)" "benign e"
  shows "field_done ty p b e (zero_field (p_codec p)) v"
proof -
  have co: "codec_ok p (p_codec p)" using ok by (simp add: prop_ok_def)
  consider (bool) s where "p_codec p = Slice_bool pk" "v = LBool s"
    | (int32) s where "p_codec p = Slice_int32 pk" "v = LW32 s"
    | (uint32) s where "p_codec p = Slice_uint32 pk" "v = LW32 s"
    | (int64) s where "p_codec p = Slice_int64 pk" "v = LW64 s"
    | (strings) ss where "p_codec p = Slice_string" "v = LString ss"
    | (bytes) ss where "p_codec p = Slice_slice_byte" "v = LBytes ss"
    using c enc by (cases v; elim insertE emptyE) (auto simp: enc_field.simps wrong_type_def)
  then show ?thesis
  proof cases
    case bool
    then have pv: "p_val p = Some Varint" "pk = p_Packed p" using co by (auto dest!: ints_okD)
    show ?thesis
    proof (cases pk)
      case True
      then show ?thesis using done_packed_bool [OF ok _ pv(1)] bool enc by (simp add: enc_field.simps)
    next
      case False
      then show ?thesis using done_values [OF ok _ _ pv(1), of bool64 s b e ty LBool "\<lambda>u. u \<noteq> 0"] bool enc pv(2)
        by (simp add: enc_field.simps enc_slice_bool_def dec_field_defs kept_bool)
    qed
  next
    case int32
    then obtain c' where pv: "p_val p = Some c'" "pk = p_Packed p" using co by (auto dest!: ints_okD)
    show ?thesis
      using done_values [OF ok _ _ pv(1), of scast s b e ty LW32 ucast] done_packed [OF ok _ _ pv(1), of scast s b e ty LW32 ucast] int32 enc pv(2)
      by (cases pk) (simp_all add: enc_field.simps enc_defs dec_field_defs kept_signed)
  next
    case uint32
    then obtain c' where pv: "p_val p = Some c'" "pk = p_Packed p" using co by (auto dest!: ints_okD)
    show ?thesis
      using done_values [OF ok _ _ pv(1), of ucast s b e ty LW32 ucast] done_packed [OF ok _ _ pv(1), of ucast s b e ty LW32 ucast] uint32 enc pv(2)
      by (cases pk) (simp_all add: enc_field.simps enc_defs dec_field_defs kept_unsigned)
  next
    case int64
    then obtain c' where pv: "p_val p = Some c'" "pk = p_Packed p" "c' \<in> {Varint, Fixed64, Zigzag64}" using co by (auto dest!: ints_okD)
    show ?thesis
      using done_values [OF ok _ _ pv(1), of "\<lambda>x. x" s b e ty LW64 "\<lambda>x. x"] done_packed [OF ok _ _ pv(1), of "\<lambda>x. x" s b e ty LW64 "\<lambda>x. x"]
        int64 enc pv(2) kept_64 [OF pv(3)]
      by (cases pk) (simp_all add: enc_field.simps enc_defs dec_field_defs)
  next
    case strings
    have "fparse ty p False (EncodeStringBytes x) (LString acc) (LString (acc @ [x]))" for x acc
      by (rule fparse_bytes [OF _ parses_string length_raw(2), where f = "\<lambda>x. LString (acc @ [x])"]) (simp_all add: strings dec_field_defs)
    then show ?thesis using done_slice [OF ok, of ss ty EncodeStringBytes LString e] strings enc co by (simp add: enc_field.simps enc_defs)
  next
    case bytes
    have "fparse ty p False (EncodeRawBytes x) (LBytes acc) (LBytes (acc @ [x]))" for x acc
      by (rule fparse_bytes [OF _ parses_raw length_raw(1), where f = "\<lambda>x. LBytes (acc @ [x])"]) (simp_all add: bytes dec_field_defs)
    then show ?thesis using done_slice [OF ok, of ss ty EncodeRawBytes LBytes e] bytes enc co
      by (auto simp: enc_field.simps enc_defs intro!: done_nil split: if_splits)
  qed
qed

section \<open>Messages\<close>

text \<open>
  \<open>msg_done\<close>: what \<open>enc_struct\<close> writes for a message is decoded to that message, from a buffer of its
  own and between the keys of a group.
\<close>

definition msg_done :: "types \<Rightarrow> string \<Rightarrow> msg \<Rightarrow> bool" where
  "msg_done ty t m \<longleftrightarrow>
     (\<forall>body. enc_struct ty (ty t) m = (body, None) \<longrightarrow>
       (length body < 2 ^ 63 \<longrightarrow> (\<exists>n b'. um_at ty n t False (NewBuffer body) (new_msg (ty t)) = Some (None, b', m)))
       \<and> (\<forall>(p :: props) pre post. prop_ok p \<and> length (pre @ body @ key p WireEndGroup @ post) < 2 ^ 63 \<longrightarrow>
           (\<exists>n. um_at ty n t True (at pre (body @ key p WireEndGroup @ post)) (new_msg (ty t))
              = Some (None, at (pre @ body @ key p WireEndGroup) post, m))))"

lemma fparse_message:
  assumes "msg_done ty t m" and "enc_struct ty (ty t) m = (body, None)"
    and "\<And>um b. dec_field ty um False p b z =
      (case DecodeRawBytes b of
         Inl e \<Rightarrow> F e b
       | Inr (raw, b1) \<Rightarrow> Option.bind (um t False (NewBuffer raw) (new_msg (ty t))) (\<lambda>(err, _, m). Some (err, b1, f m)))"
  shows "fparse ty p False (EncodeVarint (word_of_nat (length body)) @ body) z (f m)"
  unfolding fparse_def
proof (intro allI impI)
  fix pre post
  assume "length (pre @ (EncodeVarint (word_of_nat (length body)) @ body) @ post) < 2 ^ 63"
  then have len: "length body < 2 ^ 63" by simp
  then obtain n b' where "um_at ty n t False (NewBuffer body) (new_msg (ty t)) = Some (None, b', m)"
    using assms(1,2) unfolding msg_done_def by blast
  then show "\<exists>n. dec_field ty (um_at ty n) False p (at pre ((EncodeVarint (word_of_nat (length body)) @ body) @ post)) z
      = Some (None, at (pre @ EncodeVarint (word_of_nat (length body)) @ body) post, f m)"
    using parses_at [OF parses_raw [OF len, unfolded EncodeRawBytes_def], of pre post]
    by (intro exI [of _ n]) (simp only: assms(3), simp)
qed

lemma fparse_group:
  assumes "msg_done ty t m" and "enc_struct ty (ty t) m = (body, None)" and "prop_ok p"
    and "\<And>um b. dec_field ty um False p b z = Option.bind (um t True b (new_msg (ty t))) (\<lambda>(err, b1, m). Some (err, b1, f m))"
  shows "fparse ty p False (body @ key p WireEndGroup) z (f m)"
  unfolding fparse_def
proof (intro allI impI)
  fix pre post
  assume "length (pre @ (body @ key p WireEndGroup) @ post) < 2 ^ 63"
  then have "length (pre @ body @ key p WireEndGroup @ post) < 2 ^ 63" by simp
  then obtain n where "um_at ty n t True (at pre (body @ key p WireEndGroup @ post)) (new_msg (ty t)) = Some (None, at (pre @ body @ key p WireEndGroup) post, m)"
    using assms(1-3) unfolding msg_done_def by blast
  then show "\<exists>n. dec_field ty (um_at ty n) False p (at pre ((body @ key p WireEndGroup) @ post)) z = Some (None, at (pre @ body @ key p WireEndGroup) post, f m)"
    by (intro exI [of _ n]) (simp only: assms(4), simp)
qed

lemma group_wire: "wire_fits p WireStartGroup" "\<not> uses_packed p WireStartGroup"
  by (simp_all add: wire_fits_def uses_packed_def wire_defs)

text \<open>The elements of a slice of messages that was encoded.\<close>

lemma slice_bodies:
  assumes "encoded_slice f None None (map (map_option (enc_struct ty fs)) ms) b"
  shows "b = concat (map (\<lambda>m. f (fst (enc_struct ty fs (the m)))) ms)"
    and "m \<in> set ms \<Longrightarrow> \<exists>m'. m = Some m' \<and> enc_struct ty fs m' = (fst (enc_struct ty fs m'), None)"
proof -
  obtain rs where rs: "map (map_option (enc_struct ty fs)) ms = map Some rs" "\<forall>(body, e) \<in> set rs. e = None" "b = concat (map (f \<circ> fst) rs)"
    using assms by (auto simp: encoded_slice_def)
  have el: "\<exists>m'. ms ! i = Some m' \<and> enc_struct ty fs m' = rs ! i" if "i < length ms" for i
    using arg_cong [OF rs(1), of "\<lambda>xs. xs ! i"] arg_cong [OF rs(1), of length] that by auto
  have len: "length rs = length ms" using arg_cong [OF rs(1), of length] by simp
  have "map (f \<circ> fst) rs = map (\<lambda>m. f (fst (enc_struct ty fs (the m)))) ms"
    by (rule nth_equalityI) (use el len in fastforce)+
  then show "b = concat (map (\<lambda>m. f (fst (enc_struct ty fs (the m)))) ms)" using rs(3) by simp
  show "\<exists>m'. m = Some m' \<and> enc_struct ty fs m' = (fst (enc_struct ty fs m'), None)" if m: "m \<in> set ms"
  proof -
    obtain i where i: "i < length ms" "m = ms ! i" using m by (auto simp: in_set_conv_nth)
    obtain m' where m': "m = Some m'" "enc_struct ty fs m' = rs ! i" using el [OF i(1)] i(2) by auto
    have "rs ! i \<in> set rs" using i(1) len by simp
    then have "snd (rs ! i) = None" using rs(2) by (auto simp: case_prod_beta)
    then show ?thesis using m' by (metis prod.collapse)
  qed
qed

lemma map_results_not_nil:
  "\<forall>r. Some r \<in> set (map (map_option (enc_struct ty fs)) ms) \<longrightarrow> snd r \<noteq> Some PErrNil"
proof (intro allI impI)
  fix r
  assume "Some r \<in> set (map (map_option (enc_struct ty fs)) ms)"
  then obtain m where "enc_struct ty fs m = r" by (auto simp: image_iff) (metis map_option_eq_Some)
  then show "snd r \<noteq> Some PErrNil" using enc_struct_not_nil by blast
qed

fun submsgs :: "val \<Rightarrow> msg list" where
  "submsgs (PMsg (Some m)) = [m]"
| "submsgs (LMsg ms) = map the (filter (\<lambda>m. m \<noteq> None) ms)"
| "submsgs _ = []"

fun sub_type :: "codec \<Rightarrow> string" where
  "sub_type (Struct_message t) = t"
| "sub_type (Struct_group t) = t"
| "sub_type (Slice_struct_message t) = t"
| "sub_type (Slice_struct_group t) = t"
| "sub_type _ = []"

lemma single_message_done:
  assumes ok: "prop_ok p" and c: "p_codec p = Struct_message t \<or> p_codec p = Struct_group t"
    and enc: "enc_field ty p v = (b, e)" "e = None \<or> e = Some PErrNil" and sub: "\<And>m. m \<in> set (submsgs v) \<Longrightarrow> msg_done ty t m"
  shows "field_done ty p b e (PMsg None) v"
proof -
  obtain x where v: "v = PMsg x" using c enc by (cases v) (auto simp: enc_field.simps wrong_type_def)
  show ?thesis
  proof (cases x)
    case None
    then show ?thesis using c enc v by (auto simp: enc_field.simps enc_struct_message_def enc_struct_group_def intro!: done_nil)
  next
    case (Some m)
    obtain body e' where m: "enc_struct ty (ty t) m = (body, e')" by (cases "enc_struct ty (ty t) m")
    have nil: "e' \<noteq> Some PErrNil" using enc_struct_not_nil [of ty "ty t" m] m by simp
    have md: "msg_done ty t m" using sub v Some by simp
    have co: "codec_ok p (p_codec p)" using ok by (simp add: prop_ok_def)
    from c show ?thesis
    proof
      assume c: "p_codec p = Struct_message t"
      obtain b1 err1 st1 where l: "enc_len_thing (body, e') None = (b1, err1, st1)" by (cases "enc_len_thing (body, e') None") auto
      have b: "b = p_tagcode p @ b1" "e = err1" using enc(1) c v Some m l by (simp_all add: enc_field.simps enc_struct_message_def)
      have be: "benign err1" using enc(2) b(2) by auto
      note le = enc_len_thing_ok [OF l nil _ be]
      have e': "e' = None" "b1 = EncodeVarint (word_of_nat (length body)) @ body" using le enc(2) b(2) by (auto simp: continues_def)
      have "fparse ty p False b1 (PMsg None) (PMsg (Some m))" unfolding e'(2)
        by (rule fparse_message [OF md, where f = "\<lambda>m. PMsg (Some m)" and F = "\<lambda>e b. Some (Some e, b, PMsg None)"])
           (use m e'(1) c in \<open>simp_all add: dec_field_def dec_entry_def dec_struct_message_def Let_def split: sum.split\<close>)
      then show ?thesis using done_single [of p "p_WireType p" ty b1 "PMsg None" "PMsg (Some m)" e] own_wire [OF ok] unpacked_key [OF ok] co c b v Some
        by simp
    next
      assume c: "p_codec p = Struct_group t"
      have res: "enc_struct_group p (Some (body, e')) = (b, e)" using enc(1) c v Some m by (simp add: enc_field.simps)
      have e': "e' = None" "b = group_key p WireStartGroup @ body @ group_key p WireEndGroup"
        using res enc(2) nil by (cases e' rule: benign.cases; auto simp: enc_struct_group_def)+
      have "fparse ty p False (body @ key p WireEndGroup) (PMsg None) (PMsg (Some m))"
        by (rule fparse_group [OF md _ ok, where f = "\<lambda>m. PMsg (Some m)"])
           (use m e'(1) c in \<open>simp_all add: dec_field_def dec_entry_def dec_struct_group_def\<close>)
      then show ?thesis using done_single [of p WireStartGroup ty "body @ key p WireEndGroup" "PMsg None" "PMsg (Some m)" e] group_wire [of p] e'(2) v Some
        by (simp add: group_key_eq [OF ok] wire_defs)
    qed
  qed
qed

lemma message_slice_done:
  assumes ok: "prop_ok p" and c: "p_codec p = Slice_struct_message t \<or> p_codec p = Slice_struct_group t"
    and enc: "enc_field ty p v = (b, e)" "e = None \<or> e = Some PErrNil" and sub: "\<And>m. m \<in> set (submsgs v) \<Longrightarrow> msg_done ty t m"
  shows "field_done ty p b e (LMsg []) v"
proof -
  obtain ms where v: "v = LMsg ms" using c enc by (cases v) (auto simp: enc_field.simps wrong_type_def)
  let ?rs = "map (map_option (enc_struct ty (ty t))) ms" and ?body = "\<lambda>m. fst (enc_struct ty (ty t) (the m))"
  have be: "benign e" using enc(2) by auto
  have md: "msg_done ty t m" if "Some m \<in> set ms" for m using sub [of m] that v by (force simp: image_iff)
  have co: "codec_ok p (p_codec p)" and req: "\<not> p_Required p" using ok c by (auto simp: prop_ok_def)
  from c show ?thesis
  proof
    assume c: "p_codec p = Slice_struct_message t"
    have sl: "encoded_slice (\<lambda>body. p_tagcode p @ EncodeVarint (word_of_nat (length body)) @ body) None e ?rs b"
      using enc_slice_struct_message_ok [where p = p, OF _ _ be map_results_not_nil] enc(1) c v by (simp add: enc_field.simps)
    then have "e = None" using enc(2) by (auto simp: encoded_slice_def continues_def)
    note els = slice_bodies [OF sl [unfolded this]]
    have "fparse ty p False (EncodeVarint (word_of_nat (length (?body m))) @ ?body m) (LMsg acc) (LMsg (acc @ [m]))" if m: "m \<in> set ms" for m acc
    proof -
      obtain m' where m': "m = Some m'" "enc_struct ty (ty t) m' = (fst (enc_struct ty (ty t) m'), None)" using els(2) [OF m] by blast
      show ?thesis unfolding m'(1) option.sel
        by (rule fparse_message [OF md m'(2), where f = "\<lambda>m. LMsg (acc @ [Some m])" and F = "\<lambda>e b. Some (Some e, b, LMsg (acc @ [Some (new_msg (ty t))]))"])
           (use m m'(1) c in \<open>simp_all add: dec_field_def dec_entry_def dec_slice_struct_def Let_def\<close>)
    qed
    from done_slice [OF ok _ _ this] show ?thesis using co c els(1) v by simp
  next
    assume c: "p_codec p = Slice_struct_group t"
    have sl: "encoded_slice (\<lambda>body. group_key p WireStartGroup @ body @ group_key p WireEndGroup) None e ?rs b"
      using enc_slice_struct_group_ok [where p = p, OF _ _ be map_results_not_nil] enc(1) c v by (simp add: enc_field.simps)
    then have "e = None" using enc(2) by (auto simp: encoded_slice_def continues_def)
    note els = slice_bodies [OF sl [unfolded this]]
    have "fparse ty p (uses_packed p WireStartGroup) (?body m @ key p WireEndGroup) (LMsg acc) (LMsg (acc @ [m]))" if m: "m \<in> set ms" for m acc
    proof -
      obtain m' where m': "m = Some m'" "enc_struct ty (ty t) m' = (fst (enc_struct ty (ty t) m'), None)" using els(2) [OF m] by blast
      have "fparse ty p False (?body m @ key p WireEndGroup) (LMsg acc) (LMsg (acc @ [m]))" unfolding m'(1) option.sel
        by (rule fparse_group [OF md m'(2) ok, where f = "\<lambda>m. LMsg (acc @ [Some m])"])
           (use m m'(1) c in \<open>simp_all add: dec_field_def dec_entry_def dec_slice_struct_def\<close>)
      then show ?thesis using group_wire(2) [of p] by simp
    qed
    from done_list [OF group_wire(1) this req] show ?thesis using els(1) v by (simp add: group_key_eq [OF ok] wire_defs)
  qed
qed

subsection \<open>Messages that can be written\<close>

text \<open>
  The messages that come back as they were: no unrecognized bytes, the fields that are not encoded
  empty, and no empty \<open>[]byte\<close> in a proto3 field, which is written like a nil one.
\<close>

definition field_canon :: "go_field \<Rightarrow> val \<Rightarrow> bool" where
  "field_canon f v \<longleftrightarrow>
     (if p_codec (Properties_init f) = NoCodec then v = zero_val (f_Type f)
      else p_codec (Properties_init f) = Slice_byte True \<longrightarrow> v \<noteq> VBytes (Some []))"

lemma submsgs_size: "m \<in> set (submsgs v) \<Longrightarrow> size m < size v"
  by (cases v rule: submsgs.cases) (auto simp: size_list_estimation' less_Suc_eq_le dest!: less_imp_le)

function canon_msg :: "types \<Rightarrow> go_field list \<Rightarrow> msg \<Rightarrow> bool" where
  "canon_msg ty fs (Msg vs unrec) \<longleftrightarrow>
     length vs = length fs \<and> unrec = [] \<and>
     (\<forall>(f, v) \<in> set (zip fs vs). field_canon f v
        \<and> (\<forall>m \<in> set (submsgs v). canon_msg ty (ty (sub_type (p_codec (Properties_init f)))) m))"
  by pat_completeness auto
termination
proof (relation "measure (\<lambda>(ty, fs, m). size m)", goal_cases)
  case (2 ty fs vs unrec x f v m)
  then have "v \<in> set vs" "size m < size v" by (auto dest: set_zip_snd submsgs_size)
  moreover from this have "size v \<le> size_list size vs" by (simp add: size_list_estimation')
  ultimately show ?case by simp
qed simp

declare canon_msg.simps [simp del]

lemma canon_nth:
  assumes "canon_msg ty fs (Msg vs unrec)" and "i < length fs"
  shows "field_canon (fs ! i) (vs ! i)"
    and "m \<in> set (submsgs (vs ! i)) \<Longrightarrow> canon_msg ty (ty (sub_type (p_codec (Properties_init (fs ! i))))) m"
proof -
  have "(fs ! i, vs ! i) \<in> set (zip fs vs)" using assms by (auto simp: canon_msg.simps in_set_zip)
  then show "field_canon (fs ! i) (vs ! i)"
    and "m \<in> set (submsgs (vs ! i)) \<Longrightarrow> canon_msg ty (ty (sub_type (p_codec (Properties_init (fs ! i))))) m"
    using assms(1) by (auto simp: canon_msg.simps)
qed

lemma field_done:
  assumes ok: "prop_ok (Properties_init f)" and canon: "field_canon f v"
    and enc: "enc_field ty (Properties_init f) v = (b, e)" "e = None \<or> e = Some PErrNil"
    and sub: "\<And>m. m \<in> set (submsgs v) \<Longrightarrow> msg_done ty (sub_type (p_codec (Properties_init f))) m"
  shows "field_done ty (Properties_init f) b e (zero_val (f_Type f)) v"
proof -
  let ?p = "Properties_init f" and ?c = "p_codec (Properties_init f)"
  have be: "benign e" using enc(2) by auto
  have nc: "?c \<noteq> NoCodec" "?c \<noteq> New_map" using ok by (auto simp: prop_ok_def)
  then have z: "zero_val (f_Type f) = zero_field ?c" using zero_field_val Properties_init_codec by blast
  consider "?c \<in> int_codecs" | "?c \<in> {Proto3_string, Ptr_string, Slice_byte False, Slice_byte True}"
    | pk where "?c \<in> {Slice_bool pk, Slice_int32 pk, Slice_uint32 pk, Slice_int64 pk, Slice_string, Slice_slice_byte}"
    | t where "?c = Struct_message t \<or> ?c = Struct_group t" | t where "?c = Slice_struct_message t \<or> ?c = Slice_struct_group t"
  proof (cases ?c)
    case (Slice_byte p3)
    then show thesis using that(2) by (cases p3) auto
  qed (use nc that in \<open>auto simp: int_codecs_def\<close>)
  then show ?thesis unfolding z
  proof cases
    case 1
    then show "field_done ty ?p b e (zero_field ?c) v" by (rule integer_done [OF ok _ enc(1) be])
  next
    case 2
    then show "field_done ty ?p b e (zero_field ?c) v"
      by (rule bytes_done [OF ok _ enc(1) be]) (use canon in \<open>auto simp: field_canon_def\<close>)
  next
    case 3
    then show "field_done ty ?p b e (zero_field ?c) v" by (rule slice_done [OF ok _ enc(1) be])
  next
    case 4
    then show "field_done ty ?p b e (zero_field ?c) v" using single_message_done [OF ok 4 enc] sub by auto
  next
    case 5
    then show "field_done ty ?p b e (zero_field ?c) v" using message_slice_done [OF ok 5 enc] sub by auto
  qed
qed

subsection \<open>The loop over the fields\<close>

lemma enc_fields_keeps: "enc_fields (Some s) rs = (bs, err, stop) \<Longrightarrow> err \<noteq> None"
proof (induction rs arbitrary: s bs)
  case (Cons r rs)
  obtain p b e where r: "r = (p, b, e)" by (cases r)
  have go: ?case if "enc_fields (Some s) (r # rs) = (case enc_fields (Some s) rs of (bs, r) \<Rightarrow> (b @ bs, r))"
    using that Cons.prems Cons.IH by (cases "enc_fields (Some s) rs") auto
  consider "e = None" | "e = Some PErrNil" | f where "e = Some (RequiredNotSetError f)"
    | x where "e = Some x" "x \<noteq> PErrNil" "\<not> continues (Some x)" by (cases e rule: benign.cases) (auto simp: continues_def)
  then show ?case
  proof cases
    case 4
    then have "\<not> fst (shouldContinue x (Some (p_Name p)) (Some s))" by (simp add: shouldContinue_iff)
    then show ?thesis using Cons.prems r 4 by (cases x) auto
  qed (use go r in simp_all)
qed auto

lemma enc_fields_None:
  "enc_fields None rs = (bs, None, stop) \<Longrightarrow>
     \<not> stop \<and> bs = concat (map (fst \<circ> snd) rs) \<and> (\<forall>(p, b, e) \<in> set rs. e = None \<or> e = Some PErrNil \<and> \<not> p_Required p)"
proof (induction rs arbitrary: bs)
  case (Cons r rs)
  obtain p b e where r: "r = (p, b, e)" by (cases r)
  have ok: "benign e" using enc_fields_ok [OF Cons.prems] r by simp
  have step: "\<exists>st. enc_fields None (r # rs) = (case enc_fields st rs of (bs, r) \<Rightarrow> (b @ bs, r))
      \<and> (st = None \<longrightarrow> e = None \<or> e = Some PErrNil \<and> \<not> p_Required p)"
    using ok r by (cases e rule: benign.cases) auto
  then obtain st where st: "enc_fields None (r # rs) = (case enc_fields st rs of (bs, r) \<Rightarrow> (b @ bs, r))"
    "st = None \<longrightarrow> e = None \<or> e = Some PErrNil \<and> \<not> p_Required p" by blast
  obtain bs' where rest: "enc_fields st rs = (bs', None, stop)" "bs = b @ bs'"
    using Cons.prems unfolding st(1) by (cases "enc_fields st rs") auto
  have "st = None" using enc_fields_keeps [of "the st" rs bs' None stop] rest(1) by (cases st) auto
  then show ?case using Cons.IH rest st(2) r by simp
qed simp

lemma runs_end: "fst req \<le> 0 \<Longrightarrow> runs ty fs False (req, None, at pre [], m) (None, at pre [], m)"
  unfolding runs_def
  by (rule exI [of _ 1]) (simp add: unmarshal_loop.simps unmarshal_round_def at_def unmarshal_end_def split: prod.splits)

lemma runs_end_group:
  assumes "prop_ok p"
  shows "runs ty fs True (req, st, at pre (key p WireEndGroup @ post), m) (None, at (pre @ key p WireEndGroup) post, m)"
proof -
  have "unat (key_word (p_Tag p) WireEndGroup AND 0x7) = WireEndGroup"
    using key_word_parts(1) [of "p_Tag p" WireEndGroup] assms by (simp add: prop_ok_def wire_defs)
  moreover have "DecodeVarint (at pre (key p WireEndGroup @ post)) = Inr (key_word (p_Tag p) WireEndGroup, at (pre @ key p WireEndGroup) post)"
    unfolding key_def by (rule parses_at [OF parses_varint])
  moreover have "bf_index (at pre (key p WireEndGroup @ post)) < length (bf_buf (at pre (key p WireEndGroup @ post)))"
    by (simp add: at_def key_def)
  ultimately show ?thesis unfolding runs_def
    by (intro exI [of _ 1]) (simp add: unmarshal_loop.simps unmarshal_round_def Let_def)
qed

lemma runs_message:
  assumes fs: "fields_ok fs" and canon: "canon_msg ty fs m" and enc: "enc_struct ty fs m = (body, None)"
    and len: "length (pre @ body @ post) < 2 ^ 63"
    and sub: "\<And>t m'. size m' < size m \<Longrightarrow> canon_msg ty (ty t) m' \<Longrightarrow> msg_done ty t m'"
  shows "\<exists>req. fst req \<le> 0 \<and> (\<forall>r. runs ty fs g (req, None, at (pre @ body) post, m) r
    \<longrightarrow> runs ty fs g ((int (sp_reqCount (GetProperties fs)), 0), None, at pre (body @ post), new_msg fs) r)"
proof -
  obtain vs unrec where m: "m = Msg vs unrec" by (cases m)
  have vs: "length vs = length fs" "unrec = []" using canon by (simp_all add: m canon_msg.simps)
  let ?js = "encoded_fields fs (length fs)" and ?P = "\<lambda>j. Properties_init (fs ! j)"
  let ?rs = "map (\<lambda>i. (?P i, enc_field ty (?P i) (vs ! i))) ?js" and ?zero = "map (zero_val \<circ> f_Type) fs"
  obtain bs st stop where f: "enc_fields None ?rs = (bs, st, stop)" by (cases "enc_fields None ?rs") auto
  then have st: "st = None" "body = bs" using enc vs by (simp_all add: m enc_struct_fields split: if_splits)
  note ok = enc_fields_None [OF f [unfolded st]]
  have "\<exists>its. fst (enc_field ty (?P j) (vs ! j)) = item_bytes (?P j) its \<and> items ty (?P j) (?zero ! j) its (vs ! j) \<and> (p_Required (?P j) \<longrightarrow> length its = 1)"
    if j: "j \<in> set ?js" for j
  proof -
    have jl: "j < length fs" using j by (simp add: encoded_fields_set)
    obtain b e where be: "enc_field ty (?P j) (vs ! j) = (b, e)" by (cases "enc_field ty (?P j) (vs ! j)")
    have "vs ! j \<in> set vs" using jl vs by simp
    then have sz: "size (vs ! j) < size m" using m by (simp add: size_list_estimation' less_Suc_eq_le)
    have e: "e = None \<or> e = Some PErrNil \<and> \<not> p_Required (?P j)" using ok j be by fastforce
    have "field_done ty (?P j) b e (zero_val (f_Type (fs ! j))) (vs ! j)"
    proof (rule field_done [OF fields_okD [OF fs j] canon_nth(1) [OF canon [unfolded m] jl] be])
      show "e = None \<or> e = Some PErrNil" using e by blast
      show "msg_done ty (sub_type (p_codec (?P j))) m'" if m': "m' \<in> set (submsgs (vs ! j))" for m'
        using sub [OF _ canon_nth(2) [OF canon [unfolded m] jl m']] submsgs_size [OF m'] sz by simp
    qed
    then show ?thesis using be e jl by (auto simp: field_done_def)
  qed
  then obtain its where its: "\<And>j. j \<in> set ?js \<Longrightarrow> fst (enc_field ty (?P j) (vs ! j)) = item_bytes (?P j) (its j)
      \<and> items ty (?P j) (?zero ! j) (its j) (vs ! j) \<and> (p_Required (?P j) \<longrightarrow> length (its j) = 1)" by metis
  have eq: "map (\<lambda>j. fst (enc_field ty (?P j) (vs ! j))) ?js = map (\<lambda>j. item_bytes (?P j) (its j)) ?js"
    by (rule map_cong [OF refl]) (use its in blast)
  have "body = concat (map (\<lambda>j. fst (enc_field ty (?P j) (vs ! j))) ?js)" using ok st by (simp add: comp_def)
  then have body: "body = concat (map (\<lambda>j. item_bytes (?P j) (its j)) ?js)" by (simp only: eq)
  let ?req = "fold (\<lambda>j. count_required (?P j) (p_Tag (?P j)) ^^ length (its j)) ?js (int (sp_reqCount (GetProperties fs)), 0)"
  have js: "distinct ?js" by (simp add: encoded_fields_def set_field_order)
  have final: "fold (\<lambda>j vs'. vs'[j := vs ! j]) ?js ?zero = vs"
  proof (rule nth_equalityI)
    fix k
    assume "k < length (fold (\<lambda>j vs'. vs'[j := vs ! j]) ?js ?zero)"
    then have k: "k < length fs" by simp
    show "fold (\<lambda>j vs'. vs'[j := vs ! j]) ?js ?zero ! k = vs ! k"
      using fold_update_nth [OF js, of k ?zero] k canon_nth(1) [OF canon [unfolded m] k] by (auto simp: encoded_fields_set field_canon_def)
  qed (simp add: vs)
  have "fst ?req \<le> 0"
    using required_counted [of ?js ?P "\<lambda>j. length (its j)" 0] required_fields [OF fs] its fields_okD [OF fs]
    by (simp add: comp_def prop_ok_def)
  moreover have "runs ty fs g ((int (sp_reqCount (GetProperties fs)), 0), None, at pre (body @ post), new_msg fs) r"
    if "runs ty fs g (?req, None, at (pre @ body) post, m) r" for r
    unfolding new_msg_def body
  proof (rule runs_fields [where vs = vs, OF fs _ js])
    show "\<forall>j \<in> set ?js. j < length fs \<and> prop_ok (?P j) \<and> items ty (?P j) (?zero ! j) (its j) (vs ! j)"
      using its fields_okD [OF fs] by (auto simp: encoded_fields_set)
  qed (use that len body final vs m in simp_all)
  ultimately show ?thesis by blast
qed

lemma msg_done:
  assumes ty: "\<forall>t. fields_ok (ty t)"
  shows "canon_msg ty (ty t) m \<Longrightarrow> msg_done ty t m"
proof (induction m arbitrary: t rule: measure_induct_rule [of size])
  case (less m)
  have fs: "fields_ok (ty t)" using ty by simp
  show ?case unfolding msg_done_def
  proof (intro allI impI conjI)
    fix body
    assume enc: "enc_struct ty (ty t) m = (body, None)"
    note run = runs_message [OF fs less.prems enc _ less.IH]
    show "\<exists>n b'. um_at ty n t False (NewBuffer body) (new_msg (ty t)) = Some (None, b', m)" if "length body < 2 ^ 63"
      using run [of "[]" "[]" False] runs_end [of _ ty "ty t" body m] that by (fastforce simp: runs_def at_def NewBuffer_def)
    show "\<exists>n. um_at ty n t True (at pre (body @ key p WireEndGroup @ post)) (new_msg (ty t)) = Some (None, at (pre @ body @ key p WireEndGroup) post, m)"
      if "prop_ok p \<and> length (pre @ body @ key p WireEndGroup @ post) < 2 ^ 63" for p :: props and pre post
      using run [of pre "key p WireEndGroup @ post" True] runs_end_group [of p ty "ty t" _ None "pre @ body" post m] that
      by (fastforce simp: runs_def)
  qed
qed

lemma Unmarshal_enc:
  assumes "\<forall>t. fields_ok (ty t)" and "canon_msg ty (ty t) m" and "enc_struct ty (ty t) m = (data, None)" and "length data < 2 ^ 63"
  shows "Unmarshal ty t data = Some (None, m)"
proof -
  obtain n b' where n: "um_at ty n t False (NewBuffer data) (new_msg (ty t)) = Some (None, b', m)"
    using msg_done [OF assms(1,2)] assms(3,4) unfolding msg_done_def by blast
  obtain res where res: "um_at ty (Suc (length data)) t False (NewBuffer data) (new_msg (ty t)) = Some res"
    using unmarshalType_total [unfolded unmarshalType_def] by blast
  have "res = (None, b', m)"
    using unmarshal_loop_mono [OF _ n, of "max n (Suc (length data))"] unmarshal_loop_mono [OF _ res, of "max n (Suc (length data))"] by simp
  then show ?thesis using res by (simp add: Unmarshal_def UnmarshalMerge_def unmarshalType_def)
qed

text \<open>
  C9: \<open>Unmarshal\<close> gives back the message that \<open>Marshal\<close> wrote, for every message with nested and
  repeated messages, groups, packed slices, required fields and all integer encodings, of types whose
  struct tags fit their fields.
\<close>

theorem Unmarshal_Marshal:
  assumes "\<forall>t. fields_ok (ty t)" and "canon_msg ty (ty t) m" and "Marshal ty t (Some m) = Returns (data, None)" and "length data < 2 ^ 63"
  shows "Unmarshal ty t data = Some (None, m)"
proof (rule Unmarshal_enc [OF assms(1,2) _ assms(4)])
  show "enc_struct ty (ty t) m = (data, None)"
    using assms(3) by (auto simp: Marshal_def Buffer_Marshal_def split: prod.splits option.splits proto_error.splits if_splits)
qed

end
