(* ===== verification/Proto_Map.thy ===== *)
theory Proto_Map
  imports Proto_Roundtrip
begin

text \<open>
  Maps of the protobuf runtime: what \<open>size_new_map\<close> leaves out of the size of a map, and the entries
  that \<open>dec_new_map\<close> cannot store.
\<close>

section \<open>A map field\<close>

lemma tag_numbers: "ParseInt ''1'' = (1, None)" "ParseInt ''2'' = (2, None)" "ParseInt ''3'' = (3, None)" "ParseInt ''4'' = (4, None)" "ParseInt ''16'' = (16, None)"
  by (simp_all add: ParseInt_def ParseUint_def is_digit_def digit_val_def)

definition demo_map_field :: go_field where
  "demo_map_field = \<lparr>f_Name = ''Labels'', f_Type = TMap TString TString, f_protobuf = ''bytes,16,rep,name=labels'',
     f_protobuf_key = ''bytes,1,opt,name=key'', f_protobuf_val = ''bytes,2,opt,name=value''\<rparr>"

lemma demo_splits:
  "Split ''bytes,16,rep,name=labels'' '','' = [''bytes'', ''16'', ''rep'', ''name=labels'']"
  "Split ''bytes,1,opt,name=key'' '','' = [''bytes'', ''1'', ''opt'', ''name=key'']"
  "Split ''bytes,2,opt,name=value'' '','' = [''bytes'', ''2'', ''opt'', ''name=value'']"
  by code_simp+

lemmas parse_defs = Properties_init_def init_props_def Properties_Parse_def tag_numbers parse_wire_def
  parse_opt_def zero_props_def set_codec_def internal_def

abbreviation demo_map_prop :: props where
  "demo_map_prop \<equiv> Properties_init demo_map_field"

definition demo_key :: entry_props where
  "demo_key = init_props () (TPtr TString) ''Key'' ''bytes,1,opt,name=key''"

definition demo_value :: entry_props where
  "demo_value = init_props () (TPtr TString) ''Value'' ''bytes,2,opt,name=value''"

lemma demo_tagcodes: "tagcode 16 2 = [CHR 0x82, CHR 0x01]" "tagcode 1 2 = [CHR 0x0A]" "tagcode 2 2 = [CHR 0x12]"
  by code_simp+

lemma demo_map_prop:
  "p_codec demo_map_prop = New_map" "p_mprops demo_map_prop = Some (demo_key, demo_value)" "p_tagcode demo_map_prop = [CHR 0x82, CHR 0x01]"
  "p_WireType demo_map_prop = WireBytes" "p_Tag demo_map_prop = 16" "\<not> internal demo_map_prop"
  by (simp_all add: demo_map_field_def demo_key_def demo_value_def parse_defs demo_splits demo_tagcodes WireBytes_def)

lemma demo_entry_props:
  "p_codec demo_key = Ptr_string" "p_codec demo_value = Ptr_string"
  "p_codec (lift_entry demo_key) = Ptr_string" "p_WireType (lift_entry demo_key) = WireBytes" "\<not> p_Packed (lift_entry demo_key)"
  "p_tagcode (lift_entry demo_key) = [CHR 0x0A]"
  "p_codec (lift_entry demo_value) = Ptr_string" "p_WireType (lift_entry demo_value) = WireBytes" "\<not> p_Packed (lift_entry demo_value)"
  "p_tagcode (lift_entry demo_value) = [CHR 0x12]"
  by (simp_all add: demo_key_def demo_value_def lift_entry_def parse_defs demo_splits demo_tagcodes WireBytes_def)

section \<open>The size of a map\<close>

lemma enc_entry_None: "enc_entry (kb, ke) (vb, ve) = (body, None) \<longleftrightarrow> ke = None \<and> ve = None \<and> body = kb @ vb"
  by (auto simp: enc_entry_def split: option.splits)

lemma enc_len_thing_None: "enc_len_thing (body, e) st = (b, None, st') \<longleftrightarrow> e = None \<and> st = None \<and> st' = None \<and> b = EncodeVarint (word_of_nat (length body)) @ body"
proof (cases e)
  case (Some x)
  then show ?thesis by (cases x) (auto simp: enc_len_thing_def split: option.splits)
qed (auto simp: enc_len_thing_def len_shuffle_eq)

lemma enc_new_map_ok:
  "enc_new_map p None rs = (b, None) \<Longrightarrow>
     (\<forall>(k, v) \<in> set rs. snd k = None \<and> snd v = None)
     \<and> length b = sum_list (map (\<lambda>(k, v). length (p_tagcode p) + with_length (length (fst k) + length (fst v))) rs)"
proof (induction rs arbitrary: b)
  case (Cons r rs)
  obtain kb ke vb ve where r: "r = ((kb, ke), (vb, ve))" by (cases r) auto
  obtain body e where en: "enc_entry (kb, ke) (vb, ve) = (body, e)" by (cases "enc_entry (kb, ke) (vb, ve)")
  obtain b1 err st where l: "enc_len_thing (body, e) None = (b1, err, st)" by (cases "enc_len_thing (body, e) None") auto
  have "err = None" using Cons.prems r en l by (cases err) auto
  then have ok: "e = None" "st = None" "b1 = EncodeVarint (word_of_nat (length body)) @ body" using l by (auto simp: enc_len_thing_None)
  then have entry: "ke = None" "ve = None" "body = kb @ vb" using en by (simp_all add: enc_entry_None)
  obtain b2 where rest: "enc_new_map p None rs = (b2, None)" "b = p_tagcode p @ b1 @ b2"
    using Cons.prems r en l ok \<open>err = None\<close> by (cases "enc_new_map p None rs") auto
  show ?case using Cons.IH [OF rest(1)] rest(2) r entry ok(3) by (simp add: with_length_eq)
qed simp

lemma sum_list_le_eq:
  fixes f g :: "'a \<Rightarrow> nat"
  assumes "\<And>x. x \<in> set xs \<Longrightarrow> f x \<le> g x"
  shows "sum_list (map f xs) \<le> sum_list (map g xs)" and "sum_list (map f xs) = sum_list (map g xs) \<longleftrightarrow> (\<forall>x \<in> set xs. f x = g x)"
proof -
  show le: "sum_list (map f xs) \<le> sum_list (map g xs)" using assms by (rule sum_list_mono)
  show "sum_list (map f xs) = sum_list (map g xs) \<longleftrightarrow> (\<forall>x \<in> set xs. f x = g x)"
    using assms
  proof (induction xs)
    case (Cons x xs)
    have "sum_list (map f xs) \<le> sum_list (map g xs)" by (rule sum_list_mono) (simp add: Cons.prems)
    moreover have "f x \<le> g x" by (simp add: Cons.prems)
    moreover have "sum_list (map f xs) = sum_list (map g xs) \<longleftrightarrow> (\<forall>x \<in> set xs. f x = g x)" by (rule Cons.IH) (simp add: Cons.prems)
    ultimately show ?case by auto
  qed simp
qed

lemma varint_one_byte: "n < 2 ^ 63 \<Longrightarrow> length (EncodeVarint (word_of_nat n)) = 1 \<longleftrightarrow> n < 128"
  using sint_length(2) [of n] by (subst EncodeVarint.simps) (auto simp: word_le_nat_alt)

lemma varint_bytes: "1 \<le> length (EncodeVarint x)"
  by (cases "EncodeVarint x") simp_all

text \<open>
  \<open>size_new_map\<close> is not the size of a map. It counts two bytes for the key of an entry where
  \<open>enc_new_map\<close> writes the tag code of the field and the length of the entry: \<open>Size\<close> is never above
  the length of the encoding, and it is exact only for fields with a one-byte tag code (tags below 16)
  whose entries are all shorter than 128 bytes.
\<close>

theorem size_new_map_exact:
  assumes "p_codec p = New_map" and "p_mprops p = Some (kp, vp)" and "p_tagcode p \<noteq> []"
    and "\<forall>q \<in> {lift_entry kp, lift_entry vp}. codec_ok q (p_codec q) \<and> \<not> message_codec (p_codec q)"
    and "enc_field ty p (VMap es) = (b, None)" and "length b < 2 ^ 63"
  shows "\<exists>n. size_field ty p (VMap es) = Returns n \<and> n \<le> length b
    \<and> (n = length b \<longleftrightarrow> es = [] \<or> length (p_tagcode p) = 1
        \<and> (\<forall>(k, v) \<in> set es. length (fst (enc_field ty (lift_entry kp) k)) + length (fst (enc_field ty (lift_entry vp) v)) < 128))"
proof -
  let ?body = "\<lambda>(k, v). length (fst (enc_field ty (lift_entry kp) k)) + length (fst (enc_field ty (lift_entry vp) v))"
  let ?rs = "map (\<lambda>(k, v). (enc_field ty (lift_entry kp) k, enc_field ty (lift_entry vp) v)) es"
  have "enc_new_map p None ?rs = (b, None)" using assms(1,2,5) by (simp add: enc_field.simps)
  note ok = enc_new_map_ok [OF this]
  have len: "length b = sum_list (map (\<lambda>x. length (p_tagcode p) + with_length (?body x)) es)"
    using ok by (simp add: comp_def case_prod_beta)
  have sizes: "size_field ty (lift_entry kp) k = Returns (length (fst (enc_field ty (lift_entry kp) k)))"
    "size_field ty (lift_entry vp) v = Returns (length (fst (enc_field ty (lift_entry vp) v)))" if kv: "(k, v) \<in> set es" for k v
  proof -
    have "snd (enc_field ty (lift_entry kp) k) = None" "snd (enc_field ty (lift_entry vp) v) = None" using ok kv by fastforce+
    then show "size_field ty (lift_entry kp) k = Returns (length (fst (enc_field ty (lift_entry kp) k)))"
      "size_field ty (lift_entry vp) v = Returns (length (fst (enc_field ty (lift_entry vp) v)))"
      using assms(4) by (intro simple_size [OF _ _ surjective_pairing]; simp)+
  qed
  have "sum_sizes (map (\<lambda>x. case x of (k, v) \<Rightarrow> add_size (Returns 2) (add_size (size_field ty (lift_entry kp) k) (size_field ty (lift_entry vp) v))) es)
      = Returns (sum_list (map (\<lambda>x. 2 + ?body x) es))"
    by (rule sum_sizes_Returns) (auto simp: sizes add_size_def)
  then have n: "size_field ty p (VMap es) = Returns (sum_list (map (\<lambda>x. 2 + ?body x) es))"
    using assms(1,2) by (subst size_field.simps) (simp add: size_new_map_def comp_def case_prod_beta)
  have tag: "1 \<le> length (p_tagcode p)" using assms(3) by (cases "p_tagcode p") auto
  have le: "2 + ?body x \<le> length (p_tagcode p) + with_length (?body x)" for x
    using tag varint_bytes [of "word_of_nat (?body x)"] by (simp add: with_length_eq)
  have eq: "2 + ?body x = length (p_tagcode p) + with_length (?body x) \<longleftrightarrow> length (p_tagcode p) = 1 \<and> ?body x < 128" if "x \<in> set es" for x
  proof -
    have "length (p_tagcode p) + with_length (?body x) \<le> length b"
      unfolding len by (rule member_le_sum_list) (use that in auto)
    then have "?body x < 2 ^ 63" using assms(6) by (simp add: with_length_eq)
    note one = varint_one_byte [OF this]
    show ?thesis using tag varint_bytes [of "word_of_nat (?body x)"] one by (auto simp: with_length_eq)
  qed
  have "sum_list (map (\<lambda>x. 2 + ?body x) es) = length b \<longleftrightarrow> (\<forall>x \<in> set es. length (p_tagcode p) = 1 \<and> ?body x < 128)"
    unfolding len sum_list_le_eq(2) [OF le] using eq by blast
  also have "\<dots> \<longleftrightarrow> es = [] \<or> length (p_tagcode p) = 1 \<and> (\<forall>x \<in> set es. ?body x < 128)" by (cases es) auto
  finally have iff: "sum_list (map (\<lambda>x. 2 + ?body x) es) = length b \<longleftrightarrow> es = [] \<or> length (p_tagcode p) = 1 \<and> (\<forall>x \<in> set es. ?body x < 128)" .
  have "sum_list (map (\<lambda>x. 2 + ?body x) es) \<le> length b" unfolding len by (rule sum_list_le_eq(1) [OF le])
  with n iff show ?thesis by (auto simp: case_prod_beta)
qed

definition demo_map_bytes :: string where
  "demo_map_bytes = [CHR 0x82, CHR 0x01, CHR 0x06, CHR 0x0A, CHR 0x01, CHR ''k'', CHR 0x12, CHR 0x01, CHR ''v'']"

lemma demo_map_length: "length demo_map_bytes = 9"
  by (simp add: demo_map_bytes_def)

lemma demo_map_encoded:
  "enc_field ty demo_map_prop (VMap [(PString (Some ''k''), PString (Some ''v''))])
    = (demo_map_bytes, None)"
proof -
  have v: "EncodeVarint 1 = [CHR 0x01]" "EncodeVarint 6 = [CHR 0x06]" by code_simp+
  have "enc_field ty (lift_entry demo_key) (PString (Some ''k'')) = ([CHR 0x0A, CHR 0x01, CHR ''k''], None)"
    "enc_field ty (lift_entry demo_value) (PString (Some ''v'')) = ([CHR 0x12, CHR 0x01, CHR ''v''], None)"
    by (simp_all add: enc_field.simps demo_entry_props enc_string_def EncodeStringBytes_def v)
  then show ?thesis
    by (subst enc_field.simps) (simp add: demo_map_prop enc_entry_def enc_len_thing_def len_shuffle_eq v demo_map_bytes_def)
qed

lemma size_new_map_exact_witness:
  "\<exists>n. size_field (\<lambda>_. []) demo_map_prop (VMap [(PString (Some ''k''), PString (Some ''v''))]) = Returns n \<and> n < 9"
  using size_new_map_exact [OF demo_map_prop(1,2) _ _ demo_map_encoded, of "\<lambda>_. []"]
  by (auto simp: demo_map_length demo_map_prop demo_entry_props less_le)

section \<open>Entries without a key\<close>

text \<open>
  C36: Two bytes crash the decoder of a message with a map. An entry without a key, which the protocol
  allows, makes \<open>dec_new_map\<close> call \<open>SetMapIndex\<close> with no key: \<open>Unmarshal\<close> of the field's key and a
  zero length panics.
\<close>

theorem map_entry_without_key_panics:
  assumes "i < length (ty t)" and "p = Properties_init (ty t ! i)" and "f_Type (ty t ! i) = TMap k v"
    and "p_codec p = New_map" and "p_mprops p = Some (kp, vp)" and "is_nil (zero_of_codec (p_codec kp))"
    and "p_WireType p = WireBytes" and "1 \<le> p_Tag p" and "p_Tag p < 2 ^ 29"
    and "tagMap_get (sp_decoderTags (GetProperties (ty t))) (p_Tag p) = Some (int i)"
  shows "Unmarshal ty t (key p WireBytes @ [CHR 0x00])
    = Some (Some (PPanic ''reflect: call of reflect.Value.SetMapIndex on zero Value''), new_msg (ty t))"
proof -
  let ?data = "key p WireBytes @ [CHR 0x00]" and ?vs = "map (zero_val \<circ> f_Type) (ty t)" and ?n = "length (key p WireBytes)"
  have raw: "DecodeRawBytes (at (key p WireBytes) [CHR 0x00]) = Inr ([], at ?data [])"
    using parses_at [OF parses_raw [of "[]"], of "key p WireBytes" "[]"] by (simp add: EncodeRawBytes_def EncodeVarint.simps uint8_def char_of_def)
  have v: "?vs ! i = VMap []" using assms(1,3) by simp
  have d: "dec_field ty um False p (at (key p WireBytes) [CHR 0x00]) (VMap [])
      = Some (Some (PPanic ''reflect: call of reflect.Value.SetMapIndex on zero Value''), at ?data [], VMap [])" for um
    using assms(4-6) raw by (simp add: dec_field_def dec_new_map_def at_def)
  have parts: "unat (key_word (p_Tag p) WireBytes AND 0x7) = WireBytes" "int (unat (drop_bit 3 (key_word (p_Tag p) WireBytes))) = p_Tag p"
    using key_word_parts [of "p_Tag p" WireBytes] assms(8,9) by (simp_all add: wire_defs)
  have var: "DecodeVarint (at [] (key p WireBytes @ [CHR 0x00])) = Inr (key_word (p_Tag p) WireBytes, at ([] @ key p WireBytes) [CHR 0x00])"
    unfolding key_def by (rule parses_at [OF parses_varint])
  have "?vs[i := VMap []] = ?vs" using v by (metis list_update_id)
  then have "unmarshal_round ty um (GetProperties (ty t)) False (req, None, NewBuffer ?data, Msg ?vs [])
      = Some (Inl (Some (PPanic ''reflect: call of reflect.Value.SetMapIndex on zero Value''), at ?data [], Msg ?vs []))" for um req
    using var parts assms(1,2,4,7,8,10) v d [of um]
    by (simp add: unmarshal_round_def NewBuffer_def at_def Let_def wire_defs unmarshal_known_def store_field_def)
  then show ?thesis
    by (simp add: Unmarshal_def UnmarshalMerge_def unmarshalType_def unmarshal_loop.simps(2) new_msg_def)
qed

lemma map_entry_without_key_panics_witness:
  "Unmarshal (\<lambda>_. [demo_map_field]) ''M'' [CHR 0x82, CHR 0x01, CHR 0x00]
    = Some (Some (PPanic ''reflect: call of reflect.Value.SetMapIndex on zero Value''), new_msg [demo_map_field])"
proof -
  have "key demo_map_prop WireBytes = [CHR 0x82, CHR 0x01]" using demo_tagcodes(1) by (simp add: key_def demo_map_prop WireBytes_def flip: tagcode_varint)
  moreover have "tagMap_get (sp_decoderTags (GetProperties [demo_map_field])) 16 = Some 0"
    using demo_map_prop(5,6) by (simp add: GetProperties_def Let_def tagMap_put_def tagMap_get_def tagMapFastLimit_def no_tags_def)
  moreover have "f_Type demo_map_field = TMap TString TString" by (simp add: demo_map_field_def)
  ultimately show ?thesis
    using map_entry_without_key_panics [of 0 "\<lambda>_. [demo_map_field]" "''M''" demo_map_prop TString TString demo_key demo_value]
    by (simp add: demo_map_prop demo_entry_props)
qed

end
