(* ===== verification/Presence_Proto.thy ===== *)
theory Presence_Proto
  imports Presence_PB Proto_Map
begin

text \<open>
  The messages of the service on the wire: the struct types and struct tags of
  \<open>devicepresence/devicepresence.pb.go\<close>, and what \<open>proto.Marshal\<close> and \<open>proto.Unmarshal\<close> make of them.
\<close>

section \<open>Struct types\<close>

definition pb_field :: "string \<Rightarrow> gotype \<Rightarrow> string \<Rightarrow> go_field" where
  "pb_field name t tag = \<lparr>f_Name = name, f_Type = t, f_protobuf = tag, f_protobuf_key = [], f_protobuf_val = []\<rparr>"

definition Device_fields :: "go_field list" where
  "Device_fields =
     [pb_field ''Id'' TString ''bytes,1,opt,name=id'',
      pb_field ''Type'' TInt32 ''varint,2,opt,name=type,enum=devicepresence.Device_Type'',
      pb_field ''UserId'' TString ''bytes,3,opt,name=user_id'',
      pb_field ''Status'' TInt32 ''varint,4,opt,name=status,enum=devicepresence.Device_Status'']"

definition Event_fields :: "go_field list" where
  "Event_fields =
     [pb_field ''Timestamp'' TInt64 ''varint,1,opt,name=timestamp'',
      pb_field ''Device'' (TPtr (TStruct ''Device'')) ''bytes,2,opt,name=device'']"

definition StatusRequest_fields :: "go_field list" where
  "StatusRequest_fields = [pb_field ''Device'' (TPtr (TStruct ''Device'')) ''bytes,1,opt,name=device'']"

definition DevicesRequest_fields :: "go_field list" where
  "DevicesRequest_fields = [pb_field ''UserId'' TString ''bytes,1,opt,name=user_id'']"

definition presence_types :: types where
  "presence_types t =
     (if t = ''Device'' then Device_fields
      else if t = ''Event'' then Event_fields
      else if t = ''StatusRequest'' then StatusRequest_fields
      else if t = ''DevicesRequest'' then DevicesRequest_fields
      else [])"


section \<open>Their properties\<close>

lemma tag_splits:
  "Split ''bytes,1,opt,name=id'' '','' = [''bytes'', ''1'', ''opt'', ''name=id'']"
  "Split ''varint,2,opt,name=type,enum=devicepresence.Device_Type'' '','' = [''varint'', ''2'', ''opt'', ''name=type'', ''enum=devicepresence.Device_Type'']"
  "Split ''bytes,3,opt,name=user_id'' '','' = [''bytes'', ''3'', ''opt'', ''name=user_id'']"
  "Split ''varint,4,opt,name=status,enum=devicepresence.Device_Status'' '','' = [''varint'', ''4'', ''opt'', ''name=status'', ''enum=devicepresence.Device_Status'']"
  "Split ''varint,1,opt,name=timestamp'' '','' = [''varint'', ''1'', ''opt'', ''name=timestamp'']"
  "Split ''bytes,2,opt,name=device'' '','' = [''bytes'', ''2'', ''opt'', ''name=device'']"
  "Split ''bytes,1,opt,name=device'' '','' = [''bytes'', ''1'', ''opt'', ''name=device'']"
  "Split ''bytes,1,opt,name=user_id'' '','' = [''bytes'', ''1'', ''opt'', ''name=user_id'']"
  by code_simp+

text \<open>A field of these types: its tag, codec and integer encoding; none is required, packed or internal.\<close>

definition pb_prop :: "props \<Rightarrow> int \<Rightarrow> codec \<Rightarrow> value_codec option \<Rightarrow> bool" where
  "pb_prop p tag c vc \<longleftrightarrow> p_Tag p = tag \<and> p_codec p = c \<and> p_val p = vc \<and> p_WireType p = (if vc = None then WireBytes else WireVarint)
     \<and> \<not> p_Required p \<and> \<not> p_Packed p \<and> \<not> internal p \<and> p_tagcode p = tagcode tag (p_WireType p)"

lemmas pb_defs = pb_prop_def pb_field_def tag_splits parse_defs

abbreviation prop_at :: "go_field list \<Rightarrow> nat \<Rightarrow> props" where
  "prop_at fs i \<equiv> Properties_init (fs ! i)"

lemma Device_props:
  "pb_prop (prop_at Device_fields 0) 1 Proto3_string None" "pb_prop (prop_at Device_fields (Suc 0)) 2 Proto3_int32 (Some Varint)"
  "pb_prop (prop_at Device_fields (Suc (Suc 0))) 3 Proto3_string None" "pb_prop (prop_at Device_fields (Suc (Suc (Suc 0)))) 4 Proto3_int32 (Some Varint)"
  by (simp_all add: Device_fields_def pb_defs)

lemma Event_props:
  "pb_prop (prop_at Event_fields 0) 1 Proto3_int64 (Some Varint)" "pb_prop (prop_at Event_fields (Suc 0)) 2 (Struct_message ''Device'') None"
  by (simp_all add: Event_fields_def pb_defs)

lemma request_props:
  "pb_prop (prop_at StatusRequest_fields 0) 1 (Struct_message ''Device'') None" "pb_prop (prop_at DevicesRequest_fields 0) 1 Proto3_string None"
  by (simp_all add: StatusRequest_fields_def DevicesRequest_fields_def pb_defs)

lemma pb_propD:
  assumes "pb_prop p tag c vc"
  shows "p_Tag p = tag" "p_codec p = c" "p_val p = vc" "\<not> p_Required p" "\<not> internal p"
    "p_tagcode p = tagcode tag (if vc = None then WireBytes else WireVarint)"
  using assms by (simp_all add: pb_prop_def)

lemma pb_prop_ok:
  "pb_prop p tag c vc \<Longrightarrow> 1 \<le> tag \<Longrightarrow> tag < 2 ^ 29
     \<Longrightarrow> vc = None \<and> (c = Proto3_string \<or> (\<exists>t. c = Struct_message t)) \<or> vc = Some Varint \<and> c \<in> {Proto3_int32, Proto3_int64} \<Longrightarrow> prop_ok p"
  by (auto simp: pb_prop_def prop_ok_def ints_fit_def)

lemma fields_okI:
  assumes "\<And>i. i < length fs \<Longrightarrow> prop_ok (prop_at fs i)" and "distinct (map (\<lambda>i. p_Tag (prop_at fs i)) [0 ..< length fs])"
  shows "fields_ok fs"
proof -
  have m: "map Properties_init fs = map (prop_at fs) [0 ..< length fs]" by (rule nth_equalityI) simp_all
  have "filter (\<lambda>p. \<not> internal p) (map Properties_init fs) = map Properties_init fs"
    using assms(1) by (auto simp: filter_id_conv in_set_conv_nth prop_ok_def)
  moreover have "map p_Tag (map Properties_init fs) = map (\<lambda>i. p_Tag (prop_at fs i)) [0 ..< length fs]" by (simp add: m del: map_map) simp
  ultimately show ?thesis using assms by (auto simp: fields_ok_def in_set_conv_nth)
qed

lemma pb_lengths [simp]:
  "length Device_fields = Suc (Suc (Suc (Suc 0)))" "length Event_fields = Suc (Suc 0)" "length StatusRequest_fields = Suc 0" "length DevicesRequest_fields = Suc 0"
  by (simp_all add: Device_fields_def Event_fields_def StatusRequest_fields_def DevicesRequest_fields_def)

lemmas Device_values = Device_props [THEN pb_propD(1)] Device_props [THEN pb_propD(2)] Device_props [THEN pb_propD(3)] Device_props [THEN pb_propD(6)]

lemmas Event_values = Event_props [THEN pb_propD(1)] Event_props [THEN pb_propD(2)] Event_props [THEN pb_propD(3)] Event_props [THEN pb_propD(6)]

lemma presence_fields_ok: "fields_ok (presence_types t)"
proof -
  have "fields_ok Device_fields"
    by (rule fields_okI) (auto simp: less_Suc_eq Device_values intro: pb_prop_ok [OF Device_props(1)] pb_prop_ok [OF Device_props(2)]
      pb_prop_ok [OF Device_props(3)] pb_prop_ok [OF Device_props(4)])
  moreover have "fields_ok Event_fields"
    by (rule fields_okI) (auto simp: less_Suc_eq Event_values intro: pb_prop_ok [OF Event_props(1)] pb_prop_ok [OF Event_props(2)])
  moreover have "fields_ok StatusRequest_fields" "fields_ok DevicesRequest_fields"
    by (rule fields_okI; auto simp: less_Suc_eq intro: pb_prop_ok [OF request_props(1)] pb_prop_ok [OF request_props(2)])+
  moreover have "fields_ok []" by (simp add: fields_ok_def)
  ultimately show ?thesis by (simp add: presence_types_def)
qed

lemma presence_types_ok: "types_ok presence_types"
  by (auto simp: types_ok_def presence_types_def Device_fields_def Event_fields_def StatusRequest_fields_def DevicesRequest_fields_def pb_field_def)

section \<open>Messages as values\<close>

definition Device_msg :: "Device \<Rightarrow> msg" where
  "Device_msg d = Msg [VString (dev_Id d), VW32 (word_of_int (dev_Type d)), VString (dev_UserId d), VW32 (word_of_int (dev_Status d))] []"

definition Event_msg :: "Event \<Rightarrow> msg" where
  "Event_msg e = Msg [VW64 (word_of_int (ev_Timestamp e)), PMsg (map_option Device_msg (ev_Device e))] []"

definition StatusRequest_msg :: "StatusRequest \<Rightarrow> msg" where
  "StatusRequest_msg r = Msg [PMsg (map_option Device_msg (sr_Device r))] []"

definition DevicesRequest_msg :: "DevicesRequest \<Rightarrow> msg" where
  "DevicesRequest_msg r = Msg [VString (dr_UserId r)] []"

fun as_string :: "val \<Rightarrow> string option" where
  "as_string (VString s) = Some s"
| "as_string _ = None"

fun as_int32 :: "val \<Rightarrow> int option" where
  "as_int32 (VW32 x) = Some (sint x)"
| "as_int32 _ = None"

fun as_int64 :: "val \<Rightarrow> int option" where
  "as_int64 (VW64 x) = Some (sint x)"
| "as_int64 _ = None"

fun as_message :: "val \<Rightarrow> msg option option" where
  "as_message (PMsg m) = Some m"
| "as_message _ = None"

text \<open>The structs that a message of the runtime stands for.\<close>

fun Device_of :: "msg \<Rightarrow> Device option" where
  "Device_of (Msg [i, t, u, s] _) =
     (case (as_string i, as_int32 t, as_string u, as_int32 s) of
        (Some i, Some t, Some u, Some s) \<Rightarrow> Some \<lparr>dev_Id = i, dev_Type = t, dev_UserId = u, dev_Status = s\<rparr>
      | _ \<Rightarrow> None)"
| "Device_of _ = None"

fun Event_of :: "msg \<Rightarrow> Event option" where
  "Event_of (Msg [t, d] _) =
     (case (as_int64 t, as_message d) of
        (Some t, Some None) \<Rightarrow> Some \<lparr>ev_Timestamp = t, ev_Device = None\<rparr>
      | (Some t, Some (Some m)) \<Rightarrow> map_option (\<lambda>d. \<lparr>ev_Timestamp = t, ev_Device = Some d\<rparr>) (Device_of m)
      | _ \<Rightarrow> None)"
| "Event_of _ = None"

text \<open>The enums are \<open>int32\<close> values, the time stamp an \<open>int64\<close>.\<close>

definition device_ints :: "Device \<Rightarrow> bool" where
  "device_ints d \<longleftrightarrow> - (2 ^ 31) \<le> dev_Type d \<and> dev_Type d < 2 ^ 31 \<and> - (2 ^ 31) \<le> dev_Status d \<and> dev_Status d < 2 ^ 31"

definition event_ints :: "Event \<Rightarrow> bool" where
  "event_ints e \<longleftrightarrow> in_int64 (ev_Timestamp e) \<and> (case ev_Device e of None \<Rightarrow> True | Some d \<Rightarrow> device_ints d)"

lemma sint_word32: "- (2 ^ 31) \<le> x \<Longrightarrow> x < 2 ^ 31 \<Longrightarrow> sint (word_of_int x :: 32 word) = x"
  by (simp add: signed_of_int signed_take_bit_int_eq_self_iff)

lemma sint_word64: "in_int64 x \<Longrightarrow> sint (word_of_int x :: 64 word) = x"
  by (simp add: in_int64_def signed_of_int signed_take_bit_int_eq_self_iff)

lemma Device_of_msg: "device_ints d \<Longrightarrow> Device_of (Device_msg d) = Some d"
  by (simp add: Device_msg_def device_ints_def sint_word32)

lemma Event_of_msg: "event_ints e \<Longrightarrow> Event_of (Event_msg e) = Some e"
  by (cases "ev_Device e") (auto simp: Event_msg_def event_ints_def sint_word64 Device_of_msg)

section \<open>The wire format\<close>

text \<open>A field is omitted when it has the zero value of its type.\<close>

definition wire_string :: "char \<Rightarrow> string \<Rightarrow> string" where
  "wire_string k s = (if s = [] then [] else k # EncodeStringBytes s)"

definition wire_varint :: "char \<Rightarrow> 64 word \<Rightarrow> string" where
  "wire_varint k x = (if x = 0 then [] else k # EncodeVarint x)"

definition Device_bytes :: "Device \<Rightarrow> string" where
  "Device_bytes d =
     wire_string (CHR 0x0A) (dev_Id d) @ wire_varint (CHR 0x10) (scast (word_of_int (dev_Type d) :: 32 word))
     @ wire_string (CHR 0x1A) (dev_UserId d) @ wire_varint (CHR 0x20) (scast (word_of_int (dev_Status d) :: 32 word))"

definition wire_message :: "char \<Rightarrow> string option \<Rightarrow> string" where
  "wire_message k m = (case m of None \<Rightarrow> [] | Some b \<Rightarrow> k # EncodeRawBytes b)"

definition Event_bytes :: "Event \<Rightarrow> string" where
  "Event_bytes e = wire_varint (CHR 0x08) (word_of_int (ev_Timestamp e)) @ wire_message (CHR 0x12) (map_option Device_bytes (ev_Device e))"

lemma tagcodes:
  "tagcode 1 WireBytes = [CHR 0x0A]" "tagcode 2 WireBytes = [CHR 0x12]" "tagcode 3 WireBytes = [CHR 0x1A]"
  "tagcode 1 WireVarint = [CHR 0x08]" "tagcode 2 WireVarint = [CHR 0x10]" "tagcode 4 WireVarint = [CHR 0x20]"
  by code_simp+

lemma string_field:
  assumes "p_codec p = Proto3_string" and "p_tagcode p = [k]"
  shows "enc_field ty p (VString s) = (wire_string k s, if s = [] then Some PErrNil else None)"
  using assms by (simp add: enc_field.simps enc_proto3_string_def wire_string_def)

lemma scast_zero: "scast x = (0 :: 64 word) \<longleftrightarrow> x = 0" for x :: "32 word"
proof
  assume "scast x = (0 :: 64 word)"
  then have "ucast (scast x :: 64 word) = (0 :: 32 word)" by simp
  then show "x = 0" using kept_signed [of Varint x] by (simp add: kept_def)
qed simp

lemma int32_field:
  assumes "p_codec p = Proto3_int32" and "p_val p = Some Varint" and "p_tagcode p = [k]"
  shows "enc_field ty p (VW32 x) = (wire_varint k (scast x), if x = 0 then Some PErrNil else None)"
  using assms by (simp add: enc_field.simps enc_proto3_int32_def enc_value_def wire_varint_def scast_zero)

lemma int64_field:
  assumes "p_codec p = Proto3_int64" and "p_val p = Some Varint" and "p_tagcode p = [k]"
  shows "enc_field ty p (VW64 x) = (wire_varint k x, if x = 0 then Some PErrNil else None)"
  using assms by (simp add: enc_field.simps enc_proto3_int64_def enc_value_def wire_varint_def)

lemma message_field:
  assumes "p_codec p = Struct_message t" and "p_tagcode p = [k]" and "\<And>d. enc_struct ty (ty t) (g d) = (f d, None)"
  shows "enc_field ty p (PMsg (map_option g x)) = (wire_message k (map_option f x), if x = None then Some PErrNil else None)"
  using assms
  by (cases x) (simp_all add: enc_field.simps enc_struct_message_def wire_message_def enc_len_thing_def len_shuffle_eq EncodeRawBytes_def)

lemma Device_order: "encoded_fields Device_fields (length Device_fields) = [0, Suc 0, Suc (Suc 0), Suc (Suc (Suc 0))]"
  by (simp add: encoded_fields_def field_order_def upt_rec Device_values)

lemma Event_order: "encoded_fields Event_fields (length Event_fields) = [0, Suc 0]"
  by (simp add: encoded_fields_def field_order_def upt_rec Event_values)

lemma Device_encoded: "enc_struct ty Device_fields (Device_msg d) = (Device_bytes d, None)"
proof -
  note fields = string_field [OF Device_values(5)] string_field [OF Device_values(7)] int32_field [OF Device_values(6)] int32_field [OF Device_values(8)]
  have "enc_fields None (map (\<lambda>i. (prop_at Device_fields i, enc_field ty (prop_at Device_fields i)
        ([VString (dev_Id d), VW32 (word_of_int (dev_Type d)), VString (dev_UserId d), VW32 (word_of_int (dev_Status d))] ! i)))
      [0, Suc 0, Suc (Suc 0), Suc (Suc (Suc 0))]) = (Device_bytes d, None, False)"
    by (simp add: fields Device_values tagcodes Device_props [THEN pb_propD(4)] Device_bytes_def)
  then show ?thesis using Device_order by (simp add: Device_msg_def enc_struct_fields)
qed

lemma Event_encoded: "enc_struct presence_types Event_fields (Event_msg e) = (Event_bytes e, None)"
proof -
  have dev: "enc_struct presence_types (presence_types ''Device'') (Device_msg d) = (Device_bytes d, None)" for d
    by (simp add: presence_types_def Device_encoded)
  note fields = int64_field [OF Event_values(3)] message_field [OF Event_values(4) _ dev]
  have "enc_fields None (map (\<lambda>i. (prop_at Event_fields i, enc_field presence_types (prop_at Event_fields i)
        ([VW64 (word_of_int (ev_Timestamp e)), PMsg (map_option Device_msg (ev_Device e))] ! i))) [0, Suc 0]) = (Event_bytes e, None, False)"
    by (simp add: fields Event_values tagcodes Event_props [THEN pb_propD(4)] Event_bytes_def)
  then show ?thesis using Event_order by (simp add: Event_msg_def enc_struct_fields)
qed

lemma Device_canon: "canon_msg presence_types Device_fields (Device_msg d)"
  using Device_values(5-8) by (auto simp: Device_msg_def canon_msg.simps Device_fields_def field_canon_def)

lemma Event_canon: "canon_msg presence_types Event_fields (Event_msg e)"
proof -
  have "canon_msg presence_types (presence_types ''Device'') (Device_msg d)" for d using Device_canon by (simp add: presence_types_def)
  then show ?thesis using Event_values(3,4)
    by (cases "ev_Device e") (auto simp: Event_msg_def canon_msg.simps Event_fields_def field_canon_def)
qed

section \<open>Events\<close>

text \<open>\<open>proto.Marshal\<close> of an event as \<open>sendMessage\<close> calls it; the texts of the errors it may return (a field name needs no escapes).\<close>

fun marshal_error_text :: "proto_error \<Rightarrow> string" where
  "marshal_error_text PErrNil = ''proto: Marshal called with nil''"
| "marshal_error_text PErrRepeatedHasNil = ''proto: repeated field has nil element''"
| "marshal_error_text (RequiredNotSetError field) = ''proto: required field '' @ [CHR 0x22] @ field @ [CHR 0x22] @ '' not set''"
| "marshal_error_text _ = []"

definition event_Marshal :: "Event \<Rightarrow> error + string" where
  "event_Marshal e =
     (case Marshal presence_types ''Event'' (Some (Event_msg e)) of
        Returns (b, None) \<Rightarrow> Inr b
      | Returns (b, Some err) \<Rightarrow> Inl (ErrorString (marshal_error_text err))
      | Panics s \<Rightarrow> Inl (ErrorString s)
      | Exits s \<Rightarrow> Inl (ErrorString s))"

lemma event_Marshal_bytes: "event_Marshal e = Inr (Event_bytes e)"
  by (simp add: event_Marshal_def Marshal_def Buffer_Marshal_def presence_types_def Event_encoded)

lemma Device_bytes_length: "length (Device_bytes d) \<le> length (dev_Id d) + length (dev_UserId d) + 44"
proof -
  have str: "length (wire_string k x) \<le> length x + 11" for k x
    using EncodeVarint_length [of "word_of_nat (length x)"] by (simp add: wire_string_def EncodeStringBytes_def)
  have int: "length (wire_varint k x) \<le> 11" for k x using EncodeVarint_length [of x] by (simp add: wire_varint_def)
  show ?thesis unfolding Device_bytes_def length_append
    using str [of "CHR 0x0A" "dev_Id d"] str [of "CHR 0x1A" "dev_UserId d"] int [of "CHR 0x10" "scast (word_of_int (dev_Type d) :: 32 word)"]
      int [of "CHR 0x20" "scast (word_of_int (dev_Status d) :: 32 word)"] by linarith
qed

lemma Event_bytes_length: "length (Event_bytes \<lparr>ev_Timestamp = t, ev_Device = Some d\<rparr>) \<le> length (dev_Id d) + length (dev_UserId d) + 66"
  using Device_bytes_length [of d] EncodeVarint_length [of "word_of_nat (length (Device_bytes d))"] EncodeVarint_length [of "word_of_int t"]
  by (simp add: Event_bytes_def wire_message_def EncodeRawBytes_def wire_varint_def)

lemma Unmarshal_Event:
  assumes "event_ints e" and "length (Event_bytes e) < 2 ^ 63"
  shows "\<exists>m. Unmarshal presence_types ''Event'' (Event_bytes e) = Some (None, m) \<and> Event_of m = Some e"
proof -
  have "Unmarshal presence_types ''Event'' (Event_bytes e) = Some (None, Event_msg e)"
    by (rule Unmarshal_enc) (use assms(2) presence_fields_ok Event_canon Event_encoded in \<open>simp_all add: presence_types_def\<close>)
  then show ?thesis using Event_of_msg [OF assms(1)] by blast
qed

text \<open>
  C8: The events of the service on the wire. \<open>Marshal\<close> of an event never fails and writes the time
  stamp under tag 1 and the device under tag 2, each omitted when zero; \<open>Size\<close> is its length; and
  \<open>Unmarshal\<close> of these bytes gives back the event, with the open enums of the device.
\<close>

theorem event_wire_round_trip:
  assumes "event_ints e" and "length (Event_bytes e) < 2 ^ 63"
  shows "Marshal presence_types ''Event'' (Some (Event_msg e)) = Returns (Event_bytes e, None)
    \<and> Size presence_types ''Event'' (Some (Event_msg e)) = Returns (length (Event_bytes e))
    \<and> (\<exists>m. Unmarshal presence_types ''Event'' (Event_bytes e) = Some (None, m) \<and> Event_of m = Some e)"
proof -
  have enc: "enc_struct presence_types (presence_types ''Event'') (Event_msg e) = (Event_bytes e, None)"
    by (simp add: presence_types_def Event_encoded)
  moreover have "struct_sized presence_types (presence_types ''Event'') (Event_msg e)"
    using presence_fields_ok by (intro struct_sized) simp_all
  ultimately have "Size presence_types ''Event'' (Some (Event_msg e)) = Returns (length (Event_bytes e))"
    by (simp add: Size_def struct_sized_def)
  with enc Unmarshal_Event [OF assms] show ?thesis by (simp add: Marshal_def Buffer_Marshal_def)
qed

definition demo_event :: Event where
  "demo_event = \<lparr>ev_Timestamp = 300, ev_Device = Some \<lparr>dev_Id = ''d'', dev_Type = - 1, dev_UserId = ''ann'', dev_Status = 1\<rparr>\<rparr>"

lemma demo_event_bytes:
  "Event_bytes demo_event = [CHR 0x08, CHR 0xAC, CHR 0x02, CHR 0x12, CHR 0x15, CHR 0x0A, CHR 0x01, CHR ''d'', CHR 0x10, CHR 0xFF, CHR 0xFF,
     CHR 0xFF, CHR 0xFF, CHR 0xFF, CHR 0xFF, CHR 0xFF, CHR 0xFF, CHR 0xFF, CHR 0x01, CHR 0x1A, CHR 0x03, CHR ''a'', CHR ''n'', CHR ''n'', CHR 0x20, CHR 0x01]"
  by code_simp

lemma demo_event_ok: "event_ints demo_event" "length (Event_bytes demo_event) < 2 ^ 63"
  by code_simp (simp add: demo_event_bytes)

lemma event_wire_round_trip_witness:
  "Marshal presence_types ''Event'' (Some (Event_msg demo_event)) = Returns (Event_bytes demo_event, None)
    \<and> Size presence_types ''Event'' (Some (Event_msg demo_event)) = Returns (length (Event_bytes demo_event))
    \<and> (\<exists>m. Unmarshal presence_types ''Event'' (Event_bytes demo_event) = Some (None, m) \<and> Event_of m = Some demo_event)"
  by (rule event_wire_round_trip [OF demo_event_ok])

section \<open>The general theorems at work\<close>


lemma Unmarshal_Marshal_witness: "Unmarshal presence_types ''Event'' (Event_bytes demo_event) = Some (None, Event_msg demo_event)"
proof (rule Unmarshal_Marshal)
  show "\<forall>t. fields_ok (presence_types t)" by (simp add: presence_fields_ok)
  show "canon_msg presence_types (presence_types ''Event'') (Event_msg demo_event)" by (simp add: presence_types_def Event_canon)
qed (simp_all add: Marshal_def Buffer_Marshal_def presence_types_def Event_encoded demo_event_bytes)

lemma Unmarshal_typed_witness:
  "\<exists>m. UnmarshalMerge presence_types ''Event'' (Event_bytes demo_event) (new_msg Event_fields) = Some (None, m) \<and> msg_typed presence_types Event_fields m"
proof -
  have e: "presence_types ''Event'' = Event_fields" by (simp add: presence_types_def)
  obtain m where "Unmarshal presence_types ''Event'' (Event_bytes demo_event) = Some (None, m)"
    using Unmarshal_Event [of demo_event] demo_event_ok by blast
  then have m: "UnmarshalMerge presence_types ''Event'' (Event_bytes demo_event) (new_msg Event_fields) = Some (None, m)"
    by (simp add: Unmarshal_def e)
  with Unmarshal_typed [OF presence_types_ok _ this] new_msg_typed [of presence_types Event_fields] show ?thesis by (auto simp: e)
qed

end
