(* ===== verification/Hpack_Tables.thy ===== *)
theory Hpack_Tables
  imports Prelude
begin

text \<open>
  The constant tables of the header compression of HTTP/2 (\<open>hpack/tables.go\<close>) and the type of a
  header field (\<open>hpack/hpack.go\<close>). A byte is an \<open>8 word\<close> and a Go string a list of bytes: the
  package treats names and values as opaque octets.
\<close>

unbundle bit_operations_syntax

type_synonym octet = "8 word"

text \<open>The bytes of a string constant.\<close>

definition octets :: "string \<Rightarrow> octet list" where
  "octets s = map of_char s"

record HeaderField =
  Name :: "octet list"
  Value :: "octet list"
  Sensitive :: bool

definition pair :: "string \<Rightarrow> string \<Rightarrow> HeaderField" where
  "pair name val = \<lparr>Name = octets name, Value = octets val, Sensitive = False\<rparr>"

definition staticTable :: "HeaderField list" where
  "staticTable = [
     pair '':authority'' '''', pair '':method'' ''GET'', pair '':method'' ''POST'',
     pair '':path'' ''/'', pair '':path'' ''/index.html'', pair '':scheme'' ''http'',
     pair '':scheme'' ''https'', pair '':status'' ''200'', pair '':status'' ''204'',
     pair '':status'' ''206'', pair '':status'' ''304'', pair '':status'' ''400'',
     pair '':status'' ''404'', pair '':status'' ''500'', pair ''accept-charset'' '''',
     pair ''accept-encoding'' ''gzip, deflate'', pair ''accept-language'' '''',
     pair ''accept-ranges'' '''', pair ''accept'' '''',
     pair ''access-control-allow-origin'' '''', pair ''age'' '''', pair ''allow'' '''',
     pair ''authorization'' '''', pair ''cache-control'' '''',
     pair ''content-disposition'' '''', pair ''content-encoding'' '''',
     pair ''content-language'' '''', pair ''content-length'' '''',
     pair ''content-location'' '''', pair ''content-range'' '''', pair ''content-type'' '''',
     pair ''cookie'' '''', pair ''date'' '''', pair ''etag'' '''', pair ''expect'' '''',
     pair ''expires'' '''', pair ''from'' '''', pair ''host'' '''', pair ''if-match'' '''',
     pair ''if-modified-since'' '''', pair ''if-none-match'' '''', pair ''if-range'' '''',
     pair ''if-unmodified-since'' '''', pair ''last-modified'' '''', pair ''link'' '''',
     pair ''location'' '''', pair ''max-forwards'' '''', pair ''proxy-authenticate'' '''',
     pair ''proxy-authorization'' '''', pair ''range'' '''', pair ''referer'' '''',
     pair ''refresh'' '''', pair ''retry-after'' '''', pair ''server'' '''',
     pair ''set-cookie'' '''', pair ''strict-transport-security'' '''',
     pair ''transfer-encoding'' '''', pair ''user-agent'' '''', pair ''vary'' '''',
     pair ''via'' '''', pair ''www-authenticate'' '''']"

definition huffmanCodes :: "32 word list" where
  "huffmanCodes = [
     0x1ff8, 0x7fffd8, 0xfffffe2, 0xfffffe3, 0xfffffe4, 0xfffffe5, 0xfffffe6, 0xfffffe7,
     0xfffffe8, 0xffffea, 0x3ffffffc, 0xfffffe9, 0xfffffea, 0x3ffffffd, 0xfffffeb, 0xfffffec,
     0xfffffed, 0xfffffee, 0xfffffef, 0xffffff0, 0xffffff1, 0xffffff2, 0x3ffffffe, 0xffffff3,
     0xffffff4, 0xffffff5, 0xffffff6, 0xffffff7, 0xffffff8, 0xffffff9, 0xffffffa, 0xffffffb,
     0x14, 0x3f8, 0x3f9, 0xffa, 0x1ff9, 0x15, 0xf8, 0x7fa, 0x3fa, 0x3fb, 0xf9, 0x7fb, 0xfa,
     0x16, 0x17, 0x18, 0x0, 0x1, 0x2, 0x19, 0x1a, 0x1b, 0x1c, 0x1d, 0x1e, 0x1f, 0x5c, 0xfb,
     0x7ffc, 0x20, 0xffb, 0x3fc, 0x1ffa, 0x21, 0x5d, 0x5e, 0x5f, 0x60, 0x61, 0x62, 0x63, 0x64,
     0x65, 0x66, 0x67, 0x68, 0x69, 0x6a, 0x6b, 0x6c, 0x6d, 0x6e, 0x6f, 0x70, 0x71, 0x72, 0xfc,
     0x73, 0xfd, 0x1ffb, 0x7fff0, 0x1ffc, 0x3ffc, 0x22, 0x7ffd, 0x3, 0x23, 0x4, 0x24, 0x5,
     0x25, 0x26, 0x27, 0x6, 0x74, 0x75, 0x28, 0x29, 0x2a, 0x7, 0x2b, 0x76, 0x2c, 0x8, 0x9,
     0x2d, 0x77, 0x78, 0x79, 0x7a, 0x7b, 0x7ffe, 0x7fc, 0x3ffd, 0x1ffd, 0xffffffc, 0xfffe6,
     0x3fffd2, 0xfffe7, 0xfffe8, 0x3fffd3, 0x3fffd4, 0x3fffd5, 0x7fffd9, 0x3fffd6, 0x7fffda,
     0x7fffdb, 0x7fffdc, 0x7fffdd, 0x7fffde, 0xffffeb, 0x7fffdf, 0xffffec, 0xffffed, 0x3fffd7,
     0x7fffe0, 0xffffee, 0x7fffe1, 0x7fffe2, 0x7fffe3, 0x7fffe4, 0x1fffdc, 0x3fffd8, 0x7fffe5,
     0x3fffd9, 0x7fffe6, 0x7fffe7, 0xffffef, 0x3fffda, 0x1fffdd, 0xfffe9, 0x3fffdb, 0x3fffdc,
     0x7fffe8, 0x7fffe9, 0x1fffde, 0x7fffea, 0x3fffdd, 0x3fffde, 0xfffff0, 0x1fffdf, 0x3fffdf,
     0x7fffeb, 0x7fffec, 0x1fffe0, 0x1fffe1, 0x3fffe0, 0x1fffe2, 0x7fffed, 0x3fffe1, 0x7fffee,
     0x7fffef, 0xfffea, 0x3fffe2, 0x3fffe3, 0x3fffe4, 0x7ffff0, 0x3fffe5, 0x3fffe6, 0x7ffff1,
     0x3ffffe0, 0x3ffffe1, 0xfffeb, 0x7fff1, 0x3fffe7, 0x7ffff2, 0x3fffe8, 0x1ffffec,
     0x3ffffe2, 0x3ffffe3, 0x3ffffe4, 0x7ffffde, 0x7ffffdf, 0x3ffffe5, 0xfffff1, 0x1ffffed,
     0x7fff2, 0x1fffe3, 0x3ffffe6, 0x7ffffe0, 0x7ffffe1, 0x3ffffe7, 0x7ffffe2, 0xfffff2,
     0x1fffe4, 0x1fffe5, 0x3ffffe8, 0x3ffffe9, 0xffffffd, 0x7ffffe3, 0x7ffffe4, 0x7ffffe5,
     0xfffec, 0xfffff3, 0xfffed, 0x1fffe6, 0x3fffe9, 0x1fffe7, 0x1fffe8, 0x7ffff3, 0x3fffea,
     0x3fffeb, 0x1ffffee, 0x1ffffef, 0xfffff4, 0xfffff5, 0x3ffffea, 0x7ffff4, 0x3ffffeb,
     0x7ffffe6, 0x3ffffec, 0x3ffffed, 0x7ffffe7, 0x7ffffe8, 0x7ffffe9, 0x7ffffea, 0x7ffffeb,
     0xffffffe, 0x7ffffec, 0x7ffffed, 0x7ffffee, 0x7ffffef, 0x7fffff0, 0x3ffffee]"

definition huffmanCodeLen :: "8 word list" where
  "huffmanCodeLen = [
     13, 23, 28, 28, 28, 28, 28, 28, 28, 24, 30, 28, 28, 30, 28, 28, 28, 28, 28, 28, 28, 28,
     30, 28, 28, 28, 28, 28, 28, 28, 28, 28, 6, 10, 10, 12, 13, 6, 8, 11, 10, 10, 8, 11, 8, 6,
     6, 6, 5, 5, 5, 6, 6, 6, 6, 6, 6, 6, 7, 8, 15, 6, 12, 10, 13, 6, 7, 7, 7, 7, 7, 7, 7, 7, 7,
     7, 7, 7, 7, 7, 7, 7, 7, 7, 7, 7, 7, 7, 8, 7, 8, 13, 19, 13, 14, 6, 15, 5, 6, 5, 6, 5, 6,
     6, 6, 5, 7, 7, 6, 6, 6, 5, 6, 7, 6, 5, 5, 6, 7, 7, 7, 7, 7, 15, 11, 14, 13, 28, 20, 22,
     20, 20, 22, 22, 22, 23, 22, 23, 23, 23, 23, 23, 24, 23, 24, 24, 22, 23, 24, 23, 23, 23,
     23, 21, 22, 23, 22, 23, 23, 24, 22, 21, 20, 22, 22, 23, 23, 21, 23, 22, 22, 24, 21, 22,
     23, 23, 21, 21, 22, 21, 23, 22, 23, 23, 20, 22, 22, 22, 23, 22, 22, 23, 26, 26, 20, 19,
     22, 23, 22, 25, 26, 26, 26, 27, 27, 26, 24, 25, 19, 21, 26, 27, 27, 26, 27, 24, 21, 21,
     26, 26, 28, 27, 27, 27, 20, 24, 20, 21, 22, 21, 21, 23, 22, 22, 25, 25, 24, 24, 26, 23,
     26, 27, 26, 26, 27, 27, 27, 27, 27, 28, 27, 27, 27, 27, 27, 26]"

lemma length_huffmanCodes [simp]: "length huffmanCodes = 256"
  by (simp add: huffmanCodes_def)

lemma length_huffmanCodeLen [simp]: "length huffmanCodeLen = 256"
  by (simp add: huffmanCodeLen_def)

lemma length_staticTable [simp]: "length staticTable = 61"
  by (simp add: staticTable_def)

text \<open>
  The code is canonical: the code words of one length are consecutive, in the order of the symbols.
  \<open>canonical\<close> walks the table with the next code word of every length.
\<close>

fun canonical :: "nat list \<Rightarrow> 32 word list \<Rightarrow> 8 word list \<Rightarrow> nat list option" where
  "canonical nx (c # cs) (l # ls) =
     (if unat l < length nx \<and> nx ! unat l = unat c
      then canonical (nx [unat l := Suc (unat c)]) cs ls else None)"
| "canonical nx cs ls = Some nx"

text \<open>By length, the first code word and the one after the last (equal where there is none).\<close>

definition first_codes :: "nat list" where
  "first_codes = [
     0, 0, 0, 0, 0, 0, 0x14, 0x5c, 0xf8, 0x1fc, 0x3f8, 0x7fa, 0xffa, 0x1ff8, 0x3ffc, 0x7ffc,
     0xfffe, 0x1fffc, 0x3fff8, 0x7fff0, 0xfffe6, 0x1fffdc, 0x3fffd2, 0x7fffd8, 0xffffea,
     0x1ffffec, 0x3ffffe0, 0x7ffffde, 0xfffffe2, 0x1ffffffe, 0x3ffffffc]"

definition last_codes :: "nat list" where
  "last_codes = [
     0, 0, 0, 0, 0, 0xa, 0x2e, 0x7c, 0xfe, 0x1fc, 0x3fd, 0x7fd, 0xffc, 0x1ffe, 0x3ffe, 0x7fff,
     0xfffe, 0x1fffc, 0x3fff8, 0x7fff3, 0xfffee, 0x1fffe9, 0x3fffec, 0x7ffff5, 0xfffff6,
     0x1fffff0, 0x3ffffef, 0x7fffff1, 0xfffffff, 0x1ffffffe, 0x3fffffff]"

lemma canonical_weak_cong: "nx = nx' \<Longrightarrow> canonical nx cs ls = canonical nx' cs ls"
  by simp

lemma huffman_canonical: "canonical first_codes huffmanCodes huffmanCodeLen = Some last_codes"
  unfolding huffmanCodes_def huffmanCodeLen_def
  by (simp add: first_codes_def last_codes_def cong: canonical_weak_cong)

lemma canonical_length: "canonical nx cs ls = Some fin \<Longrightarrow> length fin = length nx"
  by (induction nx cs ls rule: canonical.induct) (auto split: if_splits)

lemma canonical_mono:
  "canonical nx cs ls = Some fin \<Longrightarrow> k < length nx \<Longrightarrow> nx ! k \<le> fin ! k"
proof (induction nx cs ls rule: canonical.induct)
  case (1 nx c cs l ls)
  then show ?case by (cases "k = unat l") (fastforce split: if_splits)+
qed auto

lemma canonical_bounds:
  "canonical nx cs ls = Some fin \<Longrightarrow> i < length cs \<Longrightarrow> i < length ls \<Longrightarrow>
     unat (ls ! i) < length nx \<and> nx ! unat (ls ! i) \<le> unat (cs ! i) \<and> unat (cs ! i) < fin ! unat (ls ! i)"
proof (induction nx cs ls arbitrary: i rule: canonical.induct)
  case (1 nx c cs l ls)
  then have l: "unat l < length nx" "nx ! unat l = unat c"
    and fin: "canonical (nx [unat l := Suc (unat c)]) cs ls = Some fin"
    by (auto split: if_splits)
  show ?case
  proof (cases i)
    case 0
    with l canonical_mono [OF fin, of "unat l"] show ?thesis by simp
  next
    case (Suc j)
    with 1 l fin have "unat (ls ! j) < length nx"
      "nx [unat l := Suc (unat c)] ! unat (ls ! j) \<le> unat (cs ! j)" "unat (cs ! j) < fin ! unat (ls ! j)"
      by auto
    with l Suc show ?thesis by (cases "unat (ls ! j) = unat l") auto
  qed
qed auto

lemma canonical_distinct:
  "canonical nx cs ls = Some fin \<Longrightarrow> i < j \<Longrightarrow> j < length cs \<Longrightarrow> j < length ls \<Longrightarrow> ls ! i = ls ! j \<Longrightarrow>
     unat (cs ! i) < unat (cs ! j)"
proof (induction nx cs ls arbitrary: i j rule: canonical.induct)
  case (1 nx c cs l ls)
  then have l: "unat l < length nx" "nx ! unat l = unat c"
    and fin: "canonical (nx [unat l := Suc (unat c)]) cs ls = Some fin"
    by (auto split: if_splits)
  obtain j' where j: "j = Suc j'" using 1 by (cases j) auto
  show ?case
  proof (cases i)
    case 0
    with 1 j l canonical_bounds [OF fin, of j'] show ?thesis by auto
  next
    case (Suc i')
    with 1 j l fin show ?thesis by auto
  qed
qed auto

lemma code_bounds:
  assumes "i < 256"
  shows "unat (huffmanCodeLen ! i) < 31"
    and "first_codes ! unat (huffmanCodeLen ! i) \<le> unat (huffmanCodes ! i)"
    and "unat (huffmanCodes ! i) < last_codes ! unat (huffmanCodeLen ! i)"
  using canonical_bounds [OF huffman_canonical, of i] assms by (auto simp: first_codes_def)

lemma code_distinct:
  assumes "i < 256" and "j < 256" and "i \<noteq> j" and "huffmanCodeLen ! i = huffmanCodeLen ! j"
  shows "huffmanCodes ! i \<noteq> huffmanCodes ! j"
  using canonical_distinct [OF huffman_canonical, of i j] canonical_distinct [OF huffman_canonical, of j i] assms
  by (cases "i < j") auto

text \<open>Every length starts where the shorter lengths end, and its code words fit in their length.\<close>

lemma code_ranges:
  "list_all (\<lambda>l. first_codes ! l < last_codes ! l \<longrightarrow> 5 \<le> l) [0..<31]"
  "list_all (\<lambda>l. last_codes ! l \<le> 2 ^ l) [0..<31]"
  "list_all (\<lambda>l. 2 * last_codes ! l \<le> first_codes ! Suc l) [0..<30]"
  "list_all (\<lambda>l. first_codes ! l \<le> last_codes ! l) [0..<31]"
  by (simp_all add: first_codes_def last_codes_def upt_rec)

lemma code_len:
  assumes "i < 256"
  shows "5 \<le> unat (huffmanCodeLen ! i)" and "unat (huffmanCodeLen ! i) \<le> 30"
    and "unat (huffmanCodes ! i) < 2 ^ unat (huffmanCodeLen ! i)"
proof -
  note b = code_bounds [OF assms]
  show "5 \<le> unat (huffmanCodeLen ! i)" "unat (huffmanCodeLen ! i) \<le> 30"
    using b code_ranges(1) by (auto simp: list_all_iff)
  have "last_codes ! unat (huffmanCodeLen ! i) \<le> 2 ^ unat (huffmanCodeLen ! i)"
    using b(1) code_ranges(2) by (auto simp: list_all_iff)
  with b(3) show "unat (huffmanCodes ! i) < 2 ^ unat (huffmanCodeLen ! i)" by linarith
qed

lemma shorter_codes_before:
  assumes "k < l" and "l < 31"
  shows "last_codes ! k * 2 ^ (l - k) \<le> first_codes ! l"
  using assms
proof (induction l)
  case (Suc l)
  from Suc.prems have step: "2 * last_codes ! l \<le> first_codes ! Suc l" "first_codes ! l \<le> last_codes ! l"
    using code_ranges(3,4) by (auto simp: list_all_iff)
  show ?case
  proof (cases "k = l")
    case True
    with step show ?thesis by simp
  next
    case False
    with Suc have "last_codes ! k * 2 ^ (l - k) \<le> first_codes ! l" by simp
    then have "2 * (last_codes ! k * 2 ^ (l - k)) \<le> first_codes ! Suc l" using step by linarith
    with False Suc.prems show ?thesis by (simp add: Suc_diff_le mult.assoc mult.left_commute)
  qed
qed simp

text \<open>No code word starts another one: cutting the longer one to the length of the shorter differs.\<close>

lemma code_prefix_free:
  assumes ij: "i < 256" "j < 256" "i \<noteq> j"
    and len: "unat (huffmanCodeLen ! i) \<le> unat (huffmanCodeLen ! j)"
  shows "unat (huffmanCodes ! j) div 2 ^ (unat (huffmanCodeLen ! j) - unat (huffmanCodeLen ! i)) \<noteq>
           unat (huffmanCodes ! i)"
proof (cases "huffmanCodeLen ! i = huffmanCodeLen ! j")
  case True
  with code_distinct [OF ij] show ?thesis by (simp add: word_unat_eq_iff)
next
  case False
  define d where "d = unat (huffmanCodeLen ! j) - unat (huffmanCodeLen ! i)"
  have "Suc (unat (huffmanCodes ! i)) * 2 ^ d \<le> last_codes ! unat (huffmanCodeLen ! i) * 2 ^ d"
    using code_bounds(3) [OF ij(1)] by (intro mult_right_mono) auto
  also have "\<dots> \<le> unat (huffmanCodes ! j)"
    using shorter_codes_before [of "unat (huffmanCodeLen ! i)" "unat (huffmanCodeLen ! j)"] False len
      code_bounds [OF ij(2)] by (auto simp: d_def word_unat_eq_iff)
  finally have "Suc (unat (huffmanCodes ! i)) \<le> unat (huffmanCodes ! j) div 2 ^ d"
    by (simp add: less_eq_div_iff_mult_less_eq)
  then show ?thesis unfolding d_def by linarith
qed

end
