(* ===== verification/Hpack_Huffman.thy ===== *)
theory Hpack_Huffman
  imports Hpack_Tables
begin

text \<open>
  The Huffman coding of header strings (\<open>hpack/huffman.go\<close>): the decoding tree built from the code
  table when the package is initialised, the decoder that walks it a byte at a time, and the encoder
  that packs code words into bytes. A loop of the decoder that does not end is \<open>None\<close>.

  The proofs read words as bit strings, most significant bit first (\<open>bits\<close>). The tree is
  characterised by where its walks lead (\<open>built_from\<close>), the decoder by a function on bit strings
  (\<open>bit_decode\<close>), the encoder by the bit string its bytes hold.
\<close>

section \<open>The decoding tree\<close>

text \<open>A node has children exactly when it is an internal one; a child may be nil.\<close>

datatype node = Internal "node option list" | Leaf (codeLen: "8 word") (sym: octet)

definition newInternalNode :: node where
  "newInternalNode = Internal (replicate 256 None)"

text \<open>
  The tree is changed in place in the code; here the changed tree is returned. A code word of more
  than eight bits descends by its leading byte, creating the child where there is none; the rest of
  the code word is filled up to a byte in all ways.
\<close>

function addDecoderNode :: "node \<Rightarrow> octet \<Rightarrow> 32 word \<Rightarrow> 8 word \<Rightarrow> node outcome" where
  "addDecoderNode (Leaf l s) sym' code len = Panics ''index out of range''"
| "addDecoderNode (Internal cs) sym' code len =
     (if len > 8 then
        let len' = len - 8;
            i = unat (ucast (drop_bit (unat len') code) :: octet);
            cur = (case cs ! i of None \<Rightarrow> newInternalNode | Some m \<Rightarrow> m)
        in bind_outcome (addDecoderNode cur sym' code len') (\<lambda>m. Returns (Internal (cs [i := Some m])))
      else
        let shift = 8 - len;
            start = unat (ucast (push_bit (unat shift) code) :: octet);
            fin = 2 ^ unat shift
        in if start + fin \<le> 256
           then Returns (Internal (fold (\<lambda>i cs. cs [i := Some (Leaf len sym')]) [start ..< start + fin] cs))
           else Panics ''index out of range'')"
  by pat_completeness auto
termination
  by (relation "measure (\<lambda>(n, s, c, l). unat l)") (auto simp: word_less_nat_alt unat_sub word_le_nat_alt)

text \<open>The initialisation of the package: every symbol in turn.\<close>

fun init_huffman :: "nat \<Rightarrow> 32 word list \<Rightarrow> node \<Rightarrow> node outcome" where
  "init_huffman i [] root = Returns root"
| "init_huffman i (code # codes) root =
     (if i > 255 then Panics ''too many huffman codes''
      else bind_outcome (addDecoderNode root (of_nat i) code (huffmanCodeLen ! i))
             (init_huffman (Suc i) codes))"

definition rootHuffmanNode :: node where
  "rootHuffmanNode =
     (case init_huffman 0 huffmanCodes newInternalNode of Returns n \<Rightarrow> n | _ \<Rightarrow> newInternalNode)"

section \<open>Decoding\<close>

text \<open>
  \<open>n.children[b]\<close> followed by the test of its children: a nil child is dereferenced, and the
  children of a leaf are an empty slice.
\<close>

fun child :: "node \<Rightarrow> octet \<Rightarrow> node outcome" where
  "child (Internal cs) b =
     (case cs ! unat b of None \<Rightarrow> Panics ''nil pointer dereference'' | Some m \<Rightarrow> Returns m)"
| "child (Leaf l s) b = Panics ''index out of range''"

text \<open>The loop over the whole bytes among the bits read so far (the low \<open>nbits\<close> bits of \<open>cur\<close>).\<close>

partial_function (option) HuffmanDecode_full ::
    "64 word \<Rightarrow> node \<Rightarrow> 8 word \<Rightarrow> octet list \<Rightarrow> (node \<times> 8 word \<times> octet list) outcome option" where
  "HuffmanDecode_full cur n nbits out =
     (if nbits \<ge> 8 then
        (case child n (ucast (drop_bit (unat (nbits - 8)) cur)) of
           Returns (Leaf l s) \<Rightarrow> HuffmanDecode_full cur rootHuffmanNode (nbits - l) (out @ [s])
         | Returns (Internal cs) \<Rightarrow> HuffmanDecode_full cur (Internal cs) (nbits - 8) out
         | Panics m \<Rightarrow> Some (Panics m)
         | Exits m \<Rightarrow> Some (Exits m))
      else Some (Returns (n, nbits, out)))"

text \<open>The loop over the bits that are left at the end.\<close>

partial_function (option) HuffmanDecode_rest ::
    "64 word \<Rightarrow> node \<Rightarrow> 8 word \<Rightarrow> octet list \<Rightarrow> octet list outcome option" where
  "HuffmanDecode_rest cur n nbits out =
     (if nbits > 0 then
        (case child n (ucast (push_bit (unat (8 - nbits)) cur)) of
           Returns (Leaf l s) \<Rightarrow>
             if l > nbits then Some (Returns out)
             else HuffmanDecode_rest cur rootHuffmanNode (nbits - l) (out @ [s])
         | Returns (Internal cs) \<Rightarrow> Some (Returns out)
         | Panics m \<Rightarrow> Some (Panics m)
         | Exits m \<Rightarrow> Some (Exits m))
      else Some (Returns out))"

fun HuffmanDecode_loop ::
    "octet list \<Rightarrow> 64 word \<Rightarrow> node \<Rightarrow> 8 word \<Rightarrow> octet list \<Rightarrow> octet list outcome option" where
  "HuffmanDecode_loop [] cur n nbits out = HuffmanDecode_rest cur n nbits out"
| "HuffmanDecode_loop (b # v) cur n nbits out =
     (let cur' = push_bit 8 cur OR ucast b in
      case HuffmanDecode_full cur' n (nbits + 8) out of
        None \<Rightarrow> None
      | Some (Returns (n', nbits', out')) \<Rightarrow> HuffmanDecode_loop v cur' n' nbits' out'
      | Some (Panics m) \<Rightarrow> Some (Panics m)
      | Some (Exits m) \<Rightarrow> Some (Exits m))"

text \<open>The bytes written to \<open>w\<close>; the only writer the package passes is a \<open>bytes.Buffer\<close>.\<close>

definition HuffmanDecode :: "octet list \<Rightarrow> octet list outcome option" where
  "HuffmanDecode v = HuffmanDecode_loop v 0 rootHuffmanNode 0 []"

section \<open>Encoding\<close>

lemma unat_diff_less: "\<not> unat n < unat r \<Longrightarrow> r \<noteq> 0 \<Longrightarrow> unat n - unat r < unat n"
  by (metis diff_less gr0I le_eq_less_or_eq less_le_trans not_le unat_eq_0)

text \<open>\<open>dst[len(dst)-1] |= t\<close>; the callers have always appended a byte before.\<close>

definition or_last :: "octet list \<Rightarrow> octet \<Rightarrow> octet list" where
  "or_last dst t = dst [length dst - 1 := dst ! (length dst - 1) OR t]"

function append_code :: "32 word \<Rightarrow> octet list \<Rightarrow> 8 word \<Rightarrow> 8 word \<Rightarrow> octet list \<times> 8 word" where
  "append_code code dst rembits nbits =
     (if rembits > nbits then
        (or_last dst (ucast (push_bit (unat (rembits - nbits)) code)), rembits - nbits)
      else
        let dst' = or_last dst (ucast (drop_bit (unat (nbits - rembits)) code));
            nbits' = nbits - rembits
        in if nbits' = 0 then (dst', 8) else append_code code (dst' @ [0]) 8 nbits')"
  by pat_completeness auto
termination
  by (relation "measure (\<lambda>(c, d, r, n). 2 * unat n + (if r = 0 then 1 else 0))")
    (auto simp: word_less_nat_alt unat_sub word_le_nat_alt intro: unat_diff_less)

declare append_code.simps [simp del]

definition appendByteToHuffmanCode :: "octet list \<Rightarrow> 8 word \<Rightarrow> octet \<Rightarrow> octet list \<times> 8 word" where
  "appendByteToHuffmanCode dst rembits c =
     append_code (huffmanCodes ! unat c) dst rembits (huffmanCodeLen ! unat c)"

fun AppendHuffman_loop :: "octet list \<Rightarrow> 8 word \<Rightarrow> octet list \<Rightarrow> octet list \<times> 8 word" where
  "AppendHuffman_loop dst rembits [] = (dst, rembits)"
| "AppendHuffman_loop dst rembits (c # s) =
     (let (dst', rembits') =
        appendByteToHuffmanCode (if rembits = 8 then dst @ [0] else dst) rembits c
      in AppendHuffman_loop dst' rembits' s)"

definition AppendHuffmanString :: "octet list \<Rightarrow> octet list \<Rightarrow> octet list" where
  "AppendHuffmanString dst s =
     (let (dst', rembits) = AppendHuffman_loop dst 8 s in
      if rembits < 8 then or_last dst' (ucast (drop_bit (unat (30 - rembits)) (0x3fffffff :: 32 word)))
      else dst')"

definition HuffmanEncodeLength :: "octet list \<Rightarrow> 64 word" where
  "HuffmanEncodeLength s = (foldl (\<lambda>n c. n + ucast (huffmanCodeLen ! unat c)) 0 s + 7) div 8"

section \<open>Words as bit strings\<close>

definition bits :: "nat \<Rightarrow> 'a::len word \<Rightarrow> bool list" where
  "bits n w = map (bit w) (rev [0..<n])"

lemma length_bits [simp]: "length (bits n w) = n"
  by (simp add: bits_def)

lemma bits_0 [simp]: "bits 0 w = []"
  by (simp add: bits_def)

lemma nth_bits: "i < n \<Longrightarrow> bits n w ! i = bit w (n - Suc i)"
  by (simp add: bits_def rev_nth)

lemma bits_eqI: "length xs = n \<Longrightarrow> (\<And>i. i < n \<Longrightarrow> bit w (n - Suc i) = xs ! i) \<Longrightarrow> bits n w = xs"
  by (rule nth_equalityI) (simp_all add: nth_bits)

lemma bits_add: "bits (m + n) w = bits m (drop_bit n w) @ bits n w"
  by (rule bits_eqI) (auto simp: nth_append nth_bits bit_simps intro!: arg_cong [of _ _ "bit w"])

lemma bits_inject: "bits LENGTH('a) v = bits LENGTH('a) w \<Longrightarrow> v = (w :: 'a::len word)"
proof (rule bit_word_eqI)
  fix i assume eq: "bits LENGTH('a) v = bits LENGTH('a) w" and i: "i < LENGTH('a)"
  have "bits LENGTH('a) v ! (LENGTH('a) - Suc i) = bits LENGTH('a) w ! (LENGTH('a) - Suc i)"
    using eq by simp
  with i show "bit v i = bit w i" by (simp add: nth_bits)
qed

lemma byte_inject: "bits 8 v = bits 8 w \<Longrightarrow> v = (w :: octet)"
  using bits_inject [of v w] by simp

text \<open>Reading a byte out of a word, shifting one into it.\<close>

lemma bits_ucast: "n \<le> LENGTH('b) \<Longrightarrow> n \<le> LENGTH('a) \<Longrightarrow> bits n (ucast (w :: 'a::len word) :: 'b::len word) = bits n w"
  by (rule bits_eqI) (auto simp: nth_bits bit_simps)

lemma bits_take: "m \<le> n \<Longrightarrow> bits m (drop_bit (n - m) w) = take m (bits n w)"
  using bits_add [of m "n - m" w] by simp

lemma bits_push:
  "m \<le> n \<Longrightarrow> n \<le> LENGTH('a) \<Longrightarrow>
     bits n (push_bit (n - m) w) = bits m w @ replicate (n - m) False" for w :: "'a::len word"
  by (rule bits_eqI) (auto simp: nth_append nth_bits bit_simps not_le
      intro!: arg_cong [of _ _ "bit w"] dest: bit_imp_le_length)

lemma bits_shift_in:
  "n + 8 \<le> LENGTH('a) \<Longrightarrow>
     bits (n + 8) (push_bit 8 w OR ucast (b :: octet)) = bits n w @ bits 8 b" for w :: "'a::len word"
  by (rule bits_eqI)
    (auto simp: nth_append nth_bits bit_simps intro!: arg_cong [of _ _ "bit w"] arg_cong [of _ _ "bit b"]
      dest: bit_imp_le_length)

section \<open>Where the walks of the tree lead\<close>

definition byte_bits :: "octet list \<Rightarrow> bool list" where
  "byte_bits p = concat (map (bits 8) p)"

lemma byte_bits_simps [simp]:
  "byte_bits [] = []" "byte_bits (b # p) = bits 8 b @ byte_bits p" "byte_bits (p @ q) = byte_bits p @ byte_bits q"
  by (simp_all add: byte_bits_def)

lemma length_byte_bits [simp]: "length (byte_bits p) = 8 * length p"
  by (induction p) simp_all

lemma unat_octet [simp]: "unat (b :: octet) < 256"
  using unsigned_less [of b, where ?'a = nat] by simp

fun walk :: "node \<Rightarrow> octet list \<Rightarrow> node option" where
  "walk n [] = Some n"
| "walk n (b # p) = (case child n b of Returns m \<Rightarrow> walk m p | _ \<Rightarrow> None)"

lemma walk_append: "walk n (p @ q) = (case walk n p of None \<Rightarrow> None | Some m \<Rightarrow> walk m q)"
  by (induction n p rule: walk.induct) (auto split: outcome.splits)

lemma walk_Leaf [simp]: "walk (Leaf l s) p = (if p = [] then Some (Leaf l s) else None)"
  by (cases p) simp_all

lemma walk_newInternalNode [simp]: "walk newInternalNode p = (if p = [] then Some newInternalNode else None)"
  by (cases p) (simp_all add: newInternalNode_def unat_octet)

lemma take_bit_unat_bits:
  "unat (take_bit m (v :: octet)) < 2 ^ m"
  by (simp add: unsigned_take_bit_eq)

lemma div_eq_iff_between: "a div d = k \<longleftrightarrow> k * d \<le> a \<and> a < k * d + d" if "0 < d" for a d k :: nat
  using that dividend_less_div_times [of d a] by (auto simp: div_nat_eqI mult.commute)

lemma length_fold_update [simp]: "length (fold (\<lambda>k xs. xs [k := v]) ks xs) = length xs"
  by (induction ks arbitrary: xs) simp_all

text \<open>The bytes that start with the bits of a code word of at most eight bits form an interval.\<close>

lemma fill_start:
  fixes code :: "32 word"
  assumes "m \<le> 8"
  shows "unat (ucast (push_bit (8 - m) code) :: octet) = unat (take_bit m (ucast code :: octet)) * 2 ^ (8 - m)"
proof -
  have "(ucast (push_bit (8 - m) code) :: octet) = push_bit (8 - m) (take_bit m (ucast code))"
    by (rule bit_word_eqI) (use assms in \<open>auto simp: bit_simps\<close>)
  moreover have "unat (take_bit m (ucast code :: octet)) * 2 ^ (8 - m) < 2 ^ 8"
  proof -
    have "unat (take_bit m (ucast code :: octet)) * 2 ^ (8 - m) < 2 ^ m * 2 ^ (8 - m)"
      using take_bit_unat_bits [of m "ucast code"] by simp
    also have "\<dots> = 2 ^ 8" using assms by (simp flip: power_add)
    finally show ?thesis .
  qed
  moreover have "unat (push_bit (8 - m) (take_bit m (ucast code :: octet))) =
      take_bit 8 (push_bit (8 - m) (unat (take_bit m (ucast code :: octet))))"
    by (simp add: unsigned_push_bit_eq del: push_bit_eq_mult)
  ultimately show ?thesis
    by (simp add: take_bit_nat_eq_self push_bit_eq_mult [where ?'a = nat])
qed

lemma fill_bound:
  fixes code :: "32 word"
  assumes "m \<le> 8"
  shows "unat (ucast (push_bit (8 - m) code) :: octet) + 2 ^ (8 - m) \<le> 256"
proof -
  have "(unat (take_bit m (ucast code :: octet)) + 1) * 2 ^ (8 - m) \<le> 2 ^ m * 2 ^ (8 - m)"
    using take_bit_unat_bits [of m "ucast code"] by (intro mult_right_mono) auto
  also have "\<dots> = 256" using assms by (simp flip: power_add)
  finally show ?thesis by (simp add: fill_start [OF assms])
qed

lemma prefix_bits_iff:
  fixes code :: "32 word" and b :: octet
  assumes "m \<le> 8"
  shows "prefix (bits m code) (bits 8 b) \<longleftrightarrow> drop_bit (8 - m) b = take_bit m (ucast code)"
proof -
  have "prefix (bits m code) (bits 8 b) \<longleftrightarrow> bits m code = bits m (drop_bit (8 - m) b)"
    using bits_take [OF assms, of b] by (auto simp: prefix_def take_is_prefix)
      (metis append_eq_conv_conj length_bits)+
  also have "\<dots> \<longleftrightarrow> (\<forall>i < m. bit code i = bit (drop_bit (8 - m) b) i)"
    by (auto simp: bits_def)
  also have "\<dots> \<longleftrightarrow> (\<forall>i. bit (drop_bit (8 - m) b) i = bit (take_bit m (ucast code :: octet)) i)"
  proof -
    have "\<not> bit (drop_bit (8 - m) b) i" if "m \<le> i" for i
      using that assms bit_imp_le_length [of b "8 - m + i"] by (auto simp: bit_simps)
    moreover have "bit (take_bit m (ucast code :: octet)) i \<longleftrightarrow> i < m \<and> bit code i" for i
      using assms by (auto simp: bit_simps)
    ultimately show ?thesis by (meson not_le)
  qed
  also have "\<dots> \<longleftrightarrow> drop_bit (8 - m) b = take_bit m (ucast code)"
    by (auto intro: bit_eqI)
  finally show ?thesis .
qed

lemma fill_iff:
  fixes code :: "32 word" and b :: octet
  assumes "m \<le> 8"
  defines "start \<equiv> unat (ucast (push_bit (8 - m) code) :: octet)"
  shows "prefix (bits m code) (bits 8 b) \<longleftrightarrow> start \<le> unat b \<and> unat b < start + 2 ^ (8 - m)"
proof -
  have "prefix (bits m code) (bits 8 b) \<longleftrightarrow> unat b div 2 ^ (8 - m) = unat (take_bit m (ucast code :: octet))"
    unfolding prefix_bits_iff [OF assms(1)] word_unat_eq_iff unat_drop_bit_eq
    by (simp add: drop_bit_eq_div)
  also have "\<dots> \<longleftrightarrow> start \<le> unat b \<and> unat b < start + 2 ^ (8 - m)"
    unfolding start_def fill_start [OF assms(1)] by (rule div_eq_iff_between) simp
  finally show ?thesis .
qed

lemma nth_fold_update:
  "i < length xs \<Longrightarrow> fold (\<lambda>k xs. xs [k := v]) [a ..< c] xs ! i = (if a \<le> i \<and> i < c then v else xs ! i)"
  by (induction c) (auto simp: upt_Suc_append nth_list_update less_Suc_eq)

text \<open>
  Adding a code word to a tree: \<open>p\<close> reaches its leaf if the bits of \<open>p\<close> start with the code word
  and no byte is left over, an internal node if they are a proper part of it, and what it reached
  before if neither starts the other.
\<close>

definition last_len :: "nat \<Rightarrow> nat" where
  "last_len m = (m - 1) mod 8 + 1"

definition no_leaf :: "node \<Rightarrow> bool list \<Rightarrow> bool" where
  "no_leaf t c \<longleftrightarrow> (\<forall>p l s. strict_prefix (byte_bits p) c \<longrightarrow> walk t p \<noteq> Some (Leaf l s))"

definition wide :: "node \<Rightarrow> bool" where
  "wide t \<longleftrightarrow> (\<forall>p cs. walk t p = Some (Internal cs) \<longrightarrow> length cs = 256)"

definition added :: "node \<Rightarrow> bool list \<Rightarrow> node \<Rightarrow> node \<Rightarrow> bool" where
  "added t c n t' \<longleftrightarrow>
     (\<forall>p. (prefix c (byte_bits p) \<and> length (byte_bits p) < length c + 8 \<longrightarrow> walk t' p = Some n) \<and>
          (strict_prefix (byte_bits p) c \<longrightarrow> (\<exists>cs. walk t' p = Some (Internal cs) \<and> length cs = 256)) \<and>
          (\<not> prefix c (byte_bits p) \<and> \<not> prefix (byte_bits p) c \<longrightarrow> walk t' p = walk t p))"

lemma walk_Internal:
  "length cs = 256 \<Longrightarrow> walk (Internal cs) (b # p) =
     (case cs ! unat b of None \<Rightarrow> None | Some m \<Rightarrow> walk m p)"
  by (simp split: option.splits)

lemma wide_Internal: "wide (Internal cs) \<Longrightarrow> length cs = 256"
  unfolding wide_def by (metis walk.simps(1))

lemma wide_child:
  assumes "wide (Internal cs)" and m: "cs ! unat (b :: octet) = Some m"
  shows "wide m"
proof -
  have "walk m p = walk (Internal cs) (b # p)" for p using m by simp
  with assms(1) show ?thesis unfolding wide_def by (simp del: walk.simps)
qed

lemma wide_new [simp]: "wide newInternalNode"
  by (auto simp: wide_def newInternalNode_def [symmetric] split: if_splits) (simp add: newInternalNode_def)

lemma no_leaf_new [simp]: "no_leaf newInternalNode c"
  by (simp add: no_leaf_def) (simp add: newInternalNode_def)

lemma no_leaf_child:
  "no_leaf (Internal cs) (bits 8 (b :: octet) @ c) \<Longrightarrow> cs ! unat b = Some m \<Longrightarrow> no_leaf m c"
  unfolding no_leaf_def
proof (intro allI impI)
  fix p l s
  assume *: "\<forall>p l s. strict_prefix (byte_bits p) (bits 8 b @ c) \<longrightarrow> walk (Internal cs) p \<noteq> Some (Leaf l s)"
    and m: "cs ! unat b = Some m" and p: "strict_prefix (byte_bits p) c"
  have "strict_prefix (byte_bits (b # p)) (bits 8 b @ c)" using p by (simp add: strict_prefix_def)
  with * have "walk (Internal cs) (b # p) \<noteq> Some (Leaf l s)" by blast
  with m show "walk m p \<noteq> Some (Leaf l s)" by simp
qed

lemma prefix_byte_append:
  "prefix (bits 8 (b :: octet) @ c) (bits 8 (b' :: octet) @ d) \<longleftrightarrow> b = b' \<and> prefix c d"
  "strict_prefix (bits 8 (b' :: octet) @ d) (bits 8 (b :: octet) @ c) \<longleftrightarrow> b = b' \<and> strict_prefix d c"
  by (auto simp: prefix_def strict_prefix_def dest: byte_inject)

lemma added_deeper:
  fixes b :: octet
  assumes m: "added m c n m'" and cs: "length cs = 256" "cs ! unat b = Some m \<or> cs ! unat b = None \<and> m = newInternalNode"
  shows "added (Internal cs) (bits 8 b @ c) n (Internal (cs [unat b := Some m']))"
proof -
  have upd: "walk (Internal (cs [unat b := Some m'])) (b' # p) =
      (if b' = b then walk m' p else walk (Internal cs) (b' # p))" for b' p
    using cs(1) by (auto simp: nth_list_update word_unat_eq_iff split: option.splits)
  have old: "walk (Internal cs) (b # p) = walk m p" if "p \<noteq> []" for p
    using cs that by auto
  show ?thesis
    unfolding added_def
  proof
    fix p
    show "(prefix (bits 8 b @ c) (byte_bits p) \<and> length (byte_bits p) < length (bits 8 b @ c) + 8
             \<longrightarrow> walk (Internal (cs [unat b := Some m'])) p = Some n) \<and>
          (strict_prefix (byte_bits p) (bits 8 b @ c)
             \<longrightarrow> (\<exists>cs'. walk (Internal (cs [unat b := Some m'])) p = Some (Internal cs') \<and> length cs' = 256)) \<and>
          (\<not> prefix (bits 8 b @ c) (byte_bits p) \<and> \<not> prefix (byte_bits p) (bits 8 b @ c)
             \<longrightarrow> walk (Internal (cs [unat b := Some m'])) p = walk (Internal cs) p)"
    proof (cases p)
      case Nil
      then show ?thesis using cs length_bits [of 8 b] by (auto simp del: length_bits)
    next
      case (Cons b' q)
      with m have "(prefix c (byte_bits q) \<and> length (byte_bits q) < length c + 8 \<longrightarrow> walk m' q = Some n) \<and>
          (strict_prefix (byte_bits q) c \<longrightarrow> (\<exists>cs. walk m' q = Some (Internal cs) \<and> length cs = 256)) \<and>
          (\<not> prefix c (byte_bits q) \<and> \<not> prefix (byte_bits q) c \<longrightarrow> walk m' q = walk m q)"
        unfolding added_def by blast
      moreover have "q \<noteq> []" if "\<not> prefix (byte_bits q) c" using that by auto
      ultimately show ?thesis
        using Cons old [of q] by (simp add: upd prefix_byte_append del: walk.simps)
    qed
  qed
qed

lemma prefix_short: "length c \<le> length d \<Longrightarrow> prefix c (d @ e) \<longleftrightarrow> prefix c d"
  by (meson prefixI prefix_length_prefix prefix_order.trans)

lemma added_fill:
  fixes code :: "32 word"
  assumes m: "0 < m" "m \<le> 8" and cs: "length cs = 256"
  defines "start \<equiv> unat (ucast (push_bit (8 - m) code) :: octet)"
  shows "added (Internal cs) (bits m code) n
           (Internal (fold (\<lambda>i cs. cs [i := Some n]) [start ..< start + 2 ^ (8 - m)] cs))"
    (is "added _ _ _ (Internal ?fs)")
  unfolding added_def
proof
  fix p
  have fs: "?fs ! unat b = (if prefix (bits m code) (bits 8 b) then Some n else cs ! unat b)" for b :: octet
    using fill_iff [OF m(2), of code b] cs by (simp add: nth_fold_update start_def)
  show "(prefix (bits m code) (byte_bits p) \<and> length (byte_bits p) < length (bits m code) + 8
           \<longrightarrow> walk (Internal ?fs) p = Some n) \<and>
        (strict_prefix (byte_bits p) (bits m code)
           \<longrightarrow> (\<exists>cs'. walk (Internal ?fs) p = Some (Internal cs') \<and> length cs' = 256)) \<and>
        (\<not> prefix (bits m code) (byte_bits p) \<and> \<not> prefix (byte_bits p) (bits m code)
           \<longrightarrow> walk (Internal ?fs) p = walk (Internal cs) p)"
  proof (cases p)
    case Nil
    then show ?thesis using m cs length_bits [of m code] by (auto simp del: length_bits)
  next
    case (Cons b q)
    have "\<not> strict_prefix (byte_bits p) (bits m code)"
      using prefix_length_less [of "byte_bits p" "bits m code"] m Cons by auto
    moreover have "prefix (bits m code) (byte_bits p) \<longleftrightarrow> prefix (bits m code) (bits 8 b)"
      using m Cons by (simp add: prefix_short)
    ultimately show ?thesis
      using Cons m by (cases q) (auto simp: fs)
  qed
qed

lemma addDecoderNode_added:
  assumes "wide t" and "no_leaf t (bits (unat len) code)" and "0 < unat len"
  shows "\<exists>t'. addDecoderNode t s code len = Returns t' \<and>
           added t (bits (unat len) code) (Leaf (of_nat (last_len (unat len))) s) t'"
  using assms
proof (induction t s code len rule: addDecoderNode.induct)
  case (1 l s' s code len)
  then have "strict_prefix (byte_bits []) (bits (unat len) code)"
    by (auto simp: strict_prefix_def dest: arg_cong [of _ _ length])
  with 1 show ?case unfolding no_leaf_def by (metis walk.simps(1))
next
  case (2 cs s code len)
  have cs: "length cs = 256" using 2 by (simp add: wide_Internal)
  show ?case
  proof (cases "len > 8")
    case True
    define b :: octet where "b = ucast (drop_bit (unat (len - 8)) code)"
    define m where "m = (case cs ! unat b of None \<Rightarrow> newInternalNode | Some m \<Rightarrow> m)"
    have len: "unat (len - 8) = unat len - 8" "8 < unat len"
      using True by (simp_all add: unat_sub word_le_nat_alt word_less_nat_alt)
    have code: "bits (unat len) code = bits 8 b @ bits (unat (len - 8)) code"
      using bits_add [of 8 "unat len - 8" code] len by (simp add: b_def bits_ucast)
    have last: "last_len (unat (len - 8)) = last_len (unat len)"
      using len le_mod_geq [of 8 "unat len - 1"] unfolding last_len_def by simp
    have "wide m" "no_leaf m (bits (unat (len - 8)) code)"
      using 2 code wide_child no_leaf_child by (auto simp: m_def split: option.split)
    with "2.IH" [OF True refl refl refl] len(2) obtain m' where m':
      "addDecoderNode m s code (len - 8) = Returns m'"
      "added m (bits (unat (len - 8)) code) (Leaf (of_nat (last_len (unat len))) s) m'"
      unfolding b_def [symmetric] m_def [symmetric] last len(1) [symmetric] by (auto simp: len(1))
    have "cs ! unat b = Some m \<or> cs ! unat b = None \<and> m = newInternalNode"
      by (simp add: m_def split: option.split)
    from added_deeper [OF m'(2) cs this] m'(1) True show ?thesis
      by (simp add: code Let_def flip: b_def m_def)
  next
    case False
    then have len: "unat (8 - len) = 8 - unat len" "unat len \<le> 8"
      by (simp_all add: unat_sub word_le_nat_alt word_less_nat_alt)
    have "last_len (unat len) = unat len" using len "2.prems" by (simp add: last_len_def)
    with False added_fill [OF "2.prems"(3) len(2) cs] fill_bound [OF len(2), of code] show ?thesis
      by (simp add: Let_def len)
  qed
qed

lemma added_wide:
  assumes a: "added t c (Leaf l s) t'" and t: "wide t"
  shows "wide t'"
  unfolding wide_def
proof (intro allI impI)
  fix p cs
  assume p: "walk t' p = Some (Internal cs)"
  show "length cs = 256"
  proof (cases "prefix c (byte_bits p)")
    case True
    define k where "k = (length c + 7) div 8"
    have k: "k \<le> length p" "length c \<le> 8 * k" "8 * k < length c + 8"
      using prefix_length_le [OF True] unfolding k_def by auto
    have split: "p = take k p @ drop k p" by simp
    have "prefix c (byte_bits (take k p))"
      using True k prefix_short [of c "byte_bits (take k p)" "byte_bits (drop k p)"]
      by (simp flip: byte_bits_simps(3))
    with a k have "walk t' (take k p) = Some (Leaf l s)" unfolding added_def by simp
    with p show ?thesis by (subst (asm) split, subst (asm) walk_append) (simp split: if_splits)
  next
    case False
    with a p t show ?thesis
      unfolding added_def wide_def strict_prefix_def by (metis node.inject(1) option.inject prefix_order.order_refl)
  qed
qed

text \<open>A tree that holds exactly the given code words.\<close>

definition built_from :: "(bool list \<times> node) set \<Rightarrow> node \<Rightarrow> bool" where
  "built_from E t \<longleftrightarrow> wide t \<and> (\<exists>cs. t = Internal cs) \<and>
     (\<forall>c n p. (c, n) \<in> E \<longrightarrow>
        (prefix c (byte_bits p) \<and> length (byte_bits p) < length c + 8 \<longrightarrow> walk t p = Some n) \<and>
        (strict_prefix (byte_bits p) c \<longrightarrow> (\<exists>cs. walk t p = Some (Internal cs)))) \<and>
     (\<forall>p. p \<noteq> [] \<and> (\<forall>(c, n) \<in> E. \<not> prefix c (byte_bits p) \<and> \<not> prefix (byte_bits p) c) \<longrightarrow> walk t p = None)"

lemma built_from_empty: "built_from {} newInternalNode"
  by (simp add: built_from_def) (simp add: newInternalNode_def)

lemma built_no_leaf:
  assumes t: "built_from E t" and c: "\<forall>(c', n') \<in> E. \<not> prefix c' c"
  shows "no_leaf t c"
  unfolding no_leaf_def
proof (intro allI impI notI)
  fix p l s
  assume p: "strict_prefix (byte_bits p) c" and w: "walk t p = Some (Leaf l s)"
  have "p \<noteq> []" using t w unfolding built_from_def by auto
  with t w obtain c' n' where e: "(c', n') \<in> E" "prefix c' (byte_bits p) \<or> prefix (byte_bits p) c'"
    unfolding built_from_def by (metis (no_types, lifting) case_prodI2 option.distinct(1))
  have "\<not> prefix c' (byte_bits p)"
    using c e(1) p unfolding strict_prefix_def by (metis case_prodD prefix_order.trans)
  with e have "strict_prefix (byte_bits p) c'" unfolding strict_prefix_def by auto
  with t e(1) w show False unfolding built_from_def by fastforce
qed

lemma built_from_added:
  assumes t: "built_from E t" and a: "added t c (Leaf l s) t'" and c0: "c \<noteq> []"
    and c: "\<forall>(c', n') \<in> E. \<not> prefix c' c \<and> \<not> prefix c c'"
  shows "built_from (insert (c, Leaf l s) E) t'"
proof -
  have nil: "strict_prefix (byte_bits []) c" using c0 by (simp add: strict_prefix_def)
  have "\<exists>cs. walk t' [] = Some (Internal cs)" using a nil unfolding added_def by blast
  then have int: "\<exists>cs. t' = Internal cs" by simp
  have E: "(prefix c' (byte_bits p) \<and> length (byte_bits p) < length c' + 8 \<longrightarrow> walk t' p = Some n') \<and>
      (strict_prefix (byte_bits p) c' \<longrightarrow> (\<exists>cs. walk t' p = Some (Internal cs)))"
    if e: "(c', n') \<in> E" for c' n' p
  proof -
    from c e have inc: "\<not> prefix c' c" "\<not> prefix c c'" by auto
    have 1: "walk t' p = walk t p" if "prefix c' (byte_bits p)"
    proof -
      have "\<not> prefix c (byte_bits p)" using inc that prefix_same_cases by blast
      moreover have "\<not> prefix (byte_bits p) c" using inc that prefix_order.trans by blast
      ultimately show ?thesis using a unfolding added_def by blast
    qed
    have 2: "(\<exists>cs. walk t' p = Some (Internal cs)) \<or> walk t' p = walk t p" if "strict_prefix (byte_bits p) c'"
    proof -
      have "\<not> prefix c (byte_bits p)"
        using inc that prefix_order.trans unfolding strict_prefix_def by blast
      then show ?thesis using a unfolding added_def strict_prefix_def by (metis prefix_order.order_refl)
    qed
    show ?thesis using t e 1 2 unfolding built_from_def by metis
  qed
  have none: "walk t' p = None"
    if "p \<noteq> []" "\<forall>(c', n') \<in> insert (c, Leaf l s) E. \<not> prefix c' (byte_bits p) \<and> \<not> prefix (byte_bits p) c'" for p
  proof -
    have "walk t' p = walk t p" using that a unfolding added_def by auto
    with that t show ?thesis unfolding built_from_def by auto
  qed
  have C: "(prefix c (byte_bits p) \<and> length (byte_bits p) < length c + 8 \<longrightarrow> walk t' p = Some (Leaf l s)) \<and>
      (strict_prefix (byte_bits p) c \<longrightarrow> (\<exists>cs. walk t' p = Some (Internal cs)))" for p
    using a unfolding added_def by blast
  have wide: "wide t'" using added_wide [OF a] t unfolding built_from_def by blast
  show ?thesis
    unfolding built_from_def
  proof (intro conjI allI impI, goal_cases)
    case 1 show ?case by (rule wide)
  next
    case 2 show ?case by (rule int)
  next
    case (3 c' n' p) then show ?case using E [of c' n' p] C [of p] by auto
  next
    case (4 c' n' p) then show ?case using E [of c' n' p] C [of p] by auto
  next
    case (5 p) then show ?case using none by blast
  qed
qed

section \<open>The tree of the code table\<close>

definition code_bits :: "octet \<Rightarrow> bool list" where
  "code_bits c = bits (unat (huffmanCodeLen ! unat c)) (huffmanCodes ! unat c)"

definition code_leaf :: "octet \<Rightarrow> node" where
  "code_leaf c = Leaf (of_nat (last_len (length (code_bits c)))) c"

lemma length_code_bits: "length (code_bits c) = unat (huffmanCodeLen ! unat c)"
  by (simp add: code_bits_def)

lemma code_bits_bounds: "5 \<le> length (code_bits c)" "length (code_bits c) \<le> 30"
  using code_len [of "unat c"] by (simp_all add: length_code_bits)

lemma code_bits_nonempty [simp]: "code_bits c \<noteq> []"
  using code_bits_bounds(1) [of c] by auto

lemma bits_le_eq:
  fixes v w :: "32 word"
  assumes "prefix (bits m v) (bits n w)" and "unat v < 2 ^ m" and "unat w < 2 ^ n"
  shows "m \<le> n" and "unat w div 2 ^ (n - m) = unat v"
proof -
  show mn: "m \<le> n" using prefix_length_le [OF assms(1)] by simp
  have "bits m (drop_bit (n - m) w) = bits m v"
    using assms(1) mn unfolding bits_take [OF mn] prefix_def
    by (metis append_eq_conv_conj length_bits)
  then have eq: "\<forall>i < m. bit (drop_bit (n - m) w) i = bit v i" by (auto simp: bits_def)
  have "drop_bit (n - m) w = v"
  proof (rule bit_eqI)
    fix i
    have v: "take_bit m v = v" and w: "take_bit n w = w"
      using assms(2,3) by (simp_all add: word_unat_eq_iff unsigned_take_bit_eq take_bit_nat_eq_self)
    show "bit (drop_bit (n - m) w) i = bit v i"
    proof (cases "i < m")
      case False
      then have "\<not> bit (take_bit m v) i" "\<not> bit (drop_bit (n - m) (take_bit n w)) i"
        using mn by (auto simp: bit_simps)
      then show ?thesis by (simp add: v w)
    qed (use eq in blast)
  qed
  then show "unat w div 2 ^ (n - m) = unat v"
    by (metis drop_bit_eq_div unat_drop_bit_eq)
qed

lemma code_bits_prefix_free: "prefix (code_bits c) (code_bits d) \<Longrightarrow> c = d"
  using code_prefix_free [of "unat c" "unat d"] code_len(3) [of "unat c"] code_len(3) [of "unat d"]
    bits_le_eq [of "unat (huffmanCodeLen ! unat c)" "huffmanCodes ! unat c"
      "unat (huffmanCodeLen ! unat d)" "huffmanCodes ! unat d"]
  by (auto simp: code_bits_def word_unat_eq_iff)

lemma init_huffman_built:
  assumes "built_from ((\<lambda>c. (code_bits c, code_leaf c)) ` {c. unat c < i}) t" and "i \<le> 256"
  shows "\<exists>t'. init_huffman i (drop i huffmanCodes) t = Returns t' \<and>
           built_from ((\<lambda>c. (code_bits c, code_leaf c)) ` UNIV) t'"
  using assms
proof (induction "256 - i" arbitrary: i t)
  case 0
  then have "{c :: octet. unat c < i} = UNIV" by auto
  with 0 show ?case by simp
next
  case (Suc k)
  define c :: octet where "c = of_nat i"
  have i: "i < 256" and c: "unat c = i"
    using Suc by (simp_all add: c_def unat_of_nat take_bit_nat_eq_self)
  have other: "\<forall>(c', n') \<in> (\<lambda>c. (code_bits c, code_leaf c)) ` {c. unat c < i}.
      \<not> prefix c' (code_bits c) \<and> \<not> prefix (code_bits c) c'"
    using c code_bits_prefix_free by auto
  have "no_leaf t (code_bits c)" using built_no_leaf [OF Suc.prems(1)] other by auto
  moreover have "wide t" using Suc.prems(1) by (simp add: built_from_def)
  ultimately obtain t' where t': "addDecoderNode t c (huffmanCodes ! i) (huffmanCodeLen ! i) = Returns t'"
      "added t (code_bits c) (code_leaf c) t'"
    using addDecoderNode_added [of t "huffmanCodeLen ! i" "huffmanCodes ! i" c] code_bits_bounds(1) [of c]
    by (auto simp: code_leaf_def code_bits_def c)
  have "built_from (insert (code_bits c, code_leaf c) ((\<lambda>c. (code_bits c, code_leaf c)) ` {c. unat c < i})) t'"
    using built_from_added [OF Suc.prems(1) t'(2) [unfolded code_leaf_def] code_bits_nonempty other]
    by (simp add: code_leaf_def)
  moreover have "{d :: octet. unat d < Suc i} = insert c {d. unat d < i}"
    using c by (auto simp: word_unat_eq_iff less_Suc_eq)
  ultimately have "built_from ((\<lambda>c. (code_bits c, code_leaf c)) ` {c. unat c < Suc i}) t'" by simp
  from Suc.hyps(1) [OF _ this] Suc.hyps(2) i
  show ?case by (simp add: t' c_def [symmetric] Cons_nth_drop_Suc [symmetric])
qed

lemma root_built: "built_from ((\<lambda>c. (code_bits c, code_leaf c)) ` UNIV) rootHuffmanNode"
  using init_huffman_built [of 0 newInternalNode] built_from_empty by (auto simp: rootHuffmanNode_def)

lemma init_huffman_returns: "init_huffman 0 huffmanCodes newInternalNode = Returns rootHuffmanNode"
  using init_huffman_built [of 0 newInternalNode] built_from_empty by (auto simp: rootHuffmanNode_def)

lemma root_match:
  "prefix (code_bits c) (byte_bits p) \<Longrightarrow> 8 * length p < length (code_bits c) + 8 \<Longrightarrow>
     walk rootHuffmanNode p = Some (code_leaf c)"
  using root_built unfolding built_from_def length_byte_bits by blast

lemma root_inside:
  "strict_prefix (byte_bits p) (code_bits c) \<Longrightarrow> \<exists>cs. walk rootHuffmanNode p = Some (Internal cs)"
  using root_built unfolding built_from_def by blast

lemma root_outside:
  "p \<noteq> [] \<Longrightarrow> (\<And>c. \<not> prefix (code_bits c) (byte_bits p) \<and> \<not> prefix (byte_bits p) (code_bits c)) \<Longrightarrow>
     walk rootHuffmanNode p = None"
  using root_built unfolding built_from_def by auto

section \<open>The decoder on bit strings\<close>

text \<open>
  The next byte of a bit string, filled up with zeros; and the decoder on all the bits at once. It
  stops, as the code does, inside a code word that is not complete.
\<close>

definition next_byte :: "bool list \<Rightarrow> octet" where
  "next_byte bs = of_nat (foldl (\<lambda>n b. 2 * n + of_bool b) 0 (take 8 (bs @ replicate 8 False)))"

lemma bit_foldl:
  "i < length bs \<Longrightarrow> bit (foldl (\<lambda>n b. 2 * n + of_bool b) (0 :: nat) bs) (length bs - Suc i) = bs ! i"
proof (induction bs arbitrary: i rule: rev_induct)
  case (snoc c bs)
  show ?case
  proof (cases "i = length bs")
    case True
    then show ?thesis by (simp add: bit_0)
  next
    case False
    with snoc.prems obtain k where k: "length bs - i = Suc k" by (cases "length bs - i") auto
    then have "k = length bs - Suc i" by simp
    with k False snoc show ?thesis by (auto simp: nth_append bit_Suc)
  qed
qed simp

lemma bits_fold:
  assumes "length bs = n" and "n \<le> LENGTH('a)"
  shows "bits n (of_nat (foldl (\<lambda>n b. 2 * n + of_bool b) 0 bs) :: 'a::len word) = bs"
  by (rule bits_eqI) (use assms bit_foldl [of _ bs] in \<open>auto simp: bit_simps\<close>)

lemma bits_next_byte: "bits 8 (next_byte bs) = take 8 (bs @ replicate 8 False)"
  unfolding next_byte_def by (rule bits_fold) simp_all

lemma next_byteI: "bits 8 b = take 8 (bs @ replicate 8 False) \<Longrightarrow> b = next_byte bs"
  by (rule byte_inject) (simp add: bits_next_byte)

inductive bit_decodes :: "node \<Rightarrow> bool list \<Rightarrow> octet list outcome \<Rightarrow> bool" where
  Done: "bit_decodes n [] (Returns [])"
| Partial: "\<lbrakk>bs \<noteq> []; length bs < 8; child n (next_byte bs) = Returns m;
     case m of Internal cs \<Rightarrow> True | Leaf l s \<Rightarrow> length bs < unat l\<rbrakk> \<Longrightarrow> bit_decodes n bs (Returns [])"
| Symbol: "\<lbrakk>bs \<noteq> []; child n (next_byte bs) = Returns (Leaf l s); unat l \<le> length bs; unat l \<le> 8;
     bit_decodes rootHuffmanNode (drop (unat l) bs) r\<rbrakk> \<Longrightarrow> bit_decodes n bs (map_outcome ((#) s) r)"
| Deeper: "\<lbrakk>8 \<le> length bs; child n (next_byte bs) = Returns (Internal cs);
     bit_decodes (Internal cs) (drop 8 bs) r\<rbrakk> \<Longrightarrow> bit_decodes n bs r"
| Crash: "\<lbrakk>bs \<noteq> []; child n (next_byte bs) = Panics m\<rbrakk> \<Longrightarrow> bit_decodes n bs (Panics m)"

text \<open>The loop of the code from inside its inner loop on.\<close>

definition decode_from ::
    "octet list \<Rightarrow> 64 word \<Rightarrow> node \<Rightarrow> 8 word \<Rightarrow> octet list \<Rightarrow> octet list outcome option" where
  "decode_from v cur n nbits out =
     (case HuffmanDecode_full cur n nbits out of
        None \<Rightarrow> None
      | Some (Returns (n', nbits', out')) \<Rightarrow> HuffmanDecode_loop v cur n' nbits' out'
      | Some (Panics m) \<Rightarrow> Some (Panics m)
      | Some (Exits m) \<Rightarrow> Some (Exits m))"

lemma decode_from_few: "unat nbits < 8 \<Longrightarrow> decode_from v cur n nbits out = HuffmanDecode_loop v cur n nbits out"
  by (simp add: decode_from_def HuffmanDecode_full.simps [of cur n nbits] word_le_nat_alt)

lemma decode_from_many:
  assumes "8 \<le> unat nbits" and "b = ucast (drop_bit (unat nbits - 8) cur)"
  shows "child n b = Returns (Leaf l s) \<Longrightarrow>
       decode_from v cur n nbits out = decode_from v cur rootHuffmanNode (nbits - l) (out @ [s])"
    and "child n b = Returns (Internal cs) \<Longrightarrow>
       decode_from v cur n nbits out = decode_from v cur (Internal cs) (nbits - 8) out"
    and "child n b = Panics m \<Longrightarrow> decode_from v cur n nbits out = Some (Panics m)"
  using assms by (simp_all add: decode_from_def HuffmanDecode_full.simps [of cur n nbits] word_le_nat_alt unat_sub)

lemma HuffmanDecode_loop_Cons:
  "HuffmanDecode_loop (b # v) cur n nbits out = decode_from v (push_bit 8 cur OR ucast b) n (nbits + 8) out"
  by (simp add: decode_from_def Let_def)

text \<open>As long as there are eight bits, the state can be taken to hold them in \<open>cur\<close>.\<close>

lemma decode_from_refill:
  assumes "unat nbits < 16"
  obtains v' cur' nbits' where "unat nbits' < 16" "8 \<le> unat nbits' \<or> v' = []"
    "bits (unat nbits') cur' @ byte_bits v' = bits (unat nbits) cur @ byte_bits v"
    "decode_from v' cur' n nbits' out = decode_from v cur n nbits out"
proof (cases "8 \<le> unat nbits \<or> v = []")
  case True
  with assms that show ?thesis by blast
next
  case False
  then obtain b w where v: "v = b # w" by (cases v) auto
  have n8: "unat (nbits + 8) = unat nbits + 8"
    using False assms by (simp add: unat_plus_simple [THEN iffD1] word_le_nat_alt unat_word_ariths)
  show ?thesis
  proof (rule that)
    show "bits (unat (nbits + 8)) (push_bit 8 cur OR ucast b) @ byte_bits w = bits (unat nbits) cur @ byte_bits v"
      using assms by (simp add: n8 bits_shift_in v)
    show "decode_from w (push_bit 8 cur OR ucast b) n (nbits + 8) out = decode_from v cur n nbits out"
      using False by (simp add: decode_from_few HuffmanDecode_loop_Cons v del: HuffmanDecode_loop.simps(2))
  qed (use False n8 in auto)
qed

lemma bits_Nil_iff [simp]: "bits n w = [] \<longleftrightarrow> n = 0"
  by (simp add: bits_def)

lemma next_byte_full:
  fixes cur :: "64 word"
  assumes "8 \<le> k" and "k \<le> 64"
  shows "ucast (drop_bit (k - 8) cur) = next_byte (bits k cur @ bs)"
  by (rule next_byteI) (use assms bits_take [of 8 k cur] in \<open>simp add: bits_ucast\<close>)

lemma next_byte_rest:
  fixes cur :: "64 word"
  assumes "k \<le> 8"
  shows "ucast (push_bit (8 - k) cur) = next_byte (bits k cur)"
  by (rule next_byteI) (use assms bits_push [of k 8 cur] in \<open>simp add: bits_ucast min_def\<close>)

lemma bits_drop: "m \<le> n \<Longrightarrow> drop m (bits n w) = bits (n - m) w"
  using bits_add [of m "n - m" w] by simp

lemma unat_minus: "unat l \<le> unat n \<Longrightarrow> unat (n - l) = unat n - unat l"
  by (simp add: unat_sub word_le_nat_alt)

lemma decode_from_Nil:
  assumes "unat nbits < 8" and "b = next_byte (bits (unat nbits) cur)" and "0 < unat nbits"
  shows "child n b = Returns m \<Longrightarrow> (case m of Internal cs \<Rightarrow> True | Leaf l s \<Rightarrow> unat nbits < unat l) \<Longrightarrow>
       decode_from [] cur n nbits out = Some (Returns out)"
    and "child n b = Returns (Leaf l s) \<Longrightarrow> unat l \<le> unat nbits \<Longrightarrow>
       decode_from [] cur n nbits out = decode_from [] cur rootHuffmanNode (nbits - l) (out @ [s])"
    and "child n b = Panics e \<Longrightarrow> decode_from [] cur n nbits out = Some (Panics e)"
proof -
  have b: "ucast (push_bit (unat (8 - nbits)) cur) = b"
    using next_byte_rest [of "unat nbits" cur] assms by (simp add: unat_minus)
  have pos: "nbits > 0" using assms(3) by (simp add: word_less_nat_alt)
  show "child n b = Returns m \<Longrightarrow> (case m of Internal cs \<Rightarrow> True | Leaf l s \<Rightarrow> unat nbits < unat l) \<Longrightarrow>
       decode_from [] cur n nbits out = Some (Returns out)"
    using assms(1) pos
    by (simp add: decode_from_few HuffmanDecode_rest.simps [of cur n nbits] b word_less_nat_alt split: node.splits)
  show "child n b = Panics e \<Longrightarrow> decode_from [] cur n nbits out = Some (Panics e)"
    using assms(1) pos by (simp add: decode_from_few HuffmanDecode_rest.simps [of cur n nbits] b)
  assume l: "child n b = Returns (Leaf l s)" "unat l \<le> unat nbits"
  then have "\<not> nbits < l" "unat (nbits - l) < 8" using assms(1) by (simp_all add: unat_minus word_less_nat_alt)
  with l show "decode_from [] cur n nbits out = decode_from [] cur rootHuffmanNode (nbits - l) (out @ [s])"
    using assms(1) pos by (simp add: decode_from_few HuffmanDecode_rest.simps [of cur n nbits] b)
qed

text \<open>The code computes what the bit decoder computes on all the bits.\<close>

lemma decode_from_bits:
  assumes "bit_decodes n bs r" and "bs = bits (unat nbits) cur @ byte_bits v" and "unat nbits < 16"
  shows "decode_from v cur n nbits out = Some (map_outcome ((@) out) r)"
  using assms
proof (induction arbitrary: v cur nbits out)
  case (Done n)
  then have "nbits = 0" "v = []" by (auto simp: unat_eq_zero dest: arg_cong [of _ _ length])
  then show ?case by (simp add: decode_from_few HuffmanDecode_rest.simps)
next
  case (Partial bs n m)
  then have "v = []" by (cases v) auto
  with Partial have "0 < unat nbits" "unat nbits < 8" "bs = bits (unat nbits) cur" by (auto simp: bits_def)
  with Partial \<open>v = []\<close> show ?case
    using decode_from_Nil(1) [of nbits "next_byte bs" cur n m out] by (cases m) simp_all
next
  case (Symbol bs n l s r)
  obtain v' cur' nbits' where st: "unat nbits' < 16" "8 \<le> unat nbits' \<or> v' = []"
      "bs = bits (unat nbits') cur' @ byte_bits v'"
      "decode_from v' cur' n nbits' out = decode_from v cur n nbits out"
    using decode_from_refill [OF Symbol.prems(2), of cur v n out] Symbol.prems(1) by metis
  have le: "unat l \<le> unat nbits'" and pos: "0 < unat nbits'"
    using st Symbol.hyps by auto
  have "decode_from v' cur' n nbits' out = decode_from v' cur' rootHuffmanNode (nbits' - l) (out @ [s])"
  proof (cases "8 \<le> unat nbits'")
    case True
    then show ?thesis
      using decode_from_many(1) [OF True next_byte_full [of "unat nbits'" cur' "byte_bits v'", symmetric]] st Symbol.hyps(2)
      by simp
  next
    case False
    then show ?thesis
      using decode_from_Nil(2) [of nbits' "next_byte bs" cur' n l s out] st pos le Symbol.hyps(2) by simp
  qed
  moreover have "drop (unat l) bs = bits (unat (nbits' - l)) cur' @ byte_bits v'"
    using st le by (simp add: bits_drop unat_minus)
  ultimately show ?case
    using Symbol.IH [of "nbits' - l" cur' v' "out @ [s]"] st le by (cases r) (simp_all add: unat_minus)
next
  case (Deeper bs n cs r)
  obtain v' cur' nbits' where st: "unat nbits' < 16" "8 \<le> unat nbits' \<or> v' = []"
      "bs = bits (unat nbits') cur' @ byte_bits v'"
      "decode_from v' cur' n nbits' out = decode_from v cur n nbits out"
    using decode_from_refill [OF Deeper.prems(2), of cur v n out] Deeper.prems(1) by metis
  have le: "8 \<le> unat nbits'" using st Deeper.hyps(1) by auto
  have "decode_from v' cur' n nbits' out = decode_from v' cur' (Internal cs) (nbits' - 8) out"
    using decode_from_many(2) [OF le next_byte_full [of "unat nbits'" cur' "byte_bits v'", symmetric]] le st Deeper.hyps(2)
    by simp
  moreover have "drop 8 bs = bits (unat (nbits' - 8)) cur' @ byte_bits v'"
    using st le by (simp add: bits_drop unat_minus)
  ultimately show ?case
    using Deeper.IH [of "nbits' - 8" cur' v' out] st le by (simp add: unat_minus)
next
  case (Crash bs n m)
  obtain v' cur' nbits' where st: "unat nbits' < 16" "8 \<le> unat nbits' \<or> v' = []"
      "bs = bits (unat nbits') cur' @ byte_bits v'"
      "decode_from v' cur' n nbits' out = decode_from v cur n nbits out"
    using decode_from_refill [OF Crash.prems(2), of cur v n out] Crash.prems(1) by metis
  have pos: "0 < unat nbits'" using st Crash.hyps by auto
  show ?case
  proof (cases "8 \<le> unat nbits'")
    case True
    then show ?thesis
      using decode_from_many(3) [OF True next_byte_full [of "unat nbits'" cur' "byte_bits v'", symmetric]] st Crash.hyps(2)
      by simp
  next
    case False
    then show ?thesis
      using decode_from_Nil(3) [of nbits' "next_byte bs" cur' n m out] st pos Crash.hyps(2) by simp
  qed
qed

section \<open>Decoding what was encoded\<close>

lemma walk_child: "walk t p = Some n \<Longrightarrow> walk t (p @ [b]) = Some m \<Longrightarrow> child n b = Returns m"
  by (simp add: walk_append split: outcome.splits)

lemma take_8_next: "bits 8 (next_byte (cb @ rest)) = take 8 cb @ take (8 - length cb) (rest @ replicate 8 False)"
  by (simp add: bits_next_byte)

lemma code_tail_decodes:
  assumes "walk rootHuffmanNode p = Some n" and "code_bits c = byte_bits p @ cb" and "cb \<noteq> []"
    and "bit_decodes rootHuffmanNode rest r"
  shows "bit_decodes n (cb @ rest) (map_outcome ((#) c) r)"
  using assms(1-3)
proof (induction "length cb" arbitrary: p n cb rule: less_induct)
  case less
  define b where "b = next_byte (cb @ rest)"
  show ?case
  proof (cases "8 < length cb")
    case True
    then have b: "bits 8 b = take 8 cb" by (simp add: b_def take_8_next)
    then have code: "code_bits c = byte_bits (p @ [b]) @ drop 8 cb" using less.prems by simp
    have "drop 8 cb \<noteq> []" using True by simp
    with code have "strict_prefix (byte_bits (p @ [b])) (code_bits c)"
      by (auto simp: strict_prefix_def prefix_def)
    then obtain cs where cs: "walk rootHuffmanNode (p @ [b]) = Some (Internal cs)"
      using root_inside by blast
    have "bit_decodes (Internal cs) (drop 8 cb @ rest) (map_outcome ((#) c) r)"
      by (rule less.hyps [OF _ cs code]) (use True in auto)
    moreover have "child n (next_byte (cb @ rest)) = Returns (Internal cs)"
      using walk_child [OF less.prems(1) cs] by (simp add: b_def)
    ultimately show ?thesis
      using True Deeper [of "cb @ rest" n cs "map_outcome ((#) c) r"] by simp
  next
    case False
    have "bits 8 b = cb @ take (8 - length cb) (rest @ replicate 8 False)"
      using False by (simp add: b_def take_8_next)
    then have "prefix (code_bits c) (byte_bits (p @ [b]))" using less.prems by (simp add: prefix_def)
    moreover have len: "length (code_bits c) = 8 * length p + length cb" using less.prems by simp
    ultimately have m: "walk rootHuffmanNode (p @ [b]) = Some (code_leaf c)"
      using root_match [of c "p @ [b]"] less.prems(3) by simp
    have "last_len (length (code_bits c)) = length cb"
      using False less.prems(3) unfolding len last_len_def by (cases cb) auto
    then have l: "code_leaf c = Leaf (of_nat (length cb)) c" "unat (of_nat (length cb) :: 8 word) = length cb"
      using False by (simp_all add: code_leaf_def unat_of_nat take_bit_nat_eq_self)
    have "child n (next_byte (cb @ rest)) = Returns (Leaf (of_nat (length cb)) c)"
      using walk_child [OF less.prems(1) m] by (simp add: b_def l(1))
    from Symbol [OF _ this] show ?thesis
      using less.prems(3) False l(2) assms(4) by simp
  qed
qed

lemma code_decodes:
  "bit_decodes rootHuffmanNode rest r \<Longrightarrow>
     bit_decodes rootHuffmanNode (code_bits c @ rest) (map_outcome ((#) c) r)"
  by (rule code_tail_decodes [of "[]"]) simp_all

lemma codes_decode:
  "bit_decodes rootHuffmanNode rest (Returns []) \<Longrightarrow>
     bit_decodes rootHuffmanNode (concat (map code_bits s) @ rest) (Returns s)"
proof (induction s)
  case (Cons c s)
  then show ?case using code_decodes [of "concat (map code_bits s) @ rest" "Returns s" c] by simp
qed simp

text \<open>
  The padding: fewer than eight ones. Filled up with zeros they start no code word of at most that
  many bits, and lead to some node.
\<close>

lemma sample_codes:
  "code_bits 61 = [True, False, False, False, False, False]"
  "code_bits 69 = [True, True, False, False, False, False, False]"
  "code_bits 85 = [True, True, True, False, False, False, False]"
  "code_bits 119 = [True, True, True, True, False, False, False]"
  "code_bits 38 = [True, True, True, True, True, False, False, False]"
  "code_bits 88 = [True, True, True, True, True, True, False, False]"
  "code_bits 33 = [True, True, True, True, True, True, True, False, False, False]"
  by (simp_all add: code_bits_def bits_def huffmanCodes_def huffmanCodeLen_def upt_rec)

lemma padding_child:
  assumes "k < 8" and "0 < k"
  shows "\<exists>m. child rootHuffmanNode (next_byte (replicate k True)) = Returns m \<and>
           (case m of Internal cs \<Rightarrow> True | Leaf l s \<Rightarrow> k < unat l)"
proof -
  define b where "b = next_byte (replicate k True)"
  have b: "bits 8 b = take 8 (replicate k True @ replicate 8 False)" by (simp add: b_def bits_next_byte)
  have leaf: "\<exists>m. child rootHuffmanNode b = Returns m \<and>
      (case m of Internal cs \<Rightarrow> True | Leaf l s \<Rightarrow> k < unat l)"
    if "prefix (code_bits c) (bits 8 b)" "k < length (code_bits c)" for c
  proof -
    have len: "length (code_bits c) \<le> 8" "0 < length (code_bits c)"
      using prefix_length_le [OF that(1)] by simp_all
    have "walk rootHuffmanNode [b] = Some (code_leaf c)" using root_match [of c "[b]"] that(1) len by simp
    then have "child rootHuffmanNode b = Returns (code_leaf c)" by (simp split: outcome.splits)
    moreover have "unat (of_nat (last_len (length (code_bits c))) :: 8 word) = length (code_bits c)"
      using len by (simp add: last_len_def unat_of_nat take_bit_nat_eq_self)
    ultimately show ?thesis using that(2) by (simp add: code_leaf_def)
  qed
  have internal: "\<exists>m. child rootHuffmanNode b = Returns m \<and>
      (case m of Internal cs \<Rightarrow> True | Leaf l s \<Rightarrow> k < unat l)"
    if "strict_prefix (bits 8 b) (code_bits c)" for c
    using root_inside [of "[b]" c] that by (auto split: outcome.splits)
  consider "k = 1" | "k = 2" | "k = 3" | "k = 4" | "k = 5" | "k = 6" | "k = 7" using assms by linarith
  then show ?thesis
  proof cases
    case 1 then show ?thesis unfolding b_def [symmetric] by (intro leaf [of 61]) (unfold b sample_codes, simp_all add: eval_nat_numeral)
  next
    case 2 then show ?thesis unfolding b_def [symmetric] by (intro leaf [of 69]) (unfold b sample_codes, simp_all add: eval_nat_numeral)
  next
    case 3 then show ?thesis unfolding b_def [symmetric] by (intro leaf [of 85]) (unfold b sample_codes, simp_all add: eval_nat_numeral)
  next
    case 4 then show ?thesis unfolding b_def [symmetric] by (intro leaf [of 119]) (unfold b sample_codes, simp_all add: eval_nat_numeral)
  next
    case 5 then show ?thesis unfolding b_def [symmetric] by (intro leaf [of 38]) (unfold b sample_codes, simp_all add: eval_nat_numeral)
  next
    case 6 then show ?thesis unfolding b_def [symmetric] by (intro leaf [of 88]) (unfold b sample_codes, simp_all add: eval_nat_numeral)
  next
    case 7 then show ?thesis
      unfolding b_def [symmetric] by (intro internal [of 33]) (unfold b sample_codes, simp add: eval_nat_numeral strict_prefix_def)
  qed
qed

lemma padding_decodes: "k < 8 \<Longrightarrow> bit_decodes rootHuffmanNode (replicate k True) (Returns [])"
proof (cases "k = 0")
  case False
  assume k: "k < 8"
  with False obtain m where "child rootHuffmanNode (next_byte (replicate k True)) = Returns m"
      "case m of Internal cs \<Rightarrow> True | Leaf l s \<Rightarrow> k < unat l"
    using padding_child [of k] by blast
  with k False Partial [of "replicate k True" rootHuffmanNode m] show ?thesis by (cases m) simp_all
qed (simp add: Done)

lemma HuffmanDecode_bits:
  "bit_decodes rootHuffmanNode (byte_bits v) r \<Longrightarrow> HuffmanDecode v = Some r"
  using decode_from_bits [of rootHuffmanNode "byte_bits v" r 0 0 v "[]"]
  by (cases r) (simp_all add: HuffmanDecode_def decode_from_few)

lemma HuffmanDecode_codes:
  "byte_bits v = concat (map code_bits s) @ replicate k True \<Longrightarrow> k < 8 \<Longrightarrow> HuffmanDecode v = Some (Returns s)"
  by (intro HuffmanDecode_bits) (simp add: codes_decode padding_decodes)

section \<open>What the encoder writes\<close>

text \<open>The bits of a buffer whose last \<open>r\<close> bits are still free.\<close>

definition holds :: "octet list \<Rightarrow> nat \<Rightarrow> bool list \<Rightarrow> bool" where
  "holds dst r w \<longleftrightarrow> byte_bits dst = w @ replicate r False"

lemma bits_zero: "bits n 0 = replicate n False"
  by (rule bits_eqI) simp_all

lemma holds_or_last:
  assumes h: "holds dst r w" and r: "r \<le> 8" "0 < r" and t: "bits 8 t = replicate (8 - r) False @ bs"
  shows "byte_bits (or_last dst t) = w @ bs"
proof -
  have "dst \<noteq> []" using h r by (auto simp: holds_def)
  then obtain ds d where dst: "dst = ds @ [d]" by (metis append_butlast_last_id)
  have len: "length w + r = 8 * length ds + 8" "length bs = r"
    using h t r arg_cong [OF t, of length] by (auto simp: holds_def dst dest: arg_cong [of _ _ length])
  then have le: "8 * length ds \<le> length w" using r by simp
  have w: "w = byte_bits ds @ drop (8 * length ds) w"
    using h le by (simp add: holds_def dst append_eq_append_conv_if)
  have d: "bits 8 d = drop (8 * length ds) w @ replicate r False"
    using h le by (simp add: holds_def dst append_eq_append_conv_if)
  have "bits 8 (d OR t) = drop (8 * length ds) w @ bs"
  proof (rule bits_eqI)
    fix i :: nat assume i: "i < 8"
    have "bit d (8 - Suc i) = bits 8 d ! i" "bit t (8 - Suc i) = bits 8 t ! i"
      using i by (simp_all add: nth_bits)
    moreover have "8 * length ds + 8 - length w = r" "length w - 8 * length ds = 8 - r" using len le by simp_all
    moreover from this have "i + 8 * length ds - length w = i + r - 8" using len by simp
    ultimately show "bit (d OR t) (8 - Suc i) = (drop (8 * length ds) w @ bs) ! i"
      using i len(2) r by (auto simp: bit_or_iff d t nth_append)
  qed (use len r in simp)
  then have "byte_bits (or_last dst t) = byte_bits ds @ drop (8 * length ds) w @ bs"
    by (simp add: or_last_def dst)
  with w show ?thesis by (metis append_assoc)
qed

text \<open>
  One code word: the bits go to the free places of the last byte, then to new bytes. \<open>append_code\<close>
  returns eight free bits, without a byte for them, when the last byte is full.
\<close>

definition free_bits :: "8 word \<Rightarrow> nat" where
  "free_bits rembits = (if rembits = 8 then 0 else unat rembits)"

lemma append_code_holds:
  fixes code :: "32 word"
  assumes "holds dst (unat rembits) w" and "0 < unat rembits" "unat rembits \<le> 8"
    and "0 < unat nbits" "unat nbits \<le> 30" and "unat rembits = 8 \<or> unat code < 2 ^ unat nbits"
  shows "\<exists>dst' rembits'. append_code code dst rembits nbits = (dst', rembits') \<and>
           0 < unat rembits' \<and> unat rembits' \<le> 8 \<and>
           holds dst' (free_bits rembits') (w @ bits (unat nbits) code)"
  using assms
proof (induction code dst rembits nbits arbitrary: w rule: append_code.induct)
  case (1 code dst rembits nbits)
  let ?r = "unat rembits" and ?n = "unat nbits"
  have high: "\<not> bit code i" if "?r \<noteq> 8" "?n \<le> i" for i
  proof -
    from that 1 have "take_bit ?n code = code"
      by (simp add: word_unat_eq_iff unsigned_take_bit_eq take_bit_nat_eq_self)
    then show ?thesis using that(2) by (metis bit_take_bit_iff not_le)
  qed
  show ?case
  proof (cases "rembits > nbits")
    case True
    then have lt: "?n < ?r" by (simp add: word_less_nat_alt)
    have "bits 8 (ucast (push_bit (?r - ?n) code) :: octet) =
        replicate (8 - ?r) False @ bits ?n code @ replicate (?r - ?n) False"
      by (rule bits_eqI) (use lt 1(4) high in \<open>auto simp: nth_append nth_bits bit_simps intro!: arg_cong [of _ _ "bit code"]\<close>)
    from holds_or_last [OF 1(2,4,3) this]
    have "holds (or_last dst (ucast (push_bit (unat (rembits - nbits)) code))) (unat (rembits - nbits)) (w @ bits ?n code)"
      using lt by (simp add: holds_def unat_minus)
    moreover have "unat (rembits - nbits) < 8" "0 < unat (rembits - nbits)"
      using lt 1(4,5) by (simp_all add: unat_minus)
    moreover from this have "rembits - nbits \<noteq> 8" by auto
    ultimately show ?thesis
      using True by (auto simp: append_code.simps [of code dst rembits nbits] free_bits_def)
  next
    case False
    then have le: "?r \<le> ?n" by (simp add: word_less_nat_alt)
    define dst' where "dst' = or_last dst (ucast (drop_bit (unat (nbits - rembits)) code))"
    have n': "unat (nbits - rembits) = ?n - ?r" using le by (simp add: unat_minus)
    have "bits 8 (ucast (drop_bit (?n - ?r) code) :: octet) = replicate (8 - ?r) False @ bits ?r (drop_bit (?n - ?r) code)"
      by (rule bits_eqI) (use le 1(4) high in \<open>auto simp: nth_append nth_bits bit_simps intro!: arg_cong [of _ _ "bit code"]\<close>)
    from holds_or_last [OF 1(2,4,3) this]
    have dst': "byte_bits dst' = w @ bits ?r (drop_bit (?n - ?r) code)" by (simp add: dst'_def n')
    have split: "bits ?n code = bits ?r (drop_bit (?n - ?r) code) @ bits (?n - ?r) code"
      using bits_add [of ?r "?n - ?r" code] le by simp
    show ?thesis
    proof (cases "nbits - rembits = 0")
      case True
      then have "?n - ?r = 0" by (metis n' unat_0)
      moreover have "append_code code dst rembits nbits = (dst', 8)"
        by (subst append_code.simps) (use True False in \<open>simp add: Let_def dst'_def\<close>)
      ultimately show ?thesis
        using dst' split by (auto simp: holds_def free_bits_def)
    next
      case nz: False
      have "holds (dst' @ [0]) (unat (8 :: 8 word)) (w @ bits ?r (drop_bit (?n - ?r) code))"
        using dst' by (simp add: holds_def bits_zero)
      moreover have "0 < unat (nbits - rembits)" using nz by (simp add: unat_gt_0)
      moreover have "append_code code dst rembits nbits = append_code code (dst' @ [0]) 8 (nbits - rembits)"
        by (subst append_code.simps) (use False nz in \<open>simp add: Let_def dst'_def\<close>)
      ultimately show ?thesis
        using "1.IH" [OF False dst'_def refl nz, of "w @ bits ?r (drop_bit (?n - ?r) code)"] 1(6) n'
        by (simp add: split)
    qed
  qed
qed

lemma AppendHuffman_loop_holds:
  assumes "holds dst (free_bits rembits) w" and "0 < unat rembits" and "unat rembits \<le> 8"
  shows "\<exists>dst' rembits'. AppendHuffman_loop dst rembits s = (dst', rembits') \<and>
           0 < unat rembits' \<and> unat rembits' \<le> 8 \<and>
           holds dst' (free_bits rembits') (w @ concat (map code_bits s))"
  using assms
proof (induction dst rembits s arbitrary: w rule: AppendHuffman_loop.induct)
  case (2 dst rembits c s)
  let ?dst = "if rembits = 8 then dst @ [0] else dst"
  have "holds ?dst (unat rembits) w"
    using "2.prems"(1) by (simp add: holds_def free_bits_def bits_zero)
  then obtain dst' rembits' where *: "appendByteToHuffmanCode ?dst rembits c = (dst', rembits')"
      "0 < unat rembits'" "unat rembits' \<le> 8" "holds dst' (free_bits rembits') (w @ code_bits c)"
    using append_code_holds [of ?dst rembits w "huffmanCodeLen ! unat c" "huffmanCodes ! unat c"]
      "2.prems"(2,3) code_len [of "unat c"]
    unfolding appendByteToHuffmanCode_def code_bits_def by auto
  from "2.IH" [OF *(1) [symmetric] refl *(4,2,3)] show ?case by (simp add: *(1))
qed simp

lemma AppendHuffmanString_bits:
  obtains k where "byte_bits (AppendHuffmanString dst s) = byte_bits dst @ concat (map code_bits s) @ replicate k True"
    and "k < 8"
proof -
  obtain dst' rembits where loop: "AppendHuffman_loop dst 8 s = (dst', rembits)"
      "0 < unat rembits" "unat rembits \<le> 8"
      "holds dst' (free_bits rembits) (byte_bits dst @ concat (map code_bits s))"
    using AppendHuffman_loop_holds [of dst 8 "byte_bits dst" s] by (auto simp: holds_def free_bits_def)
  show ?thesis
  proof (cases "rembits < 8")
    case True
    let ?r = "unat rembits"
    have r: "?r < 8" "free_bits rembits = ?r" "unat (30 - rembits) = 30 - ?r"
      using True loop(2) by (auto simp: word_less_nat_alt free_bits_def unat_minus)
    define eos :: "32 word" where "eos = 0x3fffffff"
    have ones: "bit eos i \<longleftrightarrow> i < 30" for i
    proof -
      have "eos = mask 30" by (simp add: eos_def mask_eq_exp_minus_1)
      then show ?thesis by (simp only: bit_mask_iff) auto
    qed
    have "bits 8 (ucast (drop_bit (30 - ?r) eos) :: octet) = replicate (8 - ?r) False @ replicate ?r True"
      by (rule bits_eqI) (use r in \<open>auto simp: nth_append bit_simps ones\<close>)
    from holds_or_last [OF loop(4) [unfolded r(2)] loop(3,2) this] True show ?thesis
      by (intro that [of ?r]) (simp_all add: AppendHuffmanString_def loop(1) r eos_def)
  next
    case False
    then have "rembits = 8" using loop(3) by (simp add: word_less_nat_alt word_unat_eq_iff)
    with loop False show ?thesis
      by (intro that [of 0]) (simp_all add: AppendHuffmanString_def holds_def free_bits_def)
  qed
qed

text \<open>What is appended to a buffer does not depend on what it holds.\<close>

lemma byte_bits_inject: "byte_bits v = byte_bits w \<Longrightarrow> v = w"
proof (induction v arbitrary: w)
  case Nil
  then show ?case by (cases w) (auto dest: arg_cong [of _ _ length])
next
  case (Cons b v)
  then show ?case by (cases w) (auto dest: byte_inject arg_cong [of _ _ length])
qed

lemma AppendHuffmanString_append: "AppendHuffmanString dst s = dst @ AppendHuffmanString [] s"
proof -
  obtain k where k: "byte_bits (AppendHuffmanString dst s) = byte_bits dst @ concat (map code_bits s) @ replicate k True" "k < 8"
    using AppendHuffmanString_bits by blast
  obtain j where j: "byte_bits (AppendHuffmanString [] s) = concat (map code_bits s) @ replicate j True" "j < 8"
    using AppendHuffmanString_bits [of "[]" s] by auto
  have "8 * length (AppendHuffmanString dst s) = 8 * length dst + length (concat (map code_bits s)) + k"
    using arg_cong [OF k(1), of length] by simp
  moreover have "8 * length (AppendHuffmanString [] s) = length (concat (map code_bits s)) + j"
    using arg_cong [OF j(1), of length] by simp
  ultimately have "k = j" using k(2) j(2) by presburger
  with k(1) j(1) have "byte_bits (AppendHuffmanString dst s) = byte_bits (dst @ AppendHuffmanString [] s)" by simp
  then show ?thesis by (rule byte_bits_inject)
qed

lemma HuffmanDecode_AppendHuffmanString: "HuffmanDecode (AppendHuffmanString [] s) = Some (Returns s)"
proof -
  obtain k where "byte_bits (AppendHuffmanString [] s) = concat (map code_bits s) @ replicate k True" "k < 8"
    using AppendHuffmanString_bits [of "[]" s] by auto
  then show ?thesis by (rule HuffmanDecode_codes)
qed

lemma code_len_sum:
  "unat (foldl (\<lambda>n c. n + ucast (huffmanCodeLen ! unat c)) (m :: 64 word) s) =
     unat m + length (concat (map code_bits s))" if "unat m + 30 * length s < 2 ^ 64"
  using that
proof (induction s arbitrary: m)
  case (Cons c s)
  have c: "unat (ucast (huffmanCodeLen ! unat c) :: 64 word) = length (code_bits c)"
    using code_bits_bounds(2) [of c] by (simp add: length_code_bits unsigned_ucast_eq take_bit_nat_eq_self)
  then have "unat (m + ucast (huffmanCodeLen ! unat c)) = unat m + length (code_bits c)"
    using Cons.prems code_bits_bounds(2) [of c] by (simp add: unat_word_ariths)
  then show ?case using Cons code_bits_bounds(2) [of c] by simp
qed simp

lemma unat_HuffmanEncodeLength:
  assumes "length s < 2 ^ 32"
  shows "unat (HuffmanEncodeLength s) = length (AppendHuffmanString [] s)"
proof -
  let ?N = "length (concat (map code_bits s))"
  obtain k where k: "byte_bits (AppendHuffmanString [] s) = concat (map code_bits s) @ replicate k True" "k < 8"
    using AppendHuffmanString_bits [of "[]" s] by auto
  have len: "8 * length (AppendHuffmanString [] s) = ?N + k"
    using arg_cong [OF k(1), of length] by simp
  have "?N \<le> 30 * length s"
    by (induction s) (use code_bits_bounds(2) in \<open>auto intro: add_mono\<close>)
  then have N: "?N + 7 < 2 ^ 64" using assms by simp
  define n :: "64 word" where "n = foldl (\<lambda>n c. n + ucast (huffmanCodeLen ! unat c)) 0 s"
  have "unat n = ?N" unfolding n_def using code_len_sum [of 0 s] assms by simp
  then have "unat (n + 7) = ?N + 7" using N by (simp add: unat_word_ariths)
  then have "unat ((n + 7) div 8) = (?N + 7) div 8" by (simp add: unat_div)
  then show ?thesis using len k(2) unfolding HuffmanEncodeLength_def n_def by linarith
qed

section \<open>Decoding any bytes\<close>

text \<open>Every leaf of the tree uses between one and eight bits of the last byte.\<close>

lemma root_leaf:
  assumes w: "walk rootHuffmanNode p = Some (Leaf l s)"
  shows "0 < unat l \<and> unat l \<le> 8"
proof -
  have "\<exists>cs. rootHuffmanNode = Internal cs" using root_built by (auto simp: built_from_def)
  then have "p \<noteq> []" using w by (metis node.distinct(1) option.inject walk.simps(1))
  have "\<exists>c. prefix (code_bits c) (byte_bits p) \<or> prefix (byte_bits p) (code_bits c)"
  proof (rule ccontr)
    assume "\<not> ?thesis"
    then have "walk rootHuffmanNode p = None" using \<open>p \<noteq> []\<close> by (intro root_outside) auto
    with w show False by simp
  qed
  then obtain c where c: "prefix (code_bits c) (byte_bits p) \<or> prefix (byte_bits p) (code_bits c)" by blast
  have "\<not> strict_prefix (byte_bits p) (code_bits c)" using root_inside [of p c] w by auto
  with c have pre: "prefix (code_bits c) (byte_bits p)" unfolding strict_prefix_def by auto
  define k where "k = (length (code_bits c) + 7) div 8"
  have k: "length (code_bits c) \<le> 8 * k" "8 * k < length (code_bits c) + 8" "k \<le> length p"
    using prefix_length_le [OF pre] unfolding k_def by auto
  have split: "p = take k p @ drop k p" by simp
  have "prefix (code_bits c) (byte_bits (take k p))"
    using pre k prefix_short [of "code_bits c" "byte_bits (take k p)" "byte_bits (drop k p)"]
    by (simp flip: byte_bits_simps(3))
  then have "walk rootHuffmanNode (take k p) = Some (code_leaf c)"
    using k by (intro root_match) simp_all
  with w have "Leaf l s = code_leaf c"
    by (subst (asm) split, subst (asm) walk_append) (auto simp: code_leaf_def split: if_splits)
  moreover have "last_len (length (code_bits c)) \<le> 8" "0 < last_len (length (code_bits c))"
    by (simp_all add: last_len_def Suc_leI)
  ultimately show ?thesis by (simp add: code_leaf_def unat_of_nat take_bit_nat_eq_self)
qed

text \<open>Decoding ends, with at most one byte for every bit, or at a missing node.\<close>

definition decode_result :: "nat \<Rightarrow> octet list outcome \<Rightarrow> bool" where
  "decode_result n r \<longleftrightarrow>
     (case r of Returns s \<Rightarrow> length s \<le> n | Panics m \<Rightarrow> m = ''nil pointer dereference'' | Exits m \<Rightarrow> False)"

lemma bit_decodes_total:
  assumes "walk rootHuffmanNode p = Some (Internal cs)"
  shows "\<exists>r. bit_decodes (Internal cs) bs r \<and> decode_result (length bs) r"
  using assms
proof (induction "length bs" arbitrary: p cs bs rule: less_induct)
  case less
  obtain rs where root: "rootHuffmanNode = Internal rs" using root_built by (auto simp: built_from_def)
  let ?b = "next_byte bs"
  show ?case
  proof (cases "bs = []")
    case True
    then show ?thesis using Done by (intro exI [of _ "Returns []"]) (simp add: decode_result_def)
  next
    case ne: False
    show ?thesis
    proof (cases "child (Internal cs) ?b")
      case (Panics m)
      then show ?thesis using Crash [OF ne Panics]
        by (auto simp: decode_result_def split: option.splits)
    next
      case (Exits m)
      then show ?thesis by (simp split: option.splits)
    next
      case (Returns m)
      have w: "walk rootHuffmanNode (p @ [?b]) = Some m" using less.prems Returns by (simp add: walk_append)
      show ?thesis
      proof (cases m)
        case (Leaf l s)
        note l = root_leaf [OF w [unfolded Leaf]]
        show ?thesis
        proof (cases "unat l \<le> length bs")
          case True
          have "\<exists>r. bit_decodes (Internal rs) (drop (unat l) bs) r \<and> decode_result (length (drop (unat l) bs)) r"
            by (rule less.hyps [of _ "[]"]) (use ne l root in simp_all)
          then obtain r where r: "bit_decodes rootHuffmanNode (drop (unat l) bs) r"
              "decode_result (length (drop (unat l) bs)) r"
            unfolding root by blast
          from Symbol [OF ne Returns [unfolded Leaf] True conjunct2 [OF l] r(1)] r(2) show ?thesis
            using l True by (intro exI [of _ "map_outcome ((#) s) r"]) (cases r; auto simp: decode_result_def)
        next
          case False
          then show ?thesis using Partial [OF ne _ Returns] l by (auto simp: Leaf decode_result_def)
        qed
      next
        case (Internal ds)
        show ?thesis
        proof (cases "8 \<le> length bs")
          case True
          then have "\<exists>r. bit_decodes (Internal ds) (drop 8 bs) r \<and> decode_result (length (drop 8 bs)) r"
            using w ne by (intro less.hyps [of _ "p @ [?b]"]) (simp_all add: Internal)
          then obtain r where r: "bit_decodes (Internal ds) (drop 8 bs) r" "decode_result (length (drop 8 bs)) r"
            by blast
          have "decode_result (length bs) r" using r(2) by (cases r) (simp_all add: decode_result_def)
          with Deeper [OF True Returns [unfolded Internal] r(1)] show ?thesis by blast
        next
          case False
          then show ?thesis using Partial [OF ne _ Returns] by (auto simp: Internal decode_result_def)
        qed
      qed
    qed
  qed
qed

lemma HuffmanDecode_total: "\<exists>r. HuffmanDecode v = Some r \<and> decode_result (8 * length v) r"
proof -
  obtain rs where root: "rootHuffmanNode = Internal rs" using root_built by (auto simp: built_from_def)
  then show ?thesis using bit_decodes_total [of "[]" rs "byte_bits v"] HuffmanDecode_bits [of v] by auto
qed

text \<open>The all-ones code of the end of a string is not in the tree: no code word consists of ones only.\<close>

lemma last_codes_less: "list_all (\<lambda>l. last_codes ! l < 2 ^ l) [0..<31]"
  by (simp add: last_codes_def upt_rec)

lemma code_not_ones: "code_bits c \<noteq> replicate k True"
proof
  assume ones: "code_bits c = replicate k True"
  define l where "l = unat (huffmanCodeLen ! unat c)"
  define w where "w = huffmanCodes ! unat c"
  have l: "l = k" "l < 31" using arg_cong [OF ones, of length] code_bounds(1) [of "unat c"]
    by (simp_all add: length_code_bits l_def)
  have "bit w i" if "i < l" for i
  proof -
    have "bits l w ! (l - Suc i) = True" using ones that l by (simp add: code_bits_def l_def w_def)
    then show ?thesis using that by (simp add: nth_bits)
  qed
  then have "take_bit l w = mask l"
    using l(2) by (intro bit_eqI) (auto simp: bit_simps)
  moreover have "take_bit l w = w"
    using code_len(3) [of "unat c"] by (simp add: w_def l_def word_unat_eq_iff unsigned_take_bit_eq take_bit_nat_eq_self)
  moreover have "unat (mask l :: 32 word) = 2 ^ l - 1"
    using l(2) uint_mask_eq [of l, where ?'a = 32]
    by (simp add: min_def mask_eq_exp_minus_1 nat_diff_distrib nat_power_eq unat_eq_nat_uint)
  ultimately have "unat w = 2 ^ l - 1" by simp
  moreover have "unat w < last_codes ! l" using code_bounds(3) [of "unat c"] by (simp add: w_def l_def)
  moreover have "last_codes ! l < 2 ^ l" using last_codes_less l(2) by (simp add: list_all_iff)
  ultimately show False by linarith
qed

lemma longest_code: "code_bits 10 = replicate 28 True @ [False, False]"
  by (simp add: code_bits_def bits_def huffmanCodes_def huffmanCodeLen_def upt_rec) (simp add: eval_nat_numeral)

lemma bits_ones: "bits 8 (0xFF :: octet) = replicate 8 True"
  by (simp add: bits_def upt_rec eval_nat_numeral)

lemma byte_bits_ones: "byte_bits (replicate k 0xFF) = replicate (8 * k) True"
  by (induction k) (simp_all add: bits_ones replicate_add)

lemma ones_inside:
  assumes "k \<le> 3"
  shows "\<exists>cs. walk rootHuffmanNode (replicate k 0xFF) = Some (Internal cs)"
proof (rule root_inside [of _ 10])
  have "code_bits 10 = replicate (8 * k) True @ replicate (28 - 8 * k) True @ [False, False]"
    using assms by (simp add: longest_code flip: replicate_add append_assoc)
  then show "strict_prefix (byte_bits (replicate k 0xFF)) (code_bits 10)"
    by (simp add: strict_prefix_def byte_bits_ones)
qed

lemma next_byte_ones: "8 \<le> k \<Longrightarrow> next_byte (replicate k True) = 0xFF"
  by (rule next_byteI [symmetric]) (simp add: bits_ones take_replicate min_def)

lemma ones_outside: "walk rootHuffmanNode (replicate 4 0xFF) = None"
proof (rule root_outside)
  fix c
  have b: "byte_bits (replicate 4 0xFF) = replicate 32 True"
    by (simp add: byte_bits_ones)
  have "\<not> prefix (code_bits c) (replicate 32 True)"
  proof
    assume "prefix (code_bits c) (replicate 32 True)"
    then have "code_bits c = take (length (code_bits c)) (replicate 32 True)"
      by (metis prefix_def append_eq_conv_conj)
    then show False using code_not_ones [of c] by (simp add: take_replicate)
  qed
  moreover have "\<not> prefix (replicate 32 True) (code_bits c)"
    using prefix_length_le [of "replicate 32 True" "code_bits c"] code_bits_bounds(2) [of c] by auto
  ultimately show "\<not> prefix (code_bits c) (byte_bits (replicate 4 0xFF)) \<and>
      \<not> prefix (byte_bits (replicate 4 0xFF)) (code_bits c)"
    unfolding b by simp
qed (simp add: eval_nat_numeral)

lemma HuffmanDecode_ones_panics:
  "HuffmanDecode [0xFF, 0xFF, 0xFF, 0xFF] = Some (Panics ''nil pointer dereference'')"
proof (rule HuffmanDecode_bits)
  have b: "byte_bits [0xFF, 0xFF, 0xFF, 0xFF] = replicate (8 * 4) True"
    using byte_bits_ones [of 4] by (simp add: numeral_eq_Suc)
  have step: "bit_decodes n (replicate (8 * Suc k) True) r"
    if "walk rootHuffmanNode (replicate j 0xFF) = Some n"
       "walk rootHuffmanNode (replicate (Suc j) 0xFF) = Some (Internal cs)"
       "bit_decodes (Internal cs) (replicate (8 * k) True) r" for n j k cs r
  proof (rule Deeper)
    show "child n (next_byte (replicate (8 * Suc k) True)) = Returns (Internal cs)"
      using walk_child [OF that(1), of "0xFF" "Internal cs"] that(2)
      by (simp add: next_byte_ones replicate_append_same del: mult_Suc_right)
  qed (use that(3) in simp_all)
  obtain c1 where c1: "walk rootHuffmanNode (replicate 1 0xFF) = Some (Internal c1)" using ones_inside [of 1] by auto
  obtain c2 where c2: "walk rootHuffmanNode (replicate 2 0xFF) = Some (Internal c2)" using ones_inside [of 2] by auto
  obtain c3 where c3: "walk rootHuffmanNode (replicate 3 0xFF) = Some (Internal c3)" using ones_inside [of 3] by auto
  have "walk rootHuffmanNode (replicate 3 0xFF @ [0xFF]) = None"
    using ones_outside by (simp add: eval_nat_numeral)
  then have "child (Internal c3) 0xFF = Panics ''nil pointer dereference''"
    by (simp add: walk_append c3 split: option.splits)
  then have "bit_decodes (Internal c3) (replicate (8 * 1) True) (Panics ''nil pointer dereference'')"
    by (intro Crash) (simp_all add: next_byte_ones)
  from step [OF c2 _ this] c3
  have "bit_decodes (Internal c2) (replicate (8 * 2) True) (Panics ''nil pointer dereference'')"
    by (simp add: eval_nat_numeral)
  from step [OF c1 _ this] c2
  have "bit_decodes (Internal c1) (replicate (8 * 3) True) (Panics ''nil pointer dereference'')"
    by (simp add: eval_nat_numeral)
  from step [where n = rootHuffmanNode and j = 0 and cs = c1, OF _ _ this] c1
  have "bit_decodes rootHuffmanNode (replicate (8 * 4) True) (Panics ''nil pointer dereference'')"
    by (simp add: eval_nat_numeral)
  then show "bit_decodes rootHuffmanNode (byte_bits [0xFF, 0xFF, 0xFF, 0xFF]) (Panics ''nil pointer dereference'')"
    unfolding b .
qed

section \<open>Properties\<close>

text \<open>
  C14: Huffman coding of a header string loses nothing, for every string of bytes: decoding what
  \<open>AppendHuffmanString\<close> appends to a buffer gives the string back (the decoder does not crash and
  does not loop), and what is appended has the length \<open>HuffmanEncodeLength\<close> announces.
\<close>

theorem Huffman_round_trip:
  "\<exists>e. AppendHuffmanString dst s = dst @ e \<and> HuffmanDecode e = Some (Returns s) \<and>
     (length s < 2 ^ 32 \<longrightarrow> unat (HuffmanEncodeLength s) = length e)"
  using AppendHuffmanString_append HuffmanDecode_AppendHuffmanString unat_HuffmanEncodeLength by blast

theorem Huffman_round_trip_witness:
  "unat (HuffmanEncodeLength (octets ''www.example.com'')) =
     length (AppendHuffmanString [] (octets ''www.example.com''))"
  using Huffman_round_trip [of "[]" "octets ''www.example.com''"] by (auto simp: octets_def)

text \<open>
  Huffman decoding ends on every byte string, with the decoded string or with a crash. It does
  crash: four bytes of ones run off the tree, which has no node for the code of the end of a
  string, and the missing node is dereferenced.
\<close>

theorem HuffmanDecode_ends:
  "((\<exists>s. HuffmanDecode v = Some (Returns s)) \<or> (\<exists>m. HuffmanDecode v = Some (Panics m))) \<and>
   HuffmanDecode [0xFF, 0xFF, 0xFF, 0xFF] = Some (Panics ''nil pointer dereference'')"
proof -
  obtain r where r: "HuffmanDecode v = Some r" "decode_result (8 * length v) r"
    using HuffmanDecode_total by blast
  then show ?thesis using HuffmanDecode_ones_panics by (cases r) (auto simp: decode_result_def)
qed

end
