(* ===== verification/Hpack_Codec.thy ===== *)
theory Hpack_Codec
  imports Hpack_Huffman
begin

text \<open>
  Header compression (\<open>hpack/hpack.go\<close>, \<open>hpack/encode.go\<close>): the dynamic table, the decoder with its
  incremental \<open>Write\<close>, and the encoder. The fields a decoder passes to its \<open>emit\<close> function are the
  list of emitted fields; the bytes of an encoder are those of its \<open>Write\<close> call.
  The 32-bit sizes of the tables and the 64-bit indices keep their width.
\<close>

section \<open>Errors\<close>

datatype decoding_error = InvalidIndexError int | DecodingText string

datatype hpack_error = errNeedMore | DecodingError decoding_error

fun decoding_error_text :: "decoding_error \<Rightarrow> string" where
  "decoding_error_text (InvalidIndexError e) = ''invalid indexed representation index '' @ FormatInt e"
| "decoding_error_text (DecodingText s) = s"

fun hpack_error_text :: "hpack_error \<Rightarrow> string" where
  "hpack_error_text errNeedMore = ''need more data''"
| "hpack_error_text (DecodingError e) = ''decoding error: '' @ decoding_error_text e"

section \<open>The dynamic table\<close>

definition hf_size :: "HeaderField \<Rightarrow> 32 word" where
  "hf_size hf = of_nat (length (Name hf) + length (Value hf) + 32)"

record dynamicTable =
  ents :: "HeaderField list"
  dt_size :: "32 word"
  maxSize :: "32 word"
  allowedMaxSize :: "32 word"

text \<open>Old entries are evicted from the front; an empty table that is still too big panics.\<close>

fun evict_loop :: "HeaderField list \<Rightarrow> 32 word \<Rightarrow> 32 word \<Rightarrow> (HeaderField list \<times> 32 word) outcome" where
  "evict_loop es size' mx =
     (if size' > mx then
        (case es of [] \<Rightarrow> Panics ''index out of range'' | e # es' \<Rightarrow> evict_loop es' (size' - hf_size e) mx)
      else Returns (es, size'))"

declare evict_loop.simps [simp del]

definition evict :: "dynamicTable \<Rightarrow> dynamicTable outcome" where
  "evict dt = bind_outcome (evict_loop (ents dt) (dt_size dt) (maxSize dt))
     (\<lambda>(es, size'). Returns (dt\<lparr>ents := es, dt_size := size'\<rparr>))"

definition setMaxSize :: "32 word \<Rightarrow> dynamicTable \<Rightarrow> dynamicTable outcome" where
  "setMaxSize v dt = evict (dt\<lparr>maxSize := v\<rparr>)"

definition dt_add :: "HeaderField \<Rightarrow> dynamicTable \<Rightarrow> dynamicTable outcome" where
  "dt_add f dt = evict (dt\<lparr>ents := ents dt @ [f], dt_size := dt_size dt + hf_size f\<rparr>)"

definition constantTimeStringCompare :: "octet list \<Rightarrow> octet list \<Rightarrow> bool" where
  "constantTimeStringCompare a b \<longleftrightarrow>
     length a = length b \<and> foldl (\<lambda>c (x, y). c OR (x XOR y)) 0 (zip a b) = 0"

text \<open>
  The loops of \<open>dynamicTable.search\<close> and of \<open>Encoder.searchTable\<close> over the entries in the order of their
  1-based indices: the index of the first name match, or that of the first full match.
\<close>

fun search_loop :: "HeaderField \<Rightarrow> nat \<Rightarrow> HeaderField list \<Rightarrow> 64 word \<Rightarrow> 64 word \<times> bool" where
  "search_loop f k [] i = (i, False)"
| "search_loop f k (ent # es) i =
     (if \<not> constantTimeStringCompare (Name ent) (Name f) then search_loop f (Suc k) es i
      else let i' = (if i = 0 then of_nat k else i) in
        if Sensitive f then search_loop f (Suc k) es i'
        else if \<not> constantTimeStringCompare (Value ent) (Value f) then search_loop f (Suc k) es i'
        else (of_nat k, True))"

definition dt_search :: "HeaderField \<Rightarrow> dynamicTable \<Rightarrow> 64 word \<times> bool" where
  "dt_search f dt = search_loop f 1 (rev (ents dt)) 0"

section \<open>Reading integers and strings\<close>

definition errVarintOverflow :: hpack_error where
  "errVarintOverflow = DecodingError (DecodingText ''varint integer overflow'')"

fun readVarInt_loop :: "64 word \<Rightarrow> nat \<Rightarrow> octet list \<Rightarrow> hpack_error + 64 word \<times> octet list" where
  "readVarInt_loop i m [] = Inl errNeedMore"
| "readVarInt_loop i m (b # p) =
     (let i' = i + push_bit m (ucast (b AND 127)) in
      if b AND 128 = 0 then Inr (i', p)
      else if m + 7 \<ge> 63 then Inl errVarintOverflow
      else readVarInt_loop i' (m + 7) p)"

definition readVarInt :: "nat \<Rightarrow> octet list \<Rightarrow> (hpack_error + 64 word \<times> octet list) outcome" where
  "readVarInt n p =
     (if n < 1 \<or> n > 8 then Panics ''bad n''
      else Returns (case p of
          [] \<Rightarrow> Inl errNeedMore
        | b # p' \<Rightarrow>
            let i = (if n < 8 then ucast b AND (push_bit n 1 - 1) else ucast b) in
            if i < push_bit n 1 - 1 then Inr (i, p') else readVarInt_loop i 0 p'))"

definition readString :: "octet list \<Rightarrow> (hpack_error + octet list \<times> octet list) outcome option" where
  "readString p =
     (case p of
        [] \<Rightarrow> Some (Returns (Inl errNeedMore))
      | b # _ \<Rightarrow>
        (case readVarInt 7 p of
           Panics m \<Rightarrow> Some (Panics m)
         | Exits m \<Rightarrow> Some (Exits m)
         | Returns (Inl e) \<Rightarrow> Some (Returns (Inl e))
         | Returns (Inr (strLen, p')) \<Rightarrow>
             if of_nat (length p') < strLen then Some (Returns (Inl errNeedMore))
             else if b AND 128 = 0
             then Some (Returns (Inr (take (unat strLen) p', drop (unat strLen) p')))
             else (case HuffmanDecode (take (unat strLen) p') of
                 None \<Rightarrow> None
               | Some (Returns s) \<Rightarrow> Some (Returns (Inr (s, drop (unat strLen) p')))
               | Some (Panics m) \<Rightarrow> Some (Panics m)
               | Some (Exits m) \<Rightarrow> Some (Exits m))))"

section \<open>The decoder\<close>

record Decoder =
  d_dynTab :: dynamicTable
  saveBuf :: "octet list"

definition NewDecoder :: "32 word \<Rightarrow> Decoder outcome" where
  "NewDecoder mx =
     bind_outcome (setMaxSize mx \<lparr>ents = [], dt_size = 0, maxSize = 0, allowedMaxSize = mx\<rparr>)
       (\<lambda>dt. Returns \<lparr>d_dynTab = dt, saveBuf = []\<rparr>)"

definition Decoder_SetMaxDynamicTableSize :: "32 word \<Rightarrow> Decoder \<Rightarrow> Decoder outcome" where
  "Decoder_SetMaxDynamicTableSize v d =
     bind_outcome (setMaxSize v (d_dynTab d)) (\<lambda>dt. Returns (d\<lparr>d_dynTab := dt\<rparr>))"

definition SetAllowedMaxDynamicTableSize :: "32 word \<Rightarrow> Decoder \<Rightarrow> Decoder" where
  "SetAllowedMaxDynamicTableSize v d = d\<lparr>d_dynTab := (d_dynTab d)\<lparr>allowedMaxSize := v\<rparr>\<rparr>"

definition maxTableIndex :: "Decoder \<Rightarrow> nat" where
  "maxTableIndex d = length (ents (d_dynTab d)) + length staticTable"

definition Decoder_at :: "Decoder \<Rightarrow> 64 word \<Rightarrow> HeaderField option" where
  "Decoder_at d i =
     (if i < 1 then None
      else if i > of_nat (maxTableIndex d) then None
      else if i \<le> of_nat (length staticTable) then Some (staticTable ! (unat i - 1))
      else let dents = ents (d_dynTab d) in
        Some (dents ! (length dents - (unat i - length staticTable))))"

datatype indexType = indexedTrue | indexedFalse | indexedNever

definition indexed :: "indexType \<Rightarrow> bool" where
  "indexed v \<longleftrightarrow> v = indexedTrue"

definition sensitive :: "indexType \<Rightarrow> bool" where
  "sensitive v \<longleftrightarrow> v = indexedNever"

text \<open>
  The parsers take the buffer and return what they emit, the new decoder and the rest of the
  buffer; with an error, neither the decoder nor the buffer changes.
\<close>

type_synonym parsed = "(hpack_error + Decoder \<times> HeaderField list \<times> octet list) outcome option"

definition parseFieldIndexed :: "Decoder \<Rightarrow> octet list \<Rightarrow> parsed" where
  "parseFieldIndexed d buf' =
     (case readVarInt 7 buf' of
        Panics m \<Rightarrow> Some (Panics m)
      | Exits m \<Rightarrow> Some (Exits m)
      | Returns (Inl e) \<Rightarrow> Some (Returns (Inl e))
      | Returns (Inr (idx, rest)) \<Rightarrow>
          (case Decoder_at d idx of
             None \<Rightarrow> Some (Returns (Inl (DecodingError (InvalidIndexError (sint idx)))))
           | Some hf \<Rightarrow>
               Some (Returns (Inr (d, [\<lparr>Name = Name hf, Value = Value hf, Sensitive = False\<rparr>], rest)))))"

definition literal_value :: "Decoder \<Rightarrow> indexType \<Rightarrow> octet list \<Rightarrow> octet list \<Rightarrow> parsed" where
  "literal_value d it name buf' =
     (case readString buf' of
        None \<Rightarrow> None
      | Some (Panics m) \<Rightarrow> Some (Panics m)
      | Some (Exits m) \<Rightarrow> Some (Exits m)
      | Some (Returns (Inl e)) \<Rightarrow> Some (Returns (Inl e))
      | Some (Returns (Inr (val, rest))) \<Rightarrow>
          let hf = \<lparr>Name = name, Value = val, Sensitive = False\<rparr> in
          (case (if indexed it then dt_add hf (d_dynTab d) else Returns (d_dynTab d)) of
             Panics m \<Rightarrow> Some (Panics m)
           | Exits m \<Rightarrow> Some (Exits m)
           | Returns dt \<Rightarrow>
               Some (Returns (Inr (d\<lparr>d_dynTab := dt\<rparr>, [hf\<lparr>Sensitive := sensitive it\<rparr>], rest)))))"

definition parseFieldLiteral :: "nat \<Rightarrow> indexType \<Rightarrow> Decoder \<Rightarrow> octet list \<Rightarrow> parsed" where
  "parseFieldLiteral n it d buf' =
     (case readVarInt n buf' of
        Panics m \<Rightarrow> Some (Panics m)
      | Exits m \<Rightarrow> Some (Exits m)
      | Returns (Inl e) \<Rightarrow> Some (Returns (Inl e))
      | Returns (Inr (nameIdx, rest)) \<Rightarrow>
          if nameIdx > 0 then
            (case Decoder_at d nameIdx of
               None \<Rightarrow> Some (Returns (Inl (DecodingError (InvalidIndexError (sint nameIdx)))))
             | Some ihf \<Rightarrow> literal_value d it (Name ihf) rest)
          else
            (case readString rest of
               None \<Rightarrow> None
             | Some (Panics m) \<Rightarrow> Some (Panics m)
             | Some (Exits m) \<Rightarrow> Some (Exits m)
             | Some (Returns (Inl e)) \<Rightarrow> Some (Returns (Inl e))
             | Some (Returns (Inr (name, rest'))) \<Rightarrow> literal_value d it name rest'))"

definition parseDynamicTableSizeUpdate :: "Decoder \<Rightarrow> octet list \<Rightarrow> parsed" where
  "parseDynamicTableSizeUpdate d buf' =
     (case readVarInt 5 buf' of
        Panics m \<Rightarrow> Some (Panics m)
      | Exits m \<Rightarrow> Some (Exits m)
      | Returns (Inl e) \<Rightarrow> Some (Returns (Inl e))
      | Returns (Inr (size', rest)) \<Rightarrow>
          if size' > ucast (allowedMaxSize (d_dynTab d))
          then Some (Returns (Inl (DecodingError (DecodingText ''dynamic table size update too large''))))
          else (case setMaxSize (ucast size') (d_dynTab d) of
              Panics m \<Rightarrow> Some (Panics m)
            | Exits m \<Rightarrow> Some (Exits m)
            | Returns dt \<Rightarrow> Some (Returns (Inr (d\<lparr>d_dynTab := dt\<rparr>, [], rest)))))"

definition parseHeaderFieldRepr :: "Decoder \<Rightarrow> octet list \<Rightarrow> parsed" where
  "parseHeaderFieldRepr d buf' =
     (case buf' of
        [] \<Rightarrow> Some (Panics ''index out of range'')
      | b # _ \<Rightarrow>
          if b AND 128 \<noteq> 0 then parseFieldIndexed d buf'
          else if b AND 192 = 64 then parseFieldLiteral 6 indexedTrue d buf'
          else if b AND 240 = 0 then parseFieldLiteral 4 indexedFalse d buf'
          else if b AND 240 = 16 then parseFieldLiteral 4 indexedNever d buf'
          else if b AND 224 = 32 then parseDynamicTableSizeUpdate d buf'
          else Some (Returns (Inl (DecodingError (DecodingText ''invalid encoding'')))))"

type_synonym written = "(hpack_error option \<times> Decoder \<times> HeaderField list) outcome option"

partial_function (option) Decoder_Write_loop :: "Decoder \<Rightarrow> octet list \<Rightarrow> HeaderField list \<Rightarrow> written" where
  "Decoder_Write_loop d buf' out =
     (if buf' = [] then Some (Returns (None, d, out))
      else (case parseHeaderFieldRepr d buf' of
          None \<Rightarrow> None
        | Some (Panics m) \<Rightarrow> Some (Panics m)
        | Some (Exits m) \<Rightarrow> Some (Exits m)
        | Some (Returns (Inl e)) \<Rightarrow>
            if e = errNeedMore then Some (Returns (None, d\<lparr>saveBuf := buf'\<rparr>, out))
            else Some (Returns (Some e, d, out))
        | Some (Returns (Inr (d', fs, rest))) \<Rightarrow> Decoder_Write_loop d' rest (out @ fs)))"

definition Decoder_Write :: "Decoder \<Rightarrow> octet list \<Rightarrow> written" where
  "Decoder_Write d p =
     (if p = [] then Some (Returns (None, d, []))
      else Decoder_Write_loop (d\<lparr>saveBuf := []\<rparr>) (if saveBuf d = [] then p else saveBuf d @ p) [])"

definition Decoder_Close :: "Decoder \<Rightarrow> hpack_error option \<times> Decoder" where
  "Decoder_Close d =
     (if length (saveBuf d) > 0
      then (Some (DecodingError (DecodingText ''truncated headers'')), d\<lparr>saveBuf := []\<rparr>)
      else (None, d))"

definition DecodeFull :: "Decoder \<Rightarrow> octet list \<Rightarrow> ((hpack_error + HeaderField list) \<times> Decoder) outcome option" where
  "DecodeFull d p =
     (case Decoder_Write d p of
        None \<Rightarrow> None
      | Some (Panics m) \<Rightarrow> Some (Panics m)
      | Some (Exits m) \<Rightarrow> Some (Exits m)
      | Some (Returns (Some e, d', hf)) \<Rightarrow> Some (Returns (Inl e, d'))
      | Some (Returns (None, d', hf)) \<Rightarrow>
          (case Decoder_Close d' of
             (Some e, d'') \<Rightarrow> Some (Returns (Inl e, d''))
           | (None, d'') \<Rightarrow> Some (Returns (Inr hf, d''))))"

section \<open>Writing integers and strings\<close>

function appendVarInt_loop :: "octet list \<Rightarrow> 64 word \<Rightarrow> octet list" where
  "appendVarInt_loop dst i =
     (if i \<ge> 128 then appendVarInt_loop (dst @ [ucast (0x80 OR (i AND 0x7f))]) (drop_bit 7 i)
      else dst @ [ucast i])"
  by pat_completeness auto
termination
  by (relation "measure (\<lambda>(dst, i). unat i)")
    (auto simp: word_le_nat_alt drop_bit_eq_div unat_div intro!: div_less_dividend)

declare appendVarInt_loop.simps [simp del]

definition appendVarInt :: "octet list \<Rightarrow> nat \<Rightarrow> 64 word \<Rightarrow> octet list" where
  "appendVarInt dst n i =
     (let k = push_bit n 1 - 1 in
      if i < k then dst @ [ucast i] else appendVarInt_loop (dst @ [ucast k]) (i - k))"

text \<open>\<open>dst[first] |= b\<close> for an index that has been appended.\<close>

definition or_at :: "octet list \<Rightarrow> nat \<Rightarrow> octet \<Rightarrow> octet list" where
  "or_at dst first b = dst [first := dst ! first OR b]"

definition appendHpackString :: "octet list \<Rightarrow> octet list \<Rightarrow> octet list" where
  "appendHpackString dst s =
     (let huffmanLength = HuffmanEncodeLength s in
      if huffmanLength < of_nat (length s)
      then or_at (AppendHuffmanString (appendVarInt dst 7 huffmanLength) s) (length dst) 0x80
      else appendVarInt dst 7 (of_nat (length s)) @ s)"

definition encodeTypeByte :: "bool \<Rightarrow> bool \<Rightarrow> octet" where
  "encodeTypeByte indexing sensitive' = (if sensitive' then 0x10 else if indexing then 0x40 else 0)"

definition appendIndexed :: "octet list \<Rightarrow> 64 word \<Rightarrow> octet list" where
  "appendIndexed dst i = or_at (appendVarInt dst 7 i) (length dst) 0x80"

definition appendNewName :: "octet list \<Rightarrow> HeaderField \<Rightarrow> bool \<Rightarrow> octet list" where
  "appendNewName dst f indexing =
     appendHpackString (appendHpackString (dst @ [encodeTypeByte indexing (Sensitive f)]) (Name f)) (Value f)"

definition appendIndexedName :: "octet list \<Rightarrow> HeaderField \<Rightarrow> 64 word \<Rightarrow> bool \<Rightarrow> octet list" where
  "appendIndexedName dst f i indexing =
     appendHpackString
       (or_at (appendVarInt dst (if indexing then 6 else 4) i) (length dst) (encodeTypeByte indexing (Sensitive f)))
       (Value f)"

definition appendTableSize :: "octet list \<Rightarrow> 32 word \<Rightarrow> octet list" where
  "appendTableSize dst v = or_at (appendVarInt dst 5 (ucast v)) (length dst) 0x20"

section \<open>The encoder\<close>

record HpackEncoder =
  e_dynTab :: dynamicTable
  minSize :: "32 word"
  maxSizeLimit :: "32 word"
  tableSizeUpdate :: bool

definition uint32Max :: "32 word" where
  "uint32Max = NOT 0"

definition initialHeaderTableSize :: "32 word" where
  "initialHeaderTableSize = 4096"

definition NewEncoder :: "HpackEncoder outcome" where
  "NewEncoder =
     bind_outcome (setMaxSize initialHeaderTableSize \<lparr>ents = [], dt_size = 0, maxSize = 0, allowedMaxSize = 0\<rparr>)
       (\<lambda>dt. Returns \<lparr>e_dynTab = dt, minSize = uint32Max, maxSizeLimit = initialHeaderTableSize,
                       tableSizeUpdate = False\<rparr>)"

definition searchTable :: "HpackEncoder \<Rightarrow> HeaderField \<Rightarrow> 64 word \<times> bool" where
  "searchTable e f =
     (case search_loop f 1 staticTable 0 of
        (i, True) \<Rightarrow> (i, True)
      | (i, False) \<Rightarrow>
          (case dt_search f (e_dynTab e) of
             (j, nameValueMatch) \<Rightarrow>
               (if nameValueMatch \<or> (i = 0 \<and> j \<noteq> 0) then j + of_nat (length staticTable) else i,
                nameValueMatch)))"

definition SetMaxDynamicTableSize :: "32 word \<Rightarrow> HpackEncoder \<Rightarrow> HpackEncoder outcome" where
  "SetMaxDynamicTableSize v e =
     (let v' = (if v > maxSizeLimit e then maxSizeLimit e else v) in
      bind_outcome (setMaxSize v' (e_dynTab e))
        (\<lambda>dt. Returns (e\<lparr>minSize := if v' < minSize e then v' else minSize e,
                        tableSizeUpdate := True, e_dynTab := dt\<rparr>)))"

definition SetMaxDynamicTableSizeLimit :: "32 word \<Rightarrow> HpackEncoder \<Rightarrow> HpackEncoder outcome" where
  "SetMaxDynamicTableSizeLimit v e =
     (if maxSize (e_dynTab e) > v
      then bind_outcome (setMaxSize v (e_dynTab e))
             (\<lambda>dt. Returns (e\<lparr>maxSizeLimit := v, tableSizeUpdate := True, e_dynTab := dt\<rparr>))
      else Returns (e\<lparr>maxSizeLimit := v\<rparr>))"

definition shouldIndex :: "HpackEncoder \<Rightarrow> HeaderField \<Rightarrow> bool" where
  "shouldIndex e f \<longleftrightarrow> \<not> Sensitive f \<and> hf_size f \<le> maxSize (e_dynTab e)"

text \<open>The buffer of \<open>WriteField\<close> before it is written, and the new encoder.\<close>

definition encode_field :: "HeaderField \<Rightarrow> HpackEncoder \<Rightarrow> (HpackEncoder \<times> octet list) outcome" where
  "encode_field f e =
     (let buf0 = (if tableSizeUpdate e
                  then appendTableSize
                         (if minSize e < maxSize (e_dynTab e) then appendTableSize [] (minSize e) else [])
                         (maxSize (e_dynTab e))
                  else []);
          e1 = (if tableSizeUpdate e then e\<lparr>tableSizeUpdate := False, minSize := uint32Max\<rparr> else e);
          (idx, nameValueMatch) = searchTable e1 f
      in if nameValueMatch then Returns (e1, appendIndexed buf0 idx)
         else let indexing = shouldIndex e1 f in
           bind_outcome (if indexing then dt_add f (e_dynTab e1) else Returns (e_dynTab e1))
             (\<lambda>dt. Returns (e1\<lparr>e_dynTab := dt\<rparr>,
                if idx = 0 then appendNewName buf0 f indexing
                else appendIndexedName buf0 f idx indexing)))"

text \<open>\<open>WriteField\<close> with the writer's answer to the one call of its \<open>Write\<close>.\<close>

definition WriteField ::
    "(octet list \<Rightarrow> int \<times> error option) \<Rightarrow> HeaderField \<Rightarrow> HpackEncoder \<Rightarrow> (error option \<times> HpackEncoder \<times> octet list) outcome" where
  "WriteField w f e =
     bind_outcome (encode_field f e) (\<lambda>(e', buf').
       let (n, err) = w buf' in
       Returns (if err = None \<and> n \<noteq> int (length buf') then Some (ErrorString ''short write'') else err, e', buf'))"

section \<open>The table keeps the newest entries that fit\<close>

definition fsize :: "HeaderField \<Rightarrow> nat" where
  "fsize f = length (Name f) + length (Value f) + 32"

definition tsum :: "HeaderField list \<Rightarrow> nat" where
  "tsum es = sum_list (map fsize es)"

lemma tsum_simps [simp]: "tsum [] = 0" "tsum (e # es) = fsize e + tsum es" "tsum (es @ fs) = tsum es + tsum fs"
  by (simp_all add: tsum_def)

fun keep :: "nat \<Rightarrow> HeaderField list \<Rightarrow> HeaderField list" where
  "keep mx [] = []"
| "keep mx (e # es) = (if tsum (e # es) \<le> mx then e # es else keep mx es)"

lemma keep_fits: "tsum (keep mx es) \<le> mx"
  by (induction es) auto

lemma keep_suffix: "suffix (keep mx es) es"
  by (induction es) (auto simp: suffix_Cons)

lemma tsum_suffix: "suffix a b \<Longrightarrow> tsum a \<le> tsum b"
  by (auto simp: suffix_def)

lemma keep_longest: "suffix a es \<Longrightarrow> tsum a \<le> mx \<Longrightarrow> suffix a (keep mx es)"
  by (induction es) (auto simp: suffix_Cons dest: tsum_suffix)

lemma keep_mono: "suffix a b \<Longrightarrow> m \<le> n \<Longrightarrow> suffix (keep m a) (keep n b)"
  by (meson keep_fits keep_longest keep_suffix le_trans suffix_order.trans)

definition dt_ok :: "dynamicTable \<Rightarrow> bool" where
  "dt_ok dt \<longleftrightarrow> unat (dt_size dt) = tsum (ents dt) \<and> tsum (ents dt) \<le> unat (maxSize dt)"

lemma word32_less: "unat (x :: 32 word) < 2 ^ 32"
  using unsigned_less [of x, where ?'a = nat] by simp

lemma unat_of_nat_32: "n < 2 ^ 32 \<Longrightarrow> unat (of_nat n :: 32 word) = n"
  by (simp add: unat_of_nat take_bit_nat_eq_self)

lemma unat_of_nat_64: "n < 2 ^ 64 \<Longrightarrow> unat (of_nat n :: 64 word) = n"
  by (simp add: unat_of_nat take_bit_nat_eq_self)

lemma unat_hf_size: "fsize f < 2 ^ 32 \<Longrightarrow> unat (hf_size f) = fsize f"
  unfolding hf_size_def fsize_def by (rule unat_of_nat_32)

lemma evict_loop_keep:
  assumes "unat s = tsum es"
  shows "\<exists>s'. evict_loop es s mx = Returns (keep (unat mx) es, s') \<and> unat s' = tsum (keep (unat mx) es)"
  using assms
proof (induction es arbitrary: s)
  case Nil
  then show ?case by (simp add: evict_loop.simps [of "[]"] word_less_nat_alt)
next
  case (Cons e es)
  have e: "unat (hf_size e) = fsize e"
    using Cons.prems word32_less [of s] by (intro unat_hf_size) simp
  then have "unat (s - hf_size e) = tsum es"
    using Cons.prems by (simp add: unat_sub word_le_nat_alt)
  with Cons show ?case
    by (simp add: evict_loop.simps [of "e # es"] word_less_nat_alt not_less)
qed

lemma evict_keep:
  assumes "unat (dt_size dt) = tsum (ents dt)"
  shows "\<exists>dt'. evict dt = Returns dt' \<and> dt_ok dt' \<and> ents dt' = keep (unat (maxSize dt)) (ents dt) \<and>
           maxSize dt' = maxSize dt \<and> allowedMaxSize dt' = allowedMaxSize dt"
  using evict_loop_keep [OF assms, of "maxSize dt"] keep_fits
  by (auto simp: evict_def dt_ok_def)

lemma setMaxSize_keep:
  assumes "dt_ok dt"
  shows "\<exists>dt'. setMaxSize v dt = Returns dt' \<and> dt_ok dt' \<and> ents dt' = keep (unat v) (ents dt) \<and>
           maxSize dt' = v \<and> allowedMaxSize dt' = allowedMaxSize dt"
  using evict_keep [of "dt\<lparr>maxSize := v\<rparr>"] assms by (simp add: setMaxSize_def dt_ok_def)

lemma dt_add_keep:
  assumes "dt_ok dt" and "unat (maxSize dt) + fsize f < 2 ^ 32"
  shows "\<exists>dt'. dt_add f dt = Returns dt' \<and> dt_ok dt' \<and> ents dt' = keep (unat (maxSize dt)) (ents dt @ [f]) \<and>
           maxSize dt' = maxSize dt \<and> allowedMaxSize dt' = allowedMaxSize dt"
proof -
  have "unat (dt_size dt + hf_size f) = tsum (ents dt @ [f])"
    using assms unat_hf_size [of f] by (simp add: dt_ok_def unat_word_ariths)
  then show ?thesis
    using evict_keep [of "dt\<lparr>ents := ents dt @ [f], dt_size := dt_size dt + hf_size f\<rparr>"]
    by (simp add: dt_add_def)
qed

section \<open>Comparing and searching\<close>

lemma fold_or_xor:
  "length a = length b \<Longrightarrow>
     foldl (\<lambda>c (x, y). c OR (x XOR y)) c (zip a b) = (0 :: octet) \<longleftrightarrow> c = 0 \<and> a = b"
proof (induction a b arbitrary: c rule: list_induct2)
  case (Cons x a y b)
  have "c OR (x XOR y) = 0 \<longleftrightarrow> c = 0 \<and> x = y"
    by (auto simp: bit_eq_iff bit_simps)
  with Cons show ?case by auto
qed simp

lemma constantTimeStringCompare_iff [simp]: "constantTimeStringCompare a b \<longleftrightarrow> a = b"
  using fold_or_xor [of a b 0] by (auto simp: constantTimeStringCompare_def)

text \<open>
  A search that answers \<open>i\<close>: nothing was found (\<open>i = 0\<close>), or entry \<open>i\<close> has the name; with a full
  match also the value, and the field is not a sensitive one.
\<close>

lemma search_loop_found:
  assumes "search_loop f (Suc k) es i = (j, m)" and "k + length es < 2 ^ 63"
  shows "(j = i \<and> \<not> m) \<or> (\<exists>n < length es. unat j = Suc (k + n) \<and> Name (es ! n) = Name f \<and>
           (m \<longrightarrow> Value (es ! n) = Value f \<and> \<not> Sensitive f))"
  using assms
proof (induction es arbitrary: k i)
  case (Cons e es)
  have k: "unat (of_nat (Suc k) :: 64 word) = Suc k"
    using Cons.prems(2) by (intro unat_of_nat_64) simp
  have rec: "(j = i' \<and> \<not> m) \<or> (\<exists>n < length (e # es). unat j = Suc (k + n) \<and> Name ((e # es) ! n) = Name f \<and>
      (m \<longrightarrow> Value ((e # es) ! n) = Value f \<and> \<not> Sensitive f))"
    if "search_loop f (Suc (Suc k)) es i' = (j, m)" for i'
    using Cons.IH [OF that] Cons.prems(2) by fastforce
  show ?case
  proof (cases "Name e = Name f")
    case False
    with Cons.prems(1) show ?thesis using rec by simp
  next
    case True
    define i' where "i' = (if i = 0 then of_nat (Suc k) else i)"
    show ?thesis
    proof (cases "Sensitive f \<or> Value e \<noteq> Value f")
      case rec': True
      with True Cons.prems(1) have "search_loop f (Suc (Suc k)) es i' = (j, m)"
        by (auto simp: i'_def Let_def split: if_splits)
      from rec [OF this] show ?thesis
        using True k by (auto simp: i'_def split: if_splits)
    next
      case False
      with True Cons.prems(1) have "j = of_nat (Suc k)" "m" by (simp_all add: Let_def)
      with False True k show ?thesis by auto
    qed
  qed
qed simp

section \<open>Integers: reading what was written\<close>

lemma appendVarInt_loop_prefix: "appendVarInt_loop (a @ dst) i = a @ appendVarInt_loop dst i"
proof (induction dst i rule: appendVarInt_loop.induct)
  case (1 dst i)
  then show ?case by (cases "i \<ge> 128") (simp_all add: appendVarInt_loop.simps [of _ i])
qed

lemma appendVarInt_loop_append: "appendVarInt_loop dst i = dst @ appendVarInt_loop [] i"
  using appendVarInt_loop_prefix [of dst "[]" i] by simp

definition varint_hd :: "nat \<Rightarrow> 64 word \<Rightarrow> octet" where
  "varint_hd n i = ucast (if i < push_bit n 1 - 1 then i else push_bit n 1 - 1)"

definition varint_tl :: "nat \<Rightarrow> 64 word \<Rightarrow> octet list" where
  "varint_tl n i = (if i < push_bit n 1 - 1 then [] else appendVarInt_loop [] (i - (push_bit n 1 - 1)))"

lemma appendVarInt_append: "appendVarInt dst n i = dst @ varint_hd n i # varint_tl n i"
  using appendVarInt_loop_append [of "dst @ [ucast (push_bit n 1 - 1 :: 64 word)]" "i - (push_bit n 1 - 1)"]
  by (simp add: appendVarInt_def varint_hd_def varint_tl_def Let_def)

lemma or_at_append [simp]: "or_at (dst @ b # bs) (length dst) t = dst @ (b OR t) # bs"
  by (simp add: or_at_def)

lemma bit_128: "bit (128 :: int) n \<longleftrightarrow> n = 7"
  using bit_exp_iff [where ?'a = int, of 7 n] by (auto simp: possible_bit_def)

lemma bit_127: "bit (127 :: int) n \<longleftrightarrow> n < 7"
proof -
  have "(127 :: int) = mask 7" by (simp add: mask_eq_exp_minus_1)
  then show ?thesis by (simp only: bit_mask_iff) (simp add: possible_bit_def)
qed

lemmas seven_bits = bit_128 bit_127 bit_and_iff bit_or_iff bit_unsigned_iff bit_push_bit_iff bit_drop_bit_eq

lemma continuation_bits:
  fixes i :: "64 word"
  shows "ucast ((ucast (0x80 OR (i AND 0x7f)) :: octet) AND 127) = i AND 0x7f"
    and "(ucast (0x80 OR (i AND 0x7f)) :: octet) AND 128 \<noteq> 0"
proof -
  show "ucast ((ucast (0x80 OR (i AND 0x7f)) :: octet) AND 127) = i AND 0x7f"
    by (rule bit_word_eqI) (auto simp: seven_bits)
  have "bit ((ucast (0x80 OR (i AND 0x7f)) :: octet) AND 128) 7" by (simp add: seven_bits)
  then show "(ucast (0x80 OR (i AND 0x7f)) :: octet) AND 128 \<noteq> 0" by (metis bit_0_eq bot_apply bot_bool_def)
qed

lemma last_bits:
  fixes i :: "64 word"
  assumes "i < 128"
  shows "ucast ((ucast i :: octet) AND 127) = i" and "(ucast i :: octet) AND 128 = 0"
proof -
  have i: "take_bit 7 i = i"
    using assms by (simp add: word_unat_eq_iff unsigned_take_bit_eq take_bit_nat_eq_self word_less_nat_alt)
  then have b: "bit i n \<Longrightarrow> n < 7" for n by (metis bit_take_bit_iff)
  show "ucast ((ucast i :: octet) AND 127) = i"
    by (rule bit_word_eqI) (auto simp: seven_bits dest: b)
  show "(ucast i :: octet) AND 128 = 0"
    by (rule bit_word_eqI) (auto simp: seven_bits dest: b)
qed

lemma split_seven: "i = (i AND 0x7f) + push_bit 7 (drop_bit 7 i)" for i :: "64 word"
proof -
  have "\<not> bit (i AND 0x7f) n \<or> \<not> bit (push_bit 7 (drop_bit 7 i)) n" for n by (auto simp: seven_bits)
  then have "(i AND 0x7f) + push_bit 7 (drop_bit 7 i) = (i AND 0x7f) OR push_bit 7 (drop_bit 7 i)"
    by (intro disjunctive_add) blast
  also have "\<dots> = i"
  proof (rule bit_word_eqI)
    fix n show "bit ((i AND 0x7f) OR push_bit 7 (drop_bit 7 i)) n = bit i n" if "n < LENGTH(64)"
      using that by (cases "n < 7") (auto simp: seven_bits)
  qed
  finally show ?thesis by simp
qed

lemma readVarInt_loop_append:
  assumes "unat i < 2 ^ (63 - m)" and "m < 63"
  shows "readVarInt_loop acc m (appendVarInt_loop [] i @ rest) = Inr (acc + push_bit m i, rest)"
  using assms
proof (induction i arbitrary: acc m rule: less_induct [where 'a = "64 word"])
  case (less i)
  show ?case
  proof (cases "i \<ge> 128")
    case True
    let ?b = "ucast (0x80 OR (i AND 0x7f)) :: octet"
    have i: "128 \<le> unat i" using True by (simp add: word_le_nat_alt)
    have m: "m + 7 < 63"
    proof (rule ccontr)
      assume "\<not> m + 7 < 63"
      then have "(2 :: nat) ^ (63 - m) \<le> 2 ^ 7" by (intro power_increasing) auto
      with i less.prems(1) show False by simp
    qed
    have d: "unat (drop_bit 7 i) = unat i div 128" by (simp add: drop_bit_eq_div unat_div)
    have "(2 :: nat) ^ (63 - m) = 2 ^ (63 - (m + 7)) * 128"
      using m power_add [of "2 :: nat" "63 - (m + 7)" 7] by simp
    with less.prems(1) have "unat (drop_bit 7 i) < 2 ^ (63 - (m + 7))" by (simp add: d div_less_iff_less_mult)
    moreover have "drop_bit 7 i < i" using i by (simp add: word_less_nat_alt d)
    ultimately have IH: "readVarInt_loop acc' (m + 7) (appendVarInt_loop [] (drop_bit 7 i) @ rest) =
        Inr (acc' + push_bit (m + 7) (drop_bit 7 i), rest)" for acc'
      using less.IH m by blast
    have app: "appendVarInt_loop [] i = ?b # appendVarInt_loop [] (drop_bit 7 i)"
      using True appendVarInt_loop.simps [of "[]" i] appendVarInt_loop_append [of "[?b]"] by simp
    have sum: "push_bit m (i AND 0x7f) + push_bit (m + 7) (drop_bit 7 i) = push_bit m i"
      by (subst (3) split_seven) (simp add: push_bit_add)
    show ?thesis
      using m sum by (simp add: app IH continuation_bits Let_def add.assoc)
  next
    case False
    then have "appendVarInt_loop [] i = [ucast i]" by (simp add: appendVarInt_loop.simps [of "[]" i])
    then show ?thesis using False last_bits [of i] by (simp add: Let_def not_le)
  qed
qed

lemma low_mask: "push_bit n 1 - 1 = (mask n :: 64 word)"
  by (simp add: mask_eq_exp_minus_1)

lemma le_mask_take: "x \<le> mask n \<Longrightarrow> take_bit n x = x" for x :: "'a::len word"
proof -
  assume "x \<le> mask n"
  then have "uint x \<le> uint (mask n :: 'a word)" by (simp add: word_le_def)
  also have "\<dots> = mask (min LENGTH('a) n)" by (rule uint_mask_eq)
  also have "\<dots> \<le> (mask n :: int)"
    using power_increasing [of "min LENGTH('a) n" n "2 :: int"] by (simp add: mask_eq_exp_minus_1 del: power_increasing_iff)
  finally have "uint x < 2 ^ n" by (simp add: mask_eq_exp_minus_1)
  then show ?thesis by (metis take_bit_int_eq_self_iff unsigned_take_bit_eq unsigned_word_eqI uint_nonnegative)
qed

lemma varint_hd_bits: "bit (varint_hd n i) k \<Longrightarrow> k < n"
proof -
  define x where "x = (if i < push_bit n 1 - 1 then i else push_bit n 1 - 1)"
  assume "bit (varint_hd n i) k"
  then have "bit x k" by (auto simp: varint_hd_def x_def bit_simps)
  moreover have "x \<le> mask n" unfolding x_def low_mask by auto
  ultimately show "k < n" using le_mask_take [of x n] by (metis bit_take_bit_iff)
qed

text \<open>The tag bits above the prefix are those of the representation.\<close>

lemma varint_hd_tag: "m AND mask n = 0 \<Longrightarrow> (varint_hd n i OR t) AND m = t AND m"
proof -
  assume m: "m AND mask n = 0"
  have "varint_hd n i AND m = 0"
  proof (rule bit_word_eqI)
    fix k
    have "\<not> bit (m AND mask n) k" by (simp add: m)
    then show "bit (varint_hd n i AND m) k = bit 0 k" if "k < LENGTH(8)"
      using that varint_hd_bits [of n i k] by (auto simp: bit_simps)
  qed
  then show ?thesis by (simp add: bit.conj_disj_distrib2)
qed

lemma readVarInt_varint:
  assumes n: "1 \<le> n" "n \<le> 7" and t: "t AND mask n = 0" and i: "unat i < 2 ^ 63"
  shows "readVarInt n ((varint_hd n i OR t) # varint_tl n i @ rest) = Returns (Inr (i, rest))"
proof -
  define x where "x = (if i < push_bit n 1 - 1 then i else push_bit n 1 - 1)"
  have "x \<le> mask n" unfolding x_def low_mask by auto
  then have xn: "k < n" if "bit x k" for k using that le_mask_take [of x n] by (metis bit_take_bit_iff)
  have tn: "\<not> bit t k" if "k < n" for k
  proof -
    have "\<not> bit (t AND mask n) k" by (simp add: t)
    with that n show ?thesis by (auto simp: bit_simps)
  qed
  have hd: "ucast (varint_hd n i OR t) AND (push_bit n 1 - 1 :: 64 word) = x"
  proof (rule bit_word_eqI)
    fix k assume "k < LENGTH(64)"
    have "bit (varint_hd n i) k \<longleftrightarrow> bit x k" if "k < n"
      using that n by (simp add: varint_hd_def x_def bit_simps)
    then show "bit (ucast (varint_hd n i OR t) AND (push_bit n 1 - 1 :: 64 word)) k = bit x k"
      unfolding low_mask using n tn xn [of k] \<open>k < LENGTH(64)\<close> by (auto simp: bit_simps)
  qed
  have n8: "\<not> (n < 1 \<or> n > 8)" "n < 8" using n by auto
  show ?thesis
  proof (cases "i < push_bit n 1 - 1")
    case True
    then show ?thesis using n8 hd by (simp add: readVarInt_def varint_tl_def x_def)
  next
    case False
    have "unat (i - (push_bit n 1 - 1)) < 2 ^ (63 - 0)"
      using False i by (simp add: unat_sub not_less)
    from readVarInt_loop_append [OF this, of "push_bit n 1 - 1" rest] False n8 hd show ?thesis
      by (simp add: readVarInt_def varint_tl_def x_def Let_def)
  qed
qed

section \<open>Strings: reading what was written\<close>

definition hpack_string :: "octet list \<Rightarrow> octet list" where
  "hpack_string s = appendHpackString [] s"

lemma or_at_first [simp]: "or_at (b # bs) 0 t = (b OR t) # bs"
  by (simp add: or_at_def)

lemma appendHpackString_append: "appendHpackString dst s = dst @ hpack_string s"
  by (simp add: appendHpackString_def hpack_string_def Let_def appendVarInt_append
      AppendHuffmanString_append [of "dst @ _"] AppendHuffmanString_append [of "_ # _"])

lemma mask_tags: "(0 :: octet) AND mask n = 0" "(128 :: octet) AND mask 7 = 0"
  by (simp_all add: mask_eq_exp_minus_1)

lemma readString_hpack_string:
  assumes "length s < 2 ^ 32" and rest: "length rest < 2 ^ 62"
  shows "readString (hpack_string s @ rest) = Some (Returns (Inr (s, rest)))"
proof -
  let ?h = "HuffmanEncodeLength s" and ?e = "AppendHuffmanString [] s" and ?l = "of_nat (length s) :: 64 word"
  have h: "unat ?h = length ?e" by (rule unat_HuffmanEncodeLength [OF assms(1)])
  have len: "unat ?l = length s" using assms by (intro unat_of_nat_64) simp
  show ?thesis
  proof (cases "?h < ?l")
    case True
    then have lt: "length ?e < length s" using h len by (simp add: word_less_nat_alt)
    have str: "hpack_string s = (varint_hd 7 ?h OR 128) # varint_tl 7 ?h @ ?e"
      using True by (simp add: hpack_string_def appendHpackString_def Let_def appendVarInt_append
          AppendHuffmanString_append [of "_ # _"])
    have "readVarInt 7 ((varint_hd 7 ?h OR 128) # varint_tl 7 ?h @ ?e @ rest) = Returns (Inr (?h, ?e @ rest))"
      using assms lt h by (intro readVarInt_varint mask_tags) simp_all
    moreover have "(varint_hd 7 ?h OR 128) AND 128 \<noteq> 0"
      by (subst varint_hd_tag) (simp_all add: mask_eq_exp_minus_1)
    moreover have "\<not> of_nat (length ?e + length rest) < ?h"
      using unat_of_nat_64 [of "length ?e + length rest"] assms lt
      by (simp add: word_less_nat_alt h del: of_nat_add)
    ultimately show ?thesis
      by (simp add: str readString_def h HuffmanDecode_AppendHuffmanString del: of_nat_add)
  next
    case False
    have str: "hpack_string s = (varint_hd 7 ?l OR 0) # varint_tl 7 ?l @ s"
      using False by (simp add: hpack_string_def appendHpackString_def Let_def appendVarInt_append)
    have "readVarInt 7 ((varint_hd 7 ?l OR 0) # varint_tl 7 ?l @ s @ rest) = Returns (Inr (?l, s @ rest))"
      using assms len by (intro readVarInt_varint mask_tags) simp_all
    moreover have "(varint_hd 7 ?l OR 0) AND 128 = 0"
      by (subst varint_hd_tag) (simp_all add: mask_eq_exp_minus_1)
    moreover have "\<not> of_nat (length s + length rest) < ?l"
      using unat_of_nat_64 [of "length s + length rest"] assms
      by (simp add: word_less_nat_alt len del: of_nat_add)
    ultimately show ?thesis
      by (simp add: str readString_def len del: of_nat_add)
  qed
qed

section \<open>Representations: parsing what was written\<close>

lemma append_reprs:
  "appendIndexed dst i = dst @ (varint_hd 7 i OR 0x80) # varint_tl 7 i"
  "appendTableSize dst v = dst @ (varint_hd 5 (ucast v) OR 0x20) # varint_tl 5 (ucast v)"
  "appendNewName dst f indexing =
     dst @ encodeTypeByte indexing (Sensitive f) # hpack_string (Name f) @ hpack_string (Value f)"
  "appendIndexedName dst f i indexing =
     dst @ (varint_hd (if indexing then 6 else 4) i OR encodeTypeByte indexing (Sensitive f)) #
       varint_tl (if indexing then 6 else 4) i @ hpack_string (Value f)"
  by (simp_all add: appendIndexed_def appendTableSize_def appendNewName_def appendIndexedName_def
      appendVarInt_append appendHpackString_append)

lemma parse_indexed:
  assumes "unat i < 2 ^ 63" and "Decoder_at d i = Some hf"
  shows "parseHeaderFieldRepr d ((varint_hd 7 i OR 0x80) # varint_tl 7 i @ rest) =
           Some (Returns (Inr (d, [\<lparr>Name = Name hf, Value = Value hf, Sensitive = False\<rparr>], rest)))"
proof -
  have "(varint_hd 7 i OR 0x80) AND 128 \<noteq> 0"
    by (subst varint_hd_tag) (simp_all add: mask_eq_exp_minus_1)
  moreover have "readVarInt 7 ((varint_hd 7 i OR 0x80) # varint_tl 7 i @ rest) = Returns (Inr (i, rest))"
    using assms(1) by (intro readVarInt_varint mask_tags) simp_all
  ultimately show ?thesis
    using assms(2) by (simp add: parseHeaderFieldRepr_def parseFieldIndexed_def)
qed

lemma parse_table_size:
  assumes v: "v \<le> allowedMaxSize (d_dynTab d)" and dt: "setMaxSize v (d_dynTab d) = Returns dt"
  shows "parseHeaderFieldRepr d ((varint_hd 5 (ucast v) OR 0x20) # varint_tl 5 (ucast v) @ rest) =
           Some (Returns (Inr (d\<lparr>d_dynTab := dt\<rparr>, [], rest)))"
proof -
  let ?b = "varint_hd 5 (ucast v) OR 0x20"
  have tag: "?b AND 128 = 0" "?b AND 192 = 0" "?b AND 224 = 32" "?b AND 32 = 32"
    by (subst varint_hd_tag; simp add: mask_eq_exp_minus_1)+
  have "(?b AND 240) AND 32 = 32"
    unfolding and.assoc using tag(4) by simp
  moreover have "x \<noteq> 0 \<and> x \<noteq> 16" if "x AND 32 = 32" for x :: octet using that by auto
  ultimately have "?b AND 240 \<noteq> 0" "?b AND 240 \<noteq> 16" by blast+
  moreover have "unat (ucast v :: 64 word) < 2 ^ 63"
    using word32_less [of v] by (simp add: unsigned_ucast_eq take_bit_nat_eq_self)
  then have "readVarInt 5 (?b # varint_tl 5 (ucast v) @ rest) = Returns (Inr (ucast v, rest))"
    by (intro readVarInt_varint) (simp_all add: mask_eq_exp_minus_1)
  moreover have "\<not> ucast v > (ucast (allowedMaxSize (d_dynTab d)) :: 64 word)"
    using v word32_less [of v] word32_less [of "allowedMaxSize (d_dynTab d)"]
    by (simp add: word_less_nat_alt word_le_nat_alt unsigned_ucast_eq take_bit_nat_eq_self)
  moreover have "ucast (ucast v :: 64 word) = v"
    by (rule bit_word_eqI) (simp add: bit_simps)
  ultimately show ?thesis
    using tag dt by (simp add: parseHeaderFieldRepr_def parseDynamicTableSizeUpdate_def)
qed

text \<open>A literal: the kind of the representation, where the name comes from, and the value.\<close>

definition literal_kind :: "bool \<Rightarrow> bool \<Rightarrow> indexType" where
  "literal_kind indexing sens = (if sens then indexedNever else if indexing then indexedTrue else indexedFalse)"

definition literal_prefix :: "bool \<Rightarrow> nat" where
  "literal_prefix indexing = (if indexing then 6 else 4)"

lemma parse_literal_kind:
  assumes "indexing \<Longrightarrow> \<not> sens"
  shows "parseHeaderFieldRepr d ((varint_hd (literal_prefix indexing) i OR encodeTypeByte indexing sens) # p) =
           parseFieldLiteral (literal_prefix indexing) (literal_kind indexing sens) d
             ((varint_hd (literal_prefix indexing) i OR encodeTypeByte indexing sens) # p)"
proof -
  let ?b = "varint_hd (literal_prefix indexing) i OR encodeTypeByte indexing sens"
  have tag: "?b AND m = encodeTypeByte indexing sens AND m" if "m AND mask (literal_prefix indexing) = 0" for m
    using that by (rule varint_hd_tag)
  have "?b AND 128 = 0"
    by (subst tag) (auto simp: literal_prefix_def encodeTypeByte_def mask_eq_exp_minus_1)
  moreover have "?b AND 192 = (if indexing then 64 else 0)"
    using assms by (subst tag) (auto simp: literal_prefix_def encodeTypeByte_def mask_eq_exp_minus_1)
  moreover have "?b AND 240 = (if sens then 16 else 0)" if "\<not> indexing"
    using that by (subst tag) (auto simp: literal_prefix_def encodeTypeByte_def mask_eq_exp_minus_1)
  ultimately show ?thesis
    using assms by (auto simp: parseHeaderFieldRepr_def literal_kind_def literal_prefix_def)
qed

lemma read_literal_index:
  assumes "indexing \<Longrightarrow> \<not> sens" and "unat i < 2 ^ 63"
  shows "readVarInt (literal_prefix indexing)
           ((varint_hd (literal_prefix indexing) i OR encodeTypeByte indexing sens) # varint_tl (literal_prefix indexing) i @ rest) =
           Returns (Inr (i, rest))"
  using assms
  by (intro readVarInt_varint) (auto simp: literal_prefix_def encodeTypeByte_def mask_eq_exp_minus_1)

lemma literal_value_string:
  assumes "length val < 2 ^ 32" and "length rest < 2 ^ 62"
    and "(if indexed it then dt_add \<lparr>Name = name, Value = val, Sensitive = False\<rparr> (d_dynTab d)
          else Returns (d_dynTab d)) = Returns dt"
  shows "literal_value d it name (hpack_string val @ rest) =
           Some (Returns (Inr (d\<lparr>d_dynTab := dt\<rparr>, [\<lparr>Name = name, Value = val, Sensitive = sensitive it\<rparr>], rest)))"
  using assms(3) readString_hpack_string [OF assms(1,2)] by (simp add: literal_value_def Let_def)

section \<open>Encoder and decoder in step\<close>

lemma table_short: "dt_ok dt \<Longrightarrow> length (ents dt) < 2 ^ 32"
proof -
  assume "dt_ok dt"
  moreover have "length es \<le> tsum es" for es by (induction es) (auto simp: fsize_def)
  ultimately show ?thesis using word32_less [of "maxSize dt"] by (meson dt_ok_def le_less_trans)
qed

lemma rev_nth_suffix: "suffix a b \<Longrightarrow> n < length a \<Longrightarrow> rev a ! n = b ! (length b - Suc n)"
  by (auto simp: suffix_def rev_nth nth_append)

lemma searchTable_found:
  assumes ok: "dt_ok (e_dynTab e)" "dt_ok (d_dynTab d)"
    and sfx: "suffix (ents (e_dynTab e)) (ents (d_dynTab d))"
    and s: "searchTable e f = (idx, m)"
  shows "idx = 0 \<and> \<not> m \<or> (\<exists>hf. Decoder_at d idx = Some hf \<and> Name hf = Name f \<and> idx \<noteq> 0 \<and> unat idx < 2 ^ 63 \<and>
           (m \<longrightarrow> Value hf = Value f \<and> \<not> Sensitive f))"
proof -
  let ?E = "ents (e_dynTab e)" and ?D = "ents (d_dynTab d)"
  have D: "length ?D < 2 ^ 32" "length ?E \<le> length ?D"
    using table_short [OF ok(2)] suffix_length_le [OF sfx] by auto
  have mx: "unat (of_nat (maxTableIndex d) :: 64 word) = length ?D + 61"
    unfolding maxTableIndex_def using D by (subst unat_of_nat_64) simp_all
  obtain i ms where st: "search_loop f 1 staticTable 0 = (i, ms)" by (cases "search_loop f 1 staticTable 0")
  have static: "i = 0 \<and> \<not> ms \<or> (\<exists>hf. Decoder_at d i = Some hf \<and> Name hf = Name f \<and> i \<noteq> 0 \<and> unat i < 2 ^ 63 \<and>
      (ms \<longrightarrow> Value hf = Value f \<and> \<not> Sensitive f))"
  proof -
    from search_loop_found [of f 0 staticTable 0 i ms] st
    consider "i = 0" "\<not> ms" | n where "n < 61" "unat i = Suc n" "Name (staticTable ! n) = Name f"
      "ms \<longrightarrow> Value (staticTable ! n) = Value f \<and> \<not> Sensitive f" by auto
    then show ?thesis
    proof cases
      case 2
      then have "Decoder_at d i = Some (staticTable ! n)"
        using mx by (simp add: Decoder_at_def word_less_nat_alt word_le_nat_alt)
      moreover have "i \<noteq> 0" using 2(2) by auto
      ultimately show ?thesis using 2 by auto
    qed simp
  qed
  show ?thesis
  proof (cases ms)
    case True
    with st s static show ?thesis by (auto simp: searchTable_def)
  next
    case False
    obtain j mj where dy: "dt_search f (e_dynTab e) = (j, mj)" by (cases "dt_search f (e_dynTab e)")
    have idx: "idx = (if mj \<or> (i = 0 \<and> j \<noteq> 0) then j + 61 else i)" "m = mj"
      using s st False dy by (auto simp: searchTable_def)
    from search_loop_found [of f 0 "rev ?E" 0 j mj] dy D
    consider "j = 0" "\<not> mj" | n where "n < length ?E" "unat j = Suc n" "Name (rev ?E ! n) = Name f"
      "mj \<longrightarrow> Value (rev ?E ! n) = Value f \<and> \<not> Sensitive f" by (auto simp: dt_search_def)
    then show ?thesis
    proof cases
      case 1
      with idx static False show ?thesis by auto
    next
      case 2
      then have n: "n < length ?D" using D by simp
      have ij: "unat (j + 61) = Suc n + 61"
        using 2(2) n D by (simp add: unat_word_ariths)
      have "j \<noteq> 0" "j + 61 \<noteq> 0" using 2(2) ij by auto
      have "Decoder_at d (j + 61) = Some (?D ! (length ?D - Suc n))"
        using ij n mx by (simp add: Decoder_at_def Let_def word_less_nat_alt word_le_nat_alt)
      then have dyn: "\<exists>hf. Decoder_at d (j + 61) = Some hf \<and> Name hf = Name f \<and> j + 61 \<noteq> 0 \<and> unat (j + 61) < 2 ^ 63 \<and>
          (mj \<longrightarrow> Value hf = Value f \<and> \<not> Sensitive f)"
        using 2 rev_nth_suffix [OF sfx 2(1)] ij n D \<open>j + 61 \<noteq> 0\<close> by simp
      show ?thesis
      proof (cases "mj \<or> (i = 0 \<and> j \<noteq> 0)")
        case True
        with dyn idx show ?thesis by simp
      next
        case F: False
        with static False idx \<open>j \<noteq> 0\<close> show ?thesis by auto
      qed
    qed
  qed
qed

end
