(* ===== verification/Hpack_Roundtrip.thy ===== *)
theory Hpack_Roundtrip
  imports Hpack_Codec
begin

text \<open>
  The two ends of a compressed connection together: an encoder and a decoder that reads what the
  encoder wrote stay in step (\<open>in_step\<close>: the table of the encoder holds the newest entries of the
  table of the decoder), a decoder does not depend on how its input is cut into pieces, and its
  table keeps its bounds whatever it reads.
\<close>

section \<open>The invariant of a connection\<close>

definition in_step :: "HpackEncoder \<Rightarrow> Decoder \<Rightarrow> bool" where
  "in_step e d \<longleftrightarrow>
     dt_ok (e_dynTab e) \<and> dt_ok (d_dynTab d) \<and> suffix (ents (e_dynTab e)) (ents (d_dynTab d)) \<and>
     maxSizeLimit e \<le> allowedMaxSize (d_dynTab d) \<and>
     maxSize (e_dynTab e) \<le> allowedMaxSize (d_dynTab d) \<and>
     maxSize (d_dynTab d) \<le> allowedMaxSize (d_dynTab d) \<and>
     unat (allowedMaxSize (d_dynTab d)) < 2 ^ 31 \<and> saveBuf d = [] \<and>
     (if tableSizeUpdate e then tsum (ents (e_dynTab e)) \<le> unat (minSize e)
      else maxSize (e_dynTab e) \<le> maxSize (d_dynTab d) \<and> minSize e = uint32Max)"

lemma unat_uint32Max: "unat uint32Max = 2 ^ 32 - 1"
  by (simp add: uint32Max_def unsigned_minus_1_eq_mask mask_eq_exp_minus_1)

lemma tsum_keep: "tsum (keep mx es) \<le> tsum es"
  using keep_suffix tsum_suffix by blast

lemma keep_into: "suffix a b \<Longrightarrow> suffix (keep mx a) b"
  using keep_suffix suffix_order.trans by blast

lemma in_step_minSize: "in_step e d \<Longrightarrow> tsum (ents (e_dynTab e)) \<le> unat (minSize e)"
  using word32_less [of "maxSize (e_dynTab e)"]
  by (auto simp: in_step_def dt_ok_def unat_uint32Max split: if_splits)

lemma SetMaxDynamicTableSize_step:
  assumes "in_step e d"
  shows "\<exists>e'. SetMaxDynamicTableSize v e = Returns e' \<and> in_step e' d"
proof -
  define v' where "v' = (if v > maxSizeLimit e then maxSizeLimit e else v)"
  have ok: "dt_ok (e_dynTab e)" using assms by (simp add: in_step_def)
  obtain dt where dt: "setMaxSize v' (e_dynTab e) = Returns dt" "dt_ok dt"
      "ents dt = keep (unat v') (ents (e_dynTab e))" "maxSize dt = v'"
    using setMaxSize_keep [OF ok] by blast
  have "v' \<le> maxSizeLimit e" by (auto simp: v'_def)
  moreover have "tsum (ents dt) \<le> unat (if v' < minSize e then v' else minSize e)"
    using keep_fits [of "unat v'" "ents (e_dynTab e)"] in_step_minSize [OF assms]
      tsum_keep [of "unat v'" "ents (e_dynTab e)"] dt(3) by simp
  ultimately show ?thesis
    using assms dt keep_into unfolding in_step_def SetMaxDynamicTableSize_def
    by (auto simp: Let_def simp flip: v'_def)
qed

lemma SetMaxDynamicTableSizeLimit_step:
  assumes s: "in_step e d" and v: "v \<le> allowedMaxSize (d_dynTab d)"
  shows "\<exists>e'. SetMaxDynamicTableSizeLimit v e = Returns e' \<and> in_step e' d"
proof (cases "maxSize (e_dynTab e) > v")
  case True
  have ok: "dt_ok (e_dynTab e)" using s by (simp add: in_step_def)
  obtain dt where dt: "setMaxSize v (e_dynTab e) = Returns dt" "dt_ok dt"
      "ents dt = keep (unat v) (ents (e_dynTab e))" "maxSize dt = v"
    using setMaxSize_keep [OF ok] by blast
  have "tsum (ents dt) \<le> unat (minSize e)"
    using in_step_minSize [OF s] tsum_keep [of "unat v" "ents (e_dynTab e)"] dt(3) by simp
  then show ?thesis
    using s v dt True keep_into unfolding in_step_def SetMaxDynamicTableSizeLimit_def by auto
next
  case False
  then show ?thesis using s v by (auto simp: in_step_def SetMaxDynamicTableSizeLimit_def)
qed

section \<open>Decoding the field that was written\<close>

lemma Write_loop_step:
  assumes "parseHeaderFieldRepr d (b # p) = Some (Returns (Inr (d', fs, rest)))"
  shows "Decoder_Write_loop d (b # p) out = Decoder_Write_loop d' rest (out @ fs)"
  by (subst Decoder_Write_loop.simps) (simp add: assms)

text \<open>The table size updates at the start of a field.\<close>

lemma read_table_size:
  assumes "dt_ok (d_dynTab d)" and "v \<le> allowedMaxSize (d_dynTab d)" and "a = appendTableSize dst v"
  shows "\<exists>d' bs. a = dst @ bs \<and>
           (\<forall>rest out. Decoder_Write_loop d (bs @ rest) out = Decoder_Write_loop d' rest out) \<and>
           dt_ok (d_dynTab d') \<and> ents (d_dynTab d') = keep (unat v) (ents (d_dynTab d)) \<and> maxSize (d_dynTab d') = v \<and>
           allowedMaxSize (d_dynTab d') = allowedMaxSize (d_dynTab d) \<and> saveBuf d' = saveBuf d"
proof -
  obtain dt where dt: "setMaxSize v (d_dynTab d) = Returns dt" "dt_ok dt"
      "ents dt = keep (unat v) (ents (d_dynTab d))" "maxSize dt = v"
      "allowedMaxSize dt = allowedMaxSize (d_dynTab d)"
    using setMaxSize_keep [OF assms(1)] by blast
  have "Decoder_Write_loop d (((varint_hd 5 (ucast v) OR 0x20) # varint_tl 5 (ucast v)) @ rest) out =
      Decoder_Write_loop (d\<lparr>d_dynTab := dt\<rparr>) rest out" for rest out
    using Write_loop_step [OF parse_table_size [OF assms(2) dt(1)], of rest out] by simp
  with dt show ?thesis
    unfolding assms(3) append_reprs
    by (intro exI [of _ "d\<lparr>d_dynTab := dt\<rparr>"] exI [of _ "(varint_hd 5 (ucast v) OR 0x20) # varint_tl 5 (ucast v)"]) simp
qed

definition reads_as :: "Decoder \<Rightarrow> octet list \<Rightarrow> Decoder \<Rightarrow> HeaderField list \<Rightarrow> bool" where
  "reads_as d bs d' fs \<longleftrightarrow>
     (\<forall>rest out. length (bs @ rest) < 2 ^ 62 \<longrightarrow>
        Decoder_Write_loop d (bs @ rest) out = Decoder_Write_loop d' rest (out @ fs))"

lemma reads_as_Nil: "reads_as d [] d []"
  by (simp add: reads_as_def)

lemma reads_as_append: "reads_as d bs d' fs \<Longrightarrow> reads_as d' bs' d'' fs' \<Longrightarrow> reads_as d (bs @ bs') d'' (fs @ fs')"
  by (simp add: reads_as_def)

lemma table_updates_step:
  assumes s: "in_step e d" and u: "tableSizeUpdate e"
  defines "e1 \<equiv> e\<lparr>tableSizeUpdate := False, minSize := uint32Max\<rparr>"
  shows "\<exists>d1. in_step e1 d1 \<and> allowedMaxSize (d_dynTab d1) = allowedMaxSize (d_dynTab d) \<and>
           reads_as d (appendTableSize (if minSize e < maxSize (e_dynTab e) then appendTableSize [] (minSize e) else [])
                         (maxSize (e_dynTab e))) d1 []"
proof -
  let ?E = "ents (e_dynTab e)" and ?mx = "maxSize (e_dynTab e)" and ?A = "allowedMaxSize (d_dynTab d)"
  have E: "tsum ?E \<le> unat (minSize e)" "tsum ?E \<le> unat ?mx" "suffix ?E (ents (d_dynTab d))" "dt_ok (d_dynTab d)"
    using s u by (auto simp: in_step_def dt_ok_def)
  define a where "a = (if minSize e < ?mx then appendTableSize [] (minSize e) else [])"
  have "\<exists>d0. dt_ok (d_dynTab d0) \<and> suffix ?E (ents (d_dynTab d0)) \<and> allowedMaxSize (d_dynTab d0) = ?A \<and>
      saveBuf d0 = saveBuf d \<and> reads_as d a d0 []"
  proof (cases "minSize e < ?mx")
    case True
    then have "minSize e \<le> ?A" using s by (auto simp: in_step_def)
    from read_table_size [OF E(4) this refl, of "[]"] True show ?thesis
      using keep_longest [OF E(3,1)] by (auto simp: a_def reads_as_def)
  next
    case False
    then show ?thesis using E by (auto simp: a_def reads_as_def)
  qed
  then obtain d0 where d0: "dt_ok (d_dynTab d0)" "suffix ?E (ents (d_dynTab d0))" "allowedMaxSize (d_dynTab d0) = ?A"
      "saveBuf d0 = saveBuf d" "reads_as d a d0 []" by blast
  have "?mx \<le> allowedMaxSize (d_dynTab d0)" using s d0(3) by (simp add: in_step_def)
  then obtain d1 bs where d1: "appendTableSize a ?mx = a @ bs" "reads_as d0 bs d1 []" "dt_ok (d_dynTab d1)"
      "ents (d_dynTab d1) = keep (unat ?mx) (ents (d_dynTab d0))" "maxSize (d_dynTab d1) = ?mx"
      "allowedMaxSize (d_dynTab d1) = ?A" "saveBuf d1 = saveBuf d"
    using read_table_size [OF d0(1), of ?mx _ a] d0(3,4) by (auto simp: reads_as_def)
  have "suffix ?E (ents (d_dynTab d1))" using keep_longest [OF d0(2) E(2)] d1(4) by simp
  then have "in_step e1 d1" using s d1 by (simp add: in_step_def e1_def)
  moreover have "reads_as d (appendTableSize a ?mx) d1 []"
    using reads_as_append [OF d0(5) d1(2)] d1(1) by simp
  ultimately show ?thesis using d1(6) unfolding a_def by blast
qed

text \<open>One field when no update is pending.\<close>

lemma reads_asI:
  assumes "\<And>rest. length (b # p @ rest) < 2 ^ 62 \<Longrightarrow>
      parseHeaderFieldRepr d (b # p @ rest) = Some (Returns (Inr (d', fs, rest)))"
  shows "reads_as d (b # p) d' fs"
  unfolding reads_as_def using Write_loop_step [OF assms] by simp

lemma literal_table:
  assumes s: "in_step e d" and u: "\<not> tableSizeUpdate e" and f: "fsize f < 2 ^ 31"
  defines "indexing \<equiv> shouldIndex e f"
  shows "\<exists>et dt. (if indexing then dt_add f (e_dynTab e) else Returns (e_dynTab e)) = Returns et \<and>
           (if indexing then dt_add f (d_dynTab d) else Returns (d_dynTab d)) = Returns dt \<and>
           in_step (e\<lparr>e_dynTab := et\<rparr>) (d\<lparr>d_dynTab := dt\<rparr>) \<and>
           allowedMaxSize dt = allowedMaxSize (d_dynTab d)"
proof (cases indexing)
  case True
  let ?E = "e_dynTab e" and ?D = "d_dynTab d"
  have mx: "maxSize ?E \<le> maxSize ?D" "unat (maxSize ?D) < 2 ^ 31" "unat (maxSize ?E) < 2 ^ 31"
    using s u by (auto simp: in_step_def word_le_nat_alt)
  obtain et where et: "dt_add f ?E = Returns et" "dt_ok et" "ents et = keep (unat (maxSize ?E)) (ents ?E @ [f])"
      "maxSize et = maxSize ?E"
    using dt_add_keep [of ?E f] s f mx by (auto simp: in_step_def)
  obtain dt where dt: "dt_add f ?D = Returns dt" "dt_ok dt" "ents dt = keep (unat (maxSize ?D)) (ents ?D @ [f])"
      "maxSize dt = maxSize ?D" "allowedMaxSize dt = allowedMaxSize ?D"
    using dt_add_keep [of ?D f] s f mx by (auto simp: in_step_def)
  have "suffix (ents ?E @ [f]) (ents ?D @ [f])" using s by (auto simp: in_step_def suffix_def)
  then have "suffix (ents et) (ents dt)" using keep_mono mx(1) et(3) dt(3) by (simp add: word_le_nat_alt)
  then show ?thesis using s u et dt True by (auto simp: in_step_def)
next
  case False
  have "e\<lparr>e_dynTab := e_dynTab e\<rparr> = e" "d\<lparr>d_dynTab := d_dynTab d\<rparr> = d" by simp_all
  with False s show ?thesis by auto
qed

lemma plain_field: "\<not> Sensitive f \<Longrightarrow> \<lparr>Name = Name f, Value = Value f, Sensitive = False\<rparr> = f"
  by (cases f) simp

lemma read_new_name:
  assumes "indexing \<Longrightarrow> \<not> Sensitive f" and "fsize f < 2 ^ 31"
    and "(if indexing then dt_add f (d_dynTab d) else Returns (d_dynTab d)) = Returns dt"
  shows "reads_as d (encodeTypeByte indexing (Sensitive f) # hpack_string (Name f) @ hpack_string (Value f))
           (d\<lparr>d_dynTab := dt\<rparr>) [f]"
proof -
  let ?b = "encodeTypeByte indexing (Sensitive f)" and ?p = "literal_prefix indexing"
  let ?it = "literal_kind indexing (Sensitive f)"
  have len: "length (Name f) < 2 ^ 32" "length (Value f) < 2 ^ 32" using assms(2) by (auto simp: fsize_def)
  have zero: "varint_hd ?p 0 OR ?b = ?b" "varint_tl ?p 0 = []"
    by (auto simp: varint_hd_def varint_tl_def literal_prefix_def)
  have f: "f = \<lparr>Name = Name f, Value = Value f, Sensitive = Sensitive f\<rparr>" by simp
  have it: "(if indexed ?it then dt_add \<lparr>Name = Name f, Value = Value f, Sensitive = False\<rparr> (d_dynTab d)
      else Returns (d_dynTab d)) = Returns dt" "sensitive ?it = Sensitive f"
    using assms(1,3) by (auto simp: literal_kind_def indexed_def sensitive_def plain_field)
  show ?thesis
  proof (rule reads_asI)
    fix rest
    assume l: "length (?b # (hpack_string (Name f) @ hpack_string (Value f)) @ rest) < 2 ^ 62"
    let ?q = "hpack_string (Name f) @ hpack_string (Value f) @ rest"
    have "parseHeaderFieldRepr d (?b # ?q) = parseFieldLiteral ?p ?it d (?b # ?q)"
      using parse_literal_kind [of indexing "Sensitive f" d 0 ?q] assms(1) by (simp add: zero)
    moreover have "readVarInt ?p (?b # ?q) = Returns (Inr (0, ?q))"
      using read_literal_index [of indexing "Sensitive f" 0 ?q] assms(1) by (simp add: zero)
    moreover have "readString ?q = Some (Returns (Inr (Name f, hpack_string (Value f) @ rest)))"
      using l by (intro readString_hpack_string len) simp
    moreover have "literal_value d ?it (Name f) (hpack_string (Value f) @ rest) =
        Some (Returns (Inr (d\<lparr>d_dynTab := dt\<rparr>, [f], rest)))"
      using literal_value_string [OF len(2) _ it(1), of rest] l it(2) f by simp
    ultimately show "parseHeaderFieldRepr d (?b # (hpack_string (Name f) @ hpack_string (Value f)) @ rest) =
        Some (Returns (Inr (d\<lparr>d_dynTab := dt\<rparr>, [f], rest)))"
      by (simp add: parseFieldLiteral_def)
  qed
qed

lemma read_indexed_name:
  assumes "indexing \<Longrightarrow> \<not> Sensitive f" and "fsize f < 2 ^ 31"
    and "(if indexing then dt_add f (d_dynTab d) else Returns (d_dynTab d)) = Returns dt"
    and "Decoder_at d i = Some hf" and "Name hf = Name f" and "i \<noteq> 0" and "unat i < 2 ^ 63"
  shows "reads_as d ((varint_hd (literal_prefix indexing) i OR encodeTypeByte indexing (Sensitive f)) #
             varint_tl (literal_prefix indexing) i @ hpack_string (Value f))
           (d\<lparr>d_dynTab := dt\<rparr>) [f]"
proof -
  let ?p = "literal_prefix indexing"
  let ?b = "varint_hd ?p i OR encodeTypeByte indexing (Sensitive f)"
  let ?it = "literal_kind indexing (Sensitive f)"
  have len: "length (Value f) < 2 ^ 32" using assms(2) by (auto simp: fsize_def)
  have f: "f = \<lparr>Name = Name f, Value = Value f, Sensitive = Sensitive f\<rparr>" by simp
  have it: "(if indexed ?it then dt_add \<lparr>Name = Name f, Value = Value f, Sensitive = False\<rparr> (d_dynTab d)
      else Returns (d_dynTab d)) = Returns dt" "sensitive ?it = Sensitive f"
    using assms(1,3) by (auto simp: literal_kind_def indexed_def sensitive_def plain_field)
  have i: "i > 0" using assms(6) by (simp add: word_gt_0)
  show ?thesis
  proof (rule reads_asI)
    fix rest
    assume l: "length (?b # (varint_tl ?p i @ hpack_string (Value f)) @ rest) < 2 ^ 62"
    let ?q = "hpack_string (Value f) @ rest"
    have "parseHeaderFieldRepr d (?b # varint_tl ?p i @ ?q) = parseFieldLiteral ?p ?it d (?b # varint_tl ?p i @ ?q)"
      using assms(1) by (rule parse_literal_kind)
    moreover have "readVarInt ?p (?b # varint_tl ?p i @ ?q) = Returns (Inr (i, ?q))"
      using assms(1,7) by (rule read_literal_index)
    moreover have "literal_value d ?it (Name f) ?q = Some (Returns (Inr (d\<lparr>d_dynTab := dt\<rparr>, [f], rest)))"
      using literal_value_string [OF len _ it(1), of rest] l it(2) f by simp
    ultimately show "parseHeaderFieldRepr d (?b # (varint_tl ?p i @ hpack_string (Value f)) @ rest) =
        Some (Returns (Inr (d\<lparr>d_dynTab := dt\<rparr>, [f], rest)))"
      using assms(4,5) i by (simp add: parseFieldLiteral_def)
  qed
qed

lemma read_indexed:
  assumes "Decoder_at d i = Some hf" and "Name hf = Name f" and "Value hf = Value f" and "\<not> Sensitive f"
    and "unat i < 2 ^ 63"
  shows "reads_as d ((varint_hd 7 i OR 0x80) # varint_tl 7 i) d [f]"
proof (rule reads_asI)
  have f: "f = \<lparr>Name = Name f, Value = Value f, Sensitive = Sensitive f\<rparr>" by simp
  show "parseHeaderFieldRepr d ((varint_hd 7 i OR 0x80) # varint_tl 7 i @ rest) = Some (Returns (Inr (d, [f], rest)))" for rest
    using parse_indexed [OF assms(5,1)] assms f by simp
qed

text \<open>No representation is much longer than the field.\<close>

lemma length_appendVarInt_loop: "unat i < 2 ^ (7 * Suc k) \<Longrightarrow> length (appendVarInt_loop [] i) \<le> Suc k"
proof (induction k arbitrary: i)
  case 0
  then have "\<not> i \<ge> 128" by (simp add: word_le_nat_alt)
  then show ?case by (simp add: appendVarInt_loop.simps [of "[]" i])
next
  case (Suc k)
  show ?case
  proof (cases "i \<ge> 128")
    case True
    have "unat (drop_bit 7 i) < 2 ^ (7 * Suc k)"
      using Suc.prems by (simp add: drop_bit_eq_div unat_div div_less_iff_less_mult power_add)
    with Suc.IH [of "drop_bit 7 i"] True show ?thesis
      using appendVarInt_loop.simps [of "[]" i]
        appendVarInt_loop_append [of "[ucast (0x80 OR (i AND 0x7f))]" "drop_bit 7 i"] by simp
  next
    case False
    then show ?thesis by (simp add: appendVarInt_loop.simps [of "[]" i])
  qed
qed

lemma length_varint_tl: "length (varint_tl n i) \<le> 10"
proof -
  have "unat x < 2 ^ (7 * Suc 9)" for x :: "64 word"
    using unsigned_less [of x, where ?'a = nat] by simp
  from length_appendVarInt_loop [OF this] show ?thesis by (simp add: varint_tl_def)
qed

lemma length_hpack_string: "length s < 2 ^ 32 \<Longrightarrow> length (hpack_string s) \<le> length s + 11"
  using unat_HuffmanEncodeLength [of s] unat_of_nat_64 [of "length s"] length_varint_tl [of 7]
  by (auto simp: hpack_string_def appendHpackString_def Let_def appendVarInt_append word_less_nat_alt
      AppendHuffmanString_append [of "_ # _"] intro: add_mono le_trans)

lemma encode_field_step:
  assumes s: "in_step e d" and f: "fsize f < 2 ^ 31"
  shows "\<exists>e' d' bs. encode_field f e = Returns (e', bs) \<and> in_step e' d' \<and> reads_as d bs d' [f] \<and>
           allowedMaxSize (d_dynTab d') = allowedMaxSize (d_dynTab d) \<and> length bs \<le> fsize f + 60"
proof -
  note tl = length_varint_tl
  have str: "length (hpack_string (Name f)) \<le> length (Name f) + 11" "length (hpack_string (Value f)) \<le> length (Value f) + 11"
    using f by (auto intro!: length_hpack_string simp: fsize_def)
  define buf0 where "buf0 = (if tableSizeUpdate e
    then appendTableSize (if minSize e < maxSize (e_dynTab e) then appendTableSize [] (minSize e) else [])
           (maxSize (e_dynTab e)) else [])"
  define e1 where "e1 = (if tableSizeUpdate e then e\<lparr>tableSizeUpdate := False, minSize := uint32Max\<rparr> else e)"
  obtain d1 where d1: "in_step e1 d1" "allowedMaxSize (d_dynTab d1) = allowedMaxSize (d_dynTab d)" "reads_as d buf0 d1 []"
    using table_updates_step [OF s] s reads_as_Nil unfolding buf0_def e1_def by (cases "tableSizeUpdate e") auto
  have u1: "\<not> tableSizeUpdate e1" by (simp add: e1_def)
  have l0: "length buf0 \<le> 22"
    using tl [of 5 "ucast (minSize e)"] tl [of 5 "ucast (maxSize (e_dynTab e))"] by (simp add: buf0_def append_reprs)
  obtain idx m where st: "searchTable e1 f = (idx, m)" by (cases "searchTable e1 f")
  define indexing where "indexing = shouldIndex e1 f"
  have ix: "indexing \<Longrightarrow> \<not> Sensitive f" by (simp add: indexing_def shouldIndex_def)
  from searchTable_found [of e1 d1 f idx m] st d1(1)
  have found: "idx = 0 \<and> \<not> m \<or> (\<exists>hf. Decoder_at d1 idx = Some hf \<and> Name hf = Name f \<and> idx \<noteq> 0 \<and> unat idx < 2 ^ 63 \<and>
      (m \<longrightarrow> Value hf = Value f \<and> \<not> Sensitive f))" by (simp add: in_step_def)
  show ?thesis
  proof (cases m)
    case True
    with found obtain hf where hf: "Decoder_at d1 idx = Some hf" "Name hf = Name f" "Value hf = Value f"
        "\<not> Sensitive f" "unat idx < 2 ^ 63" by auto
    have "encode_field f e = Returns (e1, buf0 @ (varint_hd 7 idx OR 0x80) # varint_tl 7 idx)"
      using st True by (simp add: encode_field_def Let_def append_reprs flip: buf0_def e1_def)
    moreover have "reads_as d (buf0 @ (varint_hd 7 idx OR 0x80) # varint_tl 7 idx) d1 [f]"
      using reads_as_append [OF d1(3) read_indexed [OF hf]] by simp
    moreover have "length (buf0 @ (varint_hd 7 idx OR 0x80) # varint_tl 7 idx) \<le> fsize f + 60"
      using l0 tl [of 7 idx] by (simp add: fsize_def)
    ultimately show ?thesis using d1 by blast
  next
    case False
    obtain et dt where t: "(if indexing then dt_add f (e_dynTab e1) else Returns (e_dynTab e1)) = Returns et"
        "(if indexing then dt_add f (d_dynTab d1) else Returns (d_dynTab d1)) = Returns dt"
        "in_step (e1\<lparr>e_dynTab := et\<rparr>) (d1\<lparr>d_dynTab := dt\<rparr>)" "allowedMaxSize dt = allowedMaxSize (d_dynTab d1)"
      using literal_table [OF d1(1) u1 f] unfolding indexing_def by blast
    define bs where "bs = (if idx = 0
      then encodeTypeByte indexing (Sensitive f) # hpack_string (Name f) @ hpack_string (Value f)
      else (varint_hd (literal_prefix indexing) idx OR encodeTypeByte indexing (Sensitive f)) #
             varint_tl (literal_prefix indexing) idx @ hpack_string (Value f))"
    have "encode_field f e = Returns (e1\<lparr>e_dynTab := et\<rparr>, buf0 @ bs)"
      using st False t(1)
      by (simp add: encode_field_def Let_def append_reprs bs_def literal_prefix_def flip: buf0_def e1_def indexing_def)
    moreover have "reads_as d1 bs (d1\<lparr>d_dynTab := dt\<rparr>) [f]"
      using read_new_name [OF ix f t(2)] read_indexed_name [OF ix f t(2), of idx] found False
      by (auto simp: bs_def)
    moreover have "length (buf0 @ bs) \<le> fsize f + 60"
      using l0 tl [of "literal_prefix indexing" idx] str by (simp add: bs_def fsize_def)
    moreover have "reads_as d (buf0 @ bs) (d1\<lparr>d_dynTab := dt\<rparr>) [f]"
      using reads_as_append [OF d1(3) calculation(2)] by simp
    ultimately show ?thesis using t(3,4) d1(2) by (metis Decoder.select_convs(1) Decoder.surjective Decoder.update_convs(1))
  qed
qed

section \<open>Any sequence of calls\<close>

text \<open>The writer of the transports is a buffer, which accepts all that it is given.\<close>

definition accepts_all :: "octet list \<Rightarrow> int \<times> error option" where
  "accepts_all bs = (int (length bs), None)"

lemma WriteField_accepts_all:
  "encode_field f e = Returns (e', bs) \<Longrightarrow> WriteField accepts_all f e = Returns (None, e', bs)"
  by (simp add: WriteField_def accepts_all_def)

datatype enc_call = CallWriteField HeaderField | CallSetMax "32 word" | CallSetLimit "32 word"

fun enc_run :: "enc_call list \<Rightarrow> HpackEncoder \<Rightarrow> (HpackEncoder \<times> octet list) outcome" where
  "enc_run [] e = Returns (e, [])"
| "enc_run (CallWriteField f # cs) e =
     bind_outcome (WriteField accepts_all f e)
       (\<lambda>(err, e', bs). bind_outcome (enc_run cs e') (\<lambda>(e'', bs'). Returns (e'', bs @ bs')))"
| "enc_run (CallSetMax v # cs) e = bind_outcome (SetMaxDynamicTableSize v e) (enc_run cs)"
| "enc_run (CallSetLimit v # cs) e = bind_outcome (SetMaxDynamicTableSizeLimit v e) (enc_run cs)"

fun written_fields :: "enc_call list \<Rightarrow> HeaderField list" where
  "written_fields [] = []"
| "written_fields (CallWriteField f # cs) = f # written_fields cs"
| "written_fields (CallSetMax v # cs) = written_fields cs"
| "written_fields (CallSetLimit v # cs) = written_fields cs"

fun call_ok :: "32 word \<Rightarrow> enc_call \<Rightarrow> bool" where
  "call_ok A (CallWriteField f) \<longleftrightarrow> fsize f < 2 ^ 31"
| "call_ok A (CallSetMax v) \<longleftrightarrow> True"
| "call_ok A (CallSetLimit v) \<longleftrightarrow> v \<le> A"

lemma enc_run_step:
  assumes "in_step e d" and "list_all (call_ok (allowedMaxSize (d_dynTab d))) cs"
  shows "\<exists>e' d' bs. enc_run cs e = Returns (e', bs) \<and> in_step e' d' \<and> reads_as d bs d' (written_fields cs) \<and>
           length bs \<le> length cs * 2 ^ 32"
  using assms
proof (induction cs e arbitrary: d rule: enc_run.induct)
  case (1 e)
  then show ?case using reads_as_Nil by auto
next
  case (2 f cs e)
  then obtain e1 d1 bs where e1: "encode_field f e = Returns (e1, bs)" "in_step e1 d1" "reads_as d bs d1 [f]"
      "allowedMaxSize (d_dynTab d1) = allowedMaxSize (d_dynTab d)" "length bs \<le> fsize f + 60"
    using encode_field_step [of e d f] by auto
  with 2 WriteField_accepts_all [OF e1(1)] obtain e' d' bs' where e': "enc_run cs e1 = Returns (e', bs')" "in_step e' d'" "reads_as d1 bs' d' (written_fields cs)"
      "length bs' \<le> length cs * 2 ^ 32"
    by fastforce
  moreover have "length (bs @ bs') \<le> length (CallWriteField f # cs) * 2 ^ 32"
    using e1(5) e'(4) "2.prems"(2) by simp
  ultimately show ?case
    using e1 reads_as_append [OF e1(3) e'(3)] by (auto simp: WriteField_accepts_all)
next
  case (3 v cs e)
  obtain e1 where e1: "SetMaxDynamicTableSize v e = Returns e1" "in_step e1 d"
    using SetMaxDynamicTableSize_step [OF 3(2)] by blast
  from "3.IH" [OF e1(2)] "3.prems"(2) e1(1) show ?case by fastforce
next
  case (4 v cs e)
  obtain e1 where e1: "SetMaxDynamicTableSizeLimit v e = Returns e1" "in_step e1 d"
    using SetMaxDynamicTableSizeLimit_step [OF 4(2)] "4.prems"(2) by auto
  from "4.IH" [OF e1(2)] "4.prems"(2) e1(1) show ?case by fastforce
qed

lemma fresh_tables:
  "setMaxSize v \<lparr>ents = [], dt_size = 0, maxSize = m, allowedMaxSize = a\<rparr> =
     Returns \<lparr>ents = [], dt_size = 0, maxSize = v, allowedMaxSize = a\<rparr>"
  by (simp add: setMaxSize_def evict_def evict_loop.simps)

lemma new_in_step:
  assumes "4096 \<le> A" and "unat A < 2 ^ 31"
  shows "\<exists>e d. NewEncoder = Returns e \<and> NewDecoder A = Returns d \<and> in_step e d \<and>
           allowedMaxSize (d_dynTab d) = A"
  using assms by (auto simp: NewEncoder_def NewDecoder_def fresh_tables in_step_def dt_ok_def
      initialHeaderTableSize_def word_le_nat_alt)

section \<open>Input in pieces\<close>

text \<open>
  The contract of a parser that can be restarted: what it answers on a buffer it also answers on a
  longer buffer, unless it asks for more; and what a loop over such a parser, which saves the bytes
  it could not parse, makes of it.
\<close>

locale incremental_parser =
  fixes parse :: "'s \<Rightarrow> 'b list \<Rightarrow> ('e + 's \<times> 'o list \<times> 'b list) outcome option"
    and more :: 'e
    and save :: "'s \<Rightarrow> 'b list \<Rightarrow> 's"
    and saved :: "'s \<Rightarrow> 'b list"
    and loop :: "'s \<Rightarrow> 'b list \<Rightarrow> 'o list \<Rightarrow> ('e option \<times> 's \<times> 'o list) outcome option"
    and limit :: nat
  assumes total: "p \<noteq> [] \<Longrightarrow> length p < limit \<Longrightarrow> \<exists>r. parse s p = Some r"
    and success: "p \<noteq> [] \<Longrightarrow> length (p @ q) < limit \<Longrightarrow> parse s p = Some (Returns (Inr (s', fs, u))) \<Longrightarrow>
      parse s (p @ q) = Some (Returns (Inr (s', fs, u @ q)))"
    and shrinks: "p \<noteq> [] \<Longrightarrow> length p < limit \<Longrightarrow> parse s p = Some (Returns (Inr (s', fs, u))) \<Longrightarrow> length u < length p"
    and failure: "p \<noteq> [] \<Longrightarrow> length (p @ q) < limit \<Longrightarrow> parse s p = Some (Returns (Inl e)) \<Longrightarrow> e \<noteq> more \<Longrightarrow>
      parse s (p @ q) = Some (Returns (Inl e))"
    and crash: "p \<noteq> [] \<Longrightarrow> length (p @ q) < limit \<Longrightarrow> parse s p = Some r \<Longrightarrow> (\<And>x. r \<noteq> Returns x) \<Longrightarrow>
      parse s (p @ q) = Some r"
    and saved_parse: "p \<noteq> [] \<Longrightarrow> length p < limit \<Longrightarrow> parse s p = Some (Returns (Inr (s', fs, u))) \<Longrightarrow> saved s' = saved s"
    and loop_Nil: "loop s [] out = Some (Returns (None, s, out))"
    and loop_Cons: "p \<noteq> [] \<Longrightarrow> loop s p out =
      (case parse s p of
         None \<Rightarrow> None
       | Some (Panics m) \<Rightarrow> Some (Panics m)
       | Some (Exits m) \<Rightarrow> Some (Exits m)
       | Some (Returns (Inl e)) \<Rightarrow>
           if e = more then Some (Returns (None, save s p, out)) else Some (Returns (Some e, s, out))
       | Some (Returns (Inr (s', fs, u))) \<Rightarrow> loop s' u (out @ fs))"
begin

lemma loop_total: "length p < limit \<Longrightarrow> \<exists>r. loop s p out = Some r"
proof (induction "length p" arbitrary: s p out rule: less_induct)
  case less
  show ?case
  proof (cases "p = []")
    case False
    with total less.prems obtain r where r: "parse s p = Some r" by blast
    show ?thesis
    proof (cases "\<exists>s' fs q. r = Returns (Inr (s', fs, q))")
      case True
      then obtain s' fs q where "parse s p = Some (Returns (Inr (s', fs, q)))" using r by blast
      with less.hyps [of q s' "out @ fs"] less.prems shrinks [OF False less.prems this] loop_Cons [OF False, of s out] show ?thesis by simp
    next
      case F: False
      with r loop_Cons [OF False, of s out] show ?thesis by (auto split: outcome.splits sum.splits)
    qed
  qed (simp add: loop_Nil)
qed

text \<open>What was emitted before does not matter.\<close>

lemma loop_out: "length p < limit \<Longrightarrow> loop s p (out @ out') = map_option (map_outcome (\<lambda>(e, s', o'). (e, s', out @ o'))) (loop s p out')"
proof (induction "length p" arbitrary: s p out' rule: less_induct)
  case less
  show ?case
  proof (cases "p = []")
    case False
    with total less.prems obtain r where r: "parse s p = Some r" by blast
    show ?thesis
    proof (cases "\<exists>s' fs q. r = Returns (Inr (s', fs, q))")
      case True
      then obtain s' fs q where "parse s p = Some (Returns (Inr (s', fs, q)))" using r by blast
      with less.hyps [of q s' "out' @ fs"] less.prems shrinks [OF False less.prems this] loop_Cons [OF False] show ?thesis by simp
    next
      case F: False
      with r loop_Cons [OF False] show ?thesis by (auto split: outcome.splits sum.splits)
    qed
  qed (simp add: loop_Nil)
qed

text \<open>The loop over a longer buffer goes on where the loop over the shorter one stopped.\<close>

lemma loop_parsed:
  assumes "p \<noteq> []" and "length (p @ q) < limit" and "parse s p = Some (Returns (Inr (s', fs, u)))"
  shows "loop s p out = loop s' u (out @ fs)" and "loop s (p @ q) out = loop s' (u @ q) (out @ fs)"
    and "length u < length p" and "length (u @ q) < limit" and "saved s' = saved s"
  using loop_Cons [OF assms(1)] loop_Cons [of "p @ q"] assms success [OF assms] shrinks [OF assms(1) _ assms(3)]
    saved_parse [OF assms(1) _ assms(3)] by simp_all

lemma parse_cases:
  assumes "p \<noteq> []" and "length p < limit"
  obtains (Parsed) s' fs u where "parse s p = Some (Returns (Inr (s', fs, u)))"
    | (More) "parse s p = Some (Returns (Inl more))"
    | (Failed) e where "parse s p = Some (Returns (Inl e))" "e \<noteq> more"
    | (Crashed) r where "parse s p = Some r" "\<And>x. r \<noteq> Returns x"
proof -
  obtain r where r: "parse s p = Some r" using total [OF assms] by blast
  show ?thesis
  proof (cases r)
    case (Returns x)
    then show ?thesis using r that by (cases x) auto
  qed (use r that in auto)
qed

lemma loop_append_more:
  assumes "length (p @ q) < limit" and "loop s p out = Some (Returns (None, s', out'))"
  shows "\<exists>s1 left. (left = [] \<and> s' = s1 \<or> left \<noteq> [] \<and> s' = save s1 left) \<and> saved s1 = saved s \<and>
           loop s (p @ q) out = loop s1 (left @ q) out' \<and> length left \<le> length p"
  using assms
proof (induction "length p" arbitrary: s p out rule: less_induct)
  case less
  have shorter: "length p < limit" using less.prems(1) by simp
  show ?case
  proof (cases "p = []")
    case True
    then show ?thesis using less.prems by (auto simp: loop_Nil)
  next
    case False
    then show ?thesis
    proof (cases rule: parse_cases [OF False shorter, of s, case_names Parsed More Failed Crashed])
      case (Parsed s1 fs u)
      note l = loop_parsed [OF False less.prems(1) Parsed]
      from less.hyps [OF l(3,4), of s1 "out @ fs"] less.prems(2) l(1)
      obtain s2 left where "left = [] \<and> s' = s2 \<or> left \<noteq> [] \<and> s' = save s2 left" "saved s2 = saved s1"
          "loop s1 (u @ q) (out @ fs) = loop s2 (left @ q) out'" "length left \<le> length u" by auto
      with l(2,3,5) show ?thesis by (intro exI [of _ s2] exI [of _ left]) simp
    next
      case More
      then have "s' = save s p" "out' = out" using less.prems(2) loop_Cons [OF False, of s out] by auto
      with False show ?thesis by (intro exI [of _ s] exI [of _ p]) simp
    next
      case (Failed e)
      then show ?thesis using less.prems(2) loop_Cons [OF False, of s out] by simp
    next
      case (Crashed r)
      then show ?thesis using less.prems(2) loop_Cons [OF False, of s out] by (cases r) auto
    qed
  qed
qed

lemma loop_append_stop:
  assumes "length (p @ q) < limit" and "loop s p out = Some r" and "\<And>s' out'. r \<noteq> Returns (None, s', out')"
  shows "loop s (p @ q) out = Some r"
  using assms(1,2)
proof (induction "length p" arbitrary: s p out rule: less_induct)
  case less
  have shorter: "length p < limit" using less.prems(1) by simp
  show ?case
  proof (cases "p = []")
    case True
    then show ?thesis using less.prems assms(3) by (auto simp: loop_Nil)
  next
    case False
    then have pq: "p @ q \<noteq> []" by simp
    note eqs = loop_Cons [OF False, of s out] loop_Cons [OF pq, of s out]
    show ?thesis
    proof (cases rule: parse_cases [OF False shorter, of s, case_names Parsed More Failed Crashed])
      case (Parsed s1 fs u)
      note l = loop_parsed [OF False less.prems(1) Parsed]
      from less.hyps [OF l(3,4), of s1 "out @ fs"] less.prems(2) l(1,2) show ?thesis by simp
    next
      case More
      then show ?thesis using less.prems(2) eqs assms(3) by auto
    next
      case (Failed e)
      then show ?thesis using less.prems eqs failure [OF False less.prems(1) Failed] by simp
    next
      case (Crashed u)
      then show ?thesis using less.prems eqs crash [OF False less.prems(1) Crashed] by (cases u) auto
    qed
  qed
qed

end

section \<open>The parser can be restarted\<close>

lemma readVarInt_loop_ext:
  "readVarInt_loop i m p = Inr (j, u) \<Longrightarrow> readVarInt_loop i m (p @ q) = Inr (j, u @ q) \<and> length u < length p"
  "readVarInt_loop i m p = Inl e \<Longrightarrow> e \<noteq> errNeedMore \<Longrightarrow> readVarInt_loop i m (p @ q) = Inl e"
  by (induction i m p rule: readVarInt_loop.induct) (auto simp: Let_def split: if_splits)

lemma readVarInt_ext:
  "readVarInt n p = Returns (Inr (j, u)) \<Longrightarrow> readVarInt n (p @ q) = Returns (Inr (j, u @ q)) \<and> length u < length p"
  "readVarInt n p = Returns (Inl e) \<Longrightarrow> e \<noteq> errNeedMore \<Longrightarrow> readVarInt n (p @ q) = Returns (Inl e)"
  "readVarInt n p = Panics m \<Longrightarrow> readVarInt n (p @ q) = Panics m"
  "readVarInt n p \<noteq> Exits m"
  using readVarInt_loop_ext
  by (auto simp: readVarInt_def Let_def split: if_splits list.splits intro: less_SucI)

lemma of_nat_less_length:
  assumes "k \<le> n" and "n < 2 ^ 62"
  shows "\<not> of_nat k < (x :: 64 word) \<Longrightarrow> \<not> of_nat n < x" and "\<not> of_nat k < x \<Longrightarrow> unat x \<le> k"
  using assms unat_of_nat_64 [of k] unat_of_nat_64 [of n] by (auto simp: word_less_nat_alt)

lemma readString_ext:
  assumes len: "length (p @ q) < 2 ^ 62"
  shows "readString p = Some (Returns (Inr (s, u))) \<Longrightarrow>
           readString (p @ q) = Some (Returns (Inr (s, u @ q))) \<and> length u < length p"
    and "readString p = Some (Returns (Inl e)) \<Longrightarrow> e \<noteq> errNeedMore \<Longrightarrow> readString (p @ q) = Some (Returns (Inl e))"
    and "readString p = Some r \<Longrightarrow> (\<And>x. r \<noteq> Returns x) \<Longrightarrow> readString (p @ q) = Some r"
    and "\<exists>r. readString p = Some r"
proof -
  have "(case readString p of
      None \<Rightarrow> False
    | Some (Returns (Inr (s, u))) \<Rightarrow> readString (p @ q) = Some (Returns (Inr (s, u @ q))) \<and> length u < length p
    | Some (Returns (Inl e)) \<Rightarrow> e \<noteq> errNeedMore \<longrightarrow> readString (p @ q) = Some (Returns (Inl e))
    | Some r \<Rightarrow> readString (p @ q) = Some r)"
  proof (cases p)
    case Nil
    then show ?thesis by (simp add: readString_def)
  next
    case (Cons b p')
    show ?thesis
    proof (cases "readVarInt 7 p")
      case (Panics m)
      with readVarInt_ext(3) [OF this, of q] Cons show ?thesis by (simp add: readString_def)
    next
      case (Exits m)
      then show ?thesis using readVarInt_ext(4) by blast
    next
      case (Returns x)
      show ?thesis
      proof (cases x)
        case (Inl e)
        with Returns readVarInt_ext(2) [of 7 p e q] Cons show ?thesis by (auto simp: readString_def)
      next
        case (Inr y)
        obtain n u where y: "y = (n, u)" by (cases y)
        have v: "readVarInt 7 p = Returns (Inr (n, u))" using Returns Inr y by simp
        note ext = readVarInt_ext(1) [OF v, of q]
        show ?thesis
        proof (cases "of_nat (length u) < n")
          case True
          with v Cons show ?thesis by (simp add: readString_def)
        next
          case False
          have n: "unat n \<le> length u" "\<not> of_nat (length u + length q) < n"
            using of_nat_less_length [of "length u" "length u + length q" n] False ext len by auto
          obtain r where r: "HuffmanDecode (take (unat n) u) = Some r" using HuffmanDecode_total by blast
          have p: "readString p = (if b AND 128 = 0 then Some (Returns (Inr (take (unat n) u, drop (unat n) u)))
              else (case r of Returns s \<Rightarrow> Some (Returns (Inr (s, drop (unat n) u))) | Panics m \<Rightarrow> Some (Panics m)
                    | Exits m \<Rightarrow> Some (Exits m)))"
            using v False Cons r by (simp add: readString_def)
          have pq: "readString (p @ q) = (if b AND 128 = 0 then Some (Returns (Inr (take (unat n) u, drop (unat n) u @ q)))
              else (case r of Returns s \<Rightarrow> Some (Returns (Inr (s, drop (unat n) u @ q))) | Panics m \<Rightarrow> Some (Panics m)
                    | Exits m \<Rightarrow> Some (Exits m)))"
            using ext n Cons r by (cases r) (simp_all add: readString_def del: of_nat_add)
          show ?thesis unfolding p pq using ext by (cases r) auto
        qed
      qed
    qed
  qed
  then show "readString p = Some (Returns (Inr (s, u))) \<Longrightarrow>
        readString (p @ q) = Some (Returns (Inr (s, u @ q))) \<and> length u < length p"
    "readString p = Some (Returns (Inl e)) \<Longrightarrow> e \<noteq> errNeedMore \<Longrightarrow> readString (p @ q) = Some (Returns (Inl e))"
    "readString p = Some r \<Longrightarrow> (\<And>x. r \<noteq> Returns x) \<Longrightarrow> readString (p @ q) = Some r"
    "\<exists>r. readString p = Some r"
    by (auto split: option.splits outcome.splits sum.splits)
qed

text \<open>The parsers answer the same on a longer buffer.\<close>

definition restartable :: "parsed \<Rightarrow> parsed \<Rightarrow> octet list \<Rightarrow> Decoder \<Rightarrow> nat \<Rightarrow> bool" where
  "restartable a b q d n \<longleftrightarrow>
     (case a of
        None \<Rightarrow> False
      | Some (Returns (Inr (d', fs, u))) \<Rightarrow>
          b = Some (Returns (Inr (d', fs, u @ q))) \<and> length u < n \<and> saveBuf d' = saveBuf d
      | Some (Returns (Inl e)) \<Rightarrow> e \<noteq> errNeedMore \<longrightarrow> b = a
      | Some r \<Rightarrow> b = a)"

lemma parseFieldIndexed_restartable:
  "restartable (parseFieldIndexed d p) (parseFieldIndexed d (p @ q)) q d (length p)"
  using readVarInt_ext(1-3) [where n = 7 and p = p and q = q] readVarInt_ext(4) [of 7 p]
  by (cases "readVarInt 7 p") (auto simp: restartable_def parseFieldIndexed_def split: sum.splits option.splits)

lemma literal_value_restartable:
  assumes "length (p @ q) < 2 ^ 62"
  shows "restartable (literal_value d it name p) (literal_value d it name (p @ q)) q d (length p)"
proof -
  obtain r where r: "readString p = Some r" using readString_ext(4) [OF assms] by blast
  show ?thesis
  proof (cases "\<exists>x. r = Returns x")
    case False
    with readString_ext(3) [OF assms r] r show ?thesis
      by (cases r) (auto simp: restartable_def literal_value_def)
  next
    case True
    with r readString_ext(1,2) [OF assms] show ?thesis
      by (auto simp: restartable_def literal_value_def Let_def split: sum.splits outcome.splits prod.splits)
  qed
qed

lemma restartable_shorter:
  "restartable a b q d m \<Longrightarrow> m \<le> n \<Longrightarrow> restartable a b q d n"
  by (auto simp: restartable_def split: option.splits outcome.splits sum.splits)

lemma parseDynamicTableSizeUpdate_restartable:
  "restartable (parseDynamicTableSizeUpdate d p) (parseDynamicTableSizeUpdate d (p @ q)) q d (length p)"
  using readVarInt_ext(1-3) [where n = 5 and p = p and q = q] readVarInt_ext(4) [of 5 p]
  by (cases "readVarInt 5 p")
    (auto simp: restartable_def parseDynamicTableSizeUpdate_def split: sum.splits outcome.splits)

lemma parseFieldLiteral_restartable:
  assumes len: "length (p @ q) < 2 ^ 62"
  shows "restartable (parseFieldLiteral n it d p) (parseFieldLiteral n it d (p @ q)) q d (length p)"
proof (cases "readVarInt n p")
  case (Panics m)
  with readVarInt_ext(3) [OF this, of q] show ?thesis by (simp add: restartable_def parseFieldLiteral_def)
next
  case (Exits m)
  then show ?thesis using readVarInt_ext(4) by blast
next
  case (Returns x)
  show ?thesis
  proof (cases x)
    case (Inl e)
    with Returns readVarInt_ext(2) [of n p e q] show ?thesis by (auto simp: restartable_def parseFieldLiteral_def)
  next
    case (Inr y)
    obtain i u where y: "y = (i, u)" by (cases y)
    have v: "readVarInt n p = Returns (Inr (i, u))" using Returns Inr y by simp
    note ext = readVarInt_ext(1) [OF v, of q]
    have len': "length (u @ q) < 2 ^ 62" using ext len by simp
    show ?thesis
    proof (cases "i > 0")
      case True
      show ?thesis
      proof (cases "Decoder_at d i")
        case None
        with True v ext show ?thesis by (simp add: restartable_def parseFieldLiteral_def)
      next
        case (Some hf)
        with True v ext restartable_shorter [OF literal_value_restartable [OF len', of d it "Name hf"]] show ?thesis
          by (simp add: parseFieldLiteral_def)
      qed
    next
      case False
      obtain r where r: "readString u = Some r" using readString_ext(4) [OF len'] by blast
      show ?thesis
      proof (cases "\<exists>name w. r = Returns (Inr (name, w))")
        case True
        then obtain name w where w: "readString u = Some (Returns (Inr (name, w)))" using r by blast
        note ext' = readString_ext(1) [OF len' w]
        have "length (w @ q) < 2 ^ 62" using ext' len' by simp
        from restartable_shorter [OF literal_value_restartable [OF this, of d it name], of "length p"]
        show ?thesis using False v w ext ext' by (simp add: parseFieldLiteral_def)
      next
        case F: False
        have "e \<noteq> errNeedMore \<Longrightarrow> r = Returns (Inl e) \<Longrightarrow> readString (u @ q) = Some (Returns (Inl e))" for e
          using readString_ext(2) [OF len'] r by blast
        moreover have "(\<And>x. r \<noteq> Returns x) \<Longrightarrow> readString (u @ q) = Some r"
          using readString_ext(3) [OF len' r] by blast
        ultimately show ?thesis
          using False v ext r F
          by (cases r) (auto simp: restartable_def parseFieldLiteral_def split: sum.splits)
      qed
    qed
  qed
qed

lemma parseHeaderFieldRepr_restartable:
  assumes "p \<noteq> []" and "length (p @ q) < 2 ^ 62"
  shows "restartable (parseHeaderFieldRepr d p) (parseHeaderFieldRepr d (p @ q)) q d (length p)"
proof -
  obtain b p' where p: "p = b # p'" using assms(1) by (cases p) auto
  have unknown: "restartable (Some (Returns (Inl e))) (Some (Returns (Inl e))) q d n" for e n
    by (simp add: restartable_def)
  note rest = parseFieldIndexed_restartable [of d p q] parseDynamicTableSizeUpdate_restartable [of d p q]
    parseFieldLiteral_restartable [OF assms(2), of _ _ d]
  show ?thesis
    using rest unknown by (simp add: parseHeaderFieldRepr_def p)
qed

interpretation hp: incremental_parser parseHeaderFieldRepr errNeedMore "\<lambda>d p. d\<lparr>saveBuf := p\<rparr>" saveBuf
  Decoder_Write_loop "2 ^ 62"
proof (unfold_locales, goal_cases)
  case (1 p s)
  then show ?case
    using parseHeaderFieldRepr_restartable [of p "[]" s] by (auto simp: restartable_def split: option.splits)
next
  case (2 p q s s' fs u)
  then show ?case using parseHeaderFieldRepr_restartable [of p q s] by (simp add: restartable_def)
next
  case (3 p s s' fs u)
  then show ?case using parseHeaderFieldRepr_restartable [of p "[]" s] by (simp add: restartable_def)
next
  case (4 p q s e)
  then show ?case using parseHeaderFieldRepr_restartable [of p q s] by (simp add: restartable_def)
next
  case (5 p q s r)
  then show ?case using parseHeaderFieldRepr_restartable [of p q s] by (cases r) (auto simp: restartable_def)
next
  case (6 p s s' fs u)
  then show ?case using parseHeaderFieldRepr_restartable [of p "[]" s] by (simp add: restartable_def)
next
  case (7 s out)
  then show ?case by (simp add: Decoder_Write_loop.simps)
next
  case (8 p s out)
  then show ?case by (simp add: Decoder_Write_loop.simps [of s p out])
qed

section \<open>Writing in pieces\<close>

definition after :: "HeaderField list \<Rightarrow> written \<Rightarrow> written" where
  "after fs = map_option (map_outcome (\<lambda>(e, d, gs). (e, d, fs @ gs)))"

lemma after_simps [simp]:
  "after fs (Some (Returns (e, d, gs))) = Some (Returns (e, d, fs @ gs))"
  "after fs (Some (Panics m)) = Some (Panics m)"
  "after fs (Some (Exits m)) = Some (Exits m)"
  "after fs None = None"
  by (simp_all add: after_def)

lemma after_Nil [simp]: "after [] r = r"
proof -
  have "(\<lambda>(e, d, gs). (e, d, [] @ gs)) = (id :: hpack_error option \<times> Decoder \<times> HeaderField list \<Rightarrow> _)"
    by auto
  then show ?thesis unfolding after_def by (simp add: outcome.map_id0 option.map_id0)
qed

lemma after_after: "after fs (after gs r) = after (fs @ gs) r"
  by (cases r) (auto simp: after_def outcome.map_comp comp_def split_def)

text \<open>A piece, then the rest: the calls stop at the first one that returns an error or crashes.\<close>

definition then_write :: "written \<Rightarrow> (Decoder \<Rightarrow> written) \<Rightarrow> written" where
  "then_write r k =
     (case r of Some (Returns (None, d', fs)) \<Rightarrow> after fs (k d') | _ \<Rightarrow> r)"

fun feed :: "Decoder \<Rightarrow> octet list list \<Rightarrow> written" where
  "feed d [] = Some (Returns (None, d, []))"
| "feed d (p # ps) = then_write (Decoder_Write d p) (\<lambda>d'. feed d' ps)"

lemma Write_eq:
  "p \<noteq> [] \<Longrightarrow> Decoder_Write d p = Decoder_Write_loop (d\<lparr>saveBuf := []\<rparr>) (saveBuf d @ p) []"
  by (simp add: Decoder_Write_def)

lemma no_saveBuf: "saveBuf d = [] \<Longrightarrow> d\<lparr>saveBuf := []\<rparr> = d"
  by (cases d) simp

lemma Write_append:
  assumes len: "length (saveBuf d @ p @ q) < 2 ^ 62"
  shows "Decoder_Write d (p @ q) = then_write (Decoder_Write d p) (\<lambda>d'. Decoder_Write d' q)"
proof (cases "p = [] \<or> q = []")
  case True
  then show ?thesis
    by (auto simp: then_write_def Decoder_Write_def split: option.splits outcome.splits)
next
  case False
  let ?d0 = "d\<lparr>saveBuf := []\<rparr>" and ?b = "saveBuf d @ p"
  have pq: "Decoder_Write d (p @ q) = Decoder_Write_loop ?d0 (?b @ q) []"
    and p: "Decoder_Write d p = Decoder_Write_loop ?d0 ?b []"
    using False by (simp_all add: Write_eq)
  have len': "length (?b @ q) < 2 ^ 62" using len by simp
  then obtain r where r: "Decoder_Write_loop ?d0 ?b [] = Some r" using hp.loop_total [of ?b ?d0 "[]"] by auto
  show ?thesis
  proof (cases "\<exists>d' fs. r = Returns (None, d', fs)")
    case True
    then obtain d' fs where d': "Decoder_Write_loop ?d0 ?b [] = Some (Returns (None, d', fs))" using r by blast
    from hp.loop_append_more [OF len' this] obtain d1 left where
      d1: "left = [] \<and> d' = d1 \<or> left \<noteq> [] \<and> d' = d1\<lparr>saveBuf := left\<rparr>" "saveBuf d1 = []"
        "Decoder_Write_loop ?d0 (?b @ q) [] = Decoder_Write_loop d1 (left @ q) fs" "length left \<le> length ?b" by auto
    have "saveBuf d' = left" "d'\<lparr>saveBuf := []\<rparr> = d1" using d1(1,2) no_saveBuf by auto
    then have "Decoder_Write d' q = Decoder_Write_loop d1 (left @ q) []" using False by (simp add: Write_eq)
    moreover have "Decoder_Write_loop d1 (left @ q) fs = after fs (Decoder_Write_loop d1 (left @ q) [])"
      using hp.loop_out [of "left @ q" d1 fs "[]"] len' d1(4) by (simp add: after_def)
    ultimately show ?thesis using d' d1(3) by (simp add: pq p then_write_def)
  next
    case F: False
    with hp.loop_append_stop [OF len' r] r show ?thesis
      by (auto simp: pq p then_write_def split: option.splits outcome.splits)
  qed
qed

lemma Write_saved:
  assumes "length (saveBuf d @ p) < 2 ^ 62" and "Decoder_Write d p = Some (Returns (None, d', fs))"
  shows "length (saveBuf d') \<le> length (saveBuf d @ p)"
proof (cases "p = []")
  case True
  then show ?thesis using assms(2) by (simp add: Decoder_Write_def)
next
  case False
  from assms have l: "Decoder_Write_loop (d\<lparr>saveBuf := []\<rparr>) (saveBuf d @ p) [] = Some (Returns (None, d', fs))"
    using False by (simp add: Write_eq)
  have len: "length ((saveBuf d @ p) @ []) < 2 ^ 62" using assms(1) by simp
  from hp.loop_append_more [OF len l] show ?thesis by auto
qed

lemma feed_concat:
  assumes "length (saveBuf d @ concat ps) < 2 ^ 62"
  shows "feed d ps = Decoder_Write d (concat ps)"
  using assms
proof (induction ps arbitrary: d)
  case (Cons p ps)
  have "Decoder_Write d (p @ concat ps) = then_write (Decoder_Write d p) (\<lambda>d'. Decoder_Write d' (concat ps))"
    using Cons.prems by (intro Write_append) simp
  moreover have "feed d' ps = Decoder_Write d' (concat ps)" if "Decoder_Write d p = Some (Returns (None, d', fs))" for d' fs
    using Write_saved [OF _ that] Cons.prems by (intro Cons.IH) simp
  ultimately show ?case
    by (auto simp: then_write_def split: option.splits outcome.splits)
qed (simp add: Decoder_Write_def)

lemma in_step_reads:
  assumes "in_step e d" and "reads_as d bs d' fs" and "length bs < 2 ^ 62" and "in_step e' d'"
  shows "Decoder_Write d bs = Some (Returns (None, d', fs))"
proof (cases "bs = []")
  case False
  have "saveBuf d = []" using assms(1) by (simp add: in_step_def)
  then have "Decoder_Write d bs = Decoder_Write_loop d (bs @ []) []"
    using False by (simp add: Write_eq no_saveBuf)
  also have "\<dots> = Decoder_Write_loop d' [] ([] @ fs)"
    using assms(2,3) unfolding reads_as_def by (metis append_Nil2)
  finally show ?thesis by (simp add: hp.loop_Nil)
next
  case True
  have "Decoder_Write_loop d [] [] = Decoder_Write_loop d' [] fs" 
    using assms(2) True unfolding reads_as_def by (metis append_Nil append_Nil2 list.size(3) zero_less_numeral zero_less_power)
  then show ?thesis using True by (simp add: hp.loop_Nil Decoder_Write_def)
qed

section \<open>Whatever is read, the table keeps its bounds\<close>

text \<open>
  The size of the table is the sum of the sizes of its entries, without wrap-around, within the
  current maximum and that within the allowed one. The bounds on the lengths keep the sum of a
  table and a new entry below $2^{32}$: a name may come from the table, a value is at most one
  byte for every bit of the input.
\<close>

definition dec_ok :: "Decoder \<Rightarrow> bool" where
  "dec_ok d \<longleftrightarrow> dt_ok (d_dynTab d) \<and> maxSize (d_dynTab d) \<le> allowedMaxSize (d_dynTab d) \<and>
     unat (allowedMaxSize (d_dynTab d)) < 2 ^ 30"

definition parse_safe :: "Decoder \<Rightarrow> parsed \<Rightarrow> bool" where
  "parse_safe d r \<longleftrightarrow>
     (case r of
        None \<Rightarrow> False
      | Some (Panics m) \<Rightarrow> m = ''nil pointer dereference''
      | Some (Exits m) \<Rightarrow> False
      | Some (Returns (Inl e)) \<Rightarrow> True
      | Some (Returns (Inr (d', fs, u))) \<Rightarrow> dec_ok d' \<and> allowedMaxSize (d_dynTab d') = allowedMaxSize (d_dynTab d))"

lemma static_names: "list_all (\<lambda>hf. length (Name hf) < 64) staticTable"
  by (simp add: staticTable_def pair_def octets_def)

lemma tsum_member: "hf \<in> set es \<Longrightarrow> fsize hf \<le> tsum es"
  by (induction es) auto

lemma Decoder_at_name:
  assumes ok: "dec_ok d" and hf: "Decoder_at d i = Some hf"
  shows "length (Name hf) < 2 ^ 30"
proof (cases "i \<le> of_nat (length staticTable)")
  case True
  then have "i \<noteq> 0" "unat i \<le> 61" using hf by (auto simp: Decoder_at_def word_le_nat_alt split: if_splits)
  then have "unat i - 1 < length staticTable" by (simp add: unat_gt_0)
  then have "staticTable ! (unat i - 1) \<in> set staticTable" by (rule nth_mem)
  moreover have "hf = staticTable ! (unat i - 1)" using hf True by (auto simp: Decoder_at_def split: if_splits)
  ultimately show ?thesis using static_names by (auto simp: list_all_iff)
next
  case False
  let ?D = "ents (d_dynTab d)"
  have dt: "dt_ok (d_dynTab d)" using ok by (simp add: dec_ok_def)
  have "unat (of_nat (maxTableIndex d) :: 64 word) = length ?D + 61"
    unfolding maxTableIndex_def using table_short [OF dt] by (subst unat_of_nat_64) simp_all
  then have "61 < unat i" "unat i \<le> length ?D + 61" and nth: "hf = ?D ! (length ?D - (unat i - 61))"
    using False hf by (auto simp: Decoder_at_def Let_def word_le_nat_alt not_less split: if_splits)
  then have "hf \<in> set ?D" by (auto intro!: nth_mem)
  then have "fsize hf \<le> unat (maxSize (d_dynTab d))" using tsum_member dt by (fastforce simp: dt_ok_def)
  then show ?thesis using ok by (simp add: dec_ok_def fsize_def word_le_nat_alt)
qed

lemma readVarInt_returns: "1 \<le> n \<Longrightarrow> n \<le> 8 \<Longrightarrow> \<exists>x. readVarInt n p = Returns x"
  by (simp add: readVarInt_def)

lemma readString_result:
  assumes len: "length p < 2 ^ 62"
  shows "\<exists>r. readString p = Some r \<and>
           (case r of Panics m \<Rightarrow> m = ''nil pointer dereference'' | Exits m \<Rightarrow> False
            | Returns (Inl e) \<Rightarrow> True | Returns (Inr (s, u)) \<Rightarrow> length s \<le> 8 * length p \<and> length u < length p)"
proof (cases p)
  case Nil
  then show ?thesis by (simp add: readString_def)
next
  case (Cons b p')
  obtain x where x: "readVarInt 7 p = Returns x" using readVarInt_returns [of 7 p] by auto
  show ?thesis
  proof (cases x)
    case (Inl e)
    with x Cons show ?thesis by (simp add: readString_def)
  next
    case (Inr y)
    obtain n u where y: "y = (n, u)" by (cases y)
    have u: "length u < length p" using readVarInt_ext(1) [of 7 p n u "[]"] x Inr y by simp
    obtain r where r: "HuffmanDecode (take (unat n) u) = Some r" "decode_result (8 * length (take (unat n) u)) r"
      using HuffmanDecode_total by blast
    show ?thesis
      using x Inr y Cons u r by (cases r) (auto simp: readString_def decode_result_def)
  qed
qed

lemma literal_value_safe:
  assumes ok: "dec_ok d" and name: "length name < 2 ^ 30" and len: "length p < 2 ^ 26"
  shows "parse_safe d (literal_value d it name p)"
proof -
  obtain r where r: "readString p = Some r"
      "case r of Panics m \<Rightarrow> m = ''nil pointer dereference'' | Exits m \<Rightarrow> False
       | Returns (Inl e) \<Rightarrow> True | Returns (Inr (s, u)) \<Rightarrow> length s \<le> 8 * length p \<and> length u < length p"
    using readString_result [of p] len by auto
  show ?thesis
  proof (cases "\<exists>s u. r = Returns (Inr (s, u))")
    case True
    then obtain s u where s: "readString p = Some (Returns (Inr (s, u)))" "length s \<le> 8 * length p" using r by auto
    let ?f = "\<lparr>Name = name, Value = s, Sensitive = False\<rparr>"
    have mx: "unat (maxSize (d_dynTab d)) < 2 ^ 30" using ok by (auto simp: dec_ok_def word_le_nat_alt)
    then have "unat (maxSize (d_dynTab d)) + fsize ?f < 2 ^ 32"
      using s(2) len name by (simp add: fsize_def)
    then obtain dt where "dt_add ?f (d_dynTab d) = Returns dt" "dt_ok dt" "maxSize dt = maxSize (d_dynTab d)"
        "allowedMaxSize dt = allowedMaxSize (d_dynTab d)"
      using dt_add_keep [of "d_dynTab d" ?f] ok by (auto simp: dec_ok_def)
    with ok s(1) show ?thesis by (auto simp: parse_safe_def literal_value_def Let_def dec_ok_def)
  next
    case False
    with r show ?thesis
      by (cases r) (auto simp: parse_safe_def literal_value_def split: sum.splits)
  qed
qed

lemma parseFieldLiteral_safe:
  assumes ok: "dec_ok d" and n: "1 \<le> n" "n \<le> 8" and len: "length p < 2 ^ 26"
  shows "parse_safe d (parseFieldLiteral n it d p)"
proof -
  obtain x where x: "readVarInt n p = Returns x" using readVarInt_returns [OF n] by blast
  show ?thesis
  proof (cases x)
    case (Inl e)
    with x show ?thesis by (simp add: parse_safe_def parseFieldLiteral_def)
  next
    case (Inr y)
    obtain i u where y: "y = (i, u)" by (cases y)
    have u: "length u < length p" using readVarInt_ext(1) [of n p i u "[]"] x Inr y by simp
    obtain r where r: "readString u = Some r"
        "case r of Panics m \<Rightarrow> m = ''nil pointer dereference'' | Exits m \<Rightarrow> False
         | Returns (Inl e) \<Rightarrow> True | Returns (Inr (s, w)) \<Rightarrow> length s \<le> 8 * length u \<and> length w < length u"
      using readString_result [of u] u len by auto
    show ?thesis
    proof (cases "i > 0")
      case True
      then show ?thesis
        using x Inr y u len ok Decoder_at_name [OF ok, of i] literal_value_safe [OF ok, of _ u it]
        by (cases "Decoder_at d i") (simp_all add: parseFieldLiteral_def parse_safe_def)
    next
      case F: False
      show ?thesis
      proof (cases "\<exists>s w. r = Returns (Inr (s, w))")
        case True
        then obtain s w where s: "r = Returns (Inr (s, w))" by blast
        with r u len literal_value_safe [OF ok, of s w it] show ?thesis
          using F x Inr y by (simp add: parseFieldLiteral_def)
      next
        case False
        with r F x Inr y show ?thesis
          by (cases r) (auto simp: parse_safe_def parseFieldLiteral_def split: sum.splits)
      qed
    qed
  qed
qed

lemma ucast_less_eq: "size' \<le> (ucast A :: 64 word) \<Longrightarrow> ucast size' \<le> A" for A :: "32 word"
proof -
  assume "size' \<le> (ucast A :: 64 word)"
  then have "unat size' \<le> unat A"
    using word32_less [of A] by (simp add: word_le_nat_alt unsigned_ucast_eq take_bit_nat_eq_self)
  moreover have "unat (ucast size' :: 32 word) \<le> unat size'"
    by (simp add: unsigned_ucast_eq take_bit_nat_less_eq_self)
  ultimately show ?thesis by (simp add: word_le_nat_alt)
qed

lemma parseDynamicTableSizeUpdate_safe:
  assumes ok: "dec_ok d"
  shows "parse_safe d (parseDynamicTableSizeUpdate d p)"
proof -
  obtain x where x: "readVarInt 5 p = Returns x" using readVarInt_returns [of 5] by auto
  show ?thesis
  proof (cases x)
    case (Inl e)
    with x show ?thesis by (simp add: parse_safe_def parseDynamicTableSizeUpdate_def)
  next
    case (Inr y)
    obtain v u where y: "y = (v, u)" by (cases y)
    have dt: "dt_ok (d_dynTab d)" using ok by (simp add: dec_ok_def)
    obtain t where t: "setMaxSize (ucast v) (d_dynTab d) = Returns t" "dt_ok t" "maxSize t = ucast v"
        "allowedMaxSize t = allowedMaxSize (d_dynTab d)"
      using setMaxSize_keep [OF dt, of "ucast v"] by blast
    with x Inr y ok ucast_less_eq [of v "allowedMaxSize (d_dynTab d)"] show ?thesis
      by (auto simp: parse_safe_def parseDynamicTableSizeUpdate_def dec_ok_def not_less)
  qed
qed

lemma parseHeaderFieldRepr_safe:
  assumes ok: "dec_ok d" and len: "length p < 2 ^ 26" and p: "p \<noteq> []"
  shows "parse_safe d (parseHeaderFieldRepr d p)"
proof -
  obtain b p' where b: "p = b # p'" using p by (cases p) auto
  obtain x where x: "readVarInt 7 p = Returns x" using readVarInt_returns [of 7] by auto
  have "parse_safe d (parseFieldIndexed d p)"
    using x ok by (cases x) (auto simp: parse_safe_def parseFieldIndexed_def split: option.splits)
  moreover have "parse_safe d (Some (Returns (Inl e)))" for e by (simp add: parse_safe_def)
  ultimately show ?thesis
    using parseFieldLiteral_safe [OF ok _ _ len] parseDynamicTableSizeUpdate_safe [OF ok, of p]
    by (simp add: parseHeaderFieldRepr_def b)
qed

lemma Write_loop_safe:
  assumes "dec_ok d" and "length p < 2 ^ 26"
  shows "\<exists>r. Decoder_Write_loop d p out = Some r \<and>
           (r = Panics ''nil pointer dereference'' \<or>
            (\<exists>e d' fs. r = Returns (e, d', fs) \<and> dec_ok d' \<and> allowedMaxSize (d_dynTab d') = allowedMaxSize (d_dynTab d)))"
  using assms
proof (induction "length p" arbitrary: d p out rule: less_induct)
  case less
  show ?case
  proof (cases "p = []")
    case True
    then show ?thesis using less.prems by (simp add: hp.loop_Nil)
  next
    case False
    have len: "length p < 2 ^ 62" using less.prems by simp
    note sf = parseHeaderFieldRepr_safe [OF less.prems False]
    note eq = hp.loop_Cons [OF False, of d out]
    show ?thesis
    proof (cases rule: hp.parse_cases [OF False len, of d, case_names Parsed More Failed Crashed])
      case (Parsed d' fs u)
      have "length u < length p" using hp.shrinks [OF False len Parsed] .
      with less.hyps [of u d' "out @ fs"] less.prems sf Parsed eq show ?thesis by (simp add: parse_safe_def)
    next
      case More
      then show ?thesis using less.prems(1) eq by (simp add: dec_ok_def)
    next
      case (Failed e)
      then show ?thesis using less.prems(1) eq by simp
    next
      case (Crashed r)
      then show ?thesis using sf eq by (cases r) (auto simp: parse_safe_def)
    qed
  qed
qed

section \<open>A block that crashes\<close>

definition crash_block :: "octet list" where
  "crash_block = [0x00, 0x84, 0xFF, 0xFF, 0xFF, 0xFF]"

lemma crash_block_crashes: "Decoder_Write_loop d crash_block out = Some (Panics ''nil pointer dereference'')"
proof -
  have "readVarInt 4 crash_block = Returns (Inr (0, [0x84, 0xFF, 0xFF, 0xFF, 0xFF]))"
    by (simp add: readVarInt_def crash_block_def)
  moreover have "readVarInt 7 [0x84, 0xFF, 0xFF, 0xFF, 0xFF] = Returns (Inr (4, [0xFF, 0xFF, 0xFF, 0xFF]))"
    by (simp add: readVarInt_def)
  then have "readString [0x84, 0xFF, 0xFF, 0xFF, 0xFF] = Some (Panics ''nil pointer dereference'')"
    by (simp add: readString_def HuffmanDecode_ones_panics)
  ultimately have "parseFieldLiteral 4 indexedFalse d crash_block = Some (Panics ''nil pointer dereference'')"
    by (simp add: parseFieldLiteral_def)
  then have "parseHeaderFieldRepr d crash_block = Some (Panics ''nil pointer dereference'')"
    by (simp add: parseHeaderFieldRepr_def crash_block_def)
  then show ?thesis
    by (subst Decoder_Write_loop.simps) (simp add: crash_block_def)
qed

lemma crash_block_Write:
  "saveBuf d = [] \<Longrightarrow> Decoder_Write d crash_block = Some (Panics ''nil pointer dereference'')"
  by (simp add: Decoder_Write_def crash_block_crashes) (simp add: crash_block_def)

section \<open>Properties\<close>

text \<open>
  C13: Header compression is lossless over a connection. A new encoder and a new decoder whose allowed
  table size \<open>A\<close> is at least the initial 4096: for every sequence of calls of the encoder (header
  fields of any bytes, sensitive or not, changes of the table size and of its limit, within \<open>A\<close>), no
  call crashes, and the decoder emits exactly the fields that were written, in order and with
  their sensitivity, however the bytes are cut into pieces (\<open>HEADERS\<close> and \<open>CONTINUATION\<close> frames); at
  the end nothing is left over and \<open>Close\<close> reports no error.
\<close>

theorem hpack_round_trip:
  assumes "4096 \<le> A" and "unat A < 2 ^ 31" and "list_all (call_ok A) cs" and "length cs < 2 ^ 29"
  shows "\<exists>e d e' bs. NewEncoder = Returns e \<and> NewDecoder A = Returns d \<and> enc_run cs e = Returns (e', bs) \<and>
           (\<forall>ps. concat ps = bs \<longrightarrow>
              (\<exists>d'. feed d ps = Some (Returns (None, d', written_fields cs)) \<and> Decoder_Close d' = (None, d')))"
proof -
  obtain e d where new: "NewEncoder = Returns e" "NewDecoder A = Returns d" "in_step e d"
      "allowedMaxSize (d_dynTab d) = A"
    using new_in_step [OF assms(1,2)] by blast
  obtain e' d' bs where run: "enc_run cs e = Returns (e', bs)" "in_step e' d'" "reads_as d bs d' (written_fields cs)"
      "length bs \<le> length cs * 2 ^ 32"
    using enc_run_step [OF new(3)] assms(3) new(4) by blast
  have len: "length bs < 2 ^ 62" using run(4) assms(4) by simp
  have saved: "saveBuf d = []" "saveBuf d' = []" using new(3) run(2) by (simp_all add: in_step_def)
  have "feed d ps = Some (Returns (None, d', written_fields cs))" if "concat ps = bs" for ps
    using that feed_concat [of d ps] in_step_reads [OF new(3) run(3) len run(2)] saved len by simp
  moreover have "Decoder_Close d' = (None, d')" using saved by (simp add: Decoder_Close_def)
  ultimately show ?thesis using new run(1) by blast
qed

definition sample_calls :: "enc_call list" where
  "sample_calls =
     [CallWriteField (pair '':method'' ''POST''),
      CallWriteField (pair ''user-agent'' ''grpc-go/0.7''),
      CallSetMax 100,
      CallWriteField ((pair ''authorization'' ''Bearer s3cret'')\<lparr>Sensitive := True\<rparr>),
      CallWriteField (pair ''user-agent'' ''grpc-go/0.7'')]"

theorem hpack_round_trip_witness:
  "\<exists>e d e' bs d'. NewEncoder = Returns e \<and> NewDecoder 4096 = Returns d \<and> enc_run sample_calls e = Returns (e', bs) \<and>
     feed d (map (\<lambda>b. [b]) bs) = Some (Returns (None, d', written_fields sample_calls))"
proof -
  have "list_all (call_ok 4096) sample_calls" "length sample_calls < 2 ^ 29"
    by (simp_all add: sample_calls_def fsize_def pair_def octets_def)
  from hpack_round_trip [OF _ _ this] obtain e d e' bs where
    "NewEncoder = Returns e" "NewDecoder 4096 = Returns d" "enc_run sample_calls e = Returns (e', bs)"
    "\<forall>ps. concat ps = bs \<longrightarrow> (\<exists>d'. feed d ps = Some (Returns (None, d', written_fields sample_calls)) \<and>
       Decoder_Close d' = (None, d'))"
    by auto
  moreover have "concat (map (\<lambda>b. [b]) bs) = bs" by (induction bs) simp_all
  ultimately show ?thesis by blast
qed

text \<open>
  C16: The decoder is incremental: writing a header block in pieces, call by call until one returns an
  error, emits the same fields, leaves the same decoder and gives the same error or crash as
  writing the block in one call, for every decoder state, every block (valid or not) and every way
  to cut it.
\<close>

theorem Write_in_pieces:
  assumes "length (saveBuf d) + length (concat ps) < 2 ^ 62"
  shows "feed d ps = Decoder_Write d (concat ps)"
  using feed_concat [of d ps] assms by simp

theorem Write_in_pieces_witness:
  "\<exists>d. feed d [[0x82], [], [0x40, 0x81]] = Decoder_Write d [0x82, 0x40, 0x81]"
proof -
  define d where "d = \<lparr>d_dynTab = \<lparr>ents = [], dt_size = 0, maxSize = 4096, allowedMaxSize = 4096\<rparr>, saveBuf = []\<rparr>"
  then show ?thesis using Write_in_pieces [of d "[[0x82], [], [0x40, 0x81]]"] by auto
qed

text \<open>
  C15: Whatever bytes a decoder reads, one call of \<open>Write\<close> ends, and its dynamic table keeps its
  bounds: the recorded size is the true size of the entries (the 32-bit sum does not wrap), it is
  within the current maximum, and that is within the allowed maximum; eviction never runs off an
  empty table. The only crash is the one of the Huffman decoder, and it is real: a literal whose
  name is four Huffman-coded bytes of ones.
\<close>

theorem Decoder_Write_safe:
  assumes "dec_ok d" and "length (saveBuf d) + length p < 2 ^ 26"
  shows "\<exists>r. Decoder_Write d p = Some r \<and>
           (r = Panics ''nil pointer dereference'' \<or>
            (\<exists>e d' fs. r = Returns (e, d', fs) \<and> dec_ok d' \<and>
               allowedMaxSize (d_dynTab d') = allowedMaxSize (d_dynTab d))) \<and>
         Decoder_Write (d\<lparr>saveBuf := []\<rparr>) crash_block = Some (Panics ''nil pointer dereference'')"
proof (cases "p = []")
  case True
  then show ?thesis using assms(1) crash_block_Write by (simp add: Decoder_Write_def)
next
  case False
  have "dec_ok (d\<lparr>saveBuf := []\<rparr>)" using assms(1) by (simp add: dec_ok_def)
  from Write_loop_safe [OF this, of "saveBuf d @ p" "[]"] assms(2) False show ?thesis
    using crash_block_Write by (simp add: Write_eq)
qed

theorem Decoder_Write_safe_witness:
  "\<exists>d r. NewDecoder 4096 = Returns d \<and> Decoder_Write d [0x82, 0x3F] = Some r \<and>
     (r = Panics ''nil pointer dereference'' \<or>
      (\<exists>e d' fs. r = Returns (e, d', fs) \<and> dec_ok d' \<and>
         allowedMaxSize (d_dynTab d') = allowedMaxSize (d_dynTab d)))"
proof -
  define d where "d = \<lparr>d_dynTab = \<lparr>ents = [], dt_size = 0, maxSize = 4096, allowedMaxSize = 4096\<rparr>, saveBuf = []\<rparr>"
  have new: "NewDecoder 4096 = Returns d" by (simp add: NewDecoder_def fresh_tables d_def)
  have ok: "dec_ok d" by (simp add: d_def dec_ok_def dt_ok_def)
  have len: "length (saveBuf d) + length [0x82, 0x3F :: octet] < 2 ^ 26" by (simp add: d_def)
  show ?thesis using new Decoder_Write_safe [OF ok len] by blast
qed

end
