(* ===== verification/Http2_Frame.thy ===== *)
theory Http2_Frame
  imports Hpack_Tables
begin

text \<open>
  The frames of HTTP/2 (\<open>http2/frame.go\<close>, with the settings of \<open>http2.go\<close> and the error codes of
  \<open>errors.go\<close>): the frame header, a parser for every frame type, and the \<open>Framer\<close> that reads frames
  from a byte stream and writes them to one.

  A frame is handed out as a pointer, and the next \<open>ReadFrame\<close> marks it invalid; the frames handed
  out are the list \<open>fr_frames\<close> and a pointer is an index of it. The reader is the list of the bytes
  that are still to come, which end with \<open>io.EOF\<close>; the writer is a function that answers a call of
  \<open>Write\<close>, and \<open>fr_out\<close> is the list of what it was given.
\<close>

named_theorems frame_consts \<open>the numbers of frame types, flags, settings and error codes\<close>

section \<open>Numbers\<close>

definition FrameData :: octet where "FrameData = 0x0"
definition FrameHeaders :: octet where "FrameHeaders = 0x1"
definition FramePriority :: octet where "FramePriority = 0x2"
definition FrameRSTStream :: octet where "FrameRSTStream = 0x3"
definition FrameSettings :: octet where "FrameSettings = 0x4"
definition FramePushPromise :: octet where "FramePushPromise = 0x5"
definition FramePing :: octet where "FramePing = 0x6"
definition FrameGoAway :: octet where "FrameGoAway = 0x7"
definition FrameWindowUpdate :: octet where "FrameWindowUpdate = 0x8"
definition FrameContinuation :: octet where "FrameContinuation = 0x9"

definition FlagDataEndStream :: octet where "FlagDataEndStream = 0x1"
definition FlagDataPadded :: octet where "FlagDataPadded = 0x8"
definition FlagHeadersEndStream :: octet where "FlagHeadersEndStream = 0x1"
definition FlagHeadersEndHeaders :: octet where "FlagHeadersEndHeaders = 0x4"
definition FlagHeadersPadded :: octet where "FlagHeadersPadded = 0x8"
definition FlagHeadersPriority :: octet where "FlagHeadersPriority = 0x20"
definition FlagSettingsAck :: octet where "FlagSettingsAck = 0x1"
definition FlagPingAck :: octet where "FlagPingAck = 0x1"
definition FlagContinuationEndHeaders :: octet where "FlagContinuationEndHeaders = 0x4"
definition FlagPushPromiseEndHeaders :: octet where "FlagPushPromiseEndHeaders = 0x4"
definition FlagPushPromisePadded :: octet where "FlagPushPromisePadded = 0x8"

definition ErrCodeNo :: "32 word" where "ErrCodeNo = 0x0"
definition ErrCodeProtocol :: "32 word" where "ErrCodeProtocol = 0x1"
definition ErrCodeInternal :: "32 word" where "ErrCodeInternal = 0x2"
definition ErrCodeFlowControl :: "32 word" where "ErrCodeFlowControl = 0x3"
definition ErrCodeFrameSize :: "32 word" where "ErrCodeFrameSize = 0x6"
definition ErrCodeRefusedStream :: "32 word" where "ErrCodeRefusedStream = 0x7"
definition ErrCodeCancel :: "32 word" where "ErrCodeCancel = 0x8"
definition ErrCodeEnhanceYourCalm :: "32 word" where "ErrCodeEnhanceYourCalm = 0xb"
definition ErrCodeInadequateSecurity :: "32 word" where "ErrCodeInadequateSecurity = 0xc"

definition SettingEnablePush :: "16 word" where "SettingEnablePush = 0x2"
definition SettingMaxConcurrentStreams :: "16 word" where "SettingMaxConcurrentStreams = 0x3"
definition SettingInitialWindowSize :: "16 word" where "SettingInitialWindowSize = 0x4"
definition SettingMaxFrameSize :: "16 word" where "SettingMaxFrameSize = 0x5"

lemmas frame_numbers [frame_consts] =
  FrameData_def FrameHeaders_def FramePriority_def FrameRSTStream_def FrameSettings_def
  FramePushPromise_def FramePing_def FrameGoAway_def FrameWindowUpdate_def FrameContinuation_def
  FlagDataEndStream_def FlagDataPadded_def FlagHeadersEndStream_def FlagHeadersEndHeaders_def
  FlagHeadersPadded_def FlagHeadersPriority_def FlagSettingsAck_def FlagPingAck_def
  FlagContinuationEndHeaders_def FlagPushPromiseEndHeaders_def FlagPushPromisePadded_def

definition Flags_Has :: "octet \<Rightarrow> octet \<Rightarrow> bool" where
  "Flags_Has f v \<longleftrightarrow> f AND v = v"

definition frameHeaderLen :: nat where "frameHeaderLen = 9"
definition maxFrameSize :: "32 word" where "maxFrameSize = 0xFFFFFF"

section \<open>Errors\<close>

datatype http2_error =
    ConnectionError "32 word"
  | StreamError "32 word" "32 word"
  | ErrFrameTooLarge
  | errStreamID
  | Http2Text string
  | Http2EOF
  | Http2UnexpectedEOF
  | Http2ShortWrite
  | WriterError string

section \<open>Big-endian numbers\<close>

definition be32 :: "32 word \<Rightarrow> octet list" where
  "be32 v = [ucast (drop_bit 24 v), ucast (drop_bit 16 v), ucast (drop_bit 8 v), ucast v]"

definition be16 :: "16 word \<Rightarrow> octet list" where
  "be16 v = [ucast (drop_bit 8 v), ucast v]"

text \<open>\<open>binary.BigEndian.Uint32\<close> and \<open>Uint16\<close> index the bytes they read.\<close>

fun BigEndian_Uint32 :: "octet list \<Rightarrow> (32 word) outcome" where
  "BigEndian_Uint32 (a # b # c # d # _) =
     Returns (push_bit 24 (ucast a) OR push_bit 16 (ucast b) OR push_bit 8 (ucast c) OR ucast d)"
| "BigEndian_Uint32 _ = Panics ''index out of range''"

fun BigEndian_Uint16 :: "octet list \<Rightarrow> (16 word) outcome" where
  "BigEndian_Uint16 (a # b # _) = Returns (push_bit 8 (ucast a) OR ucast b)"
| "BigEndian_Uint16 _ = Panics ''index out of range''"

text \<open>A slice expression \<open>p[:n]\<close>.\<close>

definition slice_to :: "'a list \<Rightarrow> int \<Rightarrow> 'a list outcome" where
  "slice_to p n = (if 0 \<le> n \<and> n \<le> int (length p) then Returns (take (nat n) p)
                   else Panics ''slice bounds out of range'')"

section \<open>Frames\<close>

record FrameHeader =
  fh_valid :: bool
  fh_Type :: octet
  fh_Flags :: octet
  fh_Length :: "32 word"
  fh_StreamID :: "32 word"

record PriorityParam =
  StreamDep :: "32 word"
  Exclusive :: bool
  Weight :: octet

definition no_priority :: PriorityParam where
  "no_priority = \<lparr>StreamDep = 0, Exclusive = False, Weight = 0\<rparr>"

definition PriorityParam_IsZero :: "PriorityParam \<Rightarrow> bool" where
  "PriorityParam_IsZero p \<longleftrightarrow> p = no_priority"

datatype Frame =
    DataFrame (Header: FrameHeader) "octet list"
  | HeadersFrame (Header: FrameHeader) PriorityParam "octet list"
  | PriorityFrame (Header: FrameHeader) PriorityParam
  | RSTStreamFrame (Header: FrameHeader) "32 word"
  | SettingsFrame (Header: FrameHeader) "octet list"
  | PushPromiseFrame (Header: FrameHeader) "32 word" "octet list"
  | PingFrame (Header: FrameHeader) "octet list"
  | GoAwayFrame (Header: FrameHeader) "32 word" "32 word" "octet list"
  | WindowUpdateFrame (Header: FrameHeader) "32 word"
  | ContinuationFrame (Header: FrameHeader) "octet list"
  | UnknownFrame (Header: FrameHeader) "octet list"

fun invalidate_header :: "FrameHeader \<Rightarrow> FrameHeader" where
  "invalidate_header h = h\<lparr>fh_valid := False\<rparr>"

fun invalidate :: "Frame \<Rightarrow> Frame" where
  "invalidate (DataFrame h d) = DataFrame (invalidate_header h) d"
| "invalidate (HeadersFrame h p b) = HeadersFrame (invalidate_header h) p b"
| "invalidate (PriorityFrame h p) = PriorityFrame (invalidate_header h) p"
| "invalidate (RSTStreamFrame h c) = RSTStreamFrame (invalidate_header h) c"
| "invalidate (SettingsFrame h p) = SettingsFrame (invalidate_header h) p"
| "invalidate (PushPromiseFrame h i b) = PushPromiseFrame (invalidate_header h) i b"
| "invalidate (PingFrame h d) = PingFrame (invalidate_header h) d"
| "invalidate (GoAwayFrame h l c d) = GoAwayFrame (invalidate_header h) l c d"
| "invalidate (WindowUpdateFrame h i) = WindowUpdateFrame (invalidate_header h) i"
| "invalidate (ContinuationFrame h b) = ContinuationFrame (invalidate_header h) b"
| "invalidate (UnknownFrame h p) = UnknownFrame (invalidate_header h) p"

definition checkValid :: "FrameHeader \<Rightarrow> 'a \<Rightarrow> 'a outcome" where
  "checkValid h x =
     (if fh_valid h then Returns x else Panics ''Frame accessor called on non-owned Frame'')"

text \<open>
  The accessors of the frames that hold a part of the read buffer: \<open>Data\<close>, \<open>HeaderBlockFragment\<close>,
  \<open>DebugData\<close> and \<open>Payload\<close>. The other frames have no such method.
\<close>

fun frame_bytes :: "Frame \<Rightarrow> octet list outcome option" where
  "frame_bytes (DataFrame h d) = Some (checkValid h d)"
| "frame_bytes (HeadersFrame h p b) = Some (checkValid h b)"
| "frame_bytes (ContinuationFrame h b) = Some (checkValid h b)"
| "frame_bytes (PushPromiseFrame h i b) = Some (checkValid h b)"
| "frame_bytes (GoAwayFrame h l c d) = Some (checkValid h d)"
| "frame_bytes (UnknownFrame h p) = Some (checkValid h p)"
| "frame_bytes _ = None"

definition HeadersEnded :: "Frame \<Rightarrow> bool" where
  "HeadersEnded f =
     Flags_Has (fh_Flags (Header f))
       (case f of HeadersFrame _ _ _ \<Rightarrow> FlagHeadersEndHeaders
        | PushPromiseFrame _ _ _ \<Rightarrow> FlagPushPromiseEndHeaders
        | _ \<Rightarrow> FlagContinuationEndHeaders)"

definition StreamEnded :: "Frame \<Rightarrow> bool" where
  "StreamEnded f =
     Flags_Has (fh_Flags (Header f))
       (case f of HeadersFrame _ _ _ \<Rightarrow> FlagHeadersEndStream | _ \<Rightarrow> FlagDataEndStream)"

definition HasPriority :: "Frame \<Rightarrow> bool" where
  "HasPriority f = Flags_Has (fh_Flags (Header f)) FlagHeadersPriority"

definition Settings_IsAck :: "Frame \<Rightarrow> bool" where
  "Settings_IsAck f = Flags_Has (fh_Flags (Header f)) FlagSettingsAck"

section \<open>Settings\<close>

record Setting =
  set_ID :: "16 word"
  set_Val :: "32 word"

definition Setting_Valid :: "Setting \<Rightarrow> http2_error option" where
  "Setting_Valid s =
     (if set_ID s = SettingEnablePush then
        (if set_Val s \<noteq> 1 \<and> set_Val s \<noteq> 0 then Some (ConnectionError ErrCodeProtocol) else None)
      else if set_ID s = SettingInitialWindowSize then
        (if set_Val s > 0x7FFFFFFF then Some (ConnectionError ErrCodeFlowControl) else None)
      else if set_ID s = SettingMaxFrameSize then
        (if set_Val s < 16384 \<or> set_Val s > 0xFFFFFF then Some (ConnectionError ErrCodeProtocol) else None)
      else None)"

text \<open>The six bytes of a setting at the start of a buffer, with the slices of the code.\<close>

definition setting_at :: "octet list \<Rightarrow> Setting outcome" where
  "setting_at b =
     bind_outcome (bind_outcome (slice_to b 2) BigEndian_Uint16) (\<lambda>i.
     bind_outcome (bind_outcome (slice_to b 6) (\<lambda>s. BigEndian_Uint32 (drop 2 s))) (\<lambda>v.
       Returns \<lparr>set_ID = i, set_Val = v\<rparr>))"

function Settings_Value_loop :: "octet list \<Rightarrow> 16 word \<Rightarrow> (32 word) option outcome" where
  "Settings_Value_loop b s =
     (if b = [] then Returns None
      else bind_outcome (bind_outcome (slice_to b 2) BigEndian_Uint16) (\<lambda>i.
        if i = s then bind_outcome (bind_outcome (slice_to b 6) (\<lambda>p. BigEndian_Uint32 (drop 2 p))) (\<lambda>v. Returns (Some v))
        else if length b < 6 then Panics ''slice bounds out of range''
        else Settings_Value_loop (drop 6 b) s))"
  by pat_completeness auto
termination
  by (relation "measure (\<lambda>(b, s). length b)") auto

declare Settings_Value_loop.simps [simp del]

definition SettingsFrame_Value :: "FrameHeader \<Rightarrow> octet list \<Rightarrow> 16 word \<Rightarrow> (32 word) option outcome" where
  "SettingsFrame_Value h p s = bind_outcome (checkValid h p) (\<lambda>p. Settings_Value_loop p s)"

text \<open>\<open>ForeachSetting\<close>, with the state that its function argument changes.\<close>

function ForeachSetting_loop ::
    "(Setting \<Rightarrow> 's \<Rightarrow> http2_error option \<times> 's) \<Rightarrow> octet list \<Rightarrow> 's \<Rightarrow> (http2_error option \<times> 's) outcome" where
  "ForeachSetting_loop fn b st =
     (if b = [] then Returns (None, st)
      else bind_outcome (setting_at b) (\<lambda>x.
        case fn x st of
          (Some e, st') \<Rightarrow> Returns (Some e, st')
        | (None, st') \<Rightarrow>
            if length b < 6 then Panics ''slice bounds out of range''
            else ForeachSetting_loop fn (drop 6 b) st'))"
  by pat_completeness auto
termination
  by (relation "measure (\<lambda>(fn, b, st). length b)") auto

declare ForeachSetting_loop.simps [simp del]

definition ForeachSetting ::
    "FrameHeader \<Rightarrow> octet list \<Rightarrow> (Setting \<Rightarrow> 's \<Rightarrow> http2_error option \<times> 's) \<Rightarrow> 's \<Rightarrow> (http2_error option \<times> 's) outcome" where
  "ForeachSetting h p fn st = bind_outcome (checkValid h p) (\<lambda>p. ForeachSetting_loop fn p st)"

section \<open>The parsers\<close>

fun readByte :: "octet list \<Rightarrow> http2_error + octet list \<times> octet" where
  "readByte [] = Inl Http2UnexpectedEOF"
| "readByte (b # p) = Inr (p, b)"

definition readUint32 :: "octet list \<Rightarrow> (http2_error + octet list \<times> 32 word) outcome" where
  "readUint32 p =
     (if length p < 4 then Returns (Inl Http2UnexpectedEOF)
      else bind_outcome (bind_outcome (slice_to p 4) BigEndian_Uint32) (\<lambda>v. Returns (Inr (drop 4 p, v))))"

type_synonym parsed_frame = "(http2_error + Frame) outcome"

text \<open>The pad length in front of a padded frame, zero without the flag.\<close>

definition read_pad :: "octet \<Rightarrow> octet \<Rightarrow> octet list \<Rightarrow> http2_error + octet list \<times> octet" where
  "read_pad flags flag p = (if Flags_Has flags flag then readByte p else Inr (p, 0))"

definition parseDataFrame :: "FrameHeader \<Rightarrow> octet list \<Rightarrow> parsed_frame" where
  "parseDataFrame fh payload =
     (if fh_StreamID fh = 0 then Returns (Inl (ConnectionError ErrCodeProtocol))
      else case read_pad (fh_Flags fh) FlagDataPadded payload of
        Inl e \<Rightarrow> Returns (Inl e)
      | Inr (p, padSize) \<Rightarrow>
          if unat padSize > length p then Returns (Inl (ConnectionError ErrCodeProtocol))
          else bind_outcome (slice_to p (int (length p) - int (unat padSize)))
                 (\<lambda>d. Returns (Inr (DataFrame fh d))))"

definition parseSettingsFrame :: "FrameHeader \<Rightarrow> octet list \<Rightarrow> parsed_frame" where
  "parseSettingsFrame fh p =
     (if Flags_Has (fh_Flags fh) FlagSettingsAck \<and> fh_Length fh > 0 then Returns (Inl (ConnectionError ErrCodeFrameSize))
      else if fh_StreamID fh \<noteq> 0 then Returns (Inl (ConnectionError ErrCodeProtocol))
      else if length p mod 6 \<noteq> 0 then Returns (Inl (ConnectionError ErrCodeFrameSize))
      else bind_outcome (SettingsFrame_Value fh p SettingInitialWindowSize) (\<lambda>r.
        case r of
          Some v \<Rightarrow> if v > 0x7FFFFFFF then Returns (Inl (ConnectionError ErrCodeFlowControl))
                    else Returns (Inr (SettingsFrame fh p))
        | None \<Rightarrow> Returns (Inr (SettingsFrame fh p))))"

definition parsePingFrame :: "FrameHeader \<Rightarrow> octet list \<Rightarrow> parsed_frame" where
  "parsePingFrame fh payload =
     (if length payload \<noteq> 8 then Returns (Inl (ConnectionError ErrCodeFrameSize))
      else if fh_StreamID fh \<noteq> 0 then Returns (Inl (ConnectionError ErrCodeProtocol))
      else Returns (Inr (PingFrame fh payload)))"

definition parseGoAwayFrame :: "FrameHeader \<Rightarrow> octet list \<Rightarrow> parsed_frame" where
  "parseGoAwayFrame fh p =
     (if fh_StreamID fh \<noteq> 0 then Returns (Inl (ConnectionError ErrCodeProtocol))
      else if length p < 8 then Returns (Inl (ConnectionError ErrCodeFrameSize))
      else bind_outcome (bind_outcome (slice_to p 4) BigEndian_Uint32) (\<lambda>l.
           bind_outcome (bind_outcome (slice_to p 8) (\<lambda>s. BigEndian_Uint32 (drop 4 s))) (\<lambda>c.
             Returns (Inr (GoAwayFrame fh (l AND 0x7FFFFFFF) c (drop 8 p))))))"

definition parseUnknownFrame :: "FrameHeader \<Rightarrow> octet list \<Rightarrow> parsed_frame" where
  "parseUnknownFrame fh p = Returns (Inr (UnknownFrame fh p))"

definition parseWindowUpdateFrame :: "FrameHeader \<Rightarrow> octet list \<Rightarrow> parsed_frame" where
  "parseWindowUpdateFrame fh p =
     (if length p \<noteq> 4 then Returns (Inl (ConnectionError ErrCodeFrameSize))
      else bind_outcome (bind_outcome (slice_to p 4) BigEndian_Uint32) (\<lambda>v.
        let inc = v AND 0x7FFFFFFF in
        if inc = 0 then
          Returns (Inl (if fh_StreamID fh = 0 then ConnectionError ErrCodeProtocol
                        else StreamError (fh_StreamID fh) ErrCodeProtocol))
        else Returns (Inr (WindowUpdateFrame fh inc))))"

text \<open>The priority in a \<open>HEADERS\<close> frame.\<close>

definition read_priority :: "octet list \<Rightarrow> (http2_error + octet list \<times> PriorityParam) outcome" where
  "read_priority p =
     bind_outcome (readUint32 p) (\<lambda>r.
       case r of
         Inl e \<Rightarrow> Returns (Inl e)
       | Inr (p', v) \<Rightarrow>
           (case readByte p' of
              Inl e \<Rightarrow> Returns (Inl e)
            | Inr (p'', w) \<Rightarrow>
                let dep = v AND 0x7FFFFFFF in
                Returns (Inr (p'', \<lparr>StreamDep = dep, Exclusive = (v \<noteq> dep), Weight = w\<rparr>))))"

definition parseHeadersFrame :: "FrameHeader \<Rightarrow> octet list \<Rightarrow> parsed_frame" where
  "parseHeadersFrame fh p =
     (if fh_StreamID fh = 0 then Returns (Inl (ConnectionError ErrCodeProtocol))
      else case read_pad (fh_Flags fh) FlagHeadersPadded p of
        Inl e \<Rightarrow> Returns (Inl e)
      | Inr (p1, padLength) \<Rightarrow>
          bind_outcome (if Flags_Has (fh_Flags fh) FlagHeadersPriority then read_priority p1
                        else Returns (Inr (p1, no_priority))) (\<lambda>r.
            case r of
              Inl e \<Rightarrow> Returns (Inl e)
            | Inr (p2, prio) \<Rightarrow>
                let n = int (length p2) - int (unat padLength) in
                if n \<le> 0 then Returns (Inl (StreamError (fh_StreamID fh) ErrCodeProtocol))
                else bind_outcome (slice_to p2 n) (\<lambda>b. Returns (Inr (HeadersFrame fh prio b)))))"

definition parsePriorityFrame :: "FrameHeader \<Rightarrow> octet list \<Rightarrow> parsed_frame" where
  "parsePriorityFrame fh payload =
     (if fh_StreamID fh = 0 then Returns (Inl (ConnectionError ErrCodeProtocol))
      else if length payload \<noteq> 5 then Returns (Inl (ConnectionError ErrCodeFrameSize))
      else bind_outcome (bind_outcome (slice_to payload 4) BigEndian_Uint32) (\<lambda>v.
        let dep = v AND 0x7FFFFFFF in
        Returns (Inr (PriorityFrame fh \<lparr>StreamDep = dep, Exclusive = (dep \<noteq> v), Weight = payload ! 4\<rparr>))))"

definition parseRSTStreamFrame :: "FrameHeader \<Rightarrow> octet list \<Rightarrow> parsed_frame" where
  "parseRSTStreamFrame fh p =
     (if length p \<noteq> 4 then Returns (Inl (ConnectionError ErrCodeFrameSize))
      else if fh_StreamID fh = 0 then Returns (Inl (ConnectionError ErrCodeProtocol))
      else bind_outcome (bind_outcome (slice_to p 4) BigEndian_Uint32) (\<lambda>c.
        Returns (Inr (RSTStreamFrame fh c))))"

definition parseContinuationFrame :: "FrameHeader \<Rightarrow> octet list \<Rightarrow> parsed_frame" where
  "parseContinuationFrame fh p = Returns (Inr (ContinuationFrame fh p))"

definition parsePushPromise :: "FrameHeader \<Rightarrow> octet list \<Rightarrow> parsed_frame" where
  "parsePushPromise fh p =
     (if fh_StreamID fh = 0 then Returns (Inl (ConnectionError ErrCodeProtocol))
      else case read_pad (fh_Flags fh) FlagPushPromisePadded p of
        Inl e \<Rightarrow> Returns (Inl e)
      | Inr (p1, padLength) \<Rightarrow>
          bind_outcome (readUint32 p1) (\<lambda>r.
            case r of
              Inl e \<Rightarrow> Returns (Inl e)
            | Inr (p2, v) \<Rightarrow>
                if unat padLength > length p2 then Returns (Inl (ConnectionError ErrCodeProtocol))
                else bind_outcome (slice_to p2 (int (length p2) - int (unat padLength)))
                       (\<lambda>b. Returns (Inr (PushPromiseFrame fh (v AND 0x7FFFFFFF) b)))))"

definition typeFrameParser :: "octet \<Rightarrow> FrameHeader \<Rightarrow> octet list \<Rightarrow> parsed_frame" where
  "typeFrameParser t =
     (if t = FrameData then parseDataFrame
      else if t = FrameHeaders then parseHeadersFrame
      else if t = FramePriority then parsePriorityFrame
      else if t = FrameRSTStream then parseRSTStreamFrame
      else if t = FrameSettings then parseSettingsFrame
      else if t = FramePushPromise then parsePushPromise
      else if t = FramePing then parsePingFrame
      else if t = FrameGoAway then parseGoAwayFrame
      else if t = FrameWindowUpdate then parseWindowUpdateFrame
      else if t = FrameContinuation then parseContinuationFrame
      else parseUnknownFrame)"

section \<open>The framer\<close>

record Framer =
  fr_r :: "octet list"
  fr_last :: "nat option"
  fr_frames :: "Frame list"
  fr_maxReadSize :: "32 word"
  fr_w :: "octet list \<Rightarrow> octet list \<Rightarrow> nat \<times> http2_error option"
  fr_out :: "octet list"
  fr_wbuf :: "octet list"
  AllowIllegalWrites :: bool

definition SetMaxReadFrameSize :: "32 word \<Rightarrow> Framer \<Rightarrow> Framer" where
  "SetMaxReadFrameSize v fr = fr\<lparr>fr_maxReadSize := if v > maxFrameSize then maxFrameSize else v\<rparr>"

definition NewFramer ::
    "(octet list \<Rightarrow> octet list \<Rightarrow> nat \<times> http2_error option) \<Rightarrow> octet list \<Rightarrow> Framer" where
  "NewFramer w r =
     SetMaxReadFrameSize maxFrameSize
       \<lparr>fr_r = r, fr_last = None, fr_frames = [], fr_maxReadSize = 0, fr_w = w, fr_out = [],
        fr_wbuf = [], AllowIllegalWrites = False\<rparr>"

text \<open>
  \<open>io.ReadFull\<close>: all the bytes asked for, or \<open>io.EOF\<close> when the stream ended before the first of them
  and \<open>io.ErrUnexpectedEOF\<close> when it ended after it.
\<close>

definition io_ReadFull :: "octet list \<Rightarrow> nat \<Rightarrow> (http2_error + octet list) \<times> octet list" where
  "io_ReadFull r n =
     (if n \<le> length r then (Inr (take n r), drop n r)
      else if r = [] then (Inl Http2EOF, [])
      else (Inl Http2UnexpectedEOF, []))"

definition readFrameHeader :: "octet list \<Rightarrow> ((http2_error + FrameHeader) \<times> octet list) outcome" where
  "readFrameHeader r =
     (case io_ReadFull r frameHeaderLen of
        (Inl e, r') \<Rightarrow> Returns (Inl e, r')
      | (Inr b, r') \<Rightarrow>
          bind_outcome (BigEndian_Uint32 (drop 5 b)) (\<lambda>i.
            Returns (Inr \<lparr>fh_valid = True, fh_Type = b ! 3, fh_Flags = b ! 4,
              fh_Length = push_bit 16 (ucast (b ! 0)) OR push_bit 8 (ucast (b ! 1)) OR ucast (b ! 2),
              fh_StreamID = i AND 0x7FFFFFFF\<rparr>, r')))"

text \<open>The call \<open>fr.lastFrame.invalidate()\<close> at the start of \<open>ReadFrame\<close>.\<close>

definition invalidate_last :: "Framer \<Rightarrow> Framer" where
  "invalidate_last fr =
     (case fr_last fr of
        None \<Rightarrow> fr
      | Some i \<Rightarrow> fr\<lparr>fr_frames := (fr_frames fr)[i := invalidate (fr_frames fr ! i)]\<rparr>)"

text \<open>\<open>ReadFrame\<close> returns a pointer to the new frame.\<close>

definition ReadFrame :: "Framer \<Rightarrow> ((http2_error + nat) \<times> Framer) outcome" where
  "ReadFrame fr0 =
     (let fr = invalidate_last fr0 in
      bind_outcome (readFrameHeader (fr_r fr)) (\<lambda>(h, r1).
        case h of
          Inl e \<Rightarrow> Returns (Inl e, fr\<lparr>fr_r := r1\<rparr>)
        | Inr fh \<Rightarrow>
            if fh_Length fh > fr_maxReadSize fr then Returns (Inl ErrFrameTooLarge, fr\<lparr>fr_r := r1\<rparr>)
            else case io_ReadFull r1 (unat (fh_Length fh)) of
                (Inl e, r2) \<Rightarrow> Returns (Inl e, fr\<lparr>fr_r := r2\<rparr>)
              | (Inr payload, r2) \<Rightarrow>
                  bind_outcome (typeFrameParser (fh_Type fh) fh payload) (\<lambda>f.
                    case f of
                      Inl e \<Rightarrow> Returns (Inl e, fr\<lparr>fr_r := r2\<rparr>)
                    | Inr f \<Rightarrow>
                        let i = length (fr_frames fr) in
                        Returns (Inr i, fr\<lparr>fr_r := r2, fr_frames := fr_frames fr @ [f], fr_last := Some i\<rparr>))))"

section \<open>Writing\<close>

type_synonym write_result = "http2_error option \<times> Framer"

definition startWrite :: "octet \<Rightarrow> octet \<Rightarrow> 32 word \<Rightarrow> Framer \<Rightarrow> Framer" where
  "startWrite ftype flags streamID f = f\<lparr>fr_wbuf := [0, 0, 0, ftype, flags] @ be32 streamID\<rparr>"

text \<open>The bytes of the buffer that \<open>Write\<close> accepts are what reaches the wire.\<close>

definition endWrite :: "Framer \<Rightarrow> write_result" where
  "endWrite f =
     (let len = int (length (fr_wbuf f)) - int frameHeaderLen in
      if len \<ge> 2 ^ 24 then (Some ErrFrameTooLarge, f)
      else
        let buf = [word_of_int (drop_bit 16 len), word_of_int (drop_bit 8 len), word_of_int len]
                  @ drop 3 (fr_wbuf f);
            (n, err) = fr_w f (fr_out f) buf;
            f' = f\<lparr>fr_wbuf := buf, fr_out := fr_out f @ take n buf\<rparr>
        in (if err = None \<and> n \<noteq> length buf then Some Http2ShortWrite else err, f'))"

definition fr_writeBytes :: "octet list \<Rightarrow> Framer \<Rightarrow> Framer" where
  "fr_writeBytes v f = f\<lparr>fr_wbuf := fr_wbuf f @ v\<rparr>"

definition writeByte :: "octet \<Rightarrow> Framer \<Rightarrow> Framer" where
  "writeByte v f = f\<lparr>fr_wbuf := fr_wbuf f @ [v]\<rparr>"

definition writeUint16 :: "16 word \<Rightarrow> Framer \<Rightarrow> Framer" where
  "writeUint16 v f = f\<lparr>fr_wbuf := fr_wbuf f @ be16 v\<rparr>"

definition writeUint32 :: "32 word \<Rightarrow> Framer \<Rightarrow> Framer" where
  "writeUint32 v f = f\<lparr>fr_wbuf := fr_wbuf f @ be32 v\<rparr>"

definition padZeros :: "octet list" where
  "padZeros = replicate 255 0"

definition validStreamID :: "32 word \<Rightarrow> bool" where
  "validStreamID streamID \<longleftrightarrow> streamID \<noteq> 0 \<and> streamID AND push_bit 31 1 = 0"

definition WriteData :: "32 word \<Rightarrow> bool \<Rightarrow> octet list \<Rightarrow> Framer \<Rightarrow> write_result" where
  "WriteData streamID endStream data f =
     (if \<not> validStreamID streamID \<and> \<not> AllowIllegalWrites f then (Some errStreamID, f)
      else endWrite (fr_writeBytes data
             (startWrite FrameData (if endStream then FlagDataEndStream else 0) streamID f)))"

fun write_settings :: "Setting list \<Rightarrow> Framer \<Rightarrow> Framer" where
  "write_settings [] f = f"
| "write_settings (s # ss) f = write_settings ss (writeUint32 (set_Val s) (writeUint16 (set_ID s) f))"

definition WriteSettings :: "Setting list \<Rightarrow> Framer \<Rightarrow> write_result" where
  "WriteSettings settings f = endWrite (write_settings settings (startWrite FrameSettings 0 0 f))"

definition WriteSettingsAck :: "Framer \<Rightarrow> write_result" where
  "WriteSettingsAck f = endWrite (startWrite FrameSettings FlagSettingsAck 0 f)"

definition WritePing :: "bool \<Rightarrow> octet list \<Rightarrow> Framer \<Rightarrow> write_result" where
  "WritePing ack data f =
     endWrite (fr_writeBytes data (startWrite FramePing (if ack then FlagPingAck else 0) 0 f))"

definition WriteGoAway :: "32 word \<Rightarrow> 32 word \<Rightarrow> octet list \<Rightarrow> Framer \<Rightarrow> write_result" where
  "WriteGoAway maxStreamID code debugData f =
     endWrite (fr_writeBytes debugData (writeUint32 code (writeUint32 (maxStreamID AND 0x7FFFFFFF)
       (startWrite FrameGoAway 0 0 f))))"

definition WriteWindowUpdate :: "32 word \<Rightarrow> 32 word \<Rightarrow> Framer \<Rightarrow> write_result" where
  "WriteWindowUpdate streamID incr f =
     (if (incr < 1 \<or> incr > 2147483647) \<and> \<not> AllowIllegalWrites f
      then (Some (Http2Text ''illegal window increment value''), f)
      else endWrite (writeUint32 incr (startWrite FrameWindowUpdate 0 streamID f)))"

record HeadersFrameParam =
  hp_StreamID :: "32 word"
  hp_BlockFragment :: "octet list"
  hp_EndStream :: bool
  hp_EndHeaders :: bool
  hp_PadLength :: octet
  hp_Priority :: PriorityParam

definition headers_flags :: "HeadersFrameParam \<Rightarrow> octet" where
  "headers_flags p =
     (if hp_PadLength p \<noteq> 0 then FlagHeadersPadded else 0) OR
     (if hp_EndStream p then FlagHeadersEndStream else 0) OR
     (if hp_EndHeaders p then FlagHeadersEndHeaders else 0) OR
     (if PriorityParam_IsZero (hp_Priority p) then 0 else FlagHeadersPriority)"

text \<open>The word of a stream dependency, with the exclusive bit.\<close>

definition priority_word :: "PriorityParam \<Rightarrow> 32 word" where
  "priority_word p = (if Exclusive p then StreamDep p OR push_bit 31 1 else StreamDep p)"

definition WriteHeaders :: "HeadersFrameParam \<Rightarrow> Framer \<Rightarrow> write_result" where
  "WriteHeaders p f =
     (if \<not> validStreamID (hp_StreamID p) \<and> \<not> AllowIllegalWrites f then (Some errStreamID, f)
      else
        let f1 = startWrite FrameHeaders (headers_flags p) (hp_StreamID p) f;
            f2 = (if hp_PadLength p \<noteq> 0 then writeByte (hp_PadLength p) f1 else f1);
            finish = (\<lambda>f3. endWrite (fr_writeBytes (take (unat (hp_PadLength p)) padZeros)
                                     (fr_writeBytes (hp_BlockFragment p) f3)))
        in if PriorityParam_IsZero (hp_Priority p) then finish f2
           else if \<not> validStreamID (StreamDep (hp_Priority p)) \<and> \<not> AllowIllegalWrites f2
           then (Some (Http2Text ''invalid dependent stream id''), f2)
           else finish (writeByte (Weight (hp_Priority p)) (writeUint32 (priority_word (hp_Priority p)) f2)))"

definition WritePriority :: "32 word \<Rightarrow> PriorityParam \<Rightarrow> Framer \<Rightarrow> write_result" where
  "WritePriority streamID p f =
     (if \<not> validStreamID streamID \<and> \<not> AllowIllegalWrites f then (Some errStreamID, f)
      else endWrite (writeByte (Weight p) (writeUint32 (priority_word p)
             (startWrite FramePriority 0 streamID f))))"

definition WriteRSTStream :: "32 word \<Rightarrow> 32 word \<Rightarrow> Framer \<Rightarrow> write_result" where
  "WriteRSTStream streamID code f =
     (if \<not> validStreamID streamID \<and> \<not> AllowIllegalWrites f then (Some errStreamID, f)
      else endWrite (writeUint32 code (startWrite FrameRSTStream 0 streamID f)))"

definition WriteContinuation :: "32 word \<Rightarrow> bool \<Rightarrow> octet list \<Rightarrow> Framer \<Rightarrow> write_result" where
  "WriteContinuation streamID endHeaders headerBlockFragment f =
     (if \<not> validStreamID streamID \<and> \<not> AllowIllegalWrites f then (Some errStreamID, f)
      else endWrite (fr_writeBytes headerBlockFragment
             (startWrite FrameContinuation (if endHeaders then FlagContinuationEndHeaders else 0) streamID f)))"

record PushPromiseParam =
  pp_StreamID :: "32 word"
  pp_PromiseID :: "32 word"
  pp_BlockFragment :: "octet list"
  pp_EndHeaders :: bool
  pp_PadLength :: octet

definition WritePushPromise :: "PushPromiseParam \<Rightarrow> Framer \<Rightarrow> write_result" where
  "WritePushPromise p f =
     (if \<not> validStreamID (pp_StreamID p) \<and> \<not> AllowIllegalWrites f then (Some errStreamID, f)
      else
        let flags = (if pp_PadLength p \<noteq> 0 then FlagPushPromisePadded else 0) OR
                    (if pp_EndHeaders p then FlagPushPromiseEndHeaders else 0);
            f1 = startWrite FramePushPromise flags (pp_StreamID p) f;
            f2 = (if pp_PadLength p \<noteq> 0 then writeByte (pp_PadLength p) f1 else f1)
        in if \<not> validStreamID (pp_PromiseID p) \<and> \<not> AllowIllegalWrites f2 then (Some errStreamID, f2)
           else endWrite (fr_writeBytes (take (unat (pp_PadLength p)) padZeros)
                  (fr_writeBytes (pp_BlockFragment p) (writeUint32 (pp_PromiseID p) f2))))"

definition WriteRawFrame :: "octet \<Rightarrow> octet \<Rightarrow> 32 word \<Rightarrow> octet list \<Rightarrow> Framer \<Rightarrow> write_result" where
  "WriteRawFrame t flags streamID payload f =
     endWrite (fr_writeBytes payload (startWrite t flags streamID f))"

end
