(* ===== verification/Http2_Framer.thy ===== *)
theory Http2_Framer
  imports Http2_Frame
begin

text \<open>
  Theorems about the framer. A frame on the wire is \<open>wire_frame\<close>; a call of a write method puts the
  frame of its arguments there (\<open>do_write_wire\<close>) and the parser of its type gives it back
  (\<open>parse_call\<close>), so sequences of frames survive a connection. Reading any bytes ends without a crash
  (\<open>ReadFrame_total\<close>), and only the frame that was read last can be used (\<open>owned\<close>).
\<close>

section \<open>Numbers on the wire\<close>

lemma bit_ucast_octet: "bit (ucast (b :: octet) :: 'a :: len word) n \<longleftrightarrow> n < LENGTH('a) \<and> n < 8 \<and> bit b n"
  by (auto simp: bit_ucast_iff dest: bit_imp_le_length)

lemma be32_parts:
  "push_bit 24 (ucast (ucast (drop_bit 24 v) :: octet)) OR push_bit 16 (ucast (ucast (drop_bit 16 v) :: octet)) OR
   push_bit 8 (ucast (ucast (drop_bit 8 v) :: octet)) OR ucast (ucast v :: octet) = (v :: 32 word)"
proof (rule bit_word_eqI)
  fix n assume "n < LENGTH(32)"
  then consider "n < 8" | "8 \<le> n" "n < 16" | "16 \<le> n" "n < 24" | "24 \<le> n" "n < 32" by fastforce
  then show "bit (push_bit 24 (ucast (ucast (drop_bit 24 v) :: octet)) OR push_bit 16 (ucast (ucast (drop_bit 16 v) :: octet)) OR
   push_bit 8 (ucast (ucast (drop_bit 8 v) :: octet)) OR ucast (ucast v :: octet) :: 32 word) n = bit v n"
    by cases (auto simp: bit_or_iff bit_push_bit_iff bit_ucast_octet bit_ucast_iff bit_drop_bit_eq)
qed

lemma BigEndian_be32 [simp]: "BigEndian_Uint32 (be32 v @ r) = Returns v"
  by (simp add: be32_def be32_parts)

lemma length_be32 [simp]: "length (be32 v) = 4"
  by (simp add: be32_def)

lemma be16_parts: "push_bit 8 (ucast (ucast (drop_bit 8 v) :: octet)) OR ucast (ucast v :: octet) = (v :: 16 word)"
proof (rule bit_word_eqI)
  fix n assume "n < LENGTH(16)"
  then consider "n < 8" | "8 \<le> n" "n < 16" by fastforce
  then show "bit (push_bit 8 (ucast (ucast (drop_bit 8 v) :: octet)) OR ucast (ucast v :: octet) :: 16 word) n = bit v n"
    by cases (auto simp: bit_or_iff bit_push_bit_iff bit_ucast_octet bit_ucast_iff bit_drop_bit_eq)
qed

lemma BigEndian_be16 [simp]: "BigEndian_Uint16 (be16 v @ r) = Returns v"
  by (simp add: be16_def be16_parts)

lemma length_be16 [simp]: "length (be16 v) = 2"
  by (simp add: be16_def)

lemma BigEndian_be_Nil [simp]: "BigEndian_Uint32 (be32 v) = Returns v" "BigEndian_Uint16 (be16 u) = Returns u"
  using BigEndian_be32 [of v "[]"] BigEndian_be16 [of u "[]"] by simp_all

definition be24 :: "nat \<Rightarrow> octet list" where
  "be24 n = [word_of_int (drop_bit 16 (int n)), word_of_int (drop_bit 8 (int n)), word_of_int (int n)]"

lemma be24_parts:
  fixes x :: int
  assumes "0 \<le> x" "x < 2 ^ 24"
  shows "push_bit 16 (ucast (word_of_int (drop_bit 16 (x)) :: octet)) OR
         push_bit 8 (ucast (word_of_int (drop_bit 8 (x)) :: octet)) OR
         ucast (word_of_int (x) :: octet) = (word_of_int (x) :: 32 word)"
proof (rule bit_word_eqI)
  fix k assume k: "k < LENGTH(32)"
  have hi: "\<not> bit (x) k" if "24 \<le> k"
  proof -
    have "(2 :: int) ^ 24 \<le> 2 ^ k" using that by (rule power_increasing) simp
    moreover have "x < 2 ^ 24" by (rule assms)
    ultimately have "x < 2 ^ k" by (rule less_le_trans [rotated])
    then show ?thesis using assms(1) by (simp add: bit_iff_odd)
  qed
  from k consider "k < 8" | "8 \<le> k" "k < 16" | "16 \<le> k" "k < 24" | "24 \<le> k" "k < 32" by fastforce
  then show "bit (push_bit 16 (ucast (word_of_int (drop_bit 16 (x)) :: octet)) OR
         push_bit 8 (ucast (word_of_int (drop_bit 8 (x)) :: octet)) OR
         ucast (word_of_int (x) :: octet) :: 32 word) k = bit (word_of_int (x) :: 32 word) k"
    using hi by cases (auto simp: bit_or_iff bit_push_bit_iff bit_ucast_octet bit_word_of_int_iff bit_drop_bit_eq)
qed

section \<open>A frame on the wire\<close>

definition wire_frame :: "octet \<Rightarrow> octet \<Rightarrow> 32 word \<Rightarrow> octet list \<Rightarrow> octet list" where
  "wire_frame t fl i p = be24 (length p) @ [t, fl] @ be32 i @ p"

definition header_of :: "octet \<Rightarrow> octet \<Rightarrow> 32 word \<Rightarrow> octet list \<Rightarrow> FrameHeader" where
  "header_of t fl i p = \<lparr>fh_valid = True, fh_Type = t, fh_Flags = fl, fh_Length = of_nat (length p),
     fh_StreamID = i AND 0x7FFFFFFF\<rparr>"

lemma io_ReadFull_append [simp]: "length a = n \<Longrightarrow> io_ReadFull (a @ b) n = (Inr a, b)"
  by (simp add: io_ReadFull_def)

lemma readFrameHeader_wire:
  assumes "length p < 2 ^ 24"
  shows "readFrameHeader (wire_frame t fl i p @ rest) = Returns (Inr (header_of t fl i p), p @ rest)"
proof -
  let ?h = "be24 (length p) @ [t, fl] @ be32 i"
  have "io_ReadFull (wire_frame t fl i p @ rest) frameHeaderLen = (Inr ?h, p @ rest)"
    using io_ReadFull_append [of ?h frameHeaderLen "p @ rest"]
    by (simp add: wire_frame_def be24_def frameHeaderLen_def)
  moreover have "drop 5 ?h = be32 i" by (simp add: be24_def)
  moreover have "push_bit 16 (ucast (?h ! 0)) OR push_bit 8 (ucast (?h ! 1)) OR ucast (?h ! 2)
      = (of_nat (length p) :: 32 word)"
    using be24_parts [of "int (length p)"] assms by (simp add: be24_def)
  ultimately show ?thesis by (simp add: readFrameHeader_def header_of_def be24_def)
qed

lemma unat_length24: "n < 2 ^ 24 \<Longrightarrow> unat (of_nat n :: 32 word) = n"
  by (simp add: unat_of_nat)

lemma ReadFrame_wire:
  assumes "fr_r fr = wire_frame t fl i p @ rest" "length p < 2 ^ 24" "length p \<le> unat (fr_maxReadSize fr)"
    and "typeFrameParser t (header_of t fl i p) p = Returns (Inr f)"
  shows "ReadFrame fr =
    (let fs = fr_frames (invalidate_last fr) in
     Returns (Inr (length fs), fr\<lparr>fr_r := rest, fr_frames := fs @ [f], fr_last := Some (length fs)\<rparr>))"
proof -
  have "fr_r (invalidate_last fr) = fr_r fr" "fr_maxReadSize (invalidate_last fr) = fr_maxReadSize fr"
    and upd: "fr\<lparr>fr_r := a, fr_frames := b, fr_last := c\<rparr> = (invalidate_last fr)\<lparr>fr_r := a, fr_frames := b, fr_last := c\<rparr>" for a b c
    by (simp_all add: invalidate_last_def split: option.split)
  moreover have "\<not> of_nat (length p) > fr_maxReadSize fr"
    using assms(2,3) by (simp add: word_less_nat_alt unat_length24)
  ultimately show ?thesis
    using assms(1,4) readFrameHeader_wire [OF assms(2), of t fl i rest] assms(2)
    by (simp add: ReadFrame_def Let_def unat_length24) (simp add: header_of_def unat_length24 Let_def)
qed

text \<open>A writer that takes all it is given.\<close>

definition accepting :: "(octet list \<Rightarrow> octet list \<Rightarrow> nat \<times> http2_error option) \<Rightarrow> bool" where
  "accepting w \<longleftrightarrow> (\<forall>out b. w out b = (length b, None))"

lemma endWrite_wire:
  assumes "fr_wbuf f = [0, 0, 0, t, fl] @ be32 i @ p" "length p < 2 ^ 24" "accepting (fr_w f)"
  shows "endWrite f = (None, f\<lparr>fr_wbuf := wire_frame t fl i p, fr_out := fr_out f @ wire_frame t fl i p\<rparr>)"
  using assms by (simp add: endWrite_def frameHeaderLen_def wire_frame_def be24_def Let_def accepting_def)

section \<open>Calls of the writer\<close>

datatype write_call =
    Call_Data "32 word" bool "octet list"
  | Call_Settings "Setting list"
  | Call_SettingsAck
  | Call_Ping bool "octet list"
  | Call_GoAway "32 word" "32 word" "octet list"
  | Call_WindowUpdate "32 word" "32 word"
  | Call_Headers HeadersFrameParam
  | Call_Priority "32 word" PriorityParam
  | Call_RSTStream "32 word" "32 word"
  | Call_Continuation "32 word" bool "octet list"
  | Call_PushPromise PushPromiseParam
  | Call_Raw octet octet "32 word" "octet list"

fun do_write :: "write_call \<Rightarrow> Framer \<Rightarrow> write_result" where
  "do_write (Call_Data i e d) = WriteData i e d"
| "do_write (Call_Settings ss) = WriteSettings ss"
| "do_write Call_SettingsAck = WriteSettingsAck"
| "do_write (Call_Ping a d) = WritePing a d"
| "do_write (Call_GoAway i c d) = WriteGoAway i c d"
| "do_write (Call_WindowUpdate i n) = WriteWindowUpdate i n"
| "do_write (Call_Headers p) = WriteHeaders p"
| "do_write (Call_Priority i p) = WritePriority i p"
| "do_write (Call_RSTStream i c) = WriteRSTStream i c"
| "do_write (Call_Continuation i e b) = WriteContinuation i e b"
| "do_write (Call_PushPromise p) = WritePushPromise p"
| "do_write (Call_Raw t fl i p) = WriteRawFrame t fl i p"

text \<open>Calls one after the other, until one returns an error.\<close>

fun do_writes :: "write_call list \<Rightarrow> Framer \<Rightarrow> write_result" where
  "do_writes [] f = (None, f)"
| "do_writes (c # cs) f =
     (case do_write c f of (Some e, f') \<Rightarrow> (Some e, f') | (None, f') \<Rightarrow> do_writes cs f')"

text \<open>What a call means: the type, flags, stream and payload of its frame, and the frame itself.\<close>

definition pad_prefix :: "octet \<Rightarrow> octet list" where
  "pad_prefix n = (if n = 0 then [] else [n])"

definition setting_bytes :: "Setting \<Rightarrow> octet list" where
  "setting_bytes s = be16 (set_ID s) @ be32 (set_Val s)"

definition priority_bytes :: "PriorityParam \<Rightarrow> octet list" where
  "priority_bytes p = be32 (priority_word p) @ [Weight p]"

fun call_payload :: "write_call \<Rightarrow> octet list" where
  "call_payload (Call_Data i e d) = d"
| "call_payload (Call_Settings ss) = concat (map setting_bytes ss)"
| "call_payload Call_SettingsAck = []"
| "call_payload (Call_Ping a d) = d"
| "call_payload (Call_GoAway i c d) = be32 (i AND 0x7FFFFFFF) @ be32 c @ d"
| "call_payload (Call_WindowUpdate i n) = be32 n"
| "call_payload (Call_Headers p) =
     pad_prefix (hp_PadLength p)
     @ (if PriorityParam_IsZero (hp_Priority p) then [] else priority_bytes (hp_Priority p))
     @ hp_BlockFragment p @ replicate (unat (hp_PadLength p)) 0"
| "call_payload (Call_Priority i p) = priority_bytes p"
| "call_payload (Call_RSTStream i c) = be32 c"
| "call_payload (Call_Continuation i e b) = b"
| "call_payload (Call_PushPromise p) =
     pad_prefix (pp_PadLength p) @ be32 (pp_PromiseID p) @ pp_BlockFragment p @ replicate (unat (pp_PadLength p)) 0"
| "call_payload (Call_Raw t fl i p) = p"

definition push_flags :: "PushPromiseParam \<Rightarrow> octet" where
  "push_flags p = (if pp_PadLength p \<noteq> 0 then FlagPushPromisePadded else 0) OR
                  (if pp_EndHeaders p then FlagPushPromiseEndHeaders else 0)"

fun call_head :: "write_call \<Rightarrow> octet \<times> octet \<times> 32 word" where
  "call_head (Call_Data i e d) = (FrameData, if e then FlagDataEndStream else 0, i)"
| "call_head (Call_Settings ss) = (FrameSettings, 0, 0)"
| "call_head Call_SettingsAck = (FrameSettings, FlagSettingsAck, 0)"
| "call_head (Call_Ping a d) = (FramePing, if a then FlagPingAck else 0, 0)"
| "call_head (Call_GoAway i c d) = (FrameGoAway, 0, 0)"
| "call_head (Call_WindowUpdate i n) = (FrameWindowUpdate, 0, i)"
| "call_head (Call_Headers p) = (FrameHeaders, headers_flags p, hp_StreamID p)"
| "call_head (Call_Priority i p) = (FramePriority, 0, i)"
| "call_head (Call_RSTStream i c) = (FrameRSTStream, 0, i)"
| "call_head (Call_Continuation i e b) = (FrameContinuation, if e then FlagContinuationEndHeaders else 0, i)"
| "call_head (Call_PushPromise p) = (FramePushPromise, push_flags p, pp_StreamID p)"
| "call_head (Call_Raw t fl i p) = (t, fl, i)"

definition call_header :: "write_call \<Rightarrow> FrameHeader" where
  "call_header c = (case call_head c of (t, fl, i) \<Rightarrow> header_of t fl i (call_payload c))"

definition call_wire :: "write_call \<Rightarrow> octet list" where
  "call_wire c = (case call_head c of (t, fl, i) \<Rightarrow> wire_frame t fl i (call_payload c))"

fun call_frame :: "write_call \<Rightarrow> Frame" where
  "call_frame (Call_Data i e d) = DataFrame (call_header (Call_Data i e d)) d"
| "call_frame (Call_Settings ss) =
     SettingsFrame (call_header (Call_Settings ss)) (call_payload (Call_Settings ss))"
| "call_frame Call_SettingsAck = SettingsFrame (call_header Call_SettingsAck) []"
| "call_frame (Call_Ping a d) = PingFrame (call_header (Call_Ping a d)) d"
| "call_frame (Call_GoAway i c d) = GoAwayFrame (call_header (Call_GoAway i c d)) (i AND 0x7FFFFFFF) c d"
| "call_frame (Call_WindowUpdate i n) = WindowUpdateFrame (call_header (Call_WindowUpdate i n)) n"
| "call_frame (Call_Headers p) = HeadersFrame (call_header (Call_Headers p)) (hp_Priority p) (hp_BlockFragment p)"
| "call_frame (Call_Priority i p) = PriorityFrame (call_header (Call_Priority i p)) p"
| "call_frame (Call_RSTStream i c) = RSTStreamFrame (call_header (Call_RSTStream i c)) c"
| "call_frame (Call_Continuation i e b) = ContinuationFrame (call_header (Call_Continuation i e b)) b"
| "call_frame (Call_PushPromise p) =
     PushPromiseFrame (call_header (Call_PushPromise p)) (pp_PromiseID p) (pp_BlockFragment p)"
| "call_frame (Call_Raw t fl i p) = UnknownFrame (call_header (Call_Raw t fl i p)) p"

text \<open>
  The calls whose frames the protocol allows, as far as they do not depend on other frames: stream
  identifiers of 31 bits, a window increment that is not zero, a header block that is not empty, the
  eight bytes of a ping, an initial window size of 31 bits. A raw frame has a type of its own.
\<close>

fun legal_call :: "write_call \<Rightarrow> bool" where
  "legal_call (Call_Data i e d) \<longleftrightarrow> validStreamID i"
| "legal_call (Call_Settings ss) \<longleftrightarrow>
     (case find (\<lambda>s. set_ID s = SettingInitialWindowSize) ss of
        None \<Rightarrow> True | Some s \<Rightarrow> set_Val s \<le> 0x7FFFFFFF)"
| "legal_call Call_SettingsAck \<longleftrightarrow> True"
| "legal_call (Call_Ping a d) \<longleftrightarrow> length d = 8"
| "legal_call (Call_GoAway i c d) \<longleftrightarrow> True"
| "legal_call (Call_WindowUpdate i n) \<longleftrightarrow> 1 \<le> n \<and> n \<le> 0x7FFFFFFF"
| "legal_call (Call_Headers p) \<longleftrightarrow>
     validStreamID (hp_StreamID p) \<and> hp_BlockFragment p \<noteq> [] \<and>
     (PriorityParam_IsZero (hp_Priority p) \<or> validStreamID (StreamDep (hp_Priority p)))"
| "legal_call (Call_Priority i p) \<longleftrightarrow> validStreamID i \<and> StreamDep p \<le> 0x7FFFFFFF"
| "legal_call (Call_RSTStream i c) \<longleftrightarrow> validStreamID i"
| "legal_call (Call_Continuation i e b) \<longleftrightarrow> validStreamID i"
| "legal_call (Call_PushPromise p) \<longleftrightarrow> validStreamID (pp_StreamID p) \<and> validStreamID (pp_PromiseID p)"
| "legal_call (Call_Raw t fl i p) \<longleftrightarrow> t > FrameContinuation"

lemma write_settings_wbuf:
  "write_settings ss f = f\<lparr>fr_wbuf := fr_wbuf f @ concat (map setting_bytes ss)\<rparr>"
  by (induction ss arbitrary: f) (simp_all add: setting_bytes_def writeUint16_def writeUint32_def)

lemmas write_defs = fr_writeBytes_def writeByte_def writeUint32_def startWrite_def

lemma padZeros_take [simp]: "take (unat (n :: octet)) padZeros = replicate (unat n) 0"
proof -
  have "unat n < 2 ^ 8" using unsigned_less [of n] by simp
  then show ?thesis by (simp add: padZeros_def min_def)
qed

lemma endWrite_framed:
  assumes "length p < 2 ^ 24" "accepting (fr_w f)"
  shows "endWrite (f\<lparr>fr_wbuf := 0 # 0 # 0 # t # fl # be32 i @ p\<rparr>) =
         (None, f\<lparr>fr_wbuf := wire_frame t fl i p, fr_out := fr_out f @ wire_frame t fl i p\<rparr>)"
  using endWrite_wire [of "f\<lparr>fr_wbuf := 0 # 0 # 0 # t # fl # be32 i @ p\<rparr>" t fl i p] assms by simp

lemma do_write_wire:
  assumes "legal_call c" "length (call_payload c) < 2 ^ 24" "accepting (fr_w f)"
  shows "do_write c f = (None, f\<lparr>fr_wbuf := call_wire c, fr_out := fr_out f @ call_wire c\<rparr>)"
proof -
  have "do_write c f = endWrite (f\<lparr>fr_wbuf := 0 # 0 # 0 # fst (call_head c) # fst (snd (call_head c))
          # be32 (snd (snd (call_head c))) @ call_payload c\<rparr>)"
    using assms(1)
    by (cases c) (auto simp: WriteData_def WriteSettings_def WriteSettingsAck_def WritePing_def WriteGoAway_def
      WriteWindowUpdate_def WriteHeaders_def WritePriority_def WriteRSTStream_def WriteContinuation_def
      WritePushPromise_def WriteRawFrame_def write_defs write_settings_wbuf push_flags_def Let_def
      pad_prefix_def priority_bytes_def)
  then show ?thesis
    using endWrite_framed [OF assms(2,3)] by (simp add: call_wire_def split: prod.split)
qed

section \<open>Parsing what was written\<close>

lemma mask31: "(0x7FFFFFFF :: 32 word) = mask 31" "push_bit 31 (1 :: 32 word) = 2 ^ 31"
  by (simp_all add: mask_eq_exp_minus_1 push_bit_eq_mult)

lemma and_mask31_self: "x \<le> 0x7FFFFFFF \<Longrightarrow> x AND 0x7FFFFFFF = (x :: 32 word)"
proof -
  assume "x \<le> 0x7FFFFFFF"
  then have "unat x < 2 ^ 31" by (simp add: word_le_nat_alt)
  then have "unat (take_bit 31 x) = unat x" by (simp add: unsigned_take_bit_eq take_bit_nat_eq_self)
  then have "take_bit 31 x = x" by (rule word_unat_eq_iff [THEN iffD2])
  then show ?thesis by (simp add: mask31(1) flip: take_bit_eq_mask)
qed

lemma validStreamID_bit: "validStreamID i \<longleftrightarrow> i \<noteq> 0 \<and> \<not> bit i 31"
  by (simp add: validStreamID_def push_bit_eq_mult flip: and_exp_eq_0_iff_not_bit)

lemma not_bit31_mask: "\<not> bit i 31 \<Longrightarrow> i AND 0x7FFFFFFF = (i :: 32 word)"
proof (rule bit_word_eqI)
  fix n assume "\<not> bit i 31" "n < LENGTH(32)"
  then show "bit (i AND 0x7FFFFFFF) n = bit i n"
    by (cases "n = 31") (auto simp: mask31 bit_and_iff bit_mask_iff)
qed

lemma validStreamID_mask: "validStreamID i \<Longrightarrow> i AND 0x7FFFFFFF = i"
  by (simp add: validStreamID_bit not_bit31_mask)

lemma priority_word_split:
  assumes "StreamDep p AND 0x7FFFFFFF = StreamDep p"
  shows "priority_word p AND 0x7FFFFFFF = StreamDep p"
    and "priority_word p \<noteq> StreamDep p \<longleftrightarrow> Exclusive p"
proof -
  have nb: "\<not> bit (StreamDep p) 31"
    using arg_cong [OF assms, of "\<lambda>x. bit x 31"] by (auto simp: mask31 bit_and_iff bit_mask_iff)
  have top: "bit (priority_word p) 31 \<longleftrightarrow> Exclusive p"
    using nb by (simp add: priority_word_def mask31 bit_or_iff bit_exp_iff)
  show "priority_word p \<noteq> StreamDep p \<longleftrightarrow> Exclusive p"
    using nb top by (auto simp: priority_word_def)
  show "priority_word p AND 0x7FFFFFFF = StreamDep p"
  proof (rule bit_word_eqI)
    fix n assume n: "n < LENGTH(32)"
    have "bit (StreamDep p) n \<longleftrightarrow> bit (StreamDep p) n \<and> n < 31"
      using nb n by (cases "n = 31") auto
    moreover have "\<not> bit (push_bit 31 (1 :: 32 word)) n" if "n < 31"
      using that by (subst bit_push_bit_iff) simp
    ultimately show "bit (priority_word p AND 0x7FFFFFFF) n = bit (StreamDep p) n"
      unfolding priority_word_def mask31(1) bit_and_iff bit_mask_iff if_distrib [of "\<lambda>x. bit x n"] bit_or_iff
      using n by auto
  qed
qed

lemma slice_to_append [simp]: "int (length a) = n \<Longrightarrow> slice_to (a @ b) n = Returns a"
  by (auto simp: slice_to_def)

lemma slice_to_all [simp]: "int (length a) = n \<Longrightarrow> slice_to a n = Returns a"
  using slice_to_append [of a n "[]"] by simp

lemma Settings_Value_bytes:
  "Settings_Value_loop (concat (map setting_bytes ss)) k =
     Returns (map_option set_Val (find (\<lambda>s. set_ID s = k) ss))"
proof (induction ss)
  case Nil
  then show ?case by (simp add: Settings_Value_loop.simps)
next
  case (Cons s ss)
  let ?r = "concat (map setting_bytes ss)"
  have "slice_to (setting_bytes s @ ?r) 2 = Returns (be16 (set_ID s))"
    by (simp add: setting_bytes_def)
  moreover have "slice_to (setting_bytes s @ ?r) 6 = Returns (setting_bytes s)"
    by (rule slice_to_append) (simp add: setting_bytes_def)
  moreover have "drop 2 (setting_bytes s) = be32 (set_Val s)" "length (setting_bytes s) = 6"
    by (simp_all add: setting_bytes_def)
  ultimately show ?case
    using Cons.IH by (subst Settings_Value_loop.simps) (auto simp: Let_def)
qed

lemma setting_bytes_mod [simp]: "length (concat (map setting_bytes ss)) mod 6 = 0"
  by (induction ss) (simp_all add: setting_bytes_def)

lemma Flags_headers:
  "Flags_Has (headers_flags p) FlagHeadersPadded \<longleftrightarrow> hp_PadLength p \<noteq> 0"
  "Flags_Has (headers_flags p) FlagHeadersPriority \<longleftrightarrow> \<not> PriorityParam_IsZero (hp_Priority p)"
  by (simp_all add: headers_flags_def Flags_Has_def frame_consts)

lemma Flags_push: "Flags_Has (push_flags p) FlagPushPromisePadded \<longleftrightarrow> pp_PadLength p \<noteq> 0"
  by (simp add: push_flags_def Flags_Has_def frame_consts)

lemma read_pad_prefix: "Flags_Has fl g \<longleftrightarrow> n \<noteq> 0 \<Longrightarrow> read_pad fl g (pad_prefix n @ r) = Inr (r, n)"
  by (simp add: read_pad_def pad_prefix_def)

lemma readUint32_be32 [simp]: "readUint32 (be32 v @ r) = Returns (Inr (r, v))"
  by (simp add: readUint32_def)

lemma read_priority_bytes:
  assumes "StreamDep p AND 0x7FFFFFFF = StreamDep p"
  shows "read_priority (priority_bytes p @ r) = Returns (Inr (r, p))"
  using priority_word_split [OF assms] by (simp add: read_priority_def priority_bytes_def Let_def)

lemma header_of_sel [simp]:
  "fh_valid (header_of t fl i p)" "fh_Type (header_of t fl i p) = t" "fh_Flags (header_of t fl i p) = fl"
  "fh_Length (header_of t fl i p) = of_nat (length p)" "fh_StreamID (header_of t fl i p) = i AND 0x7FFFFFFF"
  by (simp_all add: header_of_def)

lemma parse_headers:
  assumes "legal_call (Call_Headers p)"
  shows "parseHeadersFrame (call_header (Call_Headers p)) (call_payload (Call_Headers p)) =
         Returns (Inr (call_frame (Call_Headers p)))"
proof -
  let ?z = "PriorityParam_IsZero (hp_Priority p)"
  let ?b = "hp_BlockFragment p @ replicate (unat (hp_PadLength p)) 0"
  have "StreamDep (hp_Priority p) AND 0x7FFFFFFF = StreamDep (hp_Priority p)"
    using assms by (auto simp: PriorityParam_IsZero_def no_priority_def validStreamID_mask)
  then have "(if \<not> ?z then read_priority ((if ?z then [] else priority_bytes (hp_Priority p)) @ ?b)
              else Returns (Inr ((if ?z then [] else priority_bytes (hp_Priority p)) @ ?b, no_priority)))
             = Returns (Inr (?b, hp_Priority p))"
    using read_priority_bytes by (auto simp: PriorityParam_IsZero_def)
  moreover have "hp_StreamID p AND 0x7FFFFFFF \<noteq> 0" "hp_BlockFragment p \<noteq> []"
    using assms validStreamID_mask [of "hp_StreamID p"] by (auto simp: validStreamID_bit)
  ultimately show ?thesis
    by (simp add: parseHeadersFrame_def call_header_def Flags_headers read_pad_prefix Let_def)
qed

lemma parse_push:
  assumes "legal_call (Call_PushPromise p)"
  shows "parsePushPromise (call_header (Call_PushPromise p)) (call_payload (Call_PushPromise p)) =
         Returns (Inr (call_frame (Call_PushPromise p)))"
  using assms validStreamID_mask [of "pp_StreamID p"] validStreamID_mask [of "pp_PromiseID p"]
  by (auto simp: parsePushPromise_def call_header_def Flags_push read_pad_prefix validStreamID_bit)

lemma parse_settings:
  assumes "legal_call (Call_Settings ss)"
  shows "parseSettingsFrame (call_header (Call_Settings ss)) (call_payload (Call_Settings ss)) =
         Returns (Inr (call_frame (Call_Settings ss)))"
  using assms
  by (auto simp: parseSettingsFrame_def call_header_def SettingsFrame_Value_def checkValid_def
      Settings_Value_bytes Flags_Has_def frame_consts split: option.splits)

lemma parse_priority:
  assumes "legal_call (Call_Priority i p)"
  shows "parsePriorityFrame (call_header (Call_Priority i p)) (call_payload (Call_Priority i p)) =
         Returns (Inr (call_frame (Call_Priority i p)))"
proof -
  have "StreamDep p AND 0x7FFFFFFF = StreamDep p" using assms by (simp add: and_mask31_self)
  from priority_word_split [OF this] show ?thesis
    using assms validStreamID_mask [of i]
    by (auto simp: parsePriorityFrame_def call_header_def priority_bytes_def Let_def nth_append validStreamID_bit)
qed

lemma typeFrameParser_numbers:
  "typeFrameParser FrameData = parseDataFrame" "typeFrameParser FrameHeaders = parseHeadersFrame"
  "typeFrameParser FramePriority = parsePriorityFrame" "typeFrameParser FrameRSTStream = parseRSTStreamFrame"
  "typeFrameParser FrameSettings = parseSettingsFrame" "typeFrameParser FramePushPromise = parsePushPromise"
  "typeFrameParser FramePing = parsePingFrame" "typeFrameParser FrameGoAway = parseGoAwayFrame"
  "typeFrameParser FrameWindowUpdate = parseWindowUpdateFrame"
  "typeFrameParser FrameContinuation = parseContinuationFrame"
  by (simp_all add: typeFrameParser_def frame_consts)

lemma typeFrameParser_unknown: "t > FrameContinuation \<Longrightarrow> typeFrameParser t = parseUnknownFrame"
  by (auto simp: typeFrameParser_def frame_consts)

lemma parse_call:
  assumes "legal_call c"
  shows "typeFrameParser (fst (call_head c)) (call_header c) (call_payload c) = Returns (Inr (call_frame c))"
proof (cases c)
  case (Call_Data i e d)
  have "\<not> Flags_Has (if e then FlagDataEndStream else 0) FlagDataPadded"
    by (simp add: Flags_Has_def frame_consts)
  with Call_Data show ?thesis using assms validStreamID_mask [of i]
    by (auto simp: typeFrameParser_numbers parseDataFrame_def call_header_def read_pad_def validStreamID_bit)
next
  case Call_SettingsAck
  then show ?thesis
    by (simp add: typeFrameParser_numbers parseSettingsFrame_def call_header_def SettingsFrame_Value_def
        checkValid_def Settings_Value_loop.simps)
next
  case (Call_RSTStream i c)
  then show ?thesis using assms validStreamID_mask [of i]
    by (auto simp: typeFrameParser_numbers parseRSTStreamFrame_def call_header_def validStreamID_bit)
next
  case (Call_WindowUpdate i n)
  then have "n AND 0x7FFFFFFF = n" "n \<noteq> 0" using assms and_mask31_self [of n] by auto
  with Call_WindowUpdate show ?thesis
    by (simp add: typeFrameParser_numbers parseWindowUpdateFrame_def call_header_def Let_def)
next
  case (Call_GoAway i c d)
  have "slice_to (be32 (i AND 0x7FFFFFFF) @ be32 c @ d) 8 = Returns (be32 (i AND 0x7FFFFFFF) @ be32 c)"
    using slice_to_append [of "be32 (i AND 0x7FFFFFFF) @ be32 c" 8 d] by simp
  with Call_GoAway show ?thesis
    by (simp add: typeFrameParser_numbers parseGoAwayFrame_def call_header_def and.assoc)
next
  case (Call_Headers p)
  then show ?thesis using assms by (simp only: call_head.simps fst_conv typeFrameParser_numbers parse_headers)
next
  case (Call_PushPromise p)
  then show ?thesis using assms by (simp only: call_head.simps fst_conv typeFrameParser_numbers parse_push)
next
  case (Call_Settings ss)
  then show ?thesis using assms by (simp only: call_head.simps fst_conv typeFrameParser_numbers parse_settings)
next
  case (Call_Priority i p)
  then show ?thesis using assms by (simp only: call_head.simps fst_conv typeFrameParser_numbers parse_priority)
qed (use assms in \<open>simp_all add: typeFrameParser_numbers typeFrameParser_unknown call_header_def parsePingFrame_def
       parseContinuationFrame_def parseUnknownFrame_def\<close>)

section \<open>Reading back\<close>

text \<open>Calls of \<open>ReadFrame\<close> until one returns an error: the frames as they are handed out, and the error.\<close>

fun read_frames :: "nat \<Rightarrow> Framer \<Rightarrow> (Frame list \<times> http2_error option \<times> Framer) outcome" where
  "read_frames 0 fr = Returns ([], None, fr)"
| "read_frames (Suc n) fr =
     bind_outcome (ReadFrame fr) (\<lambda>(r, fr').
       case r of
         Inl e \<Rightarrow> Returns ([], Some e, fr')
       | Inr i \<Rightarrow> bind_outcome (read_frames n fr') (\<lambda>(fs, e, fr'').
           Returns (fr_frames fr' ! i # fs, e, fr'')))"

lemma do_writes_wire:
  assumes "\<forall>c \<in> set cs. legal_call c \<and> length (call_payload c) < 2 ^ 24" "accepting (fr_w f)"
  shows "\<exists>f'. do_writes cs f = (None, f') \<and> fr_out f' = fr_out f @ concat (map call_wire cs)"
  using assms
proof (induction cs arbitrary: f)
  case (Cons c cs)
  from Cons.prems Cons.IH [of "f\<lparr>fr_wbuf := call_wire c, fr_out := fr_out f @ call_wire c\<rparr>"]
  show ?case by (auto simp: do_write_wire)
qed simp

lemma ReadFrame_EOF: "fr_r fr = [] \<Longrightarrow> \<exists>fr'. ReadFrame fr = Returns (Inl Http2EOF, fr')"
  by (auto simp: ReadFrame_def readFrameHeader_def io_ReadFull_def frameHeaderLen_def invalidate_last_def Let_def
      split: option.split)

lemma read_frames_wire:
  assumes "\<forall>c \<in> set cs. legal_call c \<and> length (call_payload c) < 2 ^ 24 \<and>
             length (call_payload c) \<le> unat (fr_maxReadSize fr)"
    and "fr_r fr = concat (map call_wire cs)"
  shows "\<exists>fr'. read_frames (Suc (length cs)) fr = Returns (map call_frame cs, Some Http2EOF, fr')"
  using assms
proof (induction cs arbitrary: fr)
  case Nil
  then show ?case using ReadFrame_EOF [of fr] by auto
next
  case (Cons c cs)
  obtain t fl i where hd: "call_head c = (t, fl, i)" by (cases "call_head c")
  then have wire: "call_wire c = wire_frame t fl i (call_payload c)" by (simp add: call_wire_def)
  let ?fs = "fr_frames (invalidate_last fr)"
  let ?fr = "fr\<lparr>fr_r := concat (map call_wire cs), fr_frames := ?fs @ [call_frame c], fr_last := Some (length ?fs)\<rparr>"
  have "typeFrameParser t (header_of t fl i (call_payload c)) (call_payload c) = Returns (Inr (call_frame c))"
    using parse_call [of c] Cons.prems(1) hd by (simp add: call_header_def)
  then have "ReadFrame fr = Returns (Inr (length ?fs), ?fr)"
    using ReadFrame_wire [of fr t fl i "call_payload c" "concat (map call_wire cs)" "call_frame c"] Cons.prems wire
    by (simp add: Let_def)
  moreover have "\<exists>fr'. read_frames (Suc (length cs)) ?fr = Returns (map call_frame cs, Some Http2EOF, fr')"
    using Cons.prems(1) by (intro Cons.IH) auto
  ultimately show ?case by auto
qed

section \<open>What the receiver learns\<close>

text \<open>The flags of a frame that was read, and its settings in order.\<close>

lemma call_frame_flags:
  "HeadersEnded (call_frame (Call_Headers p)) \<longleftrightarrow> hp_EndHeaders p"
  "StreamEnded (call_frame (Call_Headers p)) \<longleftrightarrow> hp_EndStream p"
  "HasPriority (call_frame (Call_Headers p)) \<longleftrightarrow> \<not> PriorityParam_IsZero (hp_Priority p)"
  "HeadersEnded (call_frame (Call_Continuation i e b)) \<longleftrightarrow> e"
  "HeadersEnded (call_frame (Call_PushPromise q)) \<longleftrightarrow> pp_EndHeaders q"
  "StreamEnded (call_frame (Call_Data i e b)) \<longleftrightarrow> e"
  "Settings_IsAck (call_frame Call_SettingsAck)" "\<not> Settings_IsAck (call_frame (Call_Settings ss))"
  by (simp_all add: HeadersEnded_def StreamEnded_def HasPriority_def Settings_IsAck_def call_header_def
      headers_flags_def push_flags_def Flags_Has_def frame_consts)

fun foreach_list :: "(Setting \<Rightarrow> 's \<Rightarrow> http2_error option \<times> 's) \<Rightarrow> Setting list \<Rightarrow> 's \<Rightarrow> http2_error option \<times> 's" where
  "foreach_list fn [] st = (None, st)"
| "foreach_list fn (x # xs) st =
     (case fn x st of (Some e, st') \<Rightarrow> (Some e, st') | (None, st') \<Rightarrow> foreach_list fn xs st')"

lemma setting_at_bytes: "setting_at (setting_bytes x @ r) = Returns x"
proof -
  have "slice_to (setting_bytes x @ r) 6 = Returns (setting_bytes x)"
    by (rule slice_to_append) (simp add: setting_bytes_def)
  then show ?thesis by (simp add: setting_at_def) (simp add: setting_bytes_def)
qed

lemma ForeachSetting_call:
  "ForeachSetting (call_header (Call_Settings ss)) (call_payload (Call_Settings ss)) fn st = Returns (foreach_list fn ss st)"
proof -
  have "ForeachSetting_loop fn (concat (map setting_bytes ss)) st = Returns (foreach_list fn ss st)"
  proof (induction ss arbitrary: st)
    case Nil
    then show ?case by (simp add: ForeachSetting_loop.simps)
  next
    case (Cons x ss)
    have "length (setting_bytes x) = 6" by (simp add: setting_bytes_def)
    then show ?case
      using Cons.IH by (subst ForeachSetting_loop.simps) (auto simp: setting_at_bytes split: prod.split option.split)
  qed
  then show ?thesis by (simp add: ForeachSetting_def checkValid_def call_header_def)
qed

section \<open>Reading any bytes\<close>

lemma BigEndian_total: "4 \<le> length p \<Longrightarrow> \<exists>v. BigEndian_Uint32 p = Returns v"
  by (cases p rule: BigEndian_Uint32.cases) auto

lemma BigEndian16_total: "2 \<le> length p \<Longrightarrow> \<exists>v. BigEndian_Uint16 p = Returns v"
  by (cases p rule: BigEndian_Uint16.cases) auto

lemma slice_to_ok [simp]: "0 \<le> n \<Longrightarrow> n \<le> int (length p) \<Longrightarrow> slice_to p n = Returns (take (nat n) p)"
  by (simp add: slice_to_def)

lemma Settings_Value_total: "length b mod 6 = 0 \<Longrightarrow> \<exists>v. Settings_Value_loop b k = Returns v"
proof (induction "length b" arbitrary: b rule: less_induct)
  case less
  show ?case
  proof (cases "b = []")
    case False
    with less.prems have len: "6 \<le> length b" by (cases "length b < 6") auto
    then obtain i where i: "BigEndian_Uint16 (take 2 b) = Returns i" using BigEndian16_total [of "take 2 b"] by auto
    obtain v where v: "BigEndian_Uint32 (drop 2 (take 6 b)) = Returns v"
      using BigEndian_total [of "drop 2 (take 6 b)"] len by auto
    have "\<exists>v. Settings_Value_loop (drop 6 b) k = Returns v"
      using less.prems len by (intro less.hyps) (simp_all add: mod_if)
    then show ?thesis
      using i v len False by (subst Settings_Value_loop.simps) auto
  qed (simp add: Settings_Value_loop.simps)
qed

lemma readUint32_total: "\<exists>r. readUint32 p = Returns r \<and> (\<forall>q v. r = Inr (q, v) \<longrightarrow> length q + 4 = length p)"
  using BigEndian_total [of "take 4 p"] by (auto simp: readUint32_def)

lemma read_priority_total: "\<exists>r. read_priority p = Returns r"
  using readUint32_total [of p] by (auto simp: read_priority_def Let_def split: sum.split prod.split)

text \<open>A parser returns a frame with the header it was given, or an error.\<close>

definition parses_to_header :: "FrameHeader \<Rightarrow> parsed_frame \<Rightarrow> bool" where
  "parses_to_header fh r \<longleftrightarrow> (\<exists>e. r = Returns (Inl e)) \<or> (\<exists>f. r = Returns (Inr f) \<and> Header f = fh)"

lemma parses_to_header_simps [simp]:
  "parses_to_header fh (Returns (Inl e))" "parses_to_header fh (Returns (Inr f)) \<longleftrightarrow> Header f = fh"
  by (auto simp: parses_to_header_def)

lemma slice_to_minus: "n \<le> length a \<Longrightarrow> slice_to a (int (length a) - int n) = Returns (take (length a - n) a)"
  by (simp add: slice_to_def nat_diff_distrib)

lemma slice_to_pad [simp]:
  "unat (b :: octet) \<le> length a \<Longrightarrow> slice_to a (int (length a) - uint b) = Returns (take (length a - unat b) a)"
  using slice_to_minus [of "unat b" a] by simp

lemma parses_bind:
  "\<exists>r. m = Returns r \<Longrightarrow> (\<And>r. parses_to_header fh (k r)) \<Longrightarrow> parses_to_header fh (bind_outcome m k)"
  by auto

lemma parse_padded_total:
  "parses_to_header fh (parseDataFrame fh p)"
  "parses_to_header fh (parsePushPromise fh p)"
  "parses_to_header fh (parseHeadersFrame fh p)"
proof -
  show "parses_to_header fh (parseDataFrame fh p)"
    by (auto simp: parseDataFrame_def split: sum.split)
  show "parses_to_header fh (parsePushPromise fh p)"
    using readUint32_total
    by (auto simp: parsePushPromise_def split: sum.split intro!: parses_bind) blast
  show "parses_to_header fh (parseHeadersFrame fh p)"
    using read_priority_total
    by (auto simp: parseHeadersFrame_def Let_def split: sum.split intro!: parses_bind)
qed

lemma parse_total:
  assumes "fh_valid fh"
  shows "parses_to_header fh (typeFrameParser t fh p)"
proof -
  have "parses_to_header fh (parsePriorityFrame fh p)"
    using BigEndian_total [of "take 4 p"] by (auto simp: parsePriorityFrame_def Let_def)
  moreover have "parses_to_header fh (parseRSTStreamFrame fh p)"
    using BigEndian_total [of "take 4 p"] by (auto simp: parseRSTStreamFrame_def)
  moreover have "parses_to_header fh (parseSettingsFrame fh p)"
    using Settings_Value_total [of p SettingInitialWindowSize] assms
    by (auto simp: parseSettingsFrame_def SettingsFrame_Value_def checkValid_def split: option.split)
  moreover have "parses_to_header fh (parseGoAwayFrame fh p)"
    using BigEndian_total [of "take 4 p"] BigEndian_total [of "drop 4 (take 8 p)"]
    by (auto simp: parseGoAwayFrame_def)
  moreover have "parses_to_header fh (parseWindowUpdateFrame fh p)"
    using BigEndian_total [of "take 4 p"] by (auto simp: parseWindowUpdateFrame_def Let_def)
  ultimately show ?thesis
    using parse_padded_total [of fh p]
    by (simp add: typeFrameParser_def parsePingFrame_def parseContinuationFrame_def parseUnknownFrame_def)
qed

lemma readFrameHeader_total:
  "\<exists>h r'. readFrameHeader r = Returns (h, r') \<and> suffix r' r \<and>
     (case h of Inl e \<Rightarrow> True
      | Inr fh \<Rightarrow> fh_valid fh \<and> fh_StreamID fh \<le> 0x7FFFFFFF \<and> length r = frameHeaderLen + length r')"
proof (cases "frameHeaderLen \<le> length r")
  case True
  then obtain i where "BigEndian_Uint32 (drop 5 (take frameHeaderLen r)) = Returns i"
    using BigEndian_total [of "drop 5 (take frameHeaderLen r)"] by (auto simp: frameHeaderLen_def)
  then show ?thesis
    using True by (simp add: readFrameHeader_def io_ReadFull_def suffix_drop word_and_le1)
qed (auto simp: readFrameHeader_def io_ReadFull_def)

lemma io_ReadFull_suffix: "io_ReadFull r n = (x, r') \<Longrightarrow> suffix r' r"
  by (auto simp: io_ReadFull_def suffix_drop split: if_splits)

lemma invalidate_last_sel [simp]:
  "fr_r (invalidate_last fr) = fr_r fr" "fr_maxReadSize (invalidate_last fr) = fr_maxReadSize fr"
  "fr_last (invalidate_last fr) = fr_last fr" "length (fr_frames (invalidate_last fr)) = length (fr_frames fr)"
  by (simp_all add: invalidate_last_def split: option.split)

lemma Header_invalidate [simp]: "Header (invalidate f) = (Header f)\<lparr>fh_valid := False\<rparr>"
  by (cases f) auto

text \<open>What one call of \<open>ReadFrame\<close> does to the state.\<close>

definition read_step :: "Framer \<Rightarrow> http2_error + nat \<Rightarrow> Framer \<Rightarrow> bool" where
  "read_step fr r fr' \<longleftrightarrow>
     suffix (fr_r fr') (fr_r fr) \<and> fr_maxReadSize fr' = fr_maxReadSize fr \<and>
     (case r of
        Inl e \<Rightarrow> fr_frames fr' = fr_frames (invalidate_last fr) \<and> fr_last fr' = fr_last fr
      | Inr i \<Rightarrow>
          (\<exists>f. i = length (fr_frames fr) \<and> fr_frames fr' = fr_frames (invalidate_last fr) @ [f] \<and> fr_last fr' = Some i \<and>
             fh_valid (Header f) \<and> fh_StreamID (Header f) \<le> 0x7FFFFFFF \<and> fh_Length (Header f) \<le> fr_maxReadSize fr \<and>
             length (fr_r fr) = frameHeaderLen + unat (fh_Length (Header f)) + length (fr_r fr')))"

lemma ReadFrame_total: "\<exists>r fr'. ReadFrame fr = Returns (r, fr') \<and> read_step fr r fr'"
proof -
  obtain h r1 where h: "readFrameHeader (fr_r fr) = Returns (h, r1)" "suffix r1 (fr_r fr)"
    and fh: "case h of Inl e \<Rightarrow> True
      | Inr fh \<Rightarrow> fh_valid fh \<and> fh_StreamID fh \<le> 0x7FFFFFFF \<and> length (fr_r fr) = frameHeaderLen + length r1"
    using readFrameHeader_total by blast
  show ?thesis
  proof (cases "\<exists>fh. h = Inr fh \<and> \<not> fh_Length fh > fr_maxReadSize fr")
    case True
    then obtain fh where hr: "h = Inr fh" and le: "\<not> fh_Length fh > fr_maxReadSize fr" by blast
    obtain pl r2 where rf: "io_ReadFull r1 (unat (fh_Length fh)) = (pl, r2)" by (cases "io_ReadFull r1 (unat (fh_Length fh))")
    then have sf: "suffix r2 (fr_r fr)" using h(2) io_ReadFull_suffix suffix_order.trans by blast
    show ?thesis
    proof (cases pl)
      case (Inr payload)
      have len: "length r1 = unat (fh_Length fh) + length r2" using rf Inr by (auto simp: io_ReadFull_def split: if_splits)
      have "parses_to_header fh (typeFrameParser (fh_Type fh) fh payload)" using fh hr by (intro parse_total) simp
      then show ?thesis
        using h hr le rf sf Inr fh len
        by (auto simp: parses_to_header_def ReadFrame_def read_step_def Let_def)
    qed (use h hr le rf sf in \<open>simp add: ReadFrame_def read_step_def\<close>)
  next
    case False
    then show ?thesis using h by (cases h) (simp_all add: ReadFrame_def read_step_def)
  qed
qed

section \<open>Ownership of frames\<close>

text \<open>
  The operations of a framer, and runs of them. Only the frame that was read last may be valid
  (\<open>owned\<close>).
\<close>

datatype framer_op = Op_Read | Op_Write write_call | Op_SetMax "32 word"

fun run_op :: "framer_op \<Rightarrow> Framer \<Rightarrow> Framer outcome" where
  "run_op Op_Read fr = bind_outcome (ReadFrame fr) (\<lambda>(r, fr'). Returns fr')"
| "run_op (Op_Write c) fr = Returns (snd (do_write c fr))"
| "run_op (Op_SetMax v) fr = Returns (SetMaxReadFrameSize v fr)"

fun run_framer :: "framer_op list \<Rightarrow> Framer \<Rightarrow> Framer outcome" where
  "run_framer [] fr = Returns fr"
| "run_framer (o1 # os) fr = bind_outcome (run_op o1 fr) (run_framer os)"

definition owned :: "Framer \<Rightarrow> bool" where
  "owned fr \<longleftrightarrow>
     (\<forall>i < length (fr_frames fr). fh_valid (Header (fr_frames fr ! i)) \<longrightarrow> fr_last fr = Some i) \<and>
     (case fr_last fr of None \<Rightarrow> True | Some i \<Rightarrow> i < length (fr_frames fr))"

lemma endWrite_read_side:
  "fr_frames (snd (endWrite f)) = fr_frames f" "fr_last (snd (endWrite f)) = fr_last f"
  by (simp_all add: endWrite_def Let_def split: prod.split)

lemma do_write_read_side:
  "fr_frames (snd (do_write c f)) = fr_frames f \<and> fr_last (snd (do_write c f)) = fr_last f"
  by (cases c) (simp_all add: WriteData_def WriteSettings_def WriteSettingsAck_def WritePing_def WriteGoAway_def
      WriteWindowUpdate_def WriteHeaders_def WritePriority_def WriteRSTStream_def WriteContinuation_def
      WritePushPromise_def WriteRawFrame_def write_defs write_settings_wbuf endWrite_read_side Let_def)

lemma invalidate_last_none_valid:
  assumes "owned fr" "i < length (fr_frames fr)"
  shows "\<not> fh_valid (Header (fr_frames (invalidate_last fr) ! i))"
  using assms by (cases "fr_last fr = Some i") (auto simp: owned_def invalidate_last_def nth_list_update split: option.splits)

lemma read_step_valid:
  assumes "owned fr" "read_step fr r fr'"
  shows "\<forall>i < length (fr_frames fr'). fh_valid (Header (fr_frames fr' ! i)) \<longleftrightarrow> r = Inr i"
  using assms invalidate_last_none_valid [OF assms(1)]
  by (cases r) (auto simp: read_step_def nth_append less_Suc_eq)

lemma read_step_owned: "owned fr \<Longrightarrow> read_step fr r fr' \<Longrightarrow> owned fr'"
  using read_step_valid [of fr r fr'] by (cases r) (auto simp: owned_def read_step_def split: option.splits)

lemma run_op_owned: "owned fr \<Longrightarrow> \<exists>fr'. run_op a fr = Returns fr' \<and> owned fr'"
proof (cases a)
  case Op_Read
  assume "owned fr"
  then show ?thesis using ReadFrame_total [of fr] read_step_owned Op_Read by fastforce
qed (auto simp: owned_def SetMaxReadFrameSize_def do_write_read_side split: option.splits)

lemma run_framer_owned: "owned fr \<Longrightarrow> \<exists>fr'. run_framer ops fr = Returns fr' \<and> owned fr'"
proof (induction ops arbitrary: fr)
  case (Cons a ops)
  then show ?case using run_op_owned [of fr a] by fastforce
qed simp

lemma NewFramer_owned: "owned (NewFramer w r)"
  by (simp add: owned_def NewFramer_def SetMaxReadFrameSize_def)

section \<open>Properties\<close>

text \<open>
  C17: Frames survive the wire. For every sequence of calls of the write methods that the protocol
  allows, with payloads within the limit that the reader announced, all the calls succeed; and a
  reader of the bytes that were written gets the same frames in the same order, each with its type,
  flags, stream and contents (padding removed, priority and settings as they were given), and then
  the end of the stream.
\<close>

theorem frames_round_trip:
  assumes "accepting w" and "\<forall>c \<in> set cs. legal_call c \<and> length (call_payload c) \<le> unat v"
    and "v \<le> maxFrameSize"
  shows "\<exists>f fr. do_writes cs (NewFramer w r) = (None, f) \<and>
     read_frames (Suc (length cs)) (SetMaxReadFrameSize v (NewFramer w' (fr_out f))) =
       Returns (map call_frame cs, Some Http2EOF, fr)"
proof -
  have "unat v < 2 ^ 24" using assms(3) by (simp add: maxFrameSize_def word_le_nat_alt)
  with assms(2) have small: "\<forall>c \<in> set cs. legal_call c \<and> length (call_payload c) < 2 ^ 24" by fastforce
  have "accepting (fr_w (NewFramer w r))" using assms(1) by (simp add: NewFramer_def SetMaxReadFrameSize_def)
  from do_writes_wire [OF small this]
  obtain f where f: "do_writes cs (NewFramer w r) = (None, f)" "fr_out f = concat (map call_wire cs)"
    by (auto simp: NewFramer_def SetMaxReadFrameSize_def)
  let ?fr = "SetMaxReadFrameSize v (NewFramer w' (fr_out f))"
  have "fr_maxReadSize ?fr = v" "fr_r ?fr = concat (map call_wire cs)"
    using assms(3) f(2) by (auto simp: NewFramer_def SetMaxReadFrameSize_def)
  then show ?thesis using read_frames_wire [of cs ?fr] small assms(2) f(1) by auto
qed

definition sample_frames :: "write_call list" where
  "sample_frames =
    [Call_Settings [\<lparr>set_ID = SettingInitialWindowSize, set_Val = 65535\<rparr>],
     Call_Headers \<lparr>hp_StreamID = 1, hp_BlockFragment = [0x82], hp_EndStream = False, hp_EndHeaders = True,
       hp_PadLength = 2, hp_Priority = \<lparr>StreamDep = 3, Exclusive = True, Weight = 9\<rparr>\<rparr>,
     Call_Data 1 True [1, 2, 3], Call_Ping True (replicate 8 7)]"

theorem frames_round_trip_witness:
  "\<exists>f fr. do_writes sample_frames (NewFramer (\<lambda>out b. (length b, None)) []) = (None, f) \<and>
     read_frames 5 (SetMaxReadFrameSize 16384 (NewFramer (\<lambda>out b. (length b, None)) (fr_out f))) =
       Returns (map call_frame sample_frames, Some Http2EOF, fr)"
proof -
  have "accepting (\<lambda>out b. (length b, None))" by (simp add: accepting_def)
  moreover have "\<forall>c \<in> set sample_frames. legal_call c \<and> length (call_payload c) \<le> unat (16384 :: 32 word)"
    by (simp add: sample_frames_def validStreamID_def setting_bytes_def pad_prefix_def priority_bytes_def)
  moreover have "(16384 :: 32 word) \<le> maxFrameSize" by (simp add: maxFrameSize_def)
  moreover have "Suc (length sample_frames) = 5" by (simp add: sample_frames_def)
  ultimately show ?thesis
    using frames_round_trip [of "\<lambda>out b. (length b, None)" sample_frames 16384 "[]" "\<lambda>out b. (length b, None)"]
    by (simp only: simp_thms)
qed

text \<open>
  C18: Frames are lent, not given. Whatever bytes arrive and whatever reads, writes and changes of the
  limit went before, a call of \<open>ReadFrame\<close> returns without a crash; a frame it hands out is within
  the limit on frame sizes, has a stream identifier of 31 bits and was read from exactly its nine
  bytes of header and the announced bytes of payload; and afterwards that frame is valid and no other
  frame that was ever handed out is (so an accessor of an old frame stops instead of showing the
  reused buffer), none at all when the call returned an error.
\<close>

theorem ReadFrame_lends:
  "\<exists>fr r fr'. run_framer ops (NewFramer w bs) = Returns fr \<and> ReadFrame fr = Returns (r, fr') \<and> read_step fr r fr' \<and>
     (\<forall>i < length (fr_frames fr'). fh_valid (Header (fr_frames fr' ! i)) \<longleftrightarrow> r = Inr i)"
proof -
  obtain fr where fr: "run_framer ops (NewFramer w bs) = Returns fr" "owned fr"
    using run_framer_owned [OF NewFramer_owned] by blast
  obtain r fr' where "ReadFrame fr = Returns (r, fr')" "read_step fr r fr'" using ReadFrame_total by blast
  with fr read_step_valid show ?thesis by blast
qed

theorem ReadFrame_lends_witness:
  "\<exists>fr r fr'. run_framer [Op_Read, Op_SetMax 16384] (NewFramer (\<lambda>out b. (length b, None)) (replicate 20 0)) = Returns fr \<and>
     ReadFrame fr = Returns (r, fr') \<and>
     (\<forall>i < length (fr_frames fr'). fh_valid (Header (fr_frames fr' ! i)) \<longleftrightarrow> r = Inr i)"
  using ReadFrame_lends [of "[Op_Read, Op_SetMax 16384]" "\<lambda>out b. (length b, None)" "replicate 20 0"] by blast

text \<open>
  A stream that ends after the header of a frame, before the payload that the header announces, is
  reported as \<open>io.EOF\<close>, the clean end of a stream, and not as \<open>io.ErrUnexpectedEOF\<close>.
\<close>

theorem ReadFrame_truncated:
  assumes "p \<noteq> []" "length p < 2 ^ 24"
  shows "\<exists>fr. ReadFrame (NewFramer w (take frameHeaderLen (wire_frame t fl i p))) = Returns (Inl Http2EOF, fr)"
proof -
  let ?b = "take frameHeaderLen (wire_frame t fl i p)"
  have "?b = be24 (length p) @ [t, fl] @ be32 i" by (simp add: wire_frame_def be24_def frameHeaderLen_def)
  moreover have "readFrameHeader (be24 (length p) @ [t, fl] @ be32 i) = Returns (Inr (header_of t fl i p), [])"
  proof -
    have "readFrameHeader (wire_frame t fl i p @ []) = Returns (Inr (header_of t fl i p), p @ [])"
      by (rule readFrameHeader_wire [OF assms(2)])
    then show ?thesis
      by (auto simp: readFrameHeader_def io_ReadFull_def wire_frame_def be24_def frameHeaderLen_def bind_outcome_Returns_iff)
  qed
  moreover have "\<not> of_nat (length p) > maxFrameSize"
    using assms(2) by (simp add: maxFrameSize_def word_less_nat_alt unat_length24)
  ultimately show ?thesis
    using assms by (simp add: ReadFrame_def NewFramer_def SetMaxReadFrameSize_def invalidate_last_def Let_def io_ReadFull_def unat_length24)
qed

end
