(* ===== verification/Spec2Isabelle.thy ===== *)
theory Spec2Isabelle
  imports Presence_Spec Sarama_Dispatch Presence_Proto Hpack_Roundtrip Http2_Framer
begin

text \<open>
  Verification of \<open>service-device-presence\<close>, a gRPC service in Go that keeps track of which devices
  of a user are online. It stores devices in Redis, in sets per user and minute and one key per
  device, and publishes every change to Kafka. The program's own code is \<open>main.go\<close>,
  \<open>devicepresence/\<close> and \<open>util/\<close>; the libraries that carry its behaviour are vendored below
  \<open>Godeps/_workspace/src\<close> and modelled from there: the Redis client redigo, the Kafka client
  sarama, the protobuf runtime, the snappy codec, a circuit breaker, a clock, and the frames and the
  header compression of HTTP/2, on which grpc runs.

  \<^bold>\<open>How the parts interact.\<close> \<open>main\<close> reads the addresses, makes the pool and the producer and serves.
  \<open>SetStatus\<close> and \<open>GetDevices\<close> of \<open>manager.go\<close> take a connection from the pool, send commands over
  it and give it back; \<open>SetStatus\<close> then encodes an event and hands it to the synchronous producer, which
  passes it through a pipeline of goroutines to the connection of the broker that leads the partition;
  the client of sarama knows the partitions and leaders from the metadata it keeps and refreshes.

  \<^bold>\<open>Theories.\<close>
  \<^item> \<open>Prelude\<close>: wrap-around of machine integers, outcomes of calls (a result, a panic, an exit), errors,
    decimal digits and string functions of Go. \<open>Go_Time\<close>: times, durations and truncation.
  \<^item> \<open>Clock_Pkg\<close> (\<open>clock/mock.go\<close>, \<open>real.go\<close>), \<open>Util_Bucket\<close> (\<open>util/bucket.go\<close>): what \<open>BucketRange\<close> returns
    on every input, and that a clock that crosses a boundary makes it skip a bucket.
  \<^item> \<open>Redigo_Conn\<close>, \<open>Redigo_Resp\<close>, \<open>Redigo_Reply\<close> (\<open>redis/conn.go\<close>, \<open>reply.go\<close>): commands, the reply
    parser, conversions. The parser is total (its recursion is bounded by the input), inverts the
    server's encoding, and its lengths wrap.
  \<^item> \<open>Redigo_Pool\<close>, \<open>Redigo_Pooled\<close> (\<open>redis/pool.go\<close>): the pool as a step relation of goroutines between
    critical sections, with the invariants that connections are counted and never shared; pooled
    connections and how \<open>Close\<close> undoes what the handler left behind.
  \<^item> \<open>Redis_Ref\<close>: the locale \<open>resp_peer\<close> of what the client relies on, interpreted on a reference server
    for the commands the service uses; pipelining and clean-up as properties of client and server.
  \<^item> \<open>Presence_PB\<close>, \<open>Presence_Manager\<close>, \<open>Presence_Session\<close>, \<open>Main_Go\<close>: messages, the two handlers as functions over
    the record \<open>services\<close>, the handlers on a session, and \<open>main\<close>.
  \<^item> \<open>Presence_Stack\<close>, \<open>Presence_Spec\<close> and this theory: the handlers on the whole stack (pool, connection, parser,
    reference server, clock), an abstract presence map, and the refinement between them.
  \<^item> \<open>Proto_Wire\<close>, \<open>Proto_Props\<close>, \<open>Proto_Encode\<close>, \<open>Proto_Decode\<close> (\<open>golang/protobuf/proto/encode.go\<close>, \<open>decode.go\<close>,
    \<open>properties.go\<close>): the wire primitives on 64-bit words, the struct tags and the tables of fields with
    their encoders and decoders, and \<open>Marshal\<close>, \<open>Size\<close> and \<open>Unmarshal\<close> over every kind of field. The
    locale \<open>tag_table\<close> is the table of tags, interpreted on the two-level map of the code.
  \<^item> \<open>Proto_Total\<close>, \<open>Proto_Types\<close>, \<open>Proto_Size\<close>, \<open>Proto_Roundtrip\<close>, \<open>Proto_Map\<close>: the decoder returns on every
    input, keeps messages well typed, and inverts the encoder; \<open>Size\<close> is the length of the encoding,
    except for maps, whose entries may also crash the decoder.
  \<^item> \<open>Presence_Proto\<close>: the struct types of \<open>devicepresence.pb.go\<close> and the bytes of an event, so that the
    theorems on \<open>SetStatus\<close> below speak of the encoder the program uses.
  \<^item> \<open>Snappy_Block\<close> (\<open>snappy/encode.go\<close>, \<open>decode.go\<close>): decoding inverts encoding, and the memory it takes.
  \<^item> \<open>Sarama_Codec\<close>, \<open>Sarama_Decoder\<close> (\<open>prep_encoder.go\<close>, \<open>real_encoder.go\<close>, \<open>real_decoder.go\<close>, the fields): an
    \<open>encode\<close> method is the list of calls it makes, run by both encoders; a decoder is a state
    function. The locale \<open>kafka_codec\<close> is the contract of a pair of methods; arrays and maps of
    topics and partitions are built from it once, and every message type interprets it.
  \<^item> \<open>Sarama_Message\<close>, \<open>Sarama_Protocol\<close> (\<open>message.go\<close>, \<open>message_set.go\<close>, the requests and responses): round
    trips under any order of Go's map iteration, decoders that never panic, cut-off sets.
  \<^item> \<open>Sarama_Config\<close>, \<open>Sarama_Partitioner\<close>, \<open>Go_Breaker\<close> (\<open>config.go\<close>, \<open>errors.go\<close>, \<open>partitioner.go\<close>, \<open>breaker.go\<close>):
    defaults and validation, which partition a key gets, the breaker under concurrency.
  \<^item> \<open>Sarama_Broker\<close> (\<open>broker.go\<close>): the connection as a step relation; every pending request gets its own
    response.
  \<^item> \<open>Sarama_Client\<close> (\<open>client.go\<close>): the caches of brokers, metadata and partitions. An update refines the
    abstract view of the cluster, no operation of an open client panics or loops, \<open>Leader\<close> may return
    a leader with a stale error, and a \<open>Close\<close> during a refresh makes it panic.
  \<^item> \<open>Sarama_Producer\<close>, \<open>Sarama_Dispatch\<close> (\<open>async_producer.go\<close>, \<open>sync_producer.go\<close>): each goroutine is a state and
    a function per message. The flusher answers every message exactly once, the leader dispatcher
    keeps the order of messages under retries, the aggregator respects the limits of a batch, the
    retry handler is a queue, and channels of brokers are closed once.
  \<^item> \<open>Hpack_Tables\<close>, \<open>Hpack_Huffman\<close>, \<open>Hpack_Codec\<close>, \<open>Hpack_Roundtrip\<close> (\<open>http2/hpack/tables.go\<close>, \<open>huffman.go\<close>, \<open>hpack.go\<close>,
    \<open>encode.go\<close>): the code tables, the Huffman tree with its decoder and encoder, the dynamic table, the
    incremental decoder and the encoder with its size updates. Encoder and decoder stay in step
    (\<open>in_step\<close>), so every sequence of fields survives; the locale \<open>incremental_parser\<close> shows that a
    block may be cut anywhere; the table keeps its bounds on every input, and one input crashes.
  \<^item> \<open>Http2_Frame\<close>, \<open>Http2_Framer\<close> (\<open>http2/frame.go\<close>, the settings of \<open>http2.go\<close>, the codes of \<open>errors.go\<close>): every
    frame type with its parser and write method, and the framer. Frames that are written are read
    back, no input crashes the reader, and only the frame that was read last is valid. A frame keeps its
    own bytes in the model; the code shares one buffer, which is why old frames are invalidated.

  \<^bold>\<open>Choices.\<close> Fallible calls return sums or \<open>outcome\<close>. Machine integers are \<open>int\<close> with \<open>wrap32\<close> and
  \<open>wrap64\<close> where an operation can overflow, and words for hashes and protobuf values. Recursion is
  total but for two places with fuel: the nesting depth of compressed message sets, where the round
  trips hold for every depth that is enough for the set, and the loops of \<open>Unmarshal\<close>, whose fuel is
  the length of the input and one, proved enough for every input. Where Go leaves an order open (map iteration, goroutines, \<open>select\<close>) it is an
  argument, a step relation or an input list, and the theorems quantify over it.

  \<^bold>\<open>Parameters.\<close> The socket errors, the system clock, random numbers, gzip, and what the brokers answer
  to the requests of the client.

  \<^bold>\<open>Not modelled.\<close> grpc with its transport, glog and the support libraries, which the service only
  calls; the net/http server and client of the HTTP/2 package, which grpc does not use; the
  consumer, mocks and tools of sarama, the scripts, publish/subscribe and scanning of redigo, the
  streaming side of snappy, and the text format and extensions of protobuf, which it does not use.
  In the protobuf runtime, types that marshal themselves and the pools of pointers are left out.
  Still open is the composition of the dispatchers into one system with the client and the brokers.
\<close>

section \<open>The service on the whole stack\<close>

abbreviation event_body :: "Device \<Rightarrow> int \<Rightarrow> string" where
  "event_body dev t \<equiv> Event_bytes \<lparr>ev_Timestamp = t, ev_Device = Some dev\<rparr>"

lemma recent_set_status:
  assumes "dev_Type dev = Device_WS" and "b \<le> b'" and "b' \<le> b + NumBuckets"
  shows "(\<exists>x \<in> recent (set_status b dev a) (dev_UserId dev) b'. dev_Id dev = dev_Id x) \<longleftrightarrow> dev_Status dev = Device_ONLINE"
    "dev_Status dev = Device_ONLINE \<Longrightarrow> dev \<in> recent (set_status b dev a) (dev_UserId dev) b'"
proof -
  show on: "dev \<in> recent (set_status b dev a) (dev_UserId dev) b'" if "dev_Status dev = Device_ONLINE"
    using assms that unfolding recent_def
    by (intro CollectI exI [of _ "dev_Id dev"] exI [of _ "dev_UserId dev"] exI [of _ b])
       (simp add: set_status_def go_online_def)
  have "dev_Id x \<noteq> dev_Id dev" if "dev_Status dev \<noteq> Device_ONLINE" "x \<in> recent (set_status b dev a) (dev_UserId dev) b'" for x
    using that by (auto simp: recent_def set_status_def go_offline_def)
  with on show "(\<exists>x \<in> recent (set_status b dev a) (dev_UserId dev) b'. dev_Id dev = dev_Id x) \<longleftrightarrow> dev_Status dev = Device_ONLINE"
    by metis
qed







section \<open>Errors and surprises\<close>

text \<open>
  When the producer refuses the event, \<open>SetStatus\<close> answers with its error although the
  status has been stored: the reply and the presence data disagree.
\<close>

theorem SetStatus_producer_error:
  assumes "w_free w (d, None)" and "store_ok T d" and "sr_Device r = Some dev" and "ok_device dev"
    and "os_window (minute_start b) (minute_start (b + 1)) 2 (w_clock (w_get addr w))" and "0 \<le> b"
    and "\<And>m w. snd (snd (pub m w)) = Some e"
  shows "\<exists>w' d'. SetStatus event_Marshal (stack addr sentinel pub strm) (Some r) w = Returns (Inl e, w') \<and>
    w_free w' (d', None) \<and> abs_store d' = set_status b dev (abs_store d)"
proof (rule SetStatus_store [where Marshal = event_Marshal and body = "event_body dev" and sentinel = sentinel and pub = pub
      and strm = strm, OF assms(1-6) event_Marshal_bytes])
  fix w' d' t err m w0
  assume "SetStatus event_Marshal (stack addr sentinel pub strm) (Some r) w =
       Returns (case err of Some e \<Rightarrow> Inl e | None \<Rightarrow> Inr StatusReply, w')"
    "w_free w' (d', None)" "abs_store d' = set_status b dev (abs_store d)" "err = snd (snd (pub m w0))"
  then show ?thesis using assms(7) by auto
qed

lemma SetStatus_producer_error_witness:
  "\<exists>w' d'. SetStatus event_Marshal (stack ''redis:6379'' ''s'' (\<lambda>_ _. (0, 0, Some EOF)) (\<lambda>_ _. None))
      (Some \<lparr>sr_Device = Some phone\<rparr>) fresh = Returns (Inl EOF, w') \<and>
    w_free w' (d', None) \<and> abs_store d' = set_status 10 phone (abs_store \<lparr>kv = Map.empty, clock_ms = 0\<rparr>)"
  by (rule SetStatus_producer_error [where T = hold])
     (simp_all only: fresh_ok morning_window phone_ok, simp_all)








end
